(* ===== verification/JM_Prelude.thy ===== *)
theory JM_Prelude
  imports Main "HOL-Library.Word" "HOL-Library.List_Lexorder" "HOL-Library.Char_ord"
    "HOL-Library.Monad_Syntax"
begin

text \<open>
  Shared vocabulary of the development.

  \<^item> Names for the machine integers of the code.
  \<^item> \<open>std::map\<close>: an association list kept in ascending key order (\<open>omap_ok\<close>), with
    \<open>omap_put\<close> for \<open>m[k] = v\<close>, \<open>omap_emplace\<close> for \<open>m.emplace(k, v)\<close>, \<open>omap_del\<close> for
    \<open>m.erase(k)\<close> and \<open>map_of\<close> for \<open>m.find(k)\<close>. The order of the list is the iteration order of
    the container, which the codecs depend on. \<open>std::unordered_map\<close> is modelled the same way
    where no modelled operation depends on its iteration order.
  \<^item> \<open>std::set\<close>: an ascending list without repetition (\<open>oset_ok\<close>).
  \<^item> The locale \<open>map_adt\<close>, the contract of a finite map, and its interpretation on \<open>omap\<close>.
  \<^item> Exceptions: \<open>'e + 'a\<close>, sequenced by \<open>bindE\<close>.
\<close>

unbundle bit_operations_syntax

type_synonym u8 = "8 word"
type_synonym u16 = "16 word"
type_synonym u32 = "32 word"
type_synonym u64 = "64 word"
type_synonym bytes = "u8 list"

named_theorems wf_intros "introduction rules for well-formedness predicates"
named_theorems codec_simps "round trips of the little-endian readers and writers"

section \<open>Exceptions\<close>

fun bindE :: "'e + 'a \<Rightarrow> ('a \<Rightarrow> 'e + 'b) \<Rightarrow> 'e + 'b" where
  "bindE (Inl e) f = Inl e"
| "bindE (Inr x) f = f x"

lemma bindE_Inr: "bindE m f = Inr y \<longleftrightarrow> (\<exists>x. m = Inr x \<and> f x = Inr y)"
  by (cases m) auto

lemma bindE_Inl: "bindE m f = Inl e \<longleftrightarrow> m = Inl e \<or> (\<exists>x. m = Inr x \<and> f x = Inl e)"
  by (cases m) auto

section \<open>Ordered maps\<close>

type_synonym ('k, 'v) omap = "('k \<times> 'v) list"

definition omap_ok :: "('k::linorder, 'v) omap \<Rightarrow> bool" where
  "omap_ok m \<longleftrightarrow> sorted_wrt (<) (map fst m)"

fun omap_put :: "'k::linorder \<Rightarrow> 'v \<Rightarrow> ('k, 'v) omap \<Rightarrow> ('k, 'v) omap" where
  "omap_put k v [] = [(k, v)]"
| "omap_put k v ((a, b) # m) =
     (if k < a then (k, v) # (a, b) # m
      else if k = a then (k, v) # m
      else (a, b) # omap_put k v m)"

fun omap_del :: "'k \<Rightarrow> ('k, 'v) omap \<Rightarrow> ('k, 'v) omap" where
  "omap_del k [] = []"
| "omap_del k ((a, b) # m) = (if k = a then m else (a, b) # omap_del k m)"

definition omap_emplace :: "'k::linorder \<Rightarrow> 'v \<Rightarrow> ('k, 'v) omap \<Rightarrow> ('k, 'v) omap" where
  "omap_emplace k v m = (case map_of m k of None \<Rightarrow> omap_put k v m | Some _ \<Rightarrow> m)"

text \<open>\<open>m[k]\<close> read through \<open>operator[]\<close>: the default value stands for an absent entry.\<close>

definition omap_at :: "'v \<Rightarrow> ('k, 'v) omap \<Rightarrow> 'k \<Rightarrow> 'v" where
  "omap_at d m k = (case map_of m k of None \<Rightarrow> d | Some v \<Rightarrow> v)"

lemma ball_omap_at: "P k d \<Longrightarrow> \<forall>(k, v) \<in> set m. P k v \<Longrightarrow> P k (omap_at d m k)"
  by (cases "map_of m k") (auto simp: omap_at_def dest!: map_of_SomeD)

lemma omap_ok_Nil [simp]: "omap_ok []"
  by (simp add: omap_ok_def)

lemma omap_ok_Cons: "omap_ok ((a, b) # m) \<longleftrightarrow> (\<forall>x \<in> fst ` set m. a < x) \<and> omap_ok m"
  by (auto simp: omap_ok_def)

lemma omap_ok_distinct: "omap_ok m \<Longrightarrow> distinct (map fst m)"
  by (induction m) (fastforce simp: omap_ok_Cons)+

lemma map_of_omap_put [simp]: "map_of (omap_put k v m) = (map_of m)(k \<mapsto> v)"
  by (induction m rule: omap_put.induct) auto

lemma keys_omap_put [simp]: "fst ` set (omap_put k v m) = insert k (fst ` set m)"
  by (induction m rule: omap_put.induct) auto

lemma omap_ok_put [simp, wf_intros]: "omap_ok m \<Longrightarrow> omap_ok (omap_put k v m)"
  by (induction m rule: omap_put.induct) (auto simp: omap_ok_Cons)

lemma ball_omap_put: "\<forall>(k, v) \<in> set m. P k v \<Longrightarrow> P k v \<Longrightarrow> \<forall>(k, v) \<in> set (omap_put k v m). P k v"
  by (induction k v m rule: omap_put.induct) auto

lemma set_omap_del: "set (omap_del k m) \<subseteq> set m"
  by (induction m) (auto split: if_splits)

lemma omap_ok_del [simp, wf_intros]: "omap_ok m \<Longrightarrow> omap_ok (omap_del k m)"
  by (induction m) (use set_omap_del in \<open>fastforce simp: omap_ok_Cons\<close>)+

lemma map_of_omap_del [simp]: "omap_ok m \<Longrightarrow> map_of (omap_del k m) = (map_of m)(k := None)"
proof (induction m)
  case (Cons p m)
  obtain a b where p: "p = (a, b)" by (cases p)
  have "map_of m a = None" if "k = a"
    using Cons.prems p by (auto simp: omap_ok_Cons map_of_eq_None_iff)
  then show ?case using Cons p by (auto simp: omap_ok_Cons fun_upd_idem)
qed simp

lemma map_of_omap_emplace [simp]:
  "map_of (omap_emplace k v m) = (case map_of m k of None \<Rightarrow> (map_of m)(k \<mapsto> v) | Some _ \<Rightarrow> map_of m)"
  by (auto simp: omap_emplace_def split: option.splits)

lemma omap_ok_emplace [simp, wf_intros]: "omap_ok m \<Longrightarrow> omap_ok (omap_emplace k v m)"
  by (auto simp: omap_emplace_def split: option.splits)

lemma omap_ext:
  assumes "omap_ok m" "omap_ok m'" "map_of m = map_of m'"
  shows "m = m'"
proof -
  have "set m = set m'"
    using assms map_of_eq_Some_iff [OF omap_ok_distinct] by (metis subset_antisym subrelI)
  moreover have "sorted (map fst m)" "sorted (map fst m')"
    using assms(1,2) by (auto simp: omap_ok_def intro: sorted_wrt_mono_rel [rotated])
  ultimately show ?thesis
    using assms map_sorted_distinct_set_unique [of fst m m']
    by (metis distinct_map inj_on_Un Un_absorb omap_ok_distinct)
qed

lemma omap_put_snoc: "(\<forall>x \<in> fst ` set m. x < k) \<Longrightarrow> omap_put k v m = m @ [(k, v)]"
  by (induction m rule: omap_put.induct) (auto simp: less_le_not_le)

lemma omap_emplace_snoc: "(\<forall>x \<in> fst ` set m. x < k) \<Longrightarrow> omap_emplace k v m = m @ [(k, v)]"
proof -
  assume below: "\<forall>x \<in> fst ` set m. x < k"
  then have "map_of m k = None" by (auto simp: map_of_eq_None_iff)
  with below show ?thesis by (simp add: omap_emplace_def omap_put_snoc)
qed

text \<open>Feeding the entries of an ordered map, in order, into an empty one rebuilds it.\<close>

lemma omap_ok_append:
  "omap_ok (m @ m') \<longleftrightarrow> omap_ok m \<and> omap_ok m' \<and> (\<forall>x \<in> fst ` set m. \<forall>y \<in> fst ` set m'. x < y)"
  by (auto simp: omap_ok_def sorted_wrt_append)

lemma omap_rebuild_acc:
  "omap_ok (m @ m') \<Longrightarrow> fold (\<lambda>(k, v). omap_put k v) m' m = m @ m'"
proof (induction m' arbitrary: m)
  case (Cons p m')
  obtain k v where p: "p = (k, v)" by (cases p)
  have "omap_put k v m = m @ [(k, v)]"
    using Cons.prems p by (intro omap_put_snoc) (auto simp: omap_ok_append)
  then show ?case using Cons.IH [of "m @ [(k, v)]"] Cons.prems p by simp
qed simp

lemma omap_rebuild: "omap_ok m \<Longrightarrow> fold (\<lambda>(k, v). omap_put k v) m [] = m"
  using omap_rebuild_acc [of "[]" m] by simp

lemma omap_rebuild_emplace_acc:
  "omap_ok (m @ m') \<Longrightarrow> fold (\<lambda>(k, v). omap_emplace k v) m' m = m @ m'"
proof (induction m' arbitrary: m)
  case (Cons p m')
  obtain k v where p: "p = (k, v)" by (cases p)
  have "omap_emplace k v m = m @ [(k, v)]"
    using Cons.prems p by (intro omap_emplace_snoc) (auto simp: omap_ok_append)
  then show ?case using Cons.IH [of "m @ [(k, v)]"] Cons.prems p by simp
qed simp

lemma omap_rebuild_emplace: "omap_ok m \<Longrightarrow> fold (\<lambda>(k, v). omap_emplace k v) m [] = m"
  using omap_rebuild_emplace_acc [of "[]" m] by simp

text \<open>Mapping over the values keeps the keys, so it keeps the order.\<close>

lemma omap_ok_map_snd: "omap_ok (map (\<lambda>(k, v). (k, f k v)) m) \<longleftrightarrow> omap_ok m"
  by (simp add: omap_ok_def comp_def case_prod_beta)

lemma omap_ok_filter: "omap_ok m \<Longrightarrow> omap_ok (filter P m)"
  by (induction m) (auto simp: omap_ok_Cons)

lemma map_of_filter_snd:
  "distinct (map fst m) \<Longrightarrow>
   map_of (filter (\<lambda>(k, v). P k v) m) k = (case map_of m k of None \<Rightarrow> None
      | Some v \<Rightarrow> if P k v then Some v else None)"
  by (induction m) (auto simp: map_of_eq_None_iff split: option.splits dest: map_of_SomeD)

section \<open>Ordered sets\<close>

definition oset_ok :: "'a::linorder list \<Rightarrow> bool" where
  "oset_ok xs \<longleftrightarrow> sorted_wrt (<) xs"

fun oset_ins :: "'a::linorder \<Rightarrow> 'a list \<Rightarrow> 'a list" where
  "oset_ins x [] = [x]"
| "oset_ins x (y # ys) = (if x < y then x # y # ys else if x = y then y # ys else y # oset_ins x ys)"

definition oset_del :: "'a \<Rightarrow> 'a list \<Rightarrow> 'a list" where
  "oset_del x xs = filter (\<lambda>y. y \<noteq> x) xs"

lemma oset_ok_Nil [simp]: "oset_ok []"
  by (simp add: oset_ok_def)

lemma oset_ok_Cons: "oset_ok (x # xs) \<longleftrightarrow> (\<forall>y \<in> set xs. x < y) \<and> oset_ok xs"
  by (simp add: oset_ok_def)

lemma set_oset_ins [simp]: "set (oset_ins x xs) = insert x (set xs)"
  by (induction xs) auto

lemma oset_ok_ins [simp, wf_intros]: "oset_ok xs \<Longrightarrow> oset_ok (oset_ins x xs)"
  by (induction xs) (auto simp: oset_ok_Cons)

lemma set_oset_del [simp]: "set (oset_del x xs) = set xs - {x}"
  by (auto simp: oset_del_def)

lemma oset_ok_del [simp, wf_intros]: "oset_ok xs \<Longrightarrow> oset_ok (oset_del x xs)"
  by (induction xs) (auto simp: oset_ok_Cons oset_del_def)

lemma oset_del_id: "x \<notin> set xs \<Longrightarrow> oset_del x xs = xs"
  by (induction xs) (auto simp: oset_del_def)

text \<open>The first element, \<open>*s.begin()\<close>, is the least one.\<close>

lemma oset_ok_hd_le: "oset_ok xs \<Longrightarrow> x \<in> set xs \<Longrightarrow> hd xs \<le> x"
  by (cases xs) (auto simp: oset_ok_Cons less_imp_le)

section \<open>The contract of a finite map\<close>

locale map_adt =
  fixes emp :: "'m" and get :: "'m \<Rightarrow> 'k \<Rightarrow> 'v option"
    and put :: "'k \<Rightarrow> 'v \<Rightarrow> 'm \<Rightarrow> 'm" and del :: "'k \<Rightarrow> 'm \<Rightarrow> 'm"
    and inv :: "'m \<Rightarrow> bool"
  assumes inv_emp: "inv emp"
    and inv_put: "inv m \<Longrightarrow> inv (put k v m)"
    and inv_del: "inv m \<Longrightarrow> inv (del k m)"
    and get_emp: "get emp = Map.empty"
    and get_put: "inv m \<Longrightarrow> get (put k v m) = (get m)(k \<mapsto> v)"
    and get_del: "inv m \<Longrightarrow> get (del k m) = (get m)(k := None)"
    and get_ext: "inv m \<Longrightarrow> inv m' \<Longrightarrow> get m = get m' \<Longrightarrow> m = m'"
begin

lemma put_put: "inv m \<Longrightarrow> put k v' (put k v m) = put k v' m"
  by (rule get_ext) (simp_all add: inv_put get_put)

lemma put_put_other: "inv m \<Longrightarrow> k \<noteq> k' \<Longrightarrow> put k v (put k' v' m) = put k' v' (put k v m)"
  by (rule get_ext) (simp_all add: inv_put get_put fun_upd_twist)

lemma put_same: "inv m \<Longrightarrow> get m k = Some v \<Longrightarrow> put k v m = m"
  by (rule get_ext) (simp_all add: inv_put get_put fun_upd_idem)

lemma del_put: "inv m \<Longrightarrow> del k (put k v m) = del k m"
  by (rule get_ext) (simp_all add: inv_put inv_del get_put get_del)

lemma del_absent: "inv m \<Longrightarrow> get m k = None \<Longrightarrow> del k m = m"
  by (rule get_ext) (simp_all add: inv_del get_del fun_upd_idem)

end

interpretation omap: map_adt "[]" map_of omap_put omap_del omap_ok
  by unfold_locales (auto intro: omap_ext)

section \<open>Characters and bytes\<close>

definition byte_of_char :: "char \<Rightarrow> u8" where
  "byte_of_char c = of_char c"

definition char_of_byte :: "u8 \<Rightarrow> char" where
  "char_of_byte b = char_of (unat b)"

abbreviation string_bytes :: "string \<Rightarrow> bytes" where
  "string_bytes s \<equiv> map byte_of_char s"

abbreviation bytes_string :: "bytes \<Rightarrow> string" where
  "bytes_string bs \<equiv> map char_of_byte bs"

lemma unat_byte_of_char: "unat (byte_of_char c) = of_char c"
proof -
  have "(of_char c :: u8) = of_nat (of_char c)" by (simp add: of_nat_of_char)
  then show ?thesis by (simp add: byte_of_char_def unat_of_nat)
qed

lemma char_of_byte_of_char [simp]: "char_of_byte (byte_of_char c) = c"
  by (simp add: char_of_byte_def unat_byte_of_char)

lemma byte_of_char_of_byte [simp]: "byte_of_char (char_of_byte b) = b"
proof -
  have "unat b < 256" using unsigned_less [of b] by simp
  then have "unat (byte_of_char (char_of_byte b)) = unat b"
    by (simp add: unat_byte_of_char char_of_byte_def)
  then show ?thesis by (rule word_unat_eq_iff [THEN iffD2])
qed

lemma char_byte_comp [simp]: "char_of_byte \<circ> byte_of_char = id" "byte_of_char \<circ> char_of_byte = id"
  by auto

lemma bytes_string_bytes [simp]: "bytes_string (string_bytes s) = s"
  by simp

lemma string_bytes_string [simp]: "string_bytes (bytes_string bs) = bs"
  by simp

lemma inj_string_bytes: "string_bytes s = string_bytes t \<Longrightarrow> s = t"
  by (metis bytes_string_bytes)

lemma map_byte_of_char_string [simp]: "map char_of_byte (string_bytes s) = s"
  by simp

lemma less_char_iff_byte: "c < d \<longleftrightarrow> byte_of_char c < byte_of_char d"
  by (simp add: less_char_def word_less_nat_alt unat_byte_of_char)

section \<open>Words\<close>

lemma mask_8: "(0xFF :: 'a::len word) = mask 8"
  by (simp add: mask_eq_exp_minus_1)

lemma ucast_mask_8 [simp]: "(ucast (x AND 0xFF) :: u8) = ucast (x :: 'a::len word)"
  unfolding mask_8 by (rule bit_word_eqI) (auto simp: bit_simps dest: bit_imp_le_length)

lemma unat_of_nat_small: "n < 2 ^ LENGTH('a::len) \<Longrightarrow> unat (of_nat n :: 'a word) = n"
  by (simp add: unat_of_nat)

end
