(* ===== verification/Float64.thy ===== *)
theory Float64
  imports JM_Prelude
begin

text \<open>
  What the engine uses of the C++ number library: decimal printing of integers, IEEE-754
  binary64 values as their bit patterns (conversion from and to integers, comparison, the
  \<open>%f\<close> text of \<open>std::to_string(double)\<close>), and the parsers \<open>std::stoll\<close> and \<open>std::stod\<close>.
  A \<open>double\<close> is a 64-bit word. All arithmetic is exact on integers followed by one
  rounding (to nearest, ties to even), as the standard demands.
\<close>

section \<open>Decimal text of integers\<close>

definition digit_char :: "nat \<Rightarrow> char" where
  "digit_char d = char_of (48 + d)"

fun nat_to_string :: "nat \<Rightarrow> string" where
  "nat_to_string n = (if n < 10 then [digit_char n] else nat_to_string (n div 10) @ [digit_char (n mod 10)])"

declare nat_to_string.simps [simp del]

definition int_to_string :: "int \<Rightarrow> string" where
  "int_to_string i = (if i < 0 then CHR ''-'' # nat_to_string (nat (- i)) else nat_to_string (nat i))"

lemma char_of_digit: "d < 10 \<Longrightarrow> of_char (digit_char d) = 48 + d"
  by (simp add: digit_char_def)

text \<open>Reading the digits back.\<close>

definition is_digit :: "char \<Rightarrow> bool" where
  "is_digit c \<longleftrightarrow> 48 \<le> (of_char c :: nat) \<and> (of_char c :: nat) \<le> 57"

definition digits_value :: "string \<Rightarrow> nat" where
  "digits_value s = foldl (\<lambda>acc c. acc * 10 + (of_char c - 48)) 0 s"

lemma digits_value_snoc: "digits_value (s @ [c]) = digits_value s * 10 + (of_char c - 48)"
  by (simp add: digits_value_def)

lemma digits_value_nat_to_string: "digits_value (nat_to_string n) = n"
proof (induction n rule: nat_to_string.induct)
  case (1 n)
  show ?case
  proof (cases "n < 10")
    case True
    then show ?thesis
      by (simp add: nat_to_string.simps [of n] digits_value_def char_of_digit)
  next
    case False
    with 1 show ?thesis
      by (simp add: nat_to_string.simps [of n] digits_value_snoc char_of_digit)
  qed
qed

lemma nat_to_string_digits: "c \<in> set (nat_to_string n) \<Longrightarrow> is_digit c"
proof (induction n rule: nat_to_string.induct)
  case (1 n)
  then show ?case
    by (cases "n < 10") (auto simp: nat_to_string.simps [of n] is_digit_def char_of_digit)
qed

lemma nat_to_string_not_Nil [simp]: "nat_to_string n \<noteq> []"
  by (simp add: nat_to_string.simps [of n])

lemma nat_to_string_inj: "nat_to_string m = nat_to_string n \<Longrightarrow> m = n"
  by (metis digits_value_nat_to_string)

lemma minus_not_digit: "\<not> is_digit (CHR ''-'')"
  by (simp add: is_digit_def)

lemma nat_to_string_no_minus: "nat_to_string m \<noteq> CHR ''-'' # s"
proof
  assume "nat_to_string m = CHR ''-'' # s"
  then have "CHR ''-'' \<in> set (nat_to_string m)" by simp
  then have "is_digit (CHR ''-'')" by (rule nat_to_string_digits)
  then show False using minus_not_digit by simp
qed

lemma int_to_string_inj: "int_to_string i = int_to_string j \<Longrightarrow> i = j"
  using nat_to_string_no_minus nat_to_string_no_minus [symmetric]
  by (auto simp: int_to_string_def split: if_splits dest!: nat_to_string_inj)

section \<open>Binary64\<close>

type_synonym double = u64

definition f_sign :: "double \<Rightarrow> bool" where
  "f_sign d = bit d 63"

definition f_mag :: "double \<Rightarrow> nat" where
  "f_mag d = unat (d AND mask 63)"

definition f_nan :: "double \<Rightarrow> bool" where
  "f_nan d \<longleftrightarrow> f_mag d > 2047 * 2 ^ 52"

definition f_inf :: "double \<Rightarrow> bool" where
  "f_inf d \<longleftrightarrow> f_mag d = 2047 * 2 ^ 52"

text \<open>A finite magnitude is \<open>m * 2 ^ e\<close>; it is returned as \<open>m\<close> and \<open>e + 1074\<close> (so a natural number).\<close>

definition f_parts :: "nat \<Rightarrow> nat \<times> nat" where
  "f_parts mag = (let ex = mag div 2 ^ 52; fr = mag mod 2 ^ 52 in
     if ex = 0 then (fr, 0) else (fr + 2 ^ 52, ex - 1))"

definition div_half_even :: "nat \<Rightarrow> nat \<Rightarrow> nat" where
  "div_half_even n d = (let q = n div d; r = n mod d in
     if 2 * r < d then q else if 2 * r > d then q + 1 else if even q then q else q + 1)"

fun nlog2 :: "nat \<Rightarrow> nat" where
  "nlog2 n = (if n \<le> 1 then 0 else 1 + nlog2 (n div 2))"

declare nlog2.simps [simp del]

text \<open>
  \<open>f_round_mag n d\<close>: the magnitude bits of the double nearest to the rational \<open>n / d\<close>
  (\<open>n, d > 0\<close>). \<open>sh\<close> is the exponent field of the unit in the last place, counted from the
  smallest one \<open>2 ^ -1074\<close>; a mantissa that rounds up to \<open>2 ^ 53\<close> carries into the exponent.
\<close>

definition f_round_mag :: "nat \<Rightarrow> nat \<Rightarrow> nat" where
  "f_round_mag n d =
     (let k = int (nlog2 n) - int (nlog2 d);
          k = (if 0 \<le> k then (if n < d * 2 ^ nat k then k - 1 else k)
               else (if n * 2 ^ nat (- k) < d then k - 1 else k));
          sh = nat (k - 52 + 1074);
          m = div_half_even (n * 2 ^ 1074) (d * 2 ^ sh)
      in min (sh * 2 ^ 52 + m) (2047 * 2 ^ 52))"

definition f_make :: "bool \<Rightarrow> nat \<Rightarrow> double" where
  "f_make s mag = (if s then of_nat (2 ^ 63 + mag) else of_nat mag)"

definition f_of_ratio :: "bool \<Rightarrow> nat \<Rightarrow> nat \<Rightarrow> double" where
  "f_of_ratio s n d = (if n = 0 then f_make s 0 else f_make s (f_round_mag n d))"

text \<open>\<open>(double) i\<close>\<close>

definition f_of_int :: "int \<Rightarrow> double" where
  "f_of_int i = f_of_ratio (i < 0) (nat \<bar>i\<bar>) 1"

text \<open>
  \<open>(int64_t) d\<close> truncates towards zero. Out of range the cast is undefined in C++; the value
  here is the one the x86-64 instruction gives.
\<close>

definition f_to_int64 :: "double \<Rightarrow> u64" where
  "f_to_int64 d =
     (let (m, e) = f_parts (f_mag d); a = int (m * 2 ^ e div 2 ^ 1074); i = (if f_sign d then - a else a) in
      if f_nan d \<or> f_inf d \<or> i < - (2 ^ 63) \<or> 2 ^ 63 \<le> i then of_nat (2 ^ 63) else of_int i)"

definition f_key :: "double \<Rightarrow> int" where
  "f_key d = (if f_sign d then - int (f_mag d) else int (f_mag d))"

definition f_eq :: "double \<Rightarrow> double \<Rightarrow> bool" where
  "f_eq a b \<longleftrightarrow> \<not> f_nan a \<and> \<not> f_nan b \<and> f_key a = f_key b"

definition f_lt :: "double \<Rightarrow> double \<Rightarrow> bool" where
  "f_lt a b \<longleftrightarrow> \<not> f_nan a \<and> \<not> f_nan b \<and> f_key a < f_key b"

lemma f_eq_sym: "f_eq a b = f_eq b a"
  by (auto simp: f_eq_def)

lemma f_eq_trans: "f_eq a b \<Longrightarrow> f_eq b c \<Longrightarrow> f_eq a c"
  by (simp add: f_eq_def)

lemma f_lt_irrefl: "\<not> f_lt a a"
  by (simp add: f_lt_def)

lemma f_lt_trans: "f_lt a b \<Longrightarrow> f_lt b c \<Longrightarrow> f_lt a c"
  by (simp add: f_lt_def)

text \<open>\<open>std::to_string(double)\<close>: the \<open>%f\<close> format, six decimals, exact and rounded half to even.\<close>

definition pad_left :: "nat \<Rightarrow> string \<Rightarrow> string" where
  "pad_left n s = replicate (n - length s) (CHR ''0'') @ s"

definition f_to_string :: "double \<Rightarrow> string" where
  "f_to_string d =
     (if f_sign d then ''-'' else '''') @
     (if f_nan d then ''nan'' else if f_inf d then ''inf''
      else let (m, e) = f_parts (f_mag d); q = div_half_even (m * 2 ^ e * 10 ^ 6) (2 ^ 1074)
           in nat_to_string (q div 10 ^ 6) @ ''.'' @ pad_left 6 (nat_to_string (q mod 10 ^ 6)))"

section \<open>\<open>std::stoll\<close> and \<open>std::stod\<close>\<close>

datatype num_error = InvalidArgument | OutOfRange

definition is_space :: "char \<Rightarrow> bool" where
  "is_space c \<longleftrightarrow> c = CHR '' '' \<or> (9 \<le> (of_char c :: nat) \<and> (of_char c :: nat) \<le> 13)"

definition take_sign :: "string \<Rightarrow> bool \<times> string" where
  "take_sign s = (case s of c # s' \<Rightarrow>
     if c = CHR ''-'' then (True, s') else if c = CHR ''+'' then (False, s') else (False, s)
     | [] \<Rightarrow> (False, []))"

definition stoll :: "string \<Rightarrow> num_error + u64" where
  "stoll str =
     (let (neg, s) = take_sign (dropWhile is_space str); ds = takeWhile is_digit s;
          i = (if neg then - int (digits_value ds) else int (digits_value ds)) in
      if ds = [] then Inl InvalidArgument
      else if i < - (2 ^ 63) \<or> 2 ^ 63 \<le> i then Inl OutOfRange
      else Inr (of_int i))"

definition lower :: "char \<Rightarrow> char" where
  "lower c = (if 65 \<le> (of_char c :: nat) \<and> (of_char c :: nat) \<le> 90 then char_of (of_char c + 32 :: nat) else c)"

definition is_xdigit :: "char \<Rightarrow> bool" where
  "is_xdigit c \<longleftrightarrow> is_digit c \<or> (97 \<le> (of_char (lower c) :: nat) \<and> (of_char (lower c) :: nat) \<le> 102)"

definition xdigit_value :: "char \<Rightarrow> nat" where
  "xdigit_value c = (if is_digit c then of_char c - 48 else of_char (lower c) - 87)"

definition base_value :: "nat \<Rightarrow> string \<Rightarrow> nat" where
  "base_value b s = foldl (\<lambda>acc c. acc * b + xdigit_value c) 0 s"

text \<open>The optional exponent part, introduced by the letter \<open>x\<close>; 0 when it is absent or has no digits.\<close>

definition take_exponent :: "char \<Rightarrow> string \<Rightarrow> int" where
  "take_exponent x s = (case s of c # s' \<Rightarrow>
     if lower c = x then
       (let (neg, t) = take_sign s'; ds = takeWhile is_digit t in
        if neg then - int (digits_value ds) else int (digits_value ds))
     else 0
     | [] \<Rightarrow> 0)"

text \<open>
  \<open>strtod\<close> of the C library: white space, a sign, then \<open>inf\<close>, \<open>nan\<close>, a hexadecimal or a decimal
  number; what follows is ignored. \<open>std::stod\<close> throws \<open>invalid_argument\<close> when nothing was
  converted and \<open>out_of_range\<close> on overflow, or on an inexact result below the normal range.
\<close>

definition ratio_double :: "bool \<Rightarrow> nat \<Rightarrow> nat \<Rightarrow> num_error + double" where
  "ratio_double neg n d =
     (if n = 0 then Inr (f_make neg 0)
      else let mag = f_round_mag n d in
        if mag = 2047 * 2 ^ 52 then Inl OutOfRange
        else if mag \<le> 2 ^ 52 \<and> n * 2 ^ 1074 < d * 2 ^ 52 \<and> n * 2 ^ 1074 \<noteq> d * mag then Inl OutOfRange
        else Inr (f_make neg mag))"

definition number_double :: "nat \<Rightarrow> nat \<Rightarrow> (char \<Rightarrow> bool) \<Rightarrow> char \<Rightarrow> bool \<Rightarrow> string \<Rightarrow> num_error + double" where
  "number_double b eb isd ex neg s =
     (let ip = takeWhile isd s; s1 = dropWhile isd s;
          fp = (case s1 of c # s2 \<Rightarrow> if c = CHR ''.'' then takeWhile isd s2 else [] | [] \<Rightarrow> []);
          s3 = (case s1 of c # s2 \<Rightarrow> if c = CHR ''.'' then dropWhile isd s2 else s1 | [] \<Rightarrow> []);
          e = take_exponent ex s3;
          n = base_value b (ip @ fp); d = b ^ length fp
      in if ip @ fp = [] then Inl InvalidArgument
         else if 0 \<le> e then ratio_double neg (n * eb ^ nat e) d
         else ratio_double neg n (d * eb ^ nat (- e)))"

definition stod :: "string \<Rightarrow> num_error + double" where
  "stod str =
     (let (neg, s) = take_sign (dropWhile is_space str) in
      if map lower (take 3 s) = ''inf'' then Inr (f_make neg (2047 * 2 ^ 52))
      else if map lower (take 3 s) = ''nan'' then Inr (f_make neg (2047 * 2 ^ 52 + 2 ^ 51))
      else if map lower (take 2 s) = ''0x'' \<and>
              (case number_double 16 2 is_xdigit (CHR ''p'') neg (drop 2 s) of Inl InvalidArgument \<Rightarrow> False | _ \<Rightarrow> True)
        then number_double 16 2 is_xdigit (CHR ''p'') neg (drop 2 s)
      else number_double 10 10 is_digit (CHR ''e'') neg s)"

text \<open>Printing an in-range integer and parsing it again gives the same 64-bit value.\<close>

lemma dropWhile_space_digits: "is_digit c \<Longrightarrow> \<not> is_space c"
  by (auto simp: is_digit_def is_space_def)

lemma takeWhile_nat_to_string: "takeWhile is_digit (nat_to_string n) = nat_to_string n"
  by (simp add: takeWhile_eq_all_conv nat_to_string_digits)

lemma take_sign_nat_to_string: "take_sign (nat_to_string n) = (False, nat_to_string n)"
proof -
  obtain c s where cs: "nat_to_string n = c # s" by (cases "nat_to_string n") auto
  then have "is_digit c" using nat_to_string_digits [of c n] by simp
  then have "c \<noteq> CHR ''-''" "c \<noteq> CHR ''+''" by (auto simp: is_digit_def)
  with cs show ?thesis by (simp add: take_sign_def)
qed

lemma dropWhile_nat_to_string: "dropWhile is_space (nat_to_string n) = nat_to_string n"
proof -
  obtain c s where cs: "nat_to_string n = c # s" by (cases "nat_to_string n") auto
  then have "is_digit c" using nat_to_string_digits [of c n] by simp
  with cs show ?thesis by (simp add: dropWhile_space_digits)
qed

lemma stoll_int_to_string:
  assumes "- (2 ^ 63) \<le> i" "i < 2 ^ 63"
  shows "stoll (int_to_string i) = Inr (of_int i)"
proof (cases "i < 0")
  case True
  with assms show ?thesis
    by (simp add: stoll_def int_to_string_def is_space_def take_sign_def takeWhile_nat_to_string
        digits_value_nat_to_string)
next
  case False
  with assms show ?thesis
    by (simp add: stoll_def int_to_string_def dropWhile_nat_to_string take_sign_nat_to_string
        takeWhile_nat_to_string digits_value_nat_to_string)
qed

end
