(* ===== verification/JM_Types.thy ===== *)
theory JM_Types
  imports Float64
begin

text \<open>
  The shared types of \<open>src/types.h\<close>: run-time values, rows, column and table schemas, index
  contents and expressions.

  \<^item> \<open>Value\<close> is a \<open>std::variant\<close>; \<open>int64_t\<close> and \<open>double\<close> are carried as 64-bit words (two's
    complement, IEEE bits), so no conversion loses information.
  \<^item> A \<open>Row\<close> is a \<open>std::map\<close> from column name to value: an ordered map.
  \<^item> \<open>DataType\<close> has \<open>uint8_t\<close> as its underlying type and decoders cast any byte to it; the
    constructor \<open>OtherType\<close> holds the bytes that are no enumerator.
\<close>

section \<open>Data types and values\<close>

datatype DataType = INTEGER | BIGINT | FLOAT | DOUBLE | TEXT | BOOLEAN | DATE | TIMESTAMP | UNKNOWN
  | OtherType u8

datatype val = VNull | VInt u64 | VDouble double | VString string | VBool bool

type_synonym row = "(string, val) omap"

definition int64_to_string :: "u64 \<Rightarrow> string" where
  "int64_to_string w = int_to_string (sint w)"

lemma int64_to_string_inj: "int64_to_string a = int64_to_string b \<Longrightarrow> a = b"
  by (metis int64_to_string_def int_to_string_inj signed_word_eqI)

text \<open>Bytes of the keyword texts come out as in the source (UTF-8 text is a byte string).\<close>

fun value_to_string :: "val \<Rightarrow> string" where
  "value_to_string VNull = ''NULL''"
| "value_to_string (VInt i) = int64_to_string i"
| "value_to_string (VDouble d) = f_to_string d"
| "value_to_string (VString s) = [CHR 0x27] @ s @ [CHR 0x27]"
| "value_to_string (VBool b) = (if b then ''true'' else ''false'')"

fun data_type_name :: "DataType \<Rightarrow> string" where
  "data_type_name INTEGER = ''INTEGER''"
| "data_type_name BIGINT = ''BIGINT''"
| "data_type_name FLOAT = ''FLOAT''"
| "data_type_name DOUBLE = ''DOUBLE''"
| "data_type_name TEXT = ''TEXT''"
| "data_type_name BOOLEAN = ''BOOLEAN''"
| "data_type_name DATE = ''DATE''"
| "data_type_name TIMESTAMP = ''TIMESTAMP''"
| "data_type_name _ = ''UNKNOWN''"

definition toupper :: "char \<Rightarrow> char" where
  "toupper c = (if 97 \<le> (of_char c :: nat) \<and> (of_char c :: nat) \<le> 122 then char_of (of_char c - 32 :: nat) else c)"

definition data_type_from_name :: "string \<Rightarrow> DataType" where
  "data_type_from_name s =
     (let up = map toupper s in
      if up = ''INT'' \<or> up = ''INTEGER'' then INTEGER
      else if up = ''BIGINT'' then BIGINT
      else if up = ''FLOAT'' then FLOAT
      else if up = ''DOUBLE'' then DOUBLE
      else if up = ''TEXT'' \<or> up = ''VARCHAR'' \<or> up = ''STRING'' then TEXT
      else if up = ''BOOLEAN'' \<or> up = ''BOOL'' then BOOLEAN
      else if up = ''DATE'' then DATE
      else if up = ''TIMESTAMP'' then TIMESTAMP
      else TEXT)"

text \<open>\<open>static_cast<uint8_t>(type)\<close> and \<open>static_cast<DataType>(byte)\<close>\<close>

fun data_type_code :: "DataType \<Rightarrow> u8" where
  "data_type_code INTEGER = 0"
| "data_type_code BIGINT = 1"
| "data_type_code FLOAT = 2"
| "data_type_code DOUBLE = 3"
| "data_type_code TEXT = 4"
| "data_type_code BOOLEAN = 5"
| "data_type_code DATE = 6"
| "data_type_code TIMESTAMP = 7"
| "data_type_code UNKNOWN = 8"
| "data_type_code (OtherType b) = b"

definition data_type_of_code :: "u8 \<Rightarrow> DataType" where
  "data_type_of_code b =
     (if b = 0 then INTEGER else if b = 1 then BIGINT else if b = 2 then FLOAT
      else if b = 3 then DOUBLE else if b = 4 then TEXT else if b = 5 then BOOLEAN
      else if b = 6 then DATE else if b = 7 then TIMESTAMP else if b = 8 then UNKNOWN
      else OtherType b)"

fun data_type_ok :: "DataType \<Rightarrow> bool" where
  "data_type_ok (OtherType b) \<longleftrightarrow> b > 8"
| "data_type_ok _ \<longleftrightarrow> True"

lemma data_type_code_roundtrip: "data_type_ok t \<Longrightarrow> data_type_of_code (data_type_code t) = t"
  by (cases t) (auto simp: data_type_of_code_def)

lemma data_type_of_code_roundtrip: "data_type_code (data_type_of_code b) = b"
  by (simp add: data_type_of_code_def)

text \<open>The names of the real types are parsed back, \<open>UNKNOWN\<close> becomes \<open>TEXT\<close>.\<close>

lemma data_type_from_name_name:
  "data_type_from_name (data_type_name t) = (case t of UNKNOWN \<Rightarrow> TEXT | OtherType _ \<Rightarrow> TEXT | _ \<Rightarrow> t)"
  by (cases t) (simp_all add: data_type_from_name_def toupper_def)

text \<open>
  \<open>operator==\<close> on the variant: same alternative and equal contents; doubles compare as numbers,
  so a NaN differs from itself and the two zeros are equal.
\<close>

fun value_eq :: "val \<Rightarrow> val \<Rightarrow> bool" where
  "value_eq VNull VNull = True"
| "value_eq (VInt a) (VInt b) = (a = b)"
| "value_eq (VDouble a) (VDouble b) = f_eq a b"
| "value_eq (VString a) (VString b) = (a = b)"
| "value_eq (VBool a) (VBool b) = (a = b)"
| "value_eq _ _ = False"

lemma value_eq_sym: "value_eq a b = value_eq b a"
  by (cases a; cases b) (auto simp: f_eq_sym)

section \<open>Rows with system columns\<close>

definition is_system_column :: "string \<Rightarrow> bool" where
  "is_system_column k \<longleftrightarrow> k = ''_rowid'' \<or> k = ''_xmin'' \<or> k = ''_xmax'' \<or> k = ''_cid''"

definition user_columns :: "row \<Rightarrow> row" where
  "user_columns r = filter (\<lambda>(k, v). \<not> is_system_column k) r"

lemma omap_ok_user_columns [simp, wf_intros]: "omap_ok r \<Longrightarrow> omap_ok (user_columns r)"
  by (simp add: user_columns_def omap_ok_filter)

lemma map_of_user_columns:
  "omap_ok r \<Longrightarrow> map_of (user_columns r) k = (if is_system_column k then None else map_of r k)"
  unfolding user_columns_def
  by (subst map_of_filter_snd) (auto simp: omap_ok_distinct split: option.splits)

text \<open>\<open>std::get_if<int64_t>(&row.find(k)->second)\<close>: the integer in a column, when there is one.\<close>

definition row_int :: "row \<Rightarrow> string \<Rightarrow> u64 option" where
  "row_int r k = (case map_of r k of Some (VInt i) \<Rightarrow> Some i | _ \<Rightarrow> None)"

lemma row_int_put: "row_int (omap_put k v r) k' =
    (if k = k' then (case v of VInt i \<Rightarrow> Some i | _ \<Rightarrow> None) else row_int r k')"
  by (simp add: row_int_def)

section \<open>Schemas, indexes, expressions\<close>

record ColumnDef =
  cd_name :: string
  cd_type :: DataType
  cd_nullable :: bool
  cd_primary_key :: bool
  cd_default :: "val option"

record TableSchema =
  ts_name :: string
  ts_columns :: "ColumnDef list"
  ts_row_count :: u64

record IndexInfo =
  ix_column :: string
  ix_entries :: "(string, u64 list) omap"

datatype Expression =
    Literal val
  | ColumnRef string
  | BinaryOp string Expression Expression
  | UnaryOp string Expression

end
