(* ===== verification/Byte_Codec.thy ===== *)
theory Byte_Codec
  imports JM_Prelude
begin

text \<open>
  The little-endian primitives every binary format of the engine is built from:
  the anonymous \<open>put_*\<close> writers and \<open>PayloadReader\<close> of \<open>storage/wal_payload.cpp\<close> (copied in
  \<open>checkpoint_codec.cpp\<close>, \<open>catalog_codec.cpp\<close>, \<open>clog_codec.cpp\<close>).

  A writer returns the bytes it appends. A reader is the unread suffix of its buffer
  (\<open>data + pos .. data + len\<close>): each \<open>read_*\<close> returns \<open>None\<close> where the code returns \<open>false\<close>, and
  otherwise the value with the rest of the buffer. \<open>eof\<close> is the empty suffix. A \<open>double\<close> is its
  IEEE bit pattern (the code copies the bits with \<open>memcpy\<close>), an \<open>int64_t\<close> is a 64-bit word.

  The locales \<open>codec\<close> (what is written is read back, whatever follows), \<open>stream_codec\<close> (a reader
  never looks past what it consumes) and \<open>vec_codec\<close> (counted repetition) are the contracts the
  record formats are proved against.
\<close>

section \<open>Writers\<close>

definition put_u8 :: "u8 \<Rightarrow> bytes" where
  "put_u8 v = [v]"

definition put_u16 :: "u16 \<Rightarrow> bytes" where
  "put_u16 v = [ucast (v AND 0xFF), ucast (drop_bit 8 v AND 0xFF)]"

definition put_u32 :: "u32 \<Rightarrow> bytes" where
  "put_u32 v = map (\<lambda>i. ucast (drop_bit (i * 8) v AND 0xFF)) [0..<4]"

definition put_u64 :: "u64 \<Rightarrow> bytes" where
  "put_u64 v = map (\<lambda>i. ucast (drop_bit (i * 8) v AND 0xFF)) [0..<8]"

definition put_i64 :: "u64 \<Rightarrow> bytes" where
  "put_i64 v = put_u64 v"

definition put_f64 :: "u64 \<Rightarrow> bytes" where
  "put_f64 bits = put_u64 bits"

definition put_string_u16 :: "string \<Rightarrow> bytes" where
  "put_string_u16 s = put_u16 (of_nat (length s)) @ string_bytes s"

definition put_string_u32 :: "string \<Rightarrow> bytes" where
  "put_string_u32 s = put_u32 (of_nat (length s)) @ string_bytes s"

section \<open>Readers\<close>

type_synonym 'a reader = "bytes \<Rightarrow> ('a \<times> bytes) option"

definition read_u8 :: "u8 reader" where
  "read_u8 r = (if length r < 1 then None else Some (r ! 0, drop 1 r))"

definition read_u16 :: "u16 reader" where
  "read_u16 r = (if length r < 2 then None
     else Some (ucast (r ! 0) OR push_bit 8 (ucast (r ! 1)), drop 2 r))"

definition read_u32 :: "u32 reader" where
  "read_u32 r = (if length r < 4 then None
     else Some (fold (\<lambda>i v. v OR push_bit (i * 8) (ucast (r ! i))) [0..<4] 0, drop 4 r))"

definition read_u64 :: "u64 reader" where
  "read_u64 r = (if length r < 8 then None
     else Some (fold (\<lambda>i v. v OR push_bit (i * 8) (ucast (r ! i))) [0..<8] 0, drop 8 r))"

definition read_i64 :: "u64 reader" where
  "read_i64 r = read_u64 r"

definition read_f64 :: "u64 reader" where
  "read_f64 r = read_u64 r"

definition read_string_u16 :: "string reader" where
  "read_string_u16 r = do {
     (len, r) \<leftarrow> read_u16 r;
     if length r < unat len then None
     else Some (bytes_string (take (unat len) r), drop (unat len) r) }"

definition read_string_u32 :: "string reader" where
  "read_string_u32 r = do {
     (len, r) \<leftarrow> read_u32 r;
     if length r < unat len then None
     else Some (bytes_string (take (unat len) r), drop (unat len) r) }"

text \<open>The counted loop \<open>for (i = 0; i < count; ++i) { if (!read(r, &x)) return false; push_back(x); }\<close>\<close>

fun read_n :: "'a reader \<Rightarrow> nat \<Rightarrow> 'a list reader" where
  "read_n rd 0 r = Some ([], r)"
| "read_n rd (Suc n) r = (case rd r of None \<Rightarrow> None
     | Some (x, r) \<Rightarrow> (case read_n rd n r of None \<Rightarrow> None
        | Some (xs, r) \<Rightarrow> Some (x # xs, r)))"

section \<open>Splitting a word into bytes and joining it again\<close>

fun le_split :: "nat \<Rightarrow> 'a::len word \<Rightarrow> bytes" where
  "le_split 0 w = []"
| "le_split (Suc n) w = ucast w # le_split n (drop_bit 8 w)"

fun le_join :: "bytes \<Rightarrow> 'a::len word" where
  "le_join [] = 0"
| "le_join (b # bs) = ucast b OR push_bit 8 (le_join bs)"

lemma length_le_split [simp]: "length (le_split n w) = n"
  by (induction n arbitrary: w) auto

lemma bit_le_join_split:
  "bit (le_join (le_split n w) :: 'a::len word) i \<longleftrightarrow> i < 8 * n \<and> bit (w :: 'a word) i"
proof (induction n arbitrary: w i)
  case (Suc n)
  have "bit (le_join (le_split (Suc n) w) :: 'a word) i \<longleftrightarrow>
      (i < 8 \<and> bit w i) \<or> (8 \<le> i \<and> i < LENGTH('a) \<and> i - 8 < 8 * n \<and> bit w i)"
    using Suc.IH [of "drop_bit 8 w" "i - 8"]
    apply (simp add: bit_or_iff bit_push_bit_iff bit_unsigned_iff bit_drop_bit_eq)
    using bit_imp_le_length by fastforce
  then show ?case using bit_imp_le_length [of w i] by auto
qed simp

lemma le_join_split: "LENGTH('a) \<le> 8 * n \<Longrightarrow> le_join (le_split n (w :: 'a::len word)) = w"
  by (rule bit_word_eqI) (auto simp: bit_le_join_split)

lemma put_u16_split: "put_u16 v = le_split 2 v"
  by (simp add: put_u16_def eval_nat_numeral)

lemma put_u32_split: "put_u32 v = le_split 4 v"
  by (simp add: put_u32_def upt_conv_Cons eval_nat_numeral)

lemma put_u64_split: "put_u64 v = le_split 8 v"
  by (simp add: put_u64_def upt_conv_Cons eval_nat_numeral)

lemma join_2: "length p = 2 \<Longrightarrow> ucast (p ! 0) OR push_bit 8 (ucast (p ! 1)) = (le_join p :: u16)"
  by (auto simp: length_Suc_conv eval_nat_numeral)

lemma join_4:
  "length p = 4 \<Longrightarrow> fold (\<lambda>i v. v OR push_bit (i * 8) (ucast (p ! i))) [0..<4] 0 = (le_join p :: u32)"
  by (auto simp: length_Suc_conv eval_nat_numeral upt_conv_Cons ac_simps)

lemma join_8:
  "length p = 8 \<Longrightarrow> fold (\<lambda>i v. v OR push_bit (i * 8) (ucast (p ! i))) [0..<8] 0 = (le_join p :: u64)"
  by (auto simp: length_Suc_conv eval_nat_numeral upt_conv_Cons ac_simps)

lemma fold_upt_nth_append:
  "n \<le> length p \<Longrightarrow> fold (\<lambda>i v. f i v ((p @ r) ! i)) [0..<n] a = fold (\<lambda>i v. f i v (p ! i)) [0..<n] a"
  by (rule fold_cong) (auto simp: nth_append)

lemma length_put [simp]:
  "length (put_u8 a) = 1" "length (put_u16 b) = 2" "length (put_u32 c) = 4" "length (put_u64 d) = 8"
  "length (put_i64 d) = 8" "length (put_f64 d) = 8"
  "length (put_string_u16 s) = 2 + length s" "length (put_string_u32 s) = 4 + length s"
  by (simp_all add: put_u8_def put_u16_def put_u32_def put_u64_def put_i64_def put_f64_def
      put_string_u16_def put_string_u32_def)

section \<open>What is written is read back\<close>

lemma read_put_u8 [simp, codec_simps]: "read_u8 (put_u8 v @ r) = Some (v, r)"
  by (simp add: read_u8_def put_u8_def)

lemma read_put_u16 [simp, codec_simps]: "read_u16 (put_u16 v @ r) = Some (v, r)"
proof -
  let ?p = "put_u16 v"
  have "(ucast ((?p @ r) ! 0) :: u16) OR push_bit 8 (ucast ((?p @ r) ! 1)) = le_join ?p"
    by (subst join_2 [symmetric]) (simp_all add: nth_append)
  then show ?thesis by (simp add: read_u16_def put_u16_split le_join_split)
qed

lemma read_put_u32 [simp, codec_simps]: "read_u32 (put_u32 v @ r) = Some (v, r)"
proof -
  let ?p = "put_u32 v"
  have "fold (\<lambda>i w. w OR push_bit (i * 8) (ucast ((?p @ r) ! i))) [0..<4] 0 = (le_join ?p :: u32)"
    by (subst join_4 [symmetric], simp, rule fold_upt_nth_append) simp
  then show ?thesis by (simp add: read_u32_def put_u32_split le_join_split)
qed

lemma read_put_u64 [simp, codec_simps]: "read_u64 (put_u64 v @ r) = Some (v, r)"
proof -
  let ?p = "put_u64 v"
  have "fold (\<lambda>i w. w OR push_bit (i * 8) (ucast ((?p @ r) ! i))) [0..<8] 0 = (le_join ?p :: u64)"
    by (subst join_8 [symmetric], simp, rule fold_upt_nth_append) simp
  then show ?thesis by (simp add: read_u64_def put_u64_split le_join_split)
qed

lemma read_put_i64 [simp, codec_simps]: "read_i64 (put_i64 v @ r) = Some (v, r)"
  by (simp add: read_i64_def put_i64_def)

lemma read_put_f64 [simp, codec_simps]: "read_f64 (put_f64 v @ r) = Some (v, r)"
  by (simp add: read_f64_def put_f64_def)

definition fits_u16 :: "string \<Rightarrow> bool" where
  "fits_u16 s \<longleftrightarrow> length s < 2 ^ 16"

definition fits_u32 :: "'a list \<Rightarrow> bool" where
  "fits_u32 s \<longleftrightarrow> length s < 2 ^ 32"

lemma read_put_string_u16 [simp, codec_simps]:
  "fits_u16 s \<Longrightarrow> read_string_u16 (put_string_u16 s @ r) = Some (s, r)"
  by (simp add: read_string_u16_def put_string_u16_def fits_u16_def unat_of_nat_small)

lemma read_put_string_u32 [simp, codec_simps]:
  "fits_u32 s \<Longrightarrow> read_string_u32 (put_string_u32 s @ r) = Some (s, r)"
  by (simp add: read_string_u32_def put_string_u32_def fits_u32_def unat_of_nat_small)

lemma unat_of_nat_fits_u32: "fits_u32 xs \<Longrightarrow> unat (of_nat (length xs) :: u32) = length xs"
  by (simp add: fits_u32_def unat_of_nat_small)

section \<open>Codecs as an interface\<close>

locale codec =
  fixes enc :: "'a \<Rightarrow> bytes" and dec :: "bytes \<Rightarrow> ('a \<times> bytes) option" and ok :: "'a \<Rightarrow> bool"
  assumes dec_enc: "ok x \<Longrightarrow> dec (enc x @ r) = Some (x, r)"
begin

lemma dec_enc_eof: "ok x \<Longrightarrow> dec (enc x) = Some (x, [])"
  using dec_enc [of x "[]"] by simp

lemma prefix_free: "ok x \<Longrightarrow> ok y \<Longrightarrow> enc x @ r = enc y @ s \<Longrightarrow> x = y \<and> r = s"
  by (metis dec_enc option.inject prod.inject)

lemma enc_inj: "ok x \<Longrightarrow> ok y \<Longrightarrow> enc x = enc y \<Longrightarrow> x = y"
  using prefix_free [of x y "[]" "[]"] by simp

lemma read_n_enc: "list_all ok xs \<Longrightarrow> read_n dec (length xs) (concat (map enc xs) @ r) = Some (xs, r)"
proof (induction xs)
  case (Cons x xs)
  then show ?case using dec_enc [of x "concat (map enc xs) @ r"] by simp
qed simp

end

locale stream_codec = codec +
  assumes dec_suffix: "dec bs = Some (x, r) \<Longrightarrow> \<exists>p. bs = p @ r"
    and dec_extend: "dec bs = Some (x, r) \<Longrightarrow> dec (bs @ t) = Some (x, r @ t)"
begin

text \<open>An encoding cut short at any point is rejected: the reader reports the truncation.\<close>

lemma truncated: "ok x \<Longrightarrow> enc x = p @ t \<Longrightarrow> t \<noteq> [] \<Longrightarrow> dec p = None"
proof (rule ccontr)
  assume a: "ok x" "enc x = p @ t" "t \<noteq> []" "dec p \<noteq> None"
  then obtain y r where "dec p = Some (y, r)" by auto
  then have "dec (p @ t) = Some (y, r @ t)" by (rule dec_extend)
  with a dec_enc_eof [of x] show False by simp
qed

lemma read_n_suffix: "read_n dec n bs = Some (xs, r) \<Longrightarrow> \<exists>p. bs = p @ r"
proof (induction n arbitrary: bs xs)
  case (Suc n)
  then obtain x r1 xs1 where "dec bs = Some (x, r1)" "read_n dec n r1 = Some (xs1, r)"
    by (auto split: option.splits)
  with Suc.IH dec_suffix show ?case by (metis append.assoc)
qed simp

lemma read_n_extend: "read_n dec n bs = Some (xs, r) \<Longrightarrow> read_n dec n (bs @ t) = Some (xs, r @ t)"
proof (induction n arbitrary: bs xs)
  case (Suc n)
  then obtain x r1 xs1 where 1: "dec bs = Some (x, r1)" and 2: "read_n dec n r1 = Some (xs1, r)"
    and "xs = x # xs1"
    by (auto split: option.splits)
  with dec_extend [OF 1, of t] Suc.IH [OF 2] show ?case by simp
qed simp

end

text \<open>A counted vector of encodings is again a stream codec.\<close>

locale vec_codec = stream_codec +
  fixes n :: nat

sublocale vec_codec \<subseteq> vec: stream_codec "\<lambda>xs. concat (map enc xs)" "read_n dec n"
    "\<lambda>xs. length xs = n \<and> list_all ok xs"
  by unfold_locales (auto simp: read_n_enc read_n_suffix read_n_extend)

text \<open>Every reader satisfies the stream laws.\<close>

lemma read_u8_extend: "read_u8 bs = Some (x, r) \<Longrightarrow> read_u8 (bs @ t) = Some (x, r @ t)"
  by (cases bs) (auto simp: read_u8_def split: if_splits)

lemma read_u16_extend: "read_u16 bs = Some (x, r) \<Longrightarrow> read_u16 (bs @ t) = Some (x, r @ t)"
  by (auto simp: read_u16_def nth_append split: if_splits)

lemma read_u32_extend: "read_u32 bs = Some (x, r) \<Longrightarrow> read_u32 (bs @ t) = Some (x, r @ t)"
  by (auto simp: read_u32_def split: if_splits intro!: fold_upt_nth_append)

lemma read_u64_extend: "read_u64 bs = Some (x, r) \<Longrightarrow> read_u64 (bs @ t) = Some (x, r @ t)"
  by (auto simp: read_u64_def split: if_splits intro!: fold_upt_nth_append)

lemma read_string_u16_extend:
  "read_string_u16 bs = Some (x, r) \<Longrightarrow> read_string_u16 (bs @ t) = Some (x, r @ t)"
proof -
  assume "read_string_u16 bs = Some (x, r)"
  then obtain len r1 where 1: "read_u16 bs = Some (len, r1)" and "unat len \<le> length r1"
    "x = bytes_string (take (unat len) r1)" "r = drop (unat len) r1"
    by (auto simp: read_string_u16_def Option.bind_eq_Some_conv split: if_splits)
  with read_u16_extend [OF 1, of t] show ?thesis by (simp add: read_string_u16_def)
qed

lemma read_string_u32_extend:
  "read_string_u32 bs = Some (x, r) \<Longrightarrow> read_string_u32 (bs @ t) = Some (x, r @ t)"
proof -
  assume "read_string_u32 bs = Some (x, r)"
  then obtain len r1 where 1: "read_u32 bs = Some (len, r1)" and "unat len \<le> length r1"
    "x = bytes_string (take (unat len) r1)" "r = drop (unat len) r1"
    by (auto simp: read_string_u32_def Option.bind_eq_Some_conv split: if_splits)
  with read_u32_extend [OF 1, of t] show ?thesis by (simp add: read_string_u32_def)
qed

lemma drop_suffix: "\<exists>p. bs = p @ drop k bs"
  by (metis append_take_drop_id)

lemma read_u8_suffix: "read_u8 bs = Some (x, r) \<Longrightarrow> \<exists>p. bs = p @ r"
  by (auto simp: read_u8_def drop_suffix split: if_splits)

lemma read_u16_suffix: "read_u16 bs = Some (x, r) \<Longrightarrow> \<exists>p. bs = p @ r"
  by (auto simp: read_u16_def drop_suffix split: if_splits)

lemma read_u32_suffix: "read_u32 bs = Some (x, r) \<Longrightarrow> \<exists>p. bs = p @ r"
  by (auto simp: read_u32_def drop_suffix split: if_splits)

lemma read_u64_suffix: "read_u64 bs = Some (x, r) \<Longrightarrow> \<exists>p. bs = p @ r"
  by (auto simp: read_u64_def drop_suffix split: if_splits)

lemma suffix_trans: "\<exists>p. a = p @ b \<Longrightarrow> \<exists>p. b = p @ c \<Longrightarrow> \<exists>p. (a :: 'a list) = p @ c"
  by (metis append.assoc)

lemma read_string_u16_suffix: "read_string_u16 bs = Some (x, r) \<Longrightarrow> \<exists>p. bs = p @ r"
  by (auto simp: read_string_u16_def Option.bind_eq_Some_conv split: if_splits
      intro: suffix_trans [OF read_u16_suffix drop_suffix])

lemma read_string_u32_suffix: "read_string_u32 bs = Some (x, r) \<Longrightarrow> \<exists>p. bs = p @ r"
  by (auto simp: read_string_u32_def Option.bind_eq_Some_conv split: if_splits
      intro: suffix_trans [OF read_u32_suffix drop_suffix])

lemmas read_suffix = read_u8_suffix read_u16_suffix read_u32_suffix read_u64_suffix
  read_u64_suffix [folded read_i64_def] read_u64_suffix [folded read_f64_def]
  read_string_u16_suffix read_string_u32_suffix

lemmas read_extend = read_u8_extend read_u16_extend read_u32_extend read_u64_extend
  read_u64_extend [folded read_i64_def] read_u64_extend [folded read_f64_def]
  read_string_u16_extend read_string_u32_extend

interpretation u8c: stream_codec put_u8 read_u8 "\<lambda>_. True"
  by unfold_locales (simp_all add: read_suffix read_extend)

interpretation u16c: stream_codec put_u16 read_u16 "\<lambda>_. True"
  by unfold_locales (simp_all add: read_suffix read_extend)

interpretation u32c: stream_codec put_u32 read_u32 "\<lambda>_. True"
  by unfold_locales (simp_all add: read_suffix read_extend)

interpretation i64c: stream_codec put_i64 read_i64 "\<lambda>_. True"
  by unfold_locales (simp_all add: read_suffix read_extend)

interpretation str16c: stream_codec put_string_u16 read_string_u16 fits_u16
  by unfold_locales (simp_all add: read_suffix read_extend)

interpretation str32c: stream_codec put_string_u32 read_string_u32 fits_u32
  by unfold_locales (simp_all add: read_suffix read_extend)

text \<open>The index vectors of the checkpoint are counted vectors of \<open>int64_t\<close>.\<close>

interpretation i64v: vec_codec put_i64 read_i64 "\<lambda>_. True" n for n
  by unfold_locales

section \<open>Composing readers\<close>

text \<open>The stream laws as a predicate, closed under the ways the decoders are put together.\<close>

named_theorems stream_intros "closure of stream readers under composition"

definition stream :: "'a reader \<Rightarrow> bool" where
  "stream rd \<longleftrightarrow> (\<forall>bs x r. rd bs = Some (x, r) \<longrightarrow> (\<exists>p. bs = p @ r) \<and> (\<forall>t. rd (bs @ t) = Some (x, r @ t)))"

lemma stream_suffix: "stream rd \<Longrightarrow> rd bs = Some (x, r) \<Longrightarrow> \<exists>p. bs = p @ r"
  by (simp add: stream_def)

lemma stream_extend: "stream rd \<Longrightarrow> rd bs = Some (x, r) \<Longrightarrow> rd (bs @ t) = Some (x, r @ t)"
  by (simp add: stream_def)

lemma stream_primitive [stream_intros]:
  "stream read_u8" "stream read_u16" "stream read_u32" "stream read_u64" "stream read_i64"
  "stream read_f64" "stream read_string_u16" "stream read_string_u32"
  unfolding stream_def by (simp_all add: read_suffix read_extend)

lemma stream_return [stream_intros]: "stream (\<lambda>r. Some (c, r))"
  by (simp add: stream_def)

lemma stream_fail [stream_intros]: "stream (\<lambda>r. None)"
  by (simp add: stream_def)

lemma stream_if [stream_intros]: "stream f \<Longrightarrow> stream g \<Longrightarrow> stream (\<lambda>r. if b then f r else g r)"
  by (cases b) simp_all

lemma stream_bind [stream_intros]:
  assumes "stream rd" "\<And>x. stream (f x)"
  shows "stream (\<lambda>r. Option.bind (rd r) (\<lambda>(x, r). f x r))"
  unfolding stream_def
proof (intro allI impI)
  fix bs y r
  assume "Option.bind (rd bs) (\<lambda>(x, r). f x r) = Some (y, r)"
  then obtain x r1 where 1: "rd bs = Some (x, r1)" and 2: "f x r1 = Some (y, r)"
    by (auto simp: Option.bind_eq_Some_conv)
  have "\<exists>p. bs = p @ r" using stream_suffix [OF assms(1) 1] stream_suffix [OF assms(2) 2] by (rule suffix_trans)
  moreover have "Option.bind (rd (bs @ t)) (\<lambda>(x, r). f x r) = Some (y, r @ t)" for t
    using stream_extend [OF assms(1) 1] stream_extend [OF assms(2) 2] by simp
  ultimately show "(\<exists>p. bs = p @ r) \<and> (\<forall>t. Option.bind (rd (bs @ t)) (\<lambda>(x, r). f x r) = Some (y, r @ t))" by blast
qed

lemma stream_read_n [stream_intros]: "stream rd \<Longrightarrow> stream (read_n rd n)"
proof (induction n)
  case (Suc n)
  have "read_n rd (Suc n) = (\<lambda>r. Option.bind (rd r) (\<lambda>(x, r). Option.bind (read_n rd n r) (\<lambda>(xs, r). Some (x # xs, r))))"
    by (auto simp: fun_eq_iff split: option.splits)
  moreover have "stream (\<lambda>r. Option.bind (rd r) (\<lambda>(x, r). Option.bind (read_n rd n r) (\<lambda>(xs, r). Some (x # xs, r))))"
    using Suc by (intro stream_intros) auto
  ultimately show ?case by simp
qed (simp add: stream_def)

lemma stream_codecI:
  "(\<And>x r. ok x \<Longrightarrow> dec (enc x @ r) = Some (x, r)) \<Longrightarrow> stream dec \<Longrightarrow> stream_codec enc dec ok"
  by unfold_locales (auto dest: stream_suffix stream_extend)

text \<open>\<open>return r.eof();\<close>: a payload is accepted only when nothing follows.\<close>

definition at_eof :: "('a \<times> bytes) option \<Rightarrow> 'a option" where
  "at_eof res = (case res of Some (x, []) \<Rightarrow> Some x | _ \<Rightarrow> None)"

lemma at_eof_simps [simp]: "at_eof None = None" "at_eof (Some (x, [])) = Some x" "at_eof (Some (x, b # r)) = None"
  by (simp_all add: at_eof_def)

lemma at_eof_Some: "at_eof res = Some x \<longleftrightarrow> res = Some (x, [])"
  by (auto simp: at_eof_def split: option.splits list.splits)

context stream_codec
begin

text \<open>Of the byte strings that start like an encoding, exactly the encoding itself is accepted.\<close>

lemma at_eof_exact: "ok x \<Longrightarrow> at_eof (dec (enc x @ r)) = (if r = [] then Some x else None)"
  by (cases r) (simp_all add: dec_enc dec_enc_eof)

lemma at_eof_truncated: "ok x \<Longrightarrow> enc x = p @ t \<Longrightarrow> t \<noteq> [] \<Longrightarrow> at_eof (dec p) = None"
  using truncated by simp

end

section \<open>Counted vectors\<close>

text \<open>A \<open>u32\<close> count followed by the elements.\<close>

definition put_vec :: "('a \<Rightarrow> bytes) \<Rightarrow> 'a list \<Rightarrow> bytes" where
  "put_vec enc xs = put_u32 (of_nat (length xs)) @ concat (map enc xs)"

definition read_vec :: "'a reader \<Rightarrow> 'a list reader" where
  "read_vec rd r = do { (count, r) \<leftarrow> read_u32 r; read_n rd (unat count) r }"

lemma stream_read_vec [stream_intros]: "stream rd \<Longrightarrow> stream (read_vec rd)"
  unfolding read_vec_def by (intro stream_intros)

context stream_codec
begin

lemma stream_dec: "stream dec"
  unfolding stream_def using dec_suffix dec_extend by blast

lemma counted: "stream_codec (put_vec enc) (read_vec dec) (\<lambda>xs. fits_u32 xs \<and> list_all ok xs)"
proof (rule stream_codecI)
  show "stream (read_vec dec)" by (rule stream_read_vec) (rule stream_dec)
qed (simp add: put_vec_def read_vec_def unat_of_nat_fits_u32 read_n_enc)

end

end
