(* ===== verification/Tuple.thy ===== *)
theory Tuple
  imports JM_Types Byte_Codec
begin

text \<open>
  The binary row format of \<open>storage/tuple.h\<close> and \<open>storage/tuple.cpp\<close>: the 32-byte MVCC header,
  the table-name hash, the sort key of the MemTable and \<open>BinaryRowCodec\<close>.

  The codec's reader is the unread suffix of the payload (\<open>p .. end\<close>); each \<open>throw\<close> is a
  constructor of \<open>row_error\<close>, in the order of the code's checks.
\<close>

section \<open>Headers and keys\<close>

record TupleHeader =
  h_row_id :: u64
  h_xmin :: u32
  h_xmax :: u32
  h_cid :: u32
  h_schema_hash :: u16
  h_flags :: u16
  h_payload_len :: u32
  h_crc32 :: u32

record Tuple =
  hdr :: TupleHeader
  payload :: bytes

definition fnv1a_16 :: "string \<Rightarrow> u16" where
  "fnv1a_16 s =
     (let h = foldl (\<lambda>h c. (h XOR ucast (byte_of_char c)) * 0x01000193) (0x811C9DC5 :: u32) s
      in ucast (h AND 0xFFFF))"

datatype InternalKey = IKey (user_key: string) (ik_seq: u64)

definition ikey_less :: "InternalKey \<Rightarrow> InternalKey \<Rightarrow> bool" where
  "ikey_less a b \<longleftrightarrow>
     (if user_key a \<noteq> user_key b then user_key a < user_key b else ik_seq a > ik_seq b)"

definition make_user_key :: "string \<Rightarrow> u64 \<Rightarrow> string" where
  "make_user_key table_qualified row_id =
     table_qualified @ [CHR 0x1F] @
     map (\<lambda>i. char_of_byte (ucast (drop_bit (i * 8) row_id AND 0xFF))) (rev [0..<8])"

section \<open>BinaryRowCodec\<close>

datatype row_error =
    ColumnNameTooLong string | StringValueTooLong
  | TruncatedHeader | TruncatedNameLen | TruncatedName | MissingTypeTag
  | TruncatedI64 | TruncatedF64 | TruncatedBool | TruncatedStringLen | TruncatedStringBody
  | UnknownTypeTag u8

definition tput_u16 :: "u16 \<Rightarrow> bytes" where
  "tput_u16 v = [ucast (v AND 0xFF), ucast (drop_bit 8 v AND 0xFF)]"

definition tput_u32 :: "u32 \<Rightarrow> bytes" where
  "tput_u32 v = map (\<lambda>i. ucast (drop_bit (i * 8) v AND 0xFF)) [0..<4]"

definition tput_u64 :: "u64 \<Rightarrow> bytes" where
  "tput_u64 v = map (\<lambda>i. ucast (drop_bit (i * 8) v AND 0xFF)) [0..<8]"

definition get_u16 :: "bytes \<Rightarrow> u16" where
  "get_u16 p = ucast (p ! 0) OR push_bit 8 (ucast (p ! 1))"

definition get_u32 :: "bytes \<Rightarrow> u32" where
  "get_u32 p = ucast (p ! 0) OR push_bit 8 (ucast (p ! 1)) OR
     push_bit 16 (ucast (p ! 2)) OR push_bit 24 (ucast (p ! 3))"

definition get_u64 :: "bytes \<Rightarrow> u64" where
  "get_u64 p = fold (\<lambda>i v. v OR push_bit (i * 8) (ucast (p ! i))) [0..<8] 0"

fun encode_cell :: "val \<Rightarrow> row_error + bytes" where
  "encode_cell VNull = Inr [0]"
| "encode_cell (VInt i) = Inr ([1] @ tput_u64 i)"
| "encode_cell (VDouble d) = Inr ([2] @ tput_u64 d)"
| "encode_cell (VBool b) = Inr ([3] @ [if b then 1 else 0])"
| "encode_cell (VString s) =
     (if length s > 0xFFFFFFFF then Inl StringValueTooLong
      else Inr ([4] @ tput_u32 (of_nat (length s)) @ string_bytes s))"

fun encode_cells :: "row \<Rightarrow> row_error + bytes" where
  "encode_cells [] = Inr []"
| "encode_cells ((k, v) # r) =
     (if is_system_column k then encode_cells r
      else if length k > 0xFFFF then Inl (ColumnNameTooLong k)
      else bindE (encode_cell v) (\<lambda>c.
           bindE (encode_cells r) (\<lambda>cs.
           Inr (tput_u16 (of_nat (length k)) @ string_bytes k @ c @ cs))))"

definition count_columns :: "row \<Rightarrow> u16" where
  "count_columns r = foldl (\<lambda>n (k, v). if is_system_column k then n else n + 1) 0 r"

definition row_encode :: "row \<Rightarrow> row_error + bytes" where
  "row_encode r = bindE (encode_cells r) (\<lambda>cs. Inr (tput_u16 (count_columns r) @ cs))"

definition decode_cell :: "u8 \<Rightarrow> bytes \<Rightarrow> row_error + (val \<times> bytes)" where
  "decode_cell tag p =
     (if tag = 0 then Inr (VNull, p)
      else if tag = 1 then
        (if length p < 8 then Inl TruncatedI64 else Inr (VInt (get_u64 p), drop 8 p))
      else if tag = 2 then
        (if length p < 8 then Inl TruncatedF64 else Inr (VDouble (get_u64 p), drop 8 p))
      else if tag = 3 then
        (if p = [] then Inl TruncatedBool else Inr (VBool (p ! 0 \<noteq> 0), drop 1 p))
      else if tag = 4 then
        (if length p < 4 then Inl TruncatedStringLen
         else let slen = unat (get_u32 p); p = drop 4 p in
           if length p < slen then Inl TruncatedStringBody
           else Inr (VString (bytes_string (take slen p)), drop slen p))
      else Inl (UnknownTypeTag tag))"

fun decode_cells :: "nat \<Rightarrow> bytes \<Rightarrow> row \<Rightarrow> row_error + row" where
  "decode_cells 0 p out = Inr out"
| "decode_cells (Suc n) p out =
     (if length p < 2 then Inl TruncatedNameLen
      else let name_len = unat (get_u16 p); p = drop 2 p in
        if length p < name_len then Inl TruncatedName
        else let name = bytes_string (take name_len p); p = drop name_len p in
          if p = [] then Inl MissingTypeTag
          else bindE (decode_cell (p ! 0) (drop 1 p)) (\<lambda>(v, p).
               decode_cells n p (omap_put name v out)))"

definition row_decode :: "bytes \<Rightarrow> row_error + row" where
  "row_decode data =
     (if length data < 2 then Inr []
      else let ncols = get_u16 data; p = drop 2 data in
        if length p < 2 then Inl TruncatedHeader
        else decode_cells (unat ncols) p [])"

definition put_system_columns :: "TupleHeader \<Rightarrow> row \<Rightarrow> row" where
  "put_system_columns h r =
     omap_put ''_cid'' (VInt (ucast (h_cid h)))
      (omap_put ''_xmax'' (VInt (ucast (h_xmax h)))
       (omap_put ''_xmin'' (VInt (ucast (h_xmin h)))
        (omap_put ''_rowid'' (VInt (h_row_id h)) r)))"

definition tuple_to_row :: "Tuple \<Rightarrow> row_error + row" where
  "tuple_to_row t = bindE (row_decode (payload t)) (\<lambda>r. Inr (put_system_columns (hdr t) r))"

definition row_to_tuple :: "row \<Rightarrow> TupleHeader \<Rightarrow> row_error + Tuple" where
  "row_to_tuple r h = bindE (row_encode r) (\<lambda>p.
     Inr \<lparr>hdr = h\<lparr>h_payload_len := of_nat (length p)\<rparr>, payload = p\<rparr>)"

section \<open>The sort key\<close>

text \<open>The MemTable order is a strict linear order on the keys.\<close>

instantiation InternalKey :: linorder
begin

definition less_InternalKey :: "InternalKey \<Rightarrow> InternalKey \<Rightarrow> bool" where
  "less_InternalKey a b = ikey_less a b"

definition less_eq_InternalKey :: "InternalKey \<Rightarrow> InternalKey \<Rightarrow> bool" where
  "less_eq_InternalKey a b \<longleftrightarrow> ikey_less a b \<or> a = b"

instance
proof
  fix a b c :: InternalKey
  show "a < b \<longleftrightarrow> a \<le> b \<and> \<not> b \<le> a"
    by (auto simp: less_InternalKey_def less_eq_InternalKey_def ikey_less_def)
  show "a \<le> b \<Longrightarrow> b \<le> c \<Longrightarrow> a \<le> c"
    by (auto simp: less_eq_InternalKey_def ikey_less_def split: if_splits)
  show "a \<le> b \<Longrightarrow> b \<le> a \<Longrightarrow> a = b"
    by (auto simp: less_eq_InternalKey_def ikey_less_def split: if_splits)
  show "a \<le> b \<or> b \<le> a"
    by (cases a; cases b) (auto simp: less_eq_InternalKey_def ikey_less_def)
qed (simp add: less_eq_InternalKey_def)

end

lemma ikey_less_irrefl: "\<not> ikey_less a a"
  by (simp add: ikey_less_def)

lemma be_bytes_lex:
  "map (\<lambda>i. char_of_byte (ucast (drop_bit (i * 8) a AND 0xFF))) (rev [0..<8]) =
   map char_of_byte (rev (put_u64 a))"
  by (simp add: put_u64_def rev_map)

lemma make_user_key_eq: "make_user_key t i = t @ CHR 0x1F # map char_of_byte (rev (put_u64 i))"
  unfolding make_user_key_def be_bytes_lex by simp

lemma inj_char_of_byte: "inj char_of_byte"
  by (metis byte_of_char_of_byte injI)

lemma put_u64_inj: "put_u64 a = put_u64 b \<Longrightarrow> a = b"
  by (metis read_put_u64 option.inject prod.inject)

lemma make_user_key_inj:
  assumes "make_user_key t i = make_user_key t' i'"
  shows "t = t' \<and> i = i'"
proof -
  have "length (t @ [CHR 0x1F]) = length (t' @ [CHR 0x1F])"
    using arg_cong [OF assms, of length] by (simp add: make_user_key_eq)
  then have "t = t'" "map char_of_byte (rev (put_u64 i)) = map char_of_byte (rev (put_u64 i'))"
    using assms by (auto simp: make_user_key_eq)
  then show ?thesis
    using put_u64_inj inj_char_of_byte by (auto dest!: map_injective)
qed

text \<open>Comparing two words byte by byte from the most significant byte is comparing the words.\<close>

fun be_value :: "nat list \<Rightarrow> nat" where
  "be_value [] = 0"
| "be_value (b # bs) = b * 256 ^ length bs + be_value bs"

lemma be_value_bound: "list_all (\<lambda>b. b < 256) bs \<Longrightarrow> be_value bs < 256 ^ length bs"
proof (induction bs)
  case (Cons b bs)
  then have "b * 256 ^ length bs + be_value bs < (b + 1) * 256 ^ length bs" by simp
  also have "\<dots> \<le> 256 * 256 ^ length bs" using Cons.prems by (intro mult_right_mono) auto
  finally show ?case by simp
qed simp

lemma be_value_less:
  "length as = length bs \<Longrightarrow> list_all (\<lambda>b. b < 256) as \<Longrightarrow> list_all (\<lambda>b. b < 256) bs \<Longrightarrow>
   be_value as < be_value bs \<longleftrightarrow> as < bs"
proof (induction as bs rule: list_induct2)
  case (Cons a as b bs)
  have bound: "be_value as < 256 ^ length bs" "be_value bs < 256 ^ length bs"
    using be_value_bound [of as] be_value_bound [of bs] Cons by simp_all
  show ?case
  proof (cases a b rule: linorder_cases)
    case less
    then have "(a + 1) * 256 ^ length bs \<le> b * 256 ^ length bs" by (intro mult_right_mono) auto
    with less bound Cons.hyps show ?thesis by simp
  next
    case greater
    then have "(b + 1) * 256 ^ length bs \<le> a * 256 ^ length bs" by (intro mult_right_mono) auto
    with greater bound Cons.hyps show ?thesis by simp
  qed (use Cons in simp_all)
qed simp

lemma be_value_snoc: "be_value (bs @ [b]) = 256 * be_value bs + b"
  by (induction bs) (simp_all add: algebra_simps)

lemma be_value_le_split:
  "be_value (map unat (rev (le_split n w))) = unat (w :: 'a::len word) mod 256 ^ n"
proof (induction n arbitrary: w)
  case (Suc n)
  have "unat (ucast w :: u8) = unat w mod 256"
    by (simp add: unsigned_ucast_eq take_bit_eq_mod)
  moreover have "unat (drop_bit 8 w) = unat w div 256"
    by (subst unat_drop_bit_eq) (simp add: drop_bit_eq_div)
  ultimately show ?case
    using Suc by (simp add: be_value_snoc mod_mult2_eq)
qed simp

lemma list_all_unat_byte: "list_all (\<lambda>b. b < 256) (map unat (bs :: u8 list))"
proof -
  have "unat b < 256" for b :: u8 using unsigned_less [of b] by simp
  then show ?thesis by (auto simp: list_all_iff)
qed

lemma less_map_unat: "map unat (as :: u8 list) < map unat bs \<longleftrightarrow> map char_of_byte as < map char_of_byte bs"
proof (induction as arbitrary: bs)
  case Nil
  then show ?case by (cases bs) simp_all
next
  case (Cons a as)
  have "char_of_byte a < char_of_byte b \<longleftrightarrow> unat a < unat b" for b
    by (simp only: less_char_iff_byte byte_of_char_of_byte word_less_nat_alt)
  moreover have "char_of_byte a = char_of_byte b \<longleftrightarrow> unat a = unat b" for b
    by (simp only: inj_eq [OF inj_char_of_byte] word_unat_eq_iff)
  ultimately show ?case using Cons.IH by (cases bs) simp_all
qed

lemma be_bytes_less:
  "map char_of_byte (rev (put_u64 a)) < map char_of_byte (rev (put_u64 b)) \<longleftrightarrow> a < b"
proof -
  have bev: "be_value (map unat (rev (put_u64 w))) = unat w" for w
  proof -
    have "unat w < 2 ^ 64" using unsigned_less [of w, where 'a = nat] by simp
    then show ?thesis by (simp add: put_u64_split be_value_le_split)
  qed
  have "map unat (rev (put_u64 a)) < map unat (rev (put_u64 b)) \<longleftrightarrow> unat a < unat b"
    by (subst be_value_less [symmetric]) (auto simp: list_all_unat_byte bev)
  then show ?thesis by (simp add: less_map_unat word_less_nat_alt)
qed

lemma less_append_same: "p @ a < p @ b \<longleftrightarrow> a < (b :: 'a::linorder list)"
  by (induction p) auto

text \<open>Within one table the keys sort by row id.\<close>

lemma make_user_key_mono: "make_user_key t a < make_user_key t b \<longleftrightarrow> a < b"
  by (simp add: make_user_key_eq less_append_same be_bytes_less del: map_append)

section \<open>The row format\<close>

lemma tput_eq: "tput_u16 = put_u16" "tput_u32 = put_u32" "tput_u64 = put_u64"
  by (simp_all add: fun_eq_iff tput_u16_def tput_u32_def tput_u64_def put_u16_def put_u32_def put_u64_def)

lemma get_u16_eq: "read_u16 p = Some (v, r) \<Longrightarrow> get_u16 p = v"
  by (auto simp: read_u16_def get_u16_def split: if_splits)

lemma get_u32_eq: "read_u32 p = Some (v, r) \<Longrightarrow> get_u32 p = v"
  by (auto simp: read_u32_def get_u32_def upt_conv_Cons ac_simps numeral_2_eq_2 numeral_3_eq_3
      split: if_splits)

lemma get_u64_eq: "read_u64 p = Some (v, r) \<Longrightarrow> get_u64 p = v"
  by (auto simp: read_u64_def get_u64_def split: if_splits)

lemma get_tput [simp]:
  "get_u16 (tput_u16 a @ r) = a" "get_u32 (tput_u32 b @ r) = b" "get_u64 (tput_u64 c @ r) = c"
  by (rule get_u16_eq get_u32_eq get_u64_eq, simp add: tput_eq)+

lemma length_tput [simp]: "length (tput_u16 a) = 2" "length (tput_u32 b) = 4" "length (tput_u64 c) = 8"
  by (simp_all add: tput_eq)

lemma tput_not_Nil [simp]: "tput_u32 b \<noteq> []" "tput_u64 c \<noteq> []"
  using length_tput(2) [of b] length_tput(3) [of c] by fastforce+

lemma decode_encode_cell:
  "encode_cell v = Inr c \<Longrightarrow> \<exists>tag body. c = tag # body \<and> (\<forall>r. decode_cell tag (body @ r) = Inr (v, r))"
proof (cases v)
  case (VString s)
  moreover assume "encode_cell v = Inr c"
  ultimately show ?thesis
    by (auto simp: decode_cell_def unat_of_nat_small split: if_splits)
qed (auto simp: decode_cell_def)

lemma encode_cells_user: "encode_cells (user_columns r) = encode_cells r"
  by (induction r rule: encode_cells.induct) (simp_all add: user_columns_def)

lemma decode_encode_cells:
  "\<lbrakk>encode_cells r = Inr cs; \<forall>k \<in> fst ` set r. \<not> is_system_column k\<rbrakk> \<Longrightarrow>
   decode_cells (length r) (cs @ rest) out = Inr (fold (\<lambda>(k, v). omap_put k v) r out)"
proof (induction r arbitrary: cs out rule: encode_cells.induct)
  case (2 k v r)
  then obtain c cs' where c: "encode_cell v = Inr c" "encode_cells r = Inr cs'"
    and len: "length k < 2 ^ 16"
    and cs: "cs = tput_u16 (of_nat (length k)) @ string_bytes k @ c @ cs'"
    by (auto simp: bindE_Inr split: if_splits)
  from decode_encode_cell [OF c(1)] obtain tag body
    where tag: "c = tag # body" "\<And>r. decode_cell tag (body @ r) = Inr (v, r)" by blast
  have "decode_cells (length r) (cs' @ rest) (omap_put k v out) =
      Inr (fold (\<lambda>(k, v). omap_put k v) r (omap_put k v out))"
    using 2 c len by simp
  then show ?case using cs tag len by (simp add: unat_of_nat_small)
qed simp

lemma count_columns_user: "count_columns r = of_nat (length (user_columns r))"
proof -
  have "foldl (\<lambda>n (k, v). if is_system_column k then n else n + 1) (n :: u16) r =
      n + of_nat (length (user_columns r))" for n
    by (induction r arbitrary: n) (auto simp: user_columns_def)
  then show ?thesis by (simp add: count_columns_def)
qed

lemma encode_cells_length: "encode_cells r = Inr cs \<Longrightarrow> user_columns r \<noteq> [] \<Longrightarrow> 2 \<le> length cs"
  by (induction r arbitrary: cs rule: encode_cells.induct)
    (auto simp: user_columns_def bindE_Inr split: if_splits)

text \<open>A row with 1 to 65535 user columns is read back without its system columns.\<close>

lemma row_roundtrip:
  assumes "row_encode r = Inr p" "omap_ok r" "user_columns r \<noteq> []" "length (user_columns r) < 2 ^ 16"
  shows "row_decode p = Inr (user_columns r)"
proof -
  obtain cs where cs: "encode_cells r = Inr cs" and p: "p = tput_u16 (count_columns r) @ cs"
    using assms by (auto simp: row_encode_def bindE_Inr)
  have "\<forall>k \<in> fst ` set (user_columns r). \<not> is_system_column k"
    by (auto simp: user_columns_def)
  then have "decode_cells (length (user_columns r)) (cs @ []) [] = Inr (user_columns r)"
    using decode_encode_cells [of "user_columns r" cs "[]" "[]"] cs assms
    by (simp add: encode_cells_user omap_rebuild)
  moreover have "unat (count_columns r) = length (user_columns r)"
    using assms by (simp add: count_columns_user unat_of_nat_small)
  ultimately show ?thesis
    using encode_cells_length [OF cs] assms p by (simp add: row_decode_def)
qed

text \<open>A row that has no user column is written as two bytes, which the reader refuses.\<close>

lemma row_decode_empty: "user_columns r = [] \<Longrightarrow> row_encode r = Inr [0, 0] \<and> row_decode [0, 0] = Inl TruncatedHeader"
proof -
  assume u: "user_columns r = []"
  then have "encode_cells r = Inr []" by (metis encode_cells_user encode_cells.simps(1))
  with u show ?thesis by (simp add: row_encode_def count_columns_user row_decode_def tput_u16_def)
qed

text \<open>What encoding needs of a row.\<close>

definition row_fits :: "row \<Rightarrow> bool" where
  "row_fits r \<longleftrightarrow> list_all (\<lambda>(k, v). length k < 2 ^ 16 \<and>
     (case v of VString s \<Rightarrow> length s < 2 ^ 32 | _ \<Rightarrow> True)) (user_columns r)"

lemma row_encode_total: "row_fits r \<Longrightarrow> \<exists>p. row_encode r = Inr p"
proof -
  have "list_all (\<lambda>(k, v). length k < 2 ^ 16 \<and> (case v of VString s \<Rightarrow> length s < 2 ^ 32 | _ \<Rightarrow> True)) r \<Longrightarrow>
      \<exists>cs. encode_cells r = Inr cs" for r
  proof (induction r rule: encode_cells.induct)
    case (2 k v r)
    then have "\<exists>c. encode_cell v = Inr c" by (cases v) auto
    with 2 show ?case by auto
  qed simp
  then show "row_fits r \<Longrightarrow> ?thesis"
    by (metis encode_cells_user row_fits_def row_encode_def bindE.simps(2))
qed

text \<open>System columns are projected from the header over the stored columns.\<close>

lemma omap_ok_put_system [simp, wf_intros]: "omap_ok r \<Longrightarrow> omap_ok (put_system_columns h r)"
  by (simp add: put_system_columns_def)

lemma row_int_system [simp]:
  "row_int (put_system_columns h r) ''_rowid'' = Some (h_row_id h)"
  "row_int (put_system_columns h r) ''_xmin'' = Some (ucast (h_xmin h))"
  "row_int (put_system_columns h r) ''_xmax'' = Some (ucast (h_xmax h))"
  "row_int (put_system_columns h r) ''_cid'' = Some (ucast (h_cid h))"
  by (simp_all add: put_system_columns_def row_int_put)

lemma map_of_put_system: "\<not> is_system_column k \<Longrightarrow> map_of (put_system_columns h r) k = map_of r k"
  by (auto simp: put_system_columns_def is_system_column_def)

lemma user_columns_put_system: "omap_ok r \<Longrightarrow> user_columns (put_system_columns h r) = user_columns r"
  by (rule omap_ext) (auto simp: fun_eq_iff map_of_user_columns map_of_put_system)

lemma user_columns_idem [simp]: "user_columns (user_columns r) = user_columns r"
  by (simp add: user_columns_def)

section \<open>Properties\<close>

text \<open>C30: A row with between 1 and 65535 user columns that the codec accepts is read back exactly,
  without its system columns, from the bytes written.\<close>

theorem row_codec_roundtrip:
  assumes "omap_ok r" "row_fits r" "user_columns r \<noteq> []" "length (user_columns r) < 2 ^ 16"
  shows "\<exists>p. row_encode r = Inr p \<and> row_decode p = Inr (user_columns r)"
  using row_encode_total [OF assms(2)] row_roundtrip assms by blast

lemma row_codec_roundtrip_witness:
  "\<exists>p. row_encode [(''_rowid'', VInt 7), (''name'', VString ''x''), (''v'', VDouble 1)] = Inr p \<and>
       row_decode p = Inr [(''name'', VString ''x''), (''v'', VDouble 1)]"
  using row_codec_roundtrip [of "[(''_rowid'', VInt 7), (''name'', VString ''x''), (''v'', VDouble 1)]"]
  by (simp add: omap_ok_def row_fits_def user_columns_def is_system_column_def)

text \<open>The MemTable key of a row is unique to its table and row id, and within a table the
  bytewise order of the keys is the numeric order of the row ids.\<close>

theorem user_key_faithful:
  "(make_user_key t i = make_user_key t' i' \<longleftrightarrow> t = t' \<and> i = i') \<and>
   (make_user_key t i < make_user_key t j \<longleftrightarrow> i < j)"
  using make_user_key_inj make_user_key_mono by blast

text \<open>A row without user columns is written as two zero bytes, and decoding them fails with
  \<open>truncated header\<close> instead of returning the empty row.\<close>

theorem empty_row_unreadable:
  "user_columns r = [] \<Longrightarrow> bindE (row_encode r) row_decode = Inl TruncatedHeader"
  using row_decode_empty by simp

lemma empty_row_unreadable_witness: "bindE (row_encode [(''_xmin'', VInt 5)]) row_decode = Inl TruncatedHeader"
  by (rule empty_row_unreadable) (simp add: user_columns_def is_system_column_def)

end
