(* ===== verification/Transaction.thy ===== *)
theory Transaction
  imports JM_Types
begin

text \<open>
  The transaction subsystem of \<open>storage/transaction.h\<close> and \<open>storage/transaction.cpp\<close>: the commit
  log, tuple visibility, and the transaction manager (XID allocation, the block state machine,
  savepoints, the serializable bookkeeping).

  \<open>CLog\<close> and \<open>TM\<close> are the members of the classes of the same name; every method is a function
  of the state. A method that throws returns \<open>Inl\<close> and leaves the state as it was. The mutexes
  only serialise the methods, so each is one step. The unordered maps are kept in key order,
  which no modelled method observes.
\<close>

section \<open>Identifiers and status\<close>

type_synonym TransactionId = u32

definition InvalidTransactionId :: TransactionId where
  "InvalidTransactionId = 0"

definition BootstrapTransactionId :: TransactionId where
  "BootstrapTransactionId = 1"

definition FrozenTransactionId :: TransactionId where
  "FrozenTransactionId = 2"

definition FirstNormalTransactionId :: TransactionId where
  "FirstNormalTransactionId = 3"

definition XIDFreezeThreshold :: u64 where
  "XIDFreezeThreshold = 2000000"

definition XIDEmergencyStop :: u64 where
  "XIDEmergencyStop = 2146483648"

text \<open>\<open>OtherStatus\<close> holds the bytes the decoders may cast to the enum without naming a constant.\<close>

datatype TransactionStatus = IN_PROGRESS | COMMITTED | ABORTED | SUB_COMMITTED | OtherStatus u8

definition txn_status_name :: "TransactionStatus \<Rightarrow> string" where
  "txn_status_name s = (case s of IN_PROGRESS \<Rightarrow> ''IN_PROGRESS'' | COMMITTED \<Rightarrow> ''COMMITTED''
     | ABORTED \<Rightarrow> ''ABORTED'' | SUB_COMMITTED \<Rightarrow> ''SUB_COMMITTED'' | OtherStatus _ \<Rightarrow> ''UNKNOWN'')"

datatype TBlockState = DEFAULT | STARTED | BEGIN | INPROGRESS | END | ABORT_PENDING

datatype IsolationLevel = ReadCommitted | RepeatableRead | Serializable

datatype RowKey = RowKey (rk_table: string) (rk_row_id: u64)

instantiation RowKey :: linorder
begin

definition less_RowKey :: "RowKey \<Rightarrow> RowKey \<Rightarrow> bool" where
  "less_RowKey a b \<longleftrightarrow> rk_table a < rk_table b \<or> (rk_table a = rk_table b \<and> rk_row_id a < rk_row_id b)"

definition less_eq_RowKey :: "RowKey \<Rightarrow> RowKey \<Rightarrow> bool" where
  "less_eq_RowKey a b \<longleftrightarrow> a < b \<or> a = b"

instance
proof
  fix a b c :: RowKey
  show "a < b \<longleftrightarrow> a \<le> b \<and> \<not> b \<le> a"
    by (auto simp: less_RowKey_def less_eq_RowKey_def)
  show "a \<le> b \<Longrightarrow> b \<le> c \<Longrightarrow> a \<le> c"
    by (auto simp: less_RowKey_def less_eq_RowKey_def)
  show "a \<le> b \<Longrightarrow> b \<le> a \<Longrightarrow> a = b"
    by (auto simp: less_RowKey_def less_eq_RowKey_def)
  show "a \<le> b \<or> b \<le> a"
    by (cases a; cases b) (auto simp: less_RowKey_def less_eq_RowKey_def)
qed (simp add: less_eq_RowKey_def)

end

datatype UndoOp = UndoInsert | UndoUpdate | UndoDelete

record UndoRecord =
  u_op :: UndoOp
  u_table_name :: string
  u_row_id :: u64
  u_old_row :: row
  u_new_row :: row

record Savepoint =
  sp_name :: string
  sp_undo_position :: nat

record Snapshot =
  snap_xmin :: TransactionId
  snap_xmax :: TransactionId
  snap_xip :: "TransactionId list"
  snap_curcid :: u32

definition empty_snapshot :: Snapshot where
  "empty_snapshot = \<lparr>snap_xmin = InvalidTransactionId, snap_xmax = InvalidTransactionId,
     snap_xip = [], snap_curcid = 0\<rparr>"

section \<open>CLog\<close>

record CLog =
  status_map :: "(TransactionId, TransactionStatus) omap"
  dirty :: "TransactionId list"

definition empty_clog :: CLog where
  "empty_clog = \<lparr>status_map = [], dirty = []\<rparr>"

definition set_status :: "TransactionId \<Rightarrow> TransactionStatus \<Rightarrow> CLog \<Rightarrow> CLog" where
  "set_status xid status c = c\<lparr>status_map := omap_put xid status (status_map c), dirty := oset_ins xid (dirty c)\<rparr>"

definition get_status :: "CLog \<Rightarrow> TransactionId \<Rightarrow> TransactionStatus" where
  "get_status c xid = (case map_of (status_map c) xid of None \<Rightarrow> IN_PROGRESS | Some s \<Rightarrow> s)"

definition mark_dirty :: "TransactionId \<Rightarrow> CLog \<Rightarrow> CLog" where
  "mark_dirty xid c = c\<lparr>dirty := oset_ins xid (dirty c)\<rparr>"

definition mark_clean :: "TransactionId \<Rightarrow> CLog \<Rightarrow> CLog" where
  "mark_clean xid c = c\<lparr>dirty := oset_del xid (dirty c)\<rparr>"

definition all_xids :: "CLog \<Rightarrow> TransactionId list" where
  "all_xids c = fold (\<lambda>(xid, _). oset_ins xid) (status_map c) []"

definition in_progress_xids :: "CLog \<Rightarrow> TransactionId list" where
  "in_progress_xids c = fold (\<lambda>(xid, status). if status = IN_PROGRESS then oset_ins xid else id) (status_map c) []"

section \<open>Tuple visibility\<close>

text \<open>A system column read as a transaction id: absent, not an integer or not positive is 0.\<close>

definition row_xid :: "row \<Rightarrow> string \<Rightarrow> TransactionId" where
  "row_xid r k = (case row_int r k of Some v \<Rightarrow> if 0 <s v then ucast v else InvalidTransactionId
     | None \<Rightarrow> InvalidTransactionId)"

definition check_tuple_visibility ::
    "row \<Rightarrow> TransactionId \<Rightarrow> Snapshot \<Rightarrow> u32 \<Rightarrow> CLog \<Rightarrow> bool" where
  "check_tuple_visibility r current_xid snap cur_cid clog =
     (let xmin = row_xid r ''_xmin'' in
      if xmin = InvalidTransactionId then True
      else let xmax = row_xid r ''_xmax'' in
      if xmin = FrozenTransactionId then
        (if xmax = InvalidTransactionId then True
         else if xmax = current_xid \<and> current_xid \<noteq> InvalidTransactionId then False
         else get_status clog xmax \<noteq> COMMITTED)
      else if xmin = current_xid \<and> current_xid \<noteq> InvalidTransactionId then
        (if (case row_int r ''_cid'' of Some cv \<Rightarrow> cur_cid <s ucast cv | None \<Rightarrow> False) then False
         else if xmax = current_xid then False
         else True)
      else let xmin_status = get_status clog xmin in
      if xmin_status = ABORTED then False
      else if xmin_status = IN_PROGRESS then False
      else if snap_xmin snap \<le> xmin \<and> xmin < snap_xmax snap \<and> xmin \<in> set (snap_xip snap) then False
      else if xmax = InvalidTransactionId then True
      else if xmax = current_xid \<and> current_xid \<noteq> InvalidTransactionId then False
      else if get_status clog xmax = COMMITTED then False
      else True)"

section \<open>The manager\<close>

record TransactionContext =
  cx_xid :: TransactionId
  cx_block_state :: TBlockState
  cx_command_id :: u32
  cx_undo_records :: "UndoRecord list"
  cx_snapshot :: Snapshot
  cx_has_snapshot :: bool
  cx_isolation :: IsolationLevel
  cx_savepoints :: "Savepoint list"

definition init_context :: TransactionContext where
  "init_context = \<lparr>cx_xid = InvalidTransactionId, cx_block_state = DEFAULT, cx_command_id = 0,
     cx_undo_records = [], cx_snapshot = empty_snapshot, cx_has_snapshot = False,
     cx_isolation = ReadCommitted, cx_savepoints = []\<rparr>"

record TM =
  ctx :: TransactionContext
  next_xid :: TransactionId
  clog :: CLog
  active_xids :: "TransactionId list"
  siread_map :: "(RowKey, TransactionId list) omap"
  in_conflict :: "(TransactionId, TransactionId list) omap"

definition init_tm :: TM where
  "init_tm = \<lparr>ctx = init_context, next_xid = FirstNormalTransactionId, clog = empty_clog,
     active_xids = [], siread_map = [], in_conflict = []\<rparr>"

datatype txn_error = EmergencyStop | AlreadyInBlock | SsiPivot | NoSuchSavepoint string

definition set_context :: "(TransactionContext \<Rightarrow> TransactionContext) \<Rightarrow> TM \<Rightarrow> TM" where
  "set_context f t = t\<lparr>ctx := f (ctx t)\<rparr>"

definition set_isolation_level :: "IsolationLevel \<Rightarrow> TM \<Rightarrow> TM" where
  "set_isolation_level lvl = set_context (\<lambda>c. c\<lparr>cx_isolation := lvl\<rparr>)"

definition is_in_transaction :: "TM \<Rightarrow> bool" where
  "is_in_transaction t \<longleftrightarrow> cx_block_state (ctx t) \<noteq> DEFAULT"

definition is_in_transaction_block :: "TM \<Rightarrow> bool" where
  "is_in_transaction_block t \<longleftrightarrow> cx_block_state (ctx t) = INPROGRESS \<or>
     cx_block_state (ctx t) = BEGIN \<or> cx_block_state (ctx t) = END"

subsection \<open>XID allocation and wrap-around protection\<close>

definition get_oldest_active_xid :: "TM \<Rightarrow> TransactionId" where
  "get_oldest_active_xid t = (if active_xids t = [] then next_xid t else hd (active_xids t))"

definition freeze_xid :: "TransactionId \<Rightarrow> TransactionId \<Rightarrow> CLog \<times> nat \<Rightarrow> CLog \<times> nat" where
  "freeze_xid oldest xid st = (let (c, frozen) = st in
     if xid < FirstNormalTransactionId then (c, frozen)
     else if oldest \<le> xid then (c, frozen)
     else if get_status c xid = IN_PROGRESS then (set_status xid ABORTED c, frozen + 1)
     else (c, frozen + 1))"

definition freeze_old_xids :: "TM \<Rightarrow> TM \<times> nat" where
  "freeze_old_xids t =
     (let (c, frozen) = fold (freeze_xid (get_oldest_active_xid t)) (all_xids (clog t)) (clog t, 0)
      in (t\<lparr>clog := c\<rparr>, frozen))"

definition maybe_anti_wraparound :: "TM \<Rightarrow> TM \<times> bool" where
  "maybe_anti_wraparound t =
     (if (ucast (next_xid t) :: u64) \<le> XIDFreezeThreshold then (t, False)
      else let distance = next_xid t - FrozenTransactionId in
        if XIDFreezeThreshold < ucast distance then (fst (freeze_old_xids t), True)
        else (t, False))"

definition allocate_xid :: "TM \<Rightarrow> (txn_error + TransactionId) \<times> TM" where
  "allocate_xid t =
     (let t = fst (maybe_anti_wraparound t) in
      if XIDEmergencyStop \<le> ucast (next_xid t) then (Inl EmergencyStop, t)
      else let xid = next_xid t in
        (Inr xid, t\<lparr>next_xid := xid + 1, active_xids := oset_ins xid (active_xids t),
                    clog := set_status xid IN_PROGRESS (clog t)\<rparr>))"

definition assign_xid :: "TM \<Rightarrow> (txn_error + TransactionId) \<times> TM" where
  "assign_xid t =
     (if cx_xid (ctx t) = InvalidTransactionId then
        (case allocate_xid t of
           (Inl e, t) \<Rightarrow> (Inl e, t)
         | (Inr xid, t) \<Rightarrow> (Inr xid, set_context (\<lambda>c. c\<lparr>cx_xid := xid\<rparr>) t))
      else (Inr (cx_xid (ctx t)), t))"

subsection \<open>Snapshots\<close>

definition get_snapshot :: "TM \<Rightarrow> Snapshot" where
  "get_snapshot t = \<lparr>
     snap_xmin = (if active_xids t \<noteq> [] then hd (active_xids t) else next_xid t),
     snap_xmax = next_xid t,
     snap_xip = active_xids t,
     snap_curcid = cx_command_id (ctx t)\<rparr>"

definition get_transaction_snapshot :: "TM \<Rightarrow> Snapshot \<times> TM" where
  "get_transaction_snapshot t =
     (let t = (if \<not> cx_has_snapshot (ctx t)
               then set_context (\<lambda>c. c\<lparr>cx_snapshot := get_snapshot t, cx_has_snapshot := True\<rparr>) t
               else t)
      in (cx_snapshot (ctx t), t))"

subsection \<open>Serializable bookkeeping\<close>

definition register_siread :: "RowKey \<Rightarrow> TM \<Rightarrow> TM" where
  "register_siread k t =
     (if cx_isolation (ctx t) \<noteq> Serializable then t
      else if cx_xid (ctx t) = InvalidTransactionId then t
      else t\<lparr>siread_map := omap_put k (oset_ins (cx_xid (ctx t))
               (omap_at [] (siread_map t) k)) (siread_map t)\<rparr>)"

definition add_edge :: "TransactionId \<Rightarrow> TransactionId \<Rightarrow>
    (TransactionId, TransactionId list) omap \<Rightarrow> (TransactionId, TransactionId list) omap" where
  "add_edge self reader m =
     (if reader = self then m
      else omap_put reader (oset_ins self (omap_at [] m reader)) m)"

definition register_write :: "RowKey \<Rightarrow> TM \<Rightarrow> TM" where
  "register_write k t =
     (if cx_isolation (ctx t) \<noteq> Serializable then t
      else if cx_xid (ctx t) = InvalidTransactionId then t
      else case map_of (siread_map t) k of
        None \<Rightarrow> t
      | Some readers \<Rightarrow>
          t\<lparr>in_conflict := fold (add_edge (cx_xid (ctx t))) readers (in_conflict t)\<rparr>)"

definition cleanup_transaction_state :: "TransactionId \<Rightarrow> TM \<Rightarrow> TM" where
  "cleanup_transaction_state xid t = t\<lparr>
     siread_map := filter (\<lambda>(_, readers). readers \<noteq> []) (map (\<lambda>(k, readers). (k, oset_del xid readers)) (siread_map t)),
     in_conflict := map (\<lambda>(k, cs). (k, oset_del xid cs)) (omap_del xid (in_conflict t))\<rparr>"

definition ssi_is_pivot :: "TM \<Rightarrow> TransactionId \<Rightarrow> bool" where
  "ssi_is_pivot t xid = (case map_of (in_conflict t) xid of None \<Rightarrow> False
     | Some others \<Rightarrow> list_ex (\<lambda>other. other \<noteq> xid \<and>
          (case map_of (in_conflict t) other of None \<Rightarrow> False | Some cs \<Rightarrow> xid \<in> set cs)) others)"

subsection \<open>Undo and savepoints\<close>

definition add_undo_record :: "UndoRecord \<Rightarrow> TM \<Rightarrow> TM" where
  "add_undo_record rec = set_context (\<lambda>c. c\<lparr>cx_undo_records := cx_undo_records c @ [rec]\<rparr>)"

definition savepoint :: "string \<Rightarrow> TM \<Rightarrow> TM" where
  "savepoint name = set_context (\<lambda>c. c\<lparr>cx_savepoints := cx_savepoints c @
     [\<lparr>sp_name = name, sp_undo_position = length (cx_undo_records c)\<rparr>]\<rparr>)"

text \<open>The reverse search: the latest savepoint of that name and the ones before it.\<close>

fun find_savepoint :: "string \<Rightarrow> Savepoint list \<Rightarrow> (Savepoint list \<times> Savepoint) option" where
  "find_savepoint name [] = None"
| "find_savepoint name (sp # sps) = (case find_savepoint name sps of
     Some (before, found) \<Rightarrow> Some (sp # before, found)
   | None \<Rightarrow> if sp_name sp = name then Some ([], sp) else None)"

definition rollback_to_savepoint :: "string \<Rightarrow> TM \<Rightarrow> txn_error + (nat \<times> TM)" where
  "rollback_to_savepoint name t = (case find_savepoint name (cx_savepoints (ctx t)) of
     Some (before, sp) \<Rightarrow>
       let current = length (cx_undo_records (ctx t)); target = sp_undo_position sp;
           t = set_context (\<lambda>c. c\<lparr>cx_savepoints := before\<rparr>) t
       in if current < target then Inr (0, t) else Inr (current - target, t)
   | None \<Rightarrow> Inl (NoSuchSavepoint name))"

definition release_savepoint :: "string \<Rightarrow> TM \<Rightarrow> txn_error + TM" where
  "release_savepoint name t = (case find_savepoint name (cx_savepoints (ctx t)) of
     Some (before, _) \<Rightarrow> Inr (set_context (\<lambda>c. c\<lparr>cx_savepoints := before\<rparr>) t)
   | None \<Rightarrow> Inl (NoSuchSavepoint name))"

definition has_savepoint :: "TM \<Rightarrow> string \<Rightarrow> bool" where
  "has_savepoint t name = list_ex (\<lambda>sp. sp_name sp = name) (cx_savepoints (ctx t))"

subsection \<open>The block state machine\<close>

definition set_block_state :: "TBlockState \<Rightarrow> TM \<Rightarrow> TM" where
  "set_block_state b = set_context (\<lambda>c. c\<lparr>cx_block_state := b\<rparr>)"

definition fresh_transaction :: "TM \<Rightarrow> TM" where
  "fresh_transaction = set_context (\<lambda>c. c\<lparr>cx_xid := InvalidTransactionId, cx_command_id := 0,
     cx_undo_records := [], cx_has_snapshot := False\<rparr>)"

definition end_transaction :: "TM \<Rightarrow> TM" where
  "end_transaction = set_context (\<lambda>c. c\<lparr>cx_undo_records := [], cx_savepoints := [],
     cx_xid := InvalidTransactionId, cx_command_id := 0, cx_has_snapshot := False\<rparr>)"

definition start_transaction_command :: "TM \<Rightarrow> TM" where
  "start_transaction_command t = (case cx_block_state (ctx t) of
     DEFAULT \<Rightarrow> set_block_state STARTED (fresh_transaction t)
   | _ \<Rightarrow> t)"

definition commit_transaction :: "TM \<Rightarrow> txn_error + TM" where
  "commit_transaction t =
     (let xid = cx_xid (ctx t) in
      if xid = InvalidTransactionId then
        Inr (set_context (\<lambda>c. c\<lparr>cx_undo_records := [], cx_has_snapshot := False\<rparr>)
               (t\<lparr>active_xids := oset_del xid (active_xids t)\<rparr>))
      else if cx_isolation (ctx t) = Serializable \<and> ssi_is_pivot t xid then Inl SsiPivot
      else Inr (end_transaction (cleanup_transaction_state xid
             (t\<lparr>clog := set_status xid COMMITTED (clog t), active_xids := oset_del xid (active_xids t)\<rparr>))))"

definition abort_transaction :: "TM \<Rightarrow> TM" where
  "abort_transaction t =
     (let xid = cx_xid (ctx t) in
      end_transaction
        (if xid \<noteq> InvalidTransactionId
         then cleanup_transaction_state xid
                (t\<lparr>clog := set_status xid ABORTED (clog t), active_xids := oset_del xid (active_xids t)\<rparr>)
         else t))"

definition command_counter_increment :: "TM \<Rightarrow> TM" where
  "command_counter_increment = set_context (\<lambda>c. c\<lparr>cx_command_id := cx_command_id c + 1\<rparr>)"

definition commit_transaction_command :: "TM \<Rightarrow> txn_error + TM" where
  "commit_transaction_command t = (case cx_block_state (ctx t) of
     STARTED \<Rightarrow> bindE (commit_transaction t) (\<lambda>t. Inr (set_block_state DEFAULT t))
   | BEGIN \<Rightarrow> Inr (set_block_state INPROGRESS t)
   | INPROGRESS \<Rightarrow> Inr (command_counter_increment t)
   | END \<Rightarrow> bindE (commit_transaction t) (\<lambda>t. Inr (set_block_state DEFAULT t))
   | ABORT_PENDING \<Rightarrow> Inr (set_block_state DEFAULT (abort_transaction t))
   | DEFAULT \<Rightarrow> Inr t)"

definition begin_transaction_block :: "TM \<Rightarrow> txn_error + TM" where
  "begin_transaction_block t =
     (let b = cx_block_state (ctx t) in
      if b \<noteq> DEFAULT \<and> b \<noteq> STARTED then Inl AlreadyInBlock
      else Inr (set_block_state BEGIN (if b = DEFAULT then fresh_transaction t else t)))"

subsection \<open>Recovery\<close>

definition rebuild_active_from_clog :: "TM \<Rightarrow> TM" where
  "rebuild_active_from_clog t = t\<lparr>active_xids := [],
     clog := fold (\<lambda>xid. set_status xid ABORTED) (in_progress_xids (clog t)) (clog t)\<rparr>"

definition set_next_xid :: "TransactionId \<Rightarrow> TM \<Rightarrow> TM" where
  "set_next_xid xid t = t\<lparr>next_xid := xid\<rparr>"

definition reset_context :: "TM \<Rightarrow> TM" where
  "reset_context = set_context (\<lambda>c. c\<lparr>cx_xid := InvalidTransactionId, cx_block_state := DEFAULT,
     cx_command_id := 0, cx_undo_records := [], cx_has_snapshot := False, cx_savepoints := []\<rparr>)"

section \<open>The commit log as an interface\<close>

locale commit_log =
  fixes get :: "'c \<Rightarrow> TransactionId \<Rightarrow> TransactionStatus"
    and set_to :: "TransactionId \<Rightarrow> TransactionStatus \<Rightarrow> 'c \<Rightarrow> 'c"
  assumes get_set: "get (set_to x st c) y = (if x = y then st else get c y)"
begin

lemma get_fold: "get (fold (\<lambda>x. set_to x st) xs c) y = (if y \<in> set xs then st else get c y)"
  by (induction xs arbitrary: c) (auto simp: get_set)

lemma set_once: "get (set_to x st c) x = st"
  by (simp add: get_set)

lemma others_kept: "x \<noteq> y \<Longrightarrow> get (set_to x st c) y = get c y"
  by (simp add: get_set)

end

lemma get_status_set_status: "get_status (set_status x st c) y = (if x = y then st else get_status c y)"
  by (simp add: get_status_def set_status_def)

interpretation cl: commit_log get_status set_status
  by unfold_locales (simp add: get_status_set_status)

definition clog_ok :: "CLog \<Rightarrow> bool" where
  "clog_ok c \<longleftrightarrow> omap_ok (status_map c) \<and> oset_ok (dirty c)"

lemma clog_ok_set_status [simp, wf_intros]: "clog_ok c \<Longrightarrow> clog_ok (set_status x st c)"
  by (simp add: clog_ok_def set_status_def)

lemma clog_ok_empty [simp]: "clog_ok empty_clog"
  by (simp add: clog_ok_def empty_clog_def)

lemma map_of_set_status [simp]: "map_of (status_map (set_status x st c)) = (map_of (status_map c))(x \<mapsto> st)"
  by (simp add: set_status_def)

lemma set_all_xids: "set (all_xids c) = fst ` set (status_map c)"
proof -
  have "set (fold (\<lambda>(xid, _). oset_ins xid) m acc) = fst ` set m \<union> set acc" for m :: "(TransactionId, TransactionStatus) omap" and acc
    by (induction m arbitrary: acc) auto
  then show ?thesis by (simp add: all_xids_def)
qed

lemma set_in_progress_xids:
  assumes "clog_ok c"
  shows "x \<in> set (in_progress_xids c) \<longleftrightarrow> map_of (status_map c) x = Some IN_PROGRESS"
proof -
  have "set (fold (\<lambda>(xid, status). if status = IN_PROGRESS then oset_ins xid else id) m acc) =
      {x. (x, IN_PROGRESS) \<in> set m} \<union> set acc"
    for m :: "(TransactionId, TransactionStatus) omap" and acc
    by (induction m arbitrary: acc) (auto split: if_splits)
  with assms show ?thesis
    by (simp add: in_progress_xids_def clog_ok_def omap_ok_distinct)
qed

lemma in_progress_xids_ok: "oset_ok (in_progress_xids c)"
proof -
  have "oset_ok acc \<Longrightarrow> oset_ok (fold (\<lambda>(xid, status). if status = IN_PROGRESS then oset_ins xid else id) m acc)"
    for m :: "(TransactionId, TransactionStatus) omap" and acc
    by (induction m arbitrary: acc) auto
  then show ?thesis by (simp add: in_progress_xids_def)
qed

section \<open>What visibility means\<close>

text \<open>
  The insertion is seen when the inserter is frozen, or is the reader at an earlier or equal
  command, or has ended without aborting and was not active in the snapshot. The deletion is seen
  when the deleter is the reader or has committed; a row the reader inserted itself is only
  deleted by the reader.
\<close>

definition insertion_seen :: "row \<Rightarrow> TransactionId \<Rightarrow> Snapshot \<Rightarrow> u32 \<Rightarrow> CLog \<Rightarrow> bool" where
  "insertion_seen r me snap cid c \<longleftrightarrow>
     (let x = row_xid r ''_xmin'' in
      x = FrozenTransactionId \<or>
      (if x = me then \<not> (\<exists>v. row_int r ''_cid'' = Some v \<and> cid <s ucast v)
       else get_status c x \<noteq> ABORTED \<and> get_status c x \<noteq> IN_PROGRESS \<and>
            \<not> (snap_xmin snap \<le> x \<and> x < snap_xmax snap \<and> x \<in> set (snap_xip snap))))"

definition deletion_seen :: "row \<Rightarrow> TransactionId \<Rightarrow> CLog \<Rightarrow> bool" where
  "deletion_seen r me c \<longleftrightarrow>
     (let x = row_xid r ''_xmax'' in
      x \<noteq> InvalidTransactionId \<and>
      (x = me \<or> (get_status c x = COMMITTED \<and>
                 (row_xid r ''_xmin'' \<noteq> me \<or> row_xid r ''_xmin'' = FrozenTransactionId))))"

lemmas xid_consts = InvalidTransactionId_def FrozenTransactionId_def FirstNormalTransactionId_def
  BootstrapTransactionId_def

lemma visibility_spec:
  "check_tuple_visibility r me snap cid c \<longleftrightarrow>
   row_xid r ''_xmin'' = InvalidTransactionId \<or>
   (insertion_seen r me snap cid c \<and> \<not> deletion_seen r me c)"
proof -
  define x y where "x = row_xid r ''_xmin''" and "y = row_xid r ''_xmax''"
  consider "x = InvalidTransactionId" | "x = FrozenTransactionId"
    | "x \<noteq> InvalidTransactionId" "x \<noteq> FrozenTransactionId" "x = me"
    | "x \<noteq> InvalidTransactionId" "x \<noteq> FrozenTransactionId" "x \<noteq> me" by blast
  then show ?thesis
    by cases
      (auto simp: check_tuple_visibility_def insertion_seen_def deletion_seen_def Let_def xid_consts
        simp flip: x_def y_def split: option.splits)
qed

text \<open>No dirty read: what an unfinished or aborted transaction inserted is seen by no one else.\<close>

lemma no_dirty_read:
  assumes "row_xid r ''_xmin'' = x" "x \<noteq> InvalidTransactionId" "x \<noteq> FrozenTransactionId" "x \<noteq> me"
    and "get_status c x = IN_PROGRESS \<or> get_status c x = ABORTED"
  shows "\<not> check_tuple_visibility r me snap cid c"
  using assms by (auto simp: visibility_spec insertion_seen_def)

text \<open>An inserter that was active when the snapshot was taken stays unseen, whatever it does later.\<close>

lemma snapshot_hides_active:
  assumes "row_xid r ''_xmin'' = x" "x \<noteq> InvalidTransactionId" "x \<noteq> FrozenTransactionId" "x \<noteq> me"
    and "snap_xmin snap \<le> x" "x < snap_xmax snap" "x \<in> set (snap_xip snap)"
  shows "\<not> check_tuple_visibility r me snap cid c"
  using assms by (auto simp: visibility_spec insertion_seen_def)

section \<open>The invariant of the manager\<close>

definition ssi_ok :: "TM \<Rightarrow> bool" where
  "ssi_ok t \<longleftrightarrow> omap_ok (siread_map t) \<and> omap_ok (in_conflict t) \<and>
     (\<forall>(k, readers) \<in> set (siread_map t). set readers \<subseteq> set (active_xids t)) \<and>
     (\<forall>(x, ys) \<in> set (in_conflict t). x \<in> set (active_xids t) \<and> set ys \<subseteq> set (active_xids t))"

text \<open>
  \<^item> every known XID is a normal one below \<open>next_xid\<close>, which stops at the emergency limit;
  \<^item> the active set is exactly the set of XIDs recorded as in progress;
  \<^item> the current transaction, when it has an XID, is active;
  \<^item> the serializable bookkeeping only names active transactions.
\<close>

definition tm_inv :: "TM \<Rightarrow> bool" where
  "tm_inv t \<longleftrightarrow> clog_ok (clog t) \<and> oset_ok (active_xids t) \<and>
     FirstNormalTransactionId \<le> next_xid t \<and> next_xid t \<le> ucast XIDEmergencyStop \<and>
     (\<forall>x \<in> dom (map_of (status_map (clog t))). FirstNormalTransactionId \<le> x \<and> x < next_xid t) \<and>
     (\<forall>x. x \<in> set (active_xids t) \<longleftrightarrow> map_of (status_map (clog t)) x = Some IN_PROGRESS) \<and>
     (cx_xid (ctx t) \<noteq> InvalidTransactionId \<longrightarrow> cx_xid (ctx t) \<in> set (active_xids t)) \<and>
     ssi_ok t"

lemma tm_invD:
  assumes "tm_inv t"
  shows "clog_ok (clog t)" "oset_ok (active_xids t)" "FirstNormalTransactionId \<le> next_xid t"
    "next_xid t \<le> ucast XIDEmergencyStop"
    "x \<in> set (active_xids t) \<longleftrightarrow> map_of (status_map (clog t)) x = Some IN_PROGRESS"
    "cx_xid (ctx t) \<noteq> InvalidTransactionId \<Longrightarrow> cx_xid (ctx t) \<in> set (active_xids t)"
    "ssi_ok t"
  using assms by (auto simp: tm_inv_def)

lemma tm_inv_xid_range:
  "tm_inv t \<Longrightarrow> map_of (status_map (clog t)) x = Some s \<Longrightarrow> FirstNormalTransactionId \<le> x \<and> x < next_xid t"
  by (auto simp: tm_inv_def)

lemma active_range: "tm_inv t \<Longrightarrow> x \<in> set (active_xids t) \<Longrightarrow> FirstNormalTransactionId \<le> x \<and> x < next_xid t"
  using tm_inv_xid_range tm_invD(5) by blast

lemma active_status: "tm_inv t \<Longrightarrow> x \<in> set (active_xids t) \<Longrightarrow> get_status (clog t) x = IN_PROGRESS"
  by (simp add: tm_invD(5) get_status_def)

lemma tm_inv_init: "tm_inv init_tm"
  by (simp add: tm_inv_def init_tm_def init_context_def ssi_ok_def empty_clog_def clog_ok_def
      XIDEmergencyStop_def xid_consts)

text \<open>
  Whatever only rewrites the context keeps the invariant, as long as the new XID is none or the
  old one.
\<close>

lemma tm_inv_set_context:
  "tm_inv t \<Longrightarrow> cx_xid (f (ctx t)) = InvalidTransactionId \<or> cx_xid (f (ctx t)) = cx_xid (ctx t) \<Longrightarrow>
   tm_inv (set_context f t)"
  by (auto simp: tm_inv_def set_context_def ssi_ok_def)

text \<open>Freezing finds nothing to abort: everything older than the oldest active XID has ended.\<close>

lemma freeze_fold_id:
  "(\<forall>x \<in> set xs. FirstNormalTransactionId \<le> x \<and> x < oldest \<longrightarrow> get_status c x \<noteq> IN_PROGRESS) \<Longrightarrow>
   fst (fold (freeze_xid oldest) xs (c, n)) = c"
proof (induction xs arbitrary: n)
  case (Cons x xs)
  then have "\<exists>n'. freeze_xid oldest x (c, n) = (c, n')"
    by (auto simp: freeze_xid_def not_le not_less)
  with Cons show ?case by auto
qed simp

lemma freeze_old_xids_id:
  assumes "tm_inv t"
  shows "fst (freeze_old_xids t) = t"
proof -
  have "get_status (clog t) x \<noteq> IN_PROGRESS"
    if x: "x \<in> set (all_xids (clog t))" "x < get_oldest_active_xid t" for x
  proof
    assume ip: "get_status (clog t) x = IN_PROGRESS"
    from x obtain s where s: "map_of (status_map (clog t)) x = Some s"
      by (metis domD dom_map_of_conv_image_fst set_all_xids)
    with ip have "x \<in> set (active_xids t)" using assms by (simp add: tm_invD(5) get_status_def)
    then have "get_oldest_active_xid t \<le> x"
      using oset_ok_hd_le [OF tm_invD(2) [OF assms]] by (auto simp: get_oldest_active_xid_def)
    with x show False by simp
  qed
  then have "fst (fold (freeze_xid (get_oldest_active_xid t)) (all_xids (clog t)) (clog t, 0)) = clog t"
    by (intro freeze_fold_id) auto
  then show ?thesis by (auto simp: freeze_old_xids_def split: prod.splits)
qed

lemma maybe_anti_wraparound_id: "tm_inv t \<Longrightarrow> fst (maybe_anti_wraparound t) = t"
  by (simp add: maybe_anti_wraparound_def freeze_old_xids_id Let_def)

lemma allocate_xid_eq:
  "tm_inv t \<Longrightarrow> allocate_xid t =
    (if next_xid t = ucast XIDEmergencyStop then (Inl EmergencyStop, t)
     else (Inr (next_xid t), t\<lparr>next_xid := next_xid t + 1, active_xids := oset_ins (next_xid t) (active_xids t),
             clog := set_status (next_xid t) IN_PROGRESS (clog t)\<rparr>))"
proof -
  assume inv: "tm_inv t"
  have "XIDEmergencyStop \<le> ucast (next_xid t) \<longleftrightarrow> next_xid t = ucast XIDEmergencyStop"
    using tm_invD(4) [OF inv]
    by (auto simp: XIDEmergencyStop_def word_le_nat_alt unsigned_ucast_eq take_bit_nat_eq_self word_unat_eq_iff)
  with inv show ?thesis by (simp add: allocate_xid_def maybe_anti_wraparound_id Let_def)
qed

lemma allocate_xid_fresh:
  "tm_inv t \<Longrightarrow> allocate_xid t = (Inr x, t') \<Longrightarrow>
   x = next_xid t \<and> map_of (status_map (clog t)) x = None \<and> next_xid t' = x + 1"
  using tm_inv_xid_range [of t "next_xid t"]
  by (cases "map_of (status_map (clog t)) (next_xid t)") (auto simp: allocate_xid_eq split: if_splits)

lemma next_xid_less: "tm_inv t \<Longrightarrow> next_xid t \<noteq> ucast XIDEmergencyStop \<Longrightarrow>
    next_xid t < next_xid t + 1 \<and> next_xid t + 1 \<le> ucast XIDEmergencyStop"
proof -
  assume "tm_inv t" "next_xid t \<noteq> ucast XIDEmergencyStop"
  then have "next_xid t < ucast XIDEmergencyStop" using tm_invD(4) by (metis order_le_neq_trans)
  then have lt: "unat (next_xid t) < 2146483648"
    by (simp add: XIDEmergencyStop_def word_less_nat_alt)
  then have "unat (next_xid t + 1) = unat (next_xid t) + 1"
    by (simp add: unat_word_ariths)
  with lt show ?thesis
    by (simp add: XIDEmergencyStop_def word_less_nat_alt word_le_nat_alt)
qed

lemma ssi_ok_mono: "ssi_ok t \<Longrightarrow> set (active_xids t) \<subseteq> set a \<Longrightarrow> ssi_ok (t\<lparr>next_xid := n, active_xids := a, clog := c\<rparr>)"
  by (fastforce simp: ssi_ok_def)

lemma tm_inv_allocate: "tm_inv t \<Longrightarrow> allocate_xid t = (Inr x, t') \<Longrightarrow> tm_inv t' \<and> x \<in> set (active_xids t')"
proof -
  assume inv: "tm_inv t" and alloc: "allocate_xid t = (Inr x, t')"
  then have ne: "next_xid t \<noteq> ucast XIDEmergencyStop" and x: "x = next_xid t"
    and t': "t' = t\<lparr>next_xid := x + 1, active_xids := oset_ins x (active_xids t),
             clog := set_status x IN_PROGRESS (clog t)\<rparr>"
    by (auto simp: allocate_xid_eq split: if_splits)
  have "ssi_ok t'" using inv unfolding t' by (intro ssi_ok_mono tm_invD) auto
  moreover have range: "FirstNormalTransactionId \<le> x" "x < x + 1" "x + 1 \<le> ucast XIDEmergencyStop"
    using next_xid_less [OF inv ne] tm_invD(3) [OF inv] x by auto
  moreover have "FirstNormalTransactionId \<le> y \<and> y < x + 1"
    if "map_of (status_map (clog t)) y = Some s" for y s
    using tm_inv_xid_range [OF inv that] range x by auto
  ultimately show ?thesis
    using inv x unfolding t' by (auto simp: tm_inv_def)
qed

lemma tm_inv_assign: "tm_inv t \<Longrightarrow> tm_inv (snd (assign_xid t))"
proof (cases "cx_xid (ctx t) = InvalidTransactionId")
  case True
  assume inv: "tm_inv t"
  obtain r t' where alloc: "allocate_xid t = (r, t')" by fastforce
  show ?thesis
  proof (cases r)
    case (Inl e)
    with True alloc inv show ?thesis by (auto simp: assign_xid_def allocate_xid_eq split: if_splits)
  next
    case (Inr x)
    then have "tm_inv t' \<and> x \<in> set (active_xids t')" using tm_inv_allocate inv alloc by blast
    with True alloc Inr show ?thesis
      by (auto simp: assign_xid_def set_context_def tm_inv_def ssi_ok_def)
  qed
qed (simp add: assign_xid_def)

text \<open>Cleaning up after a transaction removes its every trace from the serializable state.\<close>

lemma ssi_ok_cleanup:
  "ssi_ok t \<Longrightarrow> set a = set (active_xids t) - {x} \<Longrightarrow>
   ssi_ok (cleanup_transaction_state x (t\<lparr>clog := c, active_xids := a\<rparr>))"
proof -
  assume ok: "ssi_ok t" and a: "set a = set (active_xids t) - {x}"
  have del: "set (omap_del x (in_conflict t)) \<subseteq> set (in_conflict t)" by (rule set_omap_del)
  have gone: "(x, ys) \<notin> set (omap_del x (in_conflict t))" for ys
  proof -
    have ok': "omap_ok (in_conflict t)" using ok by (simp add: ssi_ok_def)
    then have "map_of (omap_del x (in_conflict t)) x = None" by simp
    then show ?thesis using omap_ok_distinct [OF omap_ok_del [OF ok']] by auto
  qed
  from ok show ?thesis
    unfolding cleanup_transaction_state_def ssi_ok_def
    using del gone a
    by (fastforce simp: omap_ok_filter omap_ok_map_snd)
qed

lemma tm_inv_end:
  assumes inv: "tm_inv t" and x: "x \<in> set (active_xids t)" and s: "s \<noteq> IN_PROGRESS"
  shows "tm_inv (end_transaction (cleanup_transaction_state x
           (t\<lparr>clog := set_status x s (clog t), active_xids := oset_del x (active_xids t)\<rparr>)))"
    (is "tm_inv (end_transaction ?t)")
proof -
  have "ssi_ok ?t" using inv by (intro ssi_ok_cleanup tm_invD) simp_all
  moreover have "ssi_ok (end_transaction ?t) = ssi_ok ?t"
    by (simp add: ssi_ok_def end_transaction_def set_context_def)
  moreover have "FirstNormalTransactionId \<le> x \<and> x < next_xid t" using active_range [OF inv x] .
  ultimately show ?thesis
    using inv s unfolding tm_inv_def
    by (auto simp: end_transaction_def set_context_def cleanup_transaction_state_def)
qed

lemma oset_del_invalid: "tm_inv t \<Longrightarrow> oset_del InvalidTransactionId (active_xids t) = active_xids t"
  using active_range by (intro oset_del_id) (fastforce simp: xid_consts)

lemma tm_inv_commit: "tm_inv t \<Longrightarrow> commit_transaction t = Inr t' \<Longrightarrow> tm_inv t'"
proof (cases "cx_xid (ctx t) = InvalidTransactionId")
  case True
  moreover assume "tm_inv t" "commit_transaction t = Inr t'"
  ultimately show ?thesis
    by (auto simp: commit_transaction_def oset_del_invalid intro!: tm_inv_set_context)
next
  case False
  moreover assume "tm_inv t" "commit_transaction t = Inr t'"
  ultimately show ?thesis
    by (auto simp: commit_transaction_def Let_def tm_invD(6) intro!: tm_inv_end split: if_splits)
qed

lemma tm_inv_abort: "tm_inv t \<Longrightarrow> tm_inv (abort_transaction t)"
proof (cases "cx_xid (ctx t) = InvalidTransactionId")
  case False
  assume inv: "tm_inv t"
  with False have "cx_xid (ctx t) \<in> set (active_xids t)" by (simp add: tm_invD(6))
  from tm_inv_end [OF inv this, of ABORTED] False show ?thesis
    by (simp add: abort_transaction_def Let_def)
qed (simp add: abort_transaction_def end_transaction_def tm_inv_set_context)

lemma tm_inv_siread: "tm_inv t \<Longrightarrow> tm_inv (register_siread k t)"
proof -
  assume inv: "tm_inv t"
  let ?P = "\<lambda>(_ :: RowKey) rs. set rs \<subseteq> set (active_xids t)"
  have reads: "\<forall>(k, rs) \<in> set (siread_map t). ?P k rs" using tm_invD(7) [OF inv] by (simp add: ssi_ok_def)
  then have "?P k (omap_at [] (siread_map t) k)" by (rule ball_omap_at [rotated]) simp
  with reads have upd: "\<forall>(k, rs) \<in> set (omap_put k (oset_ins x (omap_at [] (siread_map t) k)) (siread_map t)). ?P k rs"
    if "x \<in> set (active_xids t)" for x
    using that by (intro ball_omap_put) auto
  have "ssi_ok (register_siread k t)"
  proof (cases "cx_isolation (ctx t) \<noteq> Serializable \<or> cx_xid (ctx t) = InvalidTransactionId")
    case False
    with upd [OF tm_invD(6) [OF inv]] tm_invD(7) [OF inv] show ?thesis
      unfolding register_siread_def ssi_ok_def by simp
  qed (use tm_invD(7) [OF inv] in \<open>auto simp: register_siread_def\<close>)
  with inv show ?thesis by (auto simp: tm_inv_def register_siread_def)
qed

lemma tm_inv_write: "tm_inv t \<Longrightarrow> tm_inv (register_write k t)"
proof -
  assume inv: "tm_inv t"
  let ?A = "set (active_xids t)"
  let ?P = "\<lambda>x ys. x \<in> ?A \<and> set ys \<subseteq> ?A"
  have edges: "omap_ok (fold (add_edge x) rs m) \<and> (\<forall>(y, ys) \<in> set (fold (add_edge x) rs m). ?P y ys)"
    if "x \<in> ?A" "set rs \<subseteq> ?A" "omap_ok m" "\<forall>(y, ys) \<in> set m. ?P y ys" for x rs m
    using that
  proof (induction rs arbitrary: m)
    case (Cons r rs)
    have r: "r \<in> ?A" using Cons.prems by simp
    have "set (omap_at [] m r) \<subseteq> ?A"
      by (rule ball_omap_at [of "\<lambda>_ ys. set ys \<subseteq> ?A"]) (use Cons.prems in auto)
    then have "?P r (oset_ins x (omap_at [] m r))" using Cons.prems by simp
    from ball_omap_put [where P = ?P, OF Cons.prems(4) this] Cons.prems(4)
    have "\<forall>(y, ys) \<in> set (add_edge x r m). ?P y ys"
      unfolding add_edge_def by (cases "r = x") simp_all
    moreover have "omap_ok (add_edge x r m)" using Cons.prems(3) by (simp add: add_edge_def)
    ultimately have "omap_ok (fold (add_edge x) rs (add_edge x r m)) \<and>
        (\<forall>(y, ys) \<in> set (fold (add_edge x) rs (add_edge x r m)). ?P y ys)"
      using Cons.prems(1,2) by (intro Cons.IH) simp_all
    then show ?case by simp
  qed simp
  have "set rs \<subseteq> ?A" if "map_of (siread_map t) k = Some rs" for rs
    using tm_invD(7) [OF inv] map_of_SomeD [OF that] by (auto simp: ssi_ok_def)
  note reads = this
  have "ssi_ok (register_write k t)"
  proof (cases "cx_isolation (ctx t) \<noteq> Serializable \<or> cx_xid (ctx t) = InvalidTransactionId \<or>
      map_of (siread_map t) k = None")
    case True
    then show ?thesis using tm_invD(7) [OF inv] by (auto simp: register_write_def)
  next
    case False
    then obtain rs where rs: "map_of (siread_map t) k = Some rs" and x: "cx_xid (ctx t) \<in> ?A"
      using tm_invD(6) [OF inv] by auto
    have "omap_ok (in_conflict t)" "\<forall>(y, ys) \<in> set (in_conflict t). ?P y ys"
      using tm_invD(7) [OF inv] by (auto simp: ssi_ok_def)
    from edges [OF x reads [OF rs] this] rs False tm_invD(7) [OF inv] show ?thesis
      unfolding register_write_def ssi_ok_def by simp
  qed
  moreover obtain m where "register_write k t = t\<lparr>in_conflict := m\<rparr>"
  proof -
    have "\<exists>m. register_write k t = t\<lparr>in_conflict := m\<rparr>"
      by (auto simp: register_write_def split: option.splits intro: exI [of _ "in_conflict t"])
    with that show ?thesis by blast
  qed
  ultimately show ?thesis using inv by (auto simp: tm_inv_def)
qed

text \<open>The calls the server and the engine make, one step each.\<close>

inductive tm_step :: "TM \<Rightarrow> TM \<Rightarrow> bool" where
  isolation: "tm_step t (set_isolation_level lvl t)"
| start: "tm_step t (start_transaction_command t)"
| begin_block: "begin_transaction_block t = Inr t' \<Longrightarrow> tm_step t t'"
| assign: "tm_step t (snd (assign_xid t))"
| snap: "tm_step t (snd (get_transaction_snapshot t))"
| siread: "tm_step t (register_siread k t)"
| wrote: "tm_step t (register_write k t)"
| undo: "tm_step t (add_undo_record rec t)"
| save: "tm_step t (savepoint name t)"
| rollback_to: "rollback_to_savepoint name t = Inr (n, t') \<Longrightarrow> tm_step t t'"
| release: "release_savepoint name t = Inr t' \<Longrightarrow> tm_step t t'"
| freeze: "tm_step t (fst (freeze_old_xids t))"
| commit_command: "commit_transaction_command t = Inr t' \<Longrightarrow> tm_step t t'"
| commit: "commit_transaction t = Inr t' \<Longrightarrow> tm_step t t'"
| abort: "tm_step t (abort_transaction t)"
| reset: "cx_xid (ctx t) = InvalidTransactionId \<Longrightarrow> tm_step t (reset_context t)"

lemma tm_inv_context_ops:
  assumes "tm_inv t"
  shows "tm_inv (set_isolation_level lvl t)" "tm_inv (start_transaction_command t)"
    "tm_inv (snd (get_transaction_snapshot t))" "tm_inv (add_undo_record rec t)"
    "tm_inv (savepoint name t)" "tm_inv (reset_context t)" "tm_inv (command_counter_increment t)"
    "tm_inv (set_block_state b t)" "tm_inv (fresh_transaction t)"
  using assms
  by (auto simp: set_isolation_level_def start_transaction_command_def get_transaction_snapshot_def
      add_undo_record_def savepoint_def reset_context_def command_counter_increment_def
      set_block_state_def fresh_transaction_def Let_def
      intro!: tm_inv_set_context split: TBlockState.splits)

lemma tm_inv_commit_command:
  assumes "tm_inv t" "commit_transaction_command t = Inr t'"
  shows "tm_inv t'"
  using assms
  by (auto simp: commit_transaction_command_def bindE_Inr
      intro!: tm_inv_context_ops tm_inv_abort intro: tm_inv_commit split: TBlockState.splits)

lemma tm_inv_step: "tm_step t t' \<Longrightarrow> tm_inv t \<Longrightarrow> tm_inv t'"
proof (induction rule: tm_step.induct)
  case (begin_block t t')
  then have "t' = set_block_state BEGIN (fresh_transaction t) \<or> t' = set_block_state BEGIN t"
    by (auto simp: begin_transaction_block_def Let_def split: if_splits)
  with begin_block.prems show ?case by (auto simp: tm_inv_context_ops)
next
  case (rollback_to name t n t')
  then obtain before where "t' = set_context (\<lambda>c. c\<lparr>cx_savepoints := before\<rparr>) t"
    by (auto simp: rollback_to_savepoint_def Let_def split: option.splits if_splits)
  with rollback_to.prems show ?case by (simp add: tm_inv_set_context)
next
  case (release name t t')
  then obtain before where "t' = set_context (\<lambda>c. c\<lparr>cx_savepoints := before\<rparr>) t"
    by (auto simp: release_savepoint_def split: option.splits)
  with release.prems show ?case by (simp add: tm_inv_set_context)
next
  case (commit_command t t')
  then show ?case by (metis tm_inv_commit_command)
next
  case (commit t t')
  then show ?case by (metis tm_inv_commit)
qed (simp_all add: tm_inv_context_ops tm_inv_assign tm_inv_siread tm_inv_write freeze_old_xids_id
      tm_inv_abort)

lemma tm_inv_reachable: "tm_step\<^sup>*\<^sup>* init_tm t \<Longrightarrow> tm_inv t"
  by (induction rule: rtranclp_induct) (auto intro: tm_inv_init tm_inv_step)

text \<open>
  Recovery from a checkpoint sets the counter and the log, ends the transactions the log has as running and resets the
  context. The manager is sound when the counter of the checkpoint is above every XID of the log. A new manager is the
  one recovered from an empty log.
\<close>

definition log_below :: "TransactionId \<Rightarrow> CLog \<Rightarrow> bool" where
  "log_below n c \<longleftrightarrow> clog_ok c \<and> FirstNormalTransactionId \<le> n \<and> n \<le> ucast XIDEmergencyStop \<and>
     (\<forall>x \<in> dom (map_of (status_map c)). FirstNormalTransactionId \<le> x \<and> x < n)"

definition recovered_tm :: "TransactionId \<Rightarrow> CLog \<Rightarrow> TM" where
  "recovered_tm n c = reset_context (rebuild_active_from_clog ((set_next_xid n init_tm)\<lparr>clog := c\<rparr>))"

lemma recovered_new: "recovered_tm FirstNormalTransactionId empty_clog = init_tm"
  by (simp add: recovered_tm_def reset_context_def rebuild_active_from_clog_def set_next_xid_def set_context_def init_tm_def
    init_context_def in_progress_xids_def empty_clog_def)

lemma log_below_new: "log_below FirstNormalTransactionId empty_clog"
  using tm_inv_init by (simp add: log_below_def tm_inv_def init_tm_def)

lemma map_of_set_each:
  "map_of (status_map (fold (\<lambda>x. set_status x s) xs c)) y = (if y \<in> set xs then Some s else map_of (status_map c) y)"
  by (induction xs arbitrary: c) auto

lemma clog_ok_set_each: "clog_ok c \<Longrightarrow> clog_ok (fold (\<lambda>x. set_status x s) xs c)"
  by (induction xs arbitrary: c) simp_all

lemma tm_inv_recovered:
  assumes "log_below n c"
  shows "tm_inv (recovered_tm n c)"
proof -
  have ok: "clog_ok c" using assms by (simp add: log_below_def)
  let ?c = "fold (\<lambda>x. set_status x ABORTED) (in_progress_xids c) c"
  have "dom (map_of (status_map ?c)) = dom (map_of (status_map c))" "map_of (status_map ?c) x \<noteq> Some IN_PROGRESS" for x
    by (auto simp: map_of_set_each set_in_progress_xids [OF ok] split: if_splits)
  moreover have "clog (recovered_tm n c) = ?c" "active_xids (recovered_tm n c) = []" "next_xid (recovered_tm n c) = n"
    "cx_xid (ctx (recovered_tm n c)) = InvalidTransactionId" "siread_map (recovered_tm n c) = []" "in_conflict (recovered_tm n c) = []"
    by (simp_all add: recovered_tm_def reset_context_def rebuild_active_from_clog_def set_next_xid_def set_context_def init_tm_def)
  ultimately show ?thesis
    using assms clog_ok_set_each [OF ok] by (simp add: tm_inv_def log_below_def ssi_ok_def oset_ok_def omap_ok_def)
qed

lemma tm_inv_from: "log_below n c \<Longrightarrow> tm_step\<^sup>*\<^sup>* (recovered_tm n c) t \<Longrightarrow> tm_inv t"
  by (rotate_tac 1, induction rule: rtranclp_induct) (auto intro: tm_inv_recovered tm_inv_step)

section \<open>The outcome of a transaction is final\<close>

lemma clog_unchanged:
  "clog (set_context f t) = clog t" "clog (register_siread k t) = clog t"
  "clog (register_write k t) = clog t" "clog (cleanup_transaction_state x t) = clog t"
  "clog (set_isolation_level lvl t) = clog t" "clog (start_transaction_command t) = clog t"
  "clog (snd (get_transaction_snapshot t)) = clog t" "clog (add_undo_record rec t) = clog t"
  "clog (savepoint name t) = clog t" "clog (reset_context t) = clog t"
  "clog (command_counter_increment t) = clog t" "clog (set_block_state b t) = clog t"
  "clog (fresh_transaction t) = clog t" "clog (end_transaction t) = clog t"
  by (simp_all add: set_context_def register_siread_def register_write_def
      cleanup_transaction_state_def set_isolation_level_def start_transaction_command_def
      get_transaction_snapshot_def add_undo_record_def savepoint_def reset_context_def
      command_counter_increment_def set_block_state_def fresh_transaction_def end_transaction_def
      Let_def split: option.splits TBlockState.splits)

lemma clog_begin: "begin_transaction_block t = Inr t' \<Longrightarrow> clog t' = clog t"
  by (auto simp: begin_transaction_block_def clog_unchanged Let_def split: if_splits)

lemma clog_rollback_to: "rollback_to_savepoint name t = Inr (n, t') \<Longrightarrow> clog t' = clog t"
  by (auto simp: rollback_to_savepoint_def clog_unchanged Let_def split: option.splits if_splits)

lemma clog_release: "release_savepoint name t = Inr t' \<Longrightarrow> clog t' = clog t"
  by (auto simp: release_savepoint_def clog_unchanged split: option.splits)

lemma clog_commit_command:
  "commit_transaction_command t = Inr t' \<Longrightarrow> clog t' = clog t \<or> clog t' = clog (abort_transaction t) \<or>
     (\<exists>u. commit_transaction t = Inr u \<and> clog t' = clog u)"
  by (cases "cx_block_state (ctx t)")
    (auto simp: commit_transaction_command_def bindE_Inr clog_unchanged)

lemma status_step:
  assumes "tm_step t t'" "tm_inv t"
  shows "clog t' = clog t \<or>
    (\<exists>x s. clog t' = set_status x s (clog t) \<and>
       (x \<in> set (active_xids t) \<or> map_of (status_map (clog t)) x = None))"
proof -
  have own: "cx_xid (ctx t) \<noteq> InvalidTransactionId \<Longrightarrow> cx_xid (ctx t) \<in> set (active_xids t)"
    using assms(2) by (rule tm_invD)
  let ?x = "cx_xid (ctx t)"
  have "clog u = clog t \<or> (clog u = set_status ?x COMMITTED (clog t) \<and> ?x \<in> set (active_xids t))"
    if "commit_transaction t = Inr u" for u
    using that own
    by (auto simp: commit_transaction_def Let_def end_transaction_def clog_unchanged split: if_splits)
  then have com: "clog u = clog t \<or> (\<exists>x s. clog u = set_status x s (clog t) \<and> x \<in> set (active_xids t))"
    if "commit_transaction t = Inr u" for u using that by blast
  have "clog (abort_transaction t) = clog t \<or>
      (clog (abort_transaction t) = set_status ?x ABORTED (clog t) \<and> ?x \<in> set (active_xids t))"
    using own by (auto simp: abort_transaction_def Let_def end_transaction_def clog_unchanged)
  then have ab: "clog (abort_transaction t) = clog t \<or>
      (\<exists>x s. clog (abort_transaction t) = set_status x s (clog t) \<and> x \<in> set (active_xids t))" by blast
  from assms(1) show ?thesis
  proof cases
    case assign
    obtain r t1 where alloc: "allocate_xid t = (r, t1)" by fastforce
    have "clog t1 = clog t \<or> (\<exists>x s. clog t1 = set_status x s (clog t) \<and> map_of (status_map (clog t)) x = None)"
    proof (cases r)
      case (Inr x)
      then have "map_of (status_map (clog t)) x = None" "x = next_xid t"
        using allocate_xid_fresh [OF assms(2)] alloc by auto
      moreover have "clog t1 = set_status (next_xid t) IN_PROGRESS (clog t)"
        using alloc Inr assms(2) by (auto simp: allocate_xid_eq split: if_splits)
      ultimately show ?thesis by blast
    qed (use alloc assms(2) in \<open>auto simp: allocate_xid_eq split: if_splits\<close>)
    moreover have "clog t' = clog t \<or> clog t' = clog t1"
      using assign alloc by (cases r) (auto simp: assign_xid_def clog_unchanged)
    ultimately show ?thesis by metis
  next
    case commit_command
    with clog_commit_command com ab show ?thesis by metis
  next
    case commit
    with com show ?thesis by blast
  next
    case abort
    with ab show ?thesis by blast
  next
    case freeze
    with assms(2) show ?thesis by (simp add: freeze_old_xids_id)
  qed (auto simp: clog_unchanged dest: clog_begin clog_rollback_to clog_release)
qed

lemma status_final_step:
  assumes "tm_step t t'" "tm_inv t" "map_of (status_map (clog t)) x = Some s" "s \<noteq> IN_PROGRESS"
  shows "map_of (status_map (clog t')) x = Some s"
  using status_step [OF assms(1,2)] assms(3,4) tm_invD(5) [OF assms(2)] by auto

lemma status_final:
  assumes "tm_step\<^sup>*\<^sup>* t t'" "tm_inv t" "map_of (status_map (clog t)) x = Some s" "s \<noteq> IN_PROGRESS"
  shows "map_of (status_map (clog t')) x = Some s"
proof -
  from assms(1) have "tm_inv t' \<and> map_of (status_map (clog t')) x = Some s"
    by (induction rule: rtranclp_induct) (use assms tm_inv_step status_final_step in blast)+
  then show ?thesis by simp
qed

section \<open>Snapshots of reachable states\<close>

lemma get_snapshot_ok:
  assumes "tm_inv t" "snap = get_snapshot t"
  shows "snap_xmin snap \<le> snap_xmax snap"
    and "x \<in> set (snap_xip snap) \<longleftrightarrow> map_of (status_map (clog t)) x = Some IN_PROGRESS"
    and "x \<in> set (snap_xip snap) \<Longrightarrow> snap_xmin snap \<le> x \<and> x < snap_xmax snap"
proof -
  have hd: "active_xids t \<noteq> [] \<Longrightarrow> y \<in> set (active_xids t) \<Longrightarrow> hd (active_xids t) \<le> y" for y
    by (rule oset_ok_hd_le [OF tm_invD(2) [OF assms(1)]])
  show "snap_xmin snap \<le> snap_xmax snap"
    using assms hd active_range [OF assms(1), of "hd (active_xids t)"]
    by (simp add: get_snapshot_def less_imp_le)
  show "x \<in> set (snap_xip snap) \<longleftrightarrow> map_of (status_map (clog t)) x = Some IN_PROGRESS"
    using assms by (simp add: get_snapshot_def tm_invD(5))
  show "x \<in> set (snap_xip snap) \<Longrightarrow> snap_xmin snap \<le> x \<and> x < snap_xmax snap"
    using assms hd active_range [OF assms(1), of x] by (auto simp: get_snapshot_def)
qed

text \<open>
  With a snapshot taken now, the statement reads exactly the committed state: a row shows when its
  inserter has ended successfully (or is the reader, or frozen) and no committed transaction, nor
  the reader, has deleted it. The snapshot itself decides nothing beyond the log.
\<close>

lemma fresh_snapshot_visibility:
  assumes "tm_inv t" "row_xid r ''_xmin'' = x" "x \<noteq> InvalidTransactionId" "x \<noteq> FrozenTransactionId" "x \<noteq> me"
  shows "check_tuple_visibility r me (get_snapshot t) cid (clog t) \<longleftrightarrow>
    get_status (clog t) x \<notin> {IN_PROGRESS, ABORTED} \<and>
    (let d = row_xid r ''_xmax'' in d = InvalidTransactionId \<or> (d \<noteq> me \<and> get_status (clog t) d \<noteq> COMMITTED))"
proof -
  have "x \<in> set (snap_xip (get_snapshot t)) \<Longrightarrow> get_status (clog t) x = IN_PROGRESS"
    using get_snapshot_ok(2) [OF assms(1) refl] by (simp add: get_status_def)
  with assms show ?thesis
    by (auto simp: visibility_spec insertion_seen_def deletion_seen_def Let_def)
qed

section \<open>Commit and abort\<close>

lemma commit_outcome:
  assumes "commit_transaction t = Inr t'" "cx_xid (ctx t) \<noteq> InvalidTransactionId"
  shows "get_status (clog t') (cx_xid (ctx t)) = COMMITTED" "cx_xid (ctx t) \<notin> set (active_xids t')"
    "cx_xid (ctx t') = InvalidTransactionId" "cx_undo_records (ctx t') = []" "cx_savepoints (ctx t') = []"
    "y \<noteq> cx_xid (ctx t) \<Longrightarrow> get_status (clog t') y = get_status (clog t) y"
  using assms
  by (auto simp: commit_transaction_def Let_def end_transaction_def set_context_def
      cleanup_transaction_state_def get_status_set_status split: if_splits)

lemma abort_outcome:
  assumes "cx_xid (ctx t) \<noteq> InvalidTransactionId"
  shows "get_status (clog (abort_transaction t)) (cx_xid (ctx t)) = ABORTED"
    "cx_xid (ctx t) \<notin> set (active_xids (abort_transaction t))"
    "cx_xid (ctx (abort_transaction t)) = InvalidTransactionId"
    "y \<noteq> cx_xid (ctx t) \<Longrightarrow> get_status (clog (abort_transaction t)) y = get_status (clog t) y"
  using assms
  by (auto simp: abort_transaction_def Let_def end_transaction_def set_context_def
      cleanup_transaction_state_def get_status_set_status)






section \<open>Savepoints\<close>

lemma find_savepoint_snoc: "find_savepoint name (sps @ [sp]) =
    (if sp_name sp = name then Some (sps, sp) else find_savepoint name sps)"
  by (induction sps) (auto split: option.splits)

lemma find_savepoint_Some:
  "find_savepoint name sps = Some (before, sp) \<Longrightarrow>
   \<exists>after. sps = before @ sp # after \<and> sp_name sp = name \<and> (\<forall>s \<in> set after. sp_name s \<noteq> name)"
proof (induction sps arbitrary: before rule: rev_induct)
  case (snoc s sps)
  then show ?case by (fastforce simp: find_savepoint_snoc split: if_splits)
qed simp

lemma find_savepoint_None: "find_savepoint name sps = None \<longleftrightarrow> (\<forall>sp \<in> set sps. sp_name sp \<noteq> name)"
  by (induction sps rule: rev_induct) (auto simp: find_savepoint_snoc)

text \<open>
  After \<open>SAVEPOINT name\<close> and any sequence of undo records and savepoints of other names,
  \<open>ROLLBACK TO name\<close> reports exactly the records written since and drops the savepoint with the
  later ones.
\<close>

lemma rollback_to_counts:
  assumes "cx_savepoints (ctx t') = cx_savepoints (ctx (savepoint name t)) @ later"
    and "\<forall>sp \<in> set later. sp_name sp \<noteq> name"
    and "cx_undo_records (ctx t') = cx_undo_records (ctx t) @ recs"
  shows "rollback_to_savepoint name t' =
    Inr (length recs, set_context (\<lambda>c. c\<lparr>cx_savepoints := cx_savepoints (ctx t)\<rparr>) t')"
proof -
  let ?sp = "\<lparr>sp_name = name, sp_undo_position = length (cx_undo_records (ctx t))\<rparr>"
  have "find_savepoint name ((cx_savepoints (ctx t) @ [?sp]) @ later) = Some (cx_savepoints (ctx t), ?sp)"
    using assms(2) by (induction later rule: rev_induct) (auto simp: find_savepoint_snoc simp flip: append_assoc)
  with assms show ?thesis
    by (simp add: rollback_to_savepoint_def savepoint_def set_context_def Let_def)
qed

text \<open>
  A block that never wrote keeps its savepoints when it commits: the read-only branch of
  \<open>commit_transaction\<close> does not clear them, nor does the start of the next transaction.
\<close>

lemma read_only_commit_keeps_savepoints:
  assumes "cx_xid (ctx t) = InvalidTransactionId" "commit_transaction t = Inr t'"
  shows "cx_savepoints (ctx (start_transaction_command (set_block_state DEFAULT t'))) = cx_savepoints (ctx t)"
  using assms
  by (auto simp: commit_transaction_def set_context_def start_transaction_command_def
      set_block_state_def fresh_transaction_def)

section \<open>Properties\<close>

lemma two_steps: "r a b \<Longrightarrow> r b c \<Longrightarrow> r\<^sup>*\<^sup>* a c"
  by (rule converse_rtranclp_into_rtranclp) auto

text \<open>C8: In every state that a manager reaches through its calls, started new or recovered from a checkpoint whose log lies
  below its counter: the active set is exactly the set of XIDs the log records as in progress, every recorded XID is below
  \<open>next_xid\<close>, the current XID is active, and the serializable bookkeeping names active transactions only. The calls are
  those of \<open>tm_step\<close>; moving the counter by \<open>set_next_xid\<close> later on, \<open>from_json\<close>, and the replay of log records newer than
  the checkpoint are not among them (replay breaks it: \<open>replayed_xid_given_again\<close> in \<open>Sessions\<close>).\<close>

theorem manager_invariant:
  assumes "log_below n c" "tm_step\<^sup>*\<^sup>* (recovered_tm n c) t"
  shows "tm_inv t"
  using assms by (rule tm_inv_from)

definition recovered_log :: CLog where
  "recovered_log = \<lparr>status_map = [(3, COMMITTED), (4, IN_PROGRESS)], dirty = []\<rparr>"

lemma recovered_log_below: "log_below 5 recovered_log"
  by (simp add: log_below_def recovered_log_def clog_ok_def omap_ok_def oset_ok_def FirstNormalTransactionId_def XIDEmergencyStop_def)

lemma manager_invariant_witness: "tm_inv (snd (assign_xid (start_transaction_command (recovered_tm 5 recovered_log))))"
  by (rule manager_invariant [OF recovered_log_below], rule two_steps, rule tm_step.start, rule tm_step.assign)

text \<open>C28: The outcome of a transaction is final: in a manager started new or recovered from a checkpoint whose log lies below
  its counter, once the log says committed, aborted or sub-committed, no further call of \<open>tm_step\<close> alters that entry.\<close>

theorem outcome_final:
  assumes "log_below n c" "tm_step\<^sup>*\<^sup>* (recovered_tm n c) t" "tm_step\<^sup>*\<^sup>* t t'"
    and "map_of (status_map (clog t)) x = Some s" "s \<noteq> IN_PROGRESS"
  shows "map_of (status_map (clog t')) x = Some s"
  using status_final [OF assms(3) tm_inv_from [OF assms(1,2)] assms(4,5)] .

definition sample_committed :: TM where
  "sample_committed = (case commit_transaction (snd (assign_xid init_tm)) of Inr t \<Rightarrow> t | Inl _ \<Rightarrow> init_tm)"

lemma commit_sample: "commit_transaction (snd (assign_xid init_tm)) = Inr sample_committed"
  unfolding sample_committed_def by code_simp

lemma sample_reachable: "tm_step\<^sup>*\<^sup>* init_tm sample_committed"
  by (rule two_steps, rule tm_step.assign, rule tm_step.commit, rule commit_sample)

lemma outcome_final_witness:
  "map_of (status_map (clog (snd (assign_xid sample_committed)))) 3 = Some COMMITTED"
proof (rule outcome_final [OF log_below_new])
  show "tm_step\<^sup>*\<^sup>* (recovered_tm FirstNormalTransactionId empty_clog) sample_committed"
    unfolding recovered_new by (rule sample_reachable)
  show "tm_step\<^sup>*\<^sup>* sample_committed (snd (assign_xid sample_committed))"
    by (rule r_into_rtranclp, rule tm_step.assign)
  show "map_of (status_map (clog sample_committed)) 3 = Some COMMITTED" by code_simp
qed simp

text \<open>C9: For a row inserted by another transaction under a normal XID (neither one of the reader's own rows nor a frozen one),
  a statement that runs with a snapshot taken in a reachable state of a manager sees the row exactly when its inserter has
  ended without aborting and neither the reader nor a committed transaction has deleted it.\<close>

theorem read_committed:
  assumes "log_below n c" "tm_step\<^sup>*\<^sup>* (recovered_tm n c) t" "row_xid r ''_xmin'' = x"
    and "x \<noteq> InvalidTransactionId" "x \<noteq> FrozenTransactionId" "x \<noteq> me"
  shows "check_tuple_visibility r me (get_snapshot t) cid (clog t) \<longleftrightarrow>
    get_status (clog t) x \<notin> {IN_PROGRESS, ABORTED} \<and>
    (let d = row_xid r ''_xmax'' in d = InvalidTransactionId \<or> (d \<noteq> me \<and> get_status (clog t) d \<noteq> COMMITTED))"
  using fresh_snapshot_visibility [OF tm_inv_from [OF assms(1,2)] assms(3-6)] .

lemma read_committed_witness:
  "check_tuple_visibility [(''_xmax'', VInt 0), (''_xmin'', VInt 3)] 9 (get_snapshot sample_committed) 0 (clog sample_committed)"
proof -
  have "tm_step\<^sup>*\<^sup>* (recovered_tm FirstNormalTransactionId empty_clog) sample_committed"
    unfolding recovered_new by (rule sample_reachable)
  moreover have "row_xid [(''_xmax'', VInt 0), (''_xmin'', VInt 3)] ''_xmin'' = 3" by code_simp
  moreover have "get_status (clog sample_committed) 3 \<notin> {IN_PROGRESS, ABORTED}" by code_simp
  moreover have "row_xid [(''_xmax'', VInt 0), (''_xmin'', VInt 3)] ''_xmax'' = InvalidTransactionId" by code_simp
  ultimately show ?thesis
    using read_committed [OF log_below_new, of sample_committed "[(''_xmax'', VInt 0), (''_xmin'', VInt 3)]" 3 9 0]
    by (simp add: xid_consts)
qed




text \<open>\<open>ROLLBACK TO name\<close> reports exactly the undo records written since the latest
  \<open>SAVEPOINT name\<close>, whatever other savepoints were set in between, and drops that savepoint and
  every later one, leaving the undo records in place.\<close>

theorem rollback_to_exact:
  assumes "cx_savepoints (ctx t') = cx_savepoints (ctx (savepoint name t)) @ later"
    and "\<forall>sp \<in> set later. sp_name sp \<noteq> name"
    and "cx_undo_records (ctx t') = cx_undo_records (ctx t) @ recs"
  shows "\<exists>t''. rollback_to_savepoint name t' = Inr (length recs, t'') \<and>
    cx_savepoints (ctx t'') = cx_savepoints (ctx t) \<and>
    cx_undo_records (ctx t'') = cx_undo_records (ctx t')"
  using rollback_to_counts [OF assms] by (simp add: set_context_def)

definition sample_undo :: UndoRecord where
  "sample_undo = \<lparr>u_op = UndoInsert, u_table_name = ''t'', u_row_id = 1, u_old_row = [], u_new_row = []\<rparr>"

lemma rollback_to_exact_witness:
  "\<exists>t''. rollback_to_savepoint ''a'' (savepoint ''b'' (add_undo_record sample_undo (savepoint ''a'' init_tm))) =
      Inr (1, t'') \<and> cx_savepoints (ctx t'') = [] \<and> cx_undo_records (ctx t'') = [sample_undo]"
  using rollback_to_exact [of "savepoint ''b'' (add_undo_record sample_undo (savepoint ''a'' init_tm))" "''a''" init_tm
      "[\<lparr>sp_name = ''b'', sp_undo_position = 1\<rparr>]" "[sample_undo]"]
  by (simp add: savepoint_def add_undo_record_def set_context_def init_tm_def init_context_def)

text \<open>C31: A repeatable-read snapshot does not stay fixed: a transaction that starts after the
  snapshot was taken and then commits becomes visible through that same snapshot, because
  visibility never compares the inserter with the snapshot's \<open>xmax\<close>.\<close>

theorem repeatable_read_violated:
  assumes "snap_xmax snap \<le> x" "x \<noteq> me" "FirstNormalTransactionId \<le> x"
    and "row_xid r ''_xmin'' = x" "row_xid r ''_xmax'' = InvalidTransactionId"
  shows "\<not> check_tuple_visibility r me snap cid (set_status x IN_PROGRESS c) \<and>
    check_tuple_visibility r me snap cid (set_status x COMMITTED c)"
  using assms
  by (auto simp: visibility_spec insertion_seen_def deletion_seen_def Let_def get_status_set_status xid_consts)

lemma repeatable_read_violated_witness:
  "\<not> check_tuple_visibility [(''_xmin'', VInt 3)] 0 (get_snapshot init_tm) 0 (set_status 3 IN_PROGRESS empty_clog) \<and>
   check_tuple_visibility [(''_xmin'', VInt 3)] 0 (get_snapshot init_tm) 0 (set_status 3 COMMITTED empty_clog)"
proof (rule repeatable_read_violated [of _ 3])
  show "row_xid [(''_xmin'', VInt 3)] ''_xmin'' = 3" by code_simp
qed (simp_all add: get_snapshot_def init_tm_def xid_consts row_xid_def row_int_def)

text \<open>Savepoints leak out of a block that wrote nothing: after such a block commits and the next
  command starts a new transaction, its savepoints are still there.\<close>

theorem savepoint_leak:
  assumes "cx_xid (ctx t) = InvalidTransactionId" "commit_transaction t = Inr t'"
  shows "has_savepoint (start_transaction_command (set_block_state DEFAULT t')) name = has_savepoint t name"
  using read_only_commit_keeps_savepoints [OF assms] by (simp add: has_savepoint_def)

lemma savepoint_leak_witness:
  "has_savepoint (start_transaction_command (set_block_state DEFAULT (savepoint ''a'' init_tm))) ''a''"
proof -
  have "commit_transaction (savepoint ''a'' init_tm) = Inr (savepoint ''a'' init_tm)"
    by (simp add: commit_transaction_def savepoint_def set_context_def init_tm_def init_context_def
        oset_del_def xid_consts)
  from savepoint_leak [OF _ this, of "''a''"] show ?thesis
    by (simp add: savepoint_def set_context_def init_tm_def init_context_def has_savepoint_def)
qed

end
