(* ===== verification/Skip_List.thy ===== *)
theory Skip_List
  imports JM_Prelude
begin

text \<open>
  The skip list of \<open>storage/skiplist.h\<close>, at the level of its nodes and forward pointers.

  A node is an index into \<open>sl_nodes\<close>, the nodes in the order the arena handed them out; index 0
  is the header and \<open>None\<close> is \<open>nullptr\<close>. Nodes are never freed, so unlinked ones stay in the
  list, as in the arena. \<open>nd_next\<close> is the flexible array \<open>next[0..top_level]\<close>. The random level of
  a new node is an argument. Pointer loops run on fuel (the number of nodes) and return \<open>None\<close>
  when it runs out; the refinement theorems show that it never does.

  \<open>repr sl m\<close> relates a list to the ordered map of its entries. The locale \<open>ordered_store\<close> is the
  contract the MemTable relies on; it is interpreted on the operations below.
\<close>

definition kMaxLevel :: nat where
  "kMaxLevel = 20"

record ('k, 'v) node =
  nd_key :: 'k
  nd_value :: 'v
  nd_top :: nat
  nd_next :: "nat option list"

record ('k, 'v) skiplist =
  sl_nodes :: "('k, 'v) node list"
  sl_level :: nat
  sl_size :: nat

definition sl_new :: "'k \<Rightarrow> 'v \<Rightarrow> ('k, 'v) skiplist" where
  "sl_new k0 v0 = \<lparr>sl_nodes = [\<lparr>nd_key = k0, nd_value = v0, nd_top = kMaxLevel,
       nd_next = replicate (kMaxLevel + 1) None\<rparr>], sl_level = 0, sl_size = 0\<rparr>"

definition next_of :: "('k, 'v) skiplist \<Rightarrow> nat \<Rightarrow> nat \<Rightarrow> nat option" where
  "next_of sl n i = nd_next (sl_nodes sl ! n) ! i"

definition key_of :: "('k, 'v) skiplist \<Rightarrow> nat \<Rightarrow> 'k" where
  "key_of sl n = nd_key (sl_nodes sl ! n)"

definition value_of :: "('k, 'v) skiplist \<Rightarrow> nat \<Rightarrow> 'v" where
  "value_of sl n = nd_value (sl_nodes sl ! n)"

definition top_of :: "('k, 'v) skiplist \<Rightarrow> nat \<Rightarrow> nat" where
  "top_of sl n = nd_top (sl_nodes sl ! n)"

definition set_next :: "nat \<Rightarrow> nat \<Rightarrow> nat option \<Rightarrow> ('k, 'v) skiplist \<Rightarrow> ('k, 'v) skiplist" where
  "set_next n i p sl = sl\<lparr>sl_nodes := (sl_nodes sl)[n := (sl_nodes sl ! n)\<lparr>nd_next :=
     (nd_next (sl_nodes sl ! n))[i := p]\<rparr>]\<rparr>"

section \<open>Traversals\<close>

text \<open>\<open>while (next != nullptr && P(next->key)) cur = next;\<close> on level \<open>i\<close>, from node \<open>cur\<close>\<close>

fun walk :: "('k, 'v) skiplist \<Rightarrow> nat \<Rightarrow> ('k \<Rightarrow> bool) \<Rightarrow> nat \<Rightarrow> nat \<Rightarrow> nat option" where
  "walk sl i P 0 cur = None"
| "walk sl i P (Suc fuel) cur = (case next_of sl cur i of
     None \<Rightarrow> Some cur
   | Some n \<Rightarrow> if P (key_of sl n) then walk sl i P fuel n else Some cur)"

text \<open>The search for the predecessors \<open>update[0..i]\<close>, from level \<open>i\<close> downwards.\<close>

fun descend :: "('k::linorder, 'v) skiplist \<Rightarrow> 'k \<Rightarrow> nat \<Rightarrow> nat \<Rightarrow> nat list option" where
  "descend sl key 0 cur = map_option (\<lambda>c. [c]) (walk sl 0 (\<lambda>k. k < key) (length (sl_nodes sl)) cur)"
| "descend sl key (Suc i) cur = (case walk sl (Suc i) (\<lambda>k. k < key) (length (sl_nodes sl)) cur of
     None \<Rightarrow> None
   | Some c \<Rightarrow> map_option (\<lambda>us. us @ [c]) (descend sl key i c))"

section \<open>Writers\<close>

definition install :: "nat list \<Rightarrow> nat \<Rightarrow> nat \<Rightarrow> ('k, 'v) skiplist \<Rightarrow> ('k, 'v) skiplist" where
  "install update new i sl =
     (let expected = next_of sl (update ! i) i
      in set_next (update ! i) i (Some new) (set_next new i expected sl))"

definition insert_node :: "nat list \<Rightarrow> 'k \<Rightarrow> 'v \<Rightarrow> nat \<Rightarrow> ('k, 'v) skiplist \<Rightarrow> ('k, 'v) skiplist" where
  "insert_node update key v new_level sl =
     (let update = update @ replicate (new_level - sl_level sl) 0;
          new = length (sl_nodes sl);
          sl = sl\<lparr>sl_level := max (sl_level sl) new_level,
                  sl_nodes := sl_nodes sl @ [\<lparr>nd_key = key, nd_value = v, nd_top = new_level,
                    nd_next = replicate (new_level + 1) None\<rparr>]\<rparr>;
          sl = fold (install update new) [0..<new_level + 1] sl
      in sl\<lparr>sl_size := sl_size sl + 1\<rparr>)"

definition sl_put :: "'k::linorder \<Rightarrow> 'v \<Rightarrow> nat \<Rightarrow> ('k, 'v) skiplist \<Rightarrow> ('k, 'v) skiplist option" where
  "sl_put key v new_level sl = (case descend sl key (sl_level sl) 0 of
     None \<Rightarrow> None
   | Some update \<Rightarrow>
       (case next_of sl (update ! 0) 0 of
          Some found \<Rightarrow>
            if key_of sl found = key then
              Some (sl\<lparr>sl_nodes := (sl_nodes sl)[found := (sl_nodes sl ! found)\<lparr>nd_value := v\<rparr>]\<rparr>)
            else Some (insert_node update key v new_level sl)
        | None \<Rightarrow> Some (insert_node update key v new_level sl)))"

text \<open>\<open>while (p != nullptr && P(p->key)) p = p->next[i];\<close>, then \<open>p\<close>\<close>

fun skip :: "('k, 'v) skiplist \<Rightarrow> nat \<Rightarrow> ('k \<Rightarrow> bool) \<Rightarrow> nat \<Rightarrow> nat option \<Rightarrow> nat option option" where
  "skip sl i P fuel None = Some None"
| "skip sl i P 0 (Some n) = None"
| "skip sl i P (Suc fuel) (Some n) =
     (if P (key_of sl n) then skip sl i P fuel (next_of sl n i) else Some (Some n))"

text \<open>The same loop on level 0, returning the nodes passed.\<close>

fun collect :: "('k, 'v) skiplist \<Rightarrow> ('k \<Rightarrow> bool) \<Rightarrow> nat \<Rightarrow> nat option \<Rightarrow> nat list option" where
  "collect sl P fuel None = Some []"
| "collect sl P 0 (Some n) = None"
| "collect sl P (Suc fuel) (Some n) =
     (if P (key_of sl n) then map_option (\<lambda>ns. n # ns) (collect sl P fuel (next_of sl n 0)) else Some [])"

definition bypass :: "nat list \<Rightarrow> 'k::linorder \<Rightarrow> nat \<Rightarrow> ('k, 'v) skiplist \<Rightarrow> ('k, 'v) skiplist option" where
  "bypass update hi i sl =
     map_option (\<lambda>nxt. set_next (update ! i) i nxt sl)
       (skip sl i (\<lambda>k. \<not> hi < k) (length (sl_nodes sl)) (next_of sl (update ! i) i))"

definition sl_erase_range :: "'k::linorder \<Rightarrow> 'k \<Rightarrow> ('k, 'v) skiplist \<Rightarrow> (nat \<times> ('k, 'v) skiplist) option" where
  "sl_erase_range lo hi sl = do {
     update \<leftarrow> descend sl lo (sl_level sl) 0;
     erased \<leftarrow> collect sl (\<lambda>k. \<not> hi < k) (length (sl_nodes sl)) (next_of sl (update ! 0) 0);
     sl \<leftarrow> foldl (\<lambda>s i. Option.bind s (bypass update hi i)) (Some sl) [0..<sl_level sl + 1];
     Some (length erased, sl\<lparr>sl_size := sl_size sl - length erased\<rparr>) }"

section \<open>Readers\<close>

definition sl_get_exact :: "'k::linorder \<Rightarrow> ('k, 'v) skiplist \<Rightarrow> 'v option option" where
  "sl_get_exact key sl =
     map_option (\<lambda>p. case p of
         None \<Rightarrow> None
       | Some n \<Rightarrow> if key_of sl n = key then Some (value_of sl n) else None)
     (skip sl 0 (\<lambda>k. k < key) (length (sl_nodes sl)) (next_of sl 0 0))"

definition sl_range :: "'k::linorder \<Rightarrow> 'k \<Rightarrow> ('k, 'v) skiplist \<Rightarrow> 'v list option" where
  "sl_range lo hi sl = do {
     p \<leftarrow> skip sl 0 (\<lambda>k. k < lo) (length (sl_nodes sl)) (next_of sl 0 0);
     ns \<leftarrow> collect sl (\<lambda>k. \<not> hi < k) (length (sl_nodes sl)) p;
     Some (map (value_of sl) ns) }"

definition sl_all :: "('k, 'v) skiplist \<Rightarrow> 'v list option" where
  "sl_all sl = map_option (map (value_of sl)) (collect sl (\<lambda>_. True) (length (sl_nodes sl)) (next_of sl 0 0))"

section \<open>Representation\<close>

text \<open>On level \<open>i\<close>, following the pointers from node \<open>p\<close> visits exactly \<open>ns\<close>.\<close>

fun linked :: "('k, 'v) skiplist \<Rightarrow> nat \<Rightarrow> nat \<Rightarrow> nat list \<Rightarrow> bool" where
  "linked sl i p [] \<longleftrightarrow> next_of sl p i = None"
| "linked sl i p (n # ns) \<longleftrightarrow> next_of sl p i = Some n \<and> linked sl i n ns"

definition tall :: "('k, 'v) skiplist \<Rightarrow> nat \<Rightarrow> nat list \<Rightarrow> nat list" where
  "tall sl i ns = filter (\<lambda>n. i \<le> top_of sl n) ns"

definition node_ok :: "('k, 'v) skiplist \<Rightarrow> nat \<Rightarrow> bool" where
  "node_ok sl n \<longleftrightarrow> n \<noteq> 0 \<and> n < length (sl_nodes sl) \<and> top_of sl n \<le> sl_level sl \<and>
     length (nd_next (sl_nodes sl ! n)) = top_of sl n + 1"

definition rep :: "('k::linorder, 'v) skiplist \<Rightarrow> nat list \<Rightarrow> bool" where
  "rep sl ns \<longleftrightarrow> sl_nodes sl \<noteq> [] \<and> length (nd_next (sl_nodes sl ! 0)) = kMaxLevel + 1 \<and>
     sl_level sl \<le> kMaxLevel \<and> sl_size sl = length ns \<and>
     (\<forall>n \<in> set ns. node_ok sl n) \<and> sorted_wrt (<) (map (key_of sl) ns) \<and>
     (\<forall>i \<le> kMaxLevel. linked sl i 0 (tall sl i ns))"

definition repr :: "('k::linorder, 'v) skiplist \<Rightarrow> ('k, 'v) omap \<Rightarrow> bool" where
  "repr sl m \<longleftrightarrow> (\<exists>ns. rep sl ns \<and> m = map (\<lambda>n. (key_of sl n, value_of sl n)) ns)"

lemma tall_simps [simp]:
  "tall sl i [] = []" "tall sl i (n # ns) = (if i \<le> top_of sl n then n # tall sl i ns else tall sl i ns)"
  "tall sl i (ns @ ms) = tall sl i ns @ tall sl i ms" "tall sl 0 ns = ns"
  by (simp_all add: tall_def)

lemma set_tall: "set (tall sl i ns) \<subseteq> set ns"
  by (auto simp: tall_def)

lemma length_tall: "length (tall sl i ns) \<le> length ns"
  by (simp add: tall_def)

lemma linked_append: "linked sl i p (ns @ ms) \<Longrightarrow> linked sl i (last (p # ns)) ms"
  by (induction ns arbitrary: p) auto

lemma rep_distinct: "rep sl ns \<Longrightarrow> distinct ns"
proof -
  have s: "sorted_wrt (<) (xs :: 'a list) \<Longrightarrow> distinct xs" for xs by (induction xs) auto
  assume "rep sl ns"
  then have "distinct (map (key_of sl) ns)" by (intro s) (simp add: rep_def)
  then show "distinct ns" by (simp add: distinct_map)
qed

text \<open>There is fuel for a whole level.\<close>

lemma rep_length: "rep sl ns \<Longrightarrow> length ns < length (sl_nodes sl)"
proof -
  assume r: "rep sl ns"
  then have "set ns \<subseteq> {1..<length (sl_nodes sl)}" by (force simp: rep_def node_ok_def)
  then have "card (set ns) \<le> length (sl_nodes sl) - 1" using card_mono [of "{1..<length (sl_nodes sl)}" "set ns"] by simp
  moreover have "card (set ns) = length ns" using rep_distinct [OF r] by (rule distinct_card)
  moreover have "sl_nodes sl \<noteq> []" using r by (simp add: rep_def)
  ultimately show ?thesis by (cases "sl_nodes sl") auto
qed

lemma repr_ok: "repr sl m \<Longrightarrow> omap_ok m"
  by (auto simp: repr_def rep_def omap_ok_def comp_def)

lemma repr_new: "repr (sl_new k0 v0) []"
  by (auto simp: repr_def rep_def sl_new_def next_of_def simp del: replicate.simps intro!: exI [of _ "[]"])

section \<open>The loops\<close>

lemma walk_linked:
  assumes "linked sl i p (as @ bs)" "\<forall>n \<in> set as. P (key_of sl n)" "\<forall>n \<in> set bs. \<not> P (key_of sl n)"
    and "length as < fuel"
  shows "walk sl i P fuel p = Some (last (p # as))"
  using assms
proof (induction as arbitrary: p fuel)
  case Nil
  then show ?case by (cases bs; cases fuel) auto
next
  case (Cons a as)
  then show ?case by (cases fuel) auto
qed

lemma skip_linked:
  assumes "linked sl i p (as @ bs)" "\<forall>n \<in> set as. P (key_of sl n)" "\<forall>n \<in> set bs. \<not> P (key_of sl n)"
    and "length as < fuel"
  shows "skip sl i P fuel (next_of sl p i) = Some (case bs of [] \<Rightarrow> None | b # _ \<Rightarrow> Some b)"
  using assms
proof (induction as arbitrary: p fuel)
  case Nil
  then show ?case by (cases bs; cases fuel) auto
next
  case (Cons a as)
  then show ?case by (cases fuel) auto
qed

lemma collect_linked:
  assumes "linked sl 0 p (as @ bs)" "\<forall>n \<in> set as. P (key_of sl n)" "\<forall>n \<in> set bs. \<not> P (key_of sl n)"
    and "length as < fuel"
  shows "collect sl P fuel (next_of sl p 0) = Some as"
  using assms
proof (induction as arbitrary: p fuel)
  case Nil
  then show ?case by (cases bs; cases fuel) auto
next
  case (Cons a as)
  then show ?case by (cases fuel) auto
qed

text \<open>
  A search on level \<open>i\<close> may start at the predecessor found on any level above: the remaining part
  of the chain leads to the predecessor on level \<open>i\<close>.
\<close>

lemma level_down:
  assumes "linked sl i 0 (tall sl i as @ tall sl i bs)" "i \<le> j"
  obtains cs where "linked sl i (last (0 # tall sl j as)) (cs @ tall sl i bs)"
    "last (last (0 # tall sl j as) # cs) = last (0 # tall sl i as)" "set cs \<subseteq> set as" "length cs \<le> length as"
proof (cases "tall sl j as = []")
  case True
  with assms set_tall [of sl i as] length_tall [of sl i as] that [of "tall sl i as"] show ?thesis by auto
next
  case False
  let ?c = "last (tall sl j as)"
  have "?c \<in> set (tall sl j as)" using False by simp
  then have "?c \<in> set as" and j: "j \<le> top_of sl ?c" by (auto simp: tall_def)
  then obtain xs ys where as: "as = xs @ ?c # ys" by (metis split_list)
  have i: "i \<le> top_of sl ?c" using assms(2) j by simp
  have t: "tall sl i as = (tall sl i xs @ [?c]) @ tall sl i ys"
    by (subst as) (use i in simp)
  then have "linked sl i (last (0 # tall sl i xs @ [?c])) (tall sl i ys @ tall sl i bs)"
    using assms(1) linked_append [of sl i 0 "tall sl i xs @ [?c]"] by simp
  moreover have "last (?c # tall sl i ys) = last (0 # tall sl i as)"
    using t by simp
  moreover have "set (tall sl i ys) \<subseteq> set as" using set_tall [of sl i ys] as by (metis UnCI set_append set_subset_Cons subset_iff)
  moreover have "length (tall sl i ys) \<le> length as"
    using length_tall [of sl i ys] arg_cong [OF as, of length] by simp
  ultimately show ?thesis using that [of "tall sl i ys"] False by simp
qed

lemma walk_level:
  assumes "linked sl i 0 (tall sl i as @ tall sl i bs)" "i \<le> l"
    and "\<forall>n \<in> set as. key_of sl n < key" "\<forall>n \<in> set bs. \<not> key_of sl n < key" "length as < fuel"
  shows "walk sl i (\<lambda>k. k < key) fuel (last (0 # tall sl l as)) = Some (last (0 # tall sl i as))"
proof -
  obtain cs where cs: "linked sl i (last (0 # tall sl l as)) (cs @ tall sl i bs)"
    "last (last (0 # tall sl l as) # cs) = last (0 # tall sl i as)" "set cs \<subseteq> set as" "length cs \<le> length as"
    using level_down [OF assms(1,2)] by blast
  have "\<forall>n \<in> set cs. key_of sl n < key" "\<forall>n \<in> set (tall sl i bs). \<not> key_of sl n < key" "length cs < fuel"
    using cs(3,4) assms(3-5) set_tall [of sl i bs] by auto
  from walk_linked [of sl i _ cs _ "\<lambda>k. k < key", OF cs(1) this] cs(2) show ?thesis by simp
qed

lemma descend_linked:
  assumes "\<forall>i \<le> j. linked sl i 0 (tall sl i as @ tall sl i bs)"
    and "\<forall>n \<in> set as. key_of sl n < key" "\<forall>n \<in> set bs. \<not> key_of sl n < key"
    and "length as < length (sl_nodes sl)" "j \<le> l"
  shows "descend sl key j (last (0 # tall sl l as)) = Some (map (\<lambda>i. last (0 # tall sl i as)) [0..<Suc j])"
  using assms
proof (induction j arbitrary: l)
  case 0
  then show ?case using walk_level [of sl 0 as bs l key] by simp
next
  case (Suc j)
  then have "walk sl (Suc j) (\<lambda>k. k < key) (length (sl_nodes sl)) (last (0 # tall sl l as)) =
      Some (last (0 # tall sl (Suc j) as))"
    by (intro walk_level [where bs = bs]) auto
  moreover have "descend sl key j (last (0 # tall sl (Suc j) as)) = Some (map (\<lambda>i. last (0 # tall sl i as)) [0..<Suc j])"
    using Suc by simp
  ultimately show ?case by simp
qed

text \<open>The search finds, on every level, the last node below the key.\<close>

definition below :: "('k::linorder, 'v) skiplist \<Rightarrow> 'k \<Rightarrow> nat list \<Rightarrow> nat list" where
  "below sl key ns = takeWhile (\<lambda>n. key_of sl n < key) ns"

definition above :: "('k::linorder, 'v) skiplist \<Rightarrow> 'k \<Rightarrow> nat list \<Rightarrow> nat list" where
  "above sl key ns = dropWhile (\<lambda>n. key_of sl n < key) ns"

lemma below_above: "ns = below sl key ns @ above sl key ns"
  by (simp add: below_def above_def)

lemma in_below: "n \<in> set (below sl key ns) \<Longrightarrow> key_of sl n < key"
  by (auto simp: below_def dest: set_takeWhileD)

lemma in_above: "sorted_wrt (<) (map (key_of sl) ns) \<Longrightarrow> n \<in> set (above sl key ns) \<Longrightarrow> \<not> key_of sl n < key"
  unfolding above_def by (induction ns) (auto split: if_splits)

lemma rep_split:
  assumes "rep sl ns"
  shows "\<forall>i \<le> kMaxLevel. linked sl i 0 (tall sl i (below sl key ns) @ tall sl i (above sl key ns))"
    "\<forall>n \<in> set (below sl key ns). key_of sl n < key" "\<forall>n \<in> set (above sl key ns). \<not> key_of sl n < key"
    "length (below sl key ns) < length (sl_nodes sl)" "length (above sl key ns) < length (sl_nodes sl)"
proof -
  show "\<forall>i \<le> kMaxLevel. linked sl i 0 (tall sl i (below sl key ns) @ tall sl i (above sl key ns))"
    using assms below_above [of ns sl key] tall_simps(3) unfolding rep_def by metis
  show "\<forall>n \<in> set (above sl key ns). \<not> key_of sl n < key"
    using assms in_above by (auto simp: rep_def)
  show "length (below sl key ns) < length (sl_nodes sl)" "length (above sl key ns) < length (sl_nodes sl)"
    using rep_length [OF assms] arg_cong [OF below_above [of ns sl key], of length] by simp_all
qed (simp add: in_below)

lemma descend_rep:
  assumes "rep sl ns" "j \<le> sl_level sl"
  shows "descend sl key j 0 = Some (map (\<lambda>i. last (0 # tall sl i (below sl key ns))) [0..<Suc j])"
proof -
  have "top_of sl n \<le> sl_level sl" if "n \<in> set (below sl key ns)" for n
    using assms(1) that below_above [of ns sl key] unfolding rep_def node_ok_def by (metis UnCI set_append)
  then have "tall sl (Suc (sl_level sl)) (below sl key ns) = []"
    by (fastforce simp: tall_def filter_empty_conv)
  moreover have "j \<le> kMaxLevel" using assms by (auto simp: rep_def)
  ultimately show ?thesis
    using descend_linked [of j sl "below sl key ns" "above sl key ns" key "Suc (sl_level sl)"]
      rep_split [OF assms(1), of key] assms(2) by simp
qed

section \<open>Readers\<close>

lemma above_head:
  assumes "rep sl ns"
  shows "skip sl 0 (\<lambda>k. k < key) (length (sl_nodes sl)) (next_of sl 0 0) =
    Some (case above sl key ns of [] \<Rightarrow> None | b # _ \<Rightarrow> Some b)"
  using rep_split [OF assms, of key] by (intro skip_linked [where as = "below sl key ns"]) auto

lemma map_of_rep:
  assumes "rep sl ns"
  shows "map_of (map (\<lambda>n. (key_of sl n, value_of sl n)) ns) key =
    (case above sl key ns of [] \<Rightarrow> None | n # _ \<Rightarrow> if key_of sl n = key then Some (value_of sl n) else None)"
proof -
  let ?e = "\<lambda>n. (key_of sl n, value_of sl n)"
  have "map_of (map ?e (below sl key ns)) key = None"
    using in_below [of _ sl key ns] by (force simp: map_of_eq_None_iff)
  then have "map_of (map ?e ns) key = map_of (map ?e (above sl key ns)) key"
    by (subst below_above [of ns sl key]) (simp add: map_add_def del: below_above)
  moreover have "map_of (map ?e (above sl key ns)) key =
    (case above sl key ns of [] \<Rightarrow> None | n # _ \<Rightarrow> if key_of sl n = key then Some (value_of sl n) else None)"
  proof (cases "above sl key ns")
    case (Cons b bs)
    have "sorted_wrt (<) (map (key_of sl) (above sl key ns))"
      using assms below_above [of ns sl key] unfolding rep_def by (metis map_append sorted_wrt_append)
    moreover have "key \<le> key_of sl b" using rep_split(3) [OF assms, of key] Cons by auto
    ultimately have "key_of sl b \<noteq> key \<Longrightarrow> map_of (map ?e bs) key = None"
      using Cons by (force simp: map_of_eq_None_iff)
    with Cons show ?thesis by simp
  qed simp
  ultimately show ?thesis by simp
qed

lemma sl_get_exact_repr: "repr sl m \<Longrightarrow> sl_get_exact key sl = Some (map_of m key)"
  by (auto simp: repr_def sl_get_exact_def above_head map_of_rep split: list.splits)

lemma sl_all_repr: "repr sl m \<Longrightarrow> sl_all sl = Some (map snd m)"
proof -
  assume "repr sl m"
  then obtain ns where r: "rep sl ns" and m: "m = map (\<lambda>n. (key_of sl n, value_of sl n)) ns"
    by (auto simp: repr_def)
  have "collect sl (\<lambda>_. True) (length (sl_nodes sl)) (next_of sl 0 0) = Some ns"
    using r rep_length [OF r] by (intro collect_linked [where bs = "[]"]) (auto simp: rep_def)
  with m show ?thesis by (simp add: sl_all_def comp_def)
qed

lemma sl_size_repr: "repr sl m \<Longrightarrow> sl_size sl = length m"
  by (auto simp: repr_def rep_def)

text \<open>On a sorted list the loops that stop at the first failure select by the key alone.\<close>

lemma sorted_filter_while:
  assumes "sorted_wrt (<) (map f xs)"
  shows "takeWhile (\<lambda>n. \<not> hi < f n) xs = filter (\<lambda>n. \<not> hi < f n) xs"
    "dropWhile (\<lambda>n. \<not> hi < f n) xs = filter (\<lambda>n. hi < f n) xs"
    "takeWhile (\<lambda>n. f n < (lo :: 'k::linorder)) xs = filter (\<lambda>n. f n < lo) xs"
    "dropWhile (\<lambda>n. f n < lo) xs = filter (\<lambda>n. \<not> f n < lo) xs"
  using assms
  by (induction xs) (auto simp: filter_empty_conv
      intro: filter_True [symmetric] filter_False [symmetric] dest: less_trans)

definition hdopt :: "'a list \<Rightarrow> 'a option" where
  "hdopt xs = (case xs of [] \<Rightarrow> None | x # _ \<Rightarrow> Some x)"

lemma linked_hd: "linked sl i p ns \<Longrightarrow> next_of sl p i = hdopt ns"
  by (cases ns) (auto simp: hdopt_def)

definition inside :: "('k::linorder, 'v) skiplist \<Rightarrow> 'k \<Rightarrow> 'k \<Rightarrow> nat list \<Rightarrow> nat list" where
  "inside sl lo hi ns = filter (\<lambda>n. \<not> key_of sl n < lo \<and> \<not> hi < key_of sl n) ns"

definition outside :: "('k::linorder, 'v) skiplist \<Rightarrow> 'k \<Rightarrow> 'k \<Rightarrow> nat list \<Rightarrow> nat list" where
  "outside sl lo hi ns = filter (\<lambda>n. \<not> key_of sl n < lo \<and> hi < key_of sl n) ns"

lemma rep_three:
  assumes "rep sl ns"
  shows "above sl lo ns = inside sl lo hi ns @ outside sl lo hi ns"
    "\<forall>n \<in> set (inside sl lo hi ns). \<not> hi < key_of sl n"
    "\<forall>n \<in> set (outside sl lo hi ns). \<not> \<not> hi < key_of sl n"
    "length (inside sl lo hi ns) < length (sl_nodes sl)"
proof -
  have s: "sorted_wrt (<) (map (key_of sl) ns)" using assms by (simp add: rep_def)
  have a: "above sl lo ns = filter (\<lambda>n. \<not> key_of sl n < lo) ns"
    unfolding above_def by (rule sorted_filter_while(4) [OF s])
  have "sorted_wrt (<) (map (key_of sl) (above sl lo ns))"
    using s below_above [of ns sl lo] by (metis map_append sorted_wrt_append)
  note w = sorted_filter_while(1,2) [OF this, of hi]
  have "inside sl lo hi ns = takeWhile (\<lambda>n. \<not> hi < key_of sl n) (above sl lo ns)"
    "outside sl lo hi ns = dropWhile (\<lambda>n. \<not> hi < key_of sl n) (above sl lo ns)"
    unfolding w by (auto simp: a inside_def outside_def conj_commute)
  then show "above sl lo ns = inside sl lo hi ns @ outside sl lo hi ns" by simp
  show "length (inside sl lo hi ns) < length (sl_nodes sl)"
    using rep_length [OF assms] unfolding inside_def by (rule le_less_trans [OF length_filter_le])
qed (simp_all add: inside_def outside_def)

lemma linked_above:
  assumes "rep sl ns"
  shows "linked sl 0 (last (0 # below sl lo ns)) (above sl lo ns)"
proof -
  have "linked sl 0 0 (below sl lo ns @ above sl lo ns)"
    using rep_split(1) [OF assms, of lo] by (metis le0 tall_simps(4))
  then show ?thesis by (rule linked_append)
qed

lemma collect_inside:
  assumes "rep sl ns"
  shows "collect sl (\<lambda>k. \<not> hi < k) (length (sl_nodes sl)) (next_of sl (last (0 # below sl lo ns)) 0) =
    Some (inside sl lo hi ns)"
  using rep_three [OF assms, of lo hi] linked_above [OF assms, of lo]
  by (intro collect_linked [where bs = "outside sl lo hi ns"]) simp_all

lemma sl_range_repr:
  "repr sl m \<Longrightarrow> sl_range lo hi sl = Some (map snd (filter (\<lambda>(k, _). \<not> k < lo \<and> \<not> hi < k) m))"
proof -
  assume "repr sl m"
  then obtain ns where r: "rep sl ns" and m: "m = map (\<lambda>n. (key_of sl n, value_of sl n)) ns"
    by (auto simp: repr_def)
  have "next_of sl (last (0 # below sl lo ns)) 0 = (case above sl lo ns of [] \<Rightarrow> None | b # _ \<Rightarrow> Some b)"
    using linked_hd [OF linked_above [OF r]] by (simp add: hdopt_def)
  with collect_inside [OF r, of hi lo] above_head [OF r, of lo]
  have "sl_range lo hi sl = Some (map (value_of sl) (inside sl lo hi ns))"
    by (simp add: sl_range_def)
  then show ?thesis by (simp add: m inside_def filter_map comp_def)
qed

section \<open>Writers\<close>

lemma set_next_frame [simp]:
  "length (sl_nodes (set_next n i p sl)) = length (sl_nodes sl)"
  "key_of (set_next n i p sl) = key_of sl" "value_of (set_next n i p sl) = value_of sl"
  "top_of (set_next n i p sl) = top_of sl"
  "length (nd_next (sl_nodes (set_next n i p sl) ! m)) = length (nd_next (sl_nodes sl ! m))"
  "sl_level (set_next n i p sl) = sl_level sl" "sl_size (set_next n i p sl) = sl_size sl"
proof -
  have nth: "sl_nodes (set_next n i p sl) ! m = (if m = n \<and> n < length (sl_nodes sl)
      then (sl_nodes sl ! n)\<lparr>nd_next := (nd_next (sl_nodes sl ! n))[i := p]\<rparr> else sl_nodes sl ! m)" for m
    by (cases "n < length (sl_nodes sl)"; cases "m = n") (simp_all add: set_next_def list_update_beyond)
  show "key_of (set_next n i p sl) = key_of sl" "value_of (set_next n i p sl) = value_of sl"
    "top_of (set_next n i p sl) = top_of sl"
    "length (nd_next (sl_nodes (set_next n i p sl) ! m)) = length (nd_next (sl_nodes sl ! m))"
    by (simp_all add: fun_eq_iff key_of_def value_of_def top_of_def nth)
qed (simp_all add: set_next_def)

lemma next_of_set_next:
  "n < length (sl_nodes sl) \<Longrightarrow> i < length (nd_next (sl_nodes sl ! n)) \<Longrightarrow>
   next_of (set_next n i p sl) m j = (if m = n \<and> j = i then p else next_of sl m j)"
  by (auto simp: set_next_def next_of_def nth_list_update)

text \<open>The parts of a list that relinking leaves alone.\<close>

definition same_nodes :: "('k, 'v) skiplist \<Rightarrow> ('k, 'v) skiplist \<Rightarrow> bool" where
  "same_nodes sl sl' \<longleftrightarrow> length (sl_nodes sl') = length (sl_nodes sl) \<and> key_of sl' = key_of sl \<and>
     value_of sl' = value_of sl \<and> top_of sl' = top_of sl \<and>
     (\<forall>m. length (nd_next (sl_nodes sl' ! m)) = length (nd_next (sl_nodes sl ! m))) \<and>
     sl_level sl' = sl_level sl \<and> sl_size sl' = sl_size sl"

lemma same_nodes_refl [simp]: "same_nodes sl sl"
  by (simp add: same_nodes_def)

lemma same_nodes_set_next [simp]: "same_nodes sl (set_next n i p sl') \<longleftrightarrow> same_nodes sl sl'"
  by (simp add: same_nodes_def)

lemma tall_cong: "top_of sl' = top_of sl \<Longrightarrow> tall sl' i ns = tall sl i ns"
  by (simp add: tall_def)

lemma linked_cong:
  "(\<forall>m \<in> insert p (set ns). next_of sl' m i = next_of sl m i) \<Longrightarrow> linked sl' i p ns = linked sl i p ns"
  by (induction ns arbitrary: p) auto

lemma linked_move:
  assumes "linked sl i q ns" "next_of sl' p i = hdopt ns" "\<forall>m \<in> set ns. next_of sl' m i = next_of sl m i"
  shows "linked sl' i p ns"
proof (cases ns)
  case (Cons n ms)
  then have "linked sl' i n ms = linked sl i n ms" using assms(3) by (intro linked_cong) auto
  with Cons assms show ?thesis by (simp add: hdopt_def)
qed (use assms in \<open>simp add: hdopt_def\<close>)

lemma linked_prefix:
  assumes "linked sl i p (as @ bs)" "distinct (p # as)"
    and "\<forall>m \<in> set (p # as) - {last (p # as)}. next_of sl' m i = next_of sl m i"
    and "linked sl' i (last (p # as)) cs"
  shows "linked sl' i p (as @ cs)"
  using assms
proof (induction as arbitrary: p)
  case (Cons a as)
  then have "p \<noteq> last (a # as)" by (metis distinct.simps(2) last_in_set list.distinct(1))
  with Cons show ?case by auto
qed simp

lemma skip_cong:
  assumes "key_of sl' = key_of sl" "\<forall>m. next_of sl' m i = next_of sl m i"
  shows "skip sl' i P fuel p = skip sl i P fuel p"
  using assms by (induction sl i P fuel p rule: skip.induct) simp_all

text \<open>The predecessor on level \<open>i\<close> owns a pointer of that level.\<close>

definition pred_at :: "('k::linorder, 'v) skiplist \<Rightarrow> 'k \<Rightarrow> nat list \<Rightarrow> nat \<Rightarrow> nat" where
  "pred_at sl key ns i = last (0 # tall sl i (below sl key ns))"

lemma pred_at_cases: "pred_at sl key ns i = 0 \<or>
    (pred_at sl key ns i \<in> set (below sl key ns) \<and> i \<le> top_of sl (pred_at sl key ns i))"
proof -
  have "pred_at sl key ns i \<in> set (0 # tall sl i (below sl key ns))"
    unfolding pred_at_def by (rule last_in_set) simp
  then show ?thesis by (auto simp: tall_def)
qed

lemma set_below: "set (below sl key ns) \<subseteq> set ns"
  using set_takeWhileD unfolding below_def by fastforce

lemma pred_at_slot:
  assumes "rep sl ns" "i \<le> kMaxLevel"
  shows "pred_at sl key ns i < length (sl_nodes sl) \<and> i < length (nd_next (sl_nodes sl ! pred_at sl key ns i))"
proof (cases "pred_at sl key ns i = 0")
  case True
  then show ?thesis using assms by (auto simp: rep_def)
next
  case False
  then have "pred_at sl key ns i \<in> set ns" "i \<le> top_of sl (pred_at sl key ns i)"
    using pred_at_cases [of sl key ns i] set_below [of sl key ns] by auto
  then show ?thesis using assms by (auto simp: rep_def node_ok_def)
qed

subsection \<open>Erasing a range\<close>

text \<open>After the bypass of the levels below \<open>j\<close>, exactly their predecessor slots have changed.\<close>

lemma bypass_fold:
  assumes r: "rep sl ns" and j: "j \<le> sl_level sl + 1"
    and up: "\<forall>i < j. update ! i = pred_at sl lo ns i"
  shows "\<exists>sl'. foldl (\<lambda>s i. Option.bind s (bypass update hi i)) (Some sl) [0..<j] = Some sl' \<and>
    same_nodes sl sl' \<and>
    (\<forall>m i. next_of sl' m i = (if i < j \<and> m = pred_at sl lo ns i
        then hdopt (tall sl i (outside sl lo hi ns)) else next_of sl m i))"
  using j up
proof (induction j)
  case 0
  then show ?case by simp
next
  case (Suc j)
  then obtain sl1 where f: "foldl (\<lambda>s i. Option.bind s (bypass update hi i)) (Some sl) [0..<j] = Some sl1"
    and same: "same_nodes sl sl1"
    and nx: "\<forall>m i. next_of sl1 m i = (if i < j \<and> m = pred_at sl lo ns i
        then hdopt (tall sl i (outside sl lo hi ns)) else next_of sl m i)"
    by auto
  have jk: "j \<le> kMaxLevel" using Suc.prems r by (simp add: rep_def)
  have "linked sl j (pred_at sl lo ns j) (tall sl j (above sl lo ns))"
    using rep_split(1) [OF r, of lo] jk unfolding pred_at_def by (intro linked_append) simp
  then have lk: "linked sl j (pred_at sl lo ns j) (tall sl j (inside sl lo hi ns) @ tall sl j (outside sl lo hi ns))"
    using rep_three(1) [OF r, of lo hi] by simp
  have "skip sl j (\<lambda>k. \<not> hi < k) (length (sl_nodes sl)) (next_of sl (pred_at sl lo ns j) j) =
      Some (case tall sl j (outside sl lo hi ns) of [] \<Rightarrow> None | b # _ \<Rightarrow> Some b)"
    using rep_three(2-4) [OF r, of lo hi] set_tall [of sl j] length_tall [of sl j "inside sl lo hi ns"]
    by (intro skip_linked [OF lk]) auto
  moreover have "skip sl1 j P (length (sl_nodes sl1)) (next_of sl1 (pred_at sl lo ns j) j) =
      skip sl j P (length (sl_nodes sl)) (next_of sl (pred_at sl lo ns j) j)" for P
    using same nx by (subst skip_cong [where sl = sl]) (auto simp: same_nodes_def)
  ultimately have "bypass update hi j sl1 =
      Some (set_next (pred_at sl lo ns j) j (hdopt (tall sl j (outside sl lo hi ns))) sl1)"
    using Suc.prems(2) by (simp add: bypass_def hdopt_def)
  moreover have "next_of (set_next (pred_at sl lo ns j) j p sl1) m i =
      (if m = pred_at sl lo ns j \<and> i = j then p else next_of sl1 m i)" for p m i
    using pred_at_slot [OF r jk, of lo] same by (intro next_of_set_next) (auto simp: same_nodes_def)
  ultimately show ?case using f same nx by (auto simp: less_Suc_eq)
qed

lemma sl_erase_range_rep:
  assumes r: "rep sl ns"
  shows "\<exists>sl'. sl_erase_range lo hi sl = Some (length (inside sl lo hi ns), sl') \<and>
    rep sl' (below sl lo ns @ outside sl lo hi ns) \<and> key_of sl' = key_of sl \<and> value_of sl' = value_of sl"
proof -
  let ?B = "below sl lo ns" and ?I = "inside sl lo hi ns" and ?O = "outside sl lo hi ns"
  define update where "update = map (\<lambda>i. last (0 # tall sl i ?B)) [0..<Suc (sl_level sl)]"
  have desc: "descend sl lo (sl_level sl) 0 = Some update"
    unfolding update_def by (rule descend_rep [OF r order_refl])
  have up: "\<forall>i < Suc (sl_level sl). update ! i = pred_at sl lo ns i"
    unfolding update_def pred_at_def by (simp del: upt_Suc)
  then have up0: "update ! 0 = last (0 # ?B)" by (simp add: pred_at_def)
  obtain sl' where f: "foldl (\<lambda>s i. Option.bind s (bypass update hi i)) (Some sl) [0..<sl_level sl + 1] = Some sl'"
    and same: "same_nodes sl sl'"
    and nx: "\<forall>m i. next_of sl' m i = (if i < sl_level sl + 1 \<and> m = pred_at sl lo ns i
        then hdopt (tall sl i ?O) else next_of sl m i)"
    using bypass_fold [OF r, of "sl_level sl + 1" update lo hi] up by auto
  let ?res = "sl'\<lparr>sl_size := sl_size sl' - length ?I\<rparr>"
  have er: "sl_erase_range lo hi sl = Some (length ?I, ?res)"
    using desc f collect_inside [OF r, of hi lo] up0 by (simp add: sl_erase_range_def del: upt_Suc)
  have sizes: "sl_nodes ?res = sl_nodes sl'" by simp
  have frame: "key_of ?res = key_of sl" "value_of ?res = value_of sl" "top_of ?res = top_of sl"
    "\<And>m i. next_of ?res m i = next_of sl' m i"
    using same by (auto simp: same_nodes_def key_of_def value_of_def top_of_def next_of_def fun_eq_iff)
  have ns: "ns = ?B @ ?I @ ?O" using below_above [of ns sl lo] rep_three(1) [OF r, of lo hi] by simp
  have subs: "set ?B \<subseteq> set ns" "set ?O \<subseteq> set ns" using set_below by (auto simp: outside_def)
  have "distinct (0 # ns)" using rep_distinct [OF r] r by (auto simp: rep_def node_ok_def)
  then have dist: "distinct (0 # ?B @ ?I @ ?O)" using ns by metis
  have "linked ?res i 0 (tall sl i ?B @ tall sl i ?O)" if i: "i \<le> kMaxLevel" for i
  proof (cases "i \<le> sl_level sl")
    case True
    have full: "linked sl i 0 (tall sl i ?B @ tall sl i ?I @ tall sl i ?O)"
      using r i ns by (metis rep_def tall_simps(3))
    have d: "distinct (0 # tall sl i ?B)" "pred_at sl lo ns i \<notin> set (tall sl i ?O)"
      using dist pred_at_cases [of sl lo ns i] by (auto simp: tall_def)
    have "linked sl i (last (pred_at sl lo ns i # tall sl i ?I)) (tall sl i ?O)"
      using full unfolding pred_at_def by (intro linked_append linked_append [of sl i 0])
    then have rest: "linked ?res i (pred_at sl lo ns i) (tall sl i ?O)"
    proof (rule linked_move)
      show "next_of ?res (pred_at sl lo ns i) i = hdopt (tall sl i ?O)"
        using nx True by (simp add: frame)
      show "\<forall>m \<in> set (tall sl i ?O). next_of ?res m i = next_of sl m i"
        using nx d(2) by (auto simp: frame)
    qed
    have keep: "next_of ?res m i = next_of sl m i" if "m \<noteq> pred_at sl lo ns i" for m
      using nx that by (simp add: frame)
    have "\<forall>m \<in> set (0 # tall sl i ?B) - {last (0 # tall sl i ?B)}. next_of ?res m i = next_of sl m i"
      using keep unfolding pred_at_def by blast
    then show ?thesis by (rule linked_prefix [OF full d(1) _ rest [unfolded pred_at_def]])
  next
    case False
    have "\<not> i \<le> top_of sl n" if "n \<in> set ns" for n
      using r False that by (fastforce simp: rep_def node_ok_def)
    then have "tall sl i ?B = []" "tall sl i ?O = []" "tall sl i ns = []"
      using subs by (auto simp: tall_def filter_empty_conv)
    moreover have "linked sl i 0 (tall sl i ns)" using r i by (simp add: rep_def)
    ultimately show ?thesis using nx False by (simp add: frame)
  qed
  moreover have "\<forall>n \<in> set (?B @ ?O). node_ok ?res n"
    using r same subs frame(3) by (auto simp: rep_def node_ok_def same_nodes_def)
  moreover have "sorted_wrt (<) (map (key_of sl) (?B @ ?I @ ?O))"
    using r ns by (metis rep_def)
  then have "sorted_wrt (<) (map (key_of ?res) (?B @ ?O))"
    unfolding frame by (simp add: sorted_wrt_append)
  moreover have "sl_size ?res = length (?B @ ?O)"
    using r same arg_cong [OF ns, of length] by (simp add: rep_def same_nodes_def)
  moreover have "sl_nodes ?res \<noteq> []" "length (nd_next (sl_nodes ?res ! 0)) = kMaxLevel + 1"
    "sl_level ?res \<le> kMaxLevel"
    using r same unfolding rep_def same_nodes_def by (metis length_0_conv sizes, simp_all)
  ultimately have "rep ?res (?B @ ?O)"
    unfolding rep_def tall_cong [OF frame(3)] tall_simps by blast
  with er frame show ?thesis by blast
qed


lemma sl_erase_range_repr:
  assumes "repr sl m"
  shows "\<exists>sl'. sl_erase_range lo hi sl = Some (length (filter (\<lambda>(k, _). \<not> k < lo \<and> \<not> hi < k) m), sl') \<and>
    repr sl' (filter (\<lambda>(k, _). k < lo \<or> hi < k) m)"
proof -
  obtain ns where r: "rep sl ns" and m: "m = map (\<lambda>n. (key_of sl n, value_of sl n)) ns"
    using assms by (auto simp: repr_def)
  obtain sl' where er: "sl_erase_range lo hi sl = Some (length (inside sl lo hi ns), sl')"
    and r': "rep sl' (below sl lo ns @ outside sl lo hi ns)"
    and fr: "key_of sl' = key_of sl" "value_of sl' = value_of sl"
    using sl_erase_range_rep [OF r] by blast
  have "filter (\<lambda>n. key_of sl n < lo \<or> hi < key_of sl n) ns = below sl lo ns @ outside sl lo hi ns"
    using rep_three [OF r, of lo hi] rep_split(2,3) [OF r, of lo]
    by (subst below_above [of ns sl lo]) (auto simp: filter_empty_conv intro!: filter_True)
  with r' fr m have "repr sl' (filter (\<lambda>(k, _). k < lo \<or> hi < k) m)"
    by (auto simp: repr_def filter_map comp_def intro!: exI [of _ "below sl lo ns @ outside sl lo hi ns"])
  moreover have "length (inside sl lo hi ns) = length (filter (\<lambda>(k, _). \<not> k < lo \<and> \<not> hi < k) m)"
    by (simp add: m inside_def filter_map comp_def)
  ultimately show ?thesis using er by simp
qed

subsection \<open>Inserting\<close>

text \<open>After the installation of the levels below \<open>j\<close>, exactly their slots have changed.\<close>

lemma install_fold:
  assumes "new < length (sl_nodes sl)" "j \<le> length (nd_next (sl_nodes sl ! new))"
    and "\<forall>i < j. update ! i < length (sl_nodes sl) \<and> i < length (nd_next (sl_nodes sl ! (update ! i))) \<and> update ! i \<noteq> new"
  shows "same_nodes sl (fold (install update new) [0..<j] sl) \<and>
    (\<forall>m i. next_of (fold (install update new) [0..<j] sl) m i =
      (if i < j \<and> m = update ! i then Some new
       else if i < j \<and> m = new then next_of sl (update ! i) i else next_of sl m i))"
  using assms
proof (induction j)
  case 0
  then show ?case by simp
next
  case (Suc j)
  define sl1 where "sl1 = fold (install update new) [0..<j] sl"
  have same: "same_nodes sl sl1"
    and nx: "\<And>m i. next_of sl1 m i = (if i < j \<and> m = update ! i then Some new
       else if i < j \<and> m = new then next_of sl (update ! i) i else next_of sl m i)"
    using Suc by (auto simp: sl1_def)
  have "next_of (install update new j sl1) m i = (if m = update ! j \<and> i = j then Some new
      else if m = new \<and> i = j then next_of sl1 (update ! j) j else next_of sl1 m i)" for m i
    using Suc.prems same unfolding install_def Let_def
    by (subst next_of_set_next; simp add: next_of_set_next same_nodes_def)+
  moreover have "same_nodes sl (install update new j sl1)"
    using same by (simp add: install_def)
  moreover have "fold (install update new) [0..<Suc j] sl = install update new j sl1"
    by (simp add: sl1_def)
  ultimately show ?case using Suc.prems(3) by (auto simp: nx less_Suc_eq)
qed

lemma next_of_append:
  "m < length (sl_nodes sl) \<Longrightarrow> next_of (sl\<lparr>sl_level := l, sl_nodes := sl_nodes sl @ [nd]\<rparr>) m i = next_of sl m i"
  by (simp add: next_of_def nth_append)

lemma insert_node_rep:
  fixes v :: 'v
  assumes r: "rep sl ns" and lvl: "new_level < kMaxLevel"
    and up: "update = map (\<lambda>i. last (0 # tall sl i (below sl key ns))) [0..<Suc (sl_level sl)]"
    and absent: "key \<notin> key_of sl ` set ns"
  defines "new \<equiv> length (sl_nodes sl)" and "sl' \<equiv> insert_node update key v new_level sl"
  shows "rep sl' (below sl key ns @ new # above sl key ns) \<and>
    key_of sl' new = key \<and> value_of sl' new = v \<and>
    (\<forall>n \<in> set ns. key_of sl' n = key_of sl n \<and> value_of sl' n = value_of sl n)"
proof -
  let ?B = "below sl key ns" and ?A = "above sl key ns"
  define up' where "up' = update @ replicate (new_level - sl_level sl) 0"
  define nd where "nd = \<lparr>nd_key = key, nd_value = v, nd_top = new_level, nd_next = replicate (new_level + 1) None\<rparr>"
  define sl1 where "sl1 = sl\<lparr>sl_level := max (sl_level sl) new_level, sl_nodes := sl_nodes sl @ [nd]\<rparr>"
  define sl2 where "sl2 = fold (install up' new) [0..<new_level + 1] sl1"
  have sl': "sl' = sl2\<lparr>sl_size := sl_size sl2 + 1\<rparr>"
    by (simp add: sl'_def insert_node_def Let_def sl2_def sl1_def up'_def nd_def new_def)
  have ns: "ns = ?B @ ?A" by (rule below_above)
  have ids: "n < new" "n \<noteq> 0" if "n \<in> set ns" for n using r that by (auto simp: rep_def node_ok_def new_def)
  have new0: "0 < new" using r by (simp add: rep_def new_def)
  have flat: "tall sl i ns = []" if "sl_level sl < i" for i
    using r that by (fastforce simp: tall_def filter_empty_conv rep_def node_ok_def)
  have up'_nth: "up' ! i = pred_at sl key ns i" if "i \<le> new_level" for i
  proof (cases "i \<le> sl_level sl")
    case True
    then show ?thesis by (simp add: up'_def up pred_at_def nth_append del: upt_Suc)
  next
    case False
    then have "tall sl i ?B = []" using flat [of i] ns by (metis Nil_is_append_conv not_le tall_simps(3))
    with False that show ?thesis by (simp add: up'_def up pred_at_def nth_append del: upt_Suc)
  qed
  have slot: "pred_at sl key ns i < new \<and> i < length (nd_next (sl_nodes sl ! pred_at sl key ns i))"
    if "i \<le> new_level" for i
    using pred_at_slot [OF r, of i key] that lvl by (simp add: new_def)
  have inst: "same_nodes sl1 sl2 \<and> (\<forall>m i. next_of sl2 m i =
      (if i < new_level + 1 \<and> m = up' ! i then Some new
       else if i < new_level + 1 \<and> m = new then next_of sl1 (up' ! i) i else next_of sl1 m i))"
    unfolding sl2_def
  proof (rule install_fold)
    show "\<forall>i < new_level + 1. up' ! i < length (sl_nodes sl1) \<and>
        i < length (nd_next (sl_nodes sl1 ! (up' ! i))) \<and> up' ! i \<noteq> new"
    proof (intro allI impI)
      fix i assume "i < new_level + 1"
      then have "i \<le> new_level" by simp
      from slot [OF this] up'_nth [OF this]
      show "up' ! i < length (sl_nodes sl1) \<and> i < length (nd_next (sl_nodes sl1 ! (up' ! i))) \<and> up' ! i \<noteq> new"
        by (simp add: sl1_def new_def nth_append)
    qed
  qed (simp_all add: sl1_def new_def nd_def nth_append)
  have nx: "next_of sl' m i = (if i \<le> new_level \<and> m = pred_at sl key ns i then Some new else next_of sl m i)"
    if "m < new" for m i
    using inst that next_of_append [of m sl] up'_nth
    by (auto simp: sl' next_of_def [of "sl2\<lparr>sl_size := _\<rparr>"] next_of_def [of sl2, symmetric] sl1_def new_def less_Suc_eq_le)
  have nxn: "next_of sl' new i = next_of sl (pred_at sl key ns i) i" if "i \<le> new_level" for i
    using inst that slot [OF that] next_of_append [of "pred_at sl key ns i" sl] up'_nth [OF that]
    by (auto simp: sl' next_of_def [of "sl2\<lparr>sl_size := _\<rparr>"] next_of_def [of sl2, symmetric] sl1_def new_def less_Suc_eq_le)
  have old: "key_of sl' n = key_of sl n" "value_of sl' n = value_of sl n" "top_of sl' n = top_of sl n"
    "length (nd_next (sl_nodes sl' ! n)) = length (nd_next (sl_nodes sl ! n))" if "n < new" for n
  proof -
    have "sl_nodes sl1 ! n = sl_nodes sl ! n" using that by (simp add: sl1_def new_def nth_append)
    with inst show "key_of sl' n = key_of sl n" "value_of sl' n = value_of sl n" "top_of sl' n = top_of sl n"
      "length (nd_next (sl_nodes sl' ! n)) = length (nd_next (sl_nodes sl ! n))"
      by (auto simp: sl' same_nodes_def key_of_def value_of_def top_of_def fun_eq_iff)
  qed
  have "sl_nodes sl1 ! new = nd" by (simp add: sl1_def new_def nth_append)
  with inst have new: "key_of sl' new = key" "value_of sl' new = v" "top_of sl' new = new_level"
    "length (nd_next (sl_nodes sl' ! new)) = new_level + 1"
    by (auto simp: sl' same_nodes_def key_of_def value_of_def top_of_def fun_eq_iff nd_def)
  have len: "length (sl_nodes sl') = new + 1" "sl_level sl' = max (sl_level sl) new_level" "sl_size sl' = sl_size sl + 1"
    using inst by (simp_all add: sl' same_nodes_def sl1_def new_def)
  have tl: "tall sl' i ms = tall sl i ms" if "set ms \<subseteq> set ns" for i ms
    using that old(3) ids(1) unfolding tall_def by (intro filter_cong) auto
  have subs: "set ?B \<subseteq> set ns" "set ?A \<subseteq> set ns" by (metis ns set_append Un_upper1, metis ns set_append Un_upper2)
  have dist: "distinct (0 # ?B @ ?A)" using rep_distinct [OF r] ids(2) ns by (metis distinct.simps(2))
  have "linked sl' i 0 (tall sl' i (?B @ new # ?A))" if i: "i \<le> kMaxLevel" for i
  proof -
    have full: "linked sl i 0 (tall sl i ?B @ tall sl i ?A)" using rep_split(1) [OF r] i by blast
    show ?thesis
    proof (cases "i \<le> new_level")
      case False
      then have "linked sl' i 0 (tall sl i ns) = linked sl i 0 (tall sl i ns)"
        using nx new0 ids set_tall [of sl i ns] by (intro linked_cong) auto
      moreover have "tall sl' i (?B @ new # ?A) = tall sl i ?B @ tall sl i ?A"
        using False new(3) subs by (simp add: tl)
      moreover have "tall sl i ns = tall sl i ?B @ tall sl i ?A" by (metis ns tall_simps(3))
      ultimately show ?thesis using full by simp
    next
      case True
      have d: "distinct (0 # tall sl i ?B)" "pred_at sl key ns i \<notin> set (tall sl i ?A)"
        using dist pred_at_cases [of sl key ns i] by (auto simp: tall_def)
      have chain: "linked sl i (pred_at sl key ns i) (tall sl i ?A)"
        using linked_append [OF full] by (simp only: pred_at_def)
      have "linked sl' i new (tall sl i ?A)"
      proof (rule linked_move [OF chain])
        show "next_of sl' new i = hdopt (tall sl i ?A)" using nxn [OF True] linked_hd [OF chain] by simp
        show "\<forall>m \<in> set (tall sl i ?A). next_of sl' m i = next_of sl m i"
          using nx d(2) ids subs set_tall [of sl i ?A] by (auto simp: subset_iff)
      qed
      moreover have "next_of sl' (pred_at sl key ns i) i = Some new"
        using nx slot True by simp
      ultimately have rest: "linked sl' i (last (0 # tall sl i ?B)) (new # tall sl i ?A)"
        by (simp add: pred_at_def)
      have "next_of sl' m i = next_of sl m i" if "m < new" "m \<noteq> pred_at sl key ns i" for m
        using nx that by simp
      then have "\<forall>m \<in> set (0 # tall sl i ?B) - {last (0 # tall sl i ?B)}. next_of sl' m i = next_of sl m i"
        using ids(1) new0 subs set_tall [of sl i ?B] unfolding pred_at_def by (simp only: set_simps) blast
      from linked_prefix [OF full d(1) this rest] show ?thesis
        using True new(3) subs by (simp add: tl)
    qed
  qed
  moreover have "\<forall>n \<in> set (?B @ new # ?A). node_ok sl' n"
  proof -
    have "node_ok sl' n" if "n \<in> set ns" for n
    proof -
      have "node_ok sl n" using r that by (simp add: rep_def)
      then show ?thesis using old(3,4) [OF ids(1) [OF that]] ids(1) [OF that]
        by (simp add: node_ok_def len new_def le_max_iff_disj)
    qed
    moreover have "node_ok sl' new" using new(3,4) new0 by (simp add: node_ok_def len)
    ultimately show ?thesis using subs by auto
  qed
  moreover have "sorted_wrt (<) (map (key_of sl') (?B @ new # ?A))"
  proof -
    have keys: "map (key_of sl') ms = map (key_of sl) ms" if "set ms \<subseteq> set ns" for ms
      using that ids old(1) by (auto simp: subset_iff)
    have "sorted_wrt (<) (map (key_of sl) (?B @ ?A))" using r ns by (metis rep_def)
    moreover have "\<forall>n \<in> set ?B. key_of sl n < key" "\<forall>n \<in> set ?A. key < key_of sl n"
      using rep_split(2,3) [OF r, of key] absent subs by (auto simp: not_less order.strict_iff_order)
    ultimately show ?thesis
      using subs by (auto simp: sorted_wrt_append keys new dest: less_trans)
  qed
  moreover have "sl_size sl' = length (?B @ new # ?A)"
    using r len(3) arg_cong [OF ns, of length] by (simp add: rep_def)
  moreover have "sl_nodes sl' \<noteq> []" using len(1) by auto
  moreover have "length (nd_next (sl_nodes sl' ! 0)) = kMaxLevel + 1" using old(4) [OF new0] r by (simp add: rep_def)
  moreover have "sl_level sl' \<le> kMaxLevel" using r lvl len(2) by (simp add: rep_def)
  ultimately have "rep sl' (?B @ new # ?A)" unfolding rep_def by blast
  then show ?thesis using new old ids by blast
qed

lemma omap_put_split:
  "(\<forall>x \<in> fst ` set as. x < k) \<Longrightarrow> omap_put k v (as @ bs) = as @ omap_put k v bs"
  by (induction as) (auto simp: less_le_not_le)

lemma sl_put_repr:
  assumes "repr sl m" "new_level < kMaxLevel"
  shows "\<exists>sl'. sl_put key v new_level sl = Some sl' \<and> repr sl' (omap_put key v m)"
proof -
  obtain ns where r: "rep sl ns" and m: "m = map (\<lambda>n. (key_of sl n, value_of sl n)) ns"
    using assms by (auto simp: repr_def)
  let ?B = "below sl key ns" and ?A = "above sl key ns"
  let ?e = "\<lambda>n. (key_of sl n, value_of sl n)"
  define update where "update = map (\<lambda>i. last (0 # tall sl i ?B)) [0..<Suc (sl_level sl)]"
  have desc: "descend sl key (sl_level sl) 0 = Some update"
    unfolding update_def by (rule descend_rep [OF r order_refl])
  have "update ! 0 = last (0 # ?B)" unfolding update_def by (simp del: upt_Suc)
  then have hd: "next_of sl (update ! 0) 0 = hdopt ?A"
    using linked_hd [OF linked_above [OF r]] by simp
  have put: "omap_put key v m = map ?e ?B @ omap_put key v (map ?e ?A)"
    unfolding m by (subst below_above [of ns sl key], subst map_append, rule omap_put_split) (auto simp: in_below)
  have sorted: "sorted_wrt (<) (map (key_of sl) ns)" using r by (simp add: rep_def)
  show ?thesis
  proof (cases "\<exists>n ms. ?A = n # ms \<and> key_of sl n = key")
    case True
    then obtain n ms where A: "?A = n # ms" and key: "key_of sl n = key" by blast
    let ?sl = "sl\<lparr>sl_nodes := (sl_nodes sl)[n := (sl_nodes sl ! n)\<lparr>nd_value := v\<rparr>]\<rparr>"
    have ns: "ns = ?B @ n # ms" using below_above [of ns sl key] A by simp
    then have n: "n < length (sl_nodes sl)" using r unfolding rep_def node_ok_def by (metis in_set_conv_decomp)
    have frame: "key_of ?sl = key_of sl" "top_of ?sl = top_of sl" "value_of ?sl = (value_of sl)(n := v)"
      "next_of ?sl = next_of sl" "\<And>m. length (nd_next (sl_nodes ?sl ! m)) = length (nd_next (sl_nodes sl ! m))"
      using n by (auto simp: key_of_def top_of_def value_of_def next_of_def nth_list_update fun_eq_iff)
    have "linked ?sl i p ms = linked sl i p ms" for i p ms by (rule linked_cong) (simp add: frame(4))
    then have "rep ?sl ns"
      using r by (auto simp: rep_def node_ok_def frame(1,2) frame(5) [simplified] tall_cong [OF frame(2)])
    moreover have "omap_put key v m = map (\<lambda>x. (key_of ?sl x, value_of ?sl x)) ns"
    proof -
      have "distinct (?B @ n # ms)" using rep_distinct [OF r] ns by metis
      then have "map (\<lambda>x. (key_of ?sl x, value_of ?sl x)) (?B @ n # ms) = map ?e ?B @ (key, v) # map ?e ms"
        unfolding frame by (auto simp: key)
      with ns put A key show ?thesis by simp
    qed
    ultimately show ?thesis
      using desc hd A key by (auto simp: sl_put_def hdopt_def repr_def)
  next
    case False
    have "key \<notin> key_of sl ` set ns"
    proof
      assume "key \<in> key_of sl ` set ns"
      then obtain n where "n \<in> set ns" "key_of sl n = key" by auto
      then have n: "n \<in> set ?A" using below_above [of ns sl key] in_below [of n sl key ns]
        by (metis UnE less_irrefl set_append)
      then obtain a ms where A: "?A = a # ms" by (cases ?A) auto
      have "sorted_wrt (<) (map (key_of sl) ?A)"
        using sorted below_above [of ns sl key] by (metis map_append sorted_wrt_append)
      then have "a = n \<or> key_of sl a < key_of sl n" using A n by auto
      moreover have "\<not> key_of sl a < key" using A rep_split(3) [OF r, of key] by simp
      ultimately show False using False A \<open>key_of sl n = key\<close> by auto
    qed
    note ins = insert_node_rep [OF r assms(2) update_def this, of v]
    let ?sl = "insert_node update key v new_level sl"
    have "omap_put key v (map ?e ?A) = (key, v) # map ?e ?A"
      using False rep_split(3) [OF r, of key] by (cases ?A) (auto simp: not_less less_le)
    moreover have "map (\<lambda>x. (key_of ?sl x, value_of ?sl x)) ms = map ?e ms" if "set ms \<subseteq> set ns" for ms
      using ins that by auto
    moreover have "set ?B \<subseteq> set ns" "set ?A \<subseteq> set ns"
      by (metis below_above set_append Un_upper1, metis below_above set_append Un_upper2)
    ultimately have "repr ?sl (omap_put key v m)"
      unfolding repr_def using ins put by (intro exI [of _ "?B @ length (sl_nodes sl) # ?A"]) simp
    moreover have "sl_put key v new_level sl = Some ?sl"
      using desc hd False by (auto simp: sl_put_def hdopt_def split: list.splits)
    ultimately show ?thesis by simp
  qed
qed

section \<open>The contract of the store\<close>

text \<open>
  What the MemTable needs: under the representation relation every operation returns, the writers
  are those of an ordered map, and the readers see it.
\<close>

locale ordered_store =
  fixes rel :: "'s \<Rightarrow> ('k::linorder, 'v) omap \<Rightarrow> bool"
    and put :: "'k \<Rightarrow> 'v \<Rightarrow> nat \<Rightarrow> 's \<Rightarrow> 's option"
    and erase :: "'k \<Rightarrow> 'k \<Rightarrow> 's \<Rightarrow> (nat \<times> 's) option"
    and look :: "'k \<Rightarrow> 's \<Rightarrow> 'v option option"
    and span :: "'k \<Rightarrow> 'k \<Rightarrow> 's \<Rightarrow> 'v list option"
    and everything :: "'s \<Rightarrow> 'v list option"
    and lvl_ok :: "nat \<Rightarrow> bool"
  assumes rel_ok: "rel s m \<Longrightarrow> omap_ok m"
    and put_rel: "rel s m \<Longrightarrow> lvl_ok l \<Longrightarrow> \<exists>s'. put k v l s = Some s' \<and> rel s' (omap_put k v m)"
    and erase_rel: "rel s m \<Longrightarrow>
      \<exists>s'. erase lo hi s = Some (length (filter (\<lambda>(k, _). \<not> k < lo \<and> \<not> hi < k) m), s') \<and>
        rel s' (filter (\<lambda>(k, _). k < lo \<or> hi < k) m)"
    and look_rel: "rel s m \<Longrightarrow> look k s = Some (map_of m k)"
    and span_rel: "rel s m \<Longrightarrow> span lo hi s = Some (map snd (filter (\<lambda>(k, _). \<not> k < lo \<and> \<not> hi < k) m))"
    and everything_rel: "rel s m \<Longrightarrow> everything s = Some (map snd m)"
begin

lemma look_put: "rel s m \<Longrightarrow> lvl_ok l \<Longrightarrow> \<exists>s'. put k v l s = Some s' \<and> look k s' = Some (Some v)"
  using put_rel [of s m l k v] look_rel by fastforce

lemma look_put_other:
  "rel s m \<Longrightarrow> lvl_ok l \<Longrightarrow> k \<noteq> k' \<Longrightarrow> \<exists>s'. put k v l s = Some s' \<and> look k' s' = look k' s"
  using put_rel [of s m l k v] look_rel by fastforce

lemma span_erase: "rel s m \<Longrightarrow> erase lo hi s = Some (n, s') \<Longrightarrow> span lo hi s' = Some []"
  using erase_rel [of s m lo hi] by (auto simp: span_rel filter_empty_conv)

text \<open>A sequence of writes, with any levels, ends in the map that the same writes build.\<close>

fun put_all :: "('k \<times> 'v \<times> nat) list \<Rightarrow> 's \<Rightarrow> 's option" where
  "put_all [] s = Some s"
| "put_all ((k, v, l) # ws) s = (case put k v l s of None \<Rightarrow> None | Some s' \<Rightarrow> put_all ws s')"

lemma put_all_rel:
  "rel s m \<Longrightarrow> \<forall>(k, v, l) \<in> set ws. lvl_ok l \<Longrightarrow>
   \<exists>s'. put_all ws s = Some s' \<and> rel s' (fold (\<lambda>(k, v, _). omap_put k v) ws m)"
proof (induction ws arbitrary: s m)
  case (Cons w ws)
  obtain k v l where w: "w = (k, v, l)" by (cases w)
  with Cons.prems put_rel [of s m l k v] obtain s' where "put k v l s = Some s'" "rel s' (omap_put k v m)"
    by auto
  with Cons w show ?case by simp
qed simp

end

interpretation sl: ordered_store repr sl_put sl_erase_range sl_get_exact sl_range sl_all
    "\<lambda>l. l < kMaxLevel"
  by unfold_locales
    (simp_all add: repr_ok sl_put_repr sl_erase_range_repr sl_get_exact_repr sl_range_repr sl_all_repr)

section \<open>Whole histories\<close>

text \<open>A history of writes, on the pointers and on the reference map.\<close>

datatype ('k, 'v) sl_op = Put 'k 'v nat | EraseRange 'k 'k

fun run_sl :: "('k::linorder, 'v) sl_op list \<Rightarrow> ('k, 'v) skiplist \<Rightarrow> ('k, 'v) skiplist option" where
  "run_sl [] sl = Some sl"
| "run_sl (Put k v l # ops) sl = Option.bind (sl_put k v l sl) (run_sl ops)"
| "run_sl (EraseRange lo hi # ops) sl = Option.bind (sl_erase_range lo hi sl) (\<lambda>(_, sl). run_sl ops sl)"

fun run_map :: "('k::linorder, 'v) sl_op list \<Rightarrow> ('k, 'v) omap \<Rightarrow> ('k, 'v) omap" where
  "run_map [] m = m"
| "run_map (Put k v l # ops) m = run_map ops (omap_put k v m)"
| "run_map (EraseRange lo hi # ops) m = run_map ops (filter (\<lambda>(k, _). k < lo \<or> hi < k) m)"

fun op_ok :: "('k, 'v) sl_op \<Rightarrow> bool" where
  "op_ok (Put k v l) \<longleftrightarrow> l < kMaxLevel"
| "op_ok (EraseRange lo hi) \<longleftrightarrow> True"

lemma run_sl_repr:
  "repr sl m \<Longrightarrow> list_all op_ok ops \<Longrightarrow> \<exists>sl'. run_sl ops sl = Some sl' \<and> repr sl' (run_map ops m)"
proof (induction ops arbitrary: sl m)
  case (Cons op ops)
  show ?case
  proof (cases op)
    case (Put k v l)
    with Cons.prems sl.put_rel [of sl m l k v] obtain sl1
      where "sl_put k v l sl = Some sl1" "repr sl1 (omap_put k v m)" by auto
    with Put Cons show ?thesis by simp
  next
    case (EraseRange lo hi)
    with Cons.prems sl.erase_rel [of sl m lo hi] obtain n sl1
      where "sl_erase_range lo hi sl = Some (n, sl1)" "repr sl1 (filter (\<lambda>(k, _). k < lo \<or> hi < k) m)"
      by auto
    with EraseRange Cons show ?thesis by simp
  qed
qed simp

text \<open>C5: For every history of insertions (with any random levels below \<open>kMaxLevel\<close>) and range
  deletions starting from a fresh list, every pointer walk of the skip list terminates, and
  afterwards \<open>get_exact\<close>, \<open>range\<close>, \<open>all\<close> and \<open>size\<close> return what the ordered map built by the same
  history holds.\<close>

theorem skiplist_history:
  assumes "list_all op_ok ops"
  shows "\<exists>sl. run_sl ops (sl_new k0 v0) = Some sl \<and>
    (\<forall>k. sl_get_exact k sl = Some (map_of (run_map ops []) k)) \<and>
    (\<forall>lo hi. sl_range lo hi sl = Some (map snd (filter (\<lambda>(k, _). \<not> k < lo \<and> \<not> hi < k) (run_map ops [])))) \<and>
    sl_all sl = Some (map snd (run_map ops [])) \<and> sl_size sl = length (run_map ops [])"
  using run_sl_repr [OF repr_new assms, of k0 v0]
  by (auto simp: sl.look_rel sl.span_rel sl.everything_rel sl_size_repr)

lemma skiplist_history_witness:
  "\<exists>sl. run_sl [Put (3::nat) CHR ''c'' 1, Put 1 CHR ''a'' 0, Put 2 CHR ''b'' 3, EraseRange 2 2] (sl_new 0 CHR ''x'') = Some sl \<and>
     sl_all sl = Some [CHR ''a'', CHR ''c'']"
  using skiplist_history [of "[Put (3::nat) CHR ''c'' 1, Put 1 CHR ''a'' 0, Put 2 CHR ''b'' 3, EraseRange 2 2]" 0 "CHR ''x''"]
  by (auto simp: kMaxLevel_def)

end
