(* ===== verification/Mem_Table.thy ===== *)
theory Mem_Table
  imports Tuple Transaction Skip_List
begin

text \<open>
  \<open>storage/memtable.h\<close> and \<open>storage/memtable.cpp\<close>: one table's versions, keyed by
  \<open>(user key, sequence number)\<close> with the newest version of a row first.

  The skip list appears here as the ordered map of its entries, which \<open>Skip_List\<close> shows the
  pointer structure to implement (\<open>repr\<close>, locale \<open>ordered_store\<close>); \<open>mt_put_store\<close> and its
  companions transfer the operations of this theory to it. The locale \<open>version_store\<close> is the
  contract the engine is proved against.
\<close>

record MemTable =
  mt_name :: string
  mt_entries :: "(InternalKey, Tuple) omap"
  mt_max_row_id :: u64

definition mt_new :: "string \<Rightarrow> MemTable" where
  "mt_new qualified_name = \<lparr>mt_name = qualified_name, mt_entries = [], mt_max_row_id = 0\<rparr>"

definition mt_size :: "MemTable \<Rightarrow> nat" where
  "mt_size mt = length (mt_entries mt)"

definition mt_put :: "u64 \<Rightarrow> Tuple \<Rightarrow> u64 \<Rightarrow> MemTable \<Rightarrow> MemTable" where
  "mt_put row_id t seq mt =
     (let k = IKey (make_user_key (mt_name mt) row_id) seq;
          copy = t\<lparr>hdr := (hdr t)\<lparr>h_payload_len := of_nat (length (payload t))\<rparr>\<rparr>
      in mt\<lparr>mt_entries := omap_put k copy (mt_entries mt),
            mt_max_row_id := (if mt_max_row_id mt <s row_id then row_id else mt_max_row_id mt)\<rparr>)"

text \<open>The members of the local \<open>Tuple t\<close> that are never assigned are those of \<open>t0\<close>.\<close>

definition mt_tombstone :: "TupleHeader \<Rightarrow> u64 \<Rightarrow> TransactionId \<Rightarrow> u64 \<Rightarrow> MemTable \<Rightarrow> MemTable" where
  "mt_tombstone t0 row_id xmax seq mt =
     mt_put row_id \<lparr>hdr = t0\<lparr>h_row_id := row_id, h_xmin := 0, h_xmax := xmax, h_cid := 0, h_flags := 1\<rparr>,
       payload = []\<rparr> seq mt"

definition in_range :: "'k::linorder \<Rightarrow> 'k \<Rightarrow> 'k \<Rightarrow> bool" where
  "in_range lo hi k \<longleftrightarrow> \<not> k < lo \<and> \<not> hi < k"

definition key_lo :: "MemTable \<Rightarrow> u64 \<Rightarrow> InternalKey" where
  "key_lo mt row_id = IKey (make_user_key (mt_name mt) row_id) (- 1)"

definition key_hi :: "MemTable \<Rightarrow> u64 \<Rightarrow> InternalKey" where
  "key_hi mt row_id = IKey (make_user_key (mt_name mt) row_id) 0"

definition get_versions :: "MemTable \<Rightarrow> u64 \<Rightarrow> Tuple list" where
  "get_versions mt row_id =
     map snd (filter (\<lambda>(k, _). in_range (key_lo mt row_id) (key_hi mt row_id) k) (mt_entries mt))"

definition get_latest :: "MemTable \<Rightarrow> u64 \<Rightarrow> Tuple option" where
  "get_latest mt row_id = (let versions = get_versions mt row_id in
     if versions = [] then None else Some (hd versions))"

definition scan_all :: "MemTable \<Rightarrow> Tuple list" where
  "scan_all mt = map snd (mt_entries mt)"

definition mt_vacuum :: "CLog \<Rightarrow> TransactionId \<Rightarrow> MemTable \<Rightarrow> nat" where
  "mt_vacuum c oldest_active_xid mt =
     fold (\<lambda>t can_purge.
       if h_xmax (hdr t) = 0 then can_purge
       else if get_status c (h_xmax (hdr t)) \<noteq> COMMITTED then can_purge
       else if oldest_active_xid \<le> h_xmax (hdr t) then can_purge
       else can_purge + 1) (scan_all mt) 0"

definition erase_all_for :: "u64 \<Rightarrow> MemTable \<Rightarrow> nat \<times> MemTable" where
  "erase_all_for row_id mt =
     (length (filter (\<lambda>(k, _). in_range (key_lo mt row_id) (key_hi mt row_id) k) (mt_entries mt)),
      mt\<lparr>mt_entries := filter (\<lambda>(k, _). \<not> in_range (key_lo mt row_id) (key_hi mt row_id) k) (mt_entries mt)\<rparr>)"

section \<open>The skip list underneath\<close>

lemma mt_put_store:
  "repr sl (mt_entries mt) \<Longrightarrow> lvl < kMaxLevel \<Longrightarrow>
   \<exists>sl'. sl_put (IKey (make_user_key (mt_name mt) row_id) seq)
          (t\<lparr>hdr := (hdr t)\<lparr>h_payload_len := of_nat (length (payload t))\<rparr>\<rparr>) lvl sl = Some sl' \<and>
        repr sl' (mt_entries (mt_put row_id t seq mt))"
  by (simp add: mt_put_def Let_def sl.put_rel)

lemma get_versions_store:
  "repr sl (mt_entries mt) \<Longrightarrow> sl_range (key_lo mt r) (key_hi mt r) sl = Some (get_versions mt r)"
  by (simp add: sl.span_rel get_versions_def in_range_def)

lemma scan_all_store: "repr sl (mt_entries mt) \<Longrightarrow> sl_all sl = Some (scan_all mt)"
  by (simp add: sl.everything_rel scan_all_def)

lemma erase_all_for_store:
  "repr sl (mt_entries mt) \<Longrightarrow>
   \<exists>sl'. sl_erase_range (key_lo mt r) (key_hi mt r) sl = Some (fst (erase_all_for r mt), sl') \<and>
        repr sl' (mt_entries (snd (erase_all_for r mt)))"
proof -
  have "(\<lambda>(k, _ :: Tuple). k < lo \<or> hi < k) = (\<lambda>(k, _). \<not> in_range lo hi k)" for lo hi :: InternalKey
    by (auto simp: in_range_def fun_eq_iff)
  then show "repr sl (mt_entries mt) \<Longrightarrow> ?thesis"
    using sl.erase_rel [of sl "mt_entries mt" "key_lo mt r" "key_hi mt r"]
    by (simp only: erase_all_for_def in_range_def fst_conv snd_conv MemTable.select_convs MemTable.update_convs simp_thms) simp
qed

section \<open>Versions of a row\<close>

lemma in_range_row:
  "in_range (key_lo mt r) (key_hi mt r) k \<longleftrightarrow> user_key k = make_user_key (mt_name mt) r"
  by (cases k) (auto simp: in_range_def key_lo_def key_hi_def less_InternalKey_def ikey_less_def
      split: if_splits)

lemma get_versions_eq:
  "get_versions mt r = map snd (filter (\<lambda>(k, _). user_key k = make_user_key (mt_name mt) r) (mt_entries mt))"
  by (simp add: get_versions_def in_range_row)

lemma erase_all_for_eq:
  "erase_all_for r mt = (length (get_versions mt r),
     mt\<lparr>mt_entries := filter (\<lambda>(k, _). user_key k \<noteq> make_user_key (mt_name mt) r) (mt_entries mt)\<rparr>)"
  by (simp add: erase_all_for_def in_range_row get_versions_eq)

text \<open>
  The well-formed tables: the store is ordered, every key is the key of the row id in the header,
  and no version is newer than \<open>seq\<close>.
\<close>

definition mt_ok :: "u64 \<Rightarrow> MemTable \<Rightarrow> bool" where
  "mt_ok seq mt \<longleftrightarrow> omap_ok (mt_entries mt) \<and>
     (\<forall>(k, t) \<in> set (mt_entries mt). user_key k = make_user_key (mt_name mt) (h_row_id (hdr t)) \<and>
        ik_seq k \<le> seq)"

lemma mt_ok_mono: "mt_ok s mt \<Longrightarrow> s \<le> s' \<Longrightarrow> mt_ok s' mt"
  by (fastforce simp: mt_ok_def)

lemma mt_new_simps [simp]: "mt_ok s (mt_new n)" "mt_name (mt_new n) = n" "mt_entries (mt_new n) = []"
  "get_versions (mt_new n) r = []" "scan_all (mt_new n) = []"
  by (simp_all add: mt_ok_def mt_new_def get_versions_def scan_all_def)

definition stored :: "Tuple \<Rightarrow> Tuple" where
  "stored t = t\<lparr>hdr := (hdr t)\<lparr>h_payload_len := of_nat (length (payload t))\<rparr>\<rparr>"

lemma mt_put_eq: "mt_put r t s mt = mt\<lparr>
    mt_entries := omap_put (IKey (make_user_key (mt_name mt) r) s) (stored t) (mt_entries mt),
    mt_max_row_id := (if mt_max_row_id mt <s r then r else mt_max_row_id mt)\<rparr>"
  by (simp add: mt_put_def stored_def Let_def)

lemma mt_name_put [simp]: "mt_name (mt_put r t s mt) = mt_name mt"
  by (simp add: mt_put_eq)

lemma mt_name_erase [simp]: "mt_name (snd (erase_all_for r mt)) = mt_name mt"
  by (simp add: erase_all_for_eq)

lemma set_omap_put: "set (omap_put k v m) \<subseteq> insert (k, v) (set m)"
  by (induction k v m rule: omap_put.induct) auto

lemma mt_ok_put: "mt_ok s0 mt \<Longrightarrow> s0 \<le> s \<Longrightarrow> h_row_id (hdr t) = r \<Longrightarrow> mt_ok s (mt_put r t s mt)"
  using set_omap_put [of "IKey (make_user_key (mt_name mt) r) s" "stored t" "mt_entries mt"]
  by (fastforce simp: mt_ok_def mt_put_eq stored_def)

lemma mt_ok_erase: "mt_ok s mt \<Longrightarrow> mt_ok s (snd (erase_all_for r mt))"
  by (auto simp: mt_ok_def erase_all_for_eq omap_ok_filter)

lemma filter_omap_put:
  "filter (\<lambda>(x, _). P x) (omap_put k v m) = (if P k then omap_put k v (filter (\<lambda>(x, _). P x) m) else filter (\<lambda>(x, _). P x) m)"
  if "omap_ok m" for m :: "('k::linorder, 'v) omap"
proof -
  have below: "omap_put k v (filter Q n) = (k, v) # filter Q n" if "\<forall>x \<in> fst ` set n. k < x"
    for k :: 'k and v :: 'v and Q and n :: "('k, 'v) omap"
  proof (cases "filter Q n")
    case (Cons p ps)
    then have "p \<in> set (filter Q n)" by simp
    then have "p \<in> set n" by simp
    with that Cons show ?thesis by (cases p) auto
  qed simp
  from that show ?thesis
  proof (induction k v m rule: omap_put.induct)
    case (2 k v a b m)
    note IH = 2
    consider "k < a" | "k = a" | "a < k" by (metis linorder_cases)
    then show ?case
    proof cases
      case 1
      then have "\<forall>x \<in> fst ` set m. k < x" using IH by (fastforce simp: omap_ok_Cons)
      from below [OF this, of v "\<lambda>(x, _). P x"] 1 show ?thesis by simp
    next
      case 2
      then have "\<forall>x \<in> fst ` set m. k < x" using IH by (auto simp: omap_ok_Cons)
      from below [OF this] 2 show ?thesis by simp
    next
      case 3
      then show ?thesis using IH by (auto simp: omap_ok_Cons)
    qed
  qed simp
qed

text \<open>A newer version comes first; the versions of other rows are untouched.\<close>

lemma get_versions_put:
  assumes "mt_ok s0 mt" "s0 < s"
  shows "get_versions (mt_put r t s mt) r' = (if r' = r then stored t # get_versions mt r else get_versions mt r')"
proof -
  let ?k = "IKey (make_user_key (mt_name mt) r) s"
  have ok: "omap_ok (mt_entries mt)" using assms(1) by (simp add: mt_ok_def)
  have "omap_put ?k (stored t) (filter (\<lambda>(k, _). user_key k = make_user_key (mt_name mt) r) (mt_entries mt)) =
      (?k, stored t) # filter (\<lambda>(k, _). user_key k = make_user_key (mt_name mt) r) (mt_entries mt)"
  proof (cases "filter (\<lambda>(k, _). user_key k = make_user_key (mt_name mt) r) (mt_entries mt)")
    case (Cons p ps)
    then have "p \<in> set (filter (\<lambda>(k, _). user_key k = make_user_key (mt_name mt) r) (mt_entries mt))" by simp
    then have "user_key (fst p) = make_user_key (mt_name mt) r" "ik_seq (fst p) < s"
      using assms by (auto simp: mt_ok_def)
    then have "?k < fst p" by (simp add: less_InternalKey_def ikey_less_def)
    with Cons show ?thesis by (cases p) simp
  qed simp
  then show ?thesis
    using filter_omap_put [OF ok, of "\<lambda>k. user_key k = make_user_key (mt_name mt) r'"]
    by (auto simp: get_versions_eq mt_put_eq dest: make_user_key_inj)
qed

lemma get_versions_erase:
  "get_versions (snd (erase_all_for r mt)) r' = (if r' = r then [] else get_versions mt r')"
  by (auto simp: get_versions_eq erase_all_for_eq filter_empty_conv intro!: arg_cong [where f = "map snd"] filter_cong
      dest: make_user_key_inj)

lemma set_scan_all: "mt_ok s mt \<Longrightarrow> t \<in> set (scan_all mt) \<longleftrightarrow> t \<in> set (get_versions mt (h_row_id (hdr t)))"
  by (force simp: mt_ok_def scan_all_def get_versions_eq)

section \<open>The contract of a version store\<close>

locale version_store =
  fixes ok :: "u64 \<Rightarrow> 'm \<Rightarrow> bool" and versions :: "'m \<Rightarrow> u64 \<Rightarrow> Tuple list"
    and wr :: "u64 \<Rightarrow> Tuple \<Rightarrow> u64 \<Rightarrow> 'm \<Rightarrow> 'm" and erase :: "u64 \<Rightarrow> 'm \<Rightarrow> 'm"
    and scan :: "'m \<Rightarrow> Tuple list"
  assumes ok_write: "ok s0 m \<Longrightarrow> s0 \<le> s \<Longrightarrow> h_row_id (hdr t) = r \<Longrightarrow> ok s (wr r t s m)"
    and ok_erase: "ok s m \<Longrightarrow> ok s (erase r m)"
    and versions_write: "ok s0 m \<Longrightarrow> s0 < s \<Longrightarrow>
      versions (wr r t s m) r' = (if r' = r then stored t # versions m r else versions m r')"
    and versions_erase: "versions (erase r m) r' = (if r' = r then [] else versions m r')"
    and scan_versions: "ok s m \<Longrightarrow> t \<in> set (scan m) \<longleftrightarrow> t \<in> set (versions m (h_row_id (hdr t)))"
begin

text \<open>Erase and write, as the engine updates a row in place: one version is left, the new one.\<close>

lemma replace_versions:
  "ok s0 m \<Longrightarrow> s0 < s \<Longrightarrow> versions (wr r t s (erase r m)) r' = (if r' = r then [stored t] else versions m r')"
  using ok_erase [of s0 m r] by (simp add: versions_write versions_erase)

lemma latest_write: "ok s0 m \<Longrightarrow> s0 < s \<Longrightarrow> hd (versions (wr r t s m) r) = stored t"
  by (simp add: versions_write)

lemma scan_replace:
  assumes "ok s0 m" "s0 < s" "h_row_id (hdr t) = r"
  shows "set (scan (wr r t s (erase r m))) = insert (stored t) {u \<in> set (scan m). h_row_id (hdr u) \<noteq> r}"
proof -
  have "ok s (wr r t s (erase r m))"
    using assms ok_write ok_erase by (metis less_imp_le)
  then show ?thesis
    using assms replace_versions [OF assms(1,2), of r t]
    by (auto simp: scan_versions stored_def split: if_splits)
qed

lemma scan_erase:
  "ok s m \<Longrightarrow> set (scan (erase r m)) = {u \<in> set (scan m). h_row_id (hdr u) \<noteq> r}"
  using ok_erase [of s m r] by (auto simp: scan_versions versions_erase split: if_splits)

end

interpretation mt: version_store mt_ok get_versions mt_put "\<lambda>r m. snd (erase_all_for r m)" scan_all
  by unfold_locales
    (simp_all add: mt_ok_put mt_ok_erase get_versions_put get_versions_erase set_scan_all)

text \<open>The number \<open>vacuum\<close> reports.\<close>

lemma mt_vacuum_count:
  "mt_vacuum c oldest mt = length (filter (\<lambda>t. h_xmax (hdr t) \<noteq> 0 \<and>
     get_status c (h_xmax (hdr t)) = COMMITTED \<and> h_xmax (hdr t) < oldest) (scan_all mt))"
proof -
  have "fold (\<lambda>t n. if h_xmax (hdr t) = 0 then n else if get_status c (h_xmax (hdr t)) \<noteq> COMMITTED then n
       else if oldest \<le> h_xmax (hdr t) then n else n + 1) ts (n :: nat) =
     n + length (filter (\<lambda>t. h_xmax (hdr t) \<noteq> 0 \<and> get_status c (h_xmax (hdr t)) = COMMITTED \<and> h_xmax (hdr t) < oldest) ts)"
    for ts :: "Tuple list" and n
    by (induction ts arbitrary: n) (auto simp: not_le)
  then show ?thesis by (simp add: mt_vacuum_def)
qed

section \<open>Properties\<close>

text \<open>Writing a version with a newer sequence number, on the skip list that holds a table,
  makes the range read of its row return the new version followed by the older ones, and leaves
  the versions of every other row as they were.\<close>

theorem version_order:
  assumes "repr sl (mt_entries mt)" "mt_ok s0 mt" "s0 < s" "lvl < kMaxLevel"
  shows "\<exists>sl'. sl_put (IKey (make_user_key (mt_name mt) r) s) (stored t) lvl sl = Some sl' \<and>
    (\<forall>r'. sl_range (key_lo mt r') (key_hi mt r') sl' =
       Some (if r' = r then stored t # get_versions mt r else get_versions mt r'))"
proof -
  obtain sl' where put: "sl_put (IKey (make_user_key (mt_name mt) r) s) (stored t) lvl sl = Some sl'"
    and rel: "repr sl' (mt_entries (mt_put r t s mt))"
    using mt_put_store [OF assms(1,4)] unfolding stored_def by blast
  have "sl_range (key_lo mt r') (key_hi mt r') sl' = Some (get_versions (mt_put r t s mt) r')" for r'
    using get_versions_store [OF rel, of r'] by (simp add: key_lo_def key_hi_def)
  with put show ?thesis by (simp add: mt.versions_write [OF assms(2,3)])
qed

definition sample_tuple :: "u64 \<Rightarrow> Tuple" where
  "sample_tuple r = \<lparr>hdr = \<lparr>h_row_id = r, h_xmin = 3, h_xmax = 0, h_cid = 0, h_schema_hash = 0,
     h_flags = 0, h_payload_len = 0, h_crc32 = 0\<rparr>, payload = []\<rparr>"

lemma version_order_witness:
  "\<exists>sl'. sl_put (IKey (make_user_key ''t'' 7) 2) (stored (sample_tuple 7)) 1 (sl_new (IKey [] 0) (sample_tuple 0)) = Some sl' \<and>
    (\<forall>r'. sl_range (key_lo (mt_new ''t'') r') (key_hi (mt_new ''t'') r') sl' =
       Some (if r' = 7 then [stored (sample_tuple 7)] else []))"
  using version_order [of "sl_new (IKey [] 0) (sample_tuple 0)" "mt_new ''t''" 1 2 1 7 "sample_tuple 7"]
  by (simp add: repr_new kMaxLevel_def cong: if_cong)

end
