(* ===== verification/Wal_V3.thy ===== *)
theory Wal_V3
  imports Byte_Codec
begin

text \<open>
  The write-ahead log of \<open>storage/wal_v3.h\<close> and \<open>storage/wal_v3.cpp\<close>: the CRC, the record format,
  appending with the three sync modes, replay with its two ways of meeting damage, truncation.

  The log file is its bytes; \<open>wal_synced\<close> counts the bytes known to be on the device after the
  last \<open>fdatasync\<close>, so that a crash may leave any longer prefix (\<open>crash\<close>). System calls succeed:
  the branches that throw on an I/O error are not modelled. \<open>int64_t\<close> sequence numbers are 64-bit
  words compared as signed.
\<close>

section \<open>Operation codes\<close>

datatype WalOp = kUnknown | kInsert | kUpdate | kDelete | kXactCommit | kXactAbort | kCreateTable
  | kDropTable | kCreateDatabase | kDropDatabase | kCreateSchema | kCreateUser | kDropUser

fun op_code :: "WalOp \<Rightarrow> u16" where
  "op_code kUnknown = 0"
| "op_code kInsert = 1"
| "op_code kUpdate = 2"
| "op_code kDelete = 3"
| "op_code kXactCommit = 4"
| "op_code kXactAbort = 5"
| "op_code kCreateTable = 6"
| "op_code kDropTable = 7"
| "op_code kCreateDatabase = 8"
| "op_code kDropDatabase = 9"
| "op_code kCreateSchema = 10"
| "op_code kCreateUser = 11"
| "op_code kDropUser = 12"

definition op_names :: "(string \<times> WalOp) list" where
  "op_names = [(''insert'', kInsert), (''update'', kUpdate), (''delete'', kDelete),
     (''xact_commit'', kXactCommit), (''xact_abort'', kXactAbort), (''create_table'', kCreateTable),
     (''drop_table'', kDropTable), (''create_database'', kCreateDatabase),
     (''drop_database'', kDropDatabase), (''create_schema'', kCreateSchema),
     (''create_user'', kCreateUser), (''drop_user'', kDropUser)]"

definition op_to_enum :: "string \<Rightarrow> u16" where
  "op_to_enum s = (case map_of op_names s of None \<Rightarrow> op_code kUnknown | Some e \<Rightarrow> op_code e)"

definition enum_to_op :: "u16 \<Rightarrow> string" where
  "enum_to_op w = (case map_of (map (\<lambda>(s, e). (op_code e, s)) op_names) w of None \<Rightarrow> '''' | Some s \<Rightarrow> s)"

text \<open>\<open>static_cast<WalOp>(rec.op)\<close> in a \<open>switch\<close>: a code without a case falls to the default.\<close>

definition op_of_code :: "u16 \<Rightarrow> WalOp" where
  "op_of_code w = (case find (\<lambda>e. op_code e = w) (map snd op_names) of None \<Rightarrow> kUnknown | Some e \<Rightarrow> e)"

lemma op_of_code_op_code [simp]: "op_of_code (op_code e) = e"
  by (cases e) (simp_all add: op_of_code_def op_names_def)

section \<open>CRC-32\<close>

definition kPoly :: u32 where
  "kPoly = 0xEDB88320"

definition crc_bit :: "u32 \<Rightarrow> u32" where
  "crc_bit c = (if c AND 1 \<noteq> 0 then kPoly XOR drop_bit 1 c else drop_bit 1 c)"

definition crc_entry :: "u32 \<Rightarrow> u32" where
  "crc_entry i = (crc_bit ^^ 8) i"

definition crc32_table :: "u32 list" where
  "crc32_table = map (\<lambda>i. crc_entry (of_nat i)) [0..<256]"

definition crc_step :: "u8 \<Rightarrow> u32 \<Rightarrow> u32" where
  "crc_step b crc = crc32_table ! unat ((crc XOR ucast b) AND 0xFF) XOR drop_bit 8 crc"

definition crc32_compute :: "bytes \<Rightarrow> u32" where
  "crc32_compute data = fold crc_step data 0xFFFFFFFF XOR 0xFFFFFFFF"

section \<open>Records\<close>

definition kWalV3Magic :: u32 where
  "kWalV3Magic = 0x42444D4A"

definition kWalV3Version :: u16 where
  "kWalV3Version = 3"

record WALRecordV3 =
  w_seq :: u64
  w_timestamp :: u64
  w_op :: u16
  w_table :: string
  w_xid :: u32
  w_data :: bytes

text \<open>The raw readers of this file take a pointer: here the bytes from that position on.\<close>

definition raw_u16 :: "bytes \<Rightarrow> u16" where
  "raw_u16 p = ucast (p ! 0) OR push_bit 8 (ucast (p ! 1))"

definition raw_u32 :: "bytes \<Rightarrow> u32" where
  "raw_u32 p = ucast (p ! 0) OR push_bit 8 (ucast (p ! 1)) OR
     push_bit 16 (ucast (p ! 2)) OR push_bit 24 (ucast (p ! 3))"

definition raw_u64 :: "bytes \<Rightarrow> u64" where
  "raw_u64 p = fold (\<lambda>i v. v OR push_bit (i * 8) (ucast (p ! i))) [0..<8] 0"

definition rec_body :: "WALRecordV3 \<Rightarrow> bytes" where
  "rec_body r = put_u32 kWalV3Magic @ put_u16 kWalV3Version @ put_u16 (w_op r) @
     put_u64 (w_seq r) @ put_u64 (w_timestamp r) @
     put_u16 (of_nat (length (w_table r))) @ string_bytes (w_table r) @
     put_u32 (w_xid r) @ put_u32 (of_nat (length (w_data r))) @ w_data r"

definition rec_encode :: "WALRecordV3 \<Rightarrow> bytes" where
  "rec_encode r = (let buf = rec_body r in buf @ put_u32 (crc32_compute buf))"

text \<open>\<open>0\<close>, \<open>kCrcFailed\<close>, or the record with the number of bytes consumed.\<close>

datatype decode_result = Incomplete | CrcFailed | Decoded WALRecordV3 nat

definition rec_decode :: "bytes \<Rightarrow> decode_result" where
  "rec_decode buf =
     (let len = length buf in
      if len < 26 then Incomplete
      else if raw_u32 buf \<noteq> kWalV3Magic then CrcFailed
      else if raw_u16 (drop 4 buf) \<noteq> kWalV3Version then CrcFailed
      else let opc = raw_u16 (drop 6 buf); seq = raw_u64 (drop 8 buf); ts = raw_u64 (drop 16 buf);
               tlen = unat (raw_u16 (drop 24 buf)) in
      if len < 26 + tlen + 4 + 4 then Incomplete
      else let table = bytes_string (take tlen (drop 26 buf));
               xid = raw_u32 (drop (26 + tlen) buf);
               dlen = unat (raw_u32 (drop (30 + tlen) buf));
               pos = 34 + tlen in
      if len < pos + dlen + 4 then Incomplete
      else let data = take dlen (drop pos buf);
               pos = pos + dlen;
               stored_crc = raw_u32 (drop pos buf) in
      if crc32_compute (take pos buf) \<noteq> stored_crc then CrcFailed
      else Decoded \<lparr>w_seq = seq, w_timestamp = ts, w_op = opc, w_table = table, w_xid = xid, w_data = data\<rparr>
             (pos + 4))"

section \<open>The log\<close>

datatype SyncMode = kNever | kOnCommit | kAlways

record WAL =
  wal_file :: bytes
  wal_open :: bool
  wal_seq :: u64
  wal_mode :: SyncMode
  wal_synced :: nat

definition wal_new :: "SyncMode \<Rightarrow> bytes \<Rightarrow> WAL" where
  "wal_new mode file = \<lparr>wal_file = file, wal_open = False, wal_seq = 0, wal_mode = mode, wal_synced = length file\<rparr>"

definition wal_do_open :: "WAL \<Rightarrow> WAL" where
  "wal_do_open w = w\<lparr>wal_open := True\<rparr>"

definition wal_close :: "WAL \<Rightarrow> WAL" where
  "wal_close w = w\<lparr>wal_open := False\<rparr>"

definition append_locked :: "WALRecordV3 \<Rightarrow> WAL \<Rightarrow> WAL" where
  "append_locked r w = w\<lparr>wal_open := True, wal_seq := w_seq r, wal_file := wal_file w @ rec_encode r\<rparr>"

definition wal_sync :: "WAL \<Rightarrow> WAL" where
  "wal_sync w = (if wal_open w then w\<lparr>wal_synced := length (wal_file w)\<rparr> else w)"

definition maybe_sync_locked :: "WALRecordV3 \<Rightarrow> WAL \<Rightarrow> WAL" where
  "maybe_sync_locked r w = (case wal_mode w of
     kNever \<Rightarrow> w
   | kAlways \<Rightarrow> wal_sync w
   | kOnCommit \<Rightarrow> if w_op r = op_code kXactCommit \<or> w_op r = op_code kXactAbort then wal_sync w else w)"

definition wal_append :: "WALRecordV3 \<Rightarrow> WAL \<Rightarrow> WAL" where
  "wal_append r w = maybe_sync_locked r (append_locked r w)"

definition set_sync_mode :: "SyncMode \<Rightarrow> WAL \<Rightarrow> WAL" where
  "set_sync_mode m w = w\<lparr>wal_mode := m\<rparr>"

definition set_seq :: "u64 \<Rightarrow> WAL \<Rightarrow> WAL" where
  "set_seq s w = w\<lparr>wal_seq := s\<rparr>"

definition has_magic :: "bytes \<Rightarrow> bool" where
  "has_magic buf \<longleftrightarrow> 4 \<le> length buf \<and> buf ! 0 = 0x4A \<and> buf ! 1 = 0x4D \<and> buf ! 2 = 0x44 \<and> buf ! 3 = 0x42"

text \<open>The search for the next magic after a record that fails its check.\<close>

fun resync :: "bytes \<Rightarrow> bytes option" where
  "resync buf = (if length buf < 4 then None
     else if has_magic buf then Some buf else resync (drop 1 buf))"

declare resync.simps [simp del]

definition smax :: "'a::len word \<Rightarrow> 'a word \<Rightarrow> 'a word" where
  "smax a b = (if a <s b then b else a)"

lemma resync_length: "resync buf = Some b \<Longrightarrow> length b \<le> length buf"
proof (induction buf rule: resync.induct)
  case (1 buf)
  then show ?case by (subst (asm) (2) resync.simps) (force split: if_splits)
qed

lemma rec_decode_length: "rec_decode buf = Decoded r n \<Longrightarrow> 38 \<le> n \<and> n \<le> length buf"
  by (auto simp: rec_decode_def Let_def split: if_splits)

function replay_loop :: "u64 \<Rightarrow> bytes \<Rightarrow> u64 \<Rightarrow> u64 \<times> WALRecordV3 list" where
  "replay_loop from buf seq =
     (if buf = [] then (seq, [])
      else case rec_decode buf of
        Incomplete \<Rightarrow> (seq, [])
      | CrcFailed \<Rightarrow> (case resync (drop 1 buf) of None \<Rightarrow> (seq, []) | Some b \<Rightarrow> replay_loop from b seq)
      | Decoded r n \<Rightarrow>
          (let (seq', rs) = replay_loop from (drop n buf) (smax seq (w_seq r))
           in if from <s w_seq r then (seq', r # rs) else (seq', rs)))"
  by pat_completeness auto
termination
proof (relation "measure (\<lambda>(_, buf, _). length buf)")
  fix "from" seq :: u64 and buf b :: bytes
  assume "buf \<noteq> []" "resync (drop 1 buf) = Some b"
  then show "((from, b, seq), from, buf, seq) \<in> measure (\<lambda>(_, buf, _). length buf)"
    using resync_length [of "drop 1 buf" b] by (cases buf) auto
next
  fix "from" seq :: u64 and buf :: bytes and r n
  assume "buf \<noteq> []" "rec_decode buf = Decoded r n"
  then show "((from, drop n buf, smax seq (w_seq r)), from, buf, seq) \<in> measure (\<lambda>(_, buf, _). length buf)"
    using rec_decode_length [of buf r n] by auto
qed simp

declare replay_loop.simps [simp del]

definition wal_replay :: "u64 \<Rightarrow> WAL \<Rightarrow> WALRecordV3 list \<times> WAL" where
  "wal_replay from w =
     (let buf = wal_file w in
      if buf = [] then ([], w)
      else if has_magic buf then
        (let (seq, rs) = replay_loop from buf (wal_seq w) in (rs, w\<lparr>wal_seq := seq\<rparr>))
      else ([], w))"

definition wal_truncate :: "u64 \<Rightarrow> WAL \<Rightarrow> WAL" where
  "wal_truncate cutoff w =
     (let kept = fst (wal_replay cutoff (w\<lparr>wal_open := False, wal_seq := 0\<rparr>));
          file = concat (map rec_encode kept);
          w = w\<lparr>wal_file := file, wal_synced := length file, wal_open := True\<rparr>
      in if kept \<noteq> [] then w\<lparr>wal_seq := w_seq (last kept)\<rparr> else w)"

text \<open>A crash loses any part of the file after the last sync.\<close>

definition crash :: "nat \<Rightarrow> WAL \<Rightarrow> WAL" where
  "crash n w = wal_new (wal_mode w) (take (max n (wal_synced w)) (wal_file w))"

section \<open>Reading a record back\<close>

lemma raw_u16_read: "read_u16 p = Some (v, r) \<Longrightarrow> raw_u16 p = v"
  by (auto simp: read_u16_def raw_u16_def split: if_splits)

lemma raw_u32_read: "read_u32 p = Some (v, r) \<Longrightarrow> raw_u32 p = v"
  by (auto simp: read_u32_def raw_u32_def upt_conv_Cons ac_simps numeral_2_eq_2 numeral_3_eq_3
      split: if_splits)

lemma raw_u64_read: "read_u64 p = Some (v, r) \<Longrightarrow> raw_u64 p = v"
  by (auto simp: read_u64_def raw_u64_def split: if_splits)

lemma raw_put [simp]: "raw_u16 (put_u16 a @ r) = a" "raw_u32 (put_u32 b @ r) = b" "raw_u64 (put_u64 c @ r) = c"
  by (rule raw_u16_read raw_u32_read raw_u64_read, rule read_put_u16 read_put_u32 read_put_u64)+

definition rec_fits :: "WALRecordV3 \<Rightarrow> bool" where
  "rec_fits r \<longleftrightarrow> length (w_table r) < 2 ^ 16 \<and> length (w_data r) < 2 ^ 32"

lemma length_rec_body: "length (rec_body r) = 34 + length (w_table r) + length (w_data r)"
  by (simp add: rec_body_def)

lemma length_rec_encode: "length (rec_encode r) = 38 + length (w_table r) + length (w_data r)"
  by (simp add: rec_encode_def Let_def length_rec_body)

lemma body_fields:
  assumes "rec_fits r"
  shows "raw_u32 (rec_body r @ s) = kWalV3Magic"
    "raw_u16 (drop 4 (rec_body r @ s)) = kWalV3Version" "raw_u16 (drop 6 (rec_body r @ s)) = w_op r"
    "raw_u64 (drop 8 (rec_body r @ s)) = w_seq r" "raw_u64 (drop 16 (rec_body r @ s)) = w_timestamp r"
    "unat (raw_u16 (drop 24 (rec_body r @ s))) = length (w_table r)"
    "bytes_string (take (length (w_table r)) (drop 26 (rec_body r @ s))) = w_table r"
    "raw_u32 (drop (26 + length (w_table r)) (rec_body r @ s)) = w_xid r"
    "unat (raw_u32 (drop (30 + length (w_table r)) (rec_body r @ s))) = length (w_data r)"
    "take (length (w_data r)) (drop (34 + length (w_table r)) (rec_body r @ s)) = w_data r"
  using assms by (simp_all add: rec_body_def rec_fits_def unat_of_nat_small)

lemma rec_decode_encode:
  assumes "rec_fits r"
  shows "rec_decode (rec_encode r @ s) = Decoded r (length (rec_encode r))"
proof -
  let ?b = "rec_body r" and ?t = "put_u32 (crc32_compute (rec_body r)) @ s"
  have e: "rec_encode r @ s = ?b @ ?t" by (simp add: rec_encode_def Let_def)
  have len: "length (?b @ ?t) = 38 + length (w_table r) + length (w_data r) + length s"
    by (simp add: length_rec_body)
  have crc: "raw_u32 (drop (34 + length (w_table r) + length (w_data r)) (?b @ ?t)) = crc32_compute ?b"
    by (simp add: length_rec_body)
  have tk: "take (34 + length (w_table r) + length (w_data r)) (?b @ ?t) = ?b"
    by (simp add: length_rec_body)
  show ?thesis
    unfolding e rec_decode_def Let_def body_fields [OF assms] len crc tk length_rec_encode
    by simp
qed

text \<open>What the reader makes of a part of a record.\<close>

lemma raw_append:
  "k + 2 \<le> length p \<Longrightarrow> raw_u16 (drop k (p @ t)) = raw_u16 (drop k p)"
  "k + 4 \<le> length p \<Longrightarrow> raw_u32 (drop k (p @ t)) = raw_u32 (drop k p)"
  "4 \<le> length p \<Longrightarrow> raw_u32 (p @ t) = raw_u32 p"
  by (auto simp: raw_u16_def raw_u32_def nth_append)

lemma rec_decode_prefix:
  assumes d: "rec_decode (p @ t) = Decoded r n" and short: "length p < n"
  shows "rec_decode p = Incomplete"
proof (cases "length p < 26")
  case False
  let ?tlen = "unat (raw_u16 (drop 24 p))"
  have h: "raw_u32 p = kWalV3Magic" "raw_u16 (drop 4 p) = kWalV3Version"
    using d False raw_append(1) [of 4 p t] raw_append(3) [of p t]
    by (auto simp: rec_decode_def Let_def split: if_splits)
  have t: "raw_u16 (drop 24 (p @ t)) = raw_u16 (drop 24 p)" using False by (intro raw_append) simp
  show ?thesis
  proof (cases "length p < 26 + ?tlen + 4 + 4")
    case True
    with False h show ?thesis by (simp add: rec_decode_def Let_def)
  next
    case long: False
    have x: "raw_u32 (drop (30 + ?tlen) (p @ t)) = raw_u32 (drop (30 + ?tlen) p)"
      using long by (intro raw_append) simp
    have "n = 34 + ?tlen + unat (raw_u32 (drop (30 + ?tlen) p)) + 4"
      using d by (auto simp: rec_decode_def Let_def t x simp del: drop_append split: if_splits)
    with False h long short show ?thesis by (simp add: rec_decode_def Let_def)
  qed
qed (simp add: rec_decode_def)

lemma rec_decode_torn: "rec_fits r \<Longrightarrow> rec_encode r = p @ t \<Longrightarrow> t \<noteq> [] \<Longrightarrow> rec_decode p = Incomplete"
  using rec_decode_encode [of r "[]"] rec_decode_prefix [of p t r]
  by (metis append_Nil2 length_append length_greater_0_conv less_add_same_cancel1)

section \<open>Replay\<close>

text \<open>The sequence number after reading: the maximum, as the code keeps it.\<close>

definition max_seq :: "u64 \<Rightarrow> WALRecordV3 list \<Rightarrow> u64" where
  "max_seq s rs = foldl (\<lambda>s r. smax s (w_seq r)) s rs"

definition torn :: "bytes \<Rightarrow> bool" where
  "torn p \<longleftrightarrow> p = [] \<or> rec_decode p = Incomplete"

lemma replay_loop_log:
  "list_all rec_fits rs \<Longrightarrow> torn tail \<Longrightarrow>
   replay_loop from (concat (map rec_encode rs) @ tail) seq =
     (max_seq seq rs, filter (\<lambda>r. from <s w_seq r) rs)"
proof (induction rs arbitrary: seq)
  case Nil
  then show ?case by (auto simp: torn_def max_seq_def replay_loop.simps [of "from" tail seq])
next
  case (Cons r rs)
  have ne: "rec_encode r \<noteq> []" using length_rec_encode [of r] by fastforce
  have "rec_decode (concat (map rec_encode (r # rs)) @ tail) = Decoded r (length (rec_encode r))"
    using rec_decode_encode [of r "concat (map rec_encode rs) @ tail"] Cons.prems by simp
  then show ?case
    using Cons ne by (subst replay_loop.simps) (simp add: max_seq_def Let_def)
qed

lemma has_magic_rec_encode: "has_magic (rec_encode r @ s)"
proof -
  have "put_u32 kWalV3Magic = [0x4A, 0x4D, 0x44, 0x42]" by code_simp
  then show ?thesis by (simp add: has_magic_def rec_encode_def rec_body_def Let_def)
qed

lemma fst_wal_replay_log:
  assumes "list_all rec_fits rs" "torn tail" "wal_file w = concat (map rec_encode rs) @ tail"
  shows "fst (wal_replay from w) = filter (\<lambda>r. from <s w_seq r) rs"
proof (cases rs)
  case Nil
  then show ?thesis
    using replay_loop_log [OF assms(1,2), of "from" "wal_seq w"] assms(3)
    by (auto simp: wal_replay_def Let_def split: prod.splits)
next
  case (Cons r rs')
  then have "has_magic (wal_file w)" using assms(3) has_magic_rec_encode by simp
  moreover from this have "wal_file w \<noteq> []" by (auto simp: has_magic_def)
  ultimately show ?thesis
    using replay_loop_log [OF assms(1,2), of "from" "wal_seq w"] assms(3)
    by (simp add: wal_replay_def Let_def del: concat_eq_Nil_conv append_is_Nil_conv)
qed

lemma wal_replay_log:
  assumes "list_all rec_fits rs" "wal_file w = concat (map rec_encode rs)"
  shows "wal_replay from w = (filter (\<lambda>r. from <s w_seq r) rs, w\<lparr>wal_seq := max_seq (wal_seq w) rs\<rparr>)"
proof (cases rs)
  case Nil
  then show ?thesis using assms(2) by (simp add: wal_replay_def max_seq_def)
next
  case (Cons r rs')
  then have "has_magic (wal_file w)" using assms(2) has_magic_rec_encode by simp
  moreover from this have "wal_file w \<noteq> []" by (auto simp: has_magic_def)
  ultimately show ?thesis
    using replay_loop_log [OF assms(1), of "[]" "from" "wal_seq w"] assms(2)
    by (simp add: wal_replay_def torn_def Let_def del: concat_eq_Nil_conv)
qed

lemma wal_truncate_log:
  assumes "list_all rec_fits rs" "wal_file w = concat (map rec_encode rs)"
  shows "wal_truncate cutoff w = (let kept = filter (\<lambda>r. cutoff <s w_seq r) rs; fl = concat (map rec_encode kept) in
    w\<lparr>wal_file := fl, wal_synced := length fl, wal_open := True,
      wal_seq := (if kept = [] then wal_seq w else w_seq (last kept))\<rparr>)"
  using wal_replay_log [OF assms(1), of "w\<lparr>wal_open := False, wal_seq := 0\<rparr>" cutoff] assms(2)
  by (simp add: wal_truncate_def Let_def)

section \<open>Durability\<close>

definition wal_log :: "WALRecordV3 list \<Rightarrow> WAL \<Rightarrow> bool" where
  "wal_log rs w \<longleftrightarrow> list_all rec_fits rs \<and> wal_file w = concat (map rec_encode rs)"

lemma wal_log_append: "wal_log rs w \<Longrightarrow> rec_fits r \<Longrightarrow> wal_log (rs @ [r]) (wal_append r w)"
  by (simp add: wal_log_def wal_append_def append_locked_def maybe_sync_locked_def wal_sync_def
      split: SyncMode.split)

lemma wal_append_frame [simp]: "wal_mode (wal_append r w) = wal_mode w" "wal_seq (wal_append r w) = w_seq r"
  by (simp_all add: wal_append_def append_locked_def maybe_sync_locked_def wal_sync_def split: SyncMode.split)

text \<open>\<open>synced_to w k\<close>: at least the first \<open>k\<close> records are on the device.\<close>

definition synced_to :: "WALRecordV3 list \<Rightarrow> WAL \<Rightarrow> nat \<Rightarrow> bool" where
  "synced_to rs w k \<longleftrightarrow> k \<le> length rs \<and> length (concat (map rec_encode (take k rs))) \<le> wal_synced w \<and>
     wal_synced w \<le> length (wal_file w)"

lemma synced_to_append: "wal_log rs w \<Longrightarrow> synced_to rs w k \<Longrightarrow> synced_to (rs @ [r]) (wal_append r w) k"
  by (auto simp: synced_to_def wal_log_def wal_append_def append_locked_def maybe_sync_locked_def wal_sync_def
      split: SyncMode.split)

definition is_xact_end :: "WALRecordV3 \<Rightarrow> bool" where
  "is_xact_end r \<longleftrightarrow> w_op r = op_code kXactCommit \<or> w_op r = op_code kXactAbort"

lemma synced_to_commit:
  assumes "wal_log rs w" "wal_mode w \<noteq> kNever" "is_xact_end r"
  shows "synced_to (rs @ [r]) (wal_append r w) (Suc (length rs))"
  using assms
  by (cases "wal_mode w")
    (auto simp: synced_to_def wal_log_def wal_append_def append_locked_def maybe_sync_locked_def
      wal_sync_def is_xact_end_def)

text \<open>A cut of a log is a shorter log with a torn record behind it.\<close>

lemma cut_log:
  "list_all rec_fits rs \<Longrightarrow> n \<le> length (concat (map rec_encode rs)) \<Longrightarrow>
   \<exists>k tail. k \<le> length rs \<and> take n (concat (map rec_encode rs)) = concat (map rec_encode (take k rs)) @ tail \<and>
     torn tail \<and> (\<forall>j \<le> length rs. length (concat (map rec_encode (take j rs))) \<le> n \<longrightarrow> j \<le> k)"
proof (induction rs arbitrary: n)
  case Nil
  then show ?case by (auto simp: torn_def)
next
  case (Cons r rs)
  have pos: "0 < length (rec_encode r)" using length_rec_encode [of r] by simp
  show ?case
  proof (cases "n < length (rec_encode r)")
    case True
    have "rec_encode r = take n (rec_encode r) @ drop n (rec_encode r)" by simp
    moreover have "drop n (rec_encode r) \<noteq> []" using True by simp
    ultimately have "rec_decode (take n (rec_encode r)) = Incomplete"
      using rec_decode_torn Cons.prems(1) by (metis list.pred_inject(2))
    moreover have "j = 0" if "j \<le> length (r # rs)" "length (concat (map rec_encode (take j (r # rs)))) \<le> n" for j
      using that True by (cases j) auto
    ultimately show ?thesis using True by (intro exI [of _ 0] exI [of _ "take n (rec_encode r)"]) (auto simp: torn_def)
  next
    case False
    define m where "m = n - length (rec_encode r)"
    have n: "n = length (rec_encode r) + m" using False by (simp add: m_def)
    then have "m \<le> length (concat (map rec_encode rs))" using Cons.prems(2) by simp
    then obtain k tail where k: "k \<le> length rs" "take m (concat (map rec_encode rs)) = concat (map rec_encode (take k rs)) @ tail"
      "torn tail" "\<forall>j \<le> length rs. length (concat (map rec_encode (take j rs))) \<le> m \<longrightarrow> j \<le> k"
      using Cons.IH Cons.prems(1) by (metis list.pred_inject(2))
    have "j \<le> Suc k" if "j \<le> length (r # rs)" "length (concat (map rec_encode (take j (r # rs)))) \<le> n" for j
      using that k(4) n by (cases j) auto
    with k n show ?thesis by (intro exI [of _ "Suc k"] exI [of _ tail]) auto
  qed
qed

lemma crash_replay:
  assumes "wal_log rs w" "synced_to rs w j"
  shows "\<exists>k. j \<le> k \<and> k \<le> length rs \<and>
    fst (wal_replay from (crash n w)) = filter (\<lambda>r. from <s w_seq r) (take k rs)"
proof -
  let ?n = "min (max n (wal_synced w)) (length (wal_file w))"
  have fl: "wal_file (crash n w) = take ?n (concat (map rec_encode rs))"
    using assms(1)
    by (cases "max n (wal_synced w) \<le> length (wal_file w)") (auto simp: crash_def wal_new_def wal_log_def min_def)
  have fits: "list_all rec_fits rs" and len: "?n \<le> length (concat (map rec_encode rs))"
    using assms(1) by (auto simp: wal_log_def)
  obtain k tail where k: "k \<le> length rs" "take ?n (concat (map rec_encode rs)) = concat (map rec_encode (take k rs)) @ tail"
    "torn tail" "\<forall>j \<le> length rs. length (concat (map rec_encode (take j rs))) \<le> ?n \<longrightarrow> j \<le> k"
    using cut_log [OF fits len] by blast
  have "list_all rec_fits (take k rs)" using fits by (auto simp: list_all_iff dest: in_set_takeD)
  then have "fst (wal_replay from (crash n w)) = filter (\<lambda>r. from <s w_seq r) (take k rs)"
    using k fl by (intro fst_wal_replay_log) auto
  moreover have "j \<le> k" using k(4) assms(2) by (auto simp: synced_to_def)
  ultimately show ?thesis using k(1) by blast
qed

section \<open>The log as an interface\<close>

text \<open>
  What the engine relies on: a log that holds a list of records is extended by \<open>append\<close>, yields
  the records above a sequence number, and keeps exactly those when it is truncated.
\<close>

locale record_log =
  fixes holds :: "'r list \<Rightarrow> 'w \<Rightarrow> bool" and fits :: "'r \<Rightarrow> bool" and newer :: "u64 \<Rightarrow> 'r \<Rightarrow> bool"
    and add :: "'r \<Rightarrow> 'w \<Rightarrow> 'w" and read_from :: "u64 \<Rightarrow> 'w \<Rightarrow> 'r list" and cut :: "u64 \<Rightarrow> 'w \<Rightarrow> 'w"
  assumes holds_add: "holds rs w \<Longrightarrow> fits r \<Longrightarrow> holds (rs @ [r]) (add r w)"
    and read_holds: "holds rs w \<Longrightarrow> read_from s w = filter (newer s) rs"
    and holds_cut: "holds rs w \<Longrightarrow> holds (filter (newer s) rs) (cut s w)"
begin

lemma holds_fold: "holds rs w \<Longrightarrow> list_all fits new \<Longrightarrow> holds (rs @ new) (fold add new w)"
proof (induction new arbitrary: rs w)
  case (Cons r new)
  then show ?case using holds_add [of rs w r] Cons.IH [of "rs @ [r]" "add r w"] by simp
qed simp

lemma read_fold: "holds [] w \<Longrightarrow> list_all fits rs \<Longrightarrow> read_from s (fold add rs w) = filter (newer s) rs"
  using holds_fold [of "[]" w rs] read_holds by simp

lemma read_cut: "holds rs w \<Longrightarrow> read_from s' (cut s w) = filter (\<lambda>r. newer s r \<and> newer s' r) rs"
  using holds_cut read_holds by fastforce

end

lemma wal_log_truncate: "wal_log rs w \<Longrightarrow> wal_log (filter (\<lambda>r. cutoff <s w_seq r) rs) (wal_truncate cutoff w)"
  by (auto simp: wal_log_def wal_truncate_log Let_def list_all_iff)

interpretation wl: record_log wal_log rec_fits "\<lambda>s r. s <s w_seq r" wal_append
    "\<lambda>s w. fst (wal_replay s w)" wal_truncate
  by unfold_locales (auto simp: wal_log_append wal_log_truncate, auto simp: wal_log_def wal_replay_log)

section \<open>Properties\<close>

lemma wal_mode_fold: "wal_mode (fold wal_append rs w) = wal_mode w"
  by (induction rs arbitrary: w) simp_all

lemma synced_to_fold: "wal_log rs w \<Longrightarrow> list_all rec_fits new \<Longrightarrow> synced_to rs w k \<Longrightarrow>
    synced_to (rs @ new) (fold wal_append new w) k"
proof (induction new arbitrary: rs w)
  case (Cons r new)
  then show ?case
    using wal_log_append [of rs w r] synced_to_append [of rs w k r] Cons.IH [of "rs @ [r]" "wal_append r w"] by simp
qed simp

lemma wal_log_opened: "list_all rec_fits old \<Longrightarrow> wal_log old (wal_new mode (concat (map rec_encode old)))"
  by (simp add: wal_log_def wal_new_def)

text \<open>C6: In a sync mode that syncs on commit, for a log opened on a file of complete records (the empty file of a new
  database among them): whatever a crash leaves of the unsynced part of the log file, replay returns a prefix of the
  records in their order, and that prefix contains every record of the file and every appended one up to the last commit
  or abort record. The file has to be complete when it is opened: see \<open>torn_log_loses_commit\<close>.\<close>

theorem committed_records_survive:
  assumes "list_all rec_fits (old @ pre @ c # post)" "is_xact_end c" "mode \<noteq> kNever"
  shows "\<exists>k > length old + length pre. fst (wal_replay from
      (crash n (fold wal_append (pre @ c # post) (wal_new mode (concat (map rec_encode old)))))) =
    filter (\<lambda>r. from <s w_seq r) (take k (old @ pre @ c # post))"
proof -
  let ?opened = "wal_new mode (concat (map rec_encode old))" and ?rs = "old @ pre"
  let ?w = "fold wal_append pre ?opened"
  have w: "wal_log ?rs ?w" using wl.holds_fold [OF wal_log_opened, of old pre mode] assms(1) by simp
  have mode: "wal_mode ?w \<noteq> kNever" using assms(3) by (simp add: wal_mode_fold wal_new_def)
  have "synced_to ((?rs @ [c]) @ post) (fold wal_append post (wal_append c ?w)) (Suc (length ?rs))"
    using synced_to_commit [OF w mode assms(2)] wal_log_append [OF w, of c] assms(1)
    by (intro synced_to_fold) simp_all
  moreover have "wal_log ((?rs @ [c]) @ post) (fold wal_append post (wal_append c ?w))"
    using wal_log_append [OF w, of c] assms(1) by (intro wl.holds_fold) simp_all
  ultimately show ?thesis
    using crash_replay [of "old @ pre @ c # post" "fold wal_append (pre @ c # post) ?opened" "Suc (length ?rs)" "from" n]
    by (auto simp: Suc_le_eq)
qed

definition sample_rec :: "u64 \<Rightarrow> WalOp \<Rightarrow> WALRecordV3" where
  "sample_rec s e = \<lparr>w_seq = s, w_timestamp = 0, w_op = op_code e, w_table = ''t'', w_xid = 3, w_data = [1, 2]\<rparr>"

lemma committed_records_survive_witness:
  "\<exists>k > 2. fst (wal_replay 0 (crash 50 (fold wal_append ([sample_rec 2 kInsert] @ sample_rec 3 kXactCommit # [sample_rec 4 kInsert])
      (wal_new kOnCommit (concat (map rec_encode [sample_rec 1 kInsert])))))) =
    filter (\<lambda>r. 0 <s w_seq r) (take k ([sample_rec 1 kInsert] @ [sample_rec 2 kInsert] @ sample_rec 3 kXactCommit # [sample_rec 4 kInsert]))"
proof -
  have "length [sample_rec 1 kInsert] + length [sample_rec 2 kInsert] = 2" by simp
  then show ?thesis
    using committed_records_survive [of "[sample_rec 1 kInsert]" "[sample_rec 2 kInsert]" "sample_rec 3 kXactCommit" "[sample_rec 4 kInsert]" kOnCommit 0 50]
    by (simp only:) (simp add: sample_rec_def rec_fits_def is_xact_end_def del: fold_simps)
qed

text \<open>
  Opening a log does not cut a torn record off its end. As long as the torn record has more bytes missing than are
  appended behind it, its header makes the reader wait for bytes that are not there: replay returns the records before it
  and none of those appended behind it, commits and syncs notwithstanding.
\<close>

lemma rec_decode_torn_then:
  assumes "rec_fits r" "rec_encode r = p @ t" "34 + length (w_table r) \<le> length p" "length new < length t"
  shows "rec_decode (p @ new) = Incomplete"
proof -
  let ?tlen = "length (w_table r)" and ?b = "rec_body r" and ?c = "put_u32 (crc32_compute (rec_body r))"
  have e: "?b @ ?c = p @ t" using assms(2) by (simp add: rec_encode_def Let_def)
  have same: "raw_u32 (p @ x) = raw_u32 p" "raw_u16 (drop 4 (p @ x)) = raw_u16 (drop 4 p)"
    "raw_u16 (drop 24 (p @ x)) = raw_u16 (drop 24 p)" "raw_u32 (drop (30 + ?tlen) (p @ x)) = raw_u32 (drop (30 + ?tlen) p)" for x
    by (rule raw_append, use assms(3) in simp)+
  note fields = body_fields [OF assms(1), of ?c, unfolded e, unfolded same]
  have "length p + length t = 38 + ?tlen + length (w_data r)" using length_rec_encode [of r] assms(2) by simp
  then show ?thesis
    unfolding rec_decode_def Let_def same(1-3) fields(1,2,6) same(4) fields(9) using assms(3,4) by simp
qed

lemma torn_log_loses_commit:
  assumes "list_all rec_fits rs" "rec_fits r" "rec_encode r = p @ t" "34 + length (w_table r) \<le> length p"
    and "length (concat (map rec_encode new)) < length t"
  shows "fst (wal_replay from (fold wal_append new (wal_new mode (concat (map rec_encode rs) @ p)))) = filter (\<lambda>r. from <s w_seq r) rs"
proof -
  have "wal_file (fold wal_append new w) = wal_file w @ concat (map rec_encode new)" for w
    by (induction new arbitrary: w)
      (simp_all add: wal_append_def append_locked_def maybe_sync_locked_def wal_sync_def split: SyncMode.split)
  moreover have "torn (p @ concat (map rec_encode new))"
    using rec_decode_torn_then [OF assms(2-5)] by (simp add: torn_def)
  ultimately show ?thesis using assms(1) by (intro fst_wal_replay_log) (simp_all add: wal_new_def)
qed

text \<open>A record is read back exactly from its encoding, whatever follows it, and the encoding cut
  short anywhere is reported as incomplete, never as another record or as corrupt.\<close>

theorem record_roundtrip:
  assumes "rec_fits r"
  shows "rec_decode (rec_encode r @ s) = Decoded r (length (rec_encode r)) \<and>
    (n < length (rec_encode r) \<longrightarrow> rec_decode (take n (rec_encode r)) = Incomplete)"
  using rec_decode_encode [OF assms] rec_decode_torn [OF assms, of "take n (rec_encode r)" "drop n (rec_encode r)"]
  by simp

lemma record_roundtrip_witness: "rec_decode (take 20 (rec_encode (sample_rec 1 kInsert))) = Incomplete"
  using record_roundtrip [of "sample_rec 1 kInsert" "[]" 20]
  by (simp add: sample_rec_def rec_fits_def length_rec_encode)

text \<open>C32: Truncating a log at a sequence number leaves a well-formed file that holds exactly the
  records above it, in order, and resets the current sequence number only to that of the last
  record kept.\<close>

theorem truncate_keeps_newer:
  assumes "list_all rec_fits rs" "wal_file w = concat (map rec_encode rs)"
  shows "wal_file (wal_truncate cutoff w) = concat (map rec_encode (filter (\<lambda>r. cutoff <s w_seq r) rs)) \<and>
    wal_seq (wal_truncate cutoff w) =
      (if \<exists>r \<in> set rs. cutoff <s w_seq r then w_seq (last (filter (\<lambda>r. cutoff <s w_seq r) rs)) else wal_seq w)"
  using wal_truncate_log [OF assms, of cutoff] by (auto simp: Let_def filter_empty_conv)

lemma truncate_keeps_newer_witness:
  "wal_file (wal_truncate 1 (wal_append (sample_rec 2 kInsert) (wal_append (sample_rec 1 kInsert) (wal_new kNever [])))) =
     rec_encode (sample_rec 2 kInsert)"
  using truncate_keeps_newer [of "[sample_rec 1 kInsert, sample_rec 2 kInsert]"
      "wal_append (sample_rec 2 kInsert) (wal_append (sample_rec 1 kInsert) (wal_new kNever []))" 1]
  by (simp add: sample_rec_def rec_fits_def wal_append_def append_locked_def maybe_sync_locked_def wal_new_def word_sless_alt)

end
