(* ===== verification/Wal_Payload.thy ===== *)
theory Wal_Payload
  imports JM_Types Byte_Codec
begin

text \<open>
  The binary payloads of the log records, \<open>storage/wal_payload.h\<close> and \<open>storage/wal_payload.cpp\<close>.

  An encoder returns the bytes it appends; a decoder works on the unread bytes and returns the
  value with the rest, or \<open>None\<close> where the code returns \<open>false\<close>. The public \<open>wal_decode_*\<close>
  functions also demand that nothing follows (\<open>at_eof\<close>). A decoder that fails may have assigned
  a part of its output already; no caller reads the output then, so the model drops it. The
  little-endian primitives are those of \<open>Byte_Codec\<close>.
\<close>

section \<open>Values and rows\<close>

fun encode_value :: "val \<Rightarrow> bytes" where
  "encode_value VNull = put_u8 0"
| "encode_value (VInt i) = put_u8 1 @ put_i64 i"
| "encode_value (VDouble d) = put_u8 2 @ put_f64 d"
| "encode_value (VBool b) = put_u8 3 @ put_u8 (if b then 1 else 0)"
| "encode_value (VString s) = put_u8 4 @ put_string_u32 s"

definition decode_value :: "val reader" where
  "decode_value r = do {
     (tag, r) \<leftarrow> read_u8 r;
     if tag = 0 then Some (VNull, r)
     else if tag = 1 then do { (v, r) \<leftarrow> read_i64 r; Some (VInt v, r) }
     else if tag = 2 then do { (v, r) \<leftarrow> read_f64 r; Some (VDouble v, r) }
     else if tag = 3 then do { (v, r) \<leftarrow> read_u8 r; Some (VBool (v \<noteq> 0), r) }
     else if tag = 4 then do { (v, r) \<leftarrow> read_string_u32 r; Some (VString v, r) }
     else None }"

definition encode_entry :: "string \<times> val \<Rightarrow> bytes" where
  "encode_entry e = (case e of (k, v) \<Rightarrow> put_string_u16 k @ encode_value v)"

definition decode_entry :: "(string \<times> val) reader" where
  "decode_entry r = do {
     (key, r) \<leftarrow> read_string_u16 r;
     (v, r) \<leftarrow> decode_value r;
     Some ((key, v), r) }"

definition encode_row :: "row \<Rightarrow> bytes" where
  "encode_row m = put_u32 (of_nat (length m)) @ concat (map encode_entry m)"

definition decode_row :: "row reader" where
  "decode_row r = do {
     (count, r) \<leftarrow> read_u32 r;
     (es, r) \<leftarrow> read_n decode_entry (unat count) r;
     Some (fold (\<lambda>(k, v). omap_emplace k v) es [], r) }"

definition wal_encode_row :: "row \<Rightarrow> bytes" where
  "wal_encode_row m = encode_row m"

definition wal_decode_row :: "bytes \<Rightarrow> row option" where
  "wal_decode_row bs = at_eof (decode_row bs)"

section \<open>Operations\<close>

record InsertPayload =
  ip_rowid :: u64
  ip_row :: row

record UpdatePayload =
  up_rowid :: u64
  up_updates :: row
  up_new_row :: row

record DeletePayload =
  dp_rowid :: u64
  dp_has_xmax :: bool
  dp_xmax :: u32

definition wal_encode_insert :: "InsertPayload \<Rightarrow> bytes" where
  "wal_encode_insert p = put_i64 (ip_rowid p) @ encode_row (ip_row p)"

definition decode_insert :: "InsertPayload reader" where
  "decode_insert r = do {
     (rowid, r) \<leftarrow> read_i64 r;
     (m, r) \<leftarrow> decode_row r;
     Some (\<lparr>ip_rowid = rowid, ip_row = m\<rparr>, r) }"

definition wal_decode_insert :: "bytes \<Rightarrow> InsertPayload option" where
  "wal_decode_insert bs = at_eof (decode_insert bs)"

definition wal_encode_update :: "UpdatePayload \<Rightarrow> bytes" where
  "wal_encode_update p = put_i64 (up_rowid p) @ encode_row (up_updates p) @ encode_row (up_new_row p)"

definition decode_update :: "UpdatePayload reader" where
  "decode_update r = do {
     (rowid, r) \<leftarrow> read_i64 r;
     (updates, r) \<leftarrow> decode_row r;
     (new_row, r) \<leftarrow> decode_row r;
     Some (\<lparr>up_rowid = rowid, up_updates = updates, up_new_row = new_row\<rparr>, r) }"

definition wal_decode_update :: "bytes \<Rightarrow> UpdatePayload option" where
  "wal_decode_update bs = at_eof (decode_update bs)"

definition wal_encode_delete :: "DeletePayload \<Rightarrow> bytes" where
  "wal_encode_delete p = put_i64 (dp_rowid p) @ put_u8 (if dp_has_xmax p then 1 else 0) @
     (if dp_has_xmax p then put_u32 (dp_xmax p) else [])"

definition decode_delete :: "DeletePayload reader" where
  "decode_delete r = do {
     (rowid, r) \<leftarrow> read_i64 r;
     (flag, r) \<leftarrow> read_u8 r;
     if flag \<noteq> 0 then do {
       (xmax, r) \<leftarrow> read_u32 r;
       Some (\<lparr>dp_rowid = rowid, dp_has_xmax = True, dp_xmax = xmax\<rparr>, r) }
     else Some (\<lparr>dp_rowid = rowid, dp_has_xmax = False, dp_xmax = 0\<rparr>, r) }"

definition wal_decode_delete :: "bytes \<Rightarrow> DeletePayload option" where
  "wal_decode_delete bs = at_eof (decode_delete bs)"

definition encode_column :: "ColumnDef \<Rightarrow> bytes" where
  "encode_column c = put_string_u16 (cd_name c) @ put_u8 (data_type_code (cd_type c)) @
     put_u8 (if cd_nullable c then 1 else 0) @ put_u8 (if cd_primary_key c then 1 else 0)"

definition decode_column :: "ColumnDef reader" where
  "decode_column r = do {
     (name, r) \<leftarrow> read_string_u16 r;
     (tid, r) \<leftarrow> read_u8 r;
     (nullable, r) \<leftarrow> read_u8 r;
     (pk, r) \<leftarrow> read_u8 r;
     Some (\<lparr>cd_name = name, cd_type = data_type_of_code tid, cd_nullable = (nullable \<noteq> 0),
            cd_primary_key = (pk \<noteq> 0), cd_default = None\<rparr>, r) }"

definition wal_encode_create_table :: "ColumnDef list \<Rightarrow> bytes" where
  "wal_encode_create_table cols = put_u32 (of_nat (length cols)) @ concat (map encode_column cols)"

definition decode_create_table :: "ColumnDef list reader" where
  "decode_create_table r = do {
     (col_count, r) \<leftarrow> read_u32 r;
     read_n decode_column (unat col_count) r }"

definition wal_decode_create_table :: "bytes \<Rightarrow> ColumnDef list option" where
  "wal_decode_create_table bs = at_eof (decode_create_table bs)"

definition wal_encode_create_schema :: "string \<Rightarrow> bytes" where
  "wal_encode_create_schema schema = put_string_u16 schema"

definition wal_decode_create_schema :: "bytes \<Rightarrow> string option" where
  "wal_decode_create_schema bs = at_eof (read_string_u16 bs)"

definition wal_encode_empty :: bytes where
  "wal_encode_empty = []"

section \<open>The codecs\<close>

fun value_fits :: "val \<Rightarrow> bool" where
  "value_fits (VString s) \<longleftrightarrow> fits_u32 s"
| "value_fits _ \<longleftrightarrow> True"

definition entry_fits :: "string \<times> val \<Rightarrow> bool" where
  "entry_fits e \<longleftrightarrow> fits_u16 (fst e) \<and> value_fits (snd e)"

definition wal_row_fits :: "row \<Rightarrow> bool" where
  "wal_row_fits m \<longleftrightarrow> omap_ok m \<and> fits_u32 m \<and> list_all entry_fits m"

lemma stream_decode_value [stream_intros]: "stream decode_value"
  unfolding decode_value_def by (intro stream_intros)

lemma stream_decode_entry [stream_intros]: "stream decode_entry"
  unfolding decode_entry_def by (intro stream_intros)

lemma stream_decode_row [stream_intros]: "stream decode_row"
  unfolding decode_row_def by (intro stream_intros)

lemma decode_encode_value: "value_fits v \<Longrightarrow> decode_value (encode_value v @ r) = Some (v, r)"
  by (cases v) (simp_all add: decode_value_def)

interpretation valc: stream_codec encode_value decode_value value_fits
  by (rule stream_codecI) (simp_all add: decode_encode_value stream_decode_value)

interpretation entryc: stream_codec encode_entry decode_entry entry_fits
  by (rule stream_codecI)
    (auto simp: encode_entry_def decode_entry_def entry_fits_def decode_encode_value stream_decode_entry)

lemma decode_encode_row: "wal_row_fits m \<Longrightarrow> decode_row (encode_row m @ r) = Some (m, r)"
  using entryc.read_n_enc [of m r]
  by (simp add: decode_row_def encode_row_def wal_row_fits_def unat_of_nat_fits_u32 omap_rebuild_emplace)

interpretation rowc: stream_codec encode_row decode_row wal_row_fits
  by (rule stream_codecI) (simp_all add: decode_encode_row stream_decode_row)

interpretation insc: stream_codec wal_encode_insert decode_insert "\<lambda>p. wal_row_fits (ip_row p)"
proof (rule stream_codecI)
  show "stream decode_insert" unfolding decode_insert_def by (intro stream_intros)
qed (simp add: wal_encode_insert_def decode_insert_def decode_encode_row)

interpretation updc: stream_codec wal_encode_update decode_update
    "\<lambda>p. wal_row_fits (up_updates p) \<and> wal_row_fits (up_new_row p)"
proof (rule stream_codecI)
  show "stream decode_update" unfolding decode_update_def by (intro stream_intros)
qed (simp add: wal_encode_update_def decode_update_def decode_encode_row)

interpretation delc: stream_codec wal_encode_delete decode_delete "\<lambda>p. dp_has_xmax p \<or> dp_xmax p = 0"
proof (rule stream_codecI)
  show "stream decode_delete" unfolding decode_delete_def by (intro stream_intros)
qed (auto simp: wal_encode_delete_def decode_delete_def)

text \<open>Column definitions lose their default: the format has no field for it.\<close>

definition without_default :: "ColumnDef \<Rightarrow> ColumnDef" where
  "without_default c = c\<lparr>cd_default := None\<rparr>"

definition column_fits :: "ColumnDef \<Rightarrow> bool" where
  "column_fits c \<longleftrightarrow> fits_u16 (cd_name c) \<and> data_type_ok (cd_type c)"

lemma stream_decode_column [stream_intros]: "stream decode_column"
  unfolding decode_column_def by (intro stream_intros)

lemma decode_encode_column:
  "column_fits c \<Longrightarrow> decode_column (encode_column c @ r) = Some (without_default c, r)"
  by (simp add: decode_column_def encode_column_def column_fits_def without_default_def
      data_type_code_roundtrip)

interpretation colc: stream_codec encode_column decode_column "\<lambda>c. column_fits c \<and> cd_default c = None"
proof (rule stream_codecI)
  show "decode_column (encode_column c @ r) = Some (c, r)" if "column_fits c \<and> cd_default c = None" for c r
    using that decode_encode_column [of c r] by (simp add: without_default_def)
qed (rule stream_decode_column)

lemma encode_without_default: "encode_column (without_default c) = encode_column c"
  by (simp add: encode_column_def without_default_def)

lemma decode_create_table_enc:
  assumes "list_all column_fits cols" "fits_u32 cols"
  shows "decode_create_table (wal_encode_create_table cols @ r) = Some (map without_default cols, r)"
proof -
  have ok: "list_all (\<lambda>c. column_fits c \<and> cd_default c = None) (map without_default cols)"
    using assms(1) by (auto simp: list_all_iff column_fits_def without_default_def)
  have "read_n decode_column (length cols) (concat (map encode_column cols) @ r) = Some (map without_default cols, r)"
    using colc.read_n_enc [OF ok, of r] by (simp add: comp_def encode_without_default)
  then show ?thesis
    using assms(2) by (simp add: decode_create_table_def wal_encode_create_table_def unat_of_nat_fits_u32)
qed

lemma wal_decode_create_table_enc:
  "list_all column_fits cols \<Longrightarrow> fits_u32 cols \<Longrightarrow>
   wal_decode_create_table (wal_encode_create_table cols) = Some (map without_default cols)"
  using decode_create_table_enc [of cols "[]"] by (simp add: wal_decode_create_table_def)

text \<open>Round trips of the whole payloads, as the replay of the engine uses them.\<close>

lemma wal_payload_roundtrips [simp]:
  "wal_row_fits (ip_row p) \<Longrightarrow> wal_decode_insert (wal_encode_insert p) = Some p"
  "wal_row_fits (up_updates q) \<Longrightarrow> wal_row_fits (up_new_row q) \<Longrightarrow> wal_decode_update (wal_encode_update q) = Some q"
  "dp_has_xmax d \<or> dp_xmax d = 0 \<Longrightarrow> wal_decode_delete (wal_encode_delete d) = Some d"
  "fits_u16 s \<Longrightarrow> wal_decode_create_schema (wal_encode_create_schema s) = Some s"
  using insc.at_eof_exact [of p "[]"] updc.at_eof_exact [of q "[]"] delc.at_eof_exact [of d "[]"]
    str16c.at_eof_exact [of s "[]"]
  by (simp_all add: wal_decode_insert_def wal_decode_update_def wal_decode_delete_def
      wal_decode_create_schema_def wal_encode_create_schema_def)

section \<open>Properties\<close>

text \<open>Every insert, update and delete payload whose rows fit the length fields is decoded exactly
  from its bytes, and with any bytes behind it the whole payload is refused.\<close>

theorem payload_roundtrip:
  assumes "wal_row_fits (ip_row p)" "wal_row_fits (up_updates q)" "wal_row_fits (up_new_row q)"
    and "dp_has_xmax d \<or> dp_xmax d = 0"
  shows "wal_decode_insert (wal_encode_insert p @ s) = (if s = [] then Some p else None) \<and>
    wal_decode_update (wal_encode_update q @ s) = (if s = [] then Some q else None) \<and>
    wal_decode_delete (wal_encode_delete d @ s) = (if s = [] then Some d else None)"
  using assms insc.at_eof_exact [of p s] updc.at_eof_exact [of q s] delc.at_eof_exact [of d s]
  by (simp add: wal_decode_insert_def wal_decode_update_def wal_decode_delete_def)

lemma payload_roundtrip_witness:
  "wal_decode_insert (wal_encode_insert \<lparr>ip_rowid = 1, ip_row = [(''a'', VInt 5), (''b'', VString ''x'')]\<rparr> @ [7]) = None"
  using payload_roundtrip [of "\<lparr>ip_rowid = 1, ip_row = [(''a'', VInt 5), (''b'', VString ''x'')]\<rparr>"
      "\<lparr>up_rowid = 1, up_updates = [], up_new_row = []\<rparr>" "\<lparr>dp_rowid = 1, dp_has_xmax = False, dp_xmax = 0\<rparr>" "[7]"]
  by (simp add: wal_row_fits_def omap_ok_def fits_u32_def fits_u16_def entry_fits_def)

text \<open>The log payload of CREATE TABLE loses the column defaults: what replay decodes are the same
  columns, each without its default value.\<close>

theorem create_table_loses_defaults:
  assumes "list_all column_fits cols" "length cols < 2 ^ 32"
  shows "wal_decode_create_table (wal_encode_create_table cols) = Some (map (\<lambda>c. c\<lparr>cd_default := None\<rparr>) cols)"
  using wal_decode_create_table_enc [of cols] assms by (simp add: fits_u32_def without_default_def)

lemma create_table_loses_defaults_witness:
  "wal_decode_create_table (wal_encode_create_table
     [\<lparr>cd_name = ''a'', cd_type = INTEGER, cd_nullable = True, cd_primary_key = False, cd_default = Some (VInt 7)\<rparr>]) =
   Some [\<lparr>cd_name = ''a'', cd_type = INTEGER, cd_nullable = True, cd_primary_key = False, cd_default = None\<rparr>]"
  using create_table_loses_defaults
    [of "[\<lparr>cd_name = ''a'', cd_type = INTEGER, cd_nullable = True, cd_primary_key = False, cd_default = Some (VInt 7)\<rparr>]"]
  by (simp add: column_fits_def fits_u16_def)

end
