(* ===== verification/Json.thy ===== *)
theory Json
  imports Float64
begin

text \<open>
  \<open>common/json.h\<close>: the JSON values of the legacy files and of the AI layer, their accessors, the
  printer and the parser.

  The parser's position \<open>pos\<close> into its text is the unread suffix. Its three mutually recursive
  routines take fuel, which \<open>json_parse\<close> sets above what any text needs (\<open>parse_fuel\<close>), so the
  value \<open>OutOfFuel\<close> never comes out of it. An accessor that would throw
  \<open>std::bad_variant_access\<close> returns \<open>None\<close>.
\<close>

section \<open>Values and accessors\<close>

datatype json = JNull | JBool bool | JInt u64 | JFloat double | JString string | JArray "json list"
  | JObject "(string \<times> json) list"

fun get_bool :: "json \<Rightarrow> bool option" where
  "get_bool (JBool b) = Some b"
| "get_bool _ = None"

fun get_int :: "json \<Rightarrow> u64 option" where
  "get_int (JInt i) = Some i"
| "get_int _ = None"

fun get_string :: "json \<Rightarrow> string option" where
  "get_string (JString s) = Some s"
| "get_string _ = None"

fun j_contains :: "json \<Rightarrow> string \<Rightarrow> bool" where
  "j_contains (JObject m) k = (map_of m k \<noteq> None)"
| "j_contains _ k = False"

text \<open>The \<open>const\<close> form of \<open>operator[]\<close>\<close>

fun j_at :: "json \<Rightarrow> string \<Rightarrow> json" where
  "j_at (JObject m) k = (case map_of m k of None \<Rightarrow> JNull | Some v \<Rightarrow> v)"
| "j_at _ k = JNull"

text \<open>\<open>j[k] = v\<close>: anything that is not an object becomes one.\<close>

fun j_set :: "string \<Rightarrow> json \<Rightarrow> json \<Rightarrow> json" where
  "j_set k v (JObject m) = JObject (omap_put k v m)"
| "j_set k v _ = JObject (omap_put k v [])"

fun j_push_back :: "json \<Rightarrow> json \<Rightarrow> json" where
  "j_push_back v (JArray xs) = JArray (xs @ [v])"
| "j_push_back v _ = JArray [v]"

definition value_string :: "json \<Rightarrow> string \<Rightarrow> string \<Rightarrow> string" where
  "value_string j k d = (case j_at j k of JString s \<Rightarrow> s | _ \<Rightarrow> d)"

definition value_int :: "json \<Rightarrow> string \<Rightarrow> u64 \<Rightarrow> u64" where
  "value_int j k d = (case j_at j k of JInt i \<Rightarrow> i | _ \<Rightarrow> d)"

definition value_double :: "json \<Rightarrow> string \<Rightarrow> double \<Rightarrow> double" where
  "value_double j k d = (case j_at j k of JFloat x \<Rightarrow> x | JInt i \<Rightarrow> f_of_int (sint i) | _ \<Rightarrow> d)"

definition value_bool :: "json \<Rightarrow> string \<Rightarrow> bool \<Rightarrow> bool" where
  "value_bool j k d = (case j_at j k of JBool b \<Rightarrow> b | _ \<Rightarrow> d)"

text \<open>The ranges \<open>begin .. end\<close> and \<open>obj_begin .. obj_end\<close>\<close>

fun j_elements :: "json \<Rightarrow> json list" where
  "j_elements (JArray xs) = xs"
| "j_elements _ = []"

fun j_members :: "json \<Rightarrow> (string \<times> json) list" where
  "j_members (JObject m) = m"
| "j_members _ = []"

section \<open>The printer\<close>

text \<open>\<open>ss << d\<close>: the \<open>%g\<close> format with six significant digits.\<close>

definition decimal_exponent :: "nat \<Rightarrow> nat \<Rightarrow> int" where
  "decimal_exponent n d =
     (if d \<le> n then int (length (nat_to_string (n div d))) - 1
      else let l = length (nat_to_string (d div n)) in
        if d \<le> n * 10 ^ (l - 1) then - int (l - 1) else - int l)"

definition strip_zeros :: "string \<Rightarrow> string" where
  "strip_zeros s = rev (dropWhile (\<lambda>c. c = CHR ''0'') (rev s))"

definition with_point :: "string \<Rightarrow> string \<Rightarrow> string" where
  "with_point ip fp = (let fp = strip_zeros fp in if fp = [] then ip else ip @ ''.'' @ fp)"

definition f_to_g_pos :: "nat \<Rightarrow> nat \<Rightarrow> string" where
  "f_to_g_pos n d =
     (let x = decimal_exponent n d;
          q = (if x \<le> 5 then div_half_even (n * 10 ^ nat (5 - x)) d else div_half_even n (d * 10 ^ nat (x - 5)));
          q' = (if q = 10 ^ 6 then 10 ^ 5 else q); x' = (if q = 10 ^ 6 then x + 1 else x);
          ds = nat_to_string q'
      in if 0 \<le> x' \<and> x' < 6 then with_point (take (nat x' + 1) ds) (drop (nat x' + 1) ds)
         else if - 4 \<le> x' \<and> x' < 0 then with_point ''0'' (replicate (nat (- x') - 1) (CHR ''0'') @ ds)
         else with_point (take 1 ds) (drop 1 ds) @ ''e'' @ (if x' < 0 then ''-'' else ''+'') @
              pad_left 2 (nat_to_string (nat \<bar>x'\<bar>)))"

definition f_to_g :: "double \<Rightarrow> string" where
  "f_to_g d = (if f_sign d then ''-'' else '''') @
     (if f_nan d then ''nan'' else if f_inf d then ''inf''
      else if f_mag d = 0 then ''0''
      else let (m, e) = f_parts (f_mag d) in f_to_g_pos (m * 2 ^ e) (2 ^ 1074))"

definition f_integral :: "double \<Rightarrow> bool" where
  "f_integral d \<longleftrightarrow> \<not> f_nan d \<and> \<not> f_inf d \<and> (let (m, e) = f_parts (f_mag d) in 2 ^ 1074 dvd m * 2 ^ e)"

definition escape_char :: "char \<Rightarrow> string" where
  "escape_char c =
     (if c = CHR 0x22 then [CHR 0x5C, CHR 0x22]
      else if c = CHR 0x5C then [CHR 0x5C, CHR 0x5C]
      else if c = CHR 0x0A then [CHR 0x5C, CHR ''n'']
      else if c = CHR 0x09 then [CHR 0x5C, CHR ''t'']
      else [c])"

definition j_newline :: "nat \<Rightarrow> nat \<Rightarrow> string" where
  "j_newline indent level = (if indent = 0 then [] else CHR 0x0A # replicate (level * indent) (CHR '' ''))"

text \<open>The separator before the element at the given position.\<close>

definition j_comma :: "bool \<Rightarrow> string" where
  "j_comma is_first = (if is_first then [] else [CHR '','' ])"

fun serialize :: "nat \<Rightarrow> nat \<Rightarrow> json \<Rightarrow> string"
  and ser_elements :: "nat \<Rightarrow> nat \<Rightarrow> bool \<Rightarrow> json list \<Rightarrow> string"
  and ser_members :: "nat \<Rightarrow> nat \<Rightarrow> bool \<Rightarrow> (string \<times> json) list \<Rightarrow> string" where
  "serialize indent level JNull = ''null''"
| "serialize indent level (JBool b) = (if b then ''true'' else ''false'')"
| "serialize indent level (JInt i) = int_to_string (sint i)"
| "serialize indent level (JFloat d) =
     (if f_integral d then int_to_string (sint (f_to_int64 d)) @ ''.0'' else f_to_g d)"
| "serialize indent level (JString s) = [CHR 0x22] @ concat (map escape_char s) @ [CHR 0x22]"
| "serialize indent level (JArray xs) = ''['' @ ser_elements indent level True xs @
     (if xs = [] then [] else j_newline indent level) @ '']''"
| "serialize indent level (JObject m) = [CHR 0x7B] @ ser_members indent level True m @
     (if m = [] then [] else j_newline indent level) @ [CHR 0x7D]"
| "ser_elements indent level is_first [] = []"
| "ser_elements indent level is_first (x # xs) = j_comma is_first @ j_newline indent (level + 1) @
     serialize indent (level + 1) x @ ser_elements indent level False xs"
| "ser_members indent level is_first [] = []"
| "ser_members indent level is_first ((k, v) # m) = j_comma is_first @ j_newline indent (level + 1) @
     [CHR 0x22] @ k @ [CHR 0x22, CHR '':''] @ (if indent = 0 then [] else '' '') @
     serialize indent (level + 1) v @ ser_members indent level False m"

definition dump :: "json \<Rightarrow> nat \<Rightarrow> string" where
  "dump j indent = serialize indent 0 j"

section \<open>The parser\<close>

datatype json_error = UnexpectedEnd | UnexpectedChar char | InvalidBool | InvalidNull
  | UnterminatedObject | ExpectedKey | ExpectedColon | NumberE num_error | OutOfFuel

definition is_ws :: "char \<Rightarrow> bool" where
  "is_ws c \<longleftrightarrow> c = CHR '' '' \<or> c = CHR 0x09 \<or> c = CHR 0x0A \<or> c = CHR 0x0D"

definition skip_ws :: "string \<Rightarrow> string" where
  "skip_ws s = dropWhile is_ws s"

definition unescape_char :: "char \<Rightarrow> char" where
  "unescape_char c = (if c = CHR ''n'' then CHR 0x0A else if c = CHR ''t'' then CHR 0x09
     else if c = CHR ''r'' then CHR 0x0D else c)"

text \<open>From behind the opening quote to behind the closing one.\<close>

fun parse_string :: "string \<Rightarrow> string \<times> string" where
  "parse_string [] = ([], [])"
| "parse_string (c # s) =
     (if c = CHR 0x22 then ([], s)
      else if c = CHR 0x5C then (case s of [] \<Rightarrow> ([], [])
        | d # s \<Rightarrow> (let (r, s) = parse_string s in (unescape_char d # r, s)))
      else (let (r, s) = parse_string s in (c # r, s)))"

definition starts_with :: "char \<Rightarrow> string \<Rightarrow> bool" where
  "starts_with c s \<longleftrightarrow> s \<noteq> [] \<and> hd s = c"

definition scan_number :: "string \<Rightarrow> string \<times> bool \<times> string" where
  "scan_number s =
     (let sg = (if starts_with (CHR ''-'') s then ''-'' else ''''); s = drop (length sg) s;
          ip = takeWhile is_digit s; s = dropWhile is_digit s;
          fp = (if starts_with (CHR ''.'') s then CHR ''.'' # takeWhile is_digit (drop 1 s) else '''');
          s = drop (length fp) s;
          e = (if starts_with (CHR ''e'') s \<or> starts_with (CHR ''E'') s then
                 (let t = drop 1 s; es = (if starts_with (CHR ''+'') t \<or> starts_with (CHR ''-'') t then take 1 t else '''')
                  in take 1 s @ es @ takeWhile is_digit (drop (length es) t))
               else '''')
      in (sg @ ip @ fp @ e, fp \<noteq> [] \<or> e \<noteq> [], drop (length e) s))"

definition parse_number :: "string \<Rightarrow> json_error + (json \<times> string)" where
  "parse_number s =
     (let (num, is_float, rest) = scan_number s in
      if is_float then (case stod num of Inl e \<Rightarrow> Inl (NumberE e) | Inr d \<Rightarrow> Inr (JFloat d, rest))
      else (case stoll num of Inl e \<Rightarrow> Inl (NumberE e) | Inr i \<Rightarrow> Inr (JInt i, rest)))"

definition parse_bool :: "string \<Rightarrow> json_error + (json \<times> string)" where
  "parse_bool s = (if take 4 s = ''true'' then Inr (JBool True, drop 4 s)
     else if take 5 s = ''false'' then Inr (JBool False, drop 5 s) else Inl InvalidBool)"

definition parse_null :: "string \<Rightarrow> json_error + (json \<times> string)" where
  "parse_null s = (if take 4 s = ''null'' then Inr (JNull, drop 4 s) else Inl InvalidNull)"

fun parse_value :: "nat \<Rightarrow> string \<Rightarrow> json_error + (json \<times> string)"
  and parse_members :: "nat \<Rightarrow> string \<Rightarrow> (string \<times> json) list \<Rightarrow> json_error + (json \<times> string)"
  and parse_elements :: "nat \<Rightarrow> string \<Rightarrow> json list \<Rightarrow> json_error + (json \<times> string)" where
  "parse_value 0 s = Inl OutOfFuel"
| "parse_value (Suc n) s = (case skip_ws s of
     [] \<Rightarrow> Inl UnexpectedEnd
   | c # t \<Rightarrow>
       if c = CHR 0x22 then (let (r, t) = parse_string t in Inr (JString r, t))
       else if c = CHR 0x7B then
         (let t = skip_ws t in if starts_with (CHR 0x7D) t then Inr (JObject [], drop 1 t) else parse_members n t [])
       else if c = CHR ''['' then
         (let t = skip_ws t in if starts_with (CHR '']'') t then Inr (JArray [], drop 1 t) else parse_elements n t [])
       else if c = CHR ''t'' \<or> c = CHR ''f'' then parse_bool (c # t)
       else if c = CHR ''n'' then parse_null (c # t)
       else if c = CHR ''-'' \<or> is_digit c then parse_number (c # t)
       else Inl (UnexpectedChar c))"
| "parse_members 0 s obj = Inl OutOfFuel"
| "parse_members (Suc n) s obj = (case skip_ws s of
     [] \<Rightarrow> Inl UnterminatedObject
   | c # t \<Rightarrow>
       if c = CHR 0x7D then Inr (JObject obj, t)
       else if c \<noteq> CHR 0x22 then Inl ExpectedKey
       else (let (key, t) = parse_string t; t = skip_ws t in
         if \<not> starts_with (CHR '':'') t then Inl ExpectedColon
         else (case parse_value n (skip_ws (drop 1 t)) of
             Inl e \<Rightarrow> Inl e
           | Inr (v, t) \<Rightarrow>
               (let obj = omap_put key v obj; t = skip_ws t in
                if starts_with (CHR '','') t then parse_members n (drop 1 t) obj
                else if starts_with (CHR 0x7D) t then Inr (JObject obj, drop 1 t)
                else Inr (JObject obj, t)))))"
| "parse_elements 0 s arr = Inl OutOfFuel"
| "parse_elements (Suc n) s arr = (case parse_value n s of
     Inl e \<Rightarrow> Inl e
   | Inr (v, t) \<Rightarrow>
       (let arr = arr @ [v]; t = skip_ws t in
        if starts_with (CHR '','') t then parse_elements n (drop 1 t) arr
        else if starts_with (CHR '']'') t then Inr (JArray arr, drop 1 t)
        else Inr (JArray arr, t)))"

definition parse_fuel :: "string \<Rightarrow> nat" where
  "parse_fuel s = 2 * length s + 2"

text \<open>What follows the first value is ignored.\<close>

definition json_parse :: "string \<Rightarrow> json_error + json" where
  "json_parse s = bindE (parse_value (parse_fuel s) s) (\<lambda>(j, _). Inr j)"

section \<open>The parser returns\<close>

lemma length_skip_ws: "length (skip_ws s) \<le> length s"
  by (simp add: skip_ws_def length_dropWhile_le)

lemma length_parse_string: "length (snd (parse_string s)) \<le> length s"
proof (induction s rule: parse_string.induct)
  case (2 c s)
  then show ?case by (cases s) (simp_all add: case_prod_beta le_SucI)
qed simp

lemma length_scan_number:
  assumes "c = CHR ''-'' \<or> is_digit c"
  shows "length (snd (snd (scan_number (c # s)))) \<le> length s"
proof -
  have "length (snd (snd (scan_number (c # s)))) \<le>
      length (dropWhile is_digit (drop (length (if starts_with (CHR ''-'') (c # s) then ''-'' else '''')) (c # s)))"
    by (simp only: scan_number_def Let_def snd_conv length_drop)
  also have "\<dots> \<le> length s"
    using assms length_dropWhile_le [of is_digit s] by (auto simp: starts_with_def)
  finally show ?thesis .
qed

lemma length_parse_number:
  "parse_number (c # s) = Inr (v, t) \<Longrightarrow> c = CHR ''-'' \<or> is_digit c \<Longrightarrow> length t \<le> length s"
  using length_scan_number [of c s] by (simp add: parse_number_def case_prod_beta Let_def split: if_splits sum.splits)

lemma length_parse_bool: "parse_bool (c # s) = Inr (v, t) \<Longrightarrow> length t \<le> length s"
  by (auto simp: parse_bool_def split: if_splits)

lemma length_parse_null: "parse_null (c # s) = Inr (v, t) \<Longrightarrow> length t \<le> length s"
  by (auto simp: parse_null_def split: if_splits)

text \<open>Every routine consumes a character before it succeeds, so the fuel suffices.\<close>

lemma parse_value_Cons:
  assumes "skip_ws s = c # t"
  shows "parse_value (Suc n) s =
    (if c = CHR 0x22 then Inr (JString (fst (parse_string t)), snd (parse_string t))
     else if c = CHR 0x7B then
       (if starts_with (CHR 0x7D) (skip_ws t) then Inr (JObject [], drop 1 (skip_ws t)) else parse_members n (skip_ws t) [])
     else if c = CHR ''['' then
       (if starts_with (CHR '']'') (skip_ws t) then Inr (JArray [], drop 1 (skip_ws t)) else parse_elements n (skip_ws t) [])
     else if c = CHR ''t'' \<or> c = CHR ''f'' then parse_bool (c # t)
     else if c = CHR ''n'' then parse_null (c # t)
     else if c = CHR ''-'' \<or> is_digit c then parse_number (c # t)
     else Inl (UnexpectedChar c))"
  using assms by (simp add: case_prod_beta Let_def)

lemma parse_value_Nil: "skip_ws s = [] \<Longrightarrow> parse_value (Suc n) s = Inl UnexpectedEnd"
  by simp

declare parse_value.simps(2) [simp del]

lemma parse_value_shorter:
  assumes "parse_value (Suc n) s = Inr (v, t)"
    and "\<And>u. parse_members n u [] = Inr (v, t) \<Longrightarrow> length t \<le> length u"
    and "\<And>u. parse_elements n u [] = Inr (v, t) \<Longrightarrow> length t \<le> length u"
  shows "length t < length s"
proof (cases "skip_ws s")
  case Nil
  with assms(1) show ?thesis by (simp add: parse_value_Nil)
next
  case (Cons c u)
  note e = assms(1) [unfolded parse_value_Cons [OF Cons]]
  have le: "length (skip_ws u) \<le> length u" "length (snd (parse_string u)) \<le> length u"
    using length_skip_ws length_parse_string by auto
  have "t = snd (parse_string u) \<or> t = drop 1 (skip_ws u) \<or> parse_members n (skip_ws u) [] = Inr (v, t) \<or>
      parse_elements n (skip_ws u) [] = Inr (v, t) \<or> parse_bool (c # u) = Inr (v, t) \<or>
      parse_null (c # u) = Inr (v, t) \<or> (parse_number (c # u) = Inr (v, t) \<and> (c = CHR ''-'' \<or> is_digit c))"
    using e by (simp split: if_split_asm)
  then have "length t \<le> length u"
    using le assms(2,3) [of "skip_ws u"] length_parse_bool [of c u v t] length_parse_null [of c u v t]
      length_parse_number [of c u v t] by (elim disjE) force+
  with Cons length_skip_ws [of s] show ?thesis by simp
qed

lemma parse_members_step:
  "parse_members (Suc n) s obj = (case skip_ws s of
     [] \<Rightarrow> Inl UnterminatedObject
   | c # t \<Rightarrow>
       if c = CHR 0x7D then Inr (JObject obj, t)
       else if c \<noteq> CHR 0x22 then Inl ExpectedKey
       else let u = skip_ws (snd (parse_string t)) in
         if \<not> starts_with (CHR '':'') u then Inl ExpectedColon
         else (case parse_value n (skip_ws (drop 1 u)) of
             Inl e \<Rightarrow> Inl e
           | Inr r \<Rightarrow>
               let obj = omap_put (fst (parse_string t)) (fst r) obj; w = skip_ws (snd r) in
                if starts_with (CHR '','') w then parse_members n (drop 1 w) obj
                else if starts_with (CHR 0x7D) w then Inr (JObject obj, drop 1 w)
                else Inr (JObject obj, w)))"
  by (simp add: case_prod_beta Let_def split: list.split sum.split)

lemma parse_elements_step:
  "parse_elements (Suc n) s arr = (case parse_value n s of
     Inl e \<Rightarrow> Inl e
   | Inr r \<Rightarrow>
       let arr = arr @ [fst r]; w = skip_ws (snd r) in
        if starts_with (CHR '','') w then parse_elements n (drop 1 w) arr
        else if starts_with (CHR '']'') w then Inr (JArray arr, drop 1 w)
        else Inr (JArray arr, w))"
  by (simp add: case_prod_beta Let_def split: sum.split)

declare parse_members.simps(2) [simp del] parse_elements.simps(2) [simp del]

lemma parse_members_shorter:
  assumes "parse_members (Suc n) s obj = Inr (v, t)"
    and vle: "\<And>u v t. parse_value n u = Inr (v, t) \<Longrightarrow> length t \<le> length u"
    and more: "\<And>u obj. parse_members n u obj = Inr (v, t) \<Longrightarrow> length t \<le> length u"
  shows "length t < length s"
proof (cases "skip_ws s")
  case Nil
  with assms(1) show ?thesis by (simp add: parse_members_step)
next
  case (Cons c u)
  have "length t \<le> length u"
  proof (cases "c = CHR 0x7D")
    case True
    with Cons assms(1) show ?thesis by (simp add: parse_members_step)
  next
    case False
    define w where "w = skip_ws (drop 1 (skip_ws (snd (parse_string u))))"
    obtain r where r: "parse_value n w = Inr r" and t: "t = drop 1 (skip_ws (snd r)) \<or> t = skip_ws (snd r) \<or>
        (\<exists>obj. parse_members n (drop 1 (skip_ws (snd r))) obj = Inr (v, t))"
      using assms(1) Cons False by (auto simp: parse_members_step Let_def w_def split: if_split_asm sum.split_asm)
    have "length (snd r) \<le> length w" using vle [of w "fst r" "snd r"] r by simp
    moreover have "length w \<le> length u"
      using length_skip_ws [of "drop 1 (skip_ws (snd (parse_string u)))"] length_skip_ws [of "snd (parse_string u)"]
        length_parse_string [of u] by (simp add: w_def)
    ultimately have le: "length (skip_ws (snd r)) \<le> length u" using length_skip_ws [of "snd r"] by simp
    from t show ?thesis
    proof (elim disjE exE)
      fix obj
      assume "parse_members n (drop 1 (skip_ws (snd r))) obj = Inr (v, t)"
      from more [OF this] le show ?thesis by simp
    qed (use le in simp_all)
  qed
  with Cons length_skip_ws [of s] show ?thesis by simp
qed

lemma parse_elements_shorter:
  assumes "parse_elements (Suc n) s arr = Inr (v, t)"
    and vle: "\<And>u v t. parse_value n u = Inr (v, t) \<Longrightarrow> length t < length u"
    and more: "\<And>u arr. parse_elements n u arr = Inr (v, t) \<Longrightarrow> length t \<le> length u"
  shows "length t < length s"
proof -
  obtain r where r: "parse_value n s = Inr r" and t: "t = drop 1 (skip_ws (snd r)) \<or> t = skip_ws (snd r) \<or>
      (\<exists>arr. parse_elements n (drop 1 (skip_ws (snd r))) arr = Inr (v, t))"
    using assms(1) by (auto simp: parse_elements_step Let_def split: if_split_asm sum.split_asm)
  have le: "length (skip_ws (snd r)) < length s"
    using vle [of s "fst r" "snd r"] r length_skip_ws [of "snd r"] by simp
  from t show ?thesis
  proof (elim disjE exE)
    fix arr
    assume "parse_elements n (drop 1 (skip_ws (snd r))) arr = Inr (v, t)"
    from more [OF this] le show ?thesis by simp
  qed (use le in simp_all)
qed

lemma parse_shorter:
  "(\<forall>s v t. parse_value n s = Inr (v, t) \<longrightarrow> length t < length s) \<and>
   (\<forall>s obj v t. parse_members n s obj = Inr (v, t) \<longrightarrow> length t < length s) \<and>
   (\<forall>s arr v t. parse_elements n s arr = Inr (v, t) \<longrightarrow> length t < length s)"
proof (induction n)
  case (Suc n)
  then have 1: "parse_value n s = Inr (v, t) \<Longrightarrow> length t < length s"
    and 2: "parse_members n s obj = Inr (v, t) \<Longrightarrow> length t < length s"
    and 3: "parse_elements n s arr = Inr (v, t) \<Longrightarrow> length t < length s" for s v t obj arr
    by blast+
  show ?case
    using parse_value_shorter [of n] parse_members_shorter [of n] parse_elements_shorter [of n] 1 2 3
    by (meson less_imp_le)
qed simp

lemma no_fuel_error:
  "parse_bool s \<noteq> Inl OutOfFuel" "parse_null s \<noteq> Inl OutOfFuel" "parse_number s \<noteq> Inl OutOfFuel"
  by (auto simp: parse_bool_def parse_null_def parse_number_def split: prod.splits sum.splits if_splits)

lemma enough_fuel:
  "(\<forall>s. 2 * length s + 1 \<le> n \<longrightarrow> parse_value n s \<noteq> Inl OutOfFuel) \<and>
   (\<forall>s obj. 2 * length s + 2 \<le> n \<longrightarrow> parse_members n s obj \<noteq> Inl OutOfFuel) \<and>
   (\<forall>s arr. 2 * length s + 2 \<le> n \<longrightarrow> parse_elements n s arr \<noteq> Inl OutOfFuel)"
proof (induction n)
  case (Suc n)
  have vals: "parse_value (Suc n) s \<noteq> Inl OutOfFuel" if b: "2 * length s + 1 \<le> Suc n" for s
  proof (cases "skip_ws s")
    case (Cons c t)
    then have "2 * length (skip_ws t) + 2 \<le> n" using b length_skip_ws [of s] length_skip_ws [of t] by simp
    with Suc show ?thesis unfolding parse_value_Cons [OF Cons] by (simp add: no_fuel_error)
  qed (simp add: parse_value_Nil)
  have members: "parse_members (Suc n) s obj \<noteq> Inl OutOfFuel" if b: "2 * length s + 2 \<le> Suc n" for s obj
  proof (cases "skip_ws s")
    case (Cons c t)
    define w where "w = skip_ws (drop 1 (skip_ws (snd (parse_string t))))"
    have w: "length w \<le> length t"
      using length_skip_ws [of "drop 1 (skip_ws (snd (parse_string t)))"] length_skip_ws [of "snd (parse_string t)"]
        length_parse_string [of t] by (simp add: w_def)
    then have "2 * length w + 1 \<le> n" using b Cons length_skip_ws [of s] by simp
    then have "parse_value n w \<noteq> Inl OutOfFuel" using Suc by blast
    moreover have "parse_members n (drop 1 (skip_ws (snd r))) obj' \<noteq> Inl OutOfFuel" if "parse_value n w = Inr r" for r obj'
    proof -
      have "length (snd r) < length w" using parse_shorter [of n] that by (metis prod.collapse)
      then have "2 * length (drop 1 (skip_ws (snd r))) + 2 \<le> n"
        using w b Cons length_skip_ws [of s] length_skip_ws [of "snd r"] by simp
      with Suc show ?thesis by blast
    qed
    ultimately show ?thesis
      using Cons by (auto simp: parse_members_step Let_def w_def split: sum.split)
  qed (simp add: parse_members_step)
  have elements: "parse_elements (Suc n) s arr \<noteq> Inl OutOfFuel" if b: "2 * length s + 2 \<le> Suc n" for s arr
  proof -
    have "parse_value n s \<noteq> Inl OutOfFuel" using b Suc by simp
    moreover have "parse_elements n (drop 1 (skip_ws (snd r))) arr' \<noteq> Inl OutOfFuel" if "parse_value n s = Inr r" for r arr'
    proof -
      have "length (snd r) < length s" using parse_shorter [of n] that by (metis prod.collapse)
      then have "2 * length (drop 1 (skip_ws (snd r))) + 2 \<le> n \<or> drop 1 (skip_ws (snd r)) = []"
        using b length_skip_ws [of "snd r"] by auto
      moreover have "2 \<le> n" using b \<open>length (snd r) < length s\<close> by simp
      ultimately show ?thesis using Suc by fastforce
    qed
    ultimately show ?thesis by (auto simp: parse_elements_step Let_def split: sum.split)
  qed
  show ?case using vals members elements by blast
qed simp

lemma parse_returns: "json_parse s \<noteq> Inl OutOfFuel"
  using enough_fuel [of "parse_fuel s"] by (auto simp: json_parse_def parse_fuel_def bindE_Inl)

section \<open>Round trip\<close>

text \<open>
  The printer does not escape the keys of an object and prints floating-point numbers with six
  digits; the values below have neither problem.
\<close>

definition plain_key :: "string \<Rightarrow> bool" where
  "plain_key k \<longleftrightarrow> CHR 0x22 \<notin> set k \<and> CHR 0x5C \<notin> set k"

fun json_plain :: "json \<Rightarrow> bool" where
  "json_plain (JFloat d) = False"
| "json_plain (JArray xs) = list_all json_plain xs"
| "json_plain (JObject m) = (omap_ok m \<and> list_all (\<lambda>(k, v). plain_key k \<and> json_plain v) m)"
| "json_plain _ = True"

definition value_end :: "string \<Rightarrow> bool" where
  "value_end r \<longleftrightarrow> r = [] \<or> hd r = CHR '','' \<or> hd r = CHR '']'' \<or> hd r = CHR 0x7D"

lemma parse_string_escape: "parse_string (concat (map escape_char s) @ CHR 0x22 # r) = (s, r)"
  by (induction s) (simp_all add: escape_char_def unescape_char_def)

lemma parse_string_plain: "plain_key k \<Longrightarrow> parse_string (k @ CHR 0x22 # r) = (k, r)"
  by (induction k) (auto simp: plain_key_def)

lemma value_end_not_digit: "value_end r \<Longrightarrow> takeWhile is_digit r = [] \<and> dropWhile is_digit r = r"
  by (cases r) (auto simp: value_end_def is_digit_def)

lemma scan_number_digits:
  assumes "value_end r" "\<forall>c \<in> set ds. is_digit c" "ds \<noteq> []"
  shows "scan_number (ds @ r) = (ds, False, r)" "scan_number (CHR ''-'' # ds @ r) = (CHR ''-'' # ds, False, r)"
proof -
  have tw: "takeWhile is_digit (ds @ r) = ds" "dropWhile is_digit (ds @ r) = r"
    using assms(2) value_end_not_digit [OF assms(1)]
    by (simp_all add: takeWhile_append2 dropWhile_append2)
  have hd_digit: "is_digit (hd ds)" using assms(2,3) by simp
  then have "hd ds \<noteq> CHR ''-''" by (auto simp: is_digit_def)
  then have sg: "\<not> starts_with (CHR ''-'') (ds @ r)" using assms(3) by (simp add: starts_with_def hd_append)
  have st: "\<not> starts_with (CHR ''.'') r" "\<not> starts_with (CHR ''e'') r" "\<not> starts_with (CHR ''E'') r"
    using assms(1) by (auto simp: starts_with_def value_end_def)
  show "scan_number (ds @ r) = (ds, False, r)"
    using tw st sg by (simp add: scan_number_def Let_def cong: let_weak_cong)
  show "scan_number (CHR ''-'' # ds @ r) = (CHR ''-'' # ds, False, r)"
    using tw st by (simp add: scan_number_def Let_def starts_with_def [of _ "_ # _"] cong: let_weak_cong)
qed

lemma scan_number_int: "value_end r \<Longrightarrow> scan_number (int_to_string i @ r) = (int_to_string i, False, r)"
  using scan_number_digits [of r "nat_to_string (nat \<bar>i\<bar>)"] nat_to_string_digits
  by (cases "i < 0") (auto simp: int_to_string_def)

lemma parse_number_int:
  assumes "value_end r"
  shows "parse_number (int_to_string (sint i) @ r) = Inr (JInt i, r)"
proof -
  have "- (2 ^ 63) \<le> sint i" "sint i < 2 ^ 63"
    using sint_greater_eq [of i] sint_less [of i] by simp_all
  with assms show ?thesis by (simp add: parse_number_def scan_number_int stoll_int_to_string)
qed

lemma int_to_string_head: "\<exists>c s. int_to_string i = c # s \<and> (c = CHR ''-'' \<or> is_digit c)"
proof (cases "i < 0")
  case False
  obtain c s where "nat_to_string (nat i) = c # s" by (cases "nat_to_string (nat i)") auto
  moreover from this have "is_digit c" using nat_to_string_digits [of c "nat i"] by simp
  ultimately show ?thesis using False by (simp add: int_to_string_def)
qed (simp add: int_to_string_def)

lemma digit_head: "c = CHR ''-'' \<or> is_digit c \<Longrightarrow>
    \<not> is_ws c \<and> c \<noteq> CHR '']'' \<and> c \<noteq> CHR 0x7D \<and> c \<noteq> CHR 0x22 \<and> c \<noteq> CHR 0x7B \<and> c \<noteq> CHR ''['' \<and>
    c \<noteq> CHR ''t'' \<and> c \<noteq> CHR ''f'' \<and> c \<noteq> CHR ''n''"
  by (auto simp: is_ws_def is_digit_def)

lemma serialize_head:
  "json_plain j \<Longrightarrow> \<exists>c s. serialize 0 l j = c # s \<and> \<not> is_ws c \<and> c \<noteq> CHR '']''"
proof (cases j)
  case (JInt i)
  then show ?thesis using int_to_string_head [of "sint i"] digit_head by fastforce
qed (simp_all add: is_ws_def)

lemma skip_ws_head: "\<not> is_ws c \<Longrightarrow> skip_ws (c # s) = c # s"
  by (simp add: skip_ws_def)

lemma skip_ws_serialize: "json_plain j \<Longrightarrow> skip_ws (serialize 0 l j @ r) = serialize 0 l j @ r"
  using serialize_head [of j l] skip_ws_head by fastforce

lemma ser_elements_tail: "ser_elements 0 l False xs = (if xs = [] then [] else CHR '','' # ser_elements 0 l True xs)"
  by (cases xs) (simp_all add: j_comma_def)

lemma ser_members_tail: "ser_members 0 l False m = (if m = [] then [] else CHR '','' # ser_members 0 l True m)"
proof (cases m)
  case (Cons p m')
  then show ?thesis by (cases p) (simp add: j_comma_def)
qed simp

lemma not_ws: "\<not> is_ws (CHR '','')" "\<not> is_ws (CHR '']'')" "\<not> is_ws (CHR 0x7D)" "\<not> is_ws (CHR 0x22)" "\<not> is_ws (CHR '':'')"
  by (simp_all add: is_ws_def)

lemma parse_elements_ser:
  assumes "\<And>x r k. x \<in> set xs \<Longrightarrow> value_end r \<Longrightarrow> 2 * length (serialize 0 l x) + 1 \<le> k \<Longrightarrow>
      parse_value k (serialize 0 l x @ r) = Inr (x, r)"
    and "xs \<noteq> []" "2 * length (ser_elements 0 l' True xs) + 2 \<le> n" "l = l' + 1"
  shows "parse_elements n (ser_elements 0 l' True xs @ CHR '']'' # r) arr = Inr (JArray (arr @ xs), r)"
  using assms(1,2,3)
proof (induction xs arbitrary: n arr)
  case (Cons x xs)
  then obtain k where n: "n = Suc k" by (cases n) auto
  have ser: "ser_elements 0 l' True (x # xs) = serialize 0 l x @ ser_elements 0 l' False xs"
    using assms(4) by (simp add: j_comma_def j_newline_def)
  have len: "2 * length (serialize 0 l x) + 2 * length (ser_elements 0 l' False xs) + 1 \<le> k"
    using Cons.prems(3) n unfolding ser by simp
  have val: "parse_value k (serialize 0 l x @ ser_elements 0 l' False xs @ CHR '']'' # r) =
      Inr (x, ser_elements 0 l' False xs @ CHR '']'' # r)"
    using Cons.prems(1) [of x _ k] len by (simp add: value_end_def ser_elements_tail)
  show ?case
  proof (cases "xs = []")
    case True
    with val n ser show ?thesis
      by (simp add: parse_elements_step Let_def skip_ws_head not_ws starts_with_def)
  next
    case False
    then have "parse_elements k (ser_elements 0 l' True xs @ CHR '']'' # r) (arr @ [x]) = Inr (JArray ((arr @ [x]) @ xs), r)"
      using len Cons.prems(1) by (intro Cons.IH) (auto simp: ser_elements_tail)
    with val n False assms(4) show ?thesis
      by (simp add: parse_elements_step Let_def skip_ws_head not_ws starts_with_def ser_elements_tail
          j_comma_def j_newline_def)
  qed
qed simp

lemma parse_members_ser:
  assumes "\<And>p r k. p \<in> set m \<Longrightarrow> value_end r \<Longrightarrow> 2 * length (serialize 0 l (snd p)) + 1 \<le> k \<Longrightarrow>
      parse_value k (serialize 0 l (snd p) @ r) = Inr (snd p, r)"
    and "m \<noteq> []" "2 * length (ser_members 0 l' True m) + 2 \<le> n" "l = l' + 1"
    and "list_all (\<lambda>(k, v). plain_key k \<and> json_plain v) m"
  shows "parse_members n (ser_members 0 l' True m @ CHR 0x7D # r) obj =
    Inr (JObject (fold (\<lambda>(k, v). omap_put k v) m obj), r)"
  using assms(1,2,3,5)
proof (induction m arbitrary: n obj)
  case (Cons p m)
  then obtain f where n: "n = Suc f" by (cases n) auto
  obtain k v where p: "p = (k, v)" by (cases p)
  have ser: "ser_members 0 l' True (p # m) = CHR 0x22 # k @ CHR 0x22 # CHR '':'' # serialize 0 l v @ ser_members 0 l' False m"
    using assms(4) p by (simp add: j_comma_def j_newline_def)
  have plain: "plain_key k" "json_plain v" using Cons.prems(4) p by simp_all
  have len: "2 * length (serialize 0 l v) + 2 * length (ser_members 0 l' False m) + 1 \<le> f"
    using Cons.prems(3) n unfolding ser by simp
  have val: "parse_value f (serialize 0 l v @ ser_members 0 l' False m @ CHR 0x7D # r) =
      Inr (v, ser_members 0 l' False m @ CHR 0x7D # r)"
    using Cons.prems(1) [of p _ f] len p by (simp add: value_end_def ser_members_tail)
  show ?case
  proof (cases "m = []")
    case True
    with val n ser p plain show ?thesis
      by (simp add: parse_members_step Let_def skip_ws_head not_ws starts_with_def parse_string_plain skip_ws_serialize)
  next
    case False
    then have "parse_members f (ser_members 0 l' True m @ CHR 0x7D # r) (omap_put k v obj) =
        Inr (JObject (fold (\<lambda>(k, v). omap_put k v) m (omap_put k v obj)), r)"
      using len Cons.prems(1,4) by (intro Cons.IH) (auto simp: ser_members_tail)
    with val n p plain False assms(4) show ?thesis
      by (simp add: parse_members_step Let_def skip_ws_head not_ws starts_with_def parse_string_plain
          skip_ws_serialize ser_members_tail j_comma_def j_newline_def)
  qed
qed simp

lemma parse_value_ser:
  "json_plain j \<Longrightarrow> value_end r \<Longrightarrow> 2 * length (serialize 0 l j) + 1 \<le> n \<Longrightarrow>
   parse_value n (serialize 0 l j @ r) = Inr (j, r)"
proof (induction j arbitrary: r l n)
  case JNull
  then obtain k where "n = Suc k" by (cases n) auto
  then show ?case by (simp add: parse_value_Cons [OF skip_ws_head] is_ws_def is_digit_def parse_null_def)
next
  case (JBool b)
  then obtain k where "n = Suc k" by (cases n) auto
  then show ?case
    by (cases b) (simp_all add: parse_value_Cons [OF skip_ws_head] is_ws_def is_digit_def parse_bool_def)
next
  case (JInt i)
  obtain k where n: "n = Suc k" using JInt by (cases n) auto
  obtain c s where cs: "int_to_string (sint i) = c # s" "c = CHR ''-'' \<or> is_digit c"
    using int_to_string_head by blast
  then have "skip_ws (serialize 0 l (JInt i) @ r) = c # s @ r" using digit_head skip_ws_head by simp
  from parse_value_Cons [OF this, of k] cs digit_head [OF cs(2)] parse_number_int [OF JInt(2), of i] n
  show ?case by auto
next
  case (JString s)
  then show ?case
    by (cases n) (simp_all add: parse_value_Cons [OF skip_ws_head] not_ws parse_string_escape)
next
  case (JArray xs)
  obtain k where n: "n = Suc k" using JArray by (cases n) auto
  show ?case
  proof (cases "xs = []")
    case True
    with n show ?thesis by (simp add: parse_value_Cons [OF skip_ws_head] is_ws_def starts_with_def skip_ws_def)
  next
    case False
    have e: "parse_elements k (ser_elements 0 l True xs @ CHR '']'' # r) [] = Inr (JArray ([] @ xs), r)"
      using JArray False n
      by (intro parse_elements_ser [where l = "l + 1"]) (auto simp: list_all_iff j_newline_def)
    obtain x xs' where xs: "xs = x # xs'" using False by (cases xs) auto
    then obtain c s where c: "serialize 0 (l + 1) x = c # s" "\<not> is_ws c" "c \<noteq> CHR '']''"
      using JArray.prems(1) serialize_head [of x "l + 1"] by auto
    then have "skip_ws (ser_elements 0 l True xs @ CHR '']'' # r) = ser_elements 0 l True xs @ CHR '']'' # r"
      "\<not> starts_with (CHR '']'') (ser_elements 0 l True xs @ CHR '']'' # r)"
      using xs by (simp_all add: j_comma_def j_newline_def skip_ws_head starts_with_def)
    with e n False show ?thesis
      by (simp add: parse_value_Cons [OF skip_ws_head] is_ws_def j_newline_def)
  qed
next
  case (JObject m)
  obtain k where n: "n = Suc k" using JObject by (cases n) auto
  show ?case
  proof (cases "m = []")
    case True
    with n show ?thesis by (simp add: parse_value_Cons [OF skip_ws_head] is_ws_def starts_with_def skip_ws_def)
  next
    case False
    have e: "parse_members k (ser_members 0 l True m @ CHR 0x7D # r) [] =
        Inr (JObject (fold (\<lambda>(k, v). omap_put k v) m []), r)"
      using JObject False n
      by (intro parse_members_ser [where l = "l + 1"]) (auto simp: list_all_iff j_newline_def)
    have "skip_ws (ser_members 0 l True m @ CHR 0x7D # r) = ser_members 0 l True m @ CHR 0x7D # r"
      "\<not> starts_with (CHR 0x7D) (ser_members 0 l True m @ CHR 0x7D # r)"
      using False by (cases m; force simp: j_comma_def j_newline_def skip_ws_head not_ws starts_with_def)+
    with e n False JObject.prems(1) show ?thesis
      by (simp add: parse_value_Cons [OF skip_ws_head] is_ws_def j_newline_def omap_rebuild)
  qed
qed simp

section \<open>Properties\<close>

text \<open>C35: A JSON value without floating-point numbers whose object keys contain no quote and no backslash is parsed back
  exactly from its compact text, string values with quotes, backslashes and control characters included;
  and parsing any text at all ends with a value or one of the errors of the code.\<close>

theorem json_roundtrip:
  assumes "json_plain j"
  shows "json_parse (dump j 0) = Inr j \<and> json_parse s \<noteq> Inl OutOfFuel"
  using parse_value_ser [OF assms, of "[]" 0 "parse_fuel (dump j 0)"] parse_returns
  by (simp add: json_parse_def dump_def value_end_def parse_fuel_def)

lemma json_roundtrip_witness:
  "json_parse (dump (JObject [(''a'', JArray [JInt 7, JNull]), (''b'', JString [CHR 0x22, CHR 0x0A])]) 0) =
     Inr (JObject [(''a'', JArray [JInt 7, JNull]), (''b'', JString [CHR 0x22, CHR 0x0A])])"
  using json_roundtrip [of "JObject [(''a'', JArray [JInt 7, JNull]), (''b'', JString [CHR 0x22, CHR 0x0A])]" "[]"]
  by (simp add: omap_ok_def plain_key_def)


text \<open>The printer writes object keys without escaping them, so an object with the key \<open>"\<close> is
  printed to a text that the parser refuses, whatever its value.\<close>

theorem json_key_unescaped: "json_parse (dump (JObject [([CHR 0x22], v)]) 0) = Inl ExpectedColon"
proof -
  let ?t = "CHR 0x22 # CHR '':'' # serialize 0 1 v @ [CHR 0x7D]"
  have d: "dump (JObject [([CHR 0x22], v)]) 0 = CHR 0x7B # CHR 0x22 # CHR 0x22 # ?t"
    by (simp add: dump_def j_comma_def j_newline_def)
  have "parse_value (parse_fuel (CHR 0x7B # s)) (CHR 0x7B # CHR 0x22 # CHR 0x22 # ?t) = Inl ExpectedColon" for s
    by (simp add: parse_fuel_def parse_value_Cons [OF skip_ws_head] is_ws_def skip_ws_head starts_with_def
        parse_members_step eval_nat_numeral)
  then show ?thesis by (simp add: json_parse_def d)
qed

end
