(* ===== verification/Clog_Codec.thy ===== *)
theory Clog_Codec
  imports Transaction Byte_Codec Json
begin

text \<open>
  The stored forms of the commit log: the binary one of \<open>storage/clog_codec.h\<close> and
  \<open>storage/clog_codec.cpp\<close>, and the JSON one of \<open>CLog::to_json\<close> and \<open>from_json\<close>.
  \<open>clog_decode\<close> sets statuses in the log it is given as it reads, so a failing call returns
  \<open>False\<close> together with the log as far as it got.
\<close>

definition kCLogMagic :: string where
  "kCLogMagic = ''CLGB''"

definition kCLogFormatVersion :: u32 where
  "kCLogFormatVersion = 1"

fun status_code :: "TransactionStatus \<Rightarrow> u8" where
  "status_code IN_PROGRESS = 0"
| "status_code COMMITTED = 1"
| "status_code ABORTED = 2"
| "status_code SUB_COMMITTED = 3"
| "status_code (OtherStatus b) = b"

definition status_of_code :: "u8 \<Rightarrow> TransactionStatus" where
  "status_of_code b = (if b = 0 then IN_PROGRESS else if b = 1 then COMMITTED
     else if b = 2 then ABORTED else if b = 3 then SUB_COMMITTED else OtherStatus b)"

definition clog_encode :: "CLog \<Rightarrow> bytes" where
  "clog_encode c = (let xids = all_xids c in
     string_bytes kCLogMagic @ put_u32 kCLogFormatVersion @ put_u32 (of_nat (length xids)) @
     concat (map (\<lambda>xid. put_u32 xid @ put_u8 (status_code (get_status c xid))) xids))"

fun clog_read_entries :: "nat \<Rightarrow> bytes \<Rightarrow> CLog \<Rightarrow> bool \<times> CLog" where
  "clog_read_entries 0 p c = (p = [], c)"
| "clog_read_entries (Suc n) p c = (case read_u32 p of
     None \<Rightarrow> (False, c)
   | Some (xid, p) \<Rightarrow> (case read_u8 p of
       None \<Rightarrow> (False, c)
     | Some (status_byte, p) \<Rightarrow>
         if status_byte > 3 then (False, c)
         else clog_read_entries n p (set_status xid (status_of_code status_byte) c)))"

definition clog_decode :: "bytes \<Rightarrow> CLog \<Rightarrow> bool \<times> CLog" where
  "clog_decode bytes c =
     (if length bytes < 4 + 4 + 4 then (False, c)
      else if take 4 bytes \<noteq> string_bytes kCLogMagic then (False, c)
      else case read_u32 (drop 4 bytes) of
        None \<Rightarrow> (False, c)
      | Some (fmt, p) \<Rightarrow> if fmt \<noteq> kCLogFormatVersion then (False, c)
          else (case read_u32 p of
            None \<Rightarrow> (False, c)
          | Some (count, p) \<Rightarrow> clog_read_entries (unat count) p c))"

section \<open>Round trip\<close>

definition status_valid :: "TransactionStatus \<Rightarrow> bool" where
  "status_valid s \<longleftrightarrow> s \<in> {IN_PROGRESS, COMMITTED, ABORTED, SUB_COMMITTED}"

lemma status_roundtrip: "status_valid s \<Longrightarrow> status_of_code (status_code s) = s \<and> status_code s \<le> 3"
  by (auto simp: status_valid_def status_of_code_def)

lemma oset_ins_snoc: "(\<forall>y \<in> set xs. y < x) \<Longrightarrow> oset_ins x xs = xs @ [x]"
  by (induction xs) (auto simp: less_le_not_le)

lemma all_xids_keys:
  assumes "omap_ok (status_map c)"
  shows "all_xids c = map fst (status_map c)"
proof -
  have "sorted_wrt (<) (acc @ map fst m) \<Longrightarrow> fold (\<lambda>(xid, _). oset_ins xid) m acc = acc @ map fst m"
    for m :: "(TransactionId, TransactionStatus) omap" and acc
  proof (induction m arbitrary: acc)
    case (Cons p m)
    obtain x s where p: "p = (x, s)" by (cases p)
    have "oset_ins x acc = acc @ [x]" using Cons.prems p by (intro oset_ins_snoc) (auto simp: sorted_wrt_append)
    then show ?case using Cons.IH [of "acc @ [x]"] Cons.prems p by simp
  qed simp
  with assms show ?thesis by (simp add: all_xids_def omap_ok_def)
qed

definition clog_fits :: "CLog \<Rightarrow> bool" where
  "clog_fits c \<longleftrightarrow> omap_ok (status_map c) \<and> fits_u32 (status_map c) \<and>
     list_all (\<lambda>(_, s). status_valid s) (status_map c)"

definition apply_entries :: "(TransactionId, TransactionStatus) omap \<Rightarrow> CLog \<Rightarrow> CLog" where
  "apply_entries es c = fold (\<lambda>(x, s). set_status x s) es c"

definition entry_bytes :: "TransactionId \<times> TransactionStatus \<Rightarrow> bytes" where
  "entry_bytes e = put_u32 (fst e) @ put_u8 (status_code (snd e))"

lemma clog_read_entries_enc:
  "list_all (\<lambda>(_, s). status_valid s) es \<Longrightarrow>
   clog_read_entries (length es + n) (concat (map entry_bytes es) @ r) c = clog_read_entries n r (apply_entries es c)"
proof (induction es arbitrary: c)
  case (Cons e es)
  obtain x s where e: "e = (x, s)" by (cases e)
  have "status_of_code (status_code s) = s" "\<not> status_code s > 3"
    using Cons.prems e status_roundtrip [of s] by auto
  with Cons e show ?case by (simp add: entry_bytes_def apply_entries_def)
qed (simp add: apply_entries_def)

lemma clog_encode_eq:
  assumes "omap_ok (status_map c)"
  shows "clog_encode c = string_bytes kCLogMagic @ put_u32 kCLogFormatVersion @
    put_u32 (of_nat (length (status_map c))) @ concat (map entry_bytes (status_map c))"
proof -
  have "map (\<lambda>xid. put_u32 xid @ put_u8 (status_code (get_status c xid))) (map fst (status_map c)) =
      map entry_bytes (status_map c)"
    using map_of_is_SomeI [OF omap_ok_distinct [OF assms]]
    by (auto simp: entry_bytes_def get_status_def)
  with assms show ?thesis by (simp only: clog_encode_def Let_def all_xids_keys length_map)
qed

lemma clog_decode_header:
  "fits_u32 es \<Longrightarrow>
   clog_decode (string_bytes kCLogMagic @ put_u32 kCLogFormatVersion @ put_u32 (of_nat (length es)) @ r) c =
   clog_read_entries (length es) r c"
  by (simp add: clog_decode_def kCLogMagic_def unat_of_nat_fits_u32)

lemma clog_decode_encode:
  assumes "clog_fits c"
  shows "clog_decode (clog_encode c) c0 = (True, apply_entries (status_map c) c0)"
  using assms clog_read_entries_enc [of "status_map c" 0 "[]" c0]
  by (simp add: clog_fits_def clog_encode_eq clog_decode_header)

lemma status_map_apply: "status_map (apply_entries es c) = fold (\<lambda>(x, s). omap_put x s) es (status_map c)"
  unfolding apply_entries_def by (induction es arbitrary: c) (auto simp: set_status_def)

lemma apply_entries_empty: "omap_ok es \<Longrightarrow> status_map (apply_entries es empty_clog) = es"
  by (simp add: status_map_apply empty_clog_def omap_rebuild)

section \<open>The JSON form\<close>

definition clog_to_json :: "CLog \<Rightarrow> json" where
  "clog_to_json c = JArray (map (\<lambda>(xid, status).
     j_set ''status'' (JInt (ucast (status_code status))) (j_set ''xid'' (JInt (ucast xid)) JNull)) (status_map c))"

text \<open>\<open>from_json\<close> leaves the dirty set alone; \<open>False\<close> is the exception of an accessor.\<close>

fun clog_load_entries :: "json list \<Rightarrow> CLog \<Rightarrow> bool \<times> CLog" where
  "clog_load_entries [] c = (True, c)"
| "clog_load_entries (e # es) c = (case get_int (j_at e ''xid'') of
     None \<Rightarrow> (False, c)
   | Some x \<Rightarrow> (case get_int (j_at e ''status'') of
       None \<Rightarrow> (False, c)
     | Some s \<Rightarrow> clog_load_entries es
         (c\<lparr>status_map := omap_put (ucast x) (status_of_code (ucast s)) (status_map c)\<rparr>)))"

definition clog_from_json :: "json \<Rightarrow> CLog \<Rightarrow> bool \<times> CLog" where
  "clog_from_json j c = clog_load_entries (j_elements j) c"

definition tm_to_json :: "TM \<Rightarrow> json" where
  "tm_to_json t = j_set ''clog'' (clog_to_json (clog t)) (j_set ''next_xid'' (JInt (ucast (next_xid t))) JNull)"

definition tm_from_json :: "json \<Rightarrow> TM \<Rightarrow> bool \<times> TM" where
  "tm_from_json j t =
     (let next = (if j_contains j ''next_xid'' then (case get_int (j_at j ''next_xid'') of None \<Rightarrow> None
                    | Some i \<Rightarrow> Some (if FirstNormalTransactionId \<le> ucast i then t\<lparr>next_xid := ucast i\<rparr> else t))
                  else Some t)
      in case next of None \<Rightarrow> (False, t)
         | Some t \<Rightarrow> if j_contains j ''clog''
             then (let (ok, c) = clog_from_json (j_at j ''clog'') (clog t) in (ok, t\<lparr>clog := c\<rparr>))
             else (True, t))"

lemma clog_load_entries_to_json:
  "list_all (\<lambda>(_, s). status_valid s) es \<Longrightarrow>
   clog_load_entries (map (\<lambda>(xid, status). j_set ''status'' (JInt (ucast (status_code status)))
      (j_set ''xid'' (JInt (ucast xid)) JNull)) es) c =
     (True, c\<lparr>status_map := fold (\<lambda>(x, s). omap_put x s) es (status_map c)\<rparr>)"
  by (induction es arbitrary: c) (auto simp: status_roundtrip ucast_down_ucast_id is_down)

lemma clog_json_back:
  "omap_ok (status_map c) \<Longrightarrow> list_all (\<lambda>(_, s). status_valid s) (status_map c) \<Longrightarrow>
   clog_from_json (clog_to_json c) empty_clog = (True, empty_clog\<lparr>status_map := status_map c\<rparr>)"
  using clog_load_entries_to_json [of "status_map c" empty_clog]
  by (simp add: clog_from_json_def clog_to_json_def empty_clog_def omap_rebuild)

section \<open>Properties\<close>

text \<open>Decoding the bytes of a commit log into an empty log restores exactly its entries.\<close>

theorem clog_roundtrip:
  assumes "clog_fits c"
  shows "fst (clog_decode (clog_encode c) empty_clog) \<and>
    status_map (snd (clog_decode (clog_encode c) empty_clog)) = status_map c"
  using clog_decode_encode [OF assms, of empty_clog] assms by (simp add: clog_fits_def apply_entries_empty)

lemma clog_roundtrip_witness:
  "fst (clog_decode (clog_encode (set_status 3 COMMITTED (set_status 4 ABORTED empty_clog))) empty_clog)"
  using clog_roundtrip [of "set_status 3 COMMITTED (set_status 4 ABORTED empty_clog)"]
  by (simp add: clog_fits_def set_status_def empty_clog_def omap_ok_def fits_u32_def status_valid_def)

text \<open>A log file that is cut inside its last entry is reported as broken, yet every earlier entry
  has been written into the log by then.\<close>

theorem clog_decode_partial:
  assumes "clog_fits c" "status_map c = es @ [e]" "entry_bytes e = p @ t" "t \<noteq> []" "clog_encode c = bs @ t"
  shows "clog_decode bs c0 = (False, apply_entries es c0)"
proof -
  let ?h = "string_bytes kCLogMagic @ put_u32 kCLogFormatVersion @ put_u32 (of_nat (length (es @ [e])))"
  have "clog_encode c = (?h @ concat (map entry_bytes es) @ p) @ t"
    using assms(1-3) clog_encode_eq [of c] by (simp add: clog_fits_def)
  then have bs: "bs = ?h @ concat (map entry_bytes es) @ p" using assms(5) by simp
  have "length p + length t = 5"
    using arg_cong [OF assms(3), of length] by (simp add: entry_bytes_def)
  with assms(4) have len: "length p < 5" by (cases t) simp_all
  have "clog_read_entries (Suc 0) p c1 = (False, c1)" for c1
    using len by (auto simp: read_u32_def read_u8_def split: option.splits if_splits)
  moreover have "clog_decode bs c0 = clog_read_entries (length es + Suc 0) (concat (map entry_bytes es) @ p) c0"
    using assms(1,2) clog_decode_header [of "es @ [e]" "concat (map entry_bytes es) @ p" c0]
    unfolding bs by (simp add: clog_fits_def)
  moreover have "list_all (\<lambda>(_, s). status_valid s) es" using assms(1,2) by (simp add: clog_fits_def)
  ultimately show ?thesis using clog_read_entries_enc [of es "Suc 0" p c0] by simp
qed

lemma clog_decode_partial_witness:
  "clog_decode (butlast (clog_encode (set_status 3 COMMITTED (set_status 4 ABORTED empty_clog)))) empty_clog =
     (False, set_status 3 COMMITTED empty_clog)"
proof -
  let ?c = "set_status 3 COMMITTED (set_status 4 ABORTED empty_clog)"
  have m: "status_map ?c = [(3, COMMITTED)] @ [(4, ABORTED)]" by (simp add: set_status_def empty_clog_def)
  have fits: "clog_fits ?c"
    by (simp add: clog_fits_def set_status_def empty_clog_def omap_ok_def fits_u32_def status_valid_def)
  have e: "entry_bytes (4, ABORTED) = put_u32 4 @ [2]" by (simp add: entry_bytes_def put_u8_def)
  have "\<exists>x. clog_encode ?c = x @ [2]"
    using clog_encode_eq [of ?c] fits m e by (simp add: clog_fits_def)
  then have "clog_encode ?c = butlast (clog_encode ?c) @ [2]" by auto
  from clog_decode_partial [OF fits m e _ this, of empty_clog] show ?thesis by (simp add: apply_entries_def)
qed

end
