(* ===== verification/Catalog.thy ===== *)
theory Catalog
  imports JM_Prelude
begin

text \<open>
  Namespaces and users, \<open>storage/catalog.h\<close> and \<open>storage/catalog.cpp\<close>, with the embedded SHA-256.

  The catalog is the record of its three members. Operations that throw return \<open>Inl\<close> and leave the
  catalog unchanged. The salt drawn from \<open>std::random_device\<close> is an argument of \<open>create_user\<close>.
  The JSON form is not modelled here.
\<close>

section \<open>SHA-256\<close>

definition rotright :: "u32 \<Rightarrow> nat \<Rightarrow> u32" where
  "rotright a b = drop_bit b a OR push_bit (32 - b) a"

definition sha_ch :: "u32 \<Rightarrow> u32 \<Rightarrow> u32 \<Rightarrow> u32" where
  "sha_ch x y z = (x AND y) XOR (NOT x AND z)"

definition sha_maj :: "u32 \<Rightarrow> u32 \<Rightarrow> u32 \<Rightarrow> u32" where
  "sha_maj x y z = (x AND y) XOR (x AND z) XOR (y AND z)"

definition sha_ep0 :: "u32 \<Rightarrow> u32" where
  "sha_ep0 x = rotright x 2 XOR rotright x 13 XOR rotright x 22"

definition sha_ep1 :: "u32 \<Rightarrow> u32" where
  "sha_ep1 x = rotright x 6 XOR rotright x 11 XOR rotright x 25"

definition sha_sig0 :: "u32 \<Rightarrow> u32" where
  "sha_sig0 x = rotright x 7 XOR rotright x 18 XOR drop_bit 3 x"

definition sha_sig1 :: "u32 \<Rightarrow> u32" where
  "sha_sig1 x = rotright x 17 XOR rotright x 19 XOR drop_bit 10 x"

text \<open>The table of round constants: each row of the source, eight words, is written as one numeral.\<close>

definition row_words :: "256 word \<Rightarrow> u32 list" where
  "row_words x = map (\<lambda>j. ucast (drop_bit (32 * (7 - j)) x)) [0..<8]"

definition sha_k :: "u32 list" where
  "sha_k = concat (map row_words
    [0x428a2f9871374491b5c0fbcfe9b5dba53956c25b59f111f1923f82a4ab1c5ed5,
     0xd807aa9812835b01243185be550c7dc372be5d7480deb1fe9bdc06a7c19bf174,
     0xe49b69c1efbe47860fc19dc6240ca1cc2de92c6f4a7484aa5cb0a9dc76f988da,
     0x983e5152a831c66db00327c8bf597fc7c6e00bf3d5a7914706ca635114292967,
     0x27b70a852e1b21384d2c6dfc53380d13650a7354766a0abb81c2c92e92722c85,
     0xa2bfe8a1a81a664bc24b8b70c76c51a3d192e819d6990624f40e3585106aa070,
     0x19a4c1161e376c082748774c34b0bcb5391c0cb34ed8aa4a5b9cca4f682e6ff3,
     0x748f82ee78a5636f84c878148cc7020890befffaa4506cebbef9a3f7c67178f2])"

record SHA256_CTX =
  sha_data :: bytes
  sha_datalen :: nat
  sha_bitlen :: u64
  sha_state :: "u32 list"

definition sha_word :: "bytes \<Rightarrow> nat \<Rightarrow> u32" where
  "sha_word d j = push_bit 24 (ucast (d ! j)) OR push_bit 16 (ucast (d ! (j + 1))) OR
     push_bit 8 (ucast (d ! (j + 2))) OR ucast (d ! (j + 3))"

definition sha_schedule :: "bytes \<Rightarrow> u32 list" where
  "sha_schedule d = fold (\<lambda>i m. m @ [sha_sig1 (m ! (i - 2)) + m ! (i - 7) + sha_sig0 (m ! (i - 15)) + m ! (i - 16)])
     [16..<64] (map (\<lambda>i. sha_word d (4 * i)) [0..<16])"

fun sha_round :: "u32 \<Rightarrow> u32 \<Rightarrow> u32 list \<Rightarrow> u32 list" where
  "sha_round k m [a, b, c, d, e, f, g, h] =
     (let t1 = h + sha_ep1 e + sha_ch e f g + k + m;
          t2 = sha_ep0 a + sha_maj a b c
      in [t1 + t2, a, b, c, d + t1, e, f, g])"
| "sha_round k m s = s"

definition sha256_transform :: "bytes \<Rightarrow> SHA256_CTX \<Rightarrow> SHA256_CTX" where
  "sha256_transform d ctx =
     (let m = sha_schedule d;
          s = fold (\<lambda>i. sha_round (sha_k ! i) (m ! i)) [0..<64] (sha_state ctx)
      in ctx\<lparr>sha_state := map2 (+) (sha_state ctx) s\<rparr>)"

definition sha256_init :: "bytes \<Rightarrow> SHA256_CTX" where
  "sha256_init garbage = \<lparr>sha_data = garbage, sha_datalen = 0, sha_bitlen = 0,
     sha_state = [0x6a09e667, 0xbb67ae85, 0x3c6ef372, 0xa54ff53a, 0x510e527f, 0x9b05688c, 0x1f83d9ab, 0x5be0cd19]\<rparr>"

definition sha256_byte :: "u8 \<Rightarrow> SHA256_CTX \<Rightarrow> SHA256_CTX" where
  "sha256_byte b ctx =
     (let ctx = ctx\<lparr>sha_data := (sha_data ctx)[sha_datalen ctx := b], sha_datalen := sha_datalen ctx + 1\<rparr>
      in if sha_datalen ctx = 64
         then (let ctx = sha256_transform (sha_data ctx) ctx
               in ctx\<lparr>sha_bitlen := sha_bitlen ctx + 512, sha_datalen := 0\<rparr>)
         else ctx)"

definition sha256_update :: "bytes \<Rightarrow> SHA256_CTX \<Rightarrow> SHA256_CTX" where
  "sha256_update d ctx = fold sha256_byte d ctx"

definition sha256_final :: "SHA256_CTX \<Rightarrow> bytes" where
  "sha256_final ctx =
     (let n = sha_datalen ctx;
          ctx = (if n < 56
            then ctx\<lparr>sha_data := take n (sha_data ctx) @ [0x80] @ replicate (55 - n) 0 @ drop 56 (sha_data ctx)\<rparr>
            else (let d = take n (sha_data ctx) @ [0x80] @ replicate (63 - n) 0;
                      ctx = sha256_transform d (ctx\<lparr>sha_data := d\<rparr>)
                  in ctx\<lparr>sha_data := replicate 56 0 @ drop 56 d\<rparr>));
          bitlen = sha_bitlen ctx + of_nat n * 8;
          d = take 56 (sha_data ctx) @ map (\<lambda>i. ucast (drop_bit (8 * i) bitlen)) (rev [0..<8]);
          ctx = sha256_transform d ctx
      in concat (map (\<lambda>w. map (\<lambda>i. ucast (drop_bit (24 - i * 8) w AND 0xff)) [0..<4]) (sha_state ctx)))"

definition hex_digit :: "nat \<Rightarrow> char" where
  "hex_digit n = (if n < 10 then char_of (48 + n) else char_of (87 + n))"

definition bytes_to_hex :: "bytes \<Rightarrow> string" where
  "bytes_to_hex d = concat (map (\<lambda>b. [hex_digit (unat b div 16), hex_digit (unat b mod 16)]) d)"

text \<open>The 64 bytes of the local context are read only after they were written.\<close>

definition sha256 :: "string \<Rightarrow> string" where
  "sha256 s = bytes_to_hex (sha256_final (sha256_update (string_bytes s) (sha256_init (replicate 64 0))))"

definition hash_password :: "string \<Rightarrow> string \<Rightarrow> string" where
  "hash_password password salt = sha256 (salt @ password)"

section \<open>The catalog\<close>

record UserInfo =
  us_name :: string
  us_password_hash :: string
  us_salt :: string

record DatabaseInfo =
  db_name :: string
  db_schemas :: "(string, string) omap"

record Catalog =
  databases :: "(string, DatabaseInfo) omap"
  users :: "(string, UserInfo) omap"
  current_db :: string

datatype catalog_error = DatabaseExists string | CannotDropDefault | NoSuchDatabase string
  | SchemaExists string string | CannotDropPublic | NoSuchSchema string
  | UserExists string | NoSuchUser string

text \<open>A \<open>SchemaInfo\<close> holds its name only.\<close>

definition new_database :: "string \<Rightarrow> DatabaseInfo" where
  "new_database name = \<lparr>db_name = name, db_schemas = omap_put ''public'' ''public'' []\<rparr>"

definition new_catalog :: Catalog where
  "new_catalog = \<lparr>databases = omap_put ''defaultdb'' (new_database ''defaultdb'') [], users = [],
     current_db = ''defaultdb''\<rparr>"

definition has_key :: "('k, 'v) omap \<Rightarrow> 'k \<Rightarrow> bool" where
  "has_key m k \<longleftrightarrow> map_of m k \<noteq> None"

definition create_database :: "string \<Rightarrow> Catalog \<Rightarrow> catalog_error + Catalog" where
  "create_database name c =
     (if has_key (databases c) name then Inl (DatabaseExists name)
      else Inr (c\<lparr>databases := omap_put name (new_database name) (databases c)\<rparr>))"

definition drop_database :: "string \<Rightarrow> Catalog \<Rightarrow> catalog_error + Catalog" where
  "drop_database name c =
     (if name = ''defaultdb'' then Inl CannotDropDefault
      else if \<not> has_key (databases c) name then Inl (NoSuchDatabase name)
      else Inr (c\<lparr>current_db := (if current_db c = name then ''defaultdb'' else current_db c),
                  databases := omap_del name (databases c)\<rparr>))"

definition database_exists :: "Catalog \<Rightarrow> string \<Rightarrow> bool" where
  "database_exists c name = has_key (databases c) name"

definition list_databases :: "Catalog \<Rightarrow> string list" where
  "list_databases c = map fst (databases c)"

definition create_schema :: "string \<Rightarrow> string \<Rightarrow> Catalog \<Rightarrow> catalog_error + Catalog" where
  "create_schema db s c = (case map_of (databases c) db of
     None \<Rightarrow> Inl (NoSuchDatabase db)
   | Some d \<Rightarrow> if has_key (db_schemas d) s then Inl (SchemaExists s db)
       else Inr (c\<lparr>databases := omap_put db (d\<lparr>db_schemas := omap_put s s (db_schemas d)\<rparr>) (databases c)\<rparr>))"

definition drop_schema :: "string \<Rightarrow> string \<Rightarrow> Catalog \<Rightarrow> catalog_error + Catalog" where
  "drop_schema db s c =
     (if s = ''public'' then Inl CannotDropPublic
      else case map_of (databases c) db of
        None \<Rightarrow> Inl (NoSuchDatabase db)
      | Some d \<Rightarrow> if \<not> has_key (db_schemas d) s then Inl (NoSuchSchema s)
          else Inr (c\<lparr>databases := omap_put db (d\<lparr>db_schemas := omap_del s (db_schemas d)\<rparr>) (databases c)\<rparr>))"

definition schema_exists :: "Catalog \<Rightarrow> string \<Rightarrow> string \<Rightarrow> bool" where
  "schema_exists c db s = (case map_of (databases c) db of None \<Rightarrow> False | Some d \<Rightarrow> has_key (db_schemas d) s)"

definition list_schemas :: "Catalog \<Rightarrow> string \<Rightarrow> string list" where
  "list_schemas c db = (case map_of (databases c) db of None \<Rightarrow> [] | Some d \<Rightarrow> map fst (db_schemas d))"

definition create_user :: "string \<Rightarrow> string \<Rightarrow> bytes \<Rightarrow> Catalog \<Rightarrow> catalog_error + Catalog" where
  "create_user name password salt_bytes c =
     (if has_key (users c) name then Inl (UserExists name)
      else let salt = bytes_to_hex salt_bytes in
        Inr (c\<lparr>users := omap_put name \<lparr>us_name = name, us_password_hash = hash_password password salt,
                  us_salt = salt\<rparr> (users c)\<rparr>))"

definition drop_user :: "string \<Rightarrow> Catalog \<Rightarrow> catalog_error + Catalog" where
  "drop_user name c =
     (if \<not> has_key (users c) name then Inl (NoSuchUser name)
      else Inr (c\<lparr>users := omap_del name (users c)\<rparr>))"

definition user_exists :: "Catalog \<Rightarrow> string \<Rightarrow> bool" where
  "user_exists c name = has_key (users c) name"

definition verify_password :: "Catalog \<Rightarrow> string \<Rightarrow> string \<Rightarrow> bool" where
  "verify_password c name password = (case map_of (users c) name of
     None \<Rightarrow> False
   | Some u \<Rightarrow> us_password_hash u = hash_password password (us_salt u))"

definition list_users :: "Catalog \<Rightarrow> string list" where
  "list_users c = map fst (users c)"

definition set_current_database :: "string \<Rightarrow> Catalog \<Rightarrow> catalog_error + Catalog" where
  "set_current_database name c =
     (if \<not> has_key (databases c) name then Inl (NoSuchDatabase name)
      else Inr (c\<lparr>current_db := name\<rparr>))"

definition qualify_table_name :: "Catalog \<Rightarrow> string \<Rightarrow> string" where
  "qualify_table_name c name =
     (if CHR ''.'' \<in> set name then name else current_db c @ ''.public.'' @ name)"

definition internal_set_user :: "string \<Rightarrow> string \<Rightarrow> string \<Rightarrow> Catalog \<Rightarrow> Catalog" where
  "internal_set_user name password_hash salt c =
     c\<lparr>users := omap_put name \<lparr>us_name = name, us_password_hash = password_hash, us_salt = salt\<rparr> (users c)\<rparr>"

record CatalogSnapshot =
  snap_current_db :: string
  snap_databases :: "(string \<times> string list) list"
  snap_users :: "(string \<times> string \<times> string) list"

definition internal_snapshot :: "Catalog \<Rightarrow> CatalogSnapshot" where
  "internal_snapshot c = \<lparr>snap_current_db = current_db c,
     snap_databases = map (\<lambda>(n, d). (n, map fst (db_schemas d))) (databases c),
     snap_users = map (\<lambda>(n, u). (n, us_password_hash u, us_salt u)) (users c)\<rparr>"

section \<open>The invariant\<close>

definition db_ok :: "string \<Rightarrow> DatabaseInfo \<Rightarrow> bool" where
  "db_ok n d \<longleftrightarrow> db_name d = n \<and> omap_ok (db_schemas d) \<and> has_key (db_schemas d) ''public'' \<and>
     (\<forall>(k, v) \<in> set (db_schemas d). k = v)"

text \<open>\<open>defaultdb\<close> exists, the current database exists, every database has its public schema.\<close>

definition catalog_ok :: "Catalog \<Rightarrow> bool" where
  "catalog_ok c \<longleftrightarrow> omap_ok (databases c) \<and> omap_ok (users c) \<and>
     has_key (databases c) ''defaultdb'' \<and> has_key (databases c) (current_db c) \<and>
     (\<forall>(n, d) \<in> set (databases c). db_ok n d) \<and> (\<forall>(n, u) \<in> set (users c). us_name u = n)"

lemma has_key_put [simp]: "has_key (omap_put k v m) k' \<longleftrightarrow> k' = k \<or> has_key m k'"
  by (simp add: has_key_def)

lemma has_key_del [simp]: "omap_ok m \<Longrightarrow> has_key (omap_del k m) k' \<longleftrightarrow> k' \<noteq> k \<and> has_key m k'"
  by (simp add: has_key_def)

lemma db_ok_new: "db_ok n (new_database n)"
  by (simp add: db_ok_def new_database_def has_key_def omap_ok_def)

lemma catalog_ok_new: "catalog_ok new_catalog"
  by (simp add: catalog_ok_def new_catalog_def has_key_def db_ok_new omap_ok_def)

lemma ball_omap_del: "\<forall>(k, v) \<in> set m. P k v \<Longrightarrow> \<forall>(k, v) \<in> set (omap_del k' m). P k v"
  using set_omap_del [of k' m] by auto

inductive catalog_step :: "Catalog \<Rightarrow> Catalog \<Rightarrow> bool" where
  "create_database n c = Inr c' \<Longrightarrow> catalog_step c c'"
| "drop_database n c = Inr c' \<Longrightarrow> catalog_step c c'"
| "create_schema db s c = Inr c' \<Longrightarrow> catalog_step c c'"
| "drop_schema db s c = Inr c' \<Longrightarrow> catalog_step c c'"
| "create_user n pw salt c = Inr c' \<Longrightarrow> catalog_step c c'"
| "drop_user n c = Inr c' \<Longrightarrow> catalog_step c c'"
| "set_current_database n c = Inr c' \<Longrightarrow> catalog_step c c'"
| "catalog_step c (internal_set_user n h salt c)"

lemma catalog_ok_databases:
  "catalog_ok c \<Longrightarrow> db_ok n d \<Longrightarrow> catalog_ok (c\<lparr>databases := omap_put n d (databases c)\<rparr>)"
  using ball_omap_put [of "databases c" db_ok n d] by (simp add: catalog_ok_def)

lemma catalog_ok_users:
  "catalog_ok c \<Longrightarrow> us_name u = n \<Longrightarrow> catalog_ok (c\<lparr>users := omap_put n u (users c)\<rparr>)"
  using ball_omap_put [of "users c" "\<lambda>n u. us_name u = n" n u] by (simp add: catalog_ok_def)

lemma catalog_ok_lookup: "catalog_ok c \<Longrightarrow> map_of (databases c) n = Some d \<Longrightarrow> db_ok n d"
  by (auto simp: catalog_ok_def dest: map_of_SomeD)

lemma catalog_step_ok: "catalog_step c c' \<Longrightarrow> catalog_ok c \<Longrightarrow> catalog_ok c'"
proof (induction rule: catalog_step.induct)
  case (1 n c c')
  then show ?case by (auto simp: create_database_def db_ok_new intro!: catalog_ok_databases split: if_splits)
next
  case (2 n c c')
  then have c': "c' = c\<lparr>current_db := (if current_db c = n then ''defaultdb'' else current_db c),
      databases := omap_del n (databases c)\<rparr>" and n: "n \<noteq> ''defaultdb''"
    by (auto simp: drop_database_def split: if_splits)
  have "\<forall>(k, d) \<in> set (omap_del n (databases c)). db_ok k d"
    using 2(2) by (intro ball_omap_del) (simp add: catalog_ok_def)
  with 2(2) c' n show ?case by (auto simp: catalog_ok_def)
next
  case (3 db s c c')
  then obtain d where d: "map_of (databases c) db = Some d"
    and c': "c' = c\<lparr>databases := omap_put db (d\<lparr>db_schemas := omap_put s s (db_schemas d)\<rparr>) (databases c)\<rparr>"
    by (auto simp: create_schema_def split: option.splits if_splits)
  have ok: "db_ok db d" using catalog_ok_lookup [OF 3(2) d] .
  then have "\<forall>(k, v) \<in> set (omap_put s s (db_schemas d)). k = v" by (intro ball_omap_put) (simp_all add: db_ok_def)
  with ok have "db_ok db (d\<lparr>db_schemas := omap_put s s (db_schemas d)\<rparr>)" by (simp add: db_ok_def)
  with 3(2) c' show ?case by (simp add: catalog_ok_databases)
next
  case (4 db s c c')
  then obtain d where d: "map_of (databases c) db = Some d" and s: "s \<noteq> ''public''"
    and c': "c' = c\<lparr>databases := omap_put db (d\<lparr>db_schemas := omap_del s (db_schemas d)\<rparr>) (databases c)\<rparr>"
    by (auto simp: drop_schema_def split: option.splits if_splits)
  have ok: "db_ok db d" using catalog_ok_lookup [OF 4(2) d] .
  then have "\<forall>(k, v) \<in> set (omap_del s (db_schemas d)). k = v" by (intro ball_omap_del) (simp add: db_ok_def)
  with ok s have "db_ok db (d\<lparr>db_schemas := omap_del s (db_schemas d)\<rparr>)" by (simp add: db_ok_def)
  with 4(2) c' show ?case by (simp add: catalog_ok_databases)
next
  case (5 n pw salt c c')
  then show ?case by (auto simp: create_user_def Let_def intro!: catalog_ok_users split: if_splits)
next
  case (6 n c c')
  then have c': "c' = c\<lparr>users := omap_del n (users c)\<rparr>" by (auto simp: drop_user_def split: if_splits)
  have "\<forall>(k, u) \<in> set (omap_del n (users c)). us_name u = k"
    using 6(2) by (intro ball_omap_del) (simp add: catalog_ok_def)
  with 6(2) c' show ?case by (simp add: catalog_ok_def)
next
  case (7 n c c')
  then show ?case by (auto simp: set_current_database_def catalog_ok_def split: if_splits)
next
  case (8 c n h salt)
  then show ?case by (simp add: internal_set_user_def catalog_ok_users)
qed

section \<open>Properties\<close>

text \<open>C19: Whatever sequence of catalog operations succeeds, \<open>defaultdb\<close> and the current database keep
  existing, every database keeps its \<open>public\<close> schema, and names agree with their keys.\<close>

theorem catalog_invariant:
  assumes "catalog_step\<^sup>*\<^sup>* new_catalog c"
  shows "catalog_ok c"
  using assms by (induction rule: rtranclp_induct) (auto intro: catalog_ok_new catalog_step_ok)

definition sample_catalog :: Catalog where
  "sample_catalog = new_catalog\<lparr>databases := omap_put ''d'' (new_database ''d'') (databases new_catalog)\<rparr>"

lemma create_sample: "create_database ''d'' new_catalog = Inr sample_catalog"
  by (simp add: create_database_def sample_catalog_def new_catalog_def has_key_def)

lemma catalog_invariant_witness: "catalog_ok sample_catalog"
  by (rule catalog_invariant, rule r_into_rtranclp, rule catalog_step.intros(1), rule create_sample)

text \<open>A user just created is let in with exactly the passwords whose salted hash equals that of
  the given one, in particular with the given one, and creating the user again is refused.\<close>

theorem created_user_verifies:
  assumes "create_user name pw salt c = Inr c'"
  shows "(verify_password c' name pw' \<longleftrightarrow>
      sha256 (bytes_to_hex salt @ pw) = sha256 (bytes_to_hex salt @ pw')) \<and>
    create_user name pw2 salt2 c' = Inl (UserExists name)"
  using assms
  by (auto simp: create_user_def verify_password_def hash_password_def Let_def has_key_def split: if_splits)

lemma created_user_verifies_witness:
  "\<exists>c'. create_user ''u'' ''pw'' [1, 2] new_catalog = Inr c' \<and> verify_password c' ''u'' ''pw''"
proof -
  obtain c' where c': "create_user ''u'' ''pw'' [1, 2] new_catalog = Inr c'"
    by (simp add: create_user_def new_catalog_def has_key_def Let_def)
  with created_user_verifies [OF c', of "''pw''"] show ?thesis by blast
qed

end
