(* ===== verification/Catalog_Codec.thy ===== *)
theory Catalog_Codec
  imports Catalog Byte_Codec Json
begin

text \<open>
  The stored forms of the catalog: the binary one of \<open>storage/catalog_codec.h\<close> and
  \<open>storage/catalog_codec.cpp\<close>, and the JSON one of \<open>Catalog::to_json\<close> and \<open>from_json\<close>.

  \<open>catalog_decode\<close> works on the catalog it is given: a failing call returns \<open>False\<close> together with the
  catalog as far as it got, and \<open>set_current_database\<close> at the end may throw (\<open>Inl\<close>).
\<close>

definition kCatalogFormatVersion :: u32 where
  "kCatalogFormatVersion = 1"

definition put_database :: "string \<times> string list \<Rightarrow> bytes" where
  "put_database d = put_string_u16 (fst d) @ put_u32 (of_nat (length (snd d))) @
     concat (map put_string_u16 (snd d))"

definition put_user :: "string \<times> string \<times> string \<Rightarrow> bytes" where
  "put_user u = put_string_u16 (fst u) @ put_string_u16 (fst (snd u)) @ put_string_u16 (snd (snd u))"

definition catalog_encode :: "Catalog \<Rightarrow> bytes" where
  "catalog_encode cat = (let snap = internal_snapshot cat in
     put_u32 kCatalogFormatVersion @ put_string_u16 (snap_current_db snap) @
     put_u32 (of_nat (length (snap_databases snap))) @ concat (map put_database (snap_databases snap)) @
     put_u32 (of_nat (length (snap_users snap))) @ concat (map put_user (snap_users snap)))"

text \<open>The calls of \<open>create_database\<close> and \<open>create_schema\<close> are guarded and cannot throw.\<close>

definition add_database :: "string \<Rightarrow> Catalog \<Rightarrow> Catalog" where
  "add_database n c = (if database_exists c n then c
     else case create_database n c of Inr c' \<Rightarrow> c' | Inl _ \<Rightarrow> c)"

definition add_schema :: "string \<Rightarrow> string \<Rightarrow> Catalog \<Rightarrow> Catalog" where
  "add_schema db sn c = (if schema_exists c db sn then c
     else case create_schema db sn c of Inr c' \<Rightarrow> c' | Inl _ \<Rightarrow> c)"

fun cat_read_schemas :: "string \<Rightarrow> nat \<Rightarrow> bytes \<Rightarrow> Catalog \<Rightarrow> bytes option \<times> Catalog" where
  "cat_read_schemas db 0 p c = (Some p, c)"
| "cat_read_schemas db (Suc n) p c = (case read_string_u16 p of
     None \<Rightarrow> (None, c)
   | Some (sn, p) \<Rightarrow> cat_read_schemas db n p (add_schema db sn c))"

fun cat_read_databases :: "nat \<Rightarrow> bytes \<Rightarrow> Catalog \<Rightarrow> bytes option \<times> Catalog" where
  "cat_read_databases 0 p c = (Some p, c)"
| "cat_read_databases (Suc n) p c = (case read_string_u16 p of
     None \<Rightarrow> (None, c)
   | Some (name, p) \<Rightarrow> (case read_u32 p of
       None \<Rightarrow> (None, c)
     | Some (count, p) \<Rightarrow> (case cat_read_schemas name (unat count) p (add_database name c) of
         (None, c) \<Rightarrow> (None, c)
       | (Some p, c) \<Rightarrow> cat_read_databases n p c)))"

definition read_user :: "(string \<times> string \<times> string) reader" where
  "read_user p = do {
     (uname, p) \<leftarrow> read_string_u16 p;
     (pw, p) \<leftarrow> read_string_u16 p;
     (salt, p) \<leftarrow> read_string_u16 p;
     Some ((uname, pw, salt), p) }"

fun cat_read_users :: "nat \<Rightarrow> bytes \<Rightarrow> Catalog \<Rightarrow> bytes option \<times> Catalog" where
  "cat_read_users 0 p c = (Some p, c)"
| "cat_read_users (Suc n) p c = (case read_user p of
     None \<Rightarrow> (None, c)
   | Some ((uname, pw, salt), p) \<Rightarrow> cat_read_users n p (internal_set_user uname pw salt c))"

definition cat_read_user_part :: "string \<Rightarrow> bytes \<Rightarrow> Catalog \<Rightarrow> (catalog_error + bool) \<times> Catalog" where
  "cat_read_user_part cur_db p c = (case read_u32 p of
     None \<Rightarrow> (Inr False, c)
   | Some (user_count, p) \<Rightarrow> (case cat_read_users (unat user_count) p c of
       (None, c) \<Rightarrow> (Inr False, c)
     | (Some p, c) \<Rightarrow>
         if cur_db \<noteq> [] then (case set_current_database cur_db c of
             Inl e \<Rightarrow> (Inl e, c)
           | Inr c \<Rightarrow> (Inr (p = []), c))
         else (Inr (p = []), c)))"

definition cat_read_body :: "string \<Rightarrow> bytes \<Rightarrow> Catalog \<Rightarrow> (catalog_error + bool) \<times> Catalog" where
  "cat_read_body cur_db p c = (case read_u32 p of
     None \<Rightarrow> (Inr False, c)
   | Some (db_count, p) \<Rightarrow> (case cat_read_databases (unat db_count) p c of
       (None, c) \<Rightarrow> (Inr False, c)
     | (Some p, c) \<Rightarrow> cat_read_user_part cur_db p c))"

definition catalog_decode :: "bytes \<Rightarrow> Catalog \<Rightarrow> (catalog_error + bool) \<times> Catalog" where
  "catalog_decode p c = (case read_u32 p of
     None \<Rightarrow> (Inr False, c)
   | Some (fmt, p) \<Rightarrow>
       if fmt \<noteq> kCatalogFormatVersion then (Inr False, c)
       else (case read_string_u16 p of
         None \<Rightarrow> (Inr False, c)
       | Some (cur_db, p) \<Rightarrow> cat_read_body cur_db p c))"

section \<open>Round trip\<close>

definition catalog_fits :: "Catalog \<Rightarrow> bool" where
  "catalog_fits c \<longleftrightarrow> fits_u16 (current_db c) \<and> fits_u32 (databases c) \<and> fits_u32 (users c) \<and>
     list_all (\<lambda>(n, d). fits_u16 n \<and> fits_u32 (db_schemas d) \<and> list_all (fits_u16 \<circ> fst) (db_schemas d)) (databases c) \<and>
     list_all (\<lambda>(n, u). fits_u16 n \<and> fits_u16 (us_password_hash u) \<and> fits_u16 (us_salt u)) (users c)"

definition add_all_schemas :: "string \<Rightarrow> string list \<Rightarrow> Catalog \<Rightarrow> Catalog" where
  "add_all_schemas db ss c = fold (add_schema db) ss c"

definition add_all_databases :: "(string \<times> string list) list \<Rightarrow> Catalog \<Rightarrow> Catalog" where
  "add_all_databases ds c = fold (\<lambda>d c. add_all_schemas (fst d) (snd d) (add_database (fst d) c)) ds c"

definition add_all_users :: "(string \<times> string \<times> string) list \<Rightarrow> Catalog \<Rightarrow> Catalog" where
  "add_all_users us c = fold (\<lambda>u. internal_set_user (fst u) (fst (snd u)) (snd (snd u))) us c"

lemma cat_read_schemas_enc:
  "list_all fits_u16 ss \<Longrightarrow>
   cat_read_schemas db (length ss) (concat (map put_string_u16 ss) @ r) c = (Some r, add_all_schemas db ss c)"
  by (induction ss arbitrary: c) (simp_all add: add_all_schemas_def)

lemma cat_read_databases_enc:
  "list_all (\<lambda>d. fits_u16 (fst d) \<and> fits_u32 (snd d) \<and> list_all fits_u16 (snd d)) ds \<Longrightarrow>
   cat_read_databases (length ds) (concat (map put_database ds) @ r) c = (Some r, add_all_databases ds c)"
  by (induction ds arbitrary: c)
    (simp_all add: put_database_def unat_of_nat_fits_u32 cat_read_schemas_enc add_all_databases_def)

interpretation userc: codec put_user read_user "\<lambda>u. fits_u16 (fst u) \<and> fits_u16 (fst (snd u)) \<and> fits_u16 (snd (snd u))"
  by unfold_locales (simp add: put_user_def read_user_def)

lemma cat_read_users_enc:
  "list_all (\<lambda>u. fits_u16 (fst u) \<and> fits_u16 (fst (snd u)) \<and> fits_u16 (snd (snd u))) us \<Longrightarrow>
   cat_read_users (length us) (concat (map put_user us) @ r) c = (Some r, add_all_users us c)"
  by (induction us arbitrary: c) (auto simp: userc.dec_enc add_all_users_def)

text \<open>Decoding an encoding replays it onto the target catalog.\<close>

lemma catalog_decode_encode:
  assumes "catalog_fits c"
  defines "s \<equiv> internal_snapshot c"
  shows "catalog_decode (catalog_encode c) c0 =
    (let c1 = add_all_users (snap_users s) (add_all_databases (snap_databases s) c0) in
     if current_db c = [] then (Inr True, c1)
     else case set_current_database (current_db c) c1 of Inl e \<Rightarrow> (Inl e, c1) | Inr c2 \<Rightarrow> (Inr True, c2))"
proof -
  have ds: "list_all (\<lambda>d. fits_u16 (fst d) \<and> fits_u32 (snd d) \<and> list_all fits_u16 (snd d)) (snap_databases s)"
    using assms(1) by (fastforce simp: s_def internal_snapshot_def catalog_fits_def list_all_iff fits_u32_def)
  have us: "list_all (\<lambda>u. fits_u16 (fst u) \<and> fits_u16 (fst (snd u)) \<and> fits_u16 (snd (snd u))) (snap_users s)"
    using assms(1) by (auto simp: s_def internal_snapshot_def catalog_fits_def list_all_iff)
  have len: "fits_u32 (snap_databases s)" "fits_u32 (snap_users s)" "fits_u16 (snap_current_db s)"
    using assms(1) by (simp_all add: s_def internal_snapshot_def catalog_fits_def fits_u32_def)
  have e: "catalog_encode c = put_u32 kCatalogFormatVersion @ put_string_u16 (snap_current_db s) @
     put_u32 (of_nat (length (snap_databases s))) @ concat (map put_database (snap_databases s)) @
     put_u32 (of_nat (length (snap_users s))) @ concat (map put_user (snap_users s)) @ []"
    by (simp add: catalog_encode_def s_def Let_def)
  have cur: "snap_current_db s = current_db c" by (simp add: s_def internal_snapshot_def)
  have up: "cat_read_user_part cur (put_u32 (of_nat (length (snap_users s))) @ concat (map put_user (snap_users s)) @ []) c1 =
     (let c2 = add_all_users (snap_users s) c1 in
      if cur = [] then (Inr True, c2)
      else case set_current_database cur c2 of Inl e \<Rightarrow> (Inl e, c2) | Inr c3 \<Rightarrow> (Inr True, c3))" for cur c1
    using cat_read_users_enc [OF us, of "[]" c1] len
    by (simp add: cat_read_user_part_def unat_of_nat_fits_u32 Let_def split: sum.split)
  have body: "cat_read_body cur (put_u32 (of_nat (length (snap_databases s))) @ concat (map put_database (snap_databases s)) @
       put_u32 (of_nat (length (snap_users s))) @ concat (map put_user (snap_users s)) @ []) c0 =
     cat_read_user_part cur (put_u32 (of_nat (length (snap_users s))) @ concat (map put_user (snap_users s)) @ [])
       (add_all_databases (snap_databases s) c0)" for cur
    using cat_read_databases_enc [OF ds] len by (simp add: cat_read_body_def unat_of_nat_fits_u32)
  show ?thesis
    unfolding e using len
    by (simp only: catalog_decode_def read_put_u32 read_put_string_u16 option.case prod.case body up cur
        simp_thms if_False Let_def)
qed

section \<open>The catalog that comes back\<close>

text \<open>The part of the invariant the databases have to satisfy, which every step of the decoder keeps.\<close>

definition dbs_ok :: "Catalog \<Rightarrow> bool" where
  "dbs_ok c \<longleftrightarrow> omap_ok (databases c) \<and> (\<forall>(n, d) \<in> set (databases c). db_ok n d)"

lemma dbs_ok_lookup: "dbs_ok c \<Longrightarrow> map_of (databases c) n = Some d \<Longrightarrow> db_ok n d"
  by (auto simp: dbs_ok_def dest: map_of_SomeD)

lemma dbs_ok_put: "dbs_ok c \<Longrightarrow> db_ok n d \<Longrightarrow> dbs_ok (c\<lparr>databases := omap_put n d (databases c)\<rparr>)"
  using ball_omap_put [of "databases c" db_ok n d] by (simp add: dbs_ok_def)

lemma db_ok_put_schema: "db_ok n d \<Longrightarrow> db_ok n (d\<lparr>db_schemas := omap_put s s (db_schemas d)\<rparr>)"
  using ball_omap_put [of "db_schemas d" "(=)" s s] by (simp add: db_ok_def)

lemma db_ok_ext:
  assumes "db_ok n d" "db_ok n d'" "\<And>s. has_key (db_schemas d) s = has_key (db_schemas d') s"
  shows "d = d'"
proof -
  have val: "map_of (db_schemas x) k = (if has_key (db_schemas x) k then Some k else None)" if "db_ok n x" for x k
    using that map_of_SomeD [of "db_schemas x" k] by (fastforce simp: has_key_def db_ok_def)
  have "db_schemas d = db_schemas d'"
    using assms val [OF assms(1)] val [OF assms(2)] by (intro omap_ext) (auto simp: db_ok_def)
  with assms show ?thesis by (simp add: db_ok_def)
qed

lemma databases_ext:
  assumes "dbs_ok c" "dbs_ok c'" "\<And>n. database_exists c n = database_exists c' n"
    and "\<And>n s. schema_exists c n s = schema_exists c' n s"
  shows "databases c = databases c'"
proof -
  have "map_of (databases c) n = map_of (databases c') n" for n
  proof (cases "map_of (databases c) n")
    case None
    with assms(3) [of n] show ?thesis by (simp add: database_exists_def has_key_def)
  next
    case (Some d)
    with assms(3) [of n] obtain d' where d': "map_of (databases c') n = Some d'"
      by (auto simp: database_exists_def has_key_def)
    have "d = d'"
      using db_ok_ext [OF dbs_ok_lookup [OF assms(1) Some] dbs_ok_lookup [OF assms(2) d']] assms(4) [of n] Some d'
      by (simp add: schema_exists_def)
    with Some d' show ?thesis by simp
  qed
  with assms(1,2) show ?thesis by (intro omap_ext ext) (simp_all add: dbs_ok_def)
qed

lemma db_schemas_new: "db_schemas (new_database n) = [(''public'', ''public'')]"
  by (simp add: new_database_def)

lemma add_database_effect:
  assumes "dbs_ok c"
  shows "dbs_ok (add_database n c)" "users (add_database n c) = users c"
    "database_exists (add_database n c) m \<longleftrightarrow> m = n \<or> database_exists c m"
    "schema_exists (add_database n c) m s \<longleftrightarrow> m = n \<and> s = ''public'' \<or> schema_exists c m s"
  using assms dbs_ok_lookup [OF assms, of n] dbs_ok_put [OF assms db_ok_new]
  by (auto simp: add_database_def create_database_def database_exists_def schema_exists_def
      db_schemas_new db_ok_def has_key_def split: option.splits)

lemma add_schema_effect:
  assumes "dbs_ok c" "database_exists c n"
  shows "dbs_ok (add_schema n s c)" "users (add_schema n s c) = users c"
    "database_exists (add_schema n s c) m \<longleftrightarrow> database_exists c m"
    "schema_exists (add_schema n s c) m t \<longleftrightarrow> m = n \<and> t = s \<or> schema_exists c m t"
  using assms dbs_ok_lookup [OF assms(1), of n]
  by (auto simp: add_schema_def create_schema_def database_exists_def schema_exists_def dbs_ok_put db_ok_put_schema
      has_key_def split: option.splits)

lemma add_all_schemas_effect:
  assumes "dbs_ok c" "database_exists c n"
  shows "dbs_ok (add_all_schemas n ss c) \<and> users (add_all_schemas n ss c) = users c \<and>
    (\<forall>m. database_exists (add_all_schemas n ss c) m \<longleftrightarrow> database_exists c m) \<and>
    (\<forall>m t. schema_exists (add_all_schemas n ss c) m t \<longleftrightarrow> m = n \<and> t \<in> set ss \<or> schema_exists c m t)"
  using assms
proof (induction ss arbitrary: c)
  case (Cons s ss)
  from Cons.IH [of "add_schema n s c"] add_schema_effect [OF Cons.prems, of s] Cons.prems
  show ?case by (auto simp: add_all_schemas_def)
qed (simp add: add_all_schemas_def)

lemma add_all_databases_effect:
  assumes "dbs_ok c"
  shows "dbs_ok (add_all_databases ds c) \<and> users (add_all_databases ds c) = users c \<and>
    (\<forall>m. database_exists (add_all_databases ds c) m \<longleftrightarrow> m \<in> fst ` set ds \<or> database_exists c m) \<and>
    (\<forall>m t. schema_exists (add_all_databases ds c) m t \<longleftrightarrow>
       (\<exists>d \<in> set ds. m = fst d \<and> (t = ''public'' \<or> t \<in> set (snd d))) \<or> schema_exists c m t)"
  using assms
proof (induction ds arbitrary: c)
  case (Cons d ds)
  let ?c = "add_all_schemas (fst d) (snd d) (add_database (fst d) c)"
  note e1 = add_database_effect [OF Cons.prems, of "fst d"]
  have e2: "dbs_ok ?c" "users ?c = users c" "\<And>m. database_exists ?c m \<longleftrightarrow> m = fst d \<or> database_exists c m"
    "\<And>m t. schema_exists ?c m t \<longleftrightarrow> m = fst d \<and> (t = ''public'' \<or> t \<in> set (snd d)) \<or> schema_exists c m t"
    using add_all_schemas_effect [OF e1(1), of "fst d" "snd d"] e1 by auto
  have "add_all_databases (d # ds) c = add_all_databases ds ?c" by (simp add: add_all_databases_def)
  with Cons.IH [OF e2(1)] e2 show ?case by auto
qed (simp add: add_all_databases_def)

lemma users_add_all_users:
  "users (add_all_users us c) =
     fold (\<lambda>(k, u). omap_put k u)
       (map (\<lambda>(n, h, s). (n, \<lparr>us_name = n, us_password_hash = h, us_salt = s\<rparr>)) us) (users c)"
  "databases (add_all_users us c) = databases c"
  by (induction us arbitrary: c) (auto simp: add_all_users_def internal_set_user_def)

lemma snapshot_users:
  assumes "\<forall>(n, u) \<in> set us. us_name u = n"
  shows "map (\<lambda>(n, h, s). (n, \<lparr>us_name = n, us_password_hash = h, us_salt = s\<rparr>))
      (map (\<lambda>(n, u). (n, us_password_hash u, us_salt u)) us) = us"
  using assms by (induction us) auto

lemma has_key_iff: "has_key m k \<longleftrightarrow> k \<in> fst ` set m"
  by (auto simp: has_key_def map_of_eq_None_iff)

lemma snapshot_names: "n \<in> fst ` set (snap_databases (internal_snapshot c)) \<longleftrightarrow> database_exists c n"
  by (force simp: internal_snapshot_def database_exists_def has_key_iff)

lemma snapshot_schemas:
  assumes "omap_ok (databases c)"
  shows "(\<exists>d \<in> set (snap_databases (internal_snapshot c)). n = fst d \<and> t \<in> set (snd d)) \<longleftrightarrow> schema_exists c n t"
proof -
  have "(\<exists>d \<in> set (snap_databases (internal_snapshot c)). n = fst d \<and> t \<in> set (snd d)) \<longleftrightarrow>
      (\<exists>d. (n, d) \<in> set (databases c) \<and> has_key (db_schemas d) t)"
    by (force simp: internal_snapshot_def has_key_iff)
  also have "\<dots> \<longleftrightarrow> schema_exists c n t"
    using map_of_is_SomeI [OF omap_ok_distinct [OF assms], of n]
    by (cases "map_of (databases c) n") (auto simp: schema_exists_def dest: map_of_SomeD)
  finally show ?thesis .
qed

section \<open>The JSON form\<close>

definition database_to_json :: "string \<Rightarrow> DatabaseInfo \<Rightarrow> json" where
  "database_to_json n d = j_set ''schemas'' (JArray (map (\<lambda>(s, _). JString s) (db_schemas d)))
     (j_set ''name'' (JString n) JNull)"

definition user_to_json :: "string \<Rightarrow> UserInfo \<Rightarrow> json" where
  "user_to_json n u = j_set ''salt'' (JString (us_salt u))
     (j_set ''password_hash'' (JString (us_password_hash u)) (j_set ''name'' (JString n) JNull))"

definition catalog_to_json :: "Catalog \<Rightarrow> json" where
  "catalog_to_json c =
     j_set ''current_db'' (JString (current_db c))
      (j_set ''users'' (JArray (map (\<lambda>(n, u). user_to_json n u) (users c)))
       (j_set ''databases'' (JArray (map (\<lambda>(n, d). database_to_json n d) (databases c))) JNull))"

definition json_database :: "json \<Rightarrow> DatabaseInfo option" where
  "json_database jdb = do {
     name \<leftarrow> get_string (j_at jdb ''name'');
     ss \<leftarrow> (if j_contains jdb ''schemas'' then those (map get_string (j_elements (j_at jdb ''schemas''))) else Some []);
     let m = fold (\<lambda>s. omap_put s s) ss [];
     Some \<lparr>db_name = name, db_schemas = (if has_key m ''public'' then m else omap_put ''public'' ''public'' m)\<rparr> }"

definition json_user :: "json \<Rightarrow> UserInfo option" where
  "json_user ju = do {
     name \<leftarrow> get_string (j_at ju ''name'');
     pw \<leftarrow> get_string (j_at ju ''password_hash'');
     salt \<leftarrow> get_string (j_at ju ''salt'');
     Some \<lparr>us_name = name, us_password_hash = pw, us_salt = salt\<rparr> }"

text \<open>A loop stops with \<open>False\<close> at the first element whose accessors throw.\<close>

fun load_databases :: "json list \<Rightarrow> Catalog \<Rightarrow> bool \<times> Catalog" where
  "load_databases [] c = (True, c)"
| "load_databases (j # js) c = (case json_database j of None \<Rightarrow> (False, c)
     | Some d \<Rightarrow> load_databases js (c\<lparr>databases := omap_put (db_name d) d (databases c)\<rparr>))"

fun load_users :: "json list \<Rightarrow> Catalog \<Rightarrow> bool \<times> Catalog" where
  "load_users [] c = (True, c)"
| "load_users (j # js) c = (case json_user j of None \<Rightarrow> (False, c)
     | Some u \<Rightarrow> load_users js (c\<lparr>users := omap_put (us_name u) u (users c)\<rparr>))"

definition catalog_from_json :: "json \<Rightarrow> Catalog \<Rightarrow> bool \<times> Catalog" where
  "catalog_from_json j c =
     (let (ok, c) = load_databases (j_elements (j_at j ''databases'')) (c\<lparr>databases := [], users := []\<rparr>) in
      if \<not> ok then (False, c)
      else let c = (if has_key (databases c) ''defaultdb'' then c
                    else c\<lparr>databases := omap_put ''defaultdb'' (new_database ''defaultdb'') (databases c)\<rparr>);
               (ok, c) = load_users (j_elements (j_at j ''users'')) c in
      if \<not> ok then (False, c)
      else (True, c\<lparr>current_db := value_string j ''current_db'' ''defaultdb''\<rparr>))"

lemma json_database_to_json:
  assumes "db_ok n d"
  shows "json_database (database_to_json n d) = Some d"
proof -
  have names: "map fst (db_schemas d) = map snd (db_schemas d)" "omap_ok (db_schemas d)"
    using assms by (auto simp: db_ok_def)
  have "those (map (\<lambda>x. get_string (JString (fst x))) xs) = Some (map fst xs)" for xs :: "(string \<times> string) list"
    by (induction xs) simp_all
  moreover have "fold (\<lambda>s. omap_put s s) (map fst (db_schemas d)) [] = fold (\<lambda>(k, v). omap_put k v) (db_schemas d) []"
    using assms by (auto simp: fold_map db_ok_def intro!: fold_cong)
  ultimately show ?thesis
    using assms omap_rebuild [OF names(2)]
    by (simp add: json_database_def database_to_json_def db_ok_def case_prod_beta comp_def)
qed

lemma load_databases_to_json:
  "\<forall>(n, d) \<in> set ds. db_ok n d \<Longrightarrow>
   load_databases (map (\<lambda>(n, d). database_to_json n d) ds) c =
     (True, c\<lparr>databases := fold (\<lambda>(k, v). omap_put k v) ds (databases c)\<rparr>)"
  by (induction ds arbitrary: c) (auto simp: json_database_to_json, simp add: db_ok_def)

lemma json_user_to_json: "us_name u = n \<Longrightarrow> json_user (user_to_json n u) = Some u"
  by (cases u) (simp add: json_user_def user_to_json_def)

lemma load_users_to_json:
  "\<forall>(n, u) \<in> set us. us_name u = n \<Longrightarrow>
   load_users (map (\<lambda>(n, u). user_to_json n u) us) c =
     (True, c\<lparr>users := fold (\<lambda>(k, v). omap_put k v) us (users c)\<rparr>)"
  by (induction us arbitrary: c) (auto simp: json_user_to_json)

lemma catalog_json_back: "catalog_ok c \<Longrightarrow> catalog_from_json (catalog_to_json c) c0 = (True, c)"
  by (simp add: catalog_from_json_def catalog_to_json_def catalog_ok_def load_databases_to_json load_users_to_json
      omap_rebuild value_string_def Let_def)

section \<open>Properties\<close>

text \<open>C34: A catalog written to a checkpoint and decoded into a new catalog is the same catalog again:
  databases, schemas, users with their hashes and salts, and the current database.\<close>

theorem catalog_roundtrip:
  assumes "catalog_ok c" "catalog_fits c" "current_db c \<noteq> []"
  shows "catalog_decode (catalog_encode c) new_catalog = (Inr True, c)"
proof -
  let ?s = "internal_snapshot c"
  let ?c1 = "add_all_databases (snap_databases ?s) new_catalog"
  let ?c2 = "add_all_users (snap_users ?s) ?c1"
  have ok: "dbs_ok new_catalog" "dbs_ok c" using catalog_ok_new assms(1) by (simp_all add: catalog_ok_def dbs_ok_def)
  note e = add_all_databases_effect [OF ok(1), of "snap_databases ?s"]
  have def_db: "database_exists c ''defaultdb''" "schema_exists c n ''public'' \<longleftrightarrow> database_exists c n" for n
    using assms(1) dbs_ok_lookup [OF ok(2), of n]
    by (auto simp: catalog_ok_def database_exists_def schema_exists_def has_key_def db_ok_def split: option.splits)
  have names: "n \<in> fst ` set (snap_databases ?s) \<longleftrightarrow> database_exists c n" for n
    by (simp add: snapshot_names)
  have schemas: "(\<exists>d \<in> set (snap_databases ?s). n = fst d \<and> t \<in> set (snd d)) \<longleftrightarrow> schema_exists c n t" for n t
    using ok(2) by (simp add: snapshot_schemas dbs_ok_def)
  have dbs: "databases ?c1 = databases c"
  proof (rule databases_ext)
    show "database_exists ?c1 n = database_exists c n" for n
      using e names def_db by (auto simp: new_catalog_def database_exists_def has_key_def)
    show "schema_exists ?c1 n t = schema_exists c n t" for n t
    proof -
      have "schema_exists new_catalog n t \<longleftrightarrow> n = ''defaultdb'' \<and> t = ''public''"
        by (simp add: new_catalog_def schema_exists_def has_key_def db_schemas_new)
      moreover have "(\<exists>d \<in> set (snap_databases ?s). n = fst d \<and> (t = ''public'' \<or> t \<in> set (snd d))) \<longleftrightarrow>
          t = ''public'' \<and> n \<in> fst ` set (snap_databases ?s) \<or> schema_exists c n t"
        unfolding schemas [symmetric] by blast
      ultimately show ?thesis using e names [of n] def_db by blast
    qed
  qed (use e ok in simp_all)
  have us: "users ?c2 = users c"
    using assms(1) e snapshot_users [of "users c"] omap_rebuild [of "users c"]
    by (simp add: users_add_all_users internal_snapshot_def catalog_ok_def new_catalog_def)
  have "set_current_database (current_db c) ?c2 = Inr c"
    using assms(1) dbs us by (simp add: set_current_database_def users_add_all_users catalog_ok_def)
  with assms(2,3) show ?thesis by (simp add: catalog_decode_encode Let_def)
qed

lemma catalog_roundtrip_witness:
  "catalog_decode (catalog_encode sample_catalog) new_catalog = (Inr True, sample_catalog)"
  by (rule catalog_roundtrip)
    (simp_all add: catalog_ok_def catalog_fits_def sample_catalog_def new_catalog_def new_database_def has_key_def
      omap_ok_def db_ok_def fits_u16_def fits_u32_def)


text \<open>The JSON form of a catalog restores it into any catalog object, whatever that held before.\<close>

theorem catalog_json_roundtrip:
  assumes "catalog_ok c"
  shows "catalog_from_json (catalog_to_json c) c0 = (True, c)"
  by (rule catalog_json_back) (rule assms)

lemma catalog_json_roundtrip_witness:
  "catalog_from_json (catalog_to_json sample_catalog) new_catalog = (True, sample_catalog)"
  by (rule catalog_json_roundtrip)
    (simp add: catalog_ok_def sample_catalog_def new_catalog_def new_database_def has_key_def omap_ok_def db_ok_def)

end
