(* ===== verification/Checkpoint_Codec.thy ===== *)
theory Checkpoint_Codec
  imports Wal_Payload Clog_Codec Catalog_Codec
begin

text \<open>
  Checkpoints: the record of \<open>storage/checkpoint.h\<close>, its binary form (\<open>storage/checkpoint_codec.cpp\<close>),
  its JSON form and the manager that writes and reads the file (\<open>storage/checkpoint.cpp\<close>).

  A decoder that fails has filled a part of its output; every caller drops it, and so does the
  model (\<open>None\<close>). The two files of the data directory are the record \<open>Disk\<close>, together with
  whether they can be opened for writing and reading.
\<close>

section \<open>The checkpoint\<close>

record Checkpoint =
  ck_version :: u64
  ck_last_seq :: u64
  ck_timestamp :: u64
  ck_tables :: "TableSchema list"
  ck_table_rows :: "(string, (u64 \<times> row) list) omap"
  ck_row_id_counters :: "(string, u64) omap"
  ck_indexes :: "(string, IndexInfo list) omap"
  ck_next_xid :: TransactionId
  ck_clog_entries :: json
  ck_catalog_data :: json
  ck_catalog_bytes :: bytes
  ck_clog_bytes :: bytes

definition new_checkpoint :: Checkpoint where
  "new_checkpoint = \<lparr>ck_version = 1, ck_last_seq = 0, ck_timestamp = 0, ck_tables = [], ck_table_rows = [],
     ck_row_id_counters = [], ck_indexes = [], ck_next_xid = 3, ck_clog_entries = JNull, ck_catalog_data = JNull,
     ck_catalog_bytes = [], ck_clog_bytes = []\<rparr>"

section \<open>Binary form\<close>

text \<open>In the C++ literal the escape \<open>\x01C\<close> is one character, code 28.\<close>

definition kCheckpointMagic :: bytes where
  "kCheckpointMagic = [0x4A, 0x4D, 0x44, 0x42, 0x1C, 0x4B, 0x50, 0x01]"

definition kCheckpointFormatVersionV2 :: u32 where
  "kCheckpointFormatVersionV2 = 2"

definition kCheckpointFormatVersionV3 :: u32 where
  "kCheckpointFormatVersionV3 = 3"

definition encode_entry_list :: "string \<times> u64 list \<Rightarrow> bytes" where
  "encode_entry_list e = put_string_u16 (fst e) @ put_vec put_i64 (snd e)"

definition encode_index :: "IndexInfo \<Rightarrow> bytes" where
  "encode_index idx = put_string_u16 (ix_column idx) @ put_vec encode_entry_list (ix_entries idx)"

definition decode_entry_list :: "(string \<times> u64 list) reader" where
  "decode_entry_list r = do {
     (k, r) \<leftarrow> read_string_u16 r;
     (indices, r) \<leftarrow> read_vec read_i64 r;
     Some ((k, indices), r) }"

definition decode_index :: "IndexInfo reader" where
  "decode_index r = do {
     (column, r) \<leftarrow> read_string_u16 r;
     (es, r) \<leftarrow> read_vec decode_entry_list r;
     Some (\<lparr>ix_column = column, ix_entries = fold (\<lambda>(k, v). omap_put k v) es []\<rparr>, r) }"

definition encode_table :: "TableSchema \<Rightarrow> bytes" where
  "encode_table t = put_string_u16 (ts_name t) @ put_vec encode_column (ts_columns t) @ put_i64 (ts_row_count t)"

definition decode_table :: "TableSchema reader" where
  "decode_table r = do {
     (name, r) \<leftarrow> read_string_u16 r;
     (cols, r) \<leftarrow> read_vec decode_column r;
     (row_count, r) \<leftarrow> read_i64 r;
     Some (\<lparr>ts_name = name, ts_columns = cols, ts_row_count = row_count\<rparr>, r) }"

definition encode_rowid_row :: "u64 \<times> row \<Rightarrow> bytes" where
  "encode_rowid_row e = put_i64 (fst e) @ wal_encode_row (snd e)"

definition decode_rowid_row :: "(u64 \<times> row) reader" where
  "decode_rowid_row r = do { (rid, r) \<leftarrow> read_i64 r; (m, r) \<leftarrow> decode_row r; Some ((rid, m), r) }"

text \<open>The loops over the maps of the checkpoint: a name and what belongs to it.\<close>

definition encode_named :: "('a \<Rightarrow> bytes) \<Rightarrow> string \<times> 'a \<Rightarrow> bytes" where
  "encode_named enc e = put_string_u16 (fst e) @ enc (snd e)"

definition decode_named :: "'a reader \<Rightarrow> (string \<times> 'a) reader" where
  "decode_named rd r = do { (name, r) \<leftarrow> read_string_u16 r; (x, r) \<leftarrow> rd r; Some ((name, x), r) }"

definition json_text :: "json \<Rightarrow> bytes" where
  "json_text j = (if j \<noteq> JNull then string_bytes (dump j 0) else [])"

definition checkpoint_encode :: "Checkpoint \<Rightarrow> bytes" where
  "checkpoint_encode ckp =
     put_u32 kCheckpointFormatVersionV3 @ put_i64 (ck_version ckp) @ put_i64 (ck_last_seq ckp) @
     put_i64 (ck_timestamp ckp) @ put_u32 (ck_next_xid ckp) @
     put_vec encode_table (ck_tables ckp) @
     put_vec (encode_named (put_vec encode_rowid_row)) (ck_table_rows ckp) @
     put_vec (encode_named put_i64) (ck_row_id_counters ckp) @
     put_vec (encode_named (put_vec encode_index)) (ck_indexes ckp) @
     put_string_u32 (bytes_string (if ck_clog_bytes ckp \<noteq> [] then ck_clog_bytes ckp else json_text (ck_clog_entries ckp))) @
     put_string_u32 (bytes_string (if ck_catalog_bytes ckp \<noteq> [] then ck_catalog_bytes ckp else json_text (ck_catalog_data ckp)))"

text \<open>\<open>ckp->table_rows[name]\<close> and \<open>ckp->indexes_data[name]\<close> are appended to.\<close>

definition append_named :: "string \<times> 'a list \<Rightarrow> (string, 'a list) omap \<Rightarrow> (string, 'a list) omap" where
  "append_named e m = omap_put (fst e) (omap_at [] m (fst e) @ snd e) m"

definition read_checkpoint :: "Checkpoint \<Rightarrow> (u32 \<times> Checkpoint \<times> string \<times> string) reader" where
  "read_checkpoint ckp r = do {
     (fmt, r) \<leftarrow> read_u32 r;
     if fmt = kCheckpointFormatVersionV3 \<or> fmt = kCheckpointFormatVersionV2 then do {
       (version, r) \<leftarrow> read_i64 r;
       (last_seq, r) \<leftarrow> read_i64 r;
       (timestamp, r) \<leftarrow> read_i64 r;
       (next_xid, r) \<leftarrow> read_u32 r;
       (ts, r) \<leftarrow> read_vec decode_table r;
       (trs, r) \<leftarrow> read_vec (decode_named (read_vec decode_rowid_row)) r;
       (cs, r) \<leftarrow> read_vec (decode_named read_i64) r;
       (ixs, r) \<leftarrow> read_vec (decode_named (read_vec decode_index)) r;
       (clog_blob, r) \<leftarrow> read_string_u32 r;
       (catalog_blob, r) \<leftarrow> read_string_u32 r;
       Some ((fmt, ckp\<lparr>ck_version := version, ck_last_seq := last_seq, ck_timestamp := timestamp,
           ck_next_xid := next_xid, ck_tables := ck_tables ckp @ ts,
           ck_table_rows := fold append_named trs (ck_table_rows ckp),
           ck_row_id_counters := fold (\<lambda>(k, v). omap_put k v) cs (ck_row_id_counters ckp),
           ck_indexes := fold append_named ixs (ck_indexes ckp)\<rparr>, clog_blob, catalog_blob), r) }
     else None }"

definition parse_blob :: "string \<Rightarrow> json option" where
  "parse_blob s = (if s = [] then Some JNull else case json_parse s of Inl _ \<Rightarrow> None | Inr j \<Rightarrow> Some j)"

text \<open>The result, with the two embedded texts handed to the caller.\<close>

definition checkpoint_decode :: "bytes \<Rightarrow> Checkpoint \<Rightarrow> (Checkpoint \<times> string \<times> string) option" where
  "checkpoint_decode bs ckp = do {
     (fmt, ckp, clog_blob, catalog_blob) \<leftarrow> at_eof (read_checkpoint ckp bs);
     ckp \<leftarrow> (if fmt = kCheckpointFormatVersionV3 then
         (let ckp = ckp\<lparr>ck_catalog_bytes := string_bytes catalog_blob, ck_catalog_data := JNull,
            ck_clog_entries := JNull, ck_clog_bytes := []\<rparr> in
          if take 4 clog_blob = kCLogMagic then Some (ckp\<lparr>ck_clog_bytes := string_bytes clog_blob\<rparr>)
          else do { j \<leftarrow> parse_blob clog_blob; Some (ckp\<lparr>ck_clog_entries := j\<rparr>) })
       else do {
         jc \<leftarrow> parse_blob catalog_blob;
         jl \<leftarrow> parse_blob clog_blob;
         Some (ckp\<lparr>ck_catalog_data := jc, ck_clog_entries := jl, ck_clog_bytes := []\<rparr>) });
     Some (ckp, clog_blob, catalog_blob) }"

section \<open>JSON form\<close>

fun value_to_json :: "val \<Rightarrow> json" where
  "value_to_json VNull = JNull"
| "value_to_json (VInt i) = JInt i"
| "value_to_json (VDouble d) = JFloat d"
| "value_to_json (VString s) = JString s"
| "value_to_json (VBool b) = JBool b"

fun json_to_value :: "json \<Rightarrow> val option" where
  "json_to_value JNull = Some VNull"
| "json_to_value (JInt i) = Some (VInt i)"
| "json_to_value (JFloat d) = Some (VDouble d)"
| "json_to_value (JBool b) = Some (VBool b)"
| "json_to_value (JString s) = Some (VString s)"
| "json_to_value _ = None"

definition row_to_json :: "row \<Rightarrow> json" where
  "row_to_json m = fold (\<lambda>(k, v). j_set k (value_to_json v)) m JNull"

text \<open>Arrays and objects in a row are skipped.\<close>

definition json_to_row :: "json \<Rightarrow> row" where
  "json_to_row j = fold (\<lambda>(k, v) m. case json_to_value v of None \<Rightarrow> m | Some x \<Rightarrow> omap_put k x m) (j_members j) []"

definition column_to_json :: "ColumnDef \<Rightarrow> json" where
  "column_to_json c = j_set ''primary_key'' (JBool (cd_primary_key c)) (j_set ''nullable'' (JBool (cd_nullable c))
     (j_set ''type'' (JString (data_type_name (cd_type c))) (j_set ''name'' (JString (cd_name c)) JNull)))"

definition table_to_json :: "TableSchema \<Rightarrow> json" where
  "table_to_json t = j_set ''row_count'' (JInt (ts_row_count t))
     (j_set ''columns'' (JArray (map column_to_json (ts_columns t))) (j_set ''name'' (JString (ts_name t)) JNull))"

definition index_to_json :: "IndexInfo \<Rightarrow> json" where
  "index_to_json idx = j_set ''entries''
     (fold (\<lambda>(k, vs). j_set k (JArray (map JInt vs))) (ix_entries idx) JNull)
     (j_set ''column'' (JString (ix_column idx)) JNull)"

definition map_to_json :: "('a \<Rightarrow> json) \<Rightarrow> (string, 'a) omap \<Rightarrow> json" where
  "map_to_json f m = fold (\<lambda>(k, x). j_set k (f x)) m (JObject [])"

definition checkpoint_to_json :: "Checkpoint \<Rightarrow> json" where
  "checkpoint_to_json ckp =
     j_set ''catalog'' (ck_catalog_data ckp) (j_set ''clog'' (ck_clog_entries ckp)
      (j_set ''next_xid'' (JInt (ucast (ck_next_xid ckp)))
      (j_set ''indexes'' (map_to_json (\<lambda>xs. JArray (map index_to_json xs)) (ck_indexes ckp))
      (j_set ''row_id_counters'' (map_to_json JInt (ck_row_id_counters ckp))
      (j_set ''data'' (map_to_json (\<lambda>rows. JArray (map (\<lambda>(rid, m). j_set ''_rowid'' (JInt rid) (row_to_json m)) rows))
         (ck_table_rows ckp))
      (j_set ''tables'' (JArray (map table_to_json (ck_tables ckp)))
      (j_set ''timestamp'' (JInt (ck_timestamp ckp))
      (j_set ''last_seq'' (JInt (ck_last_seq ckp)) (j_set ''version'' (JInt (ck_version ckp)) JNull)))))))))"

text \<open>\<open>None\<close> is an exception of an accessor; the loader then drops the checkpoint.\<close>

definition json_column :: "json \<Rightarrow> ColumnDef option" where
  "json_column c = do {
     name \<leftarrow> get_string (j_at c ''name'');
     Some \<lparr>cd_name = name, cd_type = data_type_from_name (value_string c ''type'' ''TEXT''),
       cd_nullable = value_bool c ''nullable'' True, cd_primary_key = value_bool c ''primary_key'' False,
       cd_default = None\<rparr> }"

definition json_table :: "json \<Rightarrow> TableSchema option" where
  "json_table t = do {
     name \<leftarrow> get_string (j_at t ''name'');
     cols \<leftarrow> those (map json_column (j_elements (j_at t ''columns'')));
     Some \<lparr>ts_name = name, ts_columns = cols, ts_row_count = value_int t ''row_count'' 0\<rparr> }"

definition json_index :: "json \<Rightarrow> IndexInfo option" where
  "json_index j = do {
     column \<leftarrow> get_string (j_at j ''column'');
     es \<leftarrow> those (map (\<lambda>(k, v). map_option (Pair k) (those (map get_int (j_elements v)))) (j_members (j_at j ''entries'')));
     Some \<lparr>ix_column = column, ix_entries = fold (\<lambda>(k, v). omap_put k v) es []\<rparr> }"

definition json_rowid_row :: "json \<Rightarrow> u64 \<times> row" where
  "json_rowid_row j = (let m = json_to_row j in (case row_int m ''_rowid'' of None \<Rightarrow> 0 | Some i \<Rightarrow> i, m))"

text \<open>A name whose array is empty gets no entry: the entries appear with their first element.\<close>

definition append_each :: "string \<times> 'a list \<Rightarrow> (string, 'a list) omap \<Rightarrow> (string, 'a list) omap" where
  "append_each e m = fold (\<lambda>x. append_named (fst e, [x])) (snd e) m"

definition checkpoint_from_json :: "json \<Rightarrow> Checkpoint option" where
  "checkpoint_from_json j = do {
     ts \<leftarrow> those (map json_table (j_elements (j_at j ''tables'')));
     let trs = map (\<lambda>(k, v). (k, map json_rowid_row (j_elements v))) (j_members (j_at j ''data''));
     cs \<leftarrow> those (map (\<lambda>(k, v). map_option (Pair k) (get_int v)) (j_members (j_at j ''row_id_counters'')));
     ixs \<leftarrow> those (map (\<lambda>(k, v). map_option (Pair k) (those (map json_index (j_elements v)))) (j_members (j_at j ''indexes'')));
     nx \<leftarrow> (if j_contains j ''next_xid'' then map_option ucast (get_int (j_at j ''next_xid'')) else Some 3);
     Some (new_checkpoint\<lparr>ck_version := value_int j ''version'' 1, ck_last_seq := value_int j ''last_seq'' 0,
       ck_timestamp := value_int j ''timestamp'' 0, ck_tables := ts,
       ck_table_rows := fold append_each trs [],
       ck_row_id_counters := fold (\<lambda>(k, v). omap_put k v) cs [],
       ck_indexes := fold append_each ixs [], ck_next_xid := nx,
       ck_clog_entries := (if j_contains j ''clog'' then j_at j ''clog'' else JNull),
       ck_catalog_data := (if j_contains j ''catalog'' then j_at j ''catalog'' else JNull)\<rparr>) }"

section \<open>The manager\<close>

record Disk =
  dk_bin :: "bytes option"
  dk_json :: "bytes option"
  dk_can_write :: bool
  dk_can_read :: bool

text \<open>When the file cannot be opened, \<open>save\<close> prints a message and returns.\<close>

definition ckp_save :: "Checkpoint \<Rightarrow> Disk \<Rightarrow> Disk" where
  "ckp_save ckp d = (if dk_can_write d then d\<lparr>dk_bin := Some (kCheckpointMagic @ checkpoint_encode ckp)\<rparr> else d)"

definition load_json :: "bytes \<Rightarrow> Checkpoint" where
  "load_json bs = (case json_parse (bytes_string bs) of
     Inl _ \<Rightarrow> new_checkpoint
   | Inr j \<Rightarrow> (case checkpoint_from_json j of None \<Rightarrow> new_checkpoint | Some ckp \<Rightarrow> ckp))"

definition reparse :: "string \<Rightarrow> json \<Rightarrow> json" where
  "reparse s j = (if s \<noteq> [] then (case json_parse s of Inl _ \<Rightarrow> JNull | Inr x \<Rightarrow> x) else j)"

definition ckp_load :: "Disk \<Rightarrow> Checkpoint" where
  "ckp_load d = (case dk_bin d of
     None \<Rightarrow> (case dk_json d of
         None \<Rightarrow> new_checkpoint
       | Some legacy \<Rightarrow> if dk_can_read d then load_json legacy else new_checkpoint)
   | Some bs \<Rightarrow>
       if \<not> dk_can_read d then new_checkpoint
       else if length bs < 8 then new_checkpoint
       else if take 8 bs = kCheckpointMagic then
         (case checkpoint_decode (drop 8 bs) new_checkpoint of
            None \<Rightarrow> new_checkpoint
          | Some (ckp, clog_json, catalog_json) \<Rightarrow>
              ckp\<lparr>ck_clog_entries := reparse clog_json (ck_clog_entries ckp),
                  ck_catalog_data := reparse catalog_json (ck_catalog_data ckp)\<rparr>)
       else load_json bs)"

definition get_last_seq :: "Disk \<Rightarrow> u64" where
  "get_last_seq d = ck_last_seq (ckp_load d)"

section \<open>The codecs\<close>

definition index_fits :: "IndexInfo \<Rightarrow> bool" where
  "index_fits idx \<longleftrightarrow> fits_u16 (ix_column idx) \<and> omap_ok (ix_entries idx) \<and> fits_u32 (ix_entries idx) \<and>
     list_all (\<lambda>e. fits_u16 (fst e) \<and> fits_u32 (snd e)) (ix_entries idx)"

definition table_fits :: "TableSchema \<Rightarrow> bool" where
  "table_fits t \<longleftrightarrow> fits_u16 (ts_name t) \<and> fits_u32 (ts_columns t) \<and>
     list_all (\<lambda>c. column_fits c \<and> cd_default c = None) (ts_columns t)"

interpretation i64l: stream_codec "put_vec put_i64" "read_vec read_i64" "\<lambda>xs. fits_u32 xs \<and> list_all (\<lambda>_. True) xs"
  by (rule i64c.counted)

interpretation elc: stream_codec encode_entry_list decode_entry_list "\<lambda>e. fits_u16 (fst e) \<and> fits_u32 (snd e)"
proof (rule stream_codecI)
  show "stream decode_entry_list" unfolding decode_entry_list_def by (intro stream_intros)
qed (simp add: encode_entry_list_def decode_entry_list_def i64l.dec_enc list_all_iff)

interpretation elsc: stream_codec "put_vec encode_entry_list" "read_vec decode_entry_list"
    "\<lambda>xs. fits_u32 xs \<and> list_all (\<lambda>e. fits_u16 (fst e) \<and> fits_u32 (snd e)) xs"
  by (rule elc.counted)

interpretation ixc: stream_codec encode_index decode_index index_fits
proof (rule stream_codecI)
  show "stream decode_index" unfolding decode_index_def
    by (intro stream_intros elc.stream_dec)
qed (simp add: encode_index_def decode_index_def index_fits_def elsc.dec_enc omap_rebuild)

interpretation ixsc: stream_codec "put_vec encode_index" "read_vec decode_index" "\<lambda>xs. fits_u32 xs \<and> list_all index_fits xs"
  by (rule ixc.counted)

interpretation colsc: stream_codec "put_vec encode_column" "read_vec decode_column"
    "\<lambda>xs. fits_u32 xs \<and> list_all (\<lambda>c. column_fits c \<and> cd_default c = None) xs"
  by (rule colc.counted)

interpretation tabc: stream_codec encode_table decode_table table_fits
proof (rule stream_codecI)
  show "stream decode_table" unfolding decode_table_def by (intro stream_intros)
qed (simp add: encode_table_def decode_table_def table_fits_def colsc.dec_enc)

interpretation tabsc: stream_codec "put_vec encode_table" "read_vec decode_table" "\<lambda>xs. fits_u32 xs \<and> list_all table_fits xs"
  by (rule tabc.counted)

interpretation ridc: stream_codec encode_rowid_row decode_rowid_row "\<lambda>e. wal_row_fits (snd e)"
proof (rule stream_codecI)
  show "stream decode_rowid_row" unfolding decode_rowid_row_def by (intro stream_intros)
qed (simp add: encode_rowid_row_def decode_rowid_row_def wal_encode_row_def decode_encode_row)

interpretation ridsc: stream_codec "put_vec encode_rowid_row" "read_vec decode_rowid_row"
    "\<lambda>xs. fits_u32 xs \<and> list_all (\<lambda>e. wal_row_fits (snd e)) xs"
  by (rule ridc.counted)

lemma named_codec:
  "stream_codec enc dec ok \<Longrightarrow> stream_codec (encode_named enc) (decode_named dec) (\<lambda>e. fits_u16 (fst e) \<and> ok (snd e))"
proof (rule stream_codecI)
  assume c: "stream_codec enc dec ok"
  show "stream (decode_named dec)"
    unfolding decode_named_def by (intro stream_intros stream_codec.stream_dec [OF c])
  show "decode_named dec (encode_named enc x @ r) = Some (x, r)" if "fits_u16 (fst x) \<and> ok (snd x)" for x r
    using that codec.dec_enc [OF stream_codec.axioms(1) [OF c]] by (simp add: decode_named_def encode_named_def)
qed

interpretation rowsc: stream_codec "put_vec (encode_named (put_vec encode_rowid_row))"
    "read_vec (decode_named (read_vec decode_rowid_row))"
    "\<lambda>xs. fits_u32 xs \<and> list_all (\<lambda>e. fits_u16 (fst e) \<and> fits_u32 (snd e) \<and> list_all (\<lambda>e. wal_row_fits (snd e)) (snd e)) xs"
  by (rule stream_codec.counted [OF named_codec [OF ridsc.stream_codec_axioms]])

interpretation ctrsc: stream_codec "put_vec (encode_named put_i64)" "read_vec (decode_named read_i64)"
    "\<lambda>xs. fits_u32 xs \<and> list_all (\<lambda>e. fits_u16 (fst e) \<and> True) xs"
  by (rule stream_codec.counted [OF named_codec [OF i64c.stream_codec_axioms]])

interpretation ixmsc: stream_codec "put_vec (encode_named (put_vec encode_index))"
    "read_vec (decode_named (read_vec decode_index))"
    "\<lambda>xs. fits_u32 xs \<and> list_all (\<lambda>e. fits_u16 (fst e) \<and> fits_u32 (snd e) \<and> list_all index_fits (snd e)) xs"
  by (rule stream_codec.counted [OF named_codec [OF ixsc.stream_codec_axioms]])

section \<open>Reading a whole checkpoint back\<close>

definition ckp_fits :: "Checkpoint \<Rightarrow> bool" where
  "ckp_fits c \<longleftrightarrow>
     fits_u32 (ck_tables c) \<and> list_all table_fits (ck_tables c) \<and>
     omap_ok (ck_table_rows c) \<and> fits_u32 (ck_table_rows c) \<and>
     list_all (\<lambda>e. fits_u16 (fst e) \<and> fits_u32 (snd e) \<and> list_all (\<lambda>e. wal_row_fits (snd e)) (snd e)) (ck_table_rows c) \<and>
     omap_ok (ck_row_id_counters c) \<and> fits_u32 (ck_row_id_counters c) \<and>
     list_all (\<lambda>e. fits_u16 (fst e)) (ck_row_id_counters c) \<and>
     omap_ok (ck_indexes c) \<and> fits_u32 (ck_indexes c) \<and>
     list_all (\<lambda>e. fits_u16 (fst e) \<and> fits_u32 (snd e) \<and> list_all index_fits (snd e)) (ck_indexes c) \<and>
     ck_clog_bytes c \<noteq> [] \<and> fits_u32 (ck_clog_bytes c) \<and> ck_catalog_bytes c \<noteq> [] \<and> fits_u32 (ck_catalog_bytes c)"

lemma append_named_rebuild: "omap_ok m \<Longrightarrow> fold append_named m [] = m"
proof -
  have "omap_ok (a @ m) \<Longrightarrow> fold append_named m a = a @ m" for a m :: "(string, 'a list) omap"
  proof (induction m arbitrary: a)
    case (Cons e m)
    then have below: "\<forall>x \<in> fst ` set a. x < fst e" by (cases e) (auto simp: omap_ok_append)
    then have "map_of a (fst e) = None" by (auto simp: map_of_eq_None_iff)
    then have "append_named e a = a @ [e]"
      using omap_put_snoc [OF below] by (cases e) (simp add: append_named_def omap_at_def)
    with Cons show ?case by simp
  qed simp
  from this [of "[]" m] show "omap_ok m \<Longrightarrow> ?thesis" by simp
qed

lemma stream_read_checkpoint: "stream (read_checkpoint ckp)"
  unfolding read_checkpoint_def
  by (intro stream_intros tabc.stream_dec rowsc.stream_dec ctrsc.stream_dec ixmsc.stream_dec)

lemma read_checkpoint_enc:
  assumes "ckp_fits c"
  shows "read_checkpoint new_checkpoint (checkpoint_encode c @ r) =
    Some ((kCheckpointFormatVersionV3, c\<lparr>ck_clog_entries := JNull, ck_catalog_data := JNull, ck_catalog_bytes := [],
      ck_clog_bytes := []\<rparr>, bytes_string (ck_clog_bytes c), bytes_string (ck_catalog_bytes c)), r)"
  using assms
  by (cases c) (simp add: read_checkpoint_def checkpoint_encode_def ckp_fits_def tabsc.dec_enc rowsc.dec_enc ctrsc.dec_enc
      ixmsc.dec_enc append_named_rebuild omap_rebuild new_checkpoint_def fits_u32_def)

lemma json_parse_refuses:
  assumes "\<not> is_ws c" "c \<noteq> CHR 0x22" "c \<noteq> CHR 0x7B" "c \<noteq> CHR ''[''" "c \<noteq> CHR ''t''" "c \<noteq> CHR ''f''"
    "c \<noteq> CHR ''n''" "c \<noteq> CHR ''-''" "\<not> is_digit c"
  shows "json_parse (c # s) = Inl (UnexpectedChar c)"
  using assms by (simp add: json_parse_def parse_fuel_def parse_value_Cons [OF skip_ws_head])

lemma clog_text: "bytes_string (clog_encode l) = CHR ''C'' # CHR ''L'' # CHR ''G'' # CHR ''B'' # tl (tl (tl (tl (bytes_string (clog_encode l)))))"
  by (simp add: clog_encode_def kCLogMagic_def Let_def)

lemma catalog_text: "bytes_string (catalog_encode c) = CHR 0x01 # tl (bytes_string (catalog_encode c))"
proof -
  have "put_u32 kCatalogFormatVersion = [1, 0, 0, 0]" by code_simp
  then have "map char_of_byte (put_u32 kCatalogFormatVersion) = [CHR 0x01, CHR 0x00, CHR 0x00, CHR 0x00]" 
    by (simp add: char_of_byte_def) code_simp
  then show ?thesis by (simp add: catalog_encode_def Let_def)
qed

lemma embedded_not_json:
  "reparse (bytes_string (clog_encode l)) j = JNull" "reparse (bytes_string (catalog_encode c)) j = JNull"
  unfolding reparse_def
  by (subst (1 2) clog_text, simp add: json_parse_refuses is_ws_def is_digit_def)
    (subst (1 2) catalog_text, simp add: json_parse_refuses is_ws_def is_digit_def)

section \<open>Properties\<close>

text \<open>C33: A checkpoint saved by the engine, with the binary commit log and catalog embedded, is loaded
  back exactly: schemas, row versions with their row ids, row id counters, indexes, the next
  transaction id and both embedded blobs.\<close>

theorem checkpoint_roundtrip:
  assumes "ckp_fits c" "dk_can_write d" "dk_can_read d"
    and "ck_clog_bytes c = clog_encode l" "ck_catalog_bytes c = catalog_encode k"
    and "ck_clog_entries c = JNull" "ck_catalog_data c = JNull"
  shows "ckp_load (ckp_save c d) = c"
proof -
  have magic: "take 4 (bytes_string (clog_encode l)) = kCLogMagic"
    by (subst clog_text) (simp add: kCLogMagic_def)
  have "checkpoint_decode (checkpoint_encode c) new_checkpoint =
      Some (c, bytes_string (clog_encode l), bytes_string (catalog_encode k))"
    using read_checkpoint_enc [OF assms(1), of "[]"] assms(4-7) magic
    by (cases c) (simp add: checkpoint_decode_def Let_def)
  with assms show ?thesis
    by (cases c) (simp add: ckp_load_def ckp_save_def kCheckpointMagic_def embedded_not_json)
qed

definition sample_checkpoint :: Checkpoint where
  "sample_checkpoint = new_checkpoint\<lparr>ck_row_id_counters := [(''t'', 5)],
     ck_table_rows := [(''t'', [(7, [(''a'', VInt 1)])])],
     ck_clog_bytes := clog_encode empty_clog, ck_catalog_bytes := catalog_encode sample_catalog\<rparr>"

definition empty_disk :: Disk where
  "empty_disk = \<lparr>dk_bin = None, dk_json = None, dk_can_write = True, dk_can_read = True\<rparr>"

lemma sample_checkpoint_fits: "ckp_fits sample_checkpoint"
proof -
  have "clog_encode empty_clog \<noteq> []" "catalog_encode sample_catalog \<noteq> []"
    using clog_text [of empty_clog] catalog_text [of sample_catalog] by force+
  then show ?thesis
    by (simp add: ckp_fits_def sample_checkpoint_def new_checkpoint_def omap_ok_def fits_u16_def fits_u32_def
        wal_row_fits_def entry_fits_def)
      (simp add: clog_encode_def all_xids_def empty_clog_def kCLogMagic_def catalog_encode_def internal_snapshot_def
        sample_catalog_def new_catalog_def new_database_def put_database_def Let_def)
qed

lemma checkpoint_roundtrip_witness: "ckp_load (ckp_save sample_checkpoint empty_disk) = sample_checkpoint"
  by (rule checkpoint_roundtrip [OF sample_checkpoint_fits])
    (simp_all add: sample_checkpoint_def empty_disk_def new_checkpoint_def)

text \<open>A checkpoint file cut short anywhere, as a crash during its unprotected overwrite leaves it, is
  loaded without an error as the empty database.\<close>

theorem torn_checkpoint_is_empty:
  assumes "ckp_fits c" "n < length (kCheckpointMagic @ checkpoint_encode c)"
  shows "ckp_load (d\<lparr>dk_bin := Some (take n (kCheckpointMagic @ checkpoint_encode c))\<rparr>) = new_checkpoint"
proof (cases "n < 8 \<or> \<not> dk_can_read d")
  case True
  then show ?thesis by (auto simp: ckp_load_def)
next
  case False
  let ?p = "take (n - 8) (checkpoint_encode c)" and ?t = "drop (n - 8) (checkpoint_encode c)"
  have "length kCheckpointMagic = 8" by (simp add: kCheckpointMagic_def)
  then have t: "?t \<noteq> []" using assms(2) False by auto
  have "at_eof (read_checkpoint new_checkpoint ?p) = None"
  proof (rule ccontr)
    assume "at_eof (read_checkpoint new_checkpoint ?p) \<noteq> None"
    then obtain y where "read_checkpoint new_checkpoint ?p = Some (y, [])" by (auto simp: at_eof_Some)
    from stream_extend [OF stream_read_checkpoint this, of ?t] t read_checkpoint_enc [OF assms(1), of "[]"]
    show False by simp
  qed
  then have "checkpoint_decode ?p new_checkpoint = None" by (simp add: checkpoint_decode_def)
  moreover have "take 8 kCheckpointMagic = kCheckpointMagic" "length kCheckpointMagic = 8"
    by (simp_all add: kCheckpointMagic_def)
  ultimately show ?thesis using False by (simp add: ckp_load_def)
qed

lemma torn_checkpoint_is_empty_witness:
  "ckp_load (empty_disk\<lparr>dk_bin := Some (take 30 (kCheckpointMagic @ checkpoint_encode sample_checkpoint))\<rparr>) = new_checkpoint"
  by (rule torn_checkpoint_is_empty [OF sample_checkpoint_fits])
    (simp add: kCheckpointMagic_def checkpoint_encode_def put_vec_def)

end
