(* ===== verification/Engine_State.thy ===== *)
theory Engine_State
  imports Mem_Table Wal_V3 Wal_Payload Checkpoint_Codec
begin

text \<open>
  The members of \<open>StorageEngine\<close> (\<open>storage/engine.h\<close>), the exception-and-state style its methods are
  written in, and the helpers at the top of \<open>storage/engine.cpp\<close>.

  A method is a function from the engine to its result and the engine afterwards: \<open>Inl\<close> is an
  exception, and the changes made before it was thrown stay. The lock manager, the memory contexts
  and \<open>lifecycle_mutex_\<close> have no part in the results: every method is one atomic step here, and the
  lock manager is modelled by itself. \<open>std::chrono\<close> time is the stream \<open>e_clock\<close>, consumed by each
  call of \<open>time\<close>.
\<close>

section \<open>State\<close>

record Engine =
  e_tables :: "(string, TableSchema) omap"
  e_data :: "(string, MemTable) omap"
  e_row_ids :: "(string, u64) omap"
  e_indexes :: "(string, IndexInfo list) omap"
  e_wal :: WAL
  e_disk :: Disk
  e_tm :: TM
  e_catalog :: Catalog
  e_interval :: int
  e_wal_seq :: u64
  e_clock :: "nat \<Rightarrow> u64"

datatype engine_error = TableExists string | NoTable string | NotNull string | DuplicateKey string
  | RowErr row_error | NumErr num_error | TxnErr txn_error | CatalogErr catalog_error | BadVariant

text \<open>The constructor: the files of the data directory are given, the sync mode is the default one.\<close>

definition engine_new :: "Disk \<Rightarrow> bytes \<Rightarrow> int \<Rightarrow> (nat \<Rightarrow> u64) \<Rightarrow> Engine" where
  "engine_new disk fl interval clock = \<lparr>e_tables = [], e_data = [], e_row_ids = [], e_indexes = [],
     e_wal = wal_new kOnCommit fl, e_disk = disk, e_tm = init_tm, e_catalog = new_catalog,
     e_interval = interval, e_wal_seq = 0, e_clock = clock\<rparr>"

section \<open>Methods\<close>

type_synonym 'a meth = "Engine \<Rightarrow> (engine_error + 'a) \<times> Engine"

definition ret :: "'a \<Rightarrow> 'a meth" where
  "ret x e = (Inr x, e)"

definition throw :: "engine_error \<Rightarrow> 'a meth" where
  "throw x e = (Inl x, e)"

definition bindM :: "'a meth \<Rightarrow> ('a \<Rightarrow> 'b meth) \<Rightarrow> 'b meth" where
  "bindM m f e = (case m e of (Inl x, e) \<Rightarrow> (Inl x, e) | (Inr v, e) \<Rightarrow> f v e)"

definition seqM :: "unit meth \<Rightarrow> 'b meth \<Rightarrow> 'b meth" where
  "seqM m k = bindM m (\<lambda>_. k)"

definition getM :: "(Engine \<Rightarrow> 'a) \<Rightarrow> 'a meth" where
  "getM f e = (Inr (f e), e)"

definition modM :: "(Engine \<Rightarrow> Engine) \<Rightarrow> unit meth" where
  "modM f e = (Inr (), f e)"

definition liftM :: "('e \<Rightarrow> engine_error) \<Rightarrow> 'e + 'a \<Rightarrow> 'a meth" where
  "liftM err r e = (case r of Inl x \<Rightarrow> (Inl (err x), e) | Inr v \<Rightarrow> (Inr v, e))"

definition whenM :: "bool \<Rightarrow> unit meth \<Rightarrow> unit meth" where
  "whenM b m = (if b then m else ret ())"

fun forM :: "'x list \<Rightarrow> ('x \<Rightarrow> unit meth) \<Rightarrow> unit meth" where
  "forM [] f = ret ()"
| "forM (x # xs) f = seqM (f x) (forM xs f)"

text \<open>A loop that carries a value.\<close>

fun foldM :: "('x \<Rightarrow> 'a \<Rightarrow> 'a meth) \<Rightarrow> 'x list \<Rightarrow> 'a \<Rightarrow> 'a meth" where
  "foldM f [] a = ret a"
| "foldM f (x # xs) a = bindM (f x a) (foldM f xs)"

text \<open>A pure loop that may throw.\<close>

fun mapE :: "('x \<Rightarrow> 'e + 'y) \<Rightarrow> 'x list \<Rightarrow> 'e + 'y list" where
  "mapE f [] = Inr []"
| "mapE f (x # xs) = bindE (f x) (\<lambda>y. bindE (mapE f xs) (\<lambda>ys. Inr (y # ys)))"

section \<open>Rows and tuples\<close>

definition tuple_to_row_for_visibility :: "Tuple \<Rightarrow> row_error + row" where
  "tuple_to_row_for_visibility t = bindE (tuple_to_row t) (\<lambda>r. Inr (put_system_columns (hdr t) r))"

definition materialize_all :: "MemTable \<Rightarrow> row_error + row list" where
  "materialize_all mt = mapE tuple_to_row_for_visibility (scan_all mt)"

definition header_from_row :: "string \<Rightarrow> u64 \<Rightarrow> row \<Rightarrow> TupleHeader" where
  "header_from_row qualified row_id r = \<lparr>
     h_row_id = row_id,
     h_xmin = (case row_int r ''_xmin'' of Some v \<Rightarrow> ucast v | None \<Rightarrow> 0),
     h_xmax = (case row_int r ''_xmax'' of Some v \<Rightarrow> ucast v | None \<Rightarrow> 0),
     h_cid = (case row_int r ''_cid'' of Some v \<Rightarrow> ucast v | None \<Rightarrow> 0),
     h_schema_hash = fnv1a_16 qualified, h_flags = 0, h_payload_len = 0, h_crc32 = 0\<rparr>"

definition make_tuple :: "string \<Rightarrow> u64 \<Rightarrow> row \<Rightarrow> row_error + Tuple" where
  "make_tuple qualified row_id r = row_to_tuple r (header_from_row qualified row_id r)"

section \<open>Members by name\<close>

text \<open>\<open>data_[name]\<close>, \<open>row_ids_[name]\<close>; a table and its data always come and go together.\<close>

definition table_data :: "string \<Rightarrow> Engine \<Rightarrow> MemTable" where
  "table_data q e = omap_at (mt_new q) (e_data e) q"

definition set_data :: "string \<Rightarrow> MemTable \<Rightarrow> Engine \<Rightarrow> Engine" where
  "set_data q mt e = e\<lparr>e_data := omap_put q mt (e_data e)\<rparr>"

definition row_id_of :: "string \<Rightarrow> Engine \<Rightarrow> u64" where
  "row_id_of q e = omap_at 0 (e_row_ids e) q"

definition set_row_id :: "string \<Rightarrow> u64 \<Rightarrow> Engine \<Rightarrow> Engine" where
  "set_row_id q i e = e\<lparr>e_row_ids := omap_put q i (e_row_ids e)\<rparr>"

definition indexes_of :: "string \<Rightarrow> Engine \<Rightarrow> IndexInfo list" where
  "indexes_of q e = omap_at [] (e_indexes e) q"

definition set_indexes :: "string \<Rightarrow> IndexInfo list \<Rightarrow> Engine \<Rightarrow> Engine" where
  "set_indexes q ixs e = e\<lparr>e_indexes := omap_put q ixs (e_indexes e)\<rparr>"

definition set_tm :: "TM \<Rightarrow> Engine \<Rightarrow> Engine" where
  "set_tm t e = e\<lparr>e_tm := t\<rparr>"

definition tm_do :: "(TM \<Rightarrow> TM) \<Rightarrow> unit meth" where
  "tm_do f = modM (\<lambda>e. set_tm (f (e_tm e)) e)"

definition drop_members :: "string \<Rightarrow> Engine \<Rightarrow> Engine" where
  "drop_members q e = e\<lparr>e_tables := omap_del q (e_tables e), e_data := omap_del q (e_data e),
     e_row_ids := omap_del q (e_row_ids e), e_indexes := omap_del q (e_indexes e)\<rparr>"

definition new_members :: "string \<Rightarrow> TableSchema \<Rightarrow> Engine \<Rightarrow> Engine" where
  "new_members q schema e = e\<lparr>e_tables := omap_put q schema (e_tables e), e_data := omap_put q (mt_new q) (e_data e),
     e_row_ids := omap_put q 0 (e_row_ids e), e_indexes := omap_put q [] (e_indexes e)\<rparr>"

text \<open>\<open>schema_it->second.row_count = data_[name]->size()\<close>, when there is a schema.\<close>

definition refresh_row_count :: "string \<Rightarrow> Engine \<Rightarrow> Engine" where
  "refresh_row_count q e = (case map_of (e_tables e) q of None \<Rightarrow> e
     | Some s \<Rightarrow> e\<lparr>e_tables := omap_put q (s\<lparr>ts_row_count := of_nat (mt_size (table_data q e))\<rparr>) (e_tables e)\<rparr>)"

text \<open>\<open>header_from_row\<close>, \<open>row_to_tuple\<close> and \<open>put\<close> with the next sequence number.\<close>

definition put_row :: "string \<Rightarrow> u64 \<Rightarrow> row \<Rightarrow> unit meth" where
  "put_row q row_id r = bindM (liftM RowErr (make_tuple q row_id r)) (\<lambda>t. modM (\<lambda>e.
     let s = e_wal_seq e + 1 in set_data q (mt_put row_id t s (table_data q e)) (e\<lparr>e_wal_seq := s\<rparr>)))"

definition erase_rows :: "string \<Rightarrow> u64 \<Rightarrow> unit meth" where
  "erase_rows q row_id = modM (\<lambda>e. set_data q (snd (erase_all_for row_id (table_data q e))) e)"

text \<open>The old version of a row is erased and the new one written.\<close>

definition replace_row :: "string \<Rightarrow> u64 \<Rightarrow> row \<Rightarrow> unit meth" where
  "replace_row q row_id r = seqM (erase_rows q row_id) (put_row q row_id r)"

section \<open>The log\<close>

definition write_wal :: "WalOp \<Rightarrow> string \<Rightarrow> bytes \<Rightarrow> TransactionId \<Rightarrow> unit meth" where
  "write_wal opn table pl xid = modM (\<lambda>e.
     let seq = e_wal_seq e + 1;
         r = \<lparr>w_seq = seq, w_timestamp = e_clock e 0, w_op = op_code opn, w_table = table, w_xid = xid, w_data = pl\<rparr>
     in e\<lparr>e_wal_seq := seq, e_clock := (\<lambda>n. e_clock e (Suc n)), e_wal := wal_append r (e_wal e)\<rparr>)"

section \<open>Checkpoints\<close>

definition checkpoint_rows :: "MemTable \<Rightarrow> row_error + (u64 \<times> row) list" where
  "checkpoint_rows mt = bindE (materialize_all mt) (\<lambda>rs.
     Inr (map (\<lambda>r. (case row_int r ''_rowid'' of None \<Rightarrow> 0 | Some i \<Rightarrow> i, r)) rs))"

definition make_checkpoint :: "Engine \<Rightarrow> row_error + Checkpoint" where
  "make_checkpoint e =
     bindE (mapE (\<lambda>(name, schema). bindE (case map_of (e_data e) name of None \<Rightarrow> Inr [] | Some mt \<Rightarrow> checkpoint_rows mt)
              (\<lambda>rows. Inr (name, rows))) (e_tables e)) (\<lambda>trs.
     Inr (new_checkpoint\<lparr>ck_last_seq := e_wal_seq e, ck_timestamp := e_clock e 0,
       ck_tables := map snd (e_tables e),
       ck_table_rows := trs,
       ck_row_id_counters := map (\<lambda>(name, _). (name, row_id_of name e)) (e_tables e),
       ck_indexes := filter (\<lambda>(name, _). map_of (e_tables e) name \<noteq> None) (e_indexes e),
       ck_next_xid := next_xid (e_tm e),
       ck_clog_bytes := clog_encode (clog (e_tm e)),
       ck_catalog_bytes := catalog_encode (e_catalog e)\<rparr>))"

definition checkpoint :: "unit meth" where
  "checkpoint =
     seqM (modM (\<lambda>e. e\<lparr>e_wal := wal_sync (e_wal e)\<rparr>))
      (bindM (\<lambda>e. liftM RowErr (make_checkpoint e) (e\<lparr>e_clock := (\<lambda>n. e_clock e (Suc n))\<rparr>)) (\<lambda>ckp.
       modM (\<lambda>e. let w = wal_sync (wal_truncate (ck_last_seq ckp) (e_wal e)) in
         e\<lparr>e_disk := ckp_save ckp (e_disk e), e_wal := w, e_wal_seq := wal_seq w\<rparr>)))"

definition maybe_checkpoint :: "unit meth" where
  "maybe_checkpoint = bindM (getM id) (\<lambda>e.
     whenM (0 < e_interval e \<and> e_interval e dvd sint (e_wal_seq e)) checkpoint)"

section \<open>Indexes\<close>

definition index_add :: "string \<Rightarrow> u64 \<Rightarrow> (string, u64 list) omap \<Rightarrow> (string, u64 list) omap" where
  "index_add k rid m = omap_put k (omap_at [] m k @ [rid]) m"

text \<open>
  The entries of one column over the rows of a table, in scan order. A row that does not decode
  stops the loop with what was collected by then.
\<close>

fun build_from :: "string \<Rightarrow> Tuple list \<Rightarrow> (string, u64 list) omap \<Rightarrow> row_error option \<times> (string, u64 list) omap" where
  "build_from column [] m = (None, m)"
| "build_from column (t # ts) m = (case tuple_to_row_for_visibility t of
     Inl x \<Rightarrow> (Some x, m)
   | Inr r \<Rightarrow> build_from column ts (case map_of r column of None \<Rightarrow> m
       | Some v \<Rightarrow> index_add (value_to_string v) (h_row_id (hdr t)) m))"

fun rebuild_list :: "MemTable \<Rightarrow> IndexInfo list \<Rightarrow> row_error option \<times> IndexInfo list" where
  "rebuild_list mt [] = (None, [])"
| "rebuild_list mt (idx # ixs) =
     (let (err, m) = build_from (ix_column idx) (scan_all mt) []; idx = idx\<lparr>ix_entries := m\<rparr> in
      if err \<noteq> None then (err, idx # ixs)
      else let (err, ixs) = rebuild_list mt ixs in (err, idx # ixs))"

definition rebuild_indexes :: "string \<Rightarrow> unit meth" where
  "rebuild_indexes table = bindM (getM id) (\<lambda>e.
     case (map_of (e_indexes e) table, map_of (e_data e) table) of
       (Some ixs, Some mt) \<Rightarrow> (let (err, ixs) = rebuild_list mt ixs in
         seqM (modM (set_indexes table ixs)) (case err of None \<Rightarrow> ret () | Some x \<Rightarrow> throw (RowErr x)))
     | _ \<Rightarrow> ret ())"

definition create_index :: "string \<Rightarrow> string \<Rightarrow> unit meth" where
  "create_index table column = bindM (getM id) (\<lambda>e.
     let q = qualify_table_name (e_catalog e) table in
     case map_of (e_indexes e) q of None \<Rightarrow> ret ()
     | Some ixs \<Rightarrow>
         if list_ex (\<lambda>idx. ix_column idx = column) ixs then ret ()
         else (case build_from column (case map_of (e_data e) q of None \<Rightarrow> [] | Some mt \<Rightarrow> scan_all mt) [] of
             (Some x, _) \<Rightarrow> throw (RowErr x)
           | (None, m) \<Rightarrow> modM (set_indexes q (ixs @ [\<lparr>ix_column = column, ix_entries = m\<rparr>]))))"

definition index_insert :: "u64 \<Rightarrow> row \<Rightarrow> IndexInfo \<Rightarrow> IndexInfo" where
  "index_insert row_id r idx = (case map_of r (ix_column idx) of None \<Rightarrow> idx
     | Some v \<Rightarrow> (let k = value_to_string v; l = omap_at [] (ix_entries idx) k in
         idx\<lparr>ix_entries := omap_put k (if row_id \<in> set l then l else l @ [row_id]) (ix_entries idx)\<rparr>))"

definition update_indexes :: "string \<Rightarrow> u64 \<Rightarrow> row \<Rightarrow> unit meth" where
  "update_indexes table row_id r = modM (\<lambda>e. case map_of (e_indexes e) table of None \<Rightarrow> e
     | Some ixs \<Rightarrow> set_indexes table (map (index_insert row_id r) ixs) e)"

definition updates_affect_index :: "Engine \<Rightarrow> string \<Rightarrow> row \<Rightarrow> bool" where
  "updates_affect_index e table updates = (case map_of (e_indexes e) table of None \<Rightarrow> False
     | Some ixs \<Rightarrow> list_ex (\<lambda>idx. map_of updates (ix_column idx) \<noteq> None) ixs)"

end
