(* ===== verification/Engine.thy ===== *)
theory Engine
  imports Engine_State
begin

text \<open>
  The public methods of \<open>StorageEngine\<close>, \<open>storage/engine.cpp\<close>: catalog and schema operations, the plain
  and the transactional data operations, undo, vacuum and index lookup, statement by statement.

  The predicate \<open>matches\<close> of an update or a delete is an argument. A \<open>std::map\<close> that was moved
  from is the empty map \<open>moved_from\<close>, as the standard libraries leave it.
\<close>

text \<open>A sequence of statements before a result.\<close>

fun steps :: "unit meth list \<Rightarrow> 'a meth \<Rightarrow> 'a meth" where
  "steps [] k = k"
| "steps (m # ms) k = seqM m (steps ms k)"

definition resolve_table_name :: "Engine \<Rightarrow> string \<Rightarrow> string" where
  "resolve_table_name e name = qualify_table_name (e_catalog e) name"

section \<open>Catalog\<close>

definition catalog_do :: "(Catalog \<Rightarrow> catalog_error + Catalog) \<Rightarrow> unit meth" where
  "catalog_do f e = (case f (e_catalog e) of Inl x \<Rightarrow> (Inl (CatalogErr x), e) | Inr c \<Rightarrow> (Inr (), e\<lparr>e_catalog := c\<rparr>))"

definition has_prefix :: "string \<Rightarrow> string \<Rightarrow> bool" where
  "has_prefix p s \<longleftrightarrow> take (length p) s = p"

definition eng_create_database :: "string \<Rightarrow> unit meth" where
  "eng_create_database name = steps [catalog_do (create_database name),
     write_wal kCreateDatabase name wal_encode_empty 0] maybe_checkpoint"

definition eng_drop_database :: "string \<Rightarrow> unit meth" where
  "eng_drop_database name = steps [catalog_do (drop_database name),
     modM (\<lambda>e. fold drop_members (filter (has_prefix (name @ ''.'')) (map fst (e_tables e))) e),
     write_wal kDropDatabase name wal_encode_empty 0] maybe_checkpoint"

definition eng_create_schema :: "string \<Rightarrow> string \<Rightarrow> unit meth" where
  "eng_create_schema db s = steps [catalog_do (create_schema db s),
     write_wal kCreateSchema db (wal_encode_create_schema s) 0] maybe_checkpoint"

definition eng_create_user :: "string \<Rightarrow> string \<Rightarrow> bytes \<Rightarrow> unit meth" where
  "eng_create_user name password salt_bytes = steps [catalog_do (create_user name password salt_bytes),
     write_wal kCreateUser name wal_encode_empty 0] maybe_checkpoint"

definition eng_drop_user :: "string \<Rightarrow> unit meth" where
  "eng_drop_user name = steps [catalog_do (drop_user name), write_wal kDropUser name wal_encode_empty 0] maybe_checkpoint"

definition set_current_db :: "string \<Rightarrow> unit meth" where
  "set_current_db name = catalog_do (set_current_database name)"

section \<open>Schema\<close>

definition create_table :: "string \<Rightarrow> ColumnDef list \<Rightarrow> unit meth" where
  "create_table name columns = bindM (getM id) (\<lambda>e. let q = resolve_table_name e name in
     if map_of (e_tables e) q \<noteq> None then throw (TableExists name)
     else steps [write_wal kCreateTable q (wal_encode_create_table columns) 0,
         modM (new_members q \<lparr>ts_name = q, ts_columns = columns, ts_row_count = 0\<rparr>),
         forM columns (\<lambda>c. whenM (cd_primary_key c) (create_index q (cd_name c)))] maybe_checkpoint)"

definition drop_table :: "string \<Rightarrow> unit meth" where
  "drop_table name = bindM (getM id) (\<lambda>e. let q = resolve_table_name e name in
     if map_of (e_tables e) q = None then throw (NoTable name)
     else steps [write_wal kDropTable q wal_encode_empty 0, modM (drop_members q)] maybe_checkpoint)"

definition get_schema :: "Engine \<Rightarrow> string \<Rightarrow> TableSchema option" where
  "get_schema e name = (case map_of (e_tables e) (resolve_table_name e name) of
     Some s \<Rightarrow> Some s | None \<Rightarrow> map_of (e_tables e) name)"

definition list_tables :: "Engine \<Rightarrow> string list" where
  "list_tables e = filter (has_prefix (current_db (e_catalog e) @ ''.'')) (map fst (e_tables e))"

section \<open>Validation\<close>

definition coerce :: "DataType \<Rightarrow> val \<Rightarrow> num_error + val" where
  "coerce type v = (case v of VNull \<Rightarrow> Inr VNull | _ \<Rightarrow>
     (if type = INTEGER \<or> type = BIGINT then
        (case v of VInt i \<Rightarrow> Inr (VInt i) | VDouble d \<Rightarrow> Inr (VInt (f_to_int64 d))
         | VString s \<Rightarrow> bindE (stoll s) (\<lambda>i. Inr (VInt i)) | _ \<Rightarrow> Inr v)
      else if type = FLOAT \<or> type = DOUBLE then
        (case v of VDouble d \<Rightarrow> Inr (VDouble d) | VInt i \<Rightarrow> Inr (VDouble (f_of_int (sint i)))
         | VString s \<Rightarrow> bindE (stod s) (\<lambda>d. Inr (VDouble d)) | _ \<Rightarrow> Inr v)
      else if type = BOOLEAN then
        (case v of VBool b \<Rightarrow> Inr (VBool b) | VInt i \<Rightarrow> Inr (VBool (i \<noteq> 0))
         | VString s \<Rightarrow> Inr (VBool (s = ''true'' \<or> s = ''1'')) | _ \<Rightarrow> Inr v)
      else if type = TEXT \<or> type = DATE \<or> type = TIMESTAMP then
        (case v of VString s \<Rightarrow> Inr (VString s) | _ \<Rightarrow> Inr (VString (value_to_string v)))
      else Inr v))"

fun validate_columns :: "u64 \<Rightarrow> ColumnDef list \<Rightarrow> row \<Rightarrow> row \<Rightarrow> engine_error + row" where
  "validate_columns next_id [] r result = Inr result"
| "validate_columns next_id (col # cols) r result =
     bindE (case map_of r (cd_name col) of
         Some v \<Rightarrow> (case coerce (cd_type col) v of Inl x \<Rightarrow> Inl (NumErr x) | Inr v \<Rightarrow> Inr v)
       | None \<Rightarrow>
           if cd_primary_key col \<and> cd_type col = INTEGER then Inr (VInt next_id)
           else (case cd_default col of Some v \<Rightarrow> Inr v
             | None \<Rightarrow> if \<not> cd_nullable col then Inl (NotNull (cd_name col)) else Inr VNull))
       (\<lambda>v. validate_columns next_id cols r (omap_put (cd_name col) v result))"

definition validate :: "Engine \<Rightarrow> TableSchema \<Rightarrow> row \<Rightarrow> engine_error + row" where
  "validate e schema r = validate_columns (row_id_of (ts_name schema) e + 1) (ts_columns schema) r []"

section \<open>Plain data operations\<close>

definition insert_row :: "string \<Rightarrow> row \<Rightarrow> row meth" where
  "insert_row table r = bindM (getM id) (\<lambda>e. let q = resolve_table_name e table in
     case map_of (e_tables e) q of None \<Rightarrow> throw (NoTable table)
     | Some schema \<Rightarrow> bindM (liftM id (validate e schema r)) (\<lambda>v.
         let rid = row_id_of q e + 1;
             v = omap_put ''_cid'' (VInt 0) (omap_put ''_xmax'' (VInt 0) (omap_put ''_rowid'' (VInt rid) v))
         in steps [modM (set_row_id q rid),
              write_wal kInsert q (wal_encode_insert \<lparr>ip_rowid = rid, ip_row = v\<rparr>) 0,
              put_row q rid v, update_indexes q rid v, modM (refresh_row_count q), maybe_checkpoint] (ret v)))"

definition scan :: "string \<Rightarrow> row list meth" where
  "scan table = bindM (getM id) (\<lambda>e. case map_of (e_data e) (resolve_table_name e table) of
     None \<Rightarrow> throw (NoTable table)
   | Some mt \<Rightarrow> liftM RowErr (materialize_all mt))"

definition apply_updates :: "row \<Rightarrow> row \<Rightarrow> row" where
  "apply_updates updates r = fold (\<lambda>(k, v). omap_put k v) updates r"

text \<open>\<open>std::get<int64_t>(row.at("_rowid"))\<close>\<close>

definition get_rowid :: "row \<Rightarrow> u64 meth" where
  "get_rowid r = (case row_int r ''_rowid'' of Some i \<Rightarrow> ret i | None \<Rightarrow> throw BadVariant)"

definition update_rows :: "string \<Rightarrow> (row \<Rightarrow> bool) \<Rightarrow> row \<Rightarrow> nat meth" where
  "update_rows table matches updates = bindM (getM id) (\<lambda>e. let q = resolve_table_name e table in
     case map_of (e_data e) q of None \<Rightarrow> throw (NoTable table)
     | Some mt \<Rightarrow> bindM (liftM RowErr (materialize_all mt)) (\<lambda>all_rows.
         bindM (foldM (\<lambda>r count. if \<not> matches r then ret count
             else bindM (get_rowid r) (\<lambda>rowid.
               let r = omap_put ''_cid'' (VInt 0) (omap_put ''_xmax'' (VInt 0) (apply_updates updates r)) in
               steps [write_wal kUpdate q (wal_encode_update \<lparr>up_rowid = rowid, up_updates = updates, up_new_row = r\<rparr>) 0,
                 replace_row q rowid r] (ret (count + 1)))) all_rows 0) (\<lambda>count.
         steps [whenM (updates_affect_index e q updates) (rebuild_indexes q), maybe_checkpoint] (ret count))))"

text \<open>The rows that stay are written to a new MemTable, with new sequence numbers.\<close>

fun refill :: "string \<Rightarrow> u64 list \<Rightarrow> row list \<Rightarrow> MemTable \<Rightarrow> u64 \<Rightarrow> (engine_error + MemTable) \<times> u64" where
  "refill q to_delete [] mt s = (Inr mt, s)"
| "refill q to_delete (r # rs) mt s = (case row_int r ''_rowid'' of None \<Rightarrow> (Inl BadVariant, s)
     | Some rowid \<Rightarrow> if rowid \<in> set to_delete then refill q to_delete rs mt s
         else (case make_tuple q rowid r of Inl x \<Rightarrow> (Inl (RowErr x), s)
           | Inr t \<Rightarrow> refill q to_delete rs (mt_put rowid t (s + 1) mt) (s + 1)))"

definition refill_table :: "string \<Rightarrow> u64 list \<Rightarrow> row list \<Rightarrow> unit meth" where
  "refill_table q to_delete rs e = (case refill q to_delete rs (mt_new q) (e_wal_seq e) of
     (Inl x, s) \<Rightarrow> (Inl x, e\<lparr>e_wal_seq := s\<rparr>)
   | (Inr mt, s) \<Rightarrow> (Inr (), set_data q mt (e\<lparr>e_wal_seq := s\<rparr>)))"

definition remove_rows :: "string \<Rightarrow> (row \<Rightarrow> bool) \<Rightarrow> nat meth" where
  "remove_rows table matches = bindM (getM id) (\<lambda>e. let q = resolve_table_name e table in
     case map_of (e_data e) q of None \<Rightarrow> throw (NoTable table)
     | Some mt \<Rightarrow> bindM (liftM RowErr (materialize_all mt)) (\<lambda>all_rows.
         bindM (foldM (\<lambda>r to_delete. if \<not> matches r then ret to_delete
             else bindM (get_rowid r) (\<lambda>rowid.
               steps [write_wal kDelete q (wal_encode_delete \<lparr>dp_rowid = rowid, dp_has_xmax = False, dp_xmax = 0\<rparr>) 0]
                 (ret (to_delete @ [rowid])))) all_rows []) (\<lambda>to_delete.
         steps [whenM (to_delete \<noteq> []) (steps [refill_table q to_delete all_rows] (rebuild_indexes q)),
           modM (refresh_row_count q), maybe_checkpoint] (ret (length to_delete)))))"

section \<open>Transactional data operations\<close>

definition assign_xid_m :: "TransactionId meth" where
  "assign_xid_m e = (case assign_xid (e_tm e) of
     (Inl x, t) \<Rightarrow> (Inl (TxnErr x), set_tm t e) | (Inr xid, t) \<Rightarrow> (Inr xid, set_tm t e))"

definition register_siread_row :: "string \<Rightarrow> row \<Rightarrow> unit meth" where
  "register_siread_row q r = (case row_int r ''_rowid'' of None \<Rightarrow> ret ()
     | Some i \<Rightarrow> tm_do (register_siread (RowKey q i)))"

definition visible :: "row \<Rightarrow> TransactionId \<Rightarrow> Snapshot \<Rightarrow> u32 \<Rightarrow> bool meth" where
  "visible r xid snap cid = getM (\<lambda>e. check_tuple_visibility r xid snap cid (clog (e_tm e)))"

definition to_row :: "Tuple \<Rightarrow> row meth" where
  "to_row t = liftM RowErr (tuple_to_row_for_visibility t)"

definition cell_is :: "row \<Rightarrow> string \<Rightarrow> val \<Rightarrow> bool" where
  "cell_is r col v = (case map_of r col of None \<Rightarrow> False | Some ev \<Rightarrow> value_eq ev v)"

definition moved_from :: row where
  "moved_from = []"

definition visible_rows :: "string \<Rightarrow> Snapshot \<Rightarrow> TransactionId \<Rightarrow> u32 \<Rightarrow> Tuple list \<Rightarrow> row list meth" where
  "visible_rows q snap xid cid tups = foldM (\<lambda>t out. bindM (to_row t) (\<lambda>r.
     bindM (visible r xid snap cid) (\<lambda>vis.
       if vis then steps [register_siread_row q moved_from] (ret (out @ [r])) else ret out))) tups []"

definition scan_with_snapshot :: "string \<Rightarrow> Snapshot \<Rightarrow> TransactionId \<Rightarrow> u32 \<Rightarrow> row list meth" where
  "scan_with_snapshot table snap xid cid = bindM (getM id) (\<lambda>e. let q = resolve_table_name e table in
     case map_of (e_data e) q of None \<Rightarrow> throw (NoTable table)
     | Some mt \<Rightarrow> visible_rows q snap xid cid (scan_all mt))"

text \<open>The loop that looks for a duplicate of an inserted key and registers every row it sees.\<close>

definition insert_pk_check :: "string \<Rightarrow> TransactionId \<Rightarrow> Snapshot \<Rightarrow> u32 \<Rightarrow> row \<Rightarrow> ColumnDef list \<Rightarrow> Tuple list \<Rightarrow> unit meth" where
  "insert_pk_check q xid snap cid v cols tups = forM cols (\<lambda>col.
     case (cd_primary_key col, map_of v (cd_name col)) of
       (True, Some pk) \<Rightarrow> forM tups (\<lambda>t. bindM (to_row t) (\<lambda>existing.
         bindM (visible existing xid snap cid) (\<lambda>vis.
           if \<not> vis then ret ()
           else if cell_is existing (cd_name col) pk then throw (DuplicateKey (cd_name col))
           else register_siread_row q existing)))
     | _ \<Rightarrow> ret ())"

definition insert_with_txn :: "string \<Rightarrow> row \<Rightarrow> row meth" where
  "insert_with_txn table r = bindM (getM id) (\<lambda>e. let q = resolve_table_name e table in
     case map_of (e_tables e) q of None \<Rightarrow> throw (NoTable table)
     | Some schema \<Rightarrow> bindM (liftM id (validate e schema r)) (\<lambda>v.
         let rid = row_id_of q e + 1 in
         seqM (modM (set_row_id q rid)) (bindM assign_xid_m (\<lambda>xid. bindM (getM e_tm) (\<lambda>tm.
           let cid = cx_command_id (ctx tm); snap = get_snapshot tm;
               v = omap_put ''_cid'' (VInt (scast cid)) (omap_put ''_xmax'' (VInt 0)
                    (omap_put ''_xmin'' (VInt (ucast xid)) (omap_put ''_rowid'' (VInt rid) v)))
           in steps [insert_pk_check q xid snap cid v (ts_columns schema) (scan_all (table_data q e)),
                tm_do (add_undo_record \<lparr>u_op = UndoInsert, u_table_name = q, u_row_id = rid, u_old_row = [], u_new_row = v\<rparr>),
                write_wal kInsert q (wal_encode_insert \<lparr>ip_rowid = rid, ip_row = v\<rparr>) xid,
                put_row q rid v, update_indexes q rid v, modM (refresh_row_count q), maybe_checkpoint] (ret v))))))"

text \<open>The check for the changed key columns of an update, against all other visible rows.\<close>

definition update_pk_check :: "string \<Rightarrow> u64 \<Rightarrow> TransactionId \<Rightarrow> Snapshot \<Rightarrow> u32 \<Rightarrow> row \<Rightarrow> Tuple list \<Rightarrow> unit meth" where
  "update_pk_check q rowid xid snap cid updates tups = bindM (getM id) (\<lambda>e.
     case map_of (e_tables e) q of None \<Rightarrow> ret ()
     | Some schema \<Rightarrow> forM (ts_columns schema) (\<lambda>col.
         case (cd_primary_key col, map_of updates (cd_name col)) of
           (True, Some up) \<Rightarrow> forM tups (\<lambda>t. bindM (to_row t) (\<lambda>existing.
             bindM (visible existing xid snap cid) (\<lambda>vis.
               if \<not> vis then ret ()
               else bindM (get_rowid existing) (\<lambda>er.
                 if er = rowid then ret ()
                 else if cell_is existing (cd_name col) up then throw (DuplicateKey (cd_name col))
                 else ret ()))))
         | _ \<Rightarrow> ret ()))"

definition update_one :: "string \<Rightarrow> TransactionId \<Rightarrow> Snapshot \<Rightarrow> u32 \<Rightarrow> row \<Rightarrow> Tuple list \<Rightarrow> row \<Rightarrow> unit meth" where
  "update_one q xid snap cid updates tups r = bindM (get_rowid r) (\<lambda>rowid.
     let new_row = omap_put ''_cid'' (VInt (scast cid)) (omap_put ''_xmax'' (VInt 0)
           (omap_put ''_xmin'' (VInt (ucast xid)) (apply_updates updates r)))
     in steps [tm_do (register_write (RowKey q rowid)),
          update_pk_check q rowid xid snap cid updates tups,
          tm_do (add_undo_record \<lparr>u_op = UndoUpdate, u_table_name = q, u_row_id = rowid, u_old_row = r, u_new_row = new_row\<rparr>),
          write_wal kUpdate q (wal_encode_update \<lparr>up_rowid = rowid, up_updates = updates, up_new_row = new_row\<rparr>) xid]
          (replace_row q rowid new_row))"

definition remove_one :: "string \<Rightarrow> TransactionId \<Rightarrow> u32 \<Rightarrow> row \<Rightarrow> unit meth" where
  "remove_one q xid cid r = bindM (get_rowid r) (\<lambda>rowid.
     let tombstone = omap_put ''_cid'' (VInt (scast cid)) (omap_put ''_xmax'' (VInt (ucast xid)) r)
     in steps [tm_do (register_write (RowKey q rowid)),
          tm_do (add_undo_record \<lparr>u_op = UndoDelete, u_table_name = q, u_row_id = rowid, u_old_row = r, u_new_row = []\<rparr>),
          replace_row q rowid tombstone]
          (write_wal kDelete q (wal_encode_delete \<lparr>dp_rowid = rowid, dp_has_xmax = True, dp_xmax = xid\<rparr>) xid))"

text \<open>The loop both share: every visible row of the scan that matches is worked on and counted.\<close>

definition for_matching :: "TransactionId \<Rightarrow> Snapshot \<Rightarrow> u32 \<Rightarrow> (row \<Rightarrow> bool) \<Rightarrow> (row \<Rightarrow> unit meth) \<Rightarrow> Tuple list \<Rightarrow> nat meth" where
  "for_matching xid snap cid matches act tups = foldM (\<lambda>t count. bindM (to_row t) (\<lambda>r.
     bindM (visible r xid snap cid) (\<lambda>vis.
       if \<not> vis then ret count
       else if matches r then seqM (act r) (ret (count + 1)) else ret count))) tups 0"

definition update_with_txn :: "string \<Rightarrow> (row \<Rightarrow> bool) \<Rightarrow> row \<Rightarrow> nat meth" where
  "update_with_txn table matches updates = bindM (getM id) (\<lambda>e. let q = resolve_table_name e table in
     case map_of (e_data e) q of None \<Rightarrow> throw (NoTable table)
     | Some mt \<Rightarrow> bindM assign_xid_m (\<lambda>xid. bindM (getM e_tm) (\<lambda>tm.
         let cid = cx_command_id (ctx tm); snap = get_snapshot tm in
         bindM (for_matching xid snap cid matches (update_one q xid snap cid updates (scan_all mt)) (scan_all mt)) (\<lambda>count.
         steps [whenM (updates_affect_index e q updates) (rebuild_indexes q), maybe_checkpoint] (ret count)))))"

definition remove_with_txn :: "string \<Rightarrow> (row \<Rightarrow> bool) \<Rightarrow> nat meth" where
  "remove_with_txn table matches = bindM (getM id) (\<lambda>e. let q = resolve_table_name e table in
     case map_of (e_data e) q of None \<Rightarrow> throw (NoTable table)
     | Some mt \<Rightarrow> bindM assign_xid_m (\<lambda>xid. bindM (getM e_tm) (\<lambda>tm.
         let cid = cx_command_id (ctx tm); snap = get_snapshot tm in
         bindM (for_matching xid snap cid matches (remove_one q xid cid) (scan_all mt)) (\<lambda>count.
         steps [maybe_checkpoint] (ret count)))))"

section \<open>Undo\<close>

definition apply_undo_record :: "UndoRecord \<Rightarrow> unit meth" where
  "apply_undo_record rec = bindM (getM id) (\<lambda>e. case map_of (e_data e) (u_table_name rec) of
     None \<Rightarrow> ret ()
   | Some _ \<Rightarrow> seqM (erase_rows (u_table_name rec) (u_row_id rec))
       (if u_op rec = UndoInsert then ret ()
        else if u_old_row rec = [] then ret ()
        else put_row (u_table_name rec) (u_row_id rec) (u_old_row rec)))"

definition undo_list :: "UndoRecord list \<Rightarrow> unit meth" where
  "undo_list recs = seqM (forM recs apply_undo_record) (forM recs (\<lambda>rec. rebuild_indexes (u_table_name rec)))"

definition apply_undo :: "unit meth" where
  "apply_undo = bindM (getM (\<lambda>e. cx_undo_records (ctx (e_tm e)))) (\<lambda>records. undo_list (rev records))"

definition apply_undo_to :: "nat \<Rightarrow> unit meth" where
  "apply_undo_to n = bindM (getM (\<lambda>e. cx_undo_records (ctx (e_tm e)))) (\<lambda>records.
     let count = (if length records < n then length records else n)
     in undo_list (rev (drop (length records - count) records)))"

definition write_xact_commit :: "TransactionId \<Rightarrow> unit meth" where
  "write_xact_commit xid = write_wal kXactCommit [] wal_encode_empty xid"

definition write_xact_abort :: "TransactionId \<Rightarrow> unit meth" where
  "write_xact_abort xid = write_wal kXactAbort [] wal_encode_empty xid"

section \<open>Vacuum\<close>

datatype vacuum_choice = Keep | Erase | Freeze

definition vacuum_choice_of :: "CLog \<Rightarrow> TransactionId \<Rightarrow> row \<Rightarrow> vacuum_choice" where
  "vacuum_choice_of cl oldest r = (case (row_int r ''_xmin'', row_int r ''_xmax'') of
     (Some xmin_v, Some xmax_v) \<Rightarrow>
       (let xmin = (ucast xmin_v :: TransactionId); xmax = (ucast xmax_v :: TransactionId) in
        if oldest \<le> xmin \<and> xmin \<noteq> FrozenTransactionId then Keep
        else if xmax \<noteq> 0 \<and> oldest \<le> xmax then Keep
        else let xmin_status = get_status cl xmin;
                 xmax_status = (if xmax = 0 then COMMITTED else get_status cl xmax) in
        if xmin_status = ABORTED then Erase
        else if xmin_status = COMMITTED \<and> xmax \<noteq> 0 \<and> xmax_status = COMMITTED then Erase
        else if xmin_status = COMMITTED \<and> xmin \<noteq> FrozenTransactionId then Freeze
        else Keep)
   | _ \<Rightarrow> Keep)"

text \<open>\<open>sort\<close>, \<open>unique\<close> and \<open>erase\<close> of a vector of row ids.\<close>

definition sort_unique :: "u64 list \<Rightarrow> u64 list" where
  "sort_unique xs = sort_key sint (remdups xs)"

definition freeze_row :: "string \<Rightarrow> u64 \<Rightarrow> unit meth" where
  "freeze_row q rid = bindM (getM id) (\<lambda>e. case get_latest (table_data q e) rid of
     None \<Rightarrow> ret ()
   | Some t \<Rightarrow> bindM (to_row t) (\<lambda>r.
       let r = omap_put ''_xmin'' (VInt (ucast FrozenTransactionId)) r
       in replace_row q rid r))"

definition vacuum_table :: "CLog \<Rightarrow> TransactionId \<Rightarrow> string \<Rightarrow> nat meth" where
  "vacuum_table cl oldest q = bindM (getM id) (\<lambda>e. let mt = table_data q e; before = mt_size mt in
     bindM (liftM RowErr (mapE (\<lambda>t. bindE (tuple_to_row_for_visibility t)
        (\<lambda>r. Inr (h_row_id (hdr t), vacuum_choice_of cl oldest r))) (scan_all mt))) (\<lambda>choices.
     let to_erase = sort_unique (map fst (filter (\<lambda>(_, c). c = Erase) choices));
         to_freeze = sort_unique (map fst (filter (\<lambda>(_, c). c = Freeze) choices))
     in steps [forM to_erase (erase_rows q), forM to_freeze (freeze_row q), modM (refresh_row_count q),
          bindM (getM id) (\<lambda>e. whenM (before \<noteq> mt_size (table_data q e)) (rebuild_indexes q))]
          (ret (length to_erase))))"

definition vacuum :: "nat meth" where
  "vacuum = bindM (getM id) (\<lambda>e.
     bindM (foldM (\<lambda>q n. bindM (vacuum_table (clog (e_tm e)) (get_oldest_active_xid (e_tm e)) q) (\<lambda>k. ret (n + k)))
        (map fst (e_data e)) 0) (\<lambda>total.
     steps [tm_do (\<lambda>t. fst (maybe_anti_wraparound t))] (ret total)))"

section \<open>Index lookup\<close>

definition find_index :: "Engine \<Rightarrow> string \<Rightarrow> string \<Rightarrow> IndexInfo option" where
  "find_index e q column = (case map_of (e_indexes e) q of None \<Rightarrow> None
     | Some ixs \<Rightarrow> find (\<lambda>idx. ix_column idx = column) ixs)"

text \<open>The newest version of every row the entry names, in the order of the entry.\<close>

definition index_candidates :: "Engine \<Rightarrow> string \<Rightarrow> string \<Rightarrow> val \<Rightarrow> Tuple list" where
  "index_candidates e q column v = (case find_index e q column of None \<Rightarrow> []
     | Some idx \<Rightarrow> (case map_of (ix_entries idx) (value_to_string v) of None \<Rightarrow> []
       | Some rids \<Rightarrow> (case map_of (e_data e) q of None \<Rightarrow> []
         | Some mt \<Rightarrow> List.map_filter (get_latest mt) rids)))"

definition index_lookup :: "string \<Rightarrow> string \<Rightarrow> val \<Rightarrow> row list meth" where
  "index_lookup table column v = bindM (getM id) (\<lambda>e.
     liftM RowErr (mapE tuple_to_row_for_visibility (index_candidates e (resolve_table_name e table) column v)))"

definition index_lookup_with_snapshot :: "string \<Rightarrow> string \<Rightarrow> val \<Rightarrow> Snapshot \<Rightarrow> TransactionId \<Rightarrow> u32 \<Rightarrow> row list meth" where
  "index_lookup_with_snapshot table column v snap xid cid = bindM (getM id) (\<lambda>e.
     let q = resolve_table_name e table in visible_rows q snap xid cid (index_candidates e q column v))"

definition has_index :: "Engine \<Rightarrow> string \<Rightarrow> string \<Rightarrow> bool" where
  "has_index e table column = (find_index e (resolve_table_name e table) column \<noteq> None)"

end
