(* ===== verification/Statements.thy ===== *)
theory Statements
  imports JM_Types
begin

text \<open>
  The statement tree of \<open>src/types.h\<close>. \<open>Statement\<close> of the code holds a tag and one pointer per kind of
  statement of which exactly one is set; here each kind is a constructor with its contents. A
  \<open>std::unique_ptr<Expression>\<close> that may be null is an option.
\<close>

record SelectStmt =
  sel_columns :: "string list"
  sel_from :: string
  sel_where :: "Expression option"

record InsertStmt =
  ins_table :: string
  ins_columns :: "string list"
  ins_values :: "val list list"

record UpdateStmt =
  upd_table :: string
  upd_sets :: "(string, Expression) omap"
  upd_where :: "Expression option"

record DeleteStmt =
  del_table :: string
  del_where :: "Expression option"

record CreateTableStmt =
  ct_name :: string
  ct_columns :: "ColumnDef list"

record CreateIndexStmt =
  ci_table :: string
  ci_column :: string
  ci_index_name :: string

record CreateSchemaStmt =
  cs_database :: string
  cs_name :: string

record CreateUserStmt =
  usr_name :: string
  usr_password :: string

datatype Statement =
    Select SelectStmt
  | Insert InsertStmt
  | Update UpdateStmt
  | Delete DeleteStmt
  | CreateTable CreateTableStmt
  | DropTable string
  | CreateIndex CreateIndexStmt
  | CreateDatabase string
  | DropDatabase string
  | CreateSchema CreateSchemaStmt
  | CreateUser CreateUserStmt
  | DropUser string
  | UseDatabase string
  | ShowDatabases
  | ShowUsers
  | ShowSchemas
  | BeginTransaction
  | CommitTransaction
  | RollbackTransaction
  | UnknownStatement

end
