(* ===== verification/Float_Arith.thy ===== *)
theory Float_Arith
  imports Float64 "HOL-Library.Signed_Division"
begin

text \<open>
  The arithmetic the planner, the executor and the workload memory do: \<open>+\<close>, \<open>-\<close>, \<open>*\<close>, \<open>/\<close>, \<open>std::ceil\<close>,
  \<open>std::abs\<close>, \<open>std::min\<close> and \<open>std::max\<close> of doubles, and division of \<open>int64_t\<close>.

  \<^item> A finite double is an integer times \<open>2 ^ -1074\<close> (\<open>f_units\<close>), so the exact result of an operation is a
    ratio of integers, which is rounded once by \<open>f_round_mag\<close>.
  \<^item> An operand that is no number is returned made quiet; an invalid operation gives the default one of
    the x86-64 instructions.
  \<^item> Overflow of \<open>int64_t\<close> is undefined in C++. The model wraps around, as the generated instructions do for
    \<open>+\<close>, \<open>-\<close> and \<open>*\<close>; of the one overflowing quotient, the least number by -1, it takes the wrapped value too.
\<close>

section \<open>Doubles\<close>

definition f_default_nan :: double where
  "f_default_nan = f_make True (2047 * 2 ^ 52 + 2 ^ 51)"

definition f_quiet :: "double \<Rightarrow> double" where
  "f_quiet d = or d (push_bit 51 1)"

definition f_infinity :: "bool \<Rightarrow> double" where
  "f_infinity s = f_make s (2047 * 2 ^ 52)"

definition f_neg :: "double \<Rightarrow> double" where
  "f_neg d = f_make (\<not> f_sign d) (f_mag d)"

definition f_abs :: "double \<Rightarrow> double" where
  "f_abs d = f_make False (f_mag d)"

definition f_zero :: "double \<Rightarrow> bool" where
  "f_zero d \<longleftrightarrow> f_mag d = 0"

text \<open>A finite double in units of \<open>2 ^ -1074\<close>.\<close>

definition f_units :: "double \<Rightarrow> nat" where
  "f_units d = (let (m, e) = f_parts (f_mag d) in m * 2 ^ e)"

definition f_signed_units :: "double \<Rightarrow> int" where
  "f_signed_units d = (if f_sign d then - int (f_units d) else int (f_units d))"

definition f_add :: "double \<Rightarrow> double \<Rightarrow> double" where
  "f_add a b =
     (if f_nan a then f_quiet a else if f_nan b then f_quiet b
      else if f_inf a then (if f_inf b \<and> f_sign a \<noteq> f_sign b then f_default_nan else a)
      else if f_inf b then b
      else let i = f_signed_units a + f_signed_units b in
        if i = 0 then f_make (f_sign a \<and> f_sign b) 0
        else f_of_ratio (i < 0) (nat \<bar>i\<bar>) (2 ^ 1074))"

definition f_sub :: "double \<Rightarrow> double \<Rightarrow> double" where
  "f_sub a b = (if f_nan a then f_quiet a else if f_nan b then f_quiet b else f_add a (f_neg b))"

definition f_mul :: "double \<Rightarrow> double \<Rightarrow> double" where
  "f_mul a b =
     (let s = (f_sign a \<noteq> f_sign b) in
      if f_nan a then f_quiet a else if f_nan b then f_quiet b
      else if f_inf a \<or> f_inf b then (if f_zero a \<or> f_zero b then f_default_nan else f_infinity s)
      else f_of_ratio s (f_units a * f_units b) (2 ^ 2148))"

definition f_div :: "double \<Rightarrow> double \<Rightarrow> double" where
  "f_div a b =
     (let s = (f_sign a \<noteq> f_sign b) in
      if f_nan a then f_quiet a else if f_nan b then f_quiet b
      else if f_inf a then (if f_inf b then f_default_nan else f_infinity s)
      else if f_inf b then f_make s 0
      else if f_zero b then (if f_zero a then f_default_nan else f_infinity s)
      else f_of_ratio s (f_units a) (f_units b))"

text \<open>\<open>std::ceil\<close>, on the values met here: an exact integer is representable.\<close>

definition f_ceil :: "double \<Rightarrow> double" where
  "f_ceil d =
     (if f_nan d then f_quiet d else if f_inf d \<or> f_zero d then d
      else let i = - ((- f_signed_units d) div 2 ^ 1074) in f_of_ratio (f_sign d) (nat \<bar>i\<bar>) 1)"

text \<open>\<open>std::max(a, b)\<close> is \<open>a < b ? b : a\<close> and \<open>std::min(a, b)\<close> is \<open>b < a ? b : a\<close>.\<close>

definition f_max :: "double \<Rightarrow> double \<Rightarrow> double" where
  "f_max a b = (if f_lt a b then b else a)"

definition f_min :: "double \<Rightarrow> double \<Rightarrow> double" where
  "f_min a b = (if f_lt b a then b else a)"

definition f_le :: "double \<Rightarrow> double \<Rightarrow> bool" where
  "f_le a b \<longleftrightarrow> f_lt a b \<or> f_eq a b"

text \<open>A decimal literal of the source.\<close>

definition f_literal :: "nat \<Rightarrow> nat \<Rightarrow> double" where
  "f_literal n d = f_of_ratio False n d"

text \<open>\<open>(double) i\<close> of an \<open>int64_t\<close>.\<close>

definition f_of_int64 :: "u64 \<Rightarrow> double" where
  "f_of_int64 w = f_of_int (sint w)"

section \<open>\<open>int64_t\<close>\<close>

definition int64_div :: "u64 \<Rightarrow> u64 \<Rightarrow> u64" where
  "int64_div a b = word_of_int (sint a sdiv sint b)"

definition int64_max :: "u64 \<Rightarrow> u64 \<Rightarrow> u64" where
  "int64_max a b = (if a <s b then b else a)"

end
