(* ===== verification/Workload_Memory.thy ===== *)
theory Workload_Memory
  imports Json JM_Types Float_Arith
begin

text \<open>
  \<open>WorkloadMemory\<close> (\<open>ai/memory.cpp\<close>): the record of every execution, the patterns learned from it and the
  statistics the planner asks for.

  \<^item> \<open>time(nullptr)\<close> is the stream \<open>wm_clock\<close>, consumed by each call.
  \<^item> Text of the source that is not ASCII is given by its UTF-8 bytes (\<open>utf8\<close>).
  \<^item> \<open>get_best_strategy\<close> returns a pointer into a map that is destroyed when it returns. The model returns the
    statistics the pointer was made from; what a reader finds behind the pointer is left open where it is read
    (\<open>freed\<close> in the planner).
  \<^item> Every public method takes the mutex for all of its body: it is one step.
\<close>

section \<open>Records\<close>

record ExecutionRecord =
  er_id :: string
  er_timestamp :: u64
  er_intent_hash :: string
  er_description :: string
  er_category :: string
  er_tables :: "string list"
  er_planned_strategy :: string
  er_estimated_duration_ms :: u64
  er_actual_duration_ms :: u64
  er_rows_scanned :: u64
  er_rows_returned :: u64
  er_affected_rows :: u64
  er_issues :: "string list"
  er_accuracy :: double

record Pattern =
  pt_id :: string
  pt_type :: string
  pt_description :: string
  pt_related_intent_hashes :: "string list"
  pt_suggested_strategy :: string
  pt_suggestion_reason :: string
  pt_confidence :: double
  pt_first_seen :: u64
  pt_last_updated :: u64

record StrategyStat =
  st_strategy :: string
  st_total_duration :: u64
  st_count :: u32

definition new_stat :: StrategyStat where
  "new_stat = \<lparr>st_strategy = [], st_total_duration = 0, st_count = 0\<rparr>"

definition avg_duration :: "StrategyStat \<Rightarrow> double" where
  "avg_duration s = (if 0 <s st_count s then f_div (f_of_int64 (st_total_duration s)) (f_of_int (sint (st_count s))) else f_of_int 0)"

record WorkloadMemory =
  wm_records :: "ExecutionRecord list"
  wm_patterns :: "Pattern list"
  wm_clock :: "nat \<Rightarrow> u64"

definition memory_new :: "(nat \<Rightarrow> u64) \<Rightarrow> WorkloadMemory" where
  "memory_new clock = \<lparr>wm_records = [], wm_patterns = [], wm_clock = clock\<rparr>"

text \<open>\<open>time(nullptr)\<close>\<close>

definition tick :: "WorkloadMemory \<Rightarrow> u64 \<times> WorkloadMemory" where
  "tick m = (wm_clock m 0, m\<lparr>wm_clock := (\<lambda>n. wm_clock m (Suc n))\<rparr>)"

section \<open>Texts\<close>

definition utf8 :: "nat list \<Rightarrow> string" where
  "utf8 = map char_of"

definition txt_query_open :: string where
  "txt_query_open = utf8 [0xE6, 0x9F, 0xA5, 0xE8, 0xAF, 0xA2, 0x20, 0x22]"

definition txt_each :: string where
  "txt_each = utf8 [0x22, 0x20, 0xE6, 0xAF, 0x8F]"

definition txt_day :: string where
  "txt_day = utf8 [0xE5, 0xA4, 0xA9]"

definition txt_hour :: string where
  "txt_hour = utf8 [0xE5, 0xB0, 0x8F, 0xE6, 0x97, 0xB6]"

definition txt_runs_regularly :: string where
  "txt_runs_regularly = utf8 [0xE5, 0xAE, 0x9A, 0xE6, 0x9C, 0x9F, 0xE6, 0x89, 0xA7, 0xE8, 0xA1, 0x8C]"

definition txt_found_period :: string where
  "txt_found_period = utf8 [0xE6, 0xA3, 0x80, 0xE6, 0xB5, 0x8B, 0xE5, 0x88, 0xB0]"

definition txt_period_count :: string where
  "txt_period_count = utf8 [0xE5, 0x91, 0xA8, 0xE6, 0x9C, 0x9F, 0xE6, 0xA8, 0xA1, 0xE5, 0xBC, 0x8F, 0xEF, 0xBC, 0x8C, 0xE5, 0xB7, 0xB2, 0xE6,
    0x89, 0xA7, 0xE8, 0xA1, 0x8C]"

definition txt_times :: string where
  "txt_times = utf8 [0xE6, 0xAC, 0xA1]"

definition txt_hot_query :: string where
  "txt_hot_query = utf8 [0x22, 0x20, 0xE6, 0x98, 0xAF, 0xE7, 0x83, 0xAD, 0xE7, 0x82, 0xB9, 0xE6, 0x9F, 0xA5, 0xE8, 0xAF, 0xA2, 0xEF, 0xBC, 0x88,
    0x31, 0xE5, 0xB0, 0x8F, 0xE6, 0x97, 0xB6, 0xE5, 0x86, 0x85, 0xE6, 0x89, 0xA7, 0xE8, 0xA1, 0x8C]"

definition txt_times_closed :: string where
  "txt_times_closed = utf8 [0xE6, 0xAC, 0xA1, 0xEF, 0xBC, 0x89]"

definition txt_hot_reason :: string where
  "txt_hot_reason = utf8 [0xE9, 0xAB, 0x98, 0xE9, 0xA2, 0x91, 0xE6, 0x9F, 0xA5, 0xE8, 0xAF, 0xA2, 0xEF, 0xBC, 0x8C, 0xE5, 0xBB, 0xBA, 0xE8, 0xAE,
    0xAE, 0xE7, 0xBC, 0x93, 0xE5, 0xAD, 0x98, 0xE6, 0x88, 0x96, 0xE9, 0xA2, 0x84, 0xE6, 0x89, 0xA7, 0xE8, 0xA1, 0x8C]"

definition txt_deviation :: string where
  "txt_deviation = utf8 [0x22, 0x20, 0xE7, 0x9A, 0x84, 0xE7, 0xAD, 0x96, 0xE7, 0x95, 0xA5, 0xE5, 0x81, 0x8F, 0xE5, 0xB7, 0xAE, 0x3A, 0x20, 0xE9,
    0xA2, 0x84, 0xE4, 0xBC, 0xB0]"

definition txt_actual :: string where
  "txt_actual = utf8 [0x6D, 0x73, 0x2C, 0x20, 0xE5, 0xAE, 0x9E, 0xE9, 0x99, 0x85]"

definition txt_deviation_reason :: string where
  "txt_deviation_reason = utf8 [0xE6, 0x95, 0xB0, 0xE6, 0x8D, 0xAE, 0xE5, 0x88, 0x86, 0xE5, 0xB8, 0x83, 0xE5, 0x8F, 0xAF, 0xE8, 0x83, 0xBD, 0xE5,
    0x8F, 0x91, 0xE7, 0x94, 0x9F, 0xE4, 0xBA, 0x86, 0xE5, 0x8F, 0x98, 0xE5, 0x8C, 0x96, 0xEF, 0xBC, 0x8C, 0xE4, 0xB9, 0x8B, 0xE5, 0x89, 0x8D, 0xE7,
    0x9A, 0x84, 0xE6, 0x9C, 0x80, 0xE4, 0xBC, 0x98, 0xE7, 0xAD, 0x96, 0xE7, 0x95, 0xA5, 0xE4, 0xB8, 0x8D, 0xE5, 0x86, 0x8D, 0xE9, 0x80, 0x82, 0xE7,
    0x94, 0xA8]"

section \<open>Queries\<close>

definition find_similar :: "WorkloadMemory \<Rightarrow> string \<Rightarrow> string \<Rightarrow> string list \<Rightarrow> ExecutionRecord list" where
  "find_similar m intent_hash category tables = filter (\<lambda>r. er_intent_hash r = intent_hash \<and> er_category r = category \<and>
     (\<exists>t \<in> set tables. t \<in> set (er_tables r))) (wm_records m)"

definition add_stat :: "ExecutionRecord \<Rightarrow> (string, StrategyStat) omap \<Rightarrow> (string, StrategyStat) omap" where
  "add_stat r stats = (let k = er_planned_strategy r; s = omap_at new_stat stats k in
     omap_put k \<lparr>st_strategy = k, st_total_duration = st_total_duration s + er_actual_duration_ms r, st_count = st_count s + 1\<rparr> stats)"

definition strategy_stats :: "WorkloadMemory \<Rightarrow> string \<Rightarrow> (string, StrategyStat) omap" where
  "strategy_stats m intent_hash = fold add_stat (filter (\<lambda>r. er_intent_hash r = intent_hash) (wm_records m)) []"

text \<open>\<open>if (!best || avg < best_avg)\<close>\<close>

fun best_of :: "StrategyStat option \<Rightarrow> StrategyStat list \<Rightarrow> StrategyStat option" where
  "best_of best [] = best"
| "best_of best (s # ss) = best_of (case best of None \<Rightarrow> Some s
     | Some b \<Rightarrow> if f_lt (avg_duration s) (avg_duration b) then Some s else Some b) ss"

definition get_best_strategy :: "WorkloadMemory \<Rightarrow> string \<Rightarrow> StrategyStat option" where
  "get_best_strategy m intent_hash = best_of None (map snd (strategy_stats m intent_hash))"

definition get_patterns :: "WorkloadMemory \<Rightarrow> Pattern list" where
  "get_patterns m = wm_patterns m"

section \<open>Learning\<close>

text \<open>The first pattern of a type that names the query: its position.\<close>

definition pattern_for :: "string \<Rightarrow> string \<Rightarrow> Pattern \<Rightarrow> bool" where
  "pattern_for ty hash p \<longleftrightarrow> pt_type p = ty \<and> hash \<in> set (pt_related_intent_hashes p)"

fun update_first :: "('a \<Rightarrow> bool) \<Rightarrow> ('a \<Rightarrow> 'a) \<Rightarrow> 'a list \<Rightarrow> 'a list" where
  "update_first P f [] = []"
| "update_first P f (x # xs) = (if P x then f x # xs else x # update_first P f xs)"

definition refresh_pattern :: "string \<Rightarrow> string \<Rightarrow> double \<Rightarrow> WorkloadMemory \<Rightarrow> WorkloadMemory" where
  "refresh_pattern ty hash step m = (let (now, m) = tick m in
     m\<lparr>wm_patterns := update_first (pattern_for ty hash) (\<lambda>p. p\<lparr>pt_last_updated := now,
        pt_confidence := f_min (f_add (pt_confidence p) step) (f_literal 95 100)\<rparr>) (wm_patterns m)\<rparr>)"

definition add_pattern :: "Pattern \<Rightarrow> WorkloadMemory \<Rightarrow> WorkloadMemory" where
  "add_pattern p m = m\<lparr>wm_patterns := wm_patterns m @ [p]\<rparr>"

fun intervals :: "u64 list \<Rightarrow> u64 list" where
  "intervals (a # b # ts) = (b - a) # intervals (b # ts)"
| "intervals _ = []"

definition average :: "u64 list \<Rightarrow> double" where
  "average ds = f_div (fold (\<lambda>d avg. f_add avg (f_of_int64 d)) ds (f_of_int 0)) (f_of_int (int (length ds)))"

definition max_deviation :: "u64 list \<Rightarrow> double \<Rightarrow> double" where
  "max_deviation ds avg = fold (\<lambda>d dev. f_max dev (f_div (f_abs (f_sub (f_of_int64 d) avg)) avg)) ds (f_of_int 0)"

text \<open>\<open>avg > unit * 0.9 && avg < unit * 1.1\<close>\<close>

definition about :: "double \<Rightarrow> int \<Rightarrow> bool" where
  "about avg unit \<longleftrightarrow> f_lt (f_mul (f_of_int unit) (f_literal 9 10)) avg \<and> f_lt avg (f_mul (f_of_int unit) (f_literal 11 10))"

definition detect_periodic_job :: "ExecutionRecord \<Rightarrow> WorkloadMemory \<Rightarrow> WorkloadMemory" where
  "detect_periodic_job rec m =
     (let same = filter (\<lambda>r. er_intent_hash r = er_intent_hash rec) (wm_records m);
          ds = intervals (map er_timestamp same); avg = average ds in
      if length same < 3 \<or> length ds < 2 then m
      else if f_lt (f_literal 2 10) (max_deviation ds avg) then m
      else if \<not> about avg 86400000 \<and> \<not> about avg 3600000 then m
      else if \<exists>p \<in> set (wm_patterns m). pattern_for ''periodic_job'' (er_intent_hash rec) p
        then refresh_pattern ''periodic_job'' (er_intent_hash rec) (f_literal 5 100) m
      else let daily = about avg 86400000; (t1, m) = tick m; (t2, m) = tick m in
        add_pattern \<lparr>pt_id = ''pattern-'' @ int64_to_string t1, pt_type = ''periodic_job'',
          pt_description = txt_query_open @ er_description rec @ txt_each @ (if daily then txt_day else txt_hour) @ txt_runs_regularly,
          pt_related_intent_hashes = [er_intent_hash rec], pt_suggested_strategy = er_planned_strategy rec,
          pt_suggestion_reason = txt_found_period @ (if daily then ''daily'' else ''hourly'') @ txt_period_count @
             nat_to_string (length same) @ txt_times,
          pt_confidence = f_min (f_add (f_literal 5 10) (f_mul (f_of_int (int (length same))) (f_literal 1 10))) (f_literal 95 100),
          pt_first_seen = er_timestamp (hd same), pt_last_updated = t2\<rparr> m)"

definition detect_frequent_query :: "ExecutionRecord \<Rightarrow> WorkloadMemory \<Rightarrow> WorkloadMemory" where
  "detect_frequent_query rec m =
     (let count = length (filter (\<lambda>r. er_intent_hash r = er_intent_hash rec \<and> er_timestamp rec - er_timestamp r <s 3600000) (wm_records m)) in
      if count < 5 then m
      else if \<exists>p \<in> set (wm_patterns m). pattern_for ''frequent_query'' (er_intent_hash rec) p then m
      else let (t1, m) = tick m; (t2, m) = tick m; (t3, m) = tick m in
        add_pattern \<lparr>pt_id = ''pattern-hot-'' @ int64_to_string t1, pt_type = ''frequent_query'',
          pt_description = txt_query_open @ er_description rec @ txt_hot_query @ nat_to_string count @ txt_times_closed,
          pt_related_intent_hashes = [er_intent_hash rec], pt_suggested_strategy = er_planned_strategy rec,
          pt_suggestion_reason = txt_hot_reason,
          pt_confidence = f_min (f_add (f_literal 6 10) (f_mul (f_of_int (int count)) (f_literal 5 100))) (f_literal 9 10),
          pt_first_seen = t2, pt_last_updated = t3\<rparr> m)"

definition detect_strategy_deviation :: "ExecutionRecord \<Rightarrow> WorkloadMemory \<Rightarrow> WorkloadMemory" where
  "detect_strategy_deviation rec m =
     (if \<not> f_lt (f_of_int 2) (er_accuracy rec) \<and> \<not> f_lt (er_accuracy rec) (f_literal 3 10) then m
      else if \<exists>p \<in> set (wm_patterns m). pattern_for ''data_skew'' (er_intent_hash rec) p
        then refresh_pattern ''data_skew'' (er_intent_hash rec) (f_literal 1 10) m
      else let (t1, m) = tick m; (t2, m) = tick m; (t3, m) = tick m in
        add_pattern \<lparr>pt_id = ''pattern-skew-'' @ int64_to_string t1, pt_type = ''data_skew'',
          pt_description = txt_query_open @ er_description rec @ txt_deviation @ int64_to_string (er_estimated_duration_ms rec) @
             txt_actual @ int64_to_string (er_actual_duration_ms rec) @ ''ms'',
          pt_related_intent_hashes = [er_intent_hash rec], pt_suggested_strategy = ''re-evaluate'',
          pt_suggestion_reason = txt_deviation_reason, pt_confidence = f_literal 7 10,
          pt_first_seen = t2, pt_last_updated = t3\<rparr> m)"

definition learn_patterns :: "ExecutionRecord \<Rightarrow> WorkloadMemory \<Rightarrow> WorkloadMemory" where
  "learn_patterns rec m = detect_strategy_deviation rec (detect_frequent_query rec (detect_periodic_job rec m))"

definition record_exec :: "ExecutionRecord \<Rightarrow> WorkloadMemory \<Rightarrow> WorkloadMemory" where
  "record_exec rec m = learn_patterns rec (m\<lparr>wm_records := wm_records m @ [rec]\<rparr>)"

section \<open>The file\<close>

definition j_strings :: "string list \<Rightarrow> json" where
  "j_strings ss = JArray (map JString ss)"

definition j_object :: "(string \<times> json) list \<Rightarrow> json" where
  "j_object kvs = fold (\<lambda>(k, v). j_set k v) kvs JNull"

definition record_to_json :: "ExecutionRecord \<Rightarrow> json" where
  "record_to_json r = j_object [(''id'', JString (er_id r)), (''timestamp'', JInt (er_timestamp r)),
     (''intent_hash'', JString (er_intent_hash r)), (''description'', JString (er_description r)),
     (''category'', JString (er_category r)), (''tables'', j_strings (er_tables r)),
     (''planned_strategy'', JString (er_planned_strategy r)),
     (''estimated_duration_ms'', JInt (er_estimated_duration_ms r)), (''actual_duration_ms'', JInt (er_actual_duration_ms r)),
     (''rows_scanned'', JInt (er_rows_scanned r)), (''rows_returned'', JInt (er_rows_returned r)),
     (''affected_rows'', JInt (er_affected_rows r)), (''issues'', j_strings (er_issues r)), (''accuracy'', JFloat (er_accuracy r))]"

definition pattern_to_json :: "Pattern \<Rightarrow> json" where
  "pattern_to_json p = j_object [(''id'', JString (pt_id p)), (''type'', JString (pt_type p)),
     (''description'', JString (pt_description p)), (''related_intent_hashes'', j_strings (pt_related_intent_hashes p)),
     (''suggested_strategy'', JString (pt_suggested_strategy p)), (''suggestion_reason'', JString (pt_suggestion_reason p)),
     (''confidence'', JFloat (pt_confidence p)), (''first_seen'', JInt (pt_first_seen p)), (''last_updated'', JInt (pt_last_updated p))]"

text \<open>Only the last 1000 records are kept.\<close>

definition memory_to_json :: "WorkloadMemory \<Rightarrow> json" where
  "memory_to_json m = j_object [
     (''records'', JArray (map record_to_json (drop (length (wm_records m) - 1000) (wm_records m)))),
     (''patterns'', JArray (map pattern_to_json (wm_patterns m)))]"

definition memory_save :: "WorkloadMemory \<Rightarrow> string" where
  "memory_save m = dump (memory_to_json m) 2"

definition optional_strings :: "json \<Rightarrow> string \<Rightarrow> string list option" where
  "optional_strings j k = (if j_contains j k then those (map get_string (j_elements (j_at j k))) else Some [])"

definition json_record :: "json \<Rightarrow> ExecutionRecord option" where
  "json_record r = do {
     id \<leftarrow> get_string (j_at r ''id'');
     tables \<leftarrow> optional_strings r ''tables'';
     issues \<leftarrow> optional_strings r ''issues'';
     Some \<lparr>er_id = id, er_timestamp = value_int r ''timestamp'' 0, er_intent_hash = value_string r ''intent_hash'' [],
       er_description = value_string r ''description'' [], er_category = value_string r ''category'' [], er_tables = tables,
       er_planned_strategy = value_string r ''planned_strategy'' [],
       er_estimated_duration_ms = value_int r ''estimated_duration_ms'' 0,
       er_actual_duration_ms = value_int r ''actual_duration_ms'' 0, er_rows_scanned = value_int r ''rows_scanned'' 0,
       er_rows_returned = value_int r ''rows_returned'' 0, er_affected_rows = value_int r ''affected_rows'' 0,
       er_issues = issues, er_accuracy = value_double r ''accuracy'' (f_of_int 1)\<rparr> }"

definition json_pattern :: "json \<Rightarrow> Pattern option" where
  "json_pattern p = do {
     hashes \<leftarrow> optional_strings p ''related_intent_hashes'';
     Some \<lparr>pt_id = value_string p ''id'' [], pt_type = value_string p ''type'' [],
       pt_description = value_string p ''description'' [], pt_related_intent_hashes = hashes,
       pt_suggested_strategy = value_string p ''suggested_strategy'' [],
       pt_suggestion_reason = value_string p ''suggestion_reason'' [], pt_confidence = value_double p ''confidence'' (f_of_int 0),
       pt_first_seen = value_int p ''first_seen'' 0, pt_last_updated = value_int p ''last_updated'' 0\<rparr> }"

text \<open>A loop that stops with what it has when an element throws; the flag says that it did.\<close>

fun read_each :: "('a \<Rightarrow> 'b option) \<Rightarrow> 'a list \<Rightarrow> 'b list \<times> bool" where
  "read_each f [] = ([], False)"
| "read_each f (x # xs) = (case f x of None \<Rightarrow> ([], True)
     | Some y \<Rightarrow> let (ys, broken) = read_each f xs in (y # ys, broken))"

definition memory_from_json :: "json \<Rightarrow> WorkloadMemory \<Rightarrow> WorkloadMemory" where
  "memory_from_json j m =
     (let (rs, broken) = read_each json_record (j_elements (j_at j ''records''));
          m = m\<lparr>wm_records := wm_records m @ rs\<rparr> in
      if broken then m
      else m\<lparr>wm_patterns := wm_patterns m @ fst (read_each json_pattern (j_elements (j_at j ''patterns'')))\<rparr>)"

text \<open>\<open>load\<close>: no file, or one that does not parse, leaves the memory as it is.\<close>

definition memory_load :: "string option \<Rightarrow> WorkloadMemory \<Rightarrow> WorkloadMemory" where
  "memory_load file m = (case file of None \<Rightarrow> m
     | Some text \<Rightarrow> (case json_parse text of Inl _ \<Rightarrow> m | Inr j \<Rightarrow> memory_from_json j m))"

end
