(* ===== verification/Planner.thy ===== *)
theory Planner
  imports Engine Statements Workload_Memory
begin

text \<open>
  \<open>AIPlanner\<close> (\<open>ai/planner.cpp\<close>) with the intent, pipeline and plan structures of \<open>types.h\<close>.

  The planner only reads the engine and the workload memory. The strategy it takes from the memory is read
  through the pointer \<open>get_best_strategy\<close> returns, which points into a map that no longer exists: its text is
  the argument \<open>freed\<close>, about which nothing is assumed.
\<close>

section \<open>Intents, pipelines and plans\<close>

datatype IntentCategory = QUERY | MUTATION | SCHEMA | TASK | CONVERSATION

record UnifiedIntent =
  in_category :: IntentCategory
  in_raw_input :: string
  in_tables :: "string list"
  in_description :: string
  in_statement :: Statement
  in_is_write :: bool

datatype (plugins only: code) PipelineOpType = SCAN | INDEX_SCAN | FILTER | PROJECT | LIMIT | SORT | INSERT | UPDATE | DELETE
  | CREATE_TABLE | DROP_TABLE | CREATE_INDEX | CREATE_DATABASE | DROP_DATABASE | CREATE_SCHEMA | CREATE_USER | DROP_USER | USE_DATABASE

record PipelineOp =
  op_type :: PipelineOpType
  op_table :: string
  op_column :: string
  op_index_value :: val
  op_filter :: "Expression option"
  op_project_columns :: "string list"
  op_limit_count :: u64
  op_sort_desc :: bool
  op_insert_rows :: "row list"
  op_update_values :: row

type_synonym Pipeline = "PipelineOp list"

definition new_op :: "PipelineOpType \<Rightarrow> string \<Rightarrow> PipelineOp" where
  "new_op ty table = \<lparr>op_type = ty, op_table = table, op_column = [], op_index_value = VNull, op_filter = None,
     op_project_columns = [], op_limit_count = 0, op_sort_desc = False, op_insert_rows = [], op_update_values = []\<rparr>"

record ExecutionPlan =
  pl_intent_hash :: string
  pl_pipeline :: Pipeline
  pl_rows_to_scan :: u64
  pl_rows_to_return :: u64
  pl_estimated_duration_ms :: u64
  pl_memory_estimate :: u64
  pl_reasoning :: string
  pl_source :: string

definition new_plan :: "string \<Rightarrow> ExecutionPlan" where
  "new_plan hash = \<lparr>pl_intent_hash = hash, pl_pipeline = [], pl_rows_to_scan = 0, pl_rows_to_return = 0,
     pl_estimated_duration_ms = 0, pl_memory_estimate = 0, pl_reasoning = [], pl_source = []\<rparr>"

section \<open>Expressions\<close>

primrec clone_expr :: "Expression \<Rightarrow> Expression" where
  "clone_expr (Literal v) = Literal v"
| "clone_expr (ColumnRef c) = ColumnRef c"
| "clone_expr (BinaryOp opn l r) = BinaryOp opn (clone_expr l) (clone_expr r)"
| "clone_expr (UnaryOp opn e) = UnaryOp opn (clone_expr e)"

lemma clone_expr_id [simp]: "clone_expr e = e"
  by (induction e) simp_all

primrec extract_where_columns :: "Expression \<Rightarrow> string list" where
  "extract_where_columns (Literal v) = []"
| "extract_where_columns (ColumnRef c) = [c]"
| "extract_where_columns (BinaryOp opn l r) = extract_where_columns l @ extract_where_columns r"
| "extract_where_columns (UnaryOp opn e) = extract_where_columns e"

fun extract_eq_value :: "Expression \<Rightarrow> string \<Rightarrow> string" where
  "extract_eq_value (BinaryOp opn l r) column =
     (if opn = ''='' then (case (l, r) of (ColumnRef c, Literal v) \<Rightarrow> if c = column then value_to_string v else [] | _ \<Rightarrow> [])
      else if opn = ''AND'' then
        (let left = extract_eq_value l column in if left \<noteq> [] then left else extract_eq_value r column)
      else [])"
| "extract_eq_value _ column = []"

section \<open>Strategy and pipeline\<close>

definition INDEX_SCAN_PREFIX :: string where
  "INDEX_SCAN_PREFIX = ''index_scan:''"

definition choose_initial_strategy :: "Engine \<Rightarrow> Statement \<Rightarrow> string" where
  "choose_initial_strategy e ast = (case ast of
     Select s \<Rightarrow> (case sel_where s of None \<Rightarrow> ''full_scan''
       | Some w \<Rightarrow> (case find (has_index e (sel_from s)) (extract_where_columns w) of
           None \<Rightarrow> ''full_scan'' | Some col \<Rightarrow> INDEX_SCAN_PREFIX @ col))
   | Insert _ \<Rightarrow> ''insert''
   | Update s \<Rightarrow> if upd_where s \<noteq> None then ''update_with_where'' else ''update''
   | Delete s \<Rightarrow> if del_where s \<noteq> None then ''delete_with_where'' else ''delete''
   | CreateTable _ \<Rightarrow> ''ddl_create''
   | DropTable _ \<Rightarrow> ''ddl_drop''
   | CreateDatabase _ \<Rightarrow> ''ddl_create_db''
   | DropDatabase _ \<Rightarrow> ''ddl_drop_db''
   | CreateSchema _ \<Rightarrow> ''ddl_create_schema''
   | CreateUser _ \<Rightarrow> ''ddl_create_user''
   | DropUser _ \<Rightarrow> ''ddl_drop_user''
   | UseDatabase _ \<Rightarrow> ''use_db''
   | ShowDatabases \<Rightarrow> ''show_dbs''
   | ShowUsers \<Rightarrow> ''show_users''
   | ShowSchemas \<Rightarrow> ''show_schemas''
   | _ \<Rightarrow> ''full_scan'')"

definition source_op :: "SelectStmt \<Rightarrow> string \<Rightarrow> PipelineOp" where
  "source_op s strategy =
     (if has_prefix INDEX_SCAN_PREFIX strategy then
        (let col = drop 11 strategy;
             eq_val = (case sel_where s of None \<Rightarrow> [] | Some w \<Rightarrow> extract_eq_value w col);
             opr = (new_op INDEX_SCAN (sel_from s))\<lparr>op_column := col\<rparr>
         in if eq_val \<noteq> [] then opr\<lparr>op_index_value := VString eq_val\<rparr> else opr\<lparr>op_type := SCAN\<rparr>)
      else new_op SCAN (sel_from s))"

definition filter_op :: "Expression option \<Rightarrow> Pipeline" where
  "filter_op w = (case w of None \<Rightarrow> [] | Some e \<Rightarrow> [(new_op FILTER [])\<lparr>op_filter := Some (clone_expr e)\<rparr>])"

definition project_op :: "string list \<Rightarrow> Pipeline" where
  "project_op columns = (if columns = [] then [] else [(new_op PROJECT [])\<lparr>op_project_columns := columns\<rparr>])"

definition insert_columns :: "Engine \<Rightarrow> InsertStmt \<Rightarrow> string list" where
  "insert_columns e s = (if ins_columns s = []
     then (case get_schema e (ins_table s) of None \<Rightarrow> [] | Some schema \<Rightarrow> map cd_name (ts_columns schema))
     else ins_columns s)"

text \<open>\<open>for (i = 0; i < vals.size() && i < col_names.size(); i++) row[col_names[i]] = vals[i]\<close>\<close>

definition values_row :: "string list \<Rightarrow> val list \<Rightarrow> row" where
  "values_row columns vals = fold (\<lambda>(c, v). omap_put c v) (zip columns vals) []"

text \<open>Only literals are taken over from the assignments.\<close>

definition literal_updates :: "(string, Expression) omap \<Rightarrow> row" where
  "literal_updates sets = fold (\<lambda>(c, e) m. case e of Literal v \<Rightarrow> omap_put c v m | _ \<Rightarrow> m) sets []"

definition build_pipeline :: "Engine \<Rightarrow> Statement \<Rightarrow> string \<Rightarrow> Pipeline" where
  "build_pipeline e ast strategy = (case ast of
     Select s \<Rightarrow> source_op s strategy # filter_op (sel_where s) @ project_op (sel_columns s)
   | Insert s \<Rightarrow> [(new_op INSERT (ins_table s))\<lparr>op_insert_rows := map (values_row (insert_columns e s)) (ins_values s)\<rparr>]
   | Update s \<Rightarrow> [(new_op UPDATE (upd_table s))\<lparr>op_update_values := literal_updates (upd_sets s),
        op_filter := map_option clone_expr (upd_where s)\<rparr>]
   | Delete s \<Rightarrow> [(new_op DELETE (del_table s))\<lparr>op_filter := map_option clone_expr (del_where s)\<rparr>]
   | CreateTable s \<Rightarrow> [new_op CREATE_TABLE (ct_name s)]
   | DropTable name \<Rightarrow> [new_op DROP_TABLE name]
   | CreateDatabase name \<Rightarrow> [new_op CREATE_DATABASE name]
   | DropDatabase name \<Rightarrow> [new_op DROP_DATABASE name]
   | CreateSchema s \<Rightarrow> [new_op CREATE_SCHEMA (cs_name s)]
   | CreateUser s \<Rightarrow> [new_op CREATE_USER (usr_name s)]
   | DropUser name \<Rightarrow> [new_op DROP_USER name]
   | UseDatabase name \<Rightarrow> [new_op USE_DATABASE name]
   | _ \<Rightarrow> [])"

section \<open>Cost\<close>

text \<open>The two rows of the estimate: a tenth of the rows through an index, all of them otherwise.\<close>

definition scan_cost :: "bool \<Rightarrow> u64 \<Rightarrow> ExecutionPlan \<Rightarrow> ExecutionPlan" where
  "scan_cost indexed row_count plan =
     (let n = (if indexed then int64_max (f_to_int64 (f_ceil (f_mul (f_of_int64 row_count) (f_literal 1 10)))) 1 else row_count)
      in plan\<lparr>pl_rows_to_scan := n, pl_rows_to_return := n,
         pl_estimated_duration_ms := int64_max (f_to_int64 (f_mul (f_of_int64 n) (if indexed then f_literal 5 1000 else f_literal 1 100))) 1,
         pl_memory_estimate := n * 64\<rparr>)"

definition estimate_cost :: "Engine \<Rightarrow> Pipeline \<Rightarrow> ExecutionPlan \<Rightarrow> ExecutionPlan" where
  "estimate_cost e pipeline plan = (case pipeline of [] \<Rightarrow> plan
     | op1 # _ \<Rightarrow>
        if op_type op1 \<in> {INSERT, UPDATE, DELETE, CREATE_TABLE, DROP_TABLE}
        then plan\<lparr>pl_rows_to_scan := 0, pl_rows_to_return := 0, pl_estimated_duration_ms := 1, pl_memory_estimate := 256\<rparr>
        else if op_type op1 \<notin> {SCAN, INDEX_SCAN} \<or> op_table op1 = [] then plan
        else scan_cost (op_type op1 = INDEX_SCAN)
               (case get_schema e (op_table op1) of None \<Rightarrow> 0 | Some s \<Rightarrow> ts_row_count s) plan)"

lemma estimate_pipeline [simp]: "pl_pipeline (estimate_cost e pipeline plan) = pl_pipeline plan"
  by (simp add: estimate_cost_def scan_cost_def Let_def split: list.split)

fun op_signature :: "PipelineOpType \<Rightarrow> string" where
  "op_signature SCAN = ''scan''"
| "op_signature INDEX_SCAN = ''indexScan''"
| "op_signature FILTER = ''filter''"
| "op_signature PROJECT = ''project''"
| "op_signature INSERT = ''insert''"
| "op_signature UPDATE = ''update''"
| "op_signature DELETE = ''delete''"
| "op_signature CREATE_TABLE = ''createTable''"
| "op_signature DROP_TABLE = ''dropTable''"
| "op_signature CREATE_DATABASE = ''createDb''"
| "op_signature DROP_DATABASE = ''dropDb''"
| "op_signature CREATE_SCHEMA = ''createSchema''"
| "op_signature CREATE_USER = ''createUser''"
| "op_signature DROP_USER = ''dropUser''"
| "op_signature USE_DATABASE = ''useDb''"
| "op_signature _ = ''?''"

fun pipeline_signature :: "Pipeline \<Rightarrow> string" where
  "pipeline_signature [] = []"
| "pipeline_signature [p] = op_signature (op_type p)"
| "pipeline_signature (p # ps) = op_signature (op_type p) @ ''|'' @ pipeline_signature ps"

section \<open>Plans\<close>

definition txt_based_on :: string where
  "txt_based_on = utf8 [0xE5, 0x9F, 0xBA, 0xE4, 0xBA, 0x8E, 0x20]"

definition txt_history :: string where
  "txt_history = utf8 [0x20, 0xE6, 0xAC, 0xA1, 0xE5, 0x8E, 0x86, 0xE5, 0x8F, 0xB2, 0xEF, 0xBC, 0x8C, 0xE6, 0xB5, 0x81, 0xE6, 0xB0, 0xB4, 0xE7, 0xBA,
    0xBF, 0x20, 0x22]"

definition txt_mean :: string where
  "txt_mean = utf8 [0x22, 0x20, 0xE5, 0xB9, 0xB3, 0xE5, 0x9D, 0x87, 0x20]"

definition txt_best :: string where
  "txt_best = utf8 [0x6D, 0x73, 0xEF, 0xBC, 0x88, 0xE6, 0x9C, 0x80, 0xE4, 0xBC, 0x98, 0xEF, 0xBC, 0x89]"

definition txt_first_time :: string where
  "txt_first_time = utf8 [0xE9, 0xA6, 0x96, 0xE6, 0xAC, 0xA1, 0xE6, 0x89, 0xA7, 0xE8, 0xA1, 0x8C, 0x20]"

definition txt_table :: string where
  "txt_table = utf8 [0xEF, 0xBC, 0x88, 0xE8, 0xA1, 0xA8, 0x20]"

definition txt_chose :: string where
  "txt_chose = utf8 [0xEF, 0xBC, 0x89, 0xEF, 0xBC, 0x8C, 0xE9, 0x80, 0x89, 0xE6, 0x8B, 0xA9, 0xE7, 0xAD, 0x96, 0xE7, 0x95, 0xA5, 0x20, 0x22]"

definition category_of_plan :: "UnifiedIntent \<Rightarrow> string" where
  "category_of_plan intent = (if in_category intent = QUERY then ''query'' else ''mutation'')"

definition plan_from_memory :: "Engine \<Rightarrow> UnifiedIntent \<Rightarrow> ExecutionRecord list \<Rightarrow> string \<Rightarrow> ExecutionPlan" where
  "plan_from_memory e intent history strategy =
     (let pipeline = build_pipeline e (in_statement intent) strategy;
          plan = estimate_cost e pipeline ((new_plan (in_description intent))\<lparr>pl_pipeline := pipeline\<rparr>);
          avg = int64_div (sum_list (map er_actual_duration_ms history)) (of_nat (length history))
      in plan\<lparr>pl_estimated_duration_ms := avg, pl_source := ''from_memory'',
           pl_reasoning := txt_based_on @ nat_to_string (length history) @ txt_history @ pipeline_signature pipeline @
             txt_mean @ int64_to_string avg @ txt_best\<rparr>)"

definition plan_anew :: "Engine \<Rightarrow> UnifiedIntent \<Rightarrow> ExecutionPlan" where
  "plan_anew e intent =
     (let strategy = choose_initial_strategy e (in_statement intent);
          pipeline = build_pipeline e (in_statement intent) strategy;
          plan = estimate_cost e pipeline ((new_plan (in_description intent))\<lparr>pl_pipeline := pipeline\<rparr>);
          table_name = (case in_tables intent of [] \<Rightarrow> ''?'' | t # _ \<Rightarrow> t)
      in plan\<lparr>pl_source := ''new_plan'',
           pl_reasoning := txt_first_time @ in_description intent @ txt_table @ table_name @ txt_chose @ strategy @ [CHR 0x22]\<rparr>)"

definition plan :: "string \<Rightarrow> WorkloadMemory \<Rightarrow> Engine \<Rightarrow> UnifiedIntent \<Rightarrow> ExecutionPlan" where
  "plan freed m e intent =
     (let history = find_similar m (in_description intent) (category_of_plan intent) (in_tables intent) in
      if get_best_strategy m (in_description intent) \<noteq> None \<and> 2 \<le> length history
      then plan_from_memory e intent history freed else plan_anew e intent)"

end
