(* ===== verification/Supervisor.thy ===== *)
theory Supervisor
  imports Planner
begin

text \<open>
  \<open>Supervisor\<close> (\<open>supervisor/rules.cpp\<close>): the rules a plan has to pass. Its errors and warnings are the texts of
  the source. Nothing of the repository calls \<open>verify\<close>; the server makes a supervisor and does not use it.
\<close>

record VerificationResult =
  vr_passed :: bool
  vr_errors :: "string list"
  vr_warnings :: "string list"

definition txt_sv_table :: string where
  "txt_sv_table = utf8 [0xE8, 0xA1, 0xA8, 0x20, 0x22]"

definition txt_sv_missing :: string where
  "txt_sv_missing = utf8 [0x22, 0x20, 0xE4, 0xB8, 0x8D, 0xE5, 0xAD, 0x98, 0xE5, 0x9C, 0xA8]"

definition txt_sv_full_table :: string where
  "txt_sv_full_table = utf8 [0xE5, 0x85, 0xA8, 0xE8, 0xA1, 0xA8, 0x20]"

definition txt_sv_update :: string where
  "txt_sv_update = utf8 [0xE6, 0x9B, 0xB4, 0xE6, 0x96, 0xB0]"

definition txt_sv_delete :: string where
  "txt_sv_delete = utf8 [0xE5, 0x88, 0xA0, 0xE9, 0x99, 0xA4]"

definition txt_sv_touches :: string where
  "txt_sv_touches = utf8 [0x20, 0xE6, 0x93, 0x8D, 0xE4, 0xBD, 0x9C, 0xE6, 0xB6, 0x89, 0xE5, 0x8F, 0x8A, 0x20]"

definition txt_sv_needs_where :: string where
  "txt_sv_needs_where = utf8 [0x20, 0xE8, 0xA1, 0x8C, 0xEF, 0xBC, 0x8C, 0xE9, 0x9C, 0x80, 0xE8, 0xA6, 0x81, 0x20, 0x57, 0x48, 0x45, 0x52, 0x45,
    0x20, 0xE6, 0x9D, 0xA1, 0xE4, 0xBB, 0xB6, 0xE7, 0xA1, 0xAE, 0xE8, 0xAE, 0xA4]"

definition txt_sv_delete_all :: string where
  "txt_sv_delete_all = utf8 [0x44, 0x45, 0x4C, 0x45, 0x54, 0x45, 0x20, 0xE8, 0xAF, 0xAD, 0xE5, 0x8F, 0xA5, 0xE6, 0xB2, 0xA1, 0xE6, 0x9C, 0x89, 0x20,
    0x57, 0x48, 0x45, 0x52, 0x45, 0x20, 0xE6, 0x9D, 0xA1, 0xE4, 0xBB, 0xB6, 0xEF, 0xBC, 0x8C, 0xE5, 0xB0, 0x86, 0xE5, 0x88, 0xA0, 0xE9, 0x99, 0xA4,
    0xE8, 0xA1, 0xA8, 0x20, 0x22]"

definition txt_sv_inside_all :: string where
  "txt_sv_inside_all = utf8 [0x22, 0x20, 0xE4, 0xB8, 0xAD, 0xE5, 0x85, 0xA8, 0xE9, 0x83, 0xA8, 0x20]"

definition txt_sv_row_data :: string where
  "txt_sv_row_data = utf8 [0x20, 0xE8, 0xA1, 0x8C, 0xE6, 0x95, 0xB0, 0xE6, 0x8D, 0xAE]"

definition txt_sv_scans :: string where
  "txt_sv_scans = utf8 [0xE9, 0xA2, 0x84, 0xE8, 0xAE, 0xA1, 0xE6, 0x89, 0xAB, 0xE6, 0x8F, 0x8F, 0x20]"

definition txt_sv_rows_slow :: string where
  "txt_sv_rows_slow = utf8 [0x20, 0xE8, 0xA1, 0x8C, 0xEF, 0xBC, 0x8C, 0xE5, 0xA6, 0x82, 0xE6, 0x9E, 0x9C, 0xE8, 0xA1, 0xA8, 0xE5, 0xBE, 0x88, 0xE5,
    0xA4, 0xA7, 0xE5, 0x8F, 0xAF, 0xE8, 0x83, 0xBD, 0xE4, 0xBC, 0x9A, 0xE6, 0x85, 0xA2]"

definition txt_sv_takes :: string where
  "txt_sv_takes = utf8 [0xE9, 0xA2, 0x84, 0xE8, 0xAE, 0xA1, 0xE6, 0x89, 0xA7, 0xE8, 0xA1, 0x8C, 0x20]"

definition txt_sv_check_index :: string where
  "txt_sv_check_index = utf8 [0x6D, 0x73, 0xEF, 0xBC, 0x8C, 0xE5, 0xBB, 0xBA, 0xE8, 0xAE, 0xAE, 0xE6, 0xA3, 0x80, 0xE6, 0x9F, 0xA5, 0xE6, 0x98,
    0xAF, 0xE5, 0x90, 0xA6, 0xE6, 0x9C, 0x89, 0xE7, 0xB4, 0xA2, 0xE5, 0xBC, 0x95]"

definition txt_sv_of :: string where
  "txt_sv_of = utf8 [0x22, 0x20, 0xE7, 0x9A, 0x84, 0x20, 0x22]"

definition txt_sv_index_unused :: string where
  "txt_sv_index_unused = utf8 [0x22, 0x20, 0xE5, 0x88, 0x97, 0xE6, 0x9C, 0x89, 0xE7, 0xB4, 0xA2, 0xE5, 0xBC, 0x95, 0xEF, 0xBC, 0x8C, 0xE4, 0xBD,
    0x86, 0x20, 0x50, 0x6C, 0x61, 0x6E, 0x6E, 0x65, 0x72, 0x20, 0xE9, 0x80, 0x89, 0xE6, 0x8B, 0xA9, 0xE4, 0xBA, 0x86, 0xE5, 0x85, 0xA8, 0xE8, 0xA1,
    0xA8, 0xE6, 0x89, 0xAB, 0xE6, 0x8F, 0x8F]"

text \<open>\<open>upper.find(text) != npos\<close>\<close>

fun occurs :: "string \<Rightarrow> string \<Rightarrow> bool" where
  "occurs p [] \<longleftrightarrow> p = []"
| "occurs p (c # s) \<longleftrightarrow> take (length p) (c # s) = p \<or> occurs p s"

definition row_count :: "Engine \<Rightarrow> string \<Rightarrow> u64" where
  "row_count e table = (case get_schema e table of None \<Rightarrow> 0 | Some s \<Rightarrow> ts_row_count s)"

definition check_schema_exists :: "Engine \<Rightarrow> UnifiedIntent \<Rightarrow> string list" where
  "check_schema_exists e intent = map (\<lambda>t. txt_sv_table @ t @ txt_sv_missing) (filter (\<lambda>t. get_schema e t = None) (in_tables intent))"

definition unfiltered_write :: "PipelineOp \<Rightarrow> bool" where
  "unfiltered_write opr \<longleftrightarrow> (op_type opr = UPDATE \<or> op_type opr = DELETE) \<and> op_filter opr = None"

definition check_write_safety :: "Engine \<Rightarrow> UnifiedIntent \<Rightarrow> ExecutionPlan \<Rightarrow> string list" where
  "check_write_safety e intent pl =
     (if \<not> in_is_write intent then []
      else map (\<lambda>opr. txt_sv_full_table @ (if op_type opr = UPDATE then txt_sv_update else txt_sv_delete) @ txt_sv_touches @
                  int64_to_string (row_count e (op_table opr)) @ txt_sv_needs_where)
             (filter (\<lambda>opr. unfiltered_write opr \<and> 100 <s row_count e (op_table opr)) (pl_pipeline pl)))"

definition check_delete_safety :: "Engine \<Rightarrow> UnifiedIntent \<Rightarrow> string list" where
  "check_delete_safety e intent =
     (let upper = map toupper (in_raw_input intent) in
      if occurs ''DELETE'' upper \<and> \<not> occurs ''WHERE'' upper
      then (case in_tables intent of [] \<Rightarrow> []
        | t # _ \<Rightarrow> if 0 <s row_count e t
            then [txt_sv_delete_all @ t @ txt_sv_inside_all @ int64_to_string (row_count e t) @ txt_sv_row_data] else [])
      else [])"

definition check_resource_budget :: "ExecutionPlan \<Rightarrow> string list" where
  "check_resource_budget pl =
     (if 10000 <s pl_rows_to_scan pl then [txt_sv_scans @ int64_to_string (pl_rows_to_scan pl) @ txt_sv_rows_slow] else []) @
     (if 5000 <s pl_estimated_duration_ms pl
      then [txt_sv_takes @ int64_to_string (pl_estimated_duration_ms pl) @ txt_sv_check_index] else [])"

text \<open>For each filter of a full scan, every indexed column of the table, used in the filter or not.\<close>

definition check_index_usage :: "Engine \<Rightarrow> ExecutionPlan \<Rightarrow> string list" where
  "check_index_usage e pl = (case pl_pipeline pl of [] \<Rightarrow> []
     | op1 # _ \<Rightarrow> if op_type op1 \<noteq> SCAN then []
         else (case get_schema e (op_table op1) of None \<Rightarrow> []
           | Some schema \<Rightarrow> concat (map (\<lambda>opr. if op_type opr = FILTER \<and> op_filter opr \<noteq> None
               then map (\<lambda>c. txt_sv_table @ op_table op1 @ txt_sv_of @ cd_name c @ txt_sv_index_unused)
                      (filter (\<lambda>c. has_index e (op_table op1) (cd_name c)) (ts_columns schema))
               else []) (pl_pipeline pl))))"

definition verify :: "Engine \<Rightarrow> UnifiedIntent \<Rightarrow> ExecutionPlan \<Rightarrow> VerificationResult" where
  "verify e intent pl =
     (let errors = (if in_category intent \<noteq> SCHEMA then check_schema_exists e intent else []) @
                   check_write_safety e intent pl @ check_delete_safety e intent
      in \<lparr>vr_passed = (errors = []), vr_errors = errors,
          vr_warnings = check_resource_budget pl @ check_index_usage e pl\<rparr>)"

section \<open>Properties\<close>

lemma verify_passed:
  "vr_passed (verify e intent pl) \<longleftrightarrow>
     (in_category intent \<noteq> SCHEMA \<longrightarrow> (\<forall>t \<in> set (in_tables intent). get_schema e t \<noteq> None)) \<and>
     (in_is_write intent \<longrightarrow> (\<forall>opr \<in> set (pl_pipeline pl). unfiltered_write opr \<longrightarrow> row_count e (op_table opr) \<le>s 100)) \<and>
     check_delete_safety e intent = []"
  by (auto simp: verify_def check_schema_exists_def check_write_safety_def filter_empty_conv not_less signed.not_less)

text \<open>C16: What passes the supervisor: unless the intent is a change of the schema, every table it names exists, and no UPDATE or
  DELETE of the plan of a write intent runs without a filter on a table of more than 100 rows (reads are not limited). The
  plan of a write intent with an UPDATE or DELETE statement without WHERE on such a table is always refused.\<close>

theorem supervisor_safety:
  "(\<forall>(intent :: UnifiedIntent) pl. vr_passed (verify e intent pl) \<longrightarrow>
      (in_category intent \<noteq> SCHEMA \<longrightarrow> (\<forall>t \<in> set (in_tables intent). get_schema e t \<noteq> None)) \<and>
      (in_is_write intent \<longrightarrow> (\<forall>opr \<in> set (pl_pipeline pl).
         op_type opr \<in> {UPDATE, DELETE} \<and> op_filter opr = None \<longrightarrow> row_count e (op_table opr) \<le>s 100))) \<and>
   (\<forall>(intent :: UnifiedIntent) freed m t sets. in_is_write intent \<and> 100 <s row_count e t \<and>
      in_statement intent \<in> {Update \<lparr>upd_table = t, upd_sets = sets, upd_where = None\<rparr>, Delete \<lparr>del_table = t, del_where = None\<rparr>} \<longrightarrow>
      \<not> vr_passed (verify e intent (plan freed m e intent)))"
proof (intro conjI allI impI)
  fix intent :: UnifiedIntent and pl assume "vr_passed (verify e intent pl)"
  then show "in_category intent \<noteq> SCHEMA \<Longrightarrow> \<forall>t \<in> set (in_tables intent). get_schema e t \<noteq> None"
    and "in_is_write intent \<Longrightarrow> \<forall>opr \<in> set (pl_pipeline pl).
         op_type opr \<in> {UPDATE, DELETE} \<and> op_filter opr = None \<longrightarrow> row_count e (op_table opr) \<le>s 100"
    by (auto simp: verify_passed unfiltered_write_def)
next
  fix intent :: UnifiedIntent and freed m t sets
  assume a: "in_is_write intent \<and> 100 <s row_count e t \<and>
      in_statement intent \<in> {Update \<lparr>upd_table = t, upd_sets = sets, upd_where = None\<rparr>, Delete \<lparr>del_table = t, del_where = None\<rparr>}"
  then have "\<exists>opr \<in> set (pl_pipeline (plan freed m e intent)). unfiltered_write opr \<and> op_table opr = t"
    by (auto simp: plan_def plan_from_memory_def plan_anew_def build_pipeline_def new_op_def unfiltered_write_def Let_def
      estimate_pipeline)
  with a show "\<not> vr_passed (verify e intent (plan freed m e intent))" by (auto simp: verify_passed signed.not_le)
qed

definition sample_big_table :: Engine where
  "sample_big_table = (engine_new \<lparr>dk_bin = None, dk_json = None, dk_can_write = True, dk_can_read = True\<rparr> [] 0 (\<lambda>_. 0))
     \<lparr>e_tables := [(''defaultdb.public.t'', \<lparr>ts_name = ''defaultdb.public.t'', ts_columns = [], ts_row_count = 101\<rparr>)]\<rparr>"

definition sample_delete :: UnifiedIntent where
  "sample_delete = \<lparr>in_category = MUTATION, in_raw_input = ''delete from t'', in_tables = [''t''], in_description = [],
     in_statement = Delete \<lparr>del_table = ''t'', del_where = None\<rparr>, in_is_write = True\<rparr>"

lemma supervisor_safety_witness:
  "\<not> vr_passed (verify sample_big_table sample_delete (plan [] (memory_new (\<lambda>_. 0)) sample_big_table sample_delete))"
proof -
  have "row_count sample_big_table ''t'' = 101"
    by (simp add: row_count_def get_schema_def resolve_table_name_def sample_big_table_def engine_new_def qualify_table_name_def
      new_catalog_def)
  then have "100 <s row_count sample_big_table ''t''" by simp
  then show ?thesis using supervisor_safety [of sample_big_table] by (auto simp: sample_delete_def)
qed

end
