(* ===== verification/Lock_Manager.thy ===== *)
theory Lock_Manager
  imports Transaction
begin

text \<open>
  The lock manager of \<open>src/storage/lock_manager.cpp\<close>: shared and exclusive locks on named targets,
  held by call identifiers, with waiting calls and a timeout.

  \<^item> \<open>LM\<close> is the state behind the one mutex: \<open>key_states_\<close>, \<open>txn_locks_\<close> and the timeout.
  \<^item> \<open>acquire\<close> is split where it gives up the mutex: \<open>acquire_start\<close> is the call up to its first
    wait, \<open>acquire_round\<close> one round of the wait loop. The milliseconds since the call began are an
    argument.
  \<^item> \<open>lock_step\<close> interleaves calls of any number of threads: start, wake up (notified, timed out or
    spuriously), release. A transaction has one call in progress at a time; the engine gives every
    call an identifier of its own.
  \<^item> \<open>shared_count\<close> is an \<open>int\<close> of the code; at most one count per transaction is held, so it is
    taken as a mathematical integer.
\<close>

section \<open>Modes and targets\<close>

datatype LockMode = Shared | Exclusive

datatype LockTargetType = TableTarget | KeyTarget | CLogTarget

fun target_rank :: "LockTargetType \<Rightarrow> nat" where
  "target_rank TableTarget = 0"
| "target_rank KeyTarget = 1"
| "target_rank CLogTarget = 2"

lemma target_rank_total: "a \<noteq> b \<Longrightarrow> target_rank a < target_rank b \<or> target_rank b < target_rank a"
  by (cases a; cases b) simp_all

datatype LockTarget = LockTarget (lt_type: LockTargetType) (lt_name: string)

instantiation LockTarget :: linorder
begin

definition less_LockTarget :: "LockTarget \<Rightarrow> LockTarget \<Rightarrow> bool" where
  "less_LockTarget a b \<longleftrightarrow>
     (if lt_type a \<noteq> lt_type b then target_rank (lt_type a) < target_rank (lt_type b) else lt_name a < lt_name b)"

definition less_eq_LockTarget :: "LockTarget \<Rightarrow> LockTarget \<Rightarrow> bool" where
  "less_eq_LockTarget a b \<longleftrightarrow> a < b \<or> a = b"

instance
proof
  fix a b c :: LockTarget
  show "a < b \<longleftrightarrow> a \<le> b \<and> \<not> b \<le> a"
    by (auto simp: less_LockTarget_def less_eq_LockTarget_def)
  show "a \<le> b \<Longrightarrow> b \<le> c \<Longrightarrow> a \<le> c"
    by (auto simp: less_LockTarget_def less_eq_LockTarget_def split: if_splits)
  show "a \<le> b \<Longrightarrow> b \<le> a \<Longrightarrow> a = b"
    by (auto simp: less_LockTarget_def less_eq_LockTarget_def split: if_splits)
  show "a \<le> b \<or> b \<le> a"
    using target_rank_total [of "lt_type a" "lt_type b"]
    by (cases a; cases b) (auto simp: less_LockTarget_def less_eq_LockTarget_def)
qed (simp add: less_eq_LockTarget_def)

end

section \<open>State\<close>

record KeyLockState =
  shared_count :: int
  has_excl :: bool
  exclusive_xid :: TransactionId

definition free_key :: KeyLockState where
  "free_key = \<lparr>shared_count = 0, has_excl = False, exclusive_xid = InvalidTransactionId\<rparr>"

definition has_shared :: "KeyLockState \<Rightarrow> bool" where
  "has_shared ks \<longleftrightarrow> 0 < shared_count ks"

definition has_exclusive :: "KeyLockState \<Rightarrow> bool" where
  "has_exclusive ks \<longleftrightarrow> has_excl ks"

definition is_free :: "KeyLockState \<Rightarrow> bool" where
  "is_free ks \<longleftrightarrow> \<not> has_shared ks \<and> \<not> has_exclusive ks"

record TransactionLockSet =
  tl_held :: "(LockTarget, LockMode) omap"
  tl_waiting :: "(LockTarget, LockMode) omap"

definition no_locks :: TransactionLockSet where
  "no_locks = \<lparr>tl_held = [], tl_waiting = []\<rparr>"

record LM =
  key_states :: "(LockTarget, KeyLockState) omap"
  txn_locks :: "(TransactionId, TransactionLockSet) omap"
  wait_timeout_ms :: u32

definition lm_new :: "u32 \<Rightarrow> LM" where
  "lm_new timeout = \<lparr>key_states = [], txn_locks = [], wait_timeout_ms = timeout\<rparr>"

section \<open>Queries\<close>

definition lock_set :: "LM \<Rightarrow> TransactionId \<Rightarrow> TransactionLockSet" where
  "lock_set lm xid = omap_at no_locks (txn_locks lm) xid"

definition held_mode :: "LM \<Rightarrow> TransactionId \<Rightarrow> LockTarget \<Rightarrow> LockMode option" where
  "held_mode lm xid target = map_of (tl_held (lock_set lm xid)) target"

definition holds :: "LM \<Rightarrow> TransactionId \<Rightarrow> LockTarget \<Rightarrow> bool" where
  "holds lm xid target = (case map_of (txn_locks lm) xid of None \<Rightarrow> False
     | Some ls \<Rightarrow> map_of (tl_held ls) target \<noteq> None)"

definition is_held :: "LM \<Rightarrow> LockTarget \<Rightarrow> LockMode \<Rightarrow> bool" where
  "is_held lm target mode = (case map_of (key_states lm) target of None \<Rightarrow> False
     | Some ks \<Rightarrow> if mode = Shared then has_shared ks else has_exclusive ks)"

definition total_held_locks :: "LM \<Rightarrow> nat" where
  "total_held_locks lm = (\<Sum>(_, ls) \<leftarrow> txn_locks lm. length (tl_held ls))"

definition total_waiters :: "LM \<Rightarrow> nat" where
  "total_waiters lm = (\<Sum>(_, ls) \<leftarrow> txn_locks lm. length (tl_waiting ls))"

definition clear_for_test :: "LM \<Rightarrow> LM" where
  "clear_for_test lm = lm\<lparr>key_states := [], txn_locks := []\<rparr>"

section \<open>Releasing\<close>

definition unlocked_key :: "LockMode \<Rightarrow> KeyLockState \<Rightarrow> KeyLockState" where
  "unlocked_key mode ks = (if mode = Shared then ks\<lparr>shared_count := shared_count ks - 1\<rparr>
     else ks\<lparr>has_excl := False, exclusive_xid := InvalidTransactionId\<rparr>)"

definition store_lock_set :: "TransactionId \<Rightarrow> TransactionLockSet \<Rightarrow> LM \<Rightarrow> LM" where
  "store_lock_set xid ls lm = lm\<lparr>txn_locks :=
     (if tl_held ls = [] \<and> tl_waiting ls = [] then omap_del xid (txn_locks lm) else omap_put xid ls (txn_locks lm))\<rparr>"

definition store_key :: "LockTarget \<Rightarrow> KeyLockState \<Rightarrow> LM \<Rightarrow> LM" where
  "store_key target ks lm = lm\<lparr>key_states :=
     (if is_free ks then omap_del target (key_states lm) else omap_put target ks (key_states lm))\<rparr>"

definition release_locked :: "TransactionId \<Rightarrow> LockTarget \<Rightarrow> LockMode \<Rightarrow> LM \<Rightarrow> LM" where
  "release_locked xid target mode lm =
     (case map_of (key_states lm) target of None \<Rightarrow> lm
      | Some ks \<Rightarrow> (case map_of (txn_locks lm) xid of None \<Rightarrow> lm
        | Some ls \<Rightarrow>
            if map_of (tl_held ls) target \<noteq> Some mode then lm
            else store_key target (unlocked_key mode ks)
                   (store_lock_set xid (ls\<lparr>tl_held := omap_del target (tl_held ls)\<rparr>) lm)))"

definition release_all :: "TransactionId \<Rightarrow> LM \<Rightarrow> LM" where
  "release_all xid lm = (case map_of (txn_locks lm) xid of None \<Rightarrow> lm
     | Some ls \<Rightarrow> fold (\<lambda>(target, mode). release_locked xid target mode) (tl_held ls) lm)"

text \<open>A handle releases every lock of its transaction, whatever its target.\<close>

record Handle =
  h_xid :: TransactionId
  h_target :: LockTarget
  h_mode :: LockMode
  h_valid :: bool

definition handle_release :: "Handle \<Rightarrow> LM \<Rightarrow> Handle \<times> LM" where
  "handle_release h lm = (if h_valid h then (h\<lparr>h_valid := False\<rparr>, release_all (h_xid h) lm) else (h, lm))"

section \<open>Acquiring\<close>

datatype acquire_result = Granted | UpgradeRefused | TimedOut | Sleeping

definition can_grant :: "LockTarget \<Rightarrow> LockMode \<Rightarrow> LM \<Rightarrow> bool" where
  "can_grant target mode lm = (case map_of (key_states lm) target of None \<Rightarrow> True
     | Some ks \<Rightarrow> if mode = Shared then \<not> has_exclusive ks else is_free ks)"

definition grant :: "TransactionId \<Rightarrow> LockTarget \<Rightarrow> LockMode \<Rightarrow> LM \<Rightarrow> LM" where
  "grant xid target mode lm =
     (let ks = omap_at free_key (key_states lm) target;
          ks' = (if mode = Shared then ks\<lparr>shared_count := shared_count ks + 1\<rparr>
                 else ks\<lparr>has_excl := True, exclusive_xid := xid\<rparr>);
          ls = lock_set lm xid
      in lm\<lparr>key_states := omap_put target ks' (key_states lm),
            txn_locks := omap_put xid (ls\<lparr>tl_held := omap_put target mode (tl_held ls),
                                          tl_waiting := omap_del target (tl_waiting ls)\<rparr>) (txn_locks lm)\<rparr>)"

definition mark_waiting :: "TransactionId \<Rightarrow> LockTarget \<Rightarrow> LockMode \<Rightarrow> LM \<Rightarrow> LM" where
  "mark_waiting xid target mode lm =
     (let ls = lock_set lm xid
      in lm\<lparr>txn_locks := omap_put xid (ls\<lparr>tl_waiting := omap_put target mode (tl_waiting ls)\<rparr>) (txn_locks lm)\<rparr>)"

definition give_up :: "TransactionId \<Rightarrow> LockTarget \<Rightarrow> LM \<Rightarrow> LM" where
  "give_up xid target lm =
     (let ls = lock_set lm xid in store_lock_set xid (ls\<lparr>tl_waiting := omap_del target (tl_waiting ls)\<rparr>) lm)"

definition acquire_round :: "TransactionId \<Rightarrow> LockTarget \<Rightarrow> LockMode \<Rightarrow> nat \<Rightarrow> LM \<Rightarrow> acquire_result \<times> LM" where
  "acquire_round xid target mode elapsed lm =
     (if can_grant target mode lm then (Granted, grant xid target mode lm)
      else let lm1 = mark_waiting xid target mode lm
        in if wait_timeout_ms lm1 = 0 then (Sleeping, lm1)
           else if unat (wait_timeout_ms lm1) \<le> elapsed then (TimedOut, give_up xid target lm1)
           else (Sleeping, lm1))"

definition reentry :: "TransactionId \<Rightarrow> LockTarget \<Rightarrow> LockMode \<Rightarrow> LM \<Rightarrow> acquire_result option" where
  "reentry xid target mode lm = (case held_mode lm xid target of None \<Rightarrow> None
     | Some h \<Rightarrow> Some (if h = Shared \<and> mode = Exclusive then UpgradeRefused else Granted))"

definition acquire_start :: "TransactionId \<Rightarrow> LockTarget \<Rightarrow> LockMode \<Rightarrow> nat \<Rightarrow> LM \<Rightarrow> acquire_result \<times> LM" where
  "acquire_start xid target mode elapsed lm = (case reentry xid target mode lm of
     Some r \<Rightarrow> (r, lm) | None \<Rightarrow> acquire_round xid target mode elapsed lm)"

section \<open>Interleaved calls\<close>

text \<open>A call that waits: what it asks for, and whether it sleeps or has been woken.\<close>

record waiting_call =
  wc_target :: LockTarget
  wc_mode :: LockMode
  wc_asleep :: bool

record lock_system =
  sys_lm :: LM
  sys_calls :: "TransactionId \<rightharpoonup> waiting_call"

definition sys_new :: "u32 \<Rightarrow> lock_system" where
  "sys_new timeout = \<lparr>sys_lm = lm_new timeout, sys_calls = Map.empty\<rparr>"

definition after_round :: "TransactionId \<Rightarrow> LockTarget \<Rightarrow> LockMode \<Rightarrow> acquire_result \<times> LM \<Rightarrow> lock_system \<Rightarrow> lock_system" where
  "after_round xid target mode p s = s\<lparr>sys_lm := snd p, sys_calls := (sys_calls s)(xid :=
     (if fst p = Sleeping then Some \<lparr>wc_target = target, wc_mode = mode, wc_asleep = True\<rparr> else None))\<rparr>"

definition notify_all :: "lock_system \<Rightarrow> lock_system" where
  "notify_all s = s\<lparr>sys_calls := (\<lambda>xid. map_option (\<lambda>c. c\<lparr>wc_asleep := False\<rparr>) (sys_calls s xid))\<rparr>"

text \<open>\<open>release_all\<close> of the code returns early, without a notification, when it knows no such transaction.\<close>

definition sys_release :: "TransactionId \<Rightarrow> lock_system \<Rightarrow> lock_system" where
  "sys_release xid s = (case map_of (txn_locks (sys_lm s)) xid of None \<Rightarrow> s
     | Some _ \<Rightarrow> notify_all (s\<lparr>sys_lm := release_all xid (sys_lm s)\<rparr>))"

inductive lock_step :: "lock_system \<Rightarrow> lock_system \<Rightarrow> bool" where
  start: "sys_calls s xid = None \<Longrightarrow>
    lock_step s (after_round xid target mode (acquire_start xid target mode elapsed (sys_lm s)) s)"
| wake: "sys_calls s xid = Some c \<Longrightarrow>
    lock_step s (after_round xid (wc_target c) (wc_mode c) (acquire_round xid (wc_target c) (wc_mode c) elapsed (sys_lm s)) s)"
| release: "lock_step s (sys_release xid s)"

section \<open>The invariant\<close>

definition key_at :: "LM \<Rightarrow> LockTarget \<Rightarrow> KeyLockState" where
  "key_at lm = omap_at free_key (key_states lm)"

definition holders :: "LM \<Rightarrow> LockMode \<Rightarrow> LockTarget \<Rightarrow> TransactionId set" where
  "holders lm mode target = {xid. held_mode lm xid target = Some mode}"

text \<open>A key state says how many transactions share the target and which one has it alone.\<close>

definition key_ok :: "LM \<Rightarrow> LockTarget \<Rightarrow> bool" where
  "key_ok lm t \<longleftrightarrow> shared_count (key_at lm t) = int (card (holders lm Shared t)) \<and>
     holders lm Exclusive t = (if has_excl (key_at lm t) then {exclusive_xid (key_at lm t)} else {}) \<and>
     (has_excl (key_at lm t) \<longrightarrow> holders lm Shared t = {})"

definition lm_inv :: "LM \<Rightarrow> bool" where
  "lm_inv lm \<longleftrightarrow> omap_ok (key_states lm) \<and> (\<forall>(t, ks) \<in> set (key_states lm). \<not> is_free ks) \<and>
     omap_ok (txn_locks lm) \<and> (\<forall>(xid, ls) \<in> set (txn_locks lm). tl_held ls \<noteq> [] \<or> tl_waiting ls \<noteq> []) \<and>
     (\<forall>xid. omap_ok (tl_held (lock_set lm xid))) \<and> (\<forall>t. key_ok lm t)"

lemma free_key_simps [simp]: "shared_count free_key = 0" "has_excl free_key = False" "is_free free_key"
  by (simp_all add: free_key_def is_free_def has_shared_def has_exclusive_def)

lemma no_locks_simps [simp]: "tl_held no_locks = []" "tl_waiting no_locks = []"
  by (simp_all add: no_locks_def)

lemma no_locks_eq: "tl_held ls = [] \<Longrightarrow> tl_waiting ls = [] \<Longrightarrow> ls = no_locks"
  by (cases ls) (simp add: no_locks_def)

lemma lm_inv_new: "lm_inv (lm_new timeout)"
  by (simp add: lm_inv_def lm_new_def key_ok_def key_at_def holders_def held_mode_def lock_set_def omap_at_def)

lemma lock_set_put: "lock_set (lm\<lparr>txn_locks := omap_put xid ls (txn_locks lm)\<rparr>) = (lock_set lm)(xid := ls)"
  by (rule ext) (simp add: lock_set_def omap_at_def)

lemma lock_set_store:
  "omap_ok (txn_locks lm) \<Longrightarrow> lock_set (store_lock_set xid ls lm) = (lock_set lm)(xid := ls)"
  by (rule ext) (auto simp: store_lock_set_def lock_set_def omap_at_def intro: no_locks_eq [symmetric])

lemma lock_set_frame [simp]: "lock_set (lm\<lparr>key_states := k\<rparr>) = lock_set lm" "lock_set (store_key t ks lm) = lock_set lm"
  by (simp_all add: lock_set_def store_key_def fun_eq_iff)

lemma key_at_frame [simp]: "key_at (lm\<lparr>txn_locks := m\<rparr>) = key_at lm" "key_at (store_lock_set xid ls lm) = key_at lm"
  by (simp_all add: key_at_def store_lock_set_def)

lemma key_at_put: "key_at (lm\<lparr>key_states := omap_put t ks (key_states lm)\<rparr>) = (key_at lm)(t := ks)"
  by (rule ext) (simp add: key_at_def omap_at_def)

lemma key_at_store: "omap_ok (key_states lm) \<Longrightarrow> key_at (store_key t ks lm) = (key_at lm)(t := (if is_free ks then free_key else ks))"
  by (rule ext) (simp add: key_at_def store_key_def omap_at_def)

lemma can_grant_eq: "can_grant t m lm \<longleftrightarrow> (if m = Shared then \<not> has_excl (key_at lm t) else is_free (key_at lm t))"
  by (simp add: can_grant_def key_at_def omap_at_def has_exclusive_def split: option.splits)

lemma held_mode_None: "map_of (txn_locks lm) xid = None \<Longrightarrow> held_mode lm xid t = None"
  by (simp add: held_mode_def lock_set_def omap_at_def)

text \<open>Who can be granted, in terms of who holds.\<close>

lemma can_grant_holders:
  assumes "key_ok lm t"
  shows "can_grant t m lm \<longleftrightarrow> (\<forall>xid h. held_mode lm xid t = Some h \<longrightarrow> m = Shared \<and> h = Shared)"
proof -
  have modes: "(\<forall>h. P h) \<longleftrightarrow> P Shared \<and> P Exclusive" for P by (metis LockMode.exhaust)
  have none: "x = None \<longleftrightarrow> x \<noteq> Some Shared \<and> x \<noteq> Some Exclusive" for x
    by (metis LockMode.exhaust not_Some_eq option.distinct(1))
  have "finite (holders lm Shared t)" by simp
  then have "0 < shared_count (key_at lm t) \<longleftrightarrow> (\<exists>xid. held_mode lm xid t = Some Shared)"
    using assms by (auto simp: key_ok_def holders_def card_gt_0_iff)
  moreover have "has_excl (key_at lm t) \<longleftrightarrow> (\<exists>xid. held_mode lm xid t = Some Exclusive)"
    using assms by (auto simp: key_ok_def holders_def split: if_splits)
  ultimately show ?thesis
    by (cases m) (auto simp: can_grant_eq is_free_def has_shared_def has_exclusive_def modes none)
qed

section \<open>Every operation keeps the invariant\<close>

text \<open>One transaction's mode on one target changes and the key state follows.\<close>

lemma key_ok_other:
  "key_ok lm t' \<Longrightarrow> key_at lm' t' = key_at lm t' \<Longrightarrow> (\<And>x. held_mode lm' x t' = held_mode lm x t') \<Longrightarrow> key_ok lm' t'"
  by (simp add: key_ok_def holders_def)

lemma lm_invI:
  assumes "lm_inv lm" "omap_ok (key_states lm')" "\<forall>(t, ks) \<in> set (key_states lm'). \<not> is_free ks"
    and "omap_ok (txn_locks lm')" "\<forall>(xid, ls) \<in> set (txn_locks lm'). tl_held ls \<noteq> [] \<or> tl_waiting ls \<noteq> []"
    and "lock_set lm' = (lock_set lm)(xid := ls)" "omap_ok (tl_held ls)"
    and "\<And>t'. t' \<noteq> t \<Longrightarrow> key_at lm' t' = key_at lm t' \<and> map_of (tl_held ls) t' = held_mode lm xid t'"
    and "key_ok lm' t"
  shows "lm_inv lm'"
proof -
  have "key_ok lm' t'" for t'
  proof (cases "t' = t")
    case False
    have "held_mode lm' x t' = held_mode lm x t'" for x
      using assms(6) assms(8) [OF False] by (simp add: held_mode_def)
    with assms(1) assms(8) [OF False] show ?thesis
      by (auto simp: lm_inv_def intro: key_ok_other)
  qed (simp add: assms(9))
  with assms show ?thesis by (simp add: lm_inv_def)
qed

lemma ball_set_omap_del: "\<forall>x \<in> set m. P x \<Longrightarrow> \<forall>x \<in> set (omap_del k m). P x"
  using set_omap_del [of k m] by auto

lemma stored_keys_put:
  "\<forall>(t, ks) \<in> set m. \<not> is_free ks \<Longrightarrow> \<not> is_free k \<Longrightarrow> \<forall>(t, ks) \<in> set (omap_put t k m). \<not> is_free ks"
  by (rule ball_omap_put)

lemma stored_sets_put:
  "\<forall>(x, ls) \<in> set m. tl_held ls \<noteq> [] \<or> tl_waiting ls \<noteq> [] \<Longrightarrow> tl_held l \<noteq> [] \<or> tl_waiting l \<noteq> [] \<Longrightarrow>
   \<forall>(x, ls) \<in> set (omap_put x l m). tl_held ls \<noteq> [] \<or> tl_waiting ls \<noteq> []"
  by (rule ball_omap_put)

lemma omap_put_not_Nil [simp]: "omap_put k v m \<noteq> []"
  by (induction k v m rule: omap_put.induct) auto

lemma held_mode_grant: "held_mode (grant xid t m lm) = (held_mode lm)(xid := (held_mode lm xid)(t \<mapsto> m))"
  by (rule ext) (simp add: grant_def Let_def held_mode_def lock_set_def omap_at_def fun_eq_iff)

lemma lm_inv_grant:
  assumes inv: "lm_inv lm" and new: "held_mode lm xid t = None" and can: "can_grant t m lm"
  shows "lm_inv (grant xid t m lm)"
proof -
  let ?lm = "grant xid t m lm"
  let ?ks = "key_at lm t"
  have key: "key_ok lm t" using inv by (simp add: lm_inv_def)
  have at: "key_at ?lm t = (if m = Shared then ?ks\<lparr>shared_count := shared_count ?ks + 1\<rparr>
      else ?ks\<lparr>has_excl := True, exclusive_xid := xid\<rparr>)"
    by (simp add: grant_def Let_def key_at_def omap_at_def)
  have ok: "key_ok ?lm t"
  proof (cases m)
    case Shared
    have "holders ?lm Shared t = insert xid (holders lm Shared t)" "holders ?lm Exclusive t = holders lm Exclusive t"
      using new by (auto simp: holders_def held_mode_grant Shared)
    moreover have "xid \<notin> holders lm Shared t" "finite (holders lm Shared t)" using new by (auto simp: holders_def)
    ultimately show ?thesis using key at can Shared by (simp add: key_ok_def can_grant_eq)
  next
    case Exclusive
    have "holders lm Shared t = {}" "holders lm Exclusive t = {}"
      using can can_grant_holders [OF key] Exclusive by (auto simp: holders_def)
    then have "holders ?lm Shared t = {}" "holders ?lm Exclusive t = {xid}" "shared_count ?ks = 0"
      using key by (auto simp: holders_def held_mode_grant Exclusive key_ok_def)
    then show ?thesis using at Exclusive by (simp add: key_ok_def)
  qed
  show ?thesis
  proof (rule lm_invI [OF inv _ _ _ _ _ _ _ ok])
    show "omap_ok (key_states ?lm)" "omap_ok (txn_locks ?lm)"
      using inv by (simp_all add: grant_def Let_def lm_inv_def)
    have "0 \<le> shared_count ?ks" using key by (simp add: key_ok_def)
    then have "\<not> is_free (key_at ?lm t)"
      by (simp add: at is_free_def has_shared_def has_exclusive_def)
    moreover have keys: "key_states ?lm = omap_put t (key_at ?lm t) (key_states lm)"
      by (simp add: grant_def Let_def key_at_def omap_at_def)
    ultimately show "\<forall>(t, ks) \<in> set (key_states ?lm). \<not> is_free ks"
      unfolding keys using inv by (intro stored_keys_put) (simp_all add: lm_inv_def)
    have sets: "txn_locks ?lm = omap_put xid (lock_set ?lm xid) (txn_locks lm)" "tl_held (lock_set ?lm xid) \<noteq> []"
      by (simp_all add: grant_def Let_def lock_set_def omap_at_def)
    then show "\<forall>(xid, ls) \<in> set (txn_locks ?lm). tl_held ls \<noteq> [] \<or> tl_waiting ls \<noteq> []"
      unfolding sets(1) using inv by (intro stored_sets_put) (simp_all add: lm_inv_def)
    show "lock_set ?lm = (lock_set lm)(xid := lock_set ?lm xid)"
      by (rule ext) (simp add: grant_def Let_def lock_set_def omap_at_def)
    show "omap_ok (tl_held (lock_set ?lm xid))"
      using inv by (simp add: grant_def Let_def lock_set_def omap_at_def lm_inv_def)
  next
    fix t' assume "t' \<noteq> t"
    then show "key_at ?lm t' = key_at lm t' \<and> map_of (tl_held (lock_set ?lm xid)) t' = held_mode lm xid t'"
      by (simp add: grant_def Let_def key_at_def held_mode_def lock_set_def omap_at_def)
  qed
qed

lemma lm_inv_txn_locks:
  assumes inv: "lm_inv lm" and keys: "key_states lm' = key_states lm"
    and "omap_ok (txn_locks lm')" "\<forall>(x, ls) \<in> set (txn_locks lm'). tl_held ls \<noteq> [] \<or> tl_waiting ls \<noteq> []"
    and sets: "lock_set lm' = (lock_set lm)(xid := ls)" "tl_held ls = tl_held (lock_set lm xid)"
  shows "lm_inv lm'"
proof -
  have "held_mode lm' = held_mode lm" by (rule ext) (simp add: held_mode_def sets fun_eq_iff)
  then have "key_ok lm' t \<longleftrightarrow> key_ok lm t" for t by (simp add: key_ok_def key_at_def keys holders_def)
  with assms show ?thesis by (simp add: lm_inv_def)
qed

lemma lm_inv_mark_waiting:
  assumes "lm_inv lm" shows "lm_inv (mark_waiting xid t m lm)"
  unfolding mark_waiting_def Let_def
proof (rule lm_inv_txn_locks [OF assms _ _ _ lock_set_put])
  let ?ls = "(lock_set lm xid)\<lparr>tl_waiting := omap_put t m (tl_waiting (lock_set lm xid))\<rparr>"
  have "\<forall>(x, ls) \<in> set (omap_put xid ?ls (txn_locks lm)). tl_held ls \<noteq> [] \<or> tl_waiting ls \<noteq> []"
    using assms by (intro stored_sets_put) (simp_all add: lm_inv_def)
  then show "\<forall>(x, ls) \<in> set (txn_locks (lm\<lparr>txn_locks := omap_put xid ?ls (txn_locks lm)\<rparr>)). tl_held ls \<noteq> [] \<or> tl_waiting ls \<noteq> []"
    by simp
qed (use assms in \<open>simp_all add: lm_inv_def\<close>)

lemma stored_sets_del:
  "\<forall>(x, ls) \<in> set m. tl_held ls \<noteq> [] \<or> tl_waiting ls \<noteq> [] \<Longrightarrow>
   \<forall>(x, ls) \<in> set (omap_del x m). tl_held ls \<noteq> [] \<or> tl_waiting ls \<noteq> []"
  using set_omap_del [of x m] by auto

lemma store_lock_set_ok:
  assumes "omap_ok (txn_locks lm)" "\<forall>(x, ls) \<in> set (txn_locks lm). tl_held ls \<noteq> [] \<or> tl_waiting ls \<noteq> []"
  shows "omap_ok (txn_locks (store_lock_set xid ls lm))"
    "\<forall>(x, ls) \<in> set (txn_locks (store_lock_set xid ls lm)). tl_held ls \<noteq> [] \<or> tl_waiting ls \<noteq> []"
proof -
  show "omap_ok (txn_locks (store_lock_set xid ls lm))" using assms(1) by (simp add: store_lock_set_def)
  show "\<forall>(x, ls) \<in> set (txn_locks (store_lock_set xid ls lm)). tl_held ls \<noteq> [] \<or> tl_waiting ls \<noteq> []"
    using stored_sets_put [OF assms(2), of ls xid] stored_sets_del [OF assms(2), of xid]
    by (simp add: store_lock_set_def)
qed

lemma lm_inv_give_up: "lm_inv lm \<Longrightarrow> lm_inv (give_up xid t lm)"
  unfolding give_up_def Let_def
  by (rule lm_inv_txn_locks [OF _ _ store_lock_set_ok lock_set_store])
    (simp_all add: lm_inv_def store_lock_set_def)

text \<open>Releasing one held lock.\<close>

lemma stored_keys_del:
  "\<forall>(t, ks) \<in> set m. \<not> is_free ks \<Longrightarrow> \<forall>(t, ks) \<in> set (omap_del t m). \<not> is_free ks"
  using set_omap_del [of t m] by auto

lemma store_key_ok:
  assumes "omap_ok (key_states lm)" "\<forall>(t, ks) \<in> set (key_states lm). \<not> is_free ks"
  shows "omap_ok (key_states (store_key t k lm))" "\<forall>(t, ks) \<in> set (key_states (store_key t k lm)). \<not> is_free ks"
proof -
  show "omap_ok (key_states (store_key t k lm))" using assms(1) by (simp add: store_key_def)
  show "\<forall>(t, ks) \<in> set (key_states (store_key t k lm)). \<not> is_free ks"
    using stored_keys_put [OF assms(2), of k t] stored_keys_del [OF assms(2), of t] by (simp add: store_key_def)
qed

lemma held_key_stored: "key_ok lm t \<Longrightarrow> held_mode lm xid t = Some m \<Longrightarrow> \<exists>ks. map_of (key_states lm) t = Some ks"
  using can_grant_holders [of lm t Exclusive] by (cases "map_of (key_states lm) t") (auto simp: can_grant_def)

lemma release_locked_eq:
  assumes "lm_inv lm" "held_mode lm xid t = Some m"
  shows "release_locked xid t m lm = store_key t (unlocked_key m (key_at lm t))
    (store_lock_set xid ((lock_set lm xid)\<lparr>tl_held := omap_del t (tl_held (lock_set lm xid))\<rparr>) lm)"
proof -
  obtain ks where "map_of (key_states lm) t = Some ks"
    using held_key_stored [OF _ assms(2)] assms(1) unfolding lm_inv_def by blast
  moreover have "map_of (txn_locks lm) xid = Some (lock_set lm xid)"
    using assms(2) held_mode_None [of lm xid t] by (cases "map_of (txn_locks lm) xid") (auto simp: lock_set_def omap_at_def)
  ultimately show ?thesis
    using assms(2) by (simp add: release_locked_def held_mode_def key_at_def omap_at_def)
qed

lemma held_mode_release:
  assumes "lm_inv lm" "held_mode lm xid t = Some m"
  shows "held_mode (release_locked xid t m lm) = (held_mode lm)(xid := (held_mode lm xid)(t := None))"
proof -
  have "omap_ok (tl_held (lock_set lm xid))" "omap_ok (txn_locks lm)" using assms(1) by (simp_all add: lm_inv_def)
  then show ?thesis by (auto simp: release_locked_eq [OF assms] held_mode_def lock_set_store fun_eq_iff)
qed

lemma lm_inv_release_locked:
  assumes inv: "lm_inv lm" and held: "held_mode lm xid t = Some m"
  shows "lm_inv (release_locked xid t m lm)"
proof -
  let ?lm = "release_locked xid t m lm"
  let ?ks = "key_at lm t" and ?ks' = "unlocked_key m (key_at lm t)"
  let ?ls = "(lock_set lm xid)\<lparr>tl_held := omap_del t (tl_held (lock_set lm xid))\<rparr>"
  note eq = release_locked_eq [OF inv held]
  have mode: "held_mode ?lm x t = (if x = xid then None else held_mode lm x t)" for x
    by (simp add: held_mode_release [OF inv held])
  have key: "key_ok lm t" using inv by (simp add: lm_inv_def)
  have oks: "omap_ok (key_states lm)" "omap_ok (txn_locks lm)" "omap_ok (tl_held (lock_set lm xid))"
    using inv by (simp_all add: lm_inv_def)
  have at: "key_at ?lm t = (if is_free ?ks' then free_key else ?ks')"
    using oks by (simp add: eq key_at_store store_lock_set_def [of xid])
  have ok: "key_ok ?lm t"
  proof (cases m)
    case Shared
    have "holders ?lm Shared t = holders lm Shared t - {xid}" "holders ?lm Exclusive t = holders lm Exclusive t"
      using held by (auto simp: holders_def mode [unfolded Shared] Shared split: if_splits)
    moreover have "xid \<in> holders lm Shared t" using held by (simp add: holders_def Shared)
    moreover from this have "0 < card (holders lm Shared t)" by (auto simp: card_gt_0_iff)
    ultimately show ?thesis using key at Shared
      by (auto simp: key_ok_def unlocked_key_def is_free_def has_shared_def has_exclusive_def of_nat_diff)
  next
    case Exclusive
    have "xid \<in> holders lm Exclusive t" using held by (simp add: holders_def Exclusive)
    then have "holders lm Exclusive t = {xid}" "holders lm Shared t = {}"
      using key by (auto simp: key_ok_def split: if_splits)
    then have "holders ?lm Shared t = {}" "holders ?lm Exclusive t = {}" "shared_count ?ks = 0"
      using key by (auto simp: holders_def mode [unfolded Exclusive] Exclusive key_ok_def)
    then show ?thesis using at Exclusive
      by (auto simp: key_ok_def unlocked_key_def is_free_def has_shared_def has_exclusive_def)
  qed
  show ?thesis
  proof (rule lm_invI [OF inv _ _ _ _ _ _ _ ok])
    show "omap_ok (key_states ?lm)" "\<forall>(t, ks) \<in> set (key_states ?lm). \<not> is_free ks"
      unfolding eq using inv by (intro store_key_ok; simp add: store_lock_set_def lm_inv_def)+
    have "\<forall>(x, ls) \<in> set (txn_locks lm). tl_held ls \<noteq> [] \<or> tl_waiting ls \<noteq> []"
      using inv unfolding lm_inv_def by blast
    from store_lock_set_ok [OF oks(2) this] show "omap_ok (txn_locks ?lm)" "\<forall>(x, ls) \<in> set (txn_locks ?lm). tl_held ls \<noteq> [] \<or> tl_waiting ls \<noteq> []"
      by (simp_all add: eq store_key_def)
    show "lock_set ?lm = (lock_set lm)(xid := ?ls)" using oks by (simp add: eq lock_set_store)
    show "omap_ok (tl_held ?ls)" using oks by simp
  next
    fix t' assume "t' \<noteq> t"
    then show "key_at ?lm t' = key_at lm t' \<and> map_of (tl_held ?ls) t' = held_mode lm xid t'"
      using oks by (simp add: eq key_at_store store_lock_set_def [of xid] held_mode_def)
  qed
qed

text \<open>What an operation leaves alone.\<close>

definition wait_sets :: "LM \<Rightarrow> TransactionId \<Rightarrow> (LockTarget, LockMode) omap" where
  "wait_sets lm xid = tl_waiting (lock_set lm xid)"

lemma lock_set_release:
  assumes "lm_inv lm" "held_mode lm xid t = Some m"
  shows "lock_set (release_locked xid t m lm) =
    (lock_set lm)(xid := (lock_set lm xid)\<lparr>tl_held := omap_del t (tl_held (lock_set lm xid))\<rparr>)"
  using assms by (simp add: release_locked_eq lm_inv_def lock_set_store)

lemma release_locked_frame:
  assumes "lm_inv lm" "held_mode lm xid t = Some m"
  shows "wait_sets (release_locked xid t m lm) = wait_sets lm"
    "wait_timeout_ms (release_locked xid t m lm) = wait_timeout_ms lm"
proof -
  show "wait_sets (release_locked xid t m lm) = wait_sets lm"
    by (rule ext) (simp add: wait_sets_def lock_set_release [OF assms])
  show "wait_timeout_ms (release_locked xid t m lm) = wait_timeout_ms lm"
    by (simp add: release_locked_eq [OF assms] store_key_def store_lock_set_def)
qed

lemma release_fold:
  "lm_inv lm \<Longrightarrow> distinct (map fst ms) \<Longrightarrow> \<forall>(t, m) \<in> set ms. held_mode lm xid t = Some m \<Longrightarrow>
   lm' = fold (\<lambda>(t, m). release_locked xid t m) ms lm \<Longrightarrow>
   lm_inv lm' \<and> held_mode lm' = (held_mode lm)(xid := (\<lambda>t. if t \<in> fst ` set ms then None else held_mode lm xid t)) \<and>
   wait_sets lm' = wait_sets lm \<and> wait_timeout_ms lm' = wait_timeout_ms lm"
proof (induction ms arbitrary: lm)
  case (Cons p ms)
  obtain t m where p: "p = (t, m)" by (cases p)
  have held: "held_mode lm xid t = Some m" using Cons.prems(3) p by simp
  note rel = lm_inv_release_locked [OF Cons.prems(1) held] held_mode_release [OF Cons.prems(1) held]
    release_locked_frame [OF Cons.prems(1) held]
  have "\<forall>(t', m') \<in> set ms. held_mode (release_locked xid t m lm) xid t' = Some m'"
    using Cons.prems(2,3) p by (force simp: rel(2))
  with Cons.IH [OF rel(1)] Cons.prems(2,4) p rel(3,4) show ?case
    by (auto simp: rel(2) fun_eq_iff)
qed (simp add: fun_eq_iff)

lemma release_all_effect:
  assumes "lm_inv lm"
  shows "lm_inv (release_all xid lm)" "held_mode (release_all xid lm) = (held_mode lm)(xid := Map.empty)"
    "wait_sets (release_all xid lm) = wait_sets lm"
proof -
  have "lm_inv (release_all xid lm) \<and> held_mode (release_all xid lm) = (held_mode lm)(xid := Map.empty) \<and>
      wait_sets (release_all xid lm) = wait_sets lm"
  proof (cases "map_of (txn_locks lm) xid")
    case None
    then show ?thesis using assms by (auto simp: release_all_def held_mode_None fun_eq_iff)
  next
    case (Some ls)
    have ls: "lock_set lm xid = ls" using Some by (simp add: lock_set_def omap_at_def)
    then have dist: "distinct (map fst (tl_held ls))" using assms omap_ok_distinct by (auto simp: lm_inv_def)
    have "\<forall>(t, m) \<in> set (tl_held ls). held_mode lm xid t = Some m"
      using dist by (auto simp: held_mode_def ls)
    from release_fold [OF assms dist this refl] show ?thesis
      by (auto simp: release_all_def Some held_mode_def ls fun_eq_iff map_of_eq_None_iff)
  qed
  then show "lm_inv (release_all xid lm)" "held_mode (release_all xid lm) = (held_mode lm)(xid := Map.empty)"
    "wait_sets (release_all xid lm) = wait_sets lm" by simp_all
qed

section \<open>Every interleaving keeps the invariant\<close>

text \<open>A waiting call is exactly the one recorded in \<open>waiting\<close>, its transaction does not hold the
  target, and it sleeps only while it could not be granted.\<close>

definition call_ok :: "lock_system \<Rightarrow> TransactionId \<Rightarrow> bool" where
  "call_ok s xid = (case sys_calls s xid of None \<Rightarrow> wait_sets (sys_lm s) xid = []
     | Some c \<Rightarrow> wait_sets (sys_lm s) xid = [(wc_target c, wc_mode c)] \<and> held_mode (sys_lm s) xid (wc_target c) = None \<and>
         (wc_asleep c \<longrightarrow> \<not> can_grant (wc_target c) (wc_mode c) (sys_lm s)))"

definition sys_inv :: "lock_system \<Rightarrow> bool" where
  "sys_inv s \<longleftrightarrow> lm_inv (sys_lm s) \<and> (\<forall>xid. call_ok s xid)"

lemma sys_inv_new: "sys_inv (sys_new timeout)"
proof -
  have "call_ok (sys_new timeout) xid" for xid
    by (simp add: sys_new_def call_ok_def wait_sets_def lock_set_def lm_new_def omap_at_def)
  then show ?thesis by (simp add: sys_inv_def sys_new_def lm_inv_new)
qed

lemma round_effects:
  "lock_set (mark_waiting xid t m lm) = (lock_set lm)(xid := (lock_set lm xid)\<lparr>tl_waiting := omap_put t m (tl_waiting (lock_set lm xid))\<rparr>)"
  "lock_set (grant xid t m lm) = (lock_set lm)(xid := (lock_set lm xid)\<lparr>tl_held := omap_put t m (tl_held (lock_set lm xid)),
     tl_waiting := omap_del t (tl_waiting (lock_set lm xid))\<rparr>)"
  "lm_inv lm \<Longrightarrow> lock_set (give_up xid t lm) = (lock_set lm)(xid := (lock_set lm xid)\<lparr>tl_waiting := omap_del t (tl_waiting (lock_set lm xid))\<rparr>)"
  "key_at (mark_waiting xid t m lm) = key_at lm" "key_at (give_up xid t lm) = key_at lm"
  by (auto simp: mark_waiting_def grant_def give_up_def Let_def lock_set_put lock_set_store lm_inv_def key_at_def store_lock_set_def
      lock_set_def omap_at_def fun_eq_iff)

lemma can_grant_after_grant:
  assumes "key_ok lm t" "can_grant t' m' (grant xid t m lm)" "can_grant t m lm"
  shows "can_grant t' m' lm"
proof -
  have "key_at (grant xid t m lm) = (key_at lm)(t := (if m = Shared then (key_at lm t)\<lparr>shared_count := shared_count (key_at lm t) + 1\<rparr>
      else (key_at lm t)\<lparr>has_excl := True, exclusive_xid := xid\<rparr>))"
    by (simp add: grant_def Let_def key_at_def omap_at_def fun_eq_iff)
  with assms show ?thesis
    by (auto simp: can_grant_eq is_free_def has_shared_def has_exclusive_def key_ok_def split: if_splits)
qed

text \<open>One round of the wait loop, for a transaction that does not hold the target.\<close>

lemma round_inv:
  fixes elapsed :: nat
  assumes inv: "lm_inv lm" and new: "held_mode lm xid t = None" and waits: "wait_sets lm xid \<in> {[], [(t, m)]}"
  defines "p \<equiv> acquire_round xid t m elapsed lm"
  shows "lm_inv (snd p)" "x \<noteq> xid \<Longrightarrow> wait_sets (snd p) x = wait_sets lm x"
    "x \<noteq> xid \<Longrightarrow> held_mode (snd p) x = held_mode lm x"
    "can_grant t' m' (snd p) \<Longrightarrow> can_grant t' m' lm"
    "fst p = Sleeping \<Longrightarrow> wait_sets (snd p) xid = [(t, m)] \<and> held_mode (snd p) xid t = None \<and> \<not> can_grant t m (snd p)"
    "fst p \<noteq> Sleeping \<Longrightarrow> wait_sets (snd p) xid = []"
    "fst p = Granted \<longleftrightarrow> can_grant t m lm"
proof -
  have key: "key_ok lm t" using inv by (simp add: lm_inv_def)
  have marked: "lm_inv (mark_waiting xid t m lm)" by (rule lm_inv_mark_waiting [OF inv])
  note eff = round_effects(1,2) round_effects(3) [OF marked] round_effects(4,5)
  show "lm_inv (snd p)"
    using inv new marked lm_inv_give_up [OF marked] by (simp add: p_def acquire_round_def Let_def lm_inv_grant)
  show "x \<noteq> xid \<Longrightarrow> wait_sets (snd p) x = wait_sets lm x" "x \<noteq> xid \<Longrightarrow> held_mode (snd p) x = held_mode lm x"
    by (simp_all add: p_def acquire_round_def Let_def wait_sets_def held_mode_def eff fun_eq_iff)
  show "can_grant t' m' (snd p) \<Longrightarrow> can_grant t' m' lm"
    using can_grant_after_grant [OF key, of t' m' xid m]
    by (cases "can_grant t m lm") (auto simp: p_def acquire_round_def Let_def can_grant_eq eff split: if_splits)
  show "fst p = Sleeping \<Longrightarrow> wait_sets (snd p) xid = [(t, m)] \<and> held_mode (snd p) xid t = None \<and> \<not> can_grant t m (snd p)"
    using new waits by (auto simp: p_def acquire_round_def Let_def wait_sets_def held_mode_def can_grant_eq eff split: if_splits)
  show "fst p \<noteq> Sleeping \<Longrightarrow> wait_sets (snd p) xid = []"
    using waits by (auto simp: p_def acquire_round_def Let_def wait_sets_def eff split: if_splits)
  show "fst p = Granted \<longleftrightarrow> can_grant t m lm" by (simp add: p_def acquire_round_def Let_def)
qed

lemma sys_inv_after_round:
  assumes inv: "sys_inv s" and new: "held_mode (sys_lm s) xid t = None" and waits: "wait_sets (sys_lm s) xid \<in> {[], [(t, m)]}"
  shows "sys_inv (after_round xid t m (acquire_round xid t m elapsed (sys_lm s)) s)"
proof -
  have lm: "lm_inv (sys_lm s)" and calls: "\<And>x. call_ok s x" using inv by (simp_all add: sys_inv_def)
  note r = round_inv [where elapsed = elapsed, OF lm new waits]
  have "call_ok (after_round xid t m (acquire_round xid t m elapsed (sys_lm s)) s) x" for x
  proof (cases "x = xid")
    case True
    then show ?thesis using r(5,6) by (auto simp: call_ok_def after_round_def)
  next
    case False
    then show ?thesis
      using calls [of x] r(2,3) [OF False] r(4) by (auto simp: call_ok_def after_round_def split: option.splits)
  qed
  with r(1) show ?thesis by (simp add: sys_inv_def after_round_def)
qed

lemma sys_inv_release:
  assumes "sys_inv s"
  shows "sys_inv (sys_release xid s)"
proof -
  have lm: "lm_inv (sys_lm s)" using assms by (simp add: sys_inv_def)
  have "call_ok (sys_release xid s) x" for x
  proof -
    have "call_ok s x" using assms by (simp add: sys_inv_def)
    then show ?thesis
      using release_all_effect [OF lm, of xid]
      by (cases "sys_calls s x") (auto simp: call_ok_def sys_release_def notify_all_def split: option.splits)
  qed
  with release_all_effect(1) [OF lm, of xid] lm show ?thesis
    by (auto simp: sys_inv_def sys_release_def notify_all_def split: option.splits)
qed

lemma sys_inv_step: "lock_step s s' \<Longrightarrow> sys_inv s \<Longrightarrow> sys_inv s'"
proof (induction rule: lock_step.induct)
  case (start s xid t m elapsed)
  show ?case
  proof (cases "held_mode (sys_lm s) xid t")
    case None
    have "wait_sets (sys_lm s) xid = []"
      using start by (auto simp: sys_inv_def call_ok_def dest: spec [where x = xid])
    with sys_inv_after_round [OF start.prems None] None show ?thesis by (simp add: acquire_start_def reentry_def)
  next
    case (Some h)
    then have "after_round xid t m (acquire_start xid t m elapsed (sys_lm s)) s = s"
      using start.hyps by (auto simp: acquire_start_def reentry_def after_round_def fun_upd_idem)
    with start.prems show ?thesis by simp
  qed
next
  case (wake s xid c elapsed)
  then have "call_ok s xid" by (simp add: sys_inv_def)
  with wake.hyps show ?case by (intro sys_inv_after_round [OF wake.prems]) (auto simp: call_ok_def)
qed (rule sys_inv_release)

lemma sys_inv_steps: "lock_step\<^sup>*\<^sup>* s s' \<Longrightarrow> sys_inv s \<Longrightarrow> sys_inv s'"
  by (induction rule: rtranclp_induct) (auto intro: sys_inv_step)

lemma is_held_holders: "lm_inv lm \<Longrightarrow> is_held lm t m \<longleftrightarrow> (\<exists>xid. held_mode lm xid t = Some m)"
proof -
  assume "lm_inv lm"
  then have key: "key_ok lm t" by (simp add: lm_inv_def)
  have "is_held lm t m \<longleftrightarrow> (if m = Shared then has_shared (key_at lm t) else has_exclusive (key_at lm t))"
    by (simp add: is_held_def key_at_def omap_at_def has_shared_def has_exclusive_def split: option.splits)
  also have "\<dots> \<longleftrightarrow> holders lm m t \<noteq> {}"
    using key by (cases m) (auto simp: key_ok_def has_shared_def has_exclusive_def card_gt_0_iff)
  finally show ?thesis by (auto simp: holders_def)
qed

lemma exclusive_alone:
  assumes "key_ok lm t" "held_mode lm xid t = Some Exclusive" "held_mode lm x t = Some h"
  shows "x = xid"
proof (cases h)
  case Shared
  then have "x \<in> holders lm Shared t" "xid \<in> holders lm Exclusive t" using assms by (simp_all add: holders_def)
  then show ?thesis using assms(1) by (auto simp: key_ok_def split: if_splits)
next
  case Exclusive
  then have "x \<in> holders lm Exclusive t" "xid \<in> holders lm Exclusive t" using assms by (simp_all add: holders_def)
  then show ?thesis using assms(1) by (auto simp: key_ok_def split: if_splits)
qed

definition conflicts :: "LM \<Rightarrow> TransactionId \<Rightarrow> LockTarget \<Rightarrow> LockMode \<Rightarrow> bool" where
  "conflicts lm xid t m \<longleftrightarrow> (\<exists>x h. x \<noteq> xid \<and> held_mode lm x t = Some h \<and> (m = Exclusive \<or> h = Exclusive))"

lemma can_grant_conflicts:
  assumes "key_ok lm t" "held_mode lm xid t = None"
  shows "can_grant t m lm \<longleftrightarrow> \<not> conflicts lm xid t m"
proof -
  have modes: "h = Shared \<longleftrightarrow> h \<noteq> Exclusive" for h by (cases h) simp_all
  show ?thesis
    unfolding can_grant_holders [OF assms(1)] conflicts_def modes using assms(2) by (metis option.distinct(1))
qed

section \<open>Spin locks and light-weight locks\<close>

text \<open>\<open>Spinlock\<close>: the flag; \<open>lock\<close> repeats \<open>try_lock\<close> until it succeeds.\<close>

definition spin_try_lock :: "bool \<Rightarrow> bool \<times> bool" where
  "spin_try_lock flag = (\<not> flag, True)"

definition spin_unlock :: "bool \<Rightarrow> bool" where
  "spin_unlock flag = False"

text \<open>\<open>LWLock\<close>: the operations that may wait give \<open>None\<close> where the code waits on its condition
  variable. \<open>unlock_shared\<close> tells whether it wakes a writer.\<close>

record LWLock =
  lw_shared_count :: int
  lw_exclusive :: bool

definition lw_lock_shared :: "LWLock \<Rightarrow> LWLock option" where
  "lw_lock_shared l = (if lw_exclusive l then None else Some (l\<lparr>lw_shared_count := lw_shared_count l + 1\<rparr>))"

definition lw_unlock_shared :: "LWLock \<Rightarrow> LWLock \<times> bool" where
  "lw_unlock_shared l = (l\<lparr>lw_shared_count := lw_shared_count l - 1\<rparr>, lw_shared_count l = 1)"

definition lw_try_lock_shared :: "LWLock \<Rightarrow> bool \<times> LWLock" where
  "lw_try_lock_shared l = (if lw_exclusive l then (False, l) else (True, l\<lparr>lw_shared_count := lw_shared_count l + 1\<rparr>))"

definition lw_lock_exclusive :: "LWLock \<Rightarrow> LWLock option" where
  "lw_lock_exclusive l = (if lw_shared_count l = 0 \<and> \<not> lw_exclusive l then Some (l\<lparr>lw_exclusive := True\<rparr>) else None)"

definition lw_unlock_exclusive :: "LWLock \<Rightarrow> LWLock" where
  "lw_unlock_exclusive l = l\<lparr>lw_exclusive := False\<rparr>"

definition lw_try_lock_exclusive :: "LWLock \<Rightarrow> bool \<times> LWLock" where
  "lw_try_lock_exclusive l = (if 0 < lw_shared_count l \<or> lw_exclusive l then (False, l) else (True, l\<lparr>lw_exclusive := True\<rparr>))"

text \<open>Threads that use the lock: how many read and how many write.\<close>

inductive lw_run :: "LWLock \<Rightarrow> nat \<Rightarrow> nat \<Rightarrow> bool" where
  new: "lw_run \<lparr>lw_shared_count = 0, lw_exclusive = False\<rparr> 0 0"
| lock_shared: "lw_run l r w \<Longrightarrow> lw_lock_shared l = Some l' \<Longrightarrow> lw_run l' (Suc r) w"
| try_shared: "lw_run l r w \<Longrightarrow> lw_try_lock_shared l = (got, l') \<Longrightarrow> lw_run l' (if got then Suc r else r) w"
| unlock_shared: "lw_run l (Suc r) w \<Longrightarrow> lw_run (fst (lw_unlock_shared l)) r w"
| lock_exclusive: "lw_run l r w \<Longrightarrow> lw_lock_exclusive l = Some l' \<Longrightarrow> lw_run l' r (Suc w)"
| try_exclusive: "lw_run l r w \<Longrightarrow> lw_try_lock_exclusive l = (got, l') \<Longrightarrow> lw_run l' r (if got then Suc w else w)"
| unlock_exclusive: "lw_run l r (Suc w) \<Longrightarrow> lw_run (lw_unlock_exclusive l) r w"

lemma lw_run_state: "lw_run l r w \<Longrightarrow> lw_shared_count l = int r \<and> w = of_bool (lw_exclusive l) \<and> (lw_exclusive l \<longrightarrow> r = 0)"
  by (induction rule: lw_run.induct)
    (auto simp: lw_lock_shared_def lw_try_lock_shared_def lw_unlock_shared_def lw_lock_exclusive_def
      lw_try_lock_exclusive_def lw_unlock_exclusive_def of_bool_def split: if_splits)

section \<open>Properties\<close>

text \<open>C7: However the calls of any number of transactions interleave, each transaction having one call in progress at a time
  (as the engine makes them), a target held exclusively is held by nobody else, the lock table answers truthfully who
  holds what, and no wakeup is lost: a call sleeps only while another transaction holds a conflicting lock. With two calls
  of one transaction waiting at once this fails: a count of holders is left behind.\<close>

theorem locks_exclude:
  assumes "lock_step\<^sup>*\<^sup>* (sys_new timeout) s"
  shows "(held_mode (sys_lm s) xid t = Some Exclusive \<longrightarrow> held_mode (sys_lm s) xid' t = Some m' \<longrightarrow> xid' = xid) \<and>
    (is_held (sys_lm s) t m \<longleftrightarrow> (\<exists>x. held_mode (sys_lm s) x t = Some m)) \<and>
    (sys_calls s xid = Some c \<longrightarrow> wc_asleep c \<longrightarrow> conflicts (sys_lm s) xid (wc_target c) (wc_mode c))"
proof -
  have "sys_inv s" using sys_inv_steps [OF assms sys_inv_new] .
  then have lm: "lm_inv (sys_lm s)" and call: "call_ok s xid" by (simp_all add: sys_inv_def)
  have key: "key_ok (sys_lm s) t" for t using lm by (simp add: lm_inv_def)
  have "sys_calls s xid = Some c \<longrightarrow> wc_asleep c \<longrightarrow> conflicts (sys_lm s) xid (wc_target c) (wc_mode c)"
    using call can_grant_conflicts [OF key] by (auto simp: call_ok_def)
  with exclusive_alone [OF key] is_held_holders [OF lm] show ?thesis by blast
qed

definition sample_wait :: lock_system where
  "sample_wait = (let s = after_round 3 (LockTarget TableTarget ''t'') Exclusive
       (acquire_start 3 (LockTarget TableTarget ''t'') Exclusive 0 (lm_new 5000)) (sys_new 5000)
     in after_round 4 (LockTarget TableTarget ''t'') Shared (acquire_start 4 (LockTarget TableTarget ''t'') Shared 0 (sys_lm s)) s)"

lemma sample_wait_steps: "lock_step\<^sup>*\<^sup>* (sys_new 5000) sample_wait"
proof -
  let ?t = "LockTarget TableTarget ''t''"
  let ?s = "after_round 3 ?t Exclusive (acquire_start 3 ?t Exclusive 0 (sys_lm (sys_new 5000))) (sys_new 5000)"
  have 1: "lock_step (sys_new 5000) ?s" by (rule lock_step.start) (simp add: sys_new_def)
  have 2: "lock_step ?s (after_round 4 ?t Shared (acquire_start 4 ?t Shared 0 (sys_lm ?s)) ?s)"
    by (rule lock_step.start) (simp add: after_round_def sys_new_def)
  have "sample_wait = after_round 4 ?t Shared (acquire_start 4 ?t Shared 0 (sys_lm ?s)) ?s"
    by (simp add: sample_wait_def Let_def sys_new_def)
  with 1 2 show ?thesis by (simp add: converse_rtranclp_into_rtranclp)
qed

lemma sample_wait_call: "sys_calls sample_wait 4 = Some \<lparr>wc_target = LockTarget TableTarget ''t'', wc_mode = Shared, wc_asleep = True\<rparr>"
  by code_simp

lemma locks_exclude_witness:
  "conflicts (sys_lm sample_wait) 4 (LockTarget TableTarget ''t'') Shared"
  using locks_exclude [OF sample_wait_steps, where xid = 4
      and c = "\<lparr>wc_target = LockTarget TableTarget ''t'', wc_mode = Shared, wc_asleep = True\<rparr>"] sample_wait_call
  by simp

text \<open>A light-weight lock has at most one writer and never a writer with a reader, and the last
  reader to leave is the one that wakes a writer.\<close>

theorem lwlock_excludes:
  assumes "lw_run l r w"
  shows "w \<le> 1 \<and> (w = 1 \<longrightarrow> r = 0) \<and> (0 < r \<longrightarrow> (snd (lw_unlock_shared l) \<longleftrightarrow> r = 1))"
  using lw_run_state [OF assms] by (auto simp: lw_unlock_shared_def)

lemma lwlock_excludes_witness: "snd (lw_unlock_shared \<lparr>lw_shared_count = 1, lw_exclusive = False\<rparr>)"
proof -
  have "lw_run \<lparr>lw_shared_count = 1, lw_exclusive = False\<rparr> 1 0"
    using lw_run.lock_shared [OF lw_run.new, of "\<lparr>lw_shared_count = 1, lw_exclusive = False\<rparr>"]
    by (simp add: lw_lock_shared_def)
  from lwlock_excludes [OF this] show ?thesis by simp
qed

text \<open>C14: A waiting call that wakes up is granted exactly when no other transaction holds a conflicting
  lock any more; once its time is up it does not go back to sleep: it is granted or it throws, and then
  it is no longer counted as a waiter.\<close>

theorem waiting_ends:
  assumes "lock_step\<^sup>*\<^sup>* (sys_new timeout) s" "sys_calls s xid = Some c"
    and p: "acquire_round xid (wc_target c) (wc_mode c) elapsed (sys_lm s) = p"
  shows "(fst p = Granted \<longleftrightarrow> \<not> conflicts (sys_lm s) xid (wc_target c) (wc_mode c)) \<and>
    (wait_timeout_ms (sys_lm s) \<noteq> 0 \<longrightarrow> unat (wait_timeout_ms (sys_lm s)) \<le> elapsed \<longrightarrow>
       fst p \<in> {Granted, TimedOut} \<and> wait_sets (snd p) xid = [])"
proof -
  have "sys_inv s" using sys_inv_steps [OF assms(1) sys_inv_new] .
  then have lm: "lm_inv (sys_lm s)" and "call_ok s xid" by (simp_all add: sys_inv_def)
  then have new: "held_mode (sys_lm s) xid (wc_target c) = None"
    and waits: "wait_sets (sys_lm s) xid \<in> {[], [(wc_target c, wc_mode c)]}"
    using assms(2) by (auto simp: call_ok_def)
  have key: "key_ok (sys_lm s) (wc_target c)" using lm by (simp add: lm_inv_def)
  have "wait_timeout_ms (sys_lm s) \<noteq> 0 \<Longrightarrow> unat (wait_timeout_ms (sys_lm s)) \<le> elapsed \<Longrightarrow> fst p \<in> {Granted, TimedOut}"
    by (auto simp: p [symmetric] acquire_round_def Let_def mark_waiting_def)
  then show ?thesis
    using round_inv(6,7) [where elapsed = elapsed, OF lm new waits] can_grant_conflicts [OF key new]
    unfolding p by fastforce
qed

lemma waiting_ends_witness:
  "fst (acquire_round 4 (LockTarget TableTarget ''t'') Shared 5000 (sys_lm sample_wait)) \<in> {Granted, TimedOut}"
proof -
  have "wait_timeout_ms (sys_lm sample_wait) = 5000" by code_simp
  with waiting_ends [OF sample_wait_steps sample_wait_call refl, of 5000] show ?thesis by auto
qed

text \<open>\<open>release_all\<close>, which also runs when any one handle goes out of scope, frees exactly the locks
  of its transaction, all of them: a handle that is still in scope protects nothing afterwards.\<close>

theorem release_frees_transaction:
  assumes "lock_step\<^sup>*\<^sup>* (sys_new timeout) s" "h_valid h"
  shows "held_mode (snd (handle_release h (sys_lm s))) x t = (if x = h_xid h then None else held_mode (sys_lm s) x t) \<and>
    wait_sets (snd (handle_release h (sys_lm s))) x = wait_sets (sys_lm s) x"
proof -
  have "lm_inv (sys_lm s)" using sys_inv_steps [OF assms(1) sys_inv_new] by (simp add: sys_inv_def)
  from release_all_effect [OF this] assms(2) show ?thesis by (simp add: handle_release_def)
qed

lemma release_frees_transaction_witness:
  "held_mode (snd (handle_release \<lparr>h_xid = 3, h_target = LockTarget TableTarget ''other'', h_mode = Shared, h_valid = True\<rparr>
     (sys_lm sample_wait))) 3 (LockTarget TableTarget ''t'') = None"
  using release_frees_transaction [OF sample_wait_steps,
      of "\<lparr>h_xid = 3, h_target = LockTarget TableTarget ''other'', h_mode = Shared, h_valid = True\<rparr>" 3] by simp


end
