(* ===== verification/Row_Store.thy ===== *)
theory Row_Store
  imports Mem_Table
begin

text \<open>
  The engine keeps at most one version of a row: it erases the old version before it writes the new
  one. A table with that property is a finite map from row ids to tuples, scanned in row id order,
  whatever the sequence numbers. The locale \<open>row_store\<close> is this contract, the interpretation \<open>rs\<close>
  gives it for the MemTable, and the facts about the engine rest on it.
\<close>

section \<open>The contract\<close>

locale row_store =
  fixes ok :: "'m \<Rightarrow> bool" and lookup :: "'m \<Rightarrow> u64 \<Rightarrow> Tuple option"
    and wr :: "u64 \<Rightarrow> Tuple \<Rightarrow> u64 \<Rightarrow> 'm \<Rightarrow> 'm" and erase :: "u64 \<Rightarrow> 'm \<Rightarrow> 'm"
    and scan :: "'m \<Rightarrow> Tuple list"
  assumes ok_write: "ok m \<Longrightarrow> lookup m r = None \<Longrightarrow> h_row_id (hdr t) = r \<Longrightarrow> ok (wr r t s m)"
    and ok_erase: "ok m \<Longrightarrow> ok (erase r m)"
    and lookup_write: "ok m \<Longrightarrow> lookup m r = None \<Longrightarrow> h_row_id (hdr t) = r \<Longrightarrow>
      lookup (wr r t s m) = (lookup m)(r \<mapsto> stored t)"
    and lookup_erase: "ok m \<Longrightarrow> lookup (erase r m) = (lookup m)(r := None)"
    and lookup_scan: "ok m \<Longrightarrow> lookup m r = Some t \<longleftrightarrow> t \<in> set (scan m) \<and> h_row_id (hdr t) = r"
    and scan_sorted: "ok m \<Longrightarrow> sorted_wrt (<) (map (\<lambda>t. h_row_id (hdr t)) (scan m))"
begin

lemma replace:
  assumes "ok m" "h_row_id (hdr t) = r"
  shows "ok (wr r t s (erase r m))" "lookup (wr r t s (erase r m)) = (lookup m)(r \<mapsto> stored t)"
proof -
  have e: "ok (erase r m)" "lookup (erase r m) r = None"
    using assms ok_erase lookup_erase by simp_all
  show "ok (wr r t s (erase r m))" using ok_write [OF e assms(2)] .
  show "lookup (wr r t s (erase r m)) = (lookup m)(r \<mapsto> stored t)"
    using lookup_write [OF e assms(2)] lookup_erase [OF assms(1)] by simp
qed

lemma scan_distinct: "ok m \<Longrightarrow> distinct (map (\<lambda>t. h_row_id (hdr t)) (scan m))"
  using scan_sorted strict_sorted_iff by blast

lemma scan_lookup: "ok m \<Longrightarrow> t \<in> set (scan m) \<Longrightarrow> lookup m (h_row_id (hdr t)) = Some t"
  by (simp add: lookup_scan)

text \<open>Tables with the same rows are scanned alike.\<close>

lemma scan_ext:
  assumes "ok m" "ok m'" "lookup m = lookup m'"
  shows "scan m = scan m'"
proof (rule map_sorted_distinct_set_unique [where f = "\<lambda>t. h_row_id (hdr t)"])
  have "t \<in> set (scan m) \<longleftrightarrow> t \<in> set (scan m')" for t
    using assms lookup_scan [of m "h_row_id (hdr t)" t] lookup_scan [of m' "h_row_id (hdr t)" t] by simp
  then show eq: "set (scan m) = set (scan m')" by blast
  show "sorted (map (\<lambda>t. h_row_id (hdr t)) (scan m))" "sorted (map (\<lambda>t. h_row_id (hdr t)) (scan m'))"
    using assms scan_sorted strict_sorted_iff by blast+
  show "distinct (map (\<lambda>t. h_row_id (hdr t)) (scan m))" "distinct (map (\<lambda>t. h_row_id (hdr t)) (scan m'))"
    using assms scan_distinct by blast+
  show "inj_on (\<lambda>t. h_row_id (hdr t)) (set (scan m) \<union> set (scan m'))"
    using scan_distinct [OF assms(1)] eq by (simp add: distinct_map)
qed

end

section \<open>The MemTable as such a store\<close>

definition mt_wf :: "string \<Rightarrow> MemTable \<Rightarrow> bool" where
  "mt_wf q mt \<longleftrightarrow> mt_name mt = q \<and> omap_ok (mt_entries mt) \<and>
     (\<forall>(k, t) \<in> set (mt_entries mt). user_key k = make_user_key q (h_row_id (hdr t))) \<and>
     distinct (map (\<lambda>(k, _). user_key k) (mt_entries mt))"

lemma mt_wf_new [simp]: "mt_wf q (mt_new q)"
  by (simp add: mt_wf_def mt_new_def)

lemma mt_wf_erase: "mt_wf q mt \<Longrightarrow> mt_wf q (snd (erase_all_for r mt))"
  by (auto simp: mt_wf_def erase_all_for_eq omap_ok_filter distinct_map inj_on_def)

lemma mt_wf_entry: "mt_wf q mt \<Longrightarrow> p \<in> set (mt_entries mt) \<Longrightarrow> user_key (fst p) = make_user_key q (h_row_id (hdr (snd p)))"
  by (cases p) (fastforce simp: mt_wf_def)

lemma get_latest_iff:
  assumes "mt_wf q mt"
  shows "get_latest mt r = Some t \<longleftrightarrow> t \<in> set (scan_all mt) \<and> h_row_id (hdr t) = r"
proof -
  let ?f = "filter (\<lambda>(k, _). user_key k = make_user_key (mt_name mt) r) (mt_entries mt)"
  have name: "mt_name mt = q" using assms by (simp add: mt_wf_def)
  have mem: "p \<in> set ?f \<longleftrightarrow> p \<in> set (mt_entries mt) \<and> h_row_id (hdr (snd p)) = r" for p
    using mt_wf_entry [OF assms, of p] name by (cases p) (auto dest: make_user_key_inj)
  have "distinct (map (\<lambda>(k, _). user_key k) ?f)"
    using assms by (auto simp: mt_wf_def distinct_map intro: inj_on_subset)
  moreover have "\<forall>x \<in> set (map (\<lambda>(k, _). user_key k) ?f). x = make_user_key q r" using name by auto
  ultimately have "length ?f \<le> 1"
    by (cases ?f; cases "tl ?f") auto
  then consider "?f = []" | p where "?f = [p]" by (cases ?f) auto
  then show ?thesis
  proof cases
    case 1
    then have "\<not> (t \<in> set (scan_all mt) \<and> h_row_id (hdr t) = r)"
      using mem by (auto simp: scan_all_def)
    with 1 show ?thesis by (simp add: get_latest_def get_versions_eq Let_def)
  next
    case (2 p)
    have "t \<in> set (scan_all mt) \<and> h_row_id (hdr t) = r \<longleftrightarrow> t \<in> snd ` set ?f"
      using mem by (auto simp: scan_all_def)
    with 2 show ?thesis by (auto simp: get_latest_def get_versions_eq Let_def)
  qed
qed

lemma get_latest_None: "get_latest mt r = None \<longleftrightarrow> get_versions mt r = []"
  by (simp add: get_latest_def Let_def)

lemma get_latest_erase: "get_latest (snd (erase_all_for r mt)) = (get_latest mt)(r := None)"
  by (auto simp: get_latest_def get_versions_erase Let_def)

lemma get_versions_put_fresh:
  assumes "mt_wf q mt" "get_versions mt r = []"
  shows "get_versions (mt_put r t s mt) r' = (if r' = r then [stored t] else get_versions mt r')"
proof -
  have ok: "omap_ok (mt_entries mt)" using assms(1) by (simp add: mt_wf_def)
  have "filter (\<lambda>(k, _). user_key k = make_user_key (mt_name mt) r) (mt_entries mt) = []"
    using assms(2) by (simp add: get_versions_eq)
  then show ?thesis
    using filter_omap_put [OF ok, of "\<lambda>k. user_key k = make_user_key (mt_name mt) r'"]
    by (auto simp: get_versions_eq mt_put_eq dest: make_user_key_inj)
qed

lemma get_latest_put_fresh:
  "mt_wf q mt \<Longrightarrow> get_latest mt r = None \<Longrightarrow> get_latest (mt_put r t s mt) = (get_latest mt)(r \<mapsto> stored t)"
  by (auto simp: get_latest_def get_versions_put_fresh fun_eq_iff Let_def split: if_splits)

lemma mt_wf_put:
  assumes "mt_wf q mt" "get_latest mt r = None" "h_row_id (hdr t) = r"
  shows "mt_wf q (mt_put r t s mt)"
proof -
  let ?k = "IKey (make_user_key q r) s"
  have name: "mt_name mt = q" and ok: "omap_ok (mt_entries mt)" using assms(1) by (simp_all add: mt_wf_def)
  have "filter (\<lambda>(k, _). user_key k = make_user_key q r) (mt_entries mt) = []"
    using assms(2) name by (simp add: get_latest_None get_versions_eq)
  then have fresh: "make_user_key q r \<notin> set (map (\<lambda>(k, _). user_key k) (mt_entries mt))"
    by (auto simp: filter_empty_conv)
  have dist: "distinct (map (\<lambda>(k, _). user_key k) (omap_put k v m))"
    if "distinct (map (\<lambda>(k, _). user_key k) m)" "user_key k \<notin> set (map (\<lambda>(k, _). user_key k) m)"
    for k and v :: Tuple and m
    using that
  proof (induction k v m rule: omap_put.induct)
    case (2 k v a b m)
    then show ?case using set_omap_put [of k v m] by fastforce
  qed simp
  have "distinct (map (\<lambda>(k, _). user_key k) (omap_put ?k (stored t) (mt_entries mt)))"
    using dist [of "mt_entries mt" ?k] assms(1) fresh by (simp add: mt_wf_def)
  then show ?thesis
    using assms(1,3) set_omap_put [of ?k "stored t" "mt_entries mt"] name ok
    by (fastforce simp: mt_wf_def mt_put_eq stored_def)
qed

lemma scan_all_sorted:
  assumes "mt_wf q mt"
  shows "sorted_wrt (<) (map (\<lambda>t. h_row_id (hdr t)) (scan_all mt))"
proof -
  have "sorted_wrt (\<lambda>p p'. h_row_id (hdr (snd p)) < h_row_id (hdr (snd p'))) (mt_entries mt)"
  proof (rule sorted_wrt_mono_rel)
    show "sorted_wrt (\<lambda>p p'. fst p < fst p' \<and> user_key (fst p) \<noteq> user_key (fst p')) (mt_entries mt)"
      using assms
      by (auto simp: mt_wf_def omap_ok_def sorted_wrt_map distinct_conv_nth sorted_wrt_iff_nth_less case_prod_beta)
    fix p p'
    assume "p \<in> set (mt_entries mt)" "p' \<in> set (mt_entries mt)" "fst p < fst p' \<and> user_key (fst p) \<noteq> user_key (fst p')"
    with mt_wf_entry [OF assms, of p] mt_wf_entry [OF assms, of p']
    have "make_user_key q (h_row_id (hdr (snd p))) < make_user_key q (h_row_id (hdr (snd p')))"
      by (simp add: less_InternalKey_def ikey_less_def split: if_splits)
    then show "h_row_id (hdr (snd p)) < h_row_id (hdr (snd p'))" using make_user_key_mono by blast
  qed
  then show ?thesis by (simp add: scan_all_def sorted_wrt_map)
qed

interpretation rs: row_store "mt_wf q" get_latest mt_put "\<lambda>r m. snd (erase_all_for r m)" scan_all for q
  by unfold_locales
    (simp_all add: mt_wf_put mt_wf_erase get_latest_put_fresh get_latest_erase get_latest_iff scan_all_sorted)

lemma get_latest_new [simp]: "get_latest (mt_new q) = (\<lambda>_. None)"
  by (simp add: get_latest_def fun_eq_iff)

end
