(* ===== verification/Engine_Invariant.thy ===== *)
theory Engine_Invariant
  imports Row_Store Engine
begin

text \<open>
  The structural invariant of the engine and its preservation by every public method, whether the
  method returns or throws.

  \<open>hoare P m Q E\<close> is the correctness statement for a method: from \<open>P\<close> it returns with \<open>Q\<close> or throws
  with \<open>E\<close>. \<open>keeps I m\<close> is its special case for an invariant; the collection \<open>keeps_intros\<close> holds
  its closure rules.
\<close>

section \<open>Correctness statements for methods\<close>

definition hoare :: "(Engine \<Rightarrow> bool) \<Rightarrow> 'a meth \<Rightarrow> ('a \<Rightarrow> Engine \<Rightarrow> bool) \<Rightarrow> (Engine \<Rightarrow> bool) \<Rightarrow> bool" where
  "hoare P m Q E \<longleftrightarrow> (\<forall>e. P e \<longrightarrow> (case m e of (Inl _, e') \<Rightarrow> E e' | (Inr v, e') \<Rightarrow> Q v e'))"

definition keeps :: "(Engine \<Rightarrow> bool) \<Rightarrow> 'a meth \<Rightarrow> bool" where
  "keeps I m \<longleftrightarrow> hoare I m (\<lambda>_. I) I"

named_theorems keeps_intros "closure of invariants under the ways methods are put together"

lemma hoareD: "hoare P m Q E \<Longrightarrow> P e \<Longrightarrow> (case m e of (Inl _, e') \<Rightarrow> E e' | (Inr v, e') \<Rightarrow> Q v e')"
  by (simp add: hoare_def)

lemma hoareI: "(\<And>e. P e \<Longrightarrow> case m e of (Inl _, e') \<Rightarrow> E e' | (Inr v, e') \<Rightarrow> Q v e') \<Longrightarrow> hoare P m Q E"
  by (simp add: hoare_def)

lemma keepsD: "keeps I m \<Longrightarrow> I e \<Longrightarrow> I (snd (m e))"
  by (cases "m e"; cases "fst (m e)") (force simp: keeps_def dest: hoareD)+

lemma keepsI: "(\<And>e. I e \<Longrightarrow> I (snd (m e))) \<Longrightarrow> keeps I m"
  by (force simp: keeps_def hoare_def split: prod.split sum.split)

lemma hoare_weaken:
  "hoare P' m Q' E' \<Longrightarrow> (\<And>e. P e \<Longrightarrow> P' e) \<Longrightarrow> (\<And>v e. Q' v e \<Longrightarrow> Q v e) \<Longrightarrow> (\<And>e. E' e \<Longrightarrow> E e) \<Longrightarrow> hoare P m Q E"
  unfolding hoare_def by (fastforce split: prod.splits sum.splits)

lemma hoare_bind:
  "hoare P m R E \<Longrightarrow> (\<And>v. hoare (R v) (f v) Q E) \<Longrightarrow> hoare P (bindM m f) Q E"
  unfolding hoare_def bindM_def by (fastforce split: prod.splits sum.splits)

lemma hoare_seq: "hoare P m (\<lambda>_. R) E \<Longrightarrow> hoare R k Q E \<Longrightarrow> hoare P (seqM m k) Q E"
  unfolding seqM_def by (rule hoare_bind)

lemma hoare_get: "(\<And>e0. hoare (\<lambda>e. P e \<and> e = e0) (f (g e0)) Q E) \<Longrightarrow> hoare P (bindM (getM g) f) Q E"
  by (simp add: hoare_def bindM_def getM_def)

lemma hoare_mod: "(\<And>e. P e \<Longrightarrow> Q () (f e)) \<Longrightarrow> hoare P (modM f) Q E"
  by (simp add: hoare_def modM_def)

lemma hoare_ret: "(\<And>e. P e \<Longrightarrow> Q x e) \<Longrightarrow> hoare P (ret x) Q E"
  by (simp add: hoare_def ret_def)

lemma hoare_throw: "(\<And>e. P e \<Longrightarrow> E e) \<Longrightarrow> hoare P (throw x) Q E"
  by (simp add: hoare_def throw_def)

lemma hoare_lift:
  "(\<And>e x. P e \<Longrightarrow> r = Inl x \<Longrightarrow> E e) \<Longrightarrow> (\<And>e v. P e \<Longrightarrow> r = Inr v \<Longrightarrow> Q v e) \<Longrightarrow> hoare P (liftM err r) Q E"
  by (cases r) (simp_all add: hoare_def liftM_def)

lemma hoare_keeps: "keeps I m \<Longrightarrow> (\<And>e. P e \<Longrightarrow> I e) \<Longrightarrow> (\<And>v e. I e \<Longrightarrow> Q v e) \<Longrightarrow> (\<And>e. I e \<Longrightarrow> E e) \<Longrightarrow> hoare P m Q E"
  unfolding keeps_def by (erule hoare_weaken)

lemma keeps_ret [keeps_intros]: "keeps I (ret x)"
  by (simp add: keeps_def hoare_ret)

lemma keeps_throw [keeps_intros]: "keeps I (throw x)"
  by (simp add: keeps_def hoare_throw)

lemma keeps_getM [keeps_intros]: "keeps I (getM f)"
  by (rule keepsI) (simp add: getM_def)

lemma keeps_liftM [keeps_intros]: "keeps I (liftM err r)"
  by (cases r) (simp_all add: keeps_def hoare_def liftM_def)

lemma keeps_modM: "(\<And>e. I e \<Longrightarrow> I (f e)) \<Longrightarrow> keeps I (modM f)"
  by (simp add: keeps_def hoare_mod)

lemma keeps_bind [keeps_intros]: "keeps I m \<Longrightarrow> (\<And>v. keeps I (f v)) \<Longrightarrow> keeps I (bindM m f)"
  unfolding keeps_def by (rule hoare_bind)

lemma keeps_seq [keeps_intros]: "keeps I m \<Longrightarrow> keeps I k \<Longrightarrow> keeps I (seqM m k)"
  unfolding keeps_def by (rule hoare_seq)

lemma keeps_when [keeps_intros]: "keeps I m \<Longrightarrow> keeps I (whenM b m)"
  by (simp add: whenM_def keeps_ret)

lemma keeps_if [keeps_intros]: "keeps I m \<Longrightarrow> keeps I k \<Longrightarrow> keeps I (if b then m else k)"
  by simp

lemma keeps_forM [keeps_intros]: "(\<And>x. x \<in> set xs \<Longrightarrow> keeps I (f x)) \<Longrightarrow> keeps I (forM xs f)"
  by (induction xs) (auto intro: keeps_intros)

lemma keeps_foldM [keeps_intros]: "(\<And>x a. x \<in> set xs \<Longrightarrow> keeps I (f x a)) \<Longrightarrow> keeps I (foldM f xs a)"
  by (induction xs arbitrary: a) (auto intro!: keeps_intros)

lemma keeps_steps [keeps_intros]: "(\<And>m. m \<in> set ms \<Longrightarrow> keeps I m) \<Longrightarrow> keeps I k \<Longrightarrow> keeps I (steps ms k)"
  by (induction ms) (auto intro: keeps_intros)

text \<open>A method that looks at the engine first.\<close>

lemma keeps_get: "(\<And>e. I e \<Longrightarrow> I (snd (f e e))) \<Longrightarrow> keeps I (bindM (getM id) f)"
  by (rule keepsI) (simp add: bindM_def getM_def)

lemma keeps_conj: "keeps I m \<Longrightarrow> keeps J m \<Longrightarrow> keeps (\<lambda>e. I e \<and> J e) m"
  unfolding keeps_def hoare_def by (fastforce split: prod.splits sum.splits)

section \<open>The invariant\<close>

definition undo_records :: "Engine \<Rightarrow> UndoRecord list" where
  "undo_records e = cx_undo_records (ctx (e_tm e))"

definition view :: "Engine \<Rightarrow> string \<Rightarrow> u64 \<Rightarrow> Tuple option" where
  "view e q = get_latest (table_data q e)"

definition ids_below :: "MemTable \<Rightarrow> u64 \<Rightarrow> bool" where
  "ids_below mt n \<longleftrightarrow> (\<forall>t \<in> set (scan_all mt). h_row_id (hdr t) \<le>s n)"

text \<open>
  The four maps hold the same tables; every MemTable is keyed by its rows and has one version of
  each; no row, and no row an undo record of the open transaction would bring back, is above the
  row id counter of its table.
\<close>

definition engine_inv :: "Engine \<Rightarrow> bool" where
  "engine_inv e \<longleftrightarrow> omap_ok (e_tables e) \<and> omap_ok (e_data e) \<and> omap_ok (e_row_ids e) \<and> omap_ok (e_indexes e) \<and>
     (\<forall>q. has_key (e_tables e) q = has_key (e_data e) q \<and> has_key (e_row_ids e) q = has_key (e_data e) q \<and>
          has_key (e_indexes e) q = has_key (e_data e) q) \<and>
     (\<forall>q s. map_of (e_tables e) q = Some s \<longrightarrow> ts_name s = q) \<and>
     (\<forall>q mt. map_of (e_data e) q = Some mt \<longrightarrow> mt_wf q mt \<and> ids_below mt (row_id_of q e)) \<and>
     (\<forall>rec \<in> set (undo_records e). has_key (e_data e) (u_table_name rec) \<longrightarrow>
        u_row_id rec \<le>s row_id_of (u_table_name rec) e)"

lemma engine_inv_frame [simp]:
  "engine_inv (e\<lparr>e_wal := w\<rparr>) = engine_inv e" "engine_inv (e\<lparr>e_wal_seq := s\<rparr>) = engine_inv e"
  "engine_inv (e\<lparr>e_disk := d\<rparr>) = engine_inv e" "engine_inv (e\<lparr>e_clock := c\<rparr>) = engine_inv e"
  "engine_inv (e\<lparr>e_catalog := k\<rparr>) = engine_inv e"
  by (simp_all add: engine_inv_def undo_records_def row_id_of_def)

lemma has_key_del_omap: "omap_ok m \<Longrightarrow> has_key (omap_del k m) q \<longleftrightarrow> q \<noteq> k \<and> has_key m q"
  by (simp add: has_key_def)

lemma inv_set_data:
  assumes "engine_inv e" "has_key (e_data e) q" "mt_wf q mt" "ids_below mt (row_id_of q e)"
  shows "engine_inv (set_data q mt e)"
  using assms by (auto simp: engine_inv_def set_data_def undo_records_def row_id_of_def)

lemma inv_set_row_id:
  assumes "engine_inv e" "has_key (e_data e) q" "row_id_of q e \<le>s i"
  shows "engine_inv (set_row_id q i e)"
proof -
  have le: "x \<le>s row_id_of q e \<Longrightarrow> x \<le>s i" for x using assms(3) signed.order_trans by blast
  show ?thesis
    using assms(1,2) le
    by (auto simp: engine_inv_def set_row_id_def undo_records_def row_id_of_def omap_at_def ids_below_def
        split: if_splits)
qed

lemma inv_set_indexes: "engine_inv e \<Longrightarrow> has_key (e_data e) q \<Longrightarrow> engine_inv (set_indexes q ixs e)"
  by (auto simp: engine_inv_def set_indexes_def undo_records_def row_id_of_def)

lemma inv_refresh: "engine_inv e \<Longrightarrow> engine_inv (refresh_row_count q e)"
proof (cases "map_of (e_tables e) q")
  case (Some s)
  assume inv: "engine_inv e"
  then have "has_key (e_data e) q" using Some by (auto simp: engine_inv_def has_key_def)
  with inv Some show ?thesis
    by (auto simp: engine_inv_def refresh_row_count_def undo_records_def row_id_of_def split: if_splits)
qed (simp add: refresh_row_count_def)

lemma inv_set_tm:
  "engine_inv e \<Longrightarrow> set (cx_undo_records (ctx t)) \<subseteq> set (undo_records e) \<Longrightarrow> engine_inv (set_tm t e)"
  by (auto simp: engine_inv_def set_tm_def undo_records_def row_id_of_def)

lemma inv_new_members:
  assumes "engine_inv e" "ts_name s = q" "q \<notin> u_table_name ` set (undo_records e)"
  shows "engine_inv (new_members q s e)"
proof -
  have fresh: "u_table_name rec \<noteq> q" if "rec \<in> set (undo_records e)" for rec using assms(3) that by auto
  show ?thesis
    using assms(1,2) fresh
    by (auto simp: engine_inv_def new_members_def undo_records_def row_id_of_def omap_at_def ids_below_def split: if_splits)
qed

lemma inv_drop_members: "engine_inv e \<Longrightarrow> engine_inv (drop_members q e)"
  by (auto simp: engine_inv_def drop_members_def undo_records_def row_id_of_def omap_at_def has_key_del_omap split: if_splits)

lemma inv_table:
  assumes "engine_inv e" "has_key (e_data e) q"
  shows "mt_wf q (table_data q e)" "ids_below (table_data q e) (row_id_of q e)"
  using assms by (auto simp: engine_inv_def has_key_def table_data_def omap_at_def)

section \<open>The parts of the methods\<close>

text \<open>The bookkeeping of the transaction manager leaves the undo records alone.\<close>

lemma undo_of_tm [simp]:
  "cx_undo_records (ctx (register_siread k t)) = cx_undo_records (ctx t)"
  "cx_undo_records (ctx (register_write k t)) = cx_undo_records (ctx t)"
  "cx_undo_records (ctx (add_undo_record rec t)) = cx_undo_records (ctx t) @ [rec]"
  by (simp_all add: register_siread_def register_write_def add_undo_record_def set_context_def split: option.split)

lemma undo_of_anti_wraparound [simp]: "cx_undo_records (ctx (fst (maybe_anti_wraparound t))) = cx_undo_records (ctx t)"
  by (simp add: maybe_anti_wraparound_def freeze_old_xids_def Let_def split: prod.split)

lemma undo_of_assign_xid: "assign_xid t = (res, t') \<Longrightarrow> cx_undo_records (ctx t') = cx_undo_records (ctx t)"
  using undo_of_anti_wraparound [of t]
  by (auto simp: assign_xid_def allocate_xid_def set_context_def Let_def split: if_splits prod.splits sum.splits)

text \<open>
  \<open>on_table q rest\<close>: the invariant while a method works on the existing table \<open>q\<close>, with \<open>rest\<close> an
  assertion about the rows, the undo records and the counters only.
\<close>

definition on_table :: "string \<Rightarrow> Engine \<Rightarrow> bool" where
  "on_table q e \<longleftrightarrow> engine_inv e \<and> has_key (e_data e) q"

lemma on_table_frame [simp]:
  "on_table q (e\<lparr>e_wal := w\<rparr>) = on_table q e" "on_table q (e\<lparr>e_wal_seq := s\<rparr>) = on_table q e"
  "on_table q (e\<lparr>e_disk := d\<rparr>) = on_table q e" "on_table q (e\<lparr>e_clock := c\<rparr>) = on_table q e"
  by (simp_all add: on_table_def)

text \<open>The assertions below mention nothing that logging and checkpointing change.\<close>

definition log_frame :: "(Engine \<Rightarrow> bool) \<Rightarrow> bool" where
  "log_frame I \<longleftrightarrow> (\<forall>e x. I (e\<lparr>e_wal := x\<rparr>) = I e) \<and> (\<forall>e x. I (e\<lparr>e_wal_seq := x\<rparr>) = I e) \<and>
     (\<forall>e x. I (e\<lparr>e_disk := x\<rparr>) = I e) \<and> (\<forall>e x. I (e\<lparr>e_clock := x\<rparr>) = I e)"

lemma log_frameD:
  assumes "log_frame I"
  shows "I (e\<lparr>e_wal := w\<rparr>) = I e" "I (e\<lparr>e_wal_seq := s\<rparr>) = I e" "I (e\<lparr>e_disk := d\<rparr>) = I e" "I (e\<lparr>e_clock := c\<rparr>) = I e"
  using assms by (simp_all add: log_frame_def)

lemma log_frame_on_table [simp]: "log_frame (on_table q)"
  by (simp add: log_frame_def)

lemma log_frame_inv [simp]: "log_frame engine_inv"
  by (simp add: log_frame_def)

lemma keeps_write_wal [keeps_intros]: "log_frame I \<Longrightarrow> keeps I (write_wal opn table pl xid)"
  unfolding write_wal_def Let_def by (rule keeps_modM) (simp add: log_frameD)

lemma keeps_checkpoint [keeps_intros]: "log_frame I \<Longrightarrow> keeps I checkpoint"
  unfolding checkpoint_def Let_def
  by (intro keeps_intros keeps_modM keepsI)
    (auto simp: log_frameD bindM_def liftM_def modM_def split: sum.split)

lemma keeps_maybe_checkpoint [keeps_intros]: "log_frame I \<Longrightarrow> keeps I maybe_checkpoint"
  unfolding maybe_checkpoint_def by (intro keeps_intros) simp_all

end
