(* ===== verification/Recovery.thy ===== *)
theory Recovery
  imports Engine
begin

text \<open>
  Starting and stopping the engine: \<open>load\<close>, \<open>save\<close>, \<open>close\<close> and \<open>replay_record\<close> of
  \<open>storage/engine.cpp\<close>, and the crash of a process.
\<close>

section \<open>Replay\<close>

definition catalog_set :: "(Catalog \<Rightarrow> Catalog) \<Rightarrow> Engine \<Rightarrow> Engine" where
  "catalog_set f e = e\<lparr>e_catalog := f (e_catalog e)\<rparr>"

definition clog_set :: "TransactionId \<Rightarrow> TransactionStatus \<Rightarrow> unit meth" where
  "clog_set xid st = tm_do (\<lambda>t. t\<lparr>clog := set_status xid st (clog t)\<rparr>)"

text \<open>A record of a transaction counts only when the log already knows the commit.\<close>

definition replayable :: "TransactionId \<Rightarrow> Engine \<Rightarrow> bool" where
  "replayable xid e \<longleftrightarrow> xid = InvalidTransactionId \<or> get_status (clog (e_tm e)) xid = COMMITTED"

definition replay_insert :: "WALRecordV3 \<Rightarrow> InsertPayload \<Rightarrow> unit meth" where
  "replay_insert rec p = steps [put_row (w_table rec) (ip_rowid p) (ip_row p),
     update_indexes (w_table rec) (ip_rowid p) (ip_row p), modM (refresh_row_count (w_table rec))]
     (modM (\<lambda>e. set_row_id (w_table rec) (smax (row_id_of (w_table rec) e) (ip_rowid p)) e))"

definition replay_update :: "WALRecordV3 \<Rightarrow> UpdatePayload \<Rightarrow> unit meth" where
  "replay_update rec p = steps [put_row (w_table rec) (up_rowid p) (up_new_row p),
     bindM (getM id) (\<lambda>e. whenM (updates_affect_index e (w_table rec) (up_updates p)) (rebuild_indexes (w_table rec))),
     rebuild_indexes (w_table rec)] (modM (refresh_row_count (w_table rec)))"

definition replay_delete :: "WALRecordV3 \<Rightarrow> DeletePayload \<Rightarrow> unit meth" where
  "replay_delete rec p =
     (if dp_has_xmax p then
        bindM (getM (table_data (w_table rec))) (\<lambda>mt. case get_latest mt (dp_rowid p) of
          None \<Rightarrow> ret ()
        | Some t \<Rightarrow> bindM (to_row t) (\<lambda>r.
            put_row (w_table rec) (dp_rowid p) (omap_put ''_xmax'' (VInt (ucast (dp_xmax p))) r)))
      else steps [erase_rows (w_table rec) (dp_rowid p), rebuild_indexes (w_table rec)]
        (modM (refresh_row_count (w_table rec))))"

text \<open>The three data operations: filtered by transaction, then by table, then by payload.\<close>

definition replay_data :: "WALRecordV3 \<Rightarrow> 'p option \<Rightarrow> (WALRecordV3 \<Rightarrow> 'p \<Rightarrow> unit meth) \<Rightarrow> unit meth" where
  "replay_data rec p act = bindM (getM id) (\<lambda>e.
     if \<not> replayable (w_xid rec) e then ret ()
     else if map_of (e_data e) (w_table rec) = None then ret ()
     else (case p of None \<Rightarrow> ret () | Some p \<Rightarrow> act rec p))"

definition replay_create_table :: "WALRecordV3 \<Rightarrow> ColumnDef list \<Rightarrow> unit meth" where
  "replay_create_table rec cols = steps [modM (new_members (w_table rec)
       \<lparr>ts_name = w_table rec, ts_columns = cols, ts_row_count = 0\<rparr>)]
     (forM cols (\<lambda>c. whenM (cd_primary_key c) (create_index (w_table rec) (cd_name c))))"

text \<open>The guarded catalog calls.\<close>

definition replay_catalog :: "(Catalog \<Rightarrow> bool) \<Rightarrow> (Catalog \<Rightarrow> catalog_error + Catalog) \<Rightarrow> unit meth" where
  "replay_catalog b f = bindM (getM (\<lambda>e. b (e_catalog e))) (\<lambda>x. whenM x (catalog_do f))"

definition replay_record :: "WALRecordV3 \<Rightarrow> unit meth" where
  "replay_record rec = (case op_of_code (w_op rec) of
     kCreateDatabase \<Rightarrow> replay_catalog (\<lambda>c. \<not> database_exists c (w_table rec)) (create_database (w_table rec))
   | kDropDatabase \<Rightarrow> replay_catalog (\<lambda>c. database_exists c (w_table rec)) (drop_database (w_table rec))
   | kCreateSchema \<Rightarrow> (case wal_decode_create_schema (w_data rec) of None \<Rightarrow> ret ()
       | Some s \<Rightarrow> replay_catalog (\<lambda>c. \<not> schema_exists c (w_table rec) s) (create_schema (w_table rec) s))
   | kCreateUser \<Rightarrow> ret ()
   | kDropUser \<Rightarrow> replay_catalog (\<lambda>c. user_exists c (w_table rec)) (drop_user (w_table rec))
   | kCreateTable \<Rightarrow> (case wal_decode_create_table (w_data rec) of None \<Rightarrow> ret ()
       | Some cols \<Rightarrow> replay_create_table rec cols)
   | kDropTable \<Rightarrow> modM (drop_members (w_table rec))
   | kXactCommit \<Rightarrow> whenM (w_xid rec \<noteq> InvalidTransactionId) (clog_set (w_xid rec) COMMITTED)
   | kXactAbort \<Rightarrow> whenM (w_xid rec \<noteq> InvalidTransactionId) (clog_set (w_xid rec) ABORTED)
   | kInsert \<Rightarrow> replay_data rec (wal_decode_insert (w_data rec)) replay_insert
   | kUpdate \<Rightarrow> replay_data rec (wal_decode_update (w_data rec)) replay_update
   | kDelete \<Rightarrow> replay_data rec (wal_decode_delete (w_data rec)) replay_delete
   | kUnknown \<Rightarrow> ret ())"

section \<open>Load\<close>

text \<open>The catalog: the binary form, or the JSON form when there is none or it does not decode.\<close>

definition load_catalog :: "Checkpoint \<Rightarrow> bool meth" where
  "load_catalog ckp e =
     (let (res, c) = (if ck_catalog_bytes ckp \<noteq> [] then catalog_decode (ck_catalog_bytes ckp) (e_catalog e)
                      else (Inr False, e_catalog e));
          e = e\<lparr>e_catalog := c\<rparr>
      in case res of
           Inl x \<Rightarrow> (Inl (CatalogErr x), e)
         | Inr True \<Rightarrow> (Inr False, e)
         | Inr False \<Rightarrow>
             if ck_catalog_data ckp \<noteq> JNull \<and> j_contains (ck_catalog_data ckp) ''databases''
             then (let (ok, c) = catalog_from_json (ck_catalog_data ckp) (e_catalog e) in
               if ok then (Inr True, e\<lparr>e_catalog := c\<rparr>) else (Inl BadVariant, e\<lparr>e_catalog := c\<rparr>))
             else (Inr True, e))"

definition load_table :: "Checkpoint \<Rightarrow> bool \<Rightarrow> TableSchema \<Rightarrow> unit meth" where
  "load_table ckp is_old t =
     (let q = (if CHR ''.'' \<notin> set (ts_name t) \<and> is_old then ''defaultdb.public.'' @ ts_name t else ts_name t) in
      steps [modM (new_members q (t\<lparr>ts_name := q\<rparr>)),
        forM (omap_at [] (ck_table_rows ckp) (ts_name t)) (\<lambda>(rid, r). put_row q rid r),
        modM (\<lambda>e. case map_of (ck_row_id_counters ckp) (ts_name t) of None \<Rightarrow> e | Some i \<Rightarrow> set_row_id q i e)]
       (modM (\<lambda>e. case map_of (ck_indexes ckp) (ts_name t) of None \<Rightarrow> e | Some ixs \<Rightarrow> set_indexes q ixs e)))"

definition load_clog :: "Checkpoint \<Rightarrow> unit meth" where
  "load_clog ckp e =
     (if ck_clog_bytes ckp \<noteq> [] then
        (let c = snd (clog_decode (ck_clog_bytes ckp) (clog (e_tm e))) in (Inr (), set_tm ((e_tm e)\<lparr>clog := c\<rparr>) e))
      else if ck_clog_entries ckp \<noteq> JNull then
        (let (ok, c) = clog_from_json (ck_clog_entries ckp) (clog (e_tm e)); e = set_tm ((e_tm e)\<lparr>clog := c\<rparr>) e
         in if ok then (Inr (), e) else (Inl BadVariant, e))
      else (Inr (), e))"

definition replay_log :: "u64 \<Rightarrow> unit meth" where
  "replay_log from e = (let (rs, w) = wal_replay from (wal_do_open (e_wal e)) in forM rs replay_record (e\<lparr>e_wal := w\<rparr>))"

definition load_from :: "Checkpoint \<Rightarrow> unit meth" where
  "load_from ckp = seqM (modM (\<lambda>e. e\<lparr>e_wal_seq := ck_last_seq ckp\<rparr>))
     (bindM (load_catalog ckp) (\<lambda>is_old.
      steps [forM (ck_tables ckp) (load_table ckp is_old),
        whenM (FirstNormalTransactionId \<le> ck_next_xid ckp) (tm_do (set_next_xid (ck_next_xid ckp))),
        load_clog ckp, tm_do rebuild_active_from_clog, tm_do reset_context]
       (replay_log (ck_last_seq ckp))))"

definition eng_load :: "unit meth" where
  "eng_load = bindM (getM (\<lambda>e. ckp_load (e_disk e))) load_from"

section \<open>Save, close, crash\<close>

definition eng_save :: "unit meth" where
  "eng_save = checkpoint"

definition eng_close :: "unit meth" where
  "eng_close = seqM checkpoint (modM (\<lambda>e. e\<lparr>e_wal := wal_close (e_wal e)\<rparr>))"

text \<open>
  What a new process finds after this one died: the files, the log cut anywhere behind its last
  synchronised byte.
\<close>

definition reopen :: "nat \<Rightarrow> Engine \<Rightarrow> Engine" where
  "reopen n e = engine_new (e_disk e) (wal_file (crash n (e_wal e))) (e_interval e) (e_clock e)"

end
