(* ===== verification/Engine_Steps.thy ===== *)
theory Engine_Steps
  imports Engine_Invariant Recovery
begin

text \<open>
  The invariant through the statements of the methods, and through every method of the engine.
\<close>

section \<open>Working on one table\<close>

lemma bind_known [simp]:
  "bindM (ret x) f = f x" "bindM (throw err) f = throw err"
  "bindM (liftM h (Inr x)) f = f x" "bindM (liftM h (Inl y)) f = throw (h y)"
  by (simp_all add: bindM_def ret_def throw_def liftM_def fun_eq_iff)

text \<open>
  While a method works on the existing table \<open>q\<close>: the row ids \<open>R\<close> it has in hand are not above the
  counter, and \<open>P\<close> holds of the rows.
\<close>

definition table_inv :: "string \<Rightarrow> u64 set \<Rightarrow> (MemTable \<Rightarrow> bool) \<Rightarrow> Engine \<Rightarrow> bool" where
  "table_inv q R P e \<longleftrightarrow> engine_inv e \<and> has_key (e_data e) q \<and> (\<forall>i \<in> R. i \<le>s row_id_of q e) \<and> P (table_data q e)"

lemma table_inv_frame [simp]:
  "table_inv q R P (e\<lparr>e_wal := w\<rparr>) = table_inv q R P e" "table_inv q R P (e\<lparr>e_wal_seq := s\<rparr>) = table_inv q R P e"
  "table_inv q R P (e\<lparr>e_disk := d\<rparr>) = table_inv q R P e" "table_inv q R P (e\<lparr>e_clock := c\<rparr>) = table_inv q R P e"
  by (simp_all add: table_inv_def row_id_of_def table_data_def)

lemma log_frame_table_inv [simp]: "log_frame (table_inv q R P)"
  by (simp add: log_frame_def)

lemma table_inv_inv: "table_inv q R P e \<Longrightarrow> engine_inv e"
  by (simp add: table_inv_def)

lemma table_invI: "engine_inv e \<Longrightarrow> has_key (e_data e) q \<Longrightarrow> table_inv q {} (\<lambda>_. True) e"
  by (simp add: table_inv_def)

lemma table_inv_set_tm:
  "table_inv q R P e \<Longrightarrow> set (cx_undo_records (ctx t)) \<subseteq> set (undo_records e) \<Longrightarrow> table_inv q R P (set_tm t e)"
  by (simp add: table_inv_def inv_set_tm) (simp add: set_tm_def row_id_of_def table_data_def)

lemma keeps_tm_do:
  "(\<And>t. set (cx_undo_records (ctx (f t))) \<subseteq> set (cx_undo_records (ctx t))) \<Longrightarrow> keeps (table_inv q R P) (tm_do f)"
  unfolding tm_do_def by (rule keeps_modM) (simp add: table_inv_set_tm undo_records_def)

lemma keeps_register [keeps_intros]:
  "keeps (table_inv q R P) (tm_do (register_siread k))" "keeps (table_inv q R P) (tm_do (register_write k))"
  by (rule keeps_tm_do, simp)+

lemma keeps_add_undo [keeps_intros]:
  assumes "u_row_id rec \<in> R" "u_table_name rec = q"
  shows "keeps (table_inv q R P) (tm_do (add_undo_record rec))"
  unfolding tm_do_def
proof (rule keeps_modM)
  fix e
  assume "table_inv q R P e"
  with assms show "table_inv q R P (set_tm (add_undo_record rec (e_tm e)) e)"
    by (auto simp: table_inv_def engine_inv_def set_tm_def row_id_of_def table_data_def undo_records_def)
qed

lemma keeps_assign_xid [keeps_intros]: "keeps (table_inv q R P) assign_xid_m"
  by (rule keepsI)
    (auto simp: assign_xid_m_def undo_records_def table_inv_set_tm dest: undo_of_assign_xid split: prod.split sum.split)

lemma keeps_register_row [keeps_intros]: "keeps (table_inv q R P) (register_siread_row q' r)"
  unfolding register_siread_row_def by (auto intro: keeps_intros split: option.split)

lemma keeps_to_row [keeps_intros]: "keeps I (to_row t)"
  unfolding to_row_def by (rule keeps_intros)

lemma keeps_visible [keeps_intros]: "keeps I (visible r xid snap cid)"
  unfolding visible_def by (rule keeps_intros)

lemma keeps_get_rowid [keeps_intros]: "keeps I (get_rowid r)"
  unfolding get_rowid_def by (auto intro: keeps_intros split: option.split)

lemma table_inv_indexes: "table_inv q R P e \<Longrightarrow> has_key (e_data e) t \<Longrightarrow> table_inv q R P (set_indexes t ixs e)"
  by (auto simp: table_inv_def inv_set_indexes) (auto simp: set_indexes_def row_id_of_def table_data_def)

lemma keeps_rebuild [keeps_intros]: "keeps (table_inv q R P) (rebuild_indexes t)"
  unfolding rebuild_indexes_def
  by (rule keeps_get)
    (auto simp: seqM_def bindM_def modM_def ret_def throw_def has_key_def table_inv_indexes case_prod_beta
      split: option.split)

lemma keeps_update_indexes [keeps_intros]: "keeps (table_inv q R P) (update_indexes t i r)"
  unfolding update_indexes_def
proof (rule keeps_modM)
  fix e
  assume inv: "table_inv q R P e"
  show "table_inv q R P (case map_of (e_indexes e) t of None \<Rightarrow> e
      | Some ixs \<Rightarrow> set_indexes t (map (index_insert i r) ixs) e)"
  proof (cases "map_of (e_indexes e) t")
    case (Some ixs)
    then have "has_key (e_data e) t" using inv by (auto simp: table_inv_def engine_inv_def has_key_def)
    with inv Some show ?thesis by (simp add: table_inv_indexes)
  qed (simp add: inv)
qed

lemma keeps_refresh [keeps_intros]: "keeps (table_inv q R P) (modM (refresh_row_count t))"
  by (rule keeps_modM)
    (auto simp: table_inv_def inv_refresh, auto simp: refresh_row_count_def row_id_of_def table_data_def split: option.split)

section \<open>Writing rows\<close>

lemma make_tuple_row_id: "make_tuple q rid r = Inr t \<Longrightarrow> h_row_id (hdr t) = rid"
  by (cases "row_encode r") (auto simp: make_tuple_def row_to_tuple_def header_from_row_def)

lemma ids_below_put:
  assumes "mt_wf q mt" "get_latest mt rid = None" "h_row_id (hdr t) = rid" "ids_below mt n" "rid \<le>s n"
  shows "ids_below (mt_put rid t s mt) n"
  unfolding ids_below_def
proof
  fix x
  assume "x \<in> set (scan_all (mt_put rid t s mt))"
  then have "get_latest (mt_put rid t s mt) (h_row_id (hdr x)) = Some x"
    by (simp add: get_latest_iff [OF mt_wf_put [OF assms(1-3)]])
  with assms(3-5) show "h_row_id (hdr x) \<le>s n"
    by (auto simp: get_latest_put_fresh [OF assms(1,2)] get_latest_iff [OF assms(1)] ids_below_def split: if_splits)
qed

lemma ids_below_erase: "mt_wf q mt \<Longrightarrow> ids_below mt n \<Longrightarrow> ids_below (snd (erase_all_for rid mt)) n"
  by (auto simp: ids_below_def scan_all_def erase_all_for_eq)

lemma table_data_set [simp]: "omap_ok (e_data e) \<Longrightarrow> table_data q (set_data q mt e) = mt"
  by (simp add: table_data_def set_data_def omap_at_def)

lemma table_inv_set_data:
  assumes "table_inv q R P e" "mt_wf q mt" "ids_below mt (row_id_of q e)" "Q mt"
  shows "table_inv q R Q (set_data q mt e)"
  using assms inv_set_data [of e q mt]
  by (auto simp: table_inv_def engine_inv_def) (auto simp: set_data_def row_id_of_def has_key_def)

lemma table_inv_erase:
  assumes "table_inv q R P e"
  shows "table_inv q R (\<lambda>mt. get_latest mt rid = None) (set_data q (snd (erase_all_for rid (table_data q e))) e)"
proof -
  have "mt_wf q (table_data q e)" "ids_below (table_data q e) (row_id_of q e)"
    using assms inv_table [of e q] by (simp_all add: table_inv_def)
  then show ?thesis
    by (intro table_inv_set_data [OF assms] mt_wf_erase ids_below_erase) (simp_all add: get_latest_erase)
qed

lemma hoare_erase:
  "hoare (table_inv q R P) (erase_rows q rid) (\<lambda>_. table_inv q R (\<lambda>mt. get_latest mt rid = None)) (table_inv q R (\<lambda>_. True))"
  unfolding erase_rows_def by (rule hoare_mod) (rule table_inv_erase)

lemma keeps_erase [keeps_intros]: "keeps (table_inv q R (\<lambda>_. True)) (erase_rows q rid)"
  unfolding keeps_def by (rule hoare_weaken [OF hoare_erase]) (auto simp: table_inv_def)

lemma hoare_put:
  assumes "rid \<in> R"
  shows "hoare (table_inv q R (\<lambda>mt. get_latest mt rid = None)) (put_row q rid r)
    (\<lambda>_. table_inv q R (\<lambda>_. True)) (table_inv q R (\<lambda>_. True))"
  unfolding put_row_def Let_def
proof (rule hoare_bind [where R = "\<lambda>t e. table_inv q R (\<lambda>mt. get_latest mt rid = None) e \<and> h_row_id (hdr t) = rid"])
  show "hoare (table_inv q R (\<lambda>mt. get_latest mt rid = None)) (liftM RowErr (make_tuple q rid r))
     (\<lambda>t e. table_inv q R (\<lambda>mt. get_latest mt rid = None) e \<and> h_row_id (hdr t) = rid) (table_inv q R (\<lambda>_. True))"
    by (rule hoare_lift) (auto simp: make_tuple_row_id table_inv_def)
next
  fix t
  show "hoare (\<lambda>e. table_inv q R (\<lambda>mt. get_latest mt rid = None) e \<and> h_row_id (hdr t) = rid)
     (modM (\<lambda>e. set_data q (mt_put rid t (e_wal_seq e + 1) (table_data q e)) (e\<lparr>e_wal_seq := e_wal_seq e + 1\<rparr>)))
     (\<lambda>_. table_inv q R (\<lambda>_. True)) (table_inv q R (\<lambda>_. True))"
  proof (rule hoare_mod)
    fix e :: Engine
    let ?e = "e\<lparr>e_wal_seq := e_wal_seq e + 1\<rparr>"
    assume e: "table_inv q R (\<lambda>mt. get_latest mt rid = None) e \<and> h_row_id (hdr t) = rid"
    then have inv: "table_inv q R (\<lambda>mt. get_latest mt rid = None) ?e" and row: "h_row_id (hdr t) = rid" by simp_all
    then have wf: "mt_wf q (table_data q ?e)" "ids_below (table_data q ?e) (row_id_of q ?e)" "get_latest (table_data q ?e) rid = None"
      and le: "rid \<le>s row_id_of q ?e"
      using inv_table [of ?e q] assms by (simp_all only: table_inv_def)
    have "table_inv q R (\<lambda>_. True) (set_data q (mt_put rid t s (table_data q ?e)) ?e)" for s
      by (intro table_inv_set_data [OF inv] mt_wf_put ids_below_put [OF wf(1)] wf row le TrueI)
    then show "table_inv q R (\<lambda>_. True) (set_data q (mt_put rid t (e_wal_seq e + 1) (table_data q e)) ?e)"
      by (simp add: table_data_def)
  qed
qed

text \<open>Erasing a row and putting a new version of it.\<close>

lemma keeps_replace [keeps_intros]: "rid \<in> R \<Longrightarrow> keeps (table_inv q R (\<lambda>_. True)) (replace_row q rid r)"
  unfolding keeps_def replace_row_def by (rule hoare_seq [OF hoare_erase hoare_put])

section \<open>Loops over the rows of a scan\<close>

lemma row_id_of_row: "tuple_to_row_for_visibility t = Inr r \<Longrightarrow> row_int r ''_rowid'' = Some (h_row_id (hdr t))"
  by (cases "tuple_to_row t") (auto simp: tuple_to_row_for_visibility_def)

lemma keeps_lift_then: "(\<And>v. x = Inr v \<Longrightarrow> keeps I (f v)) \<Longrightarrow> keeps I (bindM (liftM err x) f)"
  by (cases x) (auto intro: keeps_throw)

lemma keeps_row_then:
  "(\<And>r. row_int r ''_rowid'' = Some (h_row_id (hdr t)) \<Longrightarrow> keeps I (f r)) \<Longrightarrow> keeps I (bindM (to_row t) f)"
  unfolding to_row_def by (rule keeps_lift_then) (simp add: row_id_of_row)

lemma get_rowid_known [simp]: "row_int r ''_rowid'' = Some i \<Longrightarrow> get_rowid r = ret i"
  by (simp add: get_rowid_def)

lemma mapE_Inr: "mapE f xs = Inr ys \<Longrightarrow> y \<in> set ys \<Longrightarrow> \<exists>x \<in> set xs. f x = Inr y"
proof (induction xs arbitrary: ys)
  case (Cons x xs)
  then show ?case by (cases "f x"; cases "mapE f xs") auto
qed simp

definition row_ids :: "Tuple list \<Rightarrow> u64 set" where
  "row_ids tups = (\<lambda>t. h_row_id (hdr t)) ` set tups"

lemma row_idsI: "t \<in> set tups \<Longrightarrow> h_row_id (hdr t) \<in> row_ids tups"
  by (simp add: row_ids_def)

lemma materialized_row_id:
  "materialize_all mt = Inr rs \<Longrightarrow> r \<in> set rs \<Longrightarrow> \<exists>i \<in> row_ids (scan_all mt). row_int r ''_rowid'' = Some i"
  by (auto simp: materialize_all_def row_ids_def dest!: mapE_Inr row_id_of_row)

lemma keeps_for_matching:
  assumes "\<And>t r. t \<in> set tups \<Longrightarrow> row_int r ''_rowid'' = Some (h_row_id (hdr t)) \<Longrightarrow> keeps I (act r)"
  shows "keeps I (for_matching xid snap cid matches act tups)"
  unfolding for_matching_def using assms by (auto intro!: keeps_foldM keeps_row_then keeps_bind keeps_visible keeps_if keeps_seq keeps_ret)

lemma keeps_visible_rows [keeps_intros]: "keeps (table_inv q R P) (visible_rows q' snap xid cid tups)"
  unfolding visible_rows_def by (auto intro!: keeps_intros)

text \<open>What a method on an existing table may assume.\<close>

lemma on_existing_table:
  assumes "engine_inv e" "map_of (e_data e) q = Some mt"
  shows "table_inv q (row_ids (scan_all mt)) (\<lambda>_. True) e"
proof -
  have "table_data q e = mt" "has_key (e_data e) q" using assms(2) by (auto simp: table_data_def omap_at_def has_key_def)
  with inv_table(2) [of e q] assms(1) show ?thesis by (auto simp: table_inv_def row_ids_def ids_below_def)
qed

lemma keeps_engineI:
  assumes "engine_inv e" "map_of (e_data e) q = Some mt" "keeps (table_inv q (row_ids (scan_all mt)) (\<lambda>_. True)) m"
  shows "engine_inv (snd (m e))"
  using keepsD [OF assms(3) on_existing_table [OF assms(1,2)]] by (rule table_inv_inv)

section \<open>Plain data operations\<close>

lemma schema_has_data: "engine_inv e \<Longrightarrow> map_of (e_tables e) q = Some s \<Longrightarrow> has_key (e_data e) q"
  by (auto simp: engine_inv_def has_key_def)

lemma sless_next:
  fixes a :: u64
  assumes "a \<noteq> 2 ^ 63 - 1"
  shows "a <s a + 1"
proof -
  have b: "- (2 ^ 63) \<le> sint a" "sint a < 2 ^ 63" using sint_ge [of a] sint_lt [of a] by simp_all
  have "sint a \<noteq> 2 ^ 63 - 1"
  proof
    assume "sint a = 2 ^ 63 - 1"
    then have "sint a = sint (2 ^ 63 - 1 :: u64)" by simp
    with assms show False by (simp only: word_eq_iff_signed [symmetric])
  qed
  with b have "signed_take_bit 63 (sint a + 1) = sint a + 1" by (intro signed_take_bit_int_eq_self) auto
  then have "sint (a + 1) = sint a + 1" by (simp add: sint_word_ariths)
  then show ?thesis by (simp add: word_sless_alt)
qed

definition fresh_at :: "string \<Rightarrow> u64 \<Rightarrow> Engine \<Rightarrow> bool" where
  "fresh_at q i = table_inv q {i} (\<lambda>mt. get_latest mt i = None)"

lemma fresh_row_id:
  assumes inv: "engine_inv e" and q: "has_key (e_data e) q" and max: "row_id_of q e \<noteq> 2 ^ 63 - 1"
  shows "fresh_at q (row_id_of q e + 1) (set_row_id q (row_id_of q e + 1) e)"
proof -
  let ?i = "row_id_of q e + 1"
  have lt: "row_id_of q e <s ?i" by (rule sless_next [OF max])
  have "h_row_id (hdr t) \<noteq> ?i" if "t \<in> set (scan_all (table_data q e))" for t
    using inv_table(2) [OF inv q] that lt by (auto simp: ids_below_def)
  then have "get_latest (table_data q e) ?i = None"
    using get_latest_iff [OF inv_table(1) [OF inv q], of ?i] by (cases "get_latest (table_data q e) ?i") auto
  moreover have "engine_inv (set_row_id q ?i e)"
    using inv q lt by (intro inv_set_row_id) (simp_all add: signed.less_imp_le)
  ultimately show ?thesis
    using q inv by (simp add: fresh_at_def table_inv_def engine_inv_def)
      (simp add: set_row_id_def row_id_of_def table_data_def omap_at_def)
qed

lemma keeps_fresh_put: "hoare (fresh_at q i) (put_row q i r) (\<lambda>_. table_inv q {i} (\<lambda>_. True)) (table_inv q {i} (\<lambda>_. True))"
  unfolding fresh_at_def by (rule hoare_put) simp

lemma fresh_at_drop: "fresh_at q i e \<Longrightarrow> table_inv q {i} (\<lambda>_. True) e"
  by (simp add: fresh_at_def table_inv_def)

text \<open>The end of both inserts.\<close>

lemma hoare_insert_tail:
  "hoare (fresh_at q i) (steps [put_row q i v, update_indexes q i v, modM (refresh_row_count q), maybe_checkpoint] (ret x))
    (\<lambda>_. engine_inv) engine_inv"
proof -
  have "hoare (fresh_at q i) (steps [put_row q i v, update_indexes q i v, modM (refresh_row_count q), maybe_checkpoint] (ret x))
    (\<lambda>_. table_inv q {i} (\<lambda>_. True)) (table_inv q {i} (\<lambda>_. True))"
    unfolding steps.simps
    by (rule hoare_seq [OF keeps_fresh_put]) (auto intro!: keeps_intros simp: keeps_def [symmetric])
  then show ?thesis by (rule hoare_weaken) (auto intro: table_inv_inv)
qed

lemma hoare_fresh_wal: "hoare (fresh_at q i) (write_wal opn t pl xid) (\<lambda>_. fresh_at q i) engine_inv"
  by (rule hoare_keeps [where I = "fresh_at q i"]) (auto simp: fresh_at_def intro: keeps_intros table_inv_inv)

lemma insert_row_inv:
  "hoare (\<lambda>e. engine_inv e \<and> row_id_of (resolve_table_name e table) e \<noteq> 2 ^ 63 - 1) (insert_row table r)
    (\<lambda>_. engine_inv) engine_inv"
  unfolding insert_row_def
proof (rule hoare_get, unfold id_def)
  fix e0
  let ?q = "resolve_table_name e0 table"
  let ?P = "\<lambda>e. (engine_inv e \<and> row_id_of (resolve_table_name e table) e \<noteq> 2 ^ 63 - 1) \<and> e = e0"
  show "hoare ?P (let q = ?q in case map_of (e_tables e0) q of None \<Rightarrow> throw (NoTable table)
     | Some schema \<Rightarrow> bindM (liftM (\<lambda>x. x) (validate e0 schema r)) (\<lambda>v.
         let rid = row_id_of q e0 + 1;
             v = omap_put ''_cid'' (VInt 0) (omap_put ''_xmax'' (VInt 0) (omap_put ''_rowid'' (VInt rid) v))
         in steps [modM (set_row_id q rid),
              write_wal kInsert q (wal_encode_insert \<lparr>ip_rowid = rid, ip_row = v\<rparr>) 0,
              put_row q rid v, update_indexes q rid v, modM (refresh_row_count q), maybe_checkpoint] (ret v)))
     (\<lambda>_. engine_inv) engine_inv"
  proof (cases "map_of (e_tables e0) ?q")
    case (Some schema)
    show ?thesis
    proof (cases "validate e0 schema r")
      case (Inr v)
      have "hoare ?P (modM (set_row_id ?q (row_id_of ?q e0 + 1))) (\<lambda>_. fresh_at ?q (row_id_of ?q e0 + 1)) engine_inv"
        by (rule hoare_mod) (use Some fresh_row_id [of e0 ?q] in \<open>auto dest: schema_has_data\<close>)
      note hoare_seq [OF this hoare_seq [OF hoare_fresh_wal hoare_insert_tail]]
      with Some Inr show ?thesis by (simp add: Let_def)
    qed (use Some in \<open>auto simp: Let_def intro: hoare_throw\<close>)
  qed (auto intro: hoare_throw)
qed

lemma keeps_on_table:
  assumes "\<And>e mt. map_of (e_data e) (resolve_table_name e table) = Some mt \<Longrightarrow>
    mt_wf (resolve_table_name e table) mt \<Longrightarrow> keeps (table_inv (resolve_table_name e table) (row_ids (scan_all mt)) (\<lambda>_. True)) (f (resolve_table_name e table) mt e)"
  shows "keeps engine_inv (bindM (getM id) (\<lambda>e. let q = resolve_table_name e table in
     case map_of (e_data e) q of None \<Rightarrow> throw (NoTable table) | Some mt \<Rightarrow> f q mt e))"
proof (rule keeps_get)
  fix e
  let ?q = "resolve_table_name e table"
  assume inv: "engine_inv e"
  show "engine_inv (snd ((let q = resolve_table_name e table in
     case map_of (e_data e) q of None \<Rightarrow> throw (NoTable table) | Some mt \<Rightarrow> f q mt e) e))"
  proof (cases "map_of (e_data e) ?q")
    case (Some mt)
    then have "mt_wf ?q mt" using inv by (simp add: engine_inv_def)
    from keeps_engineI [OF inv Some assms [OF Some this]] Some show ?thesis by (simp add: Let_def)
  qed (simp add: throw_def inv Let_def)
qed

lemma update_rows_inv: "keeps engine_inv (update_rows table matches updates)"
  unfolding update_rows_def
proof (rule keeps_on_table, goal_cases)
  case (1 e mt)
  let ?q = "resolve_table_name e table"
  have row: "keeps (table_inv ?q (row_ids (scan_all mt)) (\<lambda>_. True))
      (bindM (get_rowid r) (\<lambda>rowid. let r = f r in steps [write_wal kUpdate ?q (pl rowid r) 0, replace_row ?q rowid r] (ret (c + 1))))"
    if mr: "materialize_all mt = Inr rs" "r \<in> set rs" for rs r f pl and c :: nat
  proof -
    obtain i where "i \<in> row_ids (scan_all mt)" "row_int r ''_rowid'' = Some i" using materialized_row_id [OF mr] by blast
    then show ?thesis by (simp add: Let_def) (intro keeps_intros; simp)
  qed
  show ?case
    by (rule keeps_lift_then) (auto intro!: keeps_intros row)
qed

lemma inv_has_index: "engine_inv e \<Longrightarrow> map_of (e_indexes e) q = Some ixs \<Longrightarrow> has_key (e_data e) q"
  by (auto simp: engine_inv_def has_key_def)

lemma create_index_inv [keeps_intros]: "keeps engine_inv (create_index table column)"
  unfolding create_index_def
  by (rule keeps_get) (auto simp: Let_def ret_def throw_def modM_def case_prod_beta
    split: option.split intro!: inv_set_indexes dest: inv_has_index)

text \<open>Deleting rows: what is written to the new MemTable.\<close>

lemma refill_wf:
  assumes "refill q del rs mt s = (Inr mt', s')" "mt_wf q mt"
    and "distinct (map (\<lambda>r. row_int r ''_rowid'') rs)"
    and "\<And>r i. r \<in> set rs \<Longrightarrow> row_int r ''_rowid'' = Some i \<Longrightarrow> get_latest mt i = None"
  shows "mt_wf q mt' \<and> (\<forall>i. get_latest mt' i \<noteq> None \<longrightarrow> get_latest mt i \<noteq> None \<or> (\<exists>r \<in> set rs. row_int r ''_rowid'' = Some i))"
  using assms
proof (induction rs arbitrary: mt s)
  case (Cons r rs)
  obtain i where i: "row_int r ''_rowid'' = Some i" using Cons.prems(1) by (cases "row_int r ''_rowid''") auto
  show ?case
  proof (cases "i \<in> set del")
    case True
    then have "refill q del rs mt s = (Inr mt', s')" using Cons.prems(1) i by simp
    then have "mt_wf q mt' \<and> (\<forall>i. get_latest mt' i \<noteq> None \<longrightarrow> get_latest mt i \<noteq> None \<or> (\<exists>r \<in> set rs. row_int r ''_rowid'' = Some i))"
      by (rule Cons.IH [OF _ Cons.prems(2)]) (use Cons.prems(3,4) in auto)
    then show ?thesis by (metis list.set_intros(2))
  next
    case False
    then obtain t where t: "make_tuple q i r = Inr t" and rest: "refill q del rs (mt_put i t (s + 1) mt) (s + 1) = (Inr mt', s')"
      using Cons.prems(1) i by (cases "make_tuple q i r") simp_all
    have none: "get_latest mt i = None" using Cons.prems(4) [of r i] i by simp
    have fresh: "row_int r' ''_rowid'' \<noteq> Some i" if "r' \<in> set rs" for r'
      using Cons.prems(3) i that by (metis (no_types, lifting) distinct.simps(2) image_eqI list.set_map list.simps(9))
    note t_id = make_tuple_row_id [OF t]
    have gl: "get_latest (mt_put i t (s + 1) mt) = (get_latest mt)(i \<mapsto> stored t)"
      by (rule get_latest_put_fresh [OF Cons.prems(2) none])
    have other: "get_latest (mt_put i t (s + 1) mt) j = None" if "r' \<in> set rs" "row_int r' ''_rowid'' = Some j" for r' j
      using that fresh [of r'] Cons.prems(4) [of r' j] gl by auto
    have "mt_wf q mt' \<and> (\<forall>j. get_latest mt' j \<noteq> None \<longrightarrow> get_latest (mt_put i t (s + 1) mt) j \<noteq> None \<or>
        (\<exists>r \<in> set rs. row_int r ''_rowid'' = Some j))"
      using Cons.prems(3) by (intro Cons.IH [OF rest mt_wf_put [OF Cons.prems(2) none t_id]] other) simp_all
    then show ?thesis using gl i by (metis fun_upd_apply list.set_intros)
  qed
qed simp

lemma materialized_row_ids:
  "mapE tuple_to_row_for_visibility ts = Inr rs \<Longrightarrow> map (\<lambda>r. row_int r ''_rowid'') rs = map (\<lambda>t. Some (h_row_id (hdr t))) ts"
proof (induction ts arbitrary: rs)
  case (Cons t ts)
  then show ?case
    by (cases "tuple_to_row_for_visibility t"; cases "mapE tuple_to_row_for_visibility ts") (auto simp: row_id_of_row)
qed simp

lemma distinct_materialized:
  assumes "mt_wf q mt" "materialize_all mt = Inr rs"
  shows "distinct (map (\<lambda>r. row_int r ''_rowid'') rs)"
  using materialized_row_ids [of "scan_all mt" rs] assms(2) rs.scan_distinct [OF assms(1)]
  by (simp add: materialize_all_def distinct_map inj_on_def)

lemma ids_below_lookup:
  "mt_wf q mt \<Longrightarrow> (\<And>i. get_latest mt i \<noteq> None \<Longrightarrow> i \<le>s n) \<Longrightarrow> ids_below mt n"
  using get_latest_iff [of q mt] unfolding ids_below_def by (metis option.distinct(1))

lemma keeps_refill:
  assumes "mt_wf q mt" "materialize_all mt = Inr rs"
  shows "keeps (table_inv q (row_ids (scan_all mt)) (\<lambda>_. True)) (refill_table q del rs)"
proof (rule keepsI)
  fix e
  assume inv: "table_inv q (row_ids (scan_all mt)) (\<lambda>_. True) e"
  show "table_inv q (row_ids (scan_all mt)) (\<lambda>_. True) (snd (refill_table q del rs e))"
  proof (cases "refill q del rs (mt_new q) (e_wal_seq e)")
    case (Pair res s)
    show ?thesis
    proof (cases res)
      case (Inl x)
      then show ?thesis using Pair inv by (simp add: refill_table_def)
    next
      case (Inr mt')
      let ?e = "e\<lparr>e_wal_seq := s\<rparr>"
      have wf: "mt_wf q mt'" and ids: "\<And>i. get_latest mt' i \<noteq> None \<Longrightarrow> \<exists>r \<in> set rs. row_int r ''_rowid'' = Some i"
        using refill_wf [OF _ mt_wf_new distinct_materialized [OF assms]] Pair Inr by auto
      have "i \<le>s row_id_of q ?e" if "get_latest mt' i \<noteq> None" for i
        using ids [OF that] materialized_row_id [OF assms(2)] inv by (fastforce simp: table_inv_def row_id_of_def)
      then have "ids_below mt' (row_id_of q ?e)" by (rule ids_below_lookup [OF wf])
      then have "table_inv q (row_ids (scan_all mt)) (\<lambda>_. True) (set_data q mt' ?e)"
        using inv by (intro table_inv_set_data wf) simp_all
      then show ?thesis using Pair Inr by (simp add: refill_table_def)
    qed
  qed
qed

lemma remove_rows_inv: "keeps engine_inv (remove_rows table matches)"
  unfolding remove_rows_def
proof (rule keeps_on_table, goal_cases)
  case (1 e mt)
  let ?q = "resolve_table_name e table"
  show ?case
    by (rule keeps_lift_then) (auto intro!: keeps_intros keeps_refill 1(2))
qed

section \<open>Transactional data operations\<close>

lemma keeps_insert_pk_check [keeps_intros]: "keeps (table_inv q R P) (insert_pk_check q' xid snap cid v cols tups)"
  unfolding insert_pk_check_def by (auto intro!: keeps_intros split: bool.split option.split)

lemma keeps_update_pk_check [keeps_intros]: "keeps (table_inv q R P) (update_pk_check q' i xid snap cid u tups)"
  unfolding update_pk_check_def by (auto intro!: keeps_intros split: bool.split option.split)

lemma hoare_fresh: "keeps (fresh_at q i) m \<Longrightarrow> hoare (fresh_at q i) m (\<lambda>_. fresh_at q i) engine_inv"
  by (erule hoare_keeps) (auto simp: fresh_at_def intro: table_inv_inv)

lemma hoare_insert_txn_tail:
  assumes "\<And>xid tm. u_row_id (rec xid tm) = i \<and> u_table_name (rec xid tm) = q"
  shows "hoare (fresh_at q i) (bindM assign_xid_m (\<lambda>xid. bindM (getM e_tm) (\<lambda>tm.
      steps [insert_pk_check q xid (snap tm) (cid tm) (v xid tm) cols tups, tm_do (add_undo_record (rec xid tm)),
        write_wal kInsert q (pl xid tm) xid, put_row q i (v xid tm), update_indexes q i (v xid tm),
        modM (refresh_row_count q), maybe_checkpoint] (ret (v xid tm))))) (\<lambda>_. engine_inv) engine_inv"
  unfolding steps.simps
  by (intro hoare_bind [OF hoare_fresh] hoare_seq [OF hoare_fresh] hoare_insert_tail [unfolded steps.simps])
    (auto simp: assms fresh_at_def intro!: keeps_intros)

lemma insert_with_txn_inv:
  "hoare (\<lambda>e. engine_inv e \<and> row_id_of (resolve_table_name e table) e \<noteq> 2 ^ 63 - 1) (insert_with_txn table r)
    (\<lambda>_. engine_inv) engine_inv"
  unfolding insert_with_txn_def
proof (rule hoare_get, goal_cases)
  case (1 e0)
  let ?q = "resolve_table_name e0 table"
  let ?P = "\<lambda>e. (engine_inv e \<and> row_id_of (resolve_table_name e table) e \<noteq> 2 ^ 63 - 1) \<and> e = e0"
  show ?case
  proof (cases "map_of (e_tables e0) ?q")
    case (Some schema)
    show ?thesis
    proof (cases "validate e0 schema r")
      case (Inr v)
      have "hoare ?P (modM (set_row_id ?q (row_id_of ?q e0 + 1))) (\<lambda>_. fresh_at ?q (row_id_of ?q e0 + 1)) engine_inv"
        by (rule hoare_mod) (use Some fresh_row_id [of e0 ?q] in \<open>auto dest: schema_has_data\<close>)
      from hoare_seq [OF this hoare_insert_txn_tail] Some Inr show ?thesis by (simp add: Let_def del: steps.simps)
    qed (use Some in \<open>auto simp: Let_def intro: hoare_throw\<close>)
  qed (auto intro: hoare_throw)
qed

lemma update_one_inv:
  assumes "i \<in> R" "row_int r ''_rowid'' = Some i"
  shows "keeps (table_inv q R (\<lambda>_. True)) (update_one q xid snap cid updates tups r)"
  using assms by (simp add: update_one_def Let_def) (intro keeps_intros; simp)

lemma remove_one_inv:
  assumes "i \<in> R" "row_int r ''_rowid'' = Some i"
  shows "keeps (table_inv q R (\<lambda>_. True)) (remove_one q xid cid r)"
  using assms by (simp add: remove_one_def Let_def) (intro keeps_intros; simp)

lemma update_with_txn_inv: "keeps engine_inv (update_with_txn table matches updates)"
  unfolding update_with_txn_def
proof (rule keeps_on_table, goal_cases)
  case (1 e mt)
  show ?case by (auto simp: Let_def row_idsI intro!: keeps_intros keeps_for_matching update_one_inv)
qed

lemma remove_with_txn_inv: "keeps engine_inv (remove_with_txn table matches)"
  unfolding remove_with_txn_def
proof (rule keeps_on_table, goal_cases)
  case (1 e mt)
  show ?case by (auto simp: Let_def row_idsI intro!: keeps_intros keeps_for_matching remove_one_inv)
qed

section \<open>Undo\<close>

text \<open>Statements on rows and indexes leave the transaction manager and the set of tables alone.\<close>

definition context_inv :: "UndoRecord set \<Rightarrow> string set \<Rightarrow> Engine \<Rightarrow> bool" where
  "context_inv recs Q e \<longleftrightarrow> recs \<subseteq> set (undo_records e) \<and> (\<forall>q \<in> Q. has_key (e_data e) q)"

lemma context_inv_set [simp]:
  "context_inv recs Q e \<Longrightarrow> context_inv recs Q (set_data q mt e)"
  "context_inv recs Q (set_indexes q ixs e) = context_inv recs Q e"
  "context_inv recs Q (refresh_row_count q e) = context_inv recs Q e"
  "context_inv recs Q (e\<lparr>e_wal_seq := s\<rparr>) = context_inv recs Q e"
  by (auto simp: context_inv_def undo_records_def set_data_def set_indexes_def refresh_row_count_def split: option.split)

lemma keeps_context [keeps_intros]:
  "keeps (context_inv recs Q) (erase_rows q i)"
  "keeps (context_inv recs Q) (put_row q i r)"
  "keeps (context_inv recs Q) (replace_row q i r)"
  "keeps (context_inv recs Q) (modM (refresh_row_count q))"
proof -
  show e: "keeps (context_inv recs Q) (erase_rows q i)"
    unfolding erase_rows_def by (rule keeps_modM) simp
  show p: "keeps (context_inv recs Q) (put_row q i r)"
    unfolding put_row_def by (intro keeps_intros keeps_modM) (simp add: Let_def)
  show "keeps (context_inv recs Q) (replace_row q i r)"
    unfolding replace_row_def by (intro keeps_intros e p)
  show "keeps (context_inv recs Q) (modM (refresh_row_count q))" by (rule keeps_modM) simp
qed

lemma keeps_context_rebuild [keeps_intros]: "keeps (context_inv recs Q) (rebuild_indexes t)"
  unfolding rebuild_indexes_def
  by (rule keeps_get) (auto simp: seqM_def bindM_def modM_def ret_def throw_def case_prod_beta split: option.split)

definition method_inv :: "UndoRecord set \<Rightarrow> string set \<Rightarrow> Engine \<Rightarrow> bool" where
  "method_inv recs Q e \<longleftrightarrow> engine_inv e \<and> context_inv recs Q e"

lemma method_invI:
  assumes "table_inv q R (\<lambda>_. True) e" "context_inv recs Q e"
    and "keeps (table_inv q R (\<lambda>_. True)) m" "keeps (context_inv recs Q) m"
  shows "method_inv recs Q (snd (m e))"
  using keepsD [OF assms(3,1)] keepsD [OF assms(4,2)] by (simp add: method_inv_def table_inv_inv)

lemma keeps_method_rebuild [keeps_intros]: "keeps (method_inv recs Q) (rebuild_indexes t)"
proof (rule keepsI)
  fix e
  assume e: "method_inv recs Q e"
  show "method_inv recs Q (snd (rebuild_indexes t e))"
  proof (cases "map_of (e_data e) t")
    case (Some mt)
    then show ?thesis
      using e on_existing_table [of e t mt] by (intro method_invI keeps_intros) (auto simp: method_inv_def)
  qed (use e in \<open>auto simp: rebuild_indexes_def bindM_def getM_def ret_def split: option.split\<close>)
qed

lemma keeps_undo_record [keeps_intros]:
  assumes "rec \<in> recs"
  shows "keeps (method_inv recs Q) (apply_undo_record rec)"
proof (rule keepsI)
  fix e
  let ?q = "u_table_name rec"
  assume e: "method_inv recs Q e"
  show "method_inv recs Q (snd (apply_undo_record rec e))"
  proof (cases "map_of (e_data e) ?q")
    case (Some mt)
    have "table_inv ?q {u_row_id rec} (\<lambda>_. True) e"
      using e assms Some by (auto simp: method_inv_def context_inv_def engine_inv_def table_inv_def has_key_def)
    then have "method_inv recs Q (snd ((if u_op rec = UndoInsert \<or> u_old_row rec = [] then seqM (erase_rows ?q (u_row_id rec)) (ret ())
        else replace_row ?q (u_row_id rec) (u_old_row rec)) e))"
      using e by (intro method_invI) (auto simp: method_inv_def intro!: keeps_intros)
    then show ?thesis using Some by (auto simp: apply_undo_record_def bindM_def getM_def replace_row_def split: if_splits)
  qed (use e in \<open>simp add: apply_undo_record_def bindM_def getM_def ret_def\<close>)
qed

lemma keeps_undo_list: "set rs \<subseteq> recs \<Longrightarrow> keeps (method_inv recs Q) (undo_list rs)"
  unfolding undo_list_def by (auto intro!: keeps_intros)

lemma apply_undo_inv: "keeps engine_inv apply_undo" "keeps engine_inv (apply_undo_to n)"
proof -
  have "engine_inv (snd (undo_list rs e))" if "engine_inv e" "set rs \<subseteq> set (undo_records e)" for rs e
    using keepsD [OF keeps_undo_list [OF subset_refl], of rs "{}" e] that by (simp add: method_inv_def context_inv_def)
  then show "keeps engine_inv apply_undo" "keeps engine_inv (apply_undo_to n)"
    by (auto intro!: keepsI simp: apply_undo_def apply_undo_to_def bindM_def getM_def undo_records_def Let_def set_drop_subset)
qed

section \<open>Vacuum\<close>

lemma keeps_freeze_row:
  assumes "i \<in> R"
  shows "keeps (table_inv q R (\<lambda>_. True)) (freeze_row q i)" "keeps (context_inv recs Q) (freeze_row q i)"
  unfolding freeze_row_def using assms by (auto simp: Let_def intro!: keeps_intros split: option.split)

lemma keeps_vacuum_table:
  assumes "q \<in> Q"
  shows "keeps (method_inv recs Q) (vacuum_table cl oldest q)"
proof (rule keepsI)
  fix e
  assume e: "method_inv recs Q e"
  then obtain mt where mt: "map_of (e_data e) q = Some mt" "table_data q e = mt"
    using assms by (auto simp: method_inv_def context_inv_def has_key_def table_data_def omap_at_def)
  let ?choose = "mapE (\<lambda>t. bindE (tuple_to_row_for_visibility t) (\<lambda>r. Inr (h_row_id (hdr t), vacuum_choice_of cl oldest r))) (scan_all mt)"
  have choice: "fst c \<in> row_ids (scan_all mt)" if cs: "?choose = Inr cs" "c \<in> set cs" for cs c
  proof -
    obtain t where "t \<in> set (scan_all mt)" "bindE (tuple_to_row_for_visibility t) (\<lambda>r. Inr (h_row_id (hdr t), vacuum_choice_of cl oldest r)) = Inr c"
      using mapE_Inr [OF cs] by blast
    then show ?thesis by (cases "tuple_to_row_for_visibility t") (auto simp: row_ids_def)
  qed
  have body: "keeps I (bindM (liftM RowErr ?choose) (\<lambda>choices. steps
      [forM (sort_unique (map fst (filter (\<lambda>(_, c). c = Erase) choices))) (erase_rows q),
       forM (sort_unique (map fst (filter (\<lambda>(_, c). c = Freeze) choices))) (freeze_row q), modM (refresh_row_count q),
       bindM (getM id) (\<lambda>e. whenM (mt_size mt \<noteq> mt_size (table_data q e)) (rebuild_indexes q))]
      (ret (length (sort_unique (map fst (filter (\<lambda>(_, c). c = Erase) choices)))))))"
    if "\<And>i. keeps I (erase_rows q i)" "\<And>i. i \<in> row_ids (scan_all mt) \<Longrightarrow> keeps I (freeze_row q i)"
      "keeps I (modM (refresh_row_count q))" "keeps I (rebuild_indexes q)" for I
    by (rule keeps_lift_then) (auto simp: sort_unique_def dest: choice intro!: keeps_intros that)
  have "method_inv recs Q (snd (bindM (liftM RowErr ?choose) (\<lambda>choices. steps
      [forM (sort_unique (map fst (filter (\<lambda>(_, c). c = Erase) choices))) (erase_rows q),
       forM (sort_unique (map fst (filter (\<lambda>(_, c). c = Freeze) choices))) (freeze_row q), modM (refresh_row_count q),
       bindM (getM id) (\<lambda>e. whenM (mt_size mt \<noteq> mt_size (table_data q e)) (rebuild_indexes q))]
      (ret (length (sort_unique (map fst (filter (\<lambda>(_, c). c = Erase) choices)))))) e))"
    using e mt(1)
    by (intro method_invI [where q = q and R = "row_ids (scan_all mt)"] body keeps_freeze_row keeps_intros on_existing_table)
      (auto simp: method_inv_def)
  then show "method_inv recs Q (snd (vacuum_table cl oldest q e))"
    by (simp add: vacuum_table_def bindM_def [of "getM id"] getM_def Let_def mt(2))
qed

lemma vacuum_inv: "keeps engine_inv vacuum"
proof -
  have "keeps (method_inv {} (set (map fst (e_data e)))) (bindM
      (foldM (\<lambda>q n. bindM (vacuum_table cl oldest q) (\<lambda>k. ret (n + k))) (map fst (e_data e)) 0) (\<lambda>total.
      steps [tm_do (\<lambda>t. fst (maybe_anti_wraparound t))] (ret total)))" for e cl oldest
  proof -
    have "keeps (method_inv {} Q) (tm_do (\<lambda>t. fst (maybe_anti_wraparound t)))" for Q
      unfolding tm_do_def
      by (rule keeps_modM) (simp add: method_inv_def context_inv_def inv_set_tm undo_records_def, simp add: set_tm_def)
    then show ?thesis by (auto intro!: keeps_intros keeps_vacuum_table)
  qed
  note run = keepsD [OF this]
  have start: "method_inv {} (set (map fst (e_data e))) e" if "engine_inv e" for e
    using that by (auto simp: method_inv_def context_inv_def has_key_def map_of_eq_None_iff image_iff)
  show ?thesis
    unfolding vacuum_def using run [OF start]
    by (intro keeps_get) (simp add: method_inv_def)
qed

section \<open>Schema and catalog\<close>

lemma keeps_engine_frame: "keeps engine_inv (write_wal opn t pl xid)" "keeps engine_inv maybe_checkpoint" "keeps engine_inv checkpoint"
  by (intro keeps_intros; simp)+

lemma keeps_catalog_do [keeps_intros]: "keeps engine_inv (catalog_do f)"
  by (rule keepsI) (simp add: catalog_do_def split: sum.split)

lemma keeps_drop [keeps_intros]: "keeps engine_inv (modM (drop_members q))"
  by (rule keeps_modM) (rule inv_drop_members)

lemma inv_fold_drop: "engine_inv e \<Longrightarrow> engine_inv (fold drop_members qs e)"
  by (induction qs arbitrary: e) (simp_all add: inv_drop_members)

lemma catalog_methods_inv:
  "keeps engine_inv (eng_create_database name)" "keeps engine_inv (eng_drop_database name)"
  "keeps engine_inv (eng_create_schema db s)" "keeps engine_inv (eng_create_user name pw salt)"
  "keeps engine_inv (eng_drop_user name)" "keeps engine_inv (set_current_db name)" "keeps engine_inv (drop_table name)"
  unfolding eng_create_database_def eng_drop_database_def eng_create_schema_def eng_create_user_def eng_drop_user_def
    set_current_db_def drop_table_def
  by (auto simp: Let_def intro!: keeps_intros keeps_engine_frame keeps_modM [of _ "\<lambda>e. fold drop_members (qs e) e" for qs] inv_fold_drop)

lemma create_table_inv:
  "hoare (\<lambda>e. engine_inv e \<and> resolve_table_name e name \<notin> u_table_name ` set (undo_records e)) (create_table name cols)
    (\<lambda>_. engine_inv) engine_inv"
proof -
  let ?P = "\<lambda>q e. engine_inv e \<and> q \<notin> u_table_name ` set (undo_records e)"
  have frame: "log_frame (?P q)" for q by (simp add: log_frame_def undo_records_def)
  have body: "hoare (?P q) (steps [write_wal kCreateTable q (wal_encode_create_table cols) 0,
         modM (new_members q \<lparr>ts_name = q, ts_columns = cols, ts_row_count = 0\<rparr>),
         forM cols (\<lambda>c. whenM (cd_primary_key c) (create_index q (cd_name c)))] maybe_checkpoint) (\<lambda>_. engine_inv) engine_inv" for q
    unfolding steps.simps
  proof (rule hoare_seq [where R = "?P q"])
    show "hoare (?P q) (write_wal kCreateTable q (wal_encode_create_table cols) 0) (\<lambda>_. ?P q) engine_inv"
      by (rule hoare_keeps [OF keeps_write_wal [OF frame, of q]]) auto
    show "hoare (?P q) (seqM (modM (new_members q \<lparr>ts_name = q, ts_columns = cols, ts_row_count = 0\<rparr>))
        (seqM (forM cols (\<lambda>c. whenM (cd_primary_key c) (create_index q (cd_name c)))) maybe_checkpoint)) (\<lambda>_. engine_inv) engine_inv"
      by (rule hoare_seq [OF hoare_mod [where Q = "\<lambda>_. engine_inv"]])
        (auto simp: keeps_def [symmetric] inv_new_members intro!: keeps_intros keeps_engine_frame)
  qed
  show ?thesis
    unfolding create_table_def
    by (intro hoare_get) (auto simp: Let_def intro: hoare_throw intro!: hoare_weaken [OF body [unfolded steps.simps]])
qed

section \<open>Every method\<close>

text \<open>
  One public call on the engine, whatever its outcome: returned or thrown. The guards are the two
  ways out of the invariant: the row id counter at its largest value, and a table created anew while
  the open transaction still holds undo records of an old table of that name. \<open>txn\<close> is a call on the
  transaction manager that records no undo by itself.
\<close>

inductive eng_step :: "Engine \<Rightarrow> Engine \<Rightarrow> bool" where
  catalog: "m \<in> {eng_create_database a, eng_drop_database a, eng_create_schema a b, eng_create_user a b pw,
      eng_drop_user a, set_current_db a} \<Longrightarrow> eng_step e (snd (m e))"
| create_table: "resolve_table_name e name \<notin> u_table_name ` set (undo_records e) \<Longrightarrow> eng_step e (snd (create_table name cols e))"
| drop_table: "eng_step e (snd (drop_table name e))"
| create_index: "eng_step e (snd (create_index name column e))"
| insert: "row_id_of (resolve_table_name e name) e \<noteq> 2 ^ 63 - 1 \<Longrightarrow> eng_step e (snd (insert_row name r e))"
| update: "eng_step e (snd (update_rows name matches updates e))"
| remove: "eng_step e (snd (remove_rows name matches e))"
| scan_snapshot: "eng_step e (snd (scan_with_snapshot name snap xid cid e))"
| lookup_snapshot: "eng_step e (snd (index_lookup_with_snapshot name column v snap xid cid e))"
| insert_txn: "row_id_of (resolve_table_name e name) e \<noteq> 2 ^ 63 - 1 \<Longrightarrow> eng_step e (snd (insert_with_txn name r e))"
| update_txn: "eng_step e (snd (update_with_txn name matches updates e))"
| remove_txn: "eng_step e (snd (remove_with_txn name matches e))"
| undo: "m \<in> {apply_undo, apply_undo_to n, write_xact_commit xid, write_xact_abort xid} \<Longrightarrow> eng_step e (snd (m e))"
| vacuum: "eng_step e (snd (vacuum e))"
| save: "m \<in> {eng_save, eng_close} \<Longrightarrow> eng_step e (snd (m e))"
| txn: "tm_step (e_tm e) t \<Longrightarrow> set (cx_undo_records (ctx t)) \<subseteq> set (undo_records e) \<Longrightarrow> eng_step e (set_tm t e)"

lemma snapshot_reads_inv:
  "keeps engine_inv (scan_with_snapshot table snap xid cid)"
  "keeps engine_inv (index_lookup_with_snapshot table column v snap xid cid)"
proof -
  have tm: "keeps engine_inv (register_siread_row q r)" for q r
    by (auto simp: register_siread_row_def tm_do_def intro!: keeps_intros keeps_modM inv_set_tm simp: undo_records_def
        split: option.split)
  then have "keeps engine_inv (visible_rows q snap xid cid ts)" for q ts
    by (auto simp: visible_rows_def intro!: keeps_intros)
  then show "keeps engine_inv (scan_with_snapshot table snap xid cid)"
    "keeps engine_inv (index_lookup_with_snapshot table column v snap xid cid)"
    by (auto simp: scan_with_snapshot_def index_lookup_with_snapshot_def Let_def intro!: keeps_intros split: option.split)
qed

lemma save_inv: "keeps engine_inv eng_save" "keeps engine_inv eng_close"
  unfolding eng_save_def eng_close_def by (auto intro!: keeps_intros keeps_engine_frame keeps_modM)

lemma xact_records_inv: "keeps engine_inv (write_xact_commit xid)" "keeps engine_inv (write_xact_abort xid)"
  unfolding write_xact_commit_def write_xact_abort_def by (rule keeps_engine_frame)+

lemma hoare_snd: "hoare P m (\<lambda>_. I) I \<Longrightarrow> P e \<Longrightarrow> I (snd (m e))"
  by (drule (1) hoareD) (auto split: prod.splits sum.splits)

lemma engine_inv_step: "eng_step e e' \<Longrightarrow> engine_inv e \<Longrightarrow> engine_inv e'"
proof (induction rule: eng_step.induct)
  case (create_table e name cols)
  then show ?case using hoare_snd [OF create_table_inv, of e name cols] by simp
next
  case (insert e name r)
  then show ?case using hoare_snd [OF insert_row_inv, of e name r] by simp
next
  case (insert_txn e name r)
  then show ?case using hoare_snd [OF insert_with_txn_inv, of e name r] by simp
qed (auto simp: inv_set_tm intro: keepsD [OF catalog_methods_inv(1)] keepsD [OF catalog_methods_inv(2)]
    keepsD [OF catalog_methods_inv(3)] keepsD [OF catalog_methods_inv(4)] keepsD [OF catalog_methods_inv(5)]
    keepsD [OF catalog_methods_inv(6)] keepsD [OF catalog_methods_inv(7)] keepsD [OF create_index_inv] keepsD [OF update_rows_inv]
    keepsD [OF remove_rows_inv] keepsD [OF snapshot_reads_inv(1)] keepsD [OF snapshot_reads_inv(2)] keepsD [OF update_with_txn_inv]
    keepsD [OF remove_with_txn_inv] keepsD [OF apply_undo_inv(1)] keepsD [OF apply_undo_inv(2)] keepsD [OF xact_records_inv(1)]
    keepsD [OF xact_records_inv(2)] keepsD [OF vacuum_inv] keepsD [OF save_inv(1)] keepsD [OF save_inv(2)])

lemma engine_inv_new: "engine_inv (engine_new disk fl interval clock)"
  by (simp add: engine_inv_def engine_new_def undo_records_def init_tm_def init_context_def has_key_def omap_ok_def)

lemma scan_order:
  assumes "engine_inv e" "fst (scan name e) = Inr rs"
  shows "sorted_wrt (<) (map (\<lambda>r. the (row_int r ''_rowid'')) rs) \<and>
    (\<forall>r \<in> set rs. \<exists>i. row_int r ''_rowid'' = Some i \<and> i \<le>s row_id_of (resolve_table_name e name) e)"
proof -
  let ?q = "resolve_table_name e name"
  obtain mt where mt: "map_of (e_data e) ?q = Some mt" and m: "materialize_all mt = Inr rs"
    using assms(2) by (auto simp: scan_def bindM_def getM_def throw_def liftM_def split: option.splits sum.splits)
  have wf: "mt_wf ?q mt" and below: "ids_below mt (row_id_of ?q e)" using assms(1) mt by (simp_all add: engine_inv_def)
  have ids: "map (\<lambda>r. row_int r ''_rowid'') rs = map (\<lambda>t. Some (h_row_id (hdr t))) (scan_all mt)"
    using m by (intro materialized_row_ids) (simp add: materialize_all_def)
  have "map the (map (\<lambda>r. row_int r ''_rowid'') rs) = map (\<lambda>t. h_row_id (hdr t)) (scan_all mt)"
    by (simp only: ids) simp
  then have "sorted_wrt (<) (map (\<lambda>r. the (row_int r ''_rowid'')) rs)"
    using rs.scan_sorted [OF wf] by (simp add: comp_def)
  moreover have "\<exists>i. row_int r ''_rowid'' = Some i \<and> i \<le>s row_id_of ?q e" if "r \<in> set rs" for r
    using materialized_row_id [OF m that] below by (auto simp: row_ids_def ids_below_def)
  ultimately show ?thesis by blast
qed

section \<open>Properties\<close>

text \<open>C3: Whatever sequence of calls in \<open>eng_step\<close> an engine started on an empty directory has served, returned or
  thrown, its four maps hold the same tables, every table is keyed by its rows and has one version of
  each, no row and no undo record is above the row id counter of its table, and a scan returns the
  rows in strictly increasing row id order. The calls are all public ones but the loading of a checkpoint with the replay
  of the log, with two guards: nothing is inserted once the row id counter is at its largest value, and no table is created
  under a name for which the open transaction still holds undo records (ROLLBACK would put the rows of the dropped table
  into the new one).\<close>

theorem engine_structure:
  assumes "eng_step\<^sup>*\<^sup>* (engine_new disk fl interval clock) e"
  shows "engine_inv e \<and> (\<forall>rs. fst (scan name e) = Inr rs \<longrightarrow> sorted_wrt (<) (map (\<lambda>r. the (row_int r ''_rowid'')) rs))"
proof -
  have "engine_inv e"
    using assms by (induction rule: rtranclp_induct) (auto simp: engine_inv_new engine_inv_step)
  then show ?thesis using scan_order by blast
qed

definition sample_engine :: Engine where
  "sample_engine = engine_new \<lparr>dk_bin = None, dk_json = None, dk_can_write = True, dk_can_read = True\<rparr> [] 0 (\<lambda>_. 0)"

definition sample_column :: ColumnDef where
  "sample_column = \<lparr>cd_name = ''a'', cd_type = INTEGER, cd_nullable = True, cd_primary_key = False, cd_default = None\<rparr>"

definition sample_table :: Engine where
  "sample_table = snd (create_table ''t'' [sample_column] sample_engine)"

lemma qualify_sample: "resolve_table_name sample_engine ''t'' = ''defaultdb.public.t''"
  by (simp add: resolve_table_name_def sample_engine_def engine_new_def qualify_table_name_def new_catalog_def)

lemma sample_table_members:
  "e_tables sample_table = [(''defaultdb.public.t'', \<lparr>ts_name = ''defaultdb.public.t'', ts_columns = [sample_column], ts_row_count = 0\<rparr>)]"
  "e_data sample_table = [(''defaultdb.public.t'', mt_new ''defaultdb.public.t'')]"
  "e_row_ids sample_table = [(''defaultdb.public.t'', 0)]" "e_indexes sample_table = [(''defaultdb.public.t'', [])]"
  "e_catalog sample_table = new_catalog" "e_tm sample_table = init_tm" "e_interval sample_table = 0"
  using qualify_sample
  by (simp_all add: sample_table_def create_table_def bindM_def getM_def Let_def seqM_def write_wal_def modM_def new_members_def
      sample_column_def whenM_def maybe_checkpoint_def ret_def)
    (simp_all add: sample_engine_def engine_new_def)

lemma qualify_sample_table: "resolve_table_name sample_table ''t'' = ''defaultdb.public.t''"
  by (simp add: resolve_table_name_def sample_table_members qualify_table_name_def new_catalog_def)

lemma engine_structure_witness:
  "engine_inv (snd (insert_row ''t'' [(''a'', VInt 5)] sample_table))"
proof -
  have "eng_step sample_engine sample_table"
    unfolding sample_table_def
    by (rule eng_step.create_table) (simp add: sample_engine_def engine_new_def undo_records_def init_tm_def init_context_def)
  moreover have "eng_step sample_table (snd (insert_row ''t'' [(''a'', VInt 5)] sample_table))"
    by (rule eng_step.insert) (simp add: qualify_sample_table row_id_of_def omap_at_def sample_table_members)
  ultimately have "eng_step\<^sup>*\<^sup>* sample_engine (snd (insert_row ''t'' [(''a'', VInt 5)] sample_table))"
    by (rule two_steps)
  from engine_structure [OF this [unfolded sample_engine_def]] show ?thesis by blast
qed

end
