(* ===== verification/Executor.thy ===== *)
theory Executor
  imports Planner Engine_Steps
begin

text \<open>
  \<open>PipelineExecutor\<close>, \<open>eval_expression\<close> and \<open>stable_sort_rows\<close> (\<open>ai/executor.cpp\<close>).

  \<^item> A pipeline runs as a method of the engine (\<open>meth\<close>): its exception leaves the changes made before it.
  \<^item> \<open>std::stable_sort\<close> is stable insertion; for a comparison that is no strict weak order, which C++ leaves
    undefined, it is just this algorithm.
  \<^item> The texts of the engine's exceptions (\<open>e.what()\<close>) are the argument \<open>what\<close>, \<open>time(nullptr)\<close> is a stream.
    The line \<open>record_execution\<close> prints to the console is not part of the model.
\<close>

section \<open>Expressions\<close>

datatype comparison = Less | Greater | LessEqual | GreaterEqual

fun compare_by :: "comparison \<Rightarrow> ('a \<Rightarrow> 'a \<Rightarrow> bool) \<Rightarrow> ('a \<Rightarrow> 'a \<Rightarrow> bool) \<Rightarrow> 'a \<Rightarrow> 'a \<Rightarrow> bool" where
  "compare_by Less lt le a b = lt a b"
| "compare_by Greater lt le a b = lt b a"
| "compare_by LessEqual lt le a b = le a b"
| "compare_by GreaterEqual lt le a b = le b a"

fun compare_values :: "comparison \<Rightarrow> val \<Rightarrow> val \<Rightarrow> bool" where
  "compare_values opn (VString a) (VString b) = compare_by opn (<) (\<le>) a b"
| "compare_values opn (VInt a) (VInt b) = compare_by opn (\<lambda>a b. a <s b) (\<lambda>a b. a \<le>s b) a b"
| "compare_values opn (VDouble a) (VDouble b) = compare_by opn f_lt f_le a b"
| "compare_values opn (VInt a) (VDouble b) = compare_by opn f_lt f_le (f_of_int64 a) b"
| "compare_values opn (VDouble a) (VInt b) = compare_by opn f_lt f_le a (f_of_int64 b)"
| "compare_values opn _ _ = False"

text \<open>The common part of \<open>+\<close>, \<open>-\<close> and \<open>*\<close>: integers if both are, doubles if one is, otherwise NULL.\<close>

fun arithmetic :: "(u64 \<Rightarrow> u64 \<Rightarrow> u64) \<Rightarrow> (double \<Rightarrow> double \<Rightarrow> double) \<Rightarrow> val \<Rightarrow> val \<Rightarrow> val" where
  "arithmetic fi fd (VInt a) (VInt b) = VInt (fi a b)"
| "arithmetic fi fd (VInt a) (VDouble b) = VDouble (fd (f_of_int64 a) b)"
| "arithmetic fi fd (VDouble a) (VInt b) = VDouble (fd a (f_of_int64 b))"
| "arithmetic fi fd (VDouble a) (VDouble b) = VDouble (fd a b)"
| "arithmetic fi fd _ _ = VNull"

fun divide_values :: "val \<Rightarrow> val \<Rightarrow> val" where
  "divide_values (VInt a) (VInt b) = (if b = 0 then VNull else VInt (int64_div a b))"
| "divide_values (VDouble a) (VDouble b) = (if f_eq b (f_of_int 0) then VNull else VDouble (f_div a b))"
| "divide_values _ _ = VNull"

definition truth :: "val \<Rightarrow> bool" where
  "truth v = (case v of VBool b \<Rightarrow> b | _ \<Rightarrow> False)"

definition binary_op :: "string \<Rightarrow> val \<Rightarrow> val \<Rightarrow> val" where
  "binary_op opn l r =
     (if opn = ''='' then VBool (value_eq l r)
      else if opn = ''!='' then VBool (\<not> value_eq l r)
      else if opn = ''<'' then VBool (compare_values Less l r)
      else if opn = ''>'' then VBool (compare_values Greater l r)
      else if opn = ''<='' then VBool (compare_values LessEqual l r)
      else if opn = ''>='' then VBool (compare_values GreaterEqual l r)
      else if opn = ''AND'' then VBool (truth l \<and> truth r)
      else if opn = ''OR'' then VBool (truth l \<or> truth r)
      else if opn = ''+'' then arithmetic (+) f_add l r
      else if opn = ''-'' then arithmetic (-) f_sub l r
      else if opn = ''*'' then arithmetic (*) f_mul l r
      else if opn = ''/'' then divide_values l r
      else VNull)"

fun eval_expression :: "Expression \<Rightarrow> row \<Rightarrow> val" where
  "eval_expression (Literal v) row = v"
| "eval_expression (ColumnRef c) row = (case map_of row c of Some v \<Rightarrow> v | None \<Rightarrow> VNull)"
| "eval_expression (UnaryOp opn e) row = (if opn = ''NOT''
     then (case eval_expression e row of VBool b \<Rightarrow> VBool (\<not> b) | _ \<Rightarrow> VNull) else VNull)"
| "eval_expression (BinaryOp opn l r) row = binary_op opn (eval_expression l row) (eval_expression r row)"

section \<open>Sorting\<close>

fun value_compare :: "val \<Rightarrow> val \<Rightarrow> int" where
  "value_compare (VString a) (VString b) = (if a < b then -1 else if b < a then 1 else 0)"
| "value_compare (VInt a) (VInt b) = (if a <s b then -1 else if b <s a then 1 else 0)"
| "value_compare (VDouble a) (VDouble b) = (if f_lt a b then -1 else if f_lt b a then 1 else 0)"
| "value_compare _ _ = 0"

definition row_before :: "string \<Rightarrow> bool \<Rightarrow> row \<Rightarrow> row \<Rightarrow> bool" where
  "row_before column desc a b = (case (map_of a column, map_of b column) of
     (None, None) \<Rightarrow> False
   | (None, Some _) \<Rightarrow> \<not> desc
   | (Some _, None) \<Rightarrow> desc
   | (Some va, Some vb) \<Rightarrow> if desc then 0 < value_compare va vb else value_compare va vb < 0)"

fun insert_stable :: "('a \<Rightarrow> 'a \<Rightarrow> bool) \<Rightarrow> 'a \<Rightarrow> 'a list \<Rightarrow> 'a list" where
  "insert_stable before x [] = [x]"
| "insert_stable before x (y # ys) = (if before x y then x # y # ys else y # insert_stable before x ys)"

definition stable_sort :: "('a \<Rightarrow> 'a \<Rightarrow> bool) \<Rightarrow> 'a list \<Rightarrow> 'a list" where
  "stable_sort before xs = fold (insert_stable before) xs []"

definition stable_sort_rows :: "string \<Rightarrow> bool \<Rightarrow> row list \<Rightarrow> row list" where
  "stable_sort_rows column desc = stable_sort (row_before column desc)"

section \<open>Pipelines\<close>

record ResultSet =
  rs_columns :: "string list"
  rs_rows :: "row list"
  rs_affected_rows :: u64
  rs_message :: string
  rs_duration_ms :: u64

definition result_of :: "nat \<Rightarrow> string \<Rightarrow> ResultSet" where
  "result_of n message = \<lparr>rs_columns = [], rs_rows = [], rs_affected_rows = of_nat n, rs_message = message, rs_duration_ms = 0\<rparr>"

definition keeps_row :: "Expression \<Rightarrow> row \<Rightarrow> bool" where
  "keeps_row e r \<longleftrightarrow> eval_expression e r \<noteq> VNull \<and> truth (eval_expression e r)"

definition project_row :: "string list \<Rightarrow> row \<Rightarrow> row" where
  "project_row columns r = fold (\<lambda>c m. case map_of r c of None \<Rightarrow> m | Some v \<Rightarrow> omap_put c v m) columns []"

definition run_op :: "Snapshot \<Rightarrow> TransactionId \<Rightarrow> u32 \<Rightarrow> PipelineOp \<Rightarrow> row list \<Rightarrow> row list meth" where
  "run_op snap xid cid opr rows = (case op_type opr of
     SCAN \<Rightarrow> scan_with_snapshot (op_table opr) snap xid cid
   | INDEX_SCAN \<Rightarrow> index_lookup_with_snapshot (op_table opr) (op_column opr) (op_index_value opr) snap xid cid
   | FILTER \<Rightarrow> ret (case op_filter opr of None \<Rightarrow> rows | Some e \<Rightarrow> filter (keeps_row e) rows)
   | PROJECT \<Rightarrow> ret (map (project_row (op_project_columns opr)) rows)
   | LIMIT \<Rightarrow> ret (if 0 <s op_limit_count opr \<and> sint (op_limit_count opr) < int (length rows)
        then take (unat (op_limit_count opr)) rows else rows)
   | SORT \<Rightarrow> ret (stable_sort_rows (op_column opr) (op_sort_desc opr) rows)
   | _ \<Rightarrow> ret rows)"

definition shown_columns :: "row list \<Rightarrow> string list" where
  "shown_columns rows = (case rows of [] \<Rightarrow> [] | r # _ \<Rightarrow> filter (\<lambda>k. k \<noteq> [] \<and> hd k \<noteq> CHR ''_'') (map fst r))"

definition txt_empty_pipeline :: string where
  "txt_empty_pipeline = utf8 [0xE7, 0xA9, 0xBA, 0xE6, 0xB5, 0x81, 0xE6, 0xB0, 0xB4, 0xE7, 0xBA, 0xBF]"

definition txt_error :: string where
  "txt_error = utf8 [0xE6, 0x89, 0xA7, 0xE8, 0xA1, 0x8C, 0xE9, 0x94, 0x99, 0xE8, 0xAF, 0xAF, 0x3A, 0x20]"

definition txt_insert :: string where
  "txt_insert = utf8 [0xE6, 0x8F, 0x92, 0xE5, 0x85, 0xA5, 0x20]"

definition txt_update :: string where
  "txt_update = utf8 [0xE6, 0x9B, 0xB4, 0xE6, 0x96, 0xB0, 0x20]"

definition txt_delete :: string where
  "txt_delete = utf8 [0xE5, 0x88, 0xA0, 0xE9, 0x99, 0xA4, 0x20]"

definition txt_rows :: string where
  "txt_rows = utf8 [0x20, 0xE8, 0xA1, 0x8C]"

definition txt_table_created :: string where
  "txt_table_created = utf8 [0xE5, 0xB7, 0xB2, 0xE5, 0x88, 0x9B, 0xE5, 0xBB, 0xBA, 0xE8, 0xA1, 0xA8, 0x20]"

definition txt_table_dropped :: string where
  "txt_table_dropped = utf8 [0xE5, 0xB7, 0xB2, 0xE5, 0x88, 0xA0, 0xE9, 0x99, 0xA4, 0xE8, 0xA1, 0xA8, 0x20]"

definition txt_database_created :: string where
  "txt_database_created = utf8 [0xE5, 0xB7, 0xB2, 0xE5, 0x88, 0x9B, 0xE5, 0xBB, 0xBA, 0xE6, 0x95, 0xB0, 0xE6, 0x8D, 0xAE, 0xE5, 0xBA, 0x93, 0x20]"

definition txt_database_dropped :: string where
  "txt_database_dropped = utf8 [0xE5, 0xB7, 0xB2, 0xE5, 0x88, 0xA0, 0xE9, 0x99, 0xA4, 0xE6, 0x95, 0xB0, 0xE6, 0x8D, 0xAE, 0xE5, 0xBA, 0x93, 0x20]"

definition txt_schema_created :: string where
  "txt_schema_created = utf8 [0xE5, 0xB7, 0xB2, 0xE5, 0x88, 0x9B, 0xE5, 0xBB, 0xBA, 0xE6, 0xA8, 0xA1, 0xE5, 0xBC, 0x8F, 0x20]"

definition txt_user_created :: string where
  "txt_user_created = utf8 [0xE5, 0xB7, 0xB2, 0xE5, 0x88, 0x9B, 0xE5, 0xBB, 0xBA, 0xE7, 0x94, 0xA8, 0xE6, 0x88, 0xB7, 0x20]"

definition txt_user_dropped :: string where
  "txt_user_dropped = utf8 [0xE5, 0xB7, 0xB2, 0xE5, 0x88, 0xA0, 0xE9, 0x99, 0xA4, 0xE7, 0x94, 0xA8, 0xE6, 0x88, 0xB7, 0x20]"

definition txt_database_used :: string where
  "txt_database_used = utf8 [0xE5, 0xB7, 0xB2, 0xE5, 0x88, 0x87, 0xE6, 0x8D, 0xA2, 0xE5, 0x88, 0xB0, 0xE6, 0x95, 0xB0, 0xE6, 0x8D, 0xAE, 0xE5, 0xBA,
    0x93, 0x20]"

definition txt_unknown_op :: string where
  "txt_unknown_op = utf8 [0xE6, 0x9C, 0xAA, 0xE7, 0x9F, 0xA5, 0xE6, 0x93, 0x8D, 0xE4, 0xBD, 0x9C]"

definition matches_row :: "Expression option \<Rightarrow> row \<Rightarrow> bool" where
  "matches_row w r = (case w of None \<Rightarrow> True | Some e \<Rightarrow> truth (eval_expression e r))"

definition rows_message :: "string \<Rightarrow> nat \<Rightarrow> string" where
  "rows_message verb n = verb @ nat_to_string n @ txt_rows"

definition execute_standalone :: "PipelineOp \<Rightarrow> ResultSet meth" where
  "execute_standalone opr = (let t = op_table opr in case op_type opr of
     INSERT \<Rightarrow> seqM (forM (op_insert_rows opr) (\<lambda>r. bindM (insert_with_txn t r) (\<lambda>_. ret ())))
        (let n = length (op_insert_rows opr) in ret (result_of n (rows_message txt_insert n)))
   | UPDATE \<Rightarrow> bindM (update_with_txn t (matches_row (op_filter opr)) (op_update_values opr)) (\<lambda>n.
        ret (result_of n (rows_message txt_update n)))
   | DELETE \<Rightarrow> bindM (remove_with_txn t (matches_row (op_filter opr))) (\<lambda>n.
        ret (result_of n (rows_message txt_delete n)))
   | CREATE_TABLE \<Rightarrow> ret (result_of 0 (txt_table_created @ t))
   | DROP_TABLE \<Rightarrow> seqM (drop_table t) (ret (result_of 0 (txt_table_dropped @ t)))
   | CREATE_DATABASE \<Rightarrow> seqM (eng_create_database t) (ret (result_of 0 (txt_database_created @ t)))
   | DROP_DATABASE \<Rightarrow> seqM (eng_drop_database t) (ret (result_of 0 (txt_database_dropped @ t)))
   | CREATE_SCHEMA \<Rightarrow> bindM (getM (\<lambda>e. current_db (e_catalog e))) (\<lambda>db.
        seqM (eng_create_schema db t) (ret (result_of 0 (txt_schema_created @ t))))
   | CREATE_USER \<Rightarrow> ret (result_of 0 (txt_user_created @ t))
   | DROP_USER \<Rightarrow> seqM (eng_drop_user t) (ret (result_of 0 (txt_user_dropped @ t)))
   | USE_DATABASE \<Rightarrow> seqM (set_current_db t) (ret (result_of 0 (txt_database_used @ t)))
   | _ \<Rightarrow> ret (result_of 0 txt_unknown_op))"

definition standalone_op :: "PipelineOpType \<Rightarrow> bool" where
  "standalone_op ty \<longleftrightarrow> ty \<in> {CREATE_TABLE, DROP_TABLE, CREATE_DATABASE, DROP_DATABASE, CREATE_SCHEMA, CREATE_USER, DROP_USER,
     USE_DATABASE, INSERT, UPDATE, DELETE}"

text \<open>The snapshot of a statement: a fresh one, or that of the transaction under the stronger isolation levels.\<close>

definition take_snapshot :: "Snapshot meth" where
  "take_snapshot e = (let tm = e_tm e in
     if cx_isolation (ctx tm) = ReadCommitted \<or> \<not> is_in_transaction tm then (Inr (get_snapshot tm), e)
     else (let (snap, tm) = get_transaction_snapshot tm in (Inr snap, set_tm tm e)))"

definition execute_pipeline :: "Pipeline \<Rightarrow> ResultSet meth" where
  "execute_pipeline pipeline = (case pipeline of [] \<Rightarrow> ret (result_of 0 txt_empty_pipeline)
     | op1 # _ \<Rightarrow>
        if standalone_op (op_type op1) then execute_standalone op1
        else bindM take_snapshot (\<lambda>snap. bindM (getM (\<lambda>e. ctx (e_tm e))) (\<lambda>c.
          bindM (foldM (run_op snap (cx_xid c) (cx_command_id c)) pipeline []) (\<lambda>rows.
            ret \<lparr>rs_columns = shown_columns rows, rs_rows = rows, rs_affected_rows = 0, rs_message = [], rs_duration_ms = 0\<rparr>))))"

section \<open>The executor\<close>

record PipelineExecutor =
  px_engine :: Engine
  px_memory :: WorkloadMemory
  px_record_counter :: u32
  px_clock :: "nat \<Rightarrow> u64"

record ExecutorResult =
  xr_results :: "ResultSet list"
  xr_plan :: ExecutionPlan
  xr_intent :: UnifiedIntent

definition executor_new :: "Engine \<Rightarrow> WorkloadMemory \<Rightarrow> (nat \<Rightarrow> u64) \<Rightarrow> PipelineExecutor" where
  "executor_new e m clock = \<lparr>px_engine = e, px_memory = m, px_record_counter = 0, px_clock = clock\<rparr>"

text \<open>\<open>time(nullptr) * 1000\<close>\<close>

definition now_ms :: "PipelineExecutor \<Rightarrow> u64 \<times> PipelineExecutor" where
  "now_ms x = (px_clock x 0 * 1000, x\<lparr>px_clock := (\<lambda>n. px_clock x (Suc n))\<rparr>)"

definition record_category :: "IntentCategory \<Rightarrow> string" where
  "record_category c = (if c = QUERY then ''query'' else if c = MUTATION then ''mutation'' else ''schema'')"

definition record_execution :: "UnifiedIntent \<Rightarrow> ExecutionPlan \<Rightarrow> u64 \<Rightarrow> ResultSet \<Rightarrow> string list \<Rightarrow> PipelineExecutor \<Rightarrow> PipelineExecutor" where
  "record_execution intent pl duration result warnings x =
     (let n = px_record_counter x + 1; (now, x) = now_ms x;
          est = pl_estimated_duration_ms pl;
          rec = \<lparr>er_id = ''exec-'' @ int_to_string (sint n), er_timestamp = now, er_intent_hash = pl_intent_hash pl,
            er_description = in_description intent, er_category = record_category (in_category intent),
            er_tables = in_tables intent, er_planned_strategy = pipeline_signature (pl_pipeline pl),
            er_estimated_duration_ms = est, er_actual_duration_ms = duration, er_rows_scanned = pl_rows_to_scan pl,
            er_rows_returned = of_nat (length (rs_rows result)), er_affected_rows = rs_affected_rows result,
            er_issues = warnings,
            er_accuracy = (if 0 <s est then f_div (f_of_int64 duration) (f_of_int64 est) else f_of_int 1)\<rparr>
      in x\<lparr>px_record_counter := n, px_memory := record_exec rec (px_memory x)\<rparr>)"

definition update_profiles :: "UnifiedIntent \<Rightarrow> PipelineExecutor \<Rightarrow> PipelineExecutor" where
  "update_profiles intent x = x"

definition execute :: "(engine_error \<Rightarrow> string) \<Rightarrow> string \<Rightarrow> UnifiedIntent \<Rightarrow> PipelineExecutor \<Rightarrow> ExecutorResult \<times> PipelineExecutor" where
  "execute what freed intent x =
     (let pl = plan freed (px_memory x) (px_engine x) intent;
          (start, x) = now_ms x;
          (r, e) = execute_pipeline (pl_pipeline pl) (px_engine x);
          x = x\<lparr>px_engine := e\<rparr>;
          rs = (case r of Inr rs \<Rightarrow> rs | Inl err \<Rightarrow> result_of 0 (txt_error @ what err));
          (stop, x) = now_ms x;
          rs = rs\<lparr>rs_duration_ms := stop - start\<rparr>
      in (\<lparr>xr_results = [rs], xr_plan = pl, xr_intent = intent\<rparr>,
          update_profiles intent (record_execution intent pl (stop - start) rs [] x)))"

end
