(* ===== verification/NL_Parser.thy ===== *)
theory NL_Parser
  imports Planner
begin

text \<open>
  The natural language front end (\<open>ai/nl_parser.cpp\<close>): the request sent to the model and the reading of its answer.

  \<^item> The answer of the API is the argument \<open>response\<close>; \<open>call_api\<close>, which only drives libcurl, is a function from
    the request to it.
  \<^item> The texts of the exceptions are the argument \<open>what\<close>.
  \<^item> In texts of the code that hold backslashes, \<open>~\<close> stands for the backslash.
  \<^item> The intent of a failed result, which the server does not read, is the empty one.
  \<^item> \<open>choices\<close> that is an object and no array makes the code index an empty vector; here this is an error.
\<close>

section \<open>The request\<close>

record NLParser =
  nl_api_key :: string
  nl_api_base :: string
  nl_model :: string

definition is_configured :: "NLParser \<Rightarrow> bool" where
  "is_configured p \<longleftrightarrow> nl_api_key p \<noteq> []"

fun joined :: "string list \<Rightarrow> string" where
  "joined [] = []"
| "joined [l] = l"
| "joined (l # ls) = l @ CHR 0x0A # joined ls"

definition backslashes :: "string \<Rightarrow> string" where
  "backslashes = map (\<lambda>c. if c = CHR ''~'' then CHR 0x5C else c)"

text \<open>The two string literals of the code. The second one ends only at its last line: the raw string that opens behind
  the model name has no closing \<open>)"\<close> before the one behind the response format, so the statements that were to append
  the schema and the question are part of the text.\<close>

definition prompt_head :: string where
  "prompt_head = backslashes (joined [
     ''{'',
     ''  \"model\": \"''])"

definition prompt_tail :: string where
  "prompt_tail = backslashes (joined [
     ''\",'',
     ''  \"messages\": ['',
     ''    {'',
     ''      \"role\": \"system\",'',
     ''      \"content\": \"'' @ utf8 [0xE4, 0xBD, 0xA0, 0xE6, 0x98, 0xAF, 0xE4, 0xB8, 0x80, 0xE4, 0xB8, 0xAA, 0xE6, 0x95, 0xB0, 0xE6,
       0x8D, 0xAE, 0xE5, 0xBA, 0x93, 0xE6, 0x84, 0x8F, 0xE5, 0x9B, 0xBE, 0xE8, 0xA7, 0xA3, 0xE6, 0x9E, 0x90, 0xE5, 0x99, 0xA8, 0xE3, 0x80,
       0x82, 0xE5, 0xB0, 0x86, 0xE7, 0x94, 0xA8, 0xE6, 0x88, 0xB7, 0xE7, 0x9A, 0x84, 0xE8, 0x87, 0xAA, 0xE7, 0x84, 0xB6, 0xE8, 0xAF, 0xAD,
       0xE8, 0xA8, 0x80, 0xE7, 0xBF, 0xBB, 0xE8, 0xAF, 0x91, 0xE6, 0x88, 0x90, 0xE7, 0xBB, 0x93, 0xE6, 0x9E, 0x84, 0xE5, 0x8C, 0x96, 0xE7,
       0x9A, 0x84] @ '' JSON'' @ utf8 [0xE3, 0x80, 0x82],
     [],
     utf8 [0xE8, 0xA7, 0x84, 0xE5, 0x88, 0x99, 0xEF, 0xBC, 0x9A],
     ''1. '' @ utf8 [0xE5, 0x85, 0x88, 0xE5, 0x88, 0xA4, 0xE6, 0x96, 0xAD, 0xE6, 0x98, 0xAF, 0xE4, 0xB8, 0x8D, 0xE6, 0x98, 0xAF, 0xE6,
       0x95, 0xB0, 0xE6, 0x8D, 0xAE, 0xE5, 0xBA, 0x93, 0xE6, 0x93, 0x8D, 0xE4, 0xBD, 0x9C, 0xE3, 0x80, 0x82, 0xE5, 0xA6, 0x82, 0xE6, 0x9E,
       0x9C, 0xE4, 0xB8, 0x8D, 0xE6, 0x98, 0xAF, 0xEF, 0xBC, 0x88, 0xE6, 0x89, 0x93, 0xE6, 0x8B, 0x9B, 0xE5, 0x91, 0xBC, 0xE3, 0x80, 0x81,
       0xE9, 0x97, 0xB2, 0xE8, 0x81, 0x8A, 0xEF, 0xBC, 0x89, 0xEF, 0xBC, 0x8C, 0xE8, 0xBF, 0x94, 0xE5, 0x9B, 0x9E, 0xEF, 0xBC, 0x9A] @
       ''{~\"category~\": ~\"conversation~\", ~\"reply~\": ~\"'' @ utf8 [0xE5, 0x8F, 0x8B, 0xE5, 0xA5, 0xBD, 0xE7, 0x9A, 0x84, 0xE5, 0x9B,
       0x9E, 0xE5, 0xA4, 0x8D] @ ''~\"}'',
     ''2. '' @ utf8 [0xE5, 0xA6, 0x82, 0xE6, 0x9E, 0x9C, 0xE6, 0x98, 0xAF, 0xE6, 0x95, 0xB0, 0xE6, 0x8D, 0xAE, 0xE5, 0xBA, 0x93, 0xE6,
       0x93, 0x8D, 0xE4, 0xBD, 0x9C, 0xEF, 0xBC, 0x8C, 0xE8, 0xBE, 0x93, 0xE5, 0x87, 0xBA] @ '' JSON'' @ utf8 [0xEF, 0xBC, 0x88, 0xE4,
       0xB8, 0x8D, 0xE8, 0xA6, 0x81] @ '' markdown'' @ utf8 [0xEF, 0xBC, 0x8C, 0xE4, 0xB8, 0x8D, 0xE8, 0xA6, 0x81, 0xE9, 0xA2, 0x9D, 0xE5,
       0xA4, 0x96, 0xE6, 0x96, 0x87, 0xE5, 0xAD, 0x97, 0xEF, 0xBC, 0x89, 0xEF, 0xBC, 0x9A],
     [],
     ''{'',
     ''  ~\"category~\": ~\"query~\" | ~\"mutation~\" | ~\"schema~\",'',
     ''  ~\"tables~\": [~\"'' @ utf8 [0xE8, 0xA1, 0xA8, 0xE5, 0x90, 0x8D] @ ''~\"],'',
     ''  ~\"description~\": ~\"'' @ utf8 [0xE7, 0xAE, 0x80, 0xE7, 0x9F, 0xAD, 0xE7, 0x9A, 0x84, 0xE6, 0x93, 0x8D, 0xE4, 0xBD, 0x9C, 0xE6,
       0x8F, 0x8F, 0xE8, 0xBF, 0xB0] @ ''~\",'',
     ''  ~\"isWrite~\": true | false,'',
     ''  ~\"operation~\": {'',
     ''    ~\"type~\": ~\"select~\" | ~\"insert~\" | ~\"update~\" | ~\"delete~\" | ~\"create_table~\" | ~\"dro'' @ ''p_table~\",'',
     ''    // '' @ utf8 [0xE6, 0xA0, 0xB9, 0xE6, 0x8D, 0xAE] @ '' type '' @ utf8 [0xE5, 0xA1, 0xAB, 0xE5, 0x86, 0x99, 0xE5, 0xAF, 0xB9,
       0xE5, 0xBA, 0x94, 0xE5, 0xAD, 0x97, 0xE6, 0xAE, 0xB5],
     ''  }'',
     ''}'',
     [],
     ''SELECT: {~\"type~\": ~\"select~\", ~\"columns~\": [~\"col1~\"], ~\"from~\": ~\"table~\", ~\"where~\": {~'' @
       ''\"type~\": ~\"binary_op~\", ~\"op~\": ~\"=~\", ~\"left~\": {~\"type~\": ~\"column_ref~\", ~\"name~\": ~\"co'' @
       ''l~\"}, ~\"right~\": {~\"type~\": ~\"literal~\", ~\"value~\": ~\"val~\"}}}'',
     ''INSERT: {~\"type~\": ~\"insert~\", ~\"table~\": ~\"t~\", ~\"columns~\": [~\"col1~\"], ~\"values~\": [[~\"'' @ ''val1~\"]]}'',
     ''UPDATE: {~\"type~\": ~\"update~\", ~\"table~\": ~\"t~\", ~\"sets~\": [{~\"column~\": ~\"col~\", ~\"value~'' @
       ''\": {~\"type~\": ~\"literal~\", ~\"value~\": ~\"val~\"}}], ~\"where~\": ...}'',
     ''DELETE: {~\"type~\": ~\"delete~\", ~\"table~\": ~\"t~\", ~\"where~\": ...}'',
     ''CREATE TABLE: {~\"type~\": ~\"create_table~\", ~\"name~\": ~\"t~\", ~\"columns~\": [{~\"name~\": ~\"col'' @
       ''~\", ~\"type~\": ~\"TEXT~\", ~\"nullable~\": false}]}'',
     ''DROP TABLE: {~\"type~\": ~\"drop_table~\", ~\"name~\": ~\"t~\"}'',
     ''CREATE DATABASE: {~\"type~\": ~\"create_database~\", ~\"name~\": ~\"db~\"}'',
     ''DROP DATABASE: {~\"type~\": ~\"drop_database~\", ~\"name~\": ~\"db~\"}'',
     ''CREATE SCHEMA: {~\"type~\": ~\"create_schema~\", ~\"name~\": ~\"schema_name~\"}'',
     ''CREATE USER: {~\"type~\": ~\"create_user~\", ~\"name~\": ~\"user_name~\", ~\"password~\": ~\"secret~\"'' @ ''}'',
     ''DROP USER: {~\"type~\": ~\"drop_user~\", ~\"name~\": ~\"user_name~\"}'',
     ''USE: {~\"type~\": ~\"use~\", ~\"name~\": ~\"db~\"}'',
     ''SHOW DATABASES: {~\"type~\": ~\"show_databases~\"}'',
     ''SHOW USERS: {~\"type~\": ~\"show_users~\"}'',
     [],
     utf8 [0xE8, 0xA1, 0xA8, 0xE8, 0xBE, 0xBE, 0xE5, 0xBC, 0x8F, 0xE6, 0xA0, 0xBC, 0xE5, 0xBC, 0x8F, 0xEF, 0xBC, 0x9A] @
       ''{~\"type~\": ~\"binary_op~\"|~\"column_ref~\"|~\"literal~\", ~\"op~\": ~\"=~\"|~\"!=~\"|~\"<~\"|~\">~\"|~\"AN'' @
       ''D~\"|~\"OR~\", ~\"left~\": ..., ~\"right~\": ...}'',
     [],
     utf8 [0xE9, 0x87, 0x8D, 0xE8, 0xA6, 0x81, 0xEF, 0xBC, 0x9A],
     ''- SELECT '' @ utf8 [0xE5, 0xBF, 0x85, 0xE9, 0xA1, 0xBB, 0xE6, 0x9C, 0x89] @ '' columns '' @ utf8 [0xE5, 0x92, 0x8C] @ '' from'',
     ''- INSERT '' @ utf8 [0xE7, 0x9A, 0x84] @ '' values '' @ utf8 [0xE6, 0x98, 0xAF, 0xE4, 0xBA, 0x8C, 0xE7, 0xBB, 0xB4, 0xE6, 0x95, 0xB0,
       0xE7, 0xBB, 0x84],
     ''- description '' @ utf8 [0xE7, 0x94, 0xA8, 0xE4, 0xB8, 0xAD, 0xE6, 0x96, 0x87],
     ''- '' @ utf8 [0xE5, 0xA6, 0x82, 0xE6, 0x9E, 0x9C, 0xE4, 0xB8, 0x8D, 0xE7, 0xA1, 0xAE, 0xE5, 0xAE, 0x9A, 0xEF, 0xBC, 0x8C] @
       ''category '' @ utf8 [0xE7, 0x94, 0xA8] @ '' query\"'',
     ''    };'',
     [],
     ''    if (!schema.empty()) {'',
     ''        prompt += \"'' @ utf8 [0xE5, 0xBD, 0x93, 0xE5, 0x89, 0x8D, 0xE6, 0x95, 0xB0, 0xE6, 0x8D, 0xAE, 0xE5, 0xBA, 0x93] @
       '' Schema:~n\" + schema + \"~n~n\";'',
     ''    }'',
     ''    prompt += \"'' @ utf8 [0xE7, 0x94, 0xA8, 0xE6, 0x88, 0xB7, 0xE8, 0xBE, 0x93, 0xE5, 0x85, 0xA5] @ '': \" + input + R\"(\"'',
     ''    }'',
     ''  ],'',
     ''  \"temperature\": 0.1,'',
     ''  \"max_tokens\": 2000,'',
     ''  \"response_format\": { \"type\": \"json_object\" }'',
     ''}''])"

definition build_prompt :: "NLParser \<Rightarrow> string \<Rightarrow> string \<Rightarrow> string" where
  "build_prompt p input schema = prompt_head @ nl_model p @ prompt_tail"

section \<open>The answer\<close>

datatype nl_error = BadJson json_error | BadVariantAccess

record NLParseResult =
  nr_success :: bool
  nr_is_conversation :: bool
  nr_reply :: string
  nr_intent :: UnifiedIntent
  nr_error :: string

definition no_intent :: UnifiedIntent where
  "no_intent = \<lparr>in_category = QUERY, in_raw_input = [], in_tables = [], in_description = [], in_statement = UnknownStatement,
     in_is_write = False\<rparr>"

definition nl_failed :: "string \<Rightarrow> NLParseResult" where
  "nl_failed message = \<lparr>nr_success = False, nr_is_conversation = False, nr_reply = [], nr_intent = no_intent, nr_error = message\<rparr>"

definition txt_empty_answer :: string where
  "txt_empty_answer = utf8 [0x4D, 0x69, 0x6E, 0x69, 0x4D, 0x61, 0x78, 0x20, 0x41, 0x50, 0x49, 0x20, 0xE8, 0xBF, 0x94, 0xE5, 0x9B, 0x9E, 0xE7,
    0xA9, 0xBA]"

definition txt_bad_format :: string where
  "txt_bad_format = utf8 [0x4D, 0x69, 0x6E, 0x69, 0x4D, 0x61, 0x78, 0x20, 0xE8, 0xBF, 0x94, 0xE5, 0x9B, 0x9E, 0xE6, 0xA0, 0xBC, 0xE5, 0xBC,
    0x8F, 0xE5, 0xBC, 0x82, 0xE5, 0xB8, 0xB8]"

definition txt_no_json :: string where
  "txt_no_json = utf8 [0x41, 0x50, 0x49, 0x20, 0xE8, 0xBF, 0x94, 0xE5, 0x9B, 0x9E, 0xE6, 0xB2, 0xA1, 0xE6, 0x9C, 0x89, 0xE6, 0x9C, 0x89, 0xE6,
    0x95, 0x88, 0x20, 0x4A, 0x53, 0x4F, 0x4E]"

definition txt_hello :: string where
  "txt_hello = utf8 [0xE4, 0xBD, 0xA0, 0xE5, 0xA5, 0xBD, 0xEF, 0xBC, 0x81]"

definition txt_bad_answer :: string where
  "txt_bad_answer = utf8 [0xE8, 0xA7, 0xA3, 0xE6, 0x9E, 0x90, 0xE5, 0x93, 0x8D, 0xE5, 0xBA, 0x94, 0xE5, 0xA4, 0xB1, 0xE8, 0xB4, 0xA5, 0x3A,
    0x20]"

definition txt_not_configured :: string where
  "txt_not_configured = utf8 [0x41, 0x49, 0x20, 0x41, 0x50, 0x49, 0x20, 0xE6, 0x9C, 0xAA, 0xE9, 0x85, 0x8D, 0xE7, 0xBD, 0xAE]"

text \<open>\<open>std::get\<close> on the alternatives\<close>

definition the_string :: "json \<Rightarrow> nl_error + string" where
  "the_string j = (case get_string j of None \<Rightarrow> Inl BadVariantAccess | Some s \<Rightarrow> Inr s)"

fun strings_of :: "json list \<Rightarrow> nl_error + string list" where
  "strings_of [] = Inr []"
| "strings_of (j # js) = bindE (the_string j) (\<lambda>s. bindE (strings_of js) (\<lambda>ss. Inr (s # ss)))"

definition strings_at :: "json \<Rightarrow> string \<Rightarrow> nl_error + string list" where
  "strings_at j k = strings_of (j_elements (j_at j k))"

definition parse_text :: "string \<Rightarrow> nl_error + json" where
  "parse_text s = (case json_parse s of Inl e \<Rightarrow> Inl (BadJson e) | Inr j \<Rightarrow> Inr j)"

text \<open>What stands before the first occurrence of a text, and what stands behind it.\<close>

fun cut :: "string \<Rightarrow> string \<Rightarrow> (string \<times> string) option" where
  "cut pat [] = (if pat = [] then Some ([], []) else None)"
| "cut pat (c # s) = (if take (length pat) (c # s) = pat then Some ([], drop (length pat) (c # s))
     else map_option (\<lambda>(a, b). (c # a, b)) (cut pat s))"

lemma cut_length: "cut pat s = Some (a, b) \<Longrightarrow> length a + length pat + length b = length s"
proof (induction s arbitrary: a)
  case (Cons c s)
  show ?case
  proof (cases "take (length pat) (c # s) = pat")
    case True
    then have "length pat \<le> length (c # s)" by (metis length_take min.cobounded2 nat_le_linear take_all)
    with True Cons.prems show ?thesis by auto
  next
    case False
    with Cons show ?thesis by auto
  qed
qed (simp split: if_splits)

function strip_thinking :: "string \<Rightarrow> string" where
  "strip_thinking content = (case cut ''<think>'' content of None \<Rightarrow> content
     | Some (before, rest) \<Rightarrow> (case cut ''</think>'' rest of None \<Rightarrow> content
       | Some (_, behind) \<Rightarrow> strip_thinking (before @ behind)))"
  by pat_completeness auto
termination
  by (relation "measure length") (auto dest!: cut_length)

declare strip_thinking.simps [simp del]

text \<open>From the first opening brace to the last closing one; where the last closing brace stands well before the first
  opening one, the length wraps around and the rest of the text is taken.\<close>

definition braced :: "string \<Rightarrow> string option" where
  "braced content =
     (if CHR 0x7B \<notin> set content \<or> CHR 0x7D \<notin> set content then None
      else let start = length (takeWhile (\<lambda>c. c \<noteq> CHR 0x7B) content);
               past = length content - length (takeWhile (\<lambda>c. c \<noteq> CHR 0x7D) (rev content))
           in Some (if start \<le> past then take (past - start) (drop start content) else drop start content))"

definition answer_content :: "json \<Rightarrow> nl_error + string option" where
  "answer_content j = (case j_at j ''choices'' of
     JArray (c # _) \<Rightarrow> bindE (the_string (j_at (j_at c ''message'') ''content'')) (\<lambda>s. Inr (Some s))
   | JObject (_ # _) \<Rightarrow> Inl BadVariantAccess
   | _ \<Rightarrow> Inr None)"

section \<open>The statement\<close>

definition cell_of :: "json \<Rightarrow> nl_error + val" where
  "cell_of v = (case v of JNull \<Rightarrow> Inr VNull | JInt i \<Rightarrow> Inr (VInt i) | JFloat d \<Rightarrow> Inr (VDouble d) | JBool b \<Rightarrow> Inr (VBool b)
     | _ \<Rightarrow> bindE (the_string v) (\<lambda>s. Inr (VString s)))"

definition columns_of :: "json \<Rightarrow> ColumnDef list" where
  "columns_of j = map (\<lambda>c. \<lparr>cd_name = value_string c ''name'' [], cd_type = data_type_from_name (value_string c ''type'' ''TEXT''),
     cd_nullable = value_bool c ''nullable'' True, cd_primary_key = value_bool c ''primary_key'' False, cd_default = None\<rparr>)
     (j_elements j)"

definition statement_of :: "json \<Rightarrow> nl_error + Statement" where
  "statement_of opr = (let ty = value_string opr ''type'' []; name = value_string opr ''name'' []; table = value_string opr ''table'' [] in
     if ty = ''select'' then bindE (strings_at opr ''columns'') (\<lambda>cols.
       Inr (Select \<lparr>sel_columns = cols, sel_from = value_string opr ''from'' [], sel_where = None\<rparr>))
     else if ty = ''insert'' then bindE (strings_at opr ''columns'') (\<lambda>cols.
       bindE (mapE (\<lambda>row. mapE cell_of (j_elements row)) (j_elements (j_at opr ''values''))) (\<lambda>values.
         Inr (Insert \<lparr>ins_table = table, ins_columns = cols, ins_values = values\<rparr>)))
     else if ty = ''update'' then Inr (Update \<lparr>upd_table = table, upd_sets = [], upd_where = None\<rparr>)
     else if ty = ''delete'' then Inr (Delete \<lparr>del_table = table, del_where = None\<rparr>)
     else if ty = ''create_table'' then Inr (CreateTable \<lparr>ct_name = name, ct_columns = columns_of (j_at opr ''columns'')\<rparr>)
     else if ty = ''drop_table'' then Inr (DropTable name)
     else if ty = ''create_database'' then Inr (CreateDatabase name)
     else if ty = ''drop_database'' then Inr (DropDatabase name)
     else if ty = ''create_schema'' then Inr (CreateSchema \<lparr>cs_database = [], cs_name = name\<rparr>)
     else if ty = ''create_user'' then Inr (CreateUser \<lparr>usr_name = name, usr_password = value_string opr ''password'' []\<rparr>)
     else if ty = ''drop_user'' then Inr (DropUser name)
     else if ty = ''use'' then Inr (UseDatabase name)
     else Inr UnknownStatement)"

definition category_of_text :: "string \<Rightarrow> IntentCategory" where
  "category_of_text c = (if c = ''mutation'' then MUTATION else if c = ''schema'' then SCHEMA else QUERY)"

definition intent_of :: "json \<Rightarrow> string \<Rightarrow> nl_error + UnifiedIntent" where
  "intent_of parsed input = bindE (strings_at parsed ''tables'') (\<lambda>tables.
     bindE (if j_contains parsed ''operation'' then statement_of (j_at parsed ''operation'') else Inr UnknownStatement) (\<lambda>stmt.
       Inr \<lparr>in_category = category_of_text (value_string parsed ''category'' ''query''), in_raw_input = input, in_tables = tables,
         in_description = value_string parsed ''description'' [], in_statement = stmt,
         in_is_write = value_bool parsed ''isWrite'' False\<rparr>))"

definition is_conversation :: "json \<Rightarrow> nl_error + bool" where
  "is_conversation parsed = (if j_contains parsed ''category''
     then bindE (the_string (j_at parsed ''category'')) (\<lambda>c. Inr (c = ''conversation'')) else Inr False)"

definition read_answer :: "json \<Rightarrow> string \<Rightarrow> nl_error + NLParseResult" where
  "read_answer parsed input = bindE (is_conversation parsed) (\<lambda>conv.
     if conv then Inr \<lparr>nr_success = True, nr_is_conversation = True, nr_reply = value_string parsed ''reply'' txt_hello,
       nr_intent = no_intent, nr_error = []\<rparr>
     else bindE (intent_of parsed input) (\<lambda>intent. Inr \<lparr>nr_success = True, nr_is_conversation = False, nr_reply = [],
       nr_intent = intent, nr_error = []\<rparr>))"

definition parse_response :: "(nl_error \<Rightarrow> string) \<Rightarrow> string \<Rightarrow> string \<Rightarrow> NLParseResult" where
  "parse_response what response input =
     (if response = [] then nl_failed txt_empty_answer
      else case bindE (parse_text response) (\<lambda>j. bindE (answer_content j) (\<lambda>content. case content of
           None \<Rightarrow> Inr (nl_failed txt_bad_format)
         | Some content \<Rightarrow> (case braced (strip_thinking content) of None \<Rightarrow> Inr (nl_failed txt_no_json)
             | Some s \<Rightarrow> bindE (parse_text s) (\<lambda>parsed. read_answer parsed input)))) of
        Inl e \<Rightarrow> nl_failed (txt_bad_answer @ what e) | Inr r \<Rightarrow> r)"

text \<open>\<open>NLParser::parse\<close>; \<open>api\<close> is the service behind \<open>call_api\<close>, with the empty text for a failed request.\<close>

definition nl_parse :: "(nl_error \<Rightarrow> string) \<Rightarrow> (string \<Rightarrow> string) \<Rightarrow> NLParser \<Rightarrow> string \<Rightarrow> string \<Rightarrow> NLParseResult" where
  "nl_parse what api p input schema = (if \<not> is_configured p then nl_failed txt_not_configured
     else parse_response what (api (build_prompt p input schema)) input)"

end
