(* ===== verification/Config.thy ===== *)
theory Config
  imports Workload_Memory
begin

text \<open>
  \<open>DBConfig\<close> and \<open>DBConfig::load\<close> (\<open>src/config.h\<close>). A file that cannot be opened is \<open>None\<close>; the warnings on the console
  are not part of the model. An exception leaves the fields set before it, so a loading step returns the
  configuration with a flag that says whether it threw.
\<close>

section \<open>The configuration\<close>

record AIConfig =
  ai_provider :: string
  ai_api_key :: string
  ai_api_base :: string
  ai_model :: string

record ServerConfig =
  sc_host :: string
  sc_port :: u32
  sc_max_connections :: u32
  sc_worker_threads :: u32
  sc_default_database :: string

record StorageConfig =
  st_data_dir :: string
  st_wal_dir :: string
  st_buffer_size_mb :: u32
  st_checkpoint_interval :: u32

record NodeConfig =
  nd_id :: string
  nd_role :: string
  nd_peers :: "string list"

record DBConfig =
  cf_server :: ServerConfig
  cf_storage :: StorageConfig
  cf_ai :: AIConfig
  cf_node :: NodeConfig
  cf_verbose :: bool

definition default_config :: DBConfig where
  "default_config = \<lparr>
     cf_server = \<lparr>sc_host = ''127.0.0.1'', sc_port = 9615, sc_max_connections = 128, sc_worker_threads = 4,
       sc_default_database = ''defaultdb''\<rparr>,
     cf_storage = \<lparr>st_data_dir = ''./data'', st_wal_dir = ''./data/wal'', st_buffer_size_mb = 64, st_checkpoint_interval = 5000\<rparr>,
     cf_ai = \<lparr>ai_provider = ''minimax'', ai_api_key = [], ai_api_base = ''https://api.minimaxi.com/v1'', ai_model = ''MiniMax-M2.7''\<rparr>,
     cf_node = \<lparr>nd_id = ''node-1'', nd_role = ''standalone'', nd_peers = []\<rparr>,
     cf_verbose = False\<rparr>"

section \<open>Loading\<close>

type_synonym loader = "DBConfig \<Rightarrow> DBConfig \<times> bool"

text \<open>\<open>if (s.contains(k)) cfg.field = s[k].get_...()\<close>\<close>

definition field :: "json \<Rightarrow> string \<Rightarrow> (json \<Rightarrow> 'a option) \<Rightarrow> ('a \<Rightarrow> DBConfig \<Rightarrow> DBConfig) \<Rightarrow> loader" where
  "field j k get put cfg = (if \<not> j_contains j k then (cfg, False)
     else case get (j_at j k) of None \<Rightarrow> (cfg, True) | Some v \<Rightarrow> (put v cfg, False))"

fun load_all :: "loader list \<Rightarrow> loader" where
  "load_all [] cfg = (cfg, False)"
| "load_all (l # ls) cfg = (case l cfg of (cfg, threw) \<Rightarrow> if threw then (cfg, True) else load_all ls cfg)"

definition get_int32 :: "json \<Rightarrow> u32 option" where
  "get_int32 j = map_option ucast (get_int j)"

definition load_server :: "json \<Rightarrow> loader" where
  "load_server s = (let put = (\<lambda>f cfg. cfg\<lparr>cf_server := f (cf_server cfg)\<rparr>) in load_all
     [field s ''host'' get_string (\<lambda>v. put (\<lambda>c. c\<lparr>sc_host := v\<rparr>)),
      field s ''port'' get_int32 (\<lambda>v. put (\<lambda>c. c\<lparr>sc_port := v\<rparr>)),
      field s ''max_connections'' get_int32 (\<lambda>v. put (\<lambda>c. c\<lparr>sc_max_connections := v\<rparr>)),
      field s ''worker_threads'' get_int32 (\<lambda>v. put (\<lambda>c. c\<lparr>sc_worker_threads := v\<rparr>)),
      field s ''default_database'' get_string (\<lambda>v. put (\<lambda>c. c\<lparr>sc_default_database := v\<rparr>))])"

definition load_storage :: "json \<Rightarrow> loader" where
  "load_storage s = (let put = (\<lambda>f cfg. cfg\<lparr>cf_storage := f (cf_storage cfg)\<rparr>) in load_all
     [field s ''data_dir'' get_string (\<lambda>v. put (\<lambda>c. c\<lparr>st_data_dir := v\<rparr>)),
      field s ''wal_dir'' get_string (\<lambda>v. put (\<lambda>c. c\<lparr>st_wal_dir := v\<rparr>)),
      field s ''buffer_size_mb'' get_int32 (\<lambda>v. put (\<lambda>c. c\<lparr>st_buffer_size_mb := v\<rparr>)),
      field s ''checkpoint_interval'' get_int32 (\<lambda>v. put (\<lambda>c. c\<lparr>st_checkpoint_interval := v\<rparr>))])"

definition load_ai :: "json \<Rightarrow> loader" where
  "load_ai a = (let put = (\<lambda>f cfg. cfg\<lparr>cf_ai := f (cf_ai cfg)\<rparr>) in load_all
     [field a ''provider'' get_string (\<lambda>v. put (\<lambda>c. c\<lparr>ai_provider := v\<rparr>)),
      field a ''api_key'' get_string (\<lambda>v. put (\<lambda>c. c\<lparr>ai_api_key := v\<rparr>)),
      field a ''api_base'' get_string (\<lambda>v. put (\<lambda>c. c\<lparr>ai_api_base := v\<rparr>)),
      field a ''model'' get_string (\<lambda>v. put (\<lambda>c. c\<lparr>ai_model := v\<rparr>))])"

definition load_peers :: "json \<Rightarrow> loader" where
  "load_peers n cfg = (let (ps, threw) = read_each get_string (j_elements (j_at n ''peers''))
     in (cfg\<lparr>cf_node := (cf_node cfg)\<lparr>nd_peers := nd_peers (cf_node cfg) @ ps\<rparr>\<rparr>, threw))"

definition load_node :: "json \<Rightarrow> loader" where
  "load_node n = (let put = (\<lambda>f cfg. cfg\<lparr>cf_node := f (cf_node cfg)\<rparr>) in load_all
     [field n ''id'' get_string (\<lambda>v. put (\<lambda>c. c\<lparr>nd_id := v\<rparr>)),
      field n ''role'' get_string (\<lambda>v. put (\<lambda>c. c\<lparr>nd_role := v\<rparr>)),
      load_peers n])"

definition config_load :: "string option \<Rightarrow> DBConfig" where
  "config_load file = (case file of None \<Rightarrow> default_config
     | Some contents \<Rightarrow> (case json_parse contents of Inl _ \<Rightarrow> default_config
         | Inr j \<Rightarrow> fst (load_all
             [load_server (j_at j ''server''), load_storage (j_at j ''storage''), load_ai (j_at j ''ai''), load_node (j_at j ''node''),
              field j ''verbose'' get_bool (\<lambda>v cfg. cfg\<lparr>cf_verbose := v\<rparr>)] default_config)))"

end
