(* ===== verification/Lexer.thy ===== *)
theory Lexer
  imports JM_Types
begin

text \<open>
  The SQL lexer of \<open>src/sql/lexer.cpp\<close>.

  \<^item> The position in the text is the unread suffix with the line and column counters; \<open>peek_char\<close>
    gives the null character at the end, and so does \<open>advance\<close> (\<open>input_[size()]\<close> of a string).
  \<^item> A loop \<open>while (P(peek_char())) text += advance()\<close> is \<open>run_while\<close>; no \<open>P\<close> of the code accepts the
    null character.
  \<^item> Character classes are those of the C locale.
\<close>

section \<open>Tokens\<close>

text \<open>The enumerators of \<open>TokenType\<close>, in the groups the source lists them in.\<close>

datatype (plugins only: code) Keyword =
  K_SELECT | K_INSERT | K_INTO | K_VALUES | K_UPDATE | K_DELETE | K_CREATE | K_DROP | K_TABLE | K_FROM |
  K_WHERE | K_SET | K_AND | K_OR | K_NOT | K_NULL | K_TRUE | K_FALSE | K_PRIMARY | K_KEY | K_INDEX | K_ON |
  K_DEFAULT | K_ORDER | K_BY | K_ASC | K_DESC | K_LIMIT | K_AS | K_DISTINCT | K_EXISTS | K_IN | K_BETWEEN |
  K_LIKE | K_IS

datatype (plugins only: code) ObjectKeyword =
  O_DATABASE | O_SCHEMA | O_USER | O_PASSWORD | O_WITH | O_USE | O_SHOW | O_DATABASES | O_USERS | O_SCHEMAS

datatype (plugins only: code) TxnKeyword =
  X_BEGIN | X_COMMIT | X_ROLLBACK | X_SAVEPOINT | X_RELEASE | X_TRANSACTION | X_ABORT | X_START | X_TO

datatype (plugins only: code) TokenType =
  Kw Keyword | Obj ObjectKeyword | Txn TxnKeyword | T_IDENTIFIER | T_INTEGER_LIT | T_FLOAT_LIT |
  T_STRING_LIT | T_BOOL_LIT | T_SEMICOLON | T_COMMA | T_DOT | T_LPAREN | T_RPAREN | T_STAR | T_EQ | T_NEQ |
  T_LT | T_GT | T_LE | T_GE | T_PLUS | T_MINUS | T_MUL | T_DIV | T_END | T_UNKNOWN

record Token =
  tk_type :: TokenType
  tk_text :: string
  tk_line :: int
  tk_col :: int

definition keyword_table :: "(string \<times> TokenType) list" where
  "keyword_table =
  [   (''SELECT'', Kw K_SELECT), (''INSERT'', Kw K_INSERT), (''INTO'', Kw K_INTO), (''VALUES'', Kw K_VALUES),
   (''UPDATE'', Kw K_UPDATE), (''DELETE'', Kw K_DELETE), (''CREATE'', Kw K_CREATE), (''DROP'', Kw K_DROP),
   (''TABLE'', Kw K_TABLE), (''FROM'', Kw K_FROM), (''WHERE'', Kw K_WHERE), (''SET'', Kw K_SET),
   (''AND'', Kw K_AND), (''OR'', Kw K_OR), (''NOT'', Kw K_NOT), (''NULL'', Kw K_NULL), (''TRUE'', Kw K_TRUE),
   (''FALSE'', Kw K_FALSE), (''PRIMARY'', Kw K_PRIMARY), (''KEY'', Kw K_KEY), (''INDEX'', Kw K_INDEX),
   (''ON'', Kw K_ON), (''DEFAULT'', Kw K_DEFAULT), (''ORDER'', Kw K_ORDER), (''BY'', Kw K_BY),
   (''ASC'', Kw K_ASC), (''DESC'', Kw K_DESC), (''LIMIT'', Kw K_LIMIT), (''AS'', Kw K_AS),
   (''DISTINCT'', Kw K_DISTINCT), (''EXISTS'', Kw K_EXISTS), (''IN'', Kw K_IN), (''BETWEEN'', Kw K_BETWEEN),
   (''LIKE'', Kw K_LIKE), (''IS'', Kw K_IS), (''BEGIN'', Txn X_BEGIN), (''COMMIT'', Txn X_COMMIT),
   (''ROLLBACK'', Txn X_ROLLBACK), (''SAVEPOINT'', Txn X_SAVEPOINT), (''RELEASE'', Txn X_RELEASE),
   (''TRANSACTION'', Txn X_TRANSACTION), (''ABORT'', Txn X_ABORT), (''START'', Txn X_START),
   (''TO'', Txn X_TO), (''DATABASE'', Obj O_DATABASE), (''SCHEMA'', Obj O_SCHEMA), (''USER'', Obj O_USER),
   (''PASSWORD'', Obj O_PASSWORD), (''WITH'', Obj O_WITH), (''USE'', Obj O_USE), (''SHOW'', Obj O_SHOW),
   (''DATABASES'', Obj O_DATABASES), (''USERS'', Obj O_USERS), (''SCHEMAS'', Obj O_SCHEMAS)]"

definition symbol_names :: "(TokenType \<times> string) list" where
  "symbol_names =
  [   (T_IDENTIFIER, ''ID''), (T_INTEGER_LIT, ''INT''), (T_FLOAT_LIT, ''FLOAT''), (T_STRING_LIT, ''STR''),
   (T_BOOL_LIT, ''BOOL''), (T_SEMICOLON, '';''), (T_COMMA, '',''), (T_DOT, ''.''), (T_LPAREN, ''(''),
   (T_RPAREN, '')''), (T_STAR, ''*''), (T_EQ, ''=''), (T_NEQ, ''!=''), (T_LT, ''<''), (T_GT, ''>''),
   (T_LE, ''<=''), (T_GE, ''>=''), (T_PLUS, ''+''), (T_MINUS, ''-''), (T_MUL, ''*''), (T_DIV, ''/''),
   (T_END, ''EOF''), (T_UNKNOWN, ''?'')]"

definition token_name :: "TokenType \<Rightarrow> string" where
  "token_name ty = (case map_of (map (\<lambda>(k, t). (t, k)) keyword_table @ symbol_names) ty of Some s \<Rightarrow> s | None \<Rightarrow> ''?'')"

definition token_to_string :: "Token \<Rightarrow> string" where
  "token_to_string t = (if tk_text t = [] then token_name (tk_type t)
     else token_name (tk_type t) @ ''('' @ tk_text t @ '')'')"

section \<open>Characters\<close>

definition is_alpha :: "char \<Rightarrow> bool" where
  "is_alpha c \<longleftrightarrow> (65 \<le> (of_char c :: nat) \<and> (of_char c :: nat) \<le> 90) \<or> (97 \<le> (of_char c :: nat) \<and> (of_char c :: nat) \<le> 122)"

definition is_alnum :: "char \<Rightarrow> bool" where
  "is_alnum c \<longleftrightarrow> is_alpha c \<or> is_digit c"

abbreviation (input) NUL :: char where
  "NUL \<equiv> CHR 0x00"

abbreviation (input) QUOTE :: char where
  "QUOTE \<equiv> CHR 0x27"

abbreviation (input) BACKSLASH :: char where
  "BACKSLASH \<equiv> CHR 0x5C"

section \<open>Position\<close>

record cursor =
  cu_rest :: string
  cu_line :: int
  cu_col :: int

record Lexer =
  lx_cursor :: cursor
  lx_peeked :: "Token option"

datatype lex_error = UnclosedComment

definition lexer_new :: "string \<Rightarrow> Lexer" where
  "lexer_new input = \<lparr>lx_cursor = \<lparr>cu_rest = input, cu_line = 1, cu_col = 1\<rparr>, lx_peeked = None\<rparr>"

definition peek_char :: "cursor \<Rightarrow> char" where
  "peek_char cu = (case cu_rest cu of [] \<Rightarrow> NUL | c # _ \<Rightarrow> c)"

definition advance_char :: "cursor \<Rightarrow> cursor" where
  "advance_char cu = (case cu_rest cu of [] \<Rightarrow> cu\<lparr>cu_col := cu_col cu + 1\<rparr>
     | c # cs \<Rightarrow> (if c = CHR 0x0A then \<lparr>cu_rest = cs, cu_line = cu_line cu + 1, cu_col = 1\<rparr>
                  else \<lparr>cu_rest = cs, cu_line = cu_line cu, cu_col = cu_col cu + 1\<rparr>))"

fun advance_n :: "nat \<Rightarrow> cursor \<Rightarrow> cursor" where
  "advance_n 0 cu = cu"
| "advance_n (Suc n) cu = advance_n n (advance_char cu)"

lemma rest_advance [simp]: "cu_rest (advance_char cu) = tl (cu_rest cu)"
  by (cases "cu_rest cu") (simp_all add: advance_char_def)

lemma rest_advance_n [simp]: "cu_rest (advance_n n cu) = drop n (cu_rest cu)"
  by (induction n arbitrary: cu) (simp_all add: drop_Suc)

definition run_while :: "(char \<Rightarrow> bool) \<Rightarrow> cursor \<Rightarrow> string \<times> cursor" where
  "run_while P cu = (let text = takeWhile P (cu_rest cu) in (text, advance_n (length text) cu))"

lemma rest_run_while [simp]: "cu_rest (snd (run_while P cu)) = dropWhile P (cu_rest cu)"
  by (simp add: run_while_def Let_def dropWhile_eq_drop)

definition skip_whitespace :: "cursor \<Rightarrow> cursor" where
  "skip_whitespace cu = snd (run_while is_space cu)"

definition skip_line_comment :: "cursor \<Rightarrow> cursor" where
  "skip_line_comment cu = snd (run_while (\<lambda>c. c \<noteq> CHR 0x0A \<and> c \<noteq> NUL) cu)"

text \<open>How many characters the rest of a block comment has, its closing mark included.\<close>

fun block_length :: "string \<Rightarrow> nat option" where
  "block_length (c # d # cs) = (if c = CHR ''*'' \<and> d = CHR ''/'' then Some 2 else map_option Suc (block_length (d # cs)))"
| "block_length _ = None"

definition skip_block_comment :: "cursor \<Rightarrow> lex_error + cursor" where
  "skip_block_comment cu = (case block_length (cu_rest cu) of None \<Rightarrow> Inl UnclosedComment | Some n \<Rightarrow> Inr (advance_n n cu))"

section \<open>Token readers\<close>

definition make_token :: "TokenType \<Rightarrow> string \<Rightarrow> cursor \<Rightarrow> Token" where
  "make_token ty text cu = \<lparr>tk_type = ty, tk_text = text, tk_line = cu_line cu, tk_col = cu_col cu - int (length text)\<rparr>"

definition make_char_token :: "TokenType \<Rightarrow> char \<Rightarrow> cursor \<Rightarrow> Token" where
  "make_char_token ty c cu = \<lparr>tk_type = ty, tk_text = [c], tk_line = cu_line cu, tk_col = cu_col cu - 1\<rparr>"

definition word_type :: "string \<Rightarrow> TokenType" where
  "word_type text = (case map_of keyword_table (map toupper text) of Some ty \<Rightarrow> ty | None \<Rightarrow> T_IDENTIFIER)"

definition read_identifier :: "cursor \<Rightarrow> Token \<times> cursor" where
  "read_identifier cu = (let (text, cu1) = run_while (\<lambda>c. is_alnum c \<or> c = CHR ''_'') cu
     in (make_token (word_type text) text cu1, cu1))"

definition read_number :: "cursor \<Rightarrow> Token \<times> cursor" where
  "read_number cu = (let (text, cu1) = run_while is_digit cu in
     if peek_char cu1 = CHR ''.''
     then (let (frac, cu2) = run_while is_digit (advance_char cu1); text = text @ CHR ''.'' # frac
           in (make_token T_FLOAT_LIT text cu2, cu2))
     else (make_token T_INTEGER_LIT text cu1, cu1))"

text \<open>The text of a string literal after its opening quote, and the number of characters read.\<close>

fun string_body :: "string \<Rightarrow> string \<times> nat" where
  "string_body [] = ([], 0)"
| "string_body (c # cs) =
     (if c = QUOTE \<or> c = NUL then ([], 0)
      else if c = BACKSLASH then (case cs of [] \<Rightarrow> ([NUL], 2)
        | d # ds \<Rightarrow> (let (text, n) = string_body ds in (d # text, n + 2)))
      else (let (text, n) = string_body cs in (c # text, n + 1)))"

definition read_string :: "cursor \<Rightarrow> Token \<times> cursor" where
  "read_string cu = (let cu0 = advance_char cu; (text, n) = string_body (cu_rest cu0); cu1 = advance_n n cu0;
       cu2 = (if peek_char cu1 = QUOTE then advance_char cu1 else cu1)
     in (make_token T_STRING_LIT text cu2, cu2))"

text \<open>The two-character operators: the first character has been read already.\<close>

definition read_compound :: "TokenType \<Rightarrow> string \<Rightarrow> TokenType \<Rightarrow> char \<Rightarrow> cursor \<Rightarrow> Token \<times> cursor" where
  "read_compound ty2 text2 ty1 c cu = (if peek_char cu = CHR ''=''
     then (let cu1 = advance_char cu in (make_token ty2 text2 cu1, cu1))
     else (make_char_token ty1 c cu, cu))"

definition read_symbol :: "cursor \<Rightarrow> Token \<times> cursor" where
  "read_symbol cu = (let c = peek_char cu; cu1 = advance_char cu in
     if c = CHR '';'' then (make_char_token T_SEMICOLON c cu1, cu1)
     else if c = CHR '','' then (make_char_token T_COMMA c cu1, cu1)
     else if c = CHR ''.'' then (make_char_token T_DOT c cu1, cu1)
     else if c = CHR ''('' then (make_char_token T_LPAREN c cu1, cu1)
     else if c = CHR '')'' then (make_char_token T_RPAREN c cu1, cu1)
     else if c = CHR ''*'' then (make_char_token T_STAR c cu1, cu1)
     else if c = CHR ''+'' then (make_char_token T_PLUS c cu1, cu1)
     else if c = CHR ''-'' then (make_char_token T_MINUS c cu1, cu1)
     else if c = CHR ''/'' then (make_char_token T_DIV c cu1, cu1)
     else if c = CHR ''='' then (make_char_token T_EQ c cu1, cu1)
     else if c = CHR ''!'' then read_compound T_NEQ ''!='' T_UNKNOWN c cu1
     else if c = CHR ''<'' then read_compound T_LE ''<='' T_LT c cu1
     else if c = CHR ''>'' then read_compound T_GE ''>='' T_GT c cu1
     else (make_char_token T_UNKNOWN c cu1, cu1))"

section \<open>The next token\<close>

text \<open>\<open>next\<close> without the token that was peeked.\<close>

function next_token :: "cursor \<Rightarrow> lex_error + (Token \<times> cursor)" where
  "next_token cu0 = (let cu = skip_whitespace cu0; c = peek_char cu in
     if c = NUL then Inr (\<lparr>tk_type = T_END, tk_text = [], tk_line = cu_line cu, tk_col = cu_col cu\<rparr>, cu)
     else if take 2 (cu_rest cu) = ''--'' then next_token (skip_line_comment cu)
     else if take 2 (cu_rest cu) = ''/*'' then
       (case skip_block_comment (advance_n 2 cu) of
          Inl e \<Rightarrow> Inl e | Inr cu1 \<Rightarrow> next_token cu1)
     else if is_alpha c \<or> c = CHR ''_'' then Inr (read_identifier cu)
     else if is_digit c then Inr (read_number cu)
     else if c = QUOTE then Inr (read_string cu)
     else Inr (read_symbol cu))"
  by pat_completeness auto
termination
proof (relation "measure (\<lambda>cu. length (cu_rest cu))", goal_cases)
  case (2 cu0 cu c)
  obtain r where r: "cu_rest cu = CHR ''-'' # r" using 2 by (cases "cu_rest cu") auto
  have "length (cu_rest (skip_line_comment cu)) \<le> length r"
    by (simp add: skip_line_comment_def r length_dropWhile_le)
  moreover have "length (cu_rest cu) \<le> length (cu_rest cu0)"
    by (simp add: 2(1) skip_whitespace_def length_dropWhile_le)
  ultimately show ?case by (simp add: r)
next
  case (3 cu0 cu c cu1)
  have "length (cu_rest cu) \<le> length (cu_rest cu0)"
    by (simp add: 3(1) skip_whitespace_def length_dropWhile_le)
  moreover have "2 \<le> length (cu_rest cu)" using arg_cong [OF 3(5), of length] by simp
  ultimately show ?case using 3(6) by (auto simp: skip_block_comment_def split: option.splits)
qed simp

declare next_token.simps [simp del]

section \<open>The lexer object\<close>

definition lex_next :: "Lexer \<Rightarrow> lex_error + (Token \<times> Lexer)" where
  "lex_next lx = (case lx_peeked lx of
     Some t \<Rightarrow> Inr (t, lx\<lparr>lx_peeked := None\<rparr>)
   | None \<Rightarrow> bindE (next_token (lx_cursor lx)) (\<lambda>(t, cu). Inr (t, lx\<lparr>lx_cursor := cu\<rparr>)))"

definition lex_peek :: "Lexer \<Rightarrow> lex_error + (Token \<times> Lexer)" where
  "lex_peek lx = (case lx_peeked lx of Some t \<Rightarrow> Inr (t, lx)
     | None \<Rightarrow> bindE (lex_next lx) (\<lambda>(t, lx1). Inr (t, lx1\<lparr>lx_peeked := Some t\<rparr>)))"

text \<open>Every token but the last one reads something.\<close>

lemma read_identifier_shorter:
  "is_alpha (peek_char cu) \<or> peek_char cu = CHR ''_'' \<Longrightarrow> length (cu_rest (snd (read_identifier cu))) < length (cu_rest cu)"
  by (cases "cu_rest cu")
    (auto simp: read_identifier_def case_prod_beta Let_def peek_char_def is_alnum_def is_alpha_def le_imp_less_Suc length_dropWhile_le)

lemma read_number_shorter: "is_digit (peek_char cu) \<Longrightarrow> length (cu_rest (snd (read_number cu))) < length (cu_rest cu)"
proof (cases "cu_rest cu")
  case (Cons c cs)
  assume "is_digit (peek_char cu)"
  then have "length (dropWhile is_digit (cu_rest cu)) < length (cu_rest cu)"
    by (simp add: Cons peek_char_def le_imp_less_Suc length_dropWhile_le)
  moreover have "length (dropWhile is_digit (tl s)) \<le> length s" for s :: string
    using length_dropWhile_le [of is_digit "tl s"] by simp
  ultimately show ?thesis by (auto simp: read_number_def case_prod_beta Let_def intro: le_less_trans)
qed (simp add: peek_char_def is_digit_def)

lemma read_string_shorter: "cu_rest cu \<noteq> [] \<Longrightarrow> length (cu_rest (snd (read_string cu))) < length (cu_rest cu)"
  by (cases "cu_rest cu") (auto simp: read_string_def case_prod_beta Let_def)

lemma read_symbol_shorter: "cu_rest cu \<noteq> [] \<Longrightarrow> length (cu_rest (snd (read_symbol cu))) < length (cu_rest cu)"
  by (cases "cu_rest cu") (auto simp: read_symbol_def read_compound_def Let_def)

lemma next_token_shorter:
  "next_token cu = Inr (t, cu') \<Longrightarrow> tk_type t \<noteq> T_END \<Longrightarrow> length (cu_rest cu') < length (cu_rest cu)"
proof (induction cu rule: next_token.induct)
  case (1 cu0)
  let ?cu = "skip_whitespace cu0"
  have le: "length (cu_rest ?cu) \<le> length (cu_rest cu0)"
    by (simp add: skip_whitespace_def length_dropWhile_le)
  show ?case
  proof (cases "peek_char ?cu = NUL \<or> take 2 (cu_rest ?cu) = ''--'' \<or> take 2 (cu_rest ?cu) = ''/*''")
    case False
    then have "cu_rest ?cu \<noteq> []" by (auto simp: peek_char_def)
    with "1.prems" False le show ?thesis
      using read_identifier_shorter [of ?cu] read_number_shorter [of ?cu] read_string_shorter [of ?cu] read_symbol_shorter [of ?cu]
      by (subst (asm) next_token.simps) (auto simp: Let_def split: if_splits)
  next
    case True
    then consider (nul) "peek_char ?cu = NUL" | (line) "peek_char ?cu \<noteq> NUL" "take 2 (cu_rest ?cu) = ''--''"
      | (block) "peek_char ?cu \<noteq> NUL" "take 2 (cu_rest ?cu) \<noteq> ''--''" "take 2 (cu_rest ?cu) = ''/*''" by blast
    then show ?thesis
    proof cases
      case nul
      with "1.prems" show ?thesis by (subst (asm) next_token.simps) (auto simp: Let_def)
    next
      case line
      have "next_token (skip_line_comment ?cu) = Inr (t, cu')"
        using "1.prems"(1) line by (subst (asm) next_token.simps) simp
      then have "length (cu_rest cu') < length (cu_rest (skip_line_comment ?cu))"
        using "1.IH"(1) [OF refl refl] line "1.prems"(2) by simp
      moreover have "length (cu_rest (skip_line_comment ?cu)) \<le> length (cu_rest ?cu)"
        by (simp add: skip_line_comment_def length_dropWhile_le)
      ultimately show ?thesis using le by simp
    next
      case block
      then obtain cu1 where cu1: "skip_block_comment (advance_n 2 ?cu) = Inr cu1" "next_token cu1 = Inr (t, cu')"
        using "1.prems"(1) by (subst (asm) next_token.simps) (auto simp: Let_def split: sum.splits)
      then have "length (cu_rest cu') < length (cu_rest cu1)"
        using "1.IH"(2) [OF refl refl _ _ _ cu1(1)] block "1.prems"(2) by simp
      moreover have "length (cu_rest cu1) \<le> length (cu_rest ?cu)"
        using cu1(1) by (auto simp: skip_block_comment_def split: option.splits)
      ultimately show ?thesis using le by simp
    qed
  qed
qed

definition lexer_size :: "Lexer \<Rightarrow> nat" where
  "lexer_size lx = length (cu_rest (lx_cursor lx)) + (if lx_peeked lx = None then 0 else 1)"

lemma lex_next_shorter: "lex_next lx = Inr (t, lx') \<Longrightarrow> tk_type t \<noteq> T_END \<Longrightarrow> lexer_size lx' < lexer_size lx"
  by (auto simp: lex_next_def lexer_size_def bindE_Inr dest: next_token_shorter split: option.splits)

function tokenize :: "Lexer \<Rightarrow> lex_error + Token list" where
  "tokenize lx = (case lex_next lx of Inl e \<Rightarrow> Inl e
     | Inr (t, lx1) \<Rightarrow> if tk_type t = T_END then Inr [t] else bindE (tokenize lx1) (\<lambda>ts. Inr (t # ts)))"
  by pat_completeness auto
termination
  by (relation "measure lexer_size") (auto dest: lex_next_shorter)

declare tokenize.simps [simp del]

section \<open>The token stream\<close>

lemma tokenize_shape:
  "tokenize lx = Inr ts \<Longrightarrow> ts \<noteq> [] \<and> tk_type (last ts) = T_END \<and> (\<forall>t \<in> set (butlast ts). tk_type t \<noteq> T_END)"
proof (induction lx arbitrary: ts rule: tokenize.induct)
  case (1 lx)
  obtain t lx1 where nx: "lex_next lx = Inr (t, lx1)"
    using "1.prems" by (subst (asm) tokenize.simps) (auto split: sum.splits)
  show ?case
  proof (cases "tk_type t = T_END")
    case True
    with "1.prems" nx show ?thesis by (subst (asm) tokenize.simps) auto
  next
    case False
    then obtain ts1 where "tokenize lx1 = Inr ts1" "ts = t # ts1"
      using "1.prems" nx by (subst (asm) tokenize.simps) (auto simp: bindE_Inr)
    with "1.IH" [OF nx refl False] False show ?thesis by auto
  qed
qed

text \<open>Writing lexemes so that the lexer reads them back: text with escapes, a blank after each.\<close>

definition escape :: "string \<Rightarrow> string" where
  "escape s = concat (map (\<lambda>c. if c = QUOTE \<or> c = BACKSLASH \<or> c = NUL then [BACKSLASH, c] else [c]) s)"

definition spell :: "TokenType \<times> string \<Rightarrow> string" where
  "spell l = (if fst l = T_STRING_LIT then [QUOTE] @ escape (snd l) @ [QUOTE] else snd l)"

definition symbols :: "(TokenType \<times> string) list" where
  "symbols = [(T_SEMICOLON, '';''), (T_COMMA, '',''), (T_DOT, ''.''), (T_LPAREN, ''(''), (T_RPAREN, '')''), (T_STAR, ''*''),
     (T_PLUS, ''+''), (T_MINUS, ''-''), (T_DIV, ''/''), (T_EQ, ''=''), (T_NEQ, ''!=''), (T_LT, ''<''), (T_LE, ''<=''),
     (T_GT, ''>''), (T_GE, ''>='')]"

definition word_ok :: "string \<Rightarrow> bool" where
  "word_ok s \<longleftrightarrow> (case s of [] \<Rightarrow> False | c # cs \<Rightarrow> (is_alpha c \<or> c = CHR ''_'') \<and> list_all (\<lambda>c. is_alnum c \<or> c = CHR ''_'') cs)"

fun lexeme_ok :: "TokenType \<times> string \<Rightarrow> bool" where
  "lexeme_ok (T_INTEGER_LIT, s) \<longleftrightarrow> s \<noteq> [] \<and> list_all is_digit s"
| "lexeme_ok (T_FLOAT_LIT, s) \<longleftrightarrow> is_digit (hd s) \<and>
     (case dropWhile is_digit s of [] \<Rightarrow> False | c # cs \<Rightarrow> c = CHR ''.'' \<and> list_all is_digit cs)"
| "lexeme_ok (T_STRING_LIT, s) \<longleftrightarrow> True"
| "lexeme_ok (ty, s) \<longleftrightarrow> word_ok s \<and> ty = word_type s \<or> (ty, s) \<in> set symbols"

definition spell_all :: "(TokenType \<times> string) list \<Rightarrow> string" where
  "spell_all ls = concat (map (\<lambda>l. spell l @ '' '') ls)"

abbreviation lexeme :: "Token \<Rightarrow> TokenType \<times> string" where
  "lexeme t \<equiv> (tk_type t, tk_text t)"

lemma word_chars:
  "is_alnum c \<Longrightarrow> \<not> is_space c" "is_alpha c \<Longrightarrow> \<not> is_space c" "is_alpha c \<Longrightarrow> \<not> is_digit c" "is_alpha c \<Longrightarrow> is_alnum c"
  "\<not> is_alnum (CHR '' '')" "\<not> is_digit (CHR '' '')" "\<not> is_digit (CHR ''.'')" "\<not> is_digit (CHR ''_'')" "\<not> is_space (CHR ''_'')"
  "\<not> is_alpha NUL" "\<not> is_alpha (CHR ''-'')" "\<not> is_alpha (CHR ''/'')"
  by (auto simp: is_alnum_def is_alpha_def is_digit_def is_space_def)

lemma takeWhile_blank: "list_all P s \<Longrightarrow> \<not> P (CHR '' '') \<Longrightarrow> takeWhile P (s @ CHR '' '' # r) = s"
  by (induction s) simp_all

lemma make_token_lexeme [simp]: "tk_type (make_token ty s cu) = ty" "tk_text (make_token ty s cu) = s"
  "tk_type (make_char_token ty c cu) = ty" "tk_text (make_char_token ty c cu) = [c]"
  by (simp_all add: make_token_def make_char_token_def)

lemma string_body_escape: "string_body (escape s @ QUOTE # r) = (s, length (escape s))"
  by (induction s) (simp_all add: escape_def)

lemma next_token_word:
  assumes rest: "dropWhile is_space (cu_rest cu) = s @ CHR '' '' # r" and s: "word_ok s"
  shows "\<exists>t cu'. next_token cu = Inr (t, cu') \<and> lexeme t = (word_type s, s) \<and> cu_rest cu' = CHR '' '' # r"
proof -
  let ?cu = "skip_whitespace cu" and ?P = "\<lambda>c. is_alnum c \<or> c = CHR ''_''"
  have r: "cu_rest ?cu = s @ CHR '' '' # r" by (simp add: skip_whitespace_def rest)
  obtain c cs where cs: "s = c # cs" "is_alpha c \<or> c = CHR ''_''" "list_all ?P cs"
    using s by (cases s) (auto simp: word_ok_def)
  then have all: "list_all ?P s" using word_chars(4) by auto
  then have read: "fst (run_while ?P ?cu) = s" "cu_rest (snd (run_while ?P ?cu)) = CHR '' '' # r"
    using takeWhile_blank [OF all] word_chars(5) by (simp_all add: run_while_def Let_def r)
  have "next_token cu = Inr (read_identifier ?cu)"
    using cs word_chars(10,11,12) by (subst next_token.simps) (auto simp: Let_def r peek_char_def)
  then show ?thesis using read by (auto simp: read_identifier_def case_prod_beta)
qed

lemma next_token_int:
  assumes rest: "dropWhile is_space (cu_rest cu) = s @ CHR '' '' # r" and s: "s \<noteq> []" "list_all is_digit s"
  shows "\<exists>t cu'. next_token cu = Inr (t, cu') \<and> lexeme t = (T_INTEGER_LIT, s) \<and> cu_rest cu' = CHR '' '' # r"
proof -
  let ?cu = "skip_whitespace cu"
  have r: "cu_rest ?cu = s @ CHR '' '' # r" by (simp add: skip_whitespace_def rest)
  obtain c cs where cs: "s = c # cs" "is_digit c" using s by (cases s) auto
  have read: "fst (run_while is_digit ?cu) = s" "cu_rest (snd (run_while is_digit ?cu)) = CHR '' '' # r"
    using takeWhile_blank [OF s(2)] word_chars(6) s(2) by (simp_all add: run_while_def Let_def r)
  have "next_token cu = Inr (read_number ?cu)"
    using cs word_chars(3,8) by (subst next_token.simps) (auto simp: Let_def r peek_char_def is_digit_def is_alpha_def)
  then show ?thesis using read by (auto simp: read_number_def case_prod_beta Let_def peek_char_def)
qed

lemma next_token_float:
  assumes rest: "dropWhile is_space (cu_rest cu) = a @ CHR ''.'' # b @ CHR '' '' # r"
    and a: "a \<noteq> []" "list_all is_digit a" and b: "list_all is_digit b"
  shows "\<exists>t cu'. next_token cu = Inr (t, cu') \<and> lexeme t = (T_FLOAT_LIT, a @ CHR ''.'' # b) \<and> cu_rest cu' = CHR '' '' # r"
proof -
  let ?cu = "skip_whitespace cu"
  let ?cu1 = "snd (run_while is_digit ?cu)"
  have r: "cu_rest ?cu = a @ CHR ''.'' # b @ CHR '' '' # r" by (simp add: skip_whitespace_def rest)
  obtain c cs where cs: "a = c # cs" "is_digit c" using a by (cases a) auto
  have "takeWhile is_digit (a @ CHR ''.'' # x) = a" for x using a(2) word_chars(7) by (induction a) simp_all
  then have read: "fst (run_while is_digit ?cu) = a" "cu_rest ?cu1 = CHR ''.'' # b @ CHR '' '' # r"
    by (simp_all add: run_while_def Let_def r)
  have frac: "fst (run_while is_digit (advance_char ?cu1)) = b" "cu_rest (snd (run_while is_digit (advance_char ?cu1))) = CHR '' '' # r"
    using takeWhile_blank [OF b] word_chars(6) read(2) by (simp_all add: run_while_def Let_def)
  have "next_token cu = Inr (read_number ?cu)"
    using cs word_chars(3,8) by (subst next_token.simps) (auto simp: Let_def r peek_char_def is_digit_def is_alpha_def)
  then show ?thesis using read frac by (auto simp: read_number_def case_prod_beta Let_def peek_char_def)
qed

lemma next_token_string:
  assumes rest: "dropWhile is_space (cu_rest cu) = spell (T_STRING_LIT, s) @ CHR '' '' # r"
  shows "\<exists>t cu'. next_token cu = Inr (t, cu') \<and> lexeme t = (T_STRING_LIT, s) \<and> cu_rest cu' = CHR '' '' # r"
proof -
  let ?cu = "skip_whitespace cu"
  have r: "cu_rest ?cu = QUOTE # escape s @ QUOTE # CHR '' '' # r" by (simp add: skip_whitespace_def rest spell_def)
  have "next_token cu = Inr (read_string ?cu)"
    by (subst next_token.simps) (auto simp: Let_def r peek_char_def is_digit_def is_alpha_def)
  then show ?thesis by (auto simp: read_string_def case_prod_beta Let_def peek_char_def r string_body_escape)
qed

lemma symbol_heads:
  "list_all (\<lambda>(ty, s). s \<noteq> [] \<and> \<not> is_alpha (hd s) \<and> \<not> is_digit (hd s) \<and> \<not> is_space (hd s) \<and> hd s \<notin> {NUL, QUOTE, CHR ''_''} \<and>
     take 2 (s @ '' '') \<notin> {''--'', ''/*''}) symbols"
  by code_simp

lemma next_token_symbol:
  assumes rest: "dropWhile is_space (cu_rest cu) = s @ CHR '' '' # r" and s: "(ty, s) \<in> set symbols"
  shows "\<exists>t cu'. next_token cu = Inr (t, cu') \<and> lexeme t = (ty, s) \<and> cu_rest cu' = CHR '' '' # r"
proof -
  let ?cu = "skip_whitespace cu"
  have r: "cu_rest ?cu = s @ CHR '' '' # r" by (simp add: skip_whitespace_def rest)
  from s symbol_heads have h: "s \<noteq> []" "\<not> is_alpha (hd s)" "\<not> is_digit (hd s)" "hd s \<notin> {NUL, QUOTE, CHR ''_''}"
    "take 2 (s @ '' '') \<notin> {''--'', ''/*''}" unfolding list_all_iff by blast+
  obtain c cs where cs: "s = c # cs" using h(1) by (cases s) auto
  have "take 2 (s @ CHR '' '' # r) = take 2 (s @ '' '')" by (cases cs) (simp_all add: cs numeral_2_eq_2)
  moreover have "peek_char ?cu = hd s" by (simp add: r peek_char_def cs)
  ultimately have "next_token cu = Inr (read_symbol ?cu)"
    using h by (subst next_token.simps) (simp add: Let_def r)
  moreover have "lexeme (fst (read_symbol ?cu)) = (ty, s) \<and> cu_rest (snd (read_symbol ?cu)) = CHR '' '' # r"
    using s unfolding symbols_def set_simps insert_iff empty_iff prod.inject simp_thms
    by (elim disjE conjE) (simp_all add: read_symbol_def read_compound_def Let_def peek_char_def r)
  ultimately show ?thesis by (metis prod.collapse)
qed

lemma lexeme_ok_cases:
  assumes "lexeme_ok (ty, s)"
  obtains (int) "ty = T_INTEGER_LIT" "s \<noteq> []" "list_all is_digit s"
    | (float) a b where "ty = T_FLOAT_LIT" "s = a @ CHR ''.'' # b" "a \<noteq> []" "list_all is_digit a" "list_all is_digit b"
    | (string) "ty = T_STRING_LIT"
    | (word) "ty \<noteq> T_STRING_LIT" "word_ok s" "ty = word_type s"
    | (symbol) "ty \<noteq> T_STRING_LIT" "(ty, s) \<in> set symbols"
proof (cases "ty = T_FLOAT_LIT")
  case True
  let ?a = "takeWhile is_digit s"
  obtain b where b: "dropWhile is_digit s = CHR ''.'' # b" "list_all is_digit b" "is_digit (hd s)"
    using assms True by (auto split: list.splits)
  have "s = ?a @ CHR ''.'' # b" using takeWhile_dropWhile_id [of is_digit s] b(1) by simp
  moreover have "?a \<noteq> []" using b by (cases s) auto
  moreover have "list_all is_digit ?a" by (auto simp: list_all_iff dest: set_takeWhileD)
  ultimately show ?thesis using that(2) [OF True] b(2) by blast
next
  case False
  with assms that show ?thesis by (cases ty) auto
qed

lemma spell_plain: "ty \<noteq> T_STRING_LIT \<Longrightarrow> spell (ty, s) = s"
  by (simp add: spell_def)

lemma next_token_spelled:
  assumes rest: "dropWhile is_space (cu_rest cu) = spell (ty, s) @ CHR '' '' # r" and ok: "lexeme_ok (ty, s)"
  shows "\<exists>t cu'. next_token cu = Inr (t, cu') \<and> lexeme t = (ty, s) \<and> cu_rest cu' = CHR '' '' # r"
  using ok
proof (cases rule: lexeme_ok_cases)
  case int
  with rest next_token_int show ?thesis by (simp add: spell_plain)
next
  case (float a b)
  with rest next_token_float [of cu a b r] show ?thesis by (simp add: spell_plain)
next
  case string
  with rest next_token_string show ?thesis by simp
next
  case word
  with rest next_token_word show ?thesis by (simp add: spell_plain)
next
  case symbol
  with rest next_token_symbol show ?thesis by (simp add: spell_plain)
qed

lemma spell_head: "lexeme_ok (ty, s) \<Longrightarrow> \<exists>c cs. spell (ty, s) = c # cs \<and> \<not> is_space c"
proof (erule lexeme_ok_cases)
  fix a b assume "s = a @ CHR ''.'' # b" "a \<noteq> []" "list_all is_digit a" "ty = T_FLOAT_LIT"
  then show ?thesis by (cases a) (auto simp: spell_plain is_digit_def is_space_def)
next
  assume "(ty, s) \<in> set symbols" "ty \<noteq> T_STRING_LIT"
  then show ?thesis using symbol_heads unfolding list_all_iff by (cases s) (auto simp: spell_plain)
next
  assume "word_ok s" "ty \<noteq> T_STRING_LIT"
  then show ?thesis using word_chars(2,9) by (cases s) (auto simp: spell_plain word_ok_def)
qed (auto simp: spell_def is_space_def is_digit_def neq_Nil_conv)

lemma next_token_end:
  assumes "list_all is_space (cu_rest cu)"
  shows "\<exists>t cu'. next_token cu = Inr (t, cu') \<and> lexeme t = (T_END, [])"
proof -
  have "cu_rest (skip_whitespace cu) = []" using assms by (simp add: skip_whitespace_def list_all_iff)
  then show ?thesis by (subst next_token.simps) (simp add: Let_def peek_char_def)
qed

lemma tokenize_spelled:
  "list_all lexeme_ok ls \<Longrightarrow> lx_peeked lx = None \<Longrightarrow> dropWhile is_space (cu_rest (lx_cursor lx)) = spell_all ls \<Longrightarrow>
   \<exists>ts. tokenize lx = Inr ts \<and> map lexeme ts = ls @ [(T_END, [])]"
proof (induction ls arbitrary: lx)
  case Nil
  then have "list_all is_space (cu_rest (lx_cursor lx))" by (simp add: spell_all_def list_all_iff)
  from next_token_end [OF this] Nil(2) show ?case
    by (subst tokenize.simps) (auto simp: lex_next_def)
next
  case (Cons l ls)
  obtain ty s where l: "l = (ty, s)" by (cases l)
  obtain t cu where t: "next_token (lx_cursor lx) = Inr (t, cu)" "lexeme t = (ty, s)" "cu_rest cu = CHR '' '' # spell_all ls"
    using next_token_spelled [of "lx_cursor lx" ty s "spell_all ls"] Cons.prems by (auto simp: spell_all_def l)
  have "dropWhile is_space (CHR '' '' # spell_all ls) = spell_all ls"
  proof (cases ls)
    case (Cons l' ls')
    then show ?thesis using spell_head [of "fst l'" "snd l'"] Cons.prems(1) by (auto simp: spell_all_def is_space_def)
  qed (simp add: spell_all_def is_space_def)
  then obtain ts where ts: "tokenize (lx\<lparr>lx_cursor := cu\<rparr>) = Inr ts" "map lexeme ts = ls @ [(T_END, [])]"
    using Cons.IH [of "lx\<lparr>lx_cursor := cu\<rparr>"] Cons.prems t(3) by auto
  have "ty \<noteq> T_END" using Cons.prems(1) by (auto simp: l word_type_def keyword_table_def symbols_def split: if_splits)
  then have "tokenize lx = Inr (t # ts)"
    using t(1,2) ts(1) Cons.prems(2) by (subst tokenize.simps) (simp add: lex_next_def)
  with ts(2) t(2) show ?case by (simp add: l)
qed

lemma lexer_reads_back:
  assumes "list_all lexeme_ok ls"
  shows "\<exists>ts. tokenize (lexer_new (spell_all ls)) = Inr ts \<and> map lexeme ts = ls @ [(T_END, [])]"
proof -
  have "dropWhile is_space (spell_all ls) = spell_all ls"
  proof (cases ls)
    case (Cons l ls')
    then show ?thesis using spell_head [of "fst l" "snd l"] assms by (auto simp: spell_all_def)
  qed (simp add: spell_all_def)
  then show ?thesis using tokenize_spelled [OF assms, of "lexer_new (spell_all ls)"] by (simp add: lexer_new_def)
qed

section \<open>Properties\<close>

text \<open>Tokenizing ends on every text: either with a list whose last token, and no other, is the end
  token, or by throwing, and it throws only for an unclosed block comment.\<close>

theorem tokenize_total:
  "(\<exists>ts. tokenize (lexer_new input) = Inr ts \<and> ts \<noteq> [] \<and> tk_type (last ts) = T_END \<and>
      T_END \<notin> tk_type ` set (butlast ts)) \<or>
   tokenize (lexer_new input) = Inl UnclosedComment"
proof (cases "tokenize (lexer_new input)")
  case (Inl e)
  then show ?thesis by (cases e) simp
next
  case (Inr ts)
  with tokenize_shape [OF Inr] show ?thesis by auto
qed

text \<open>C17: Words, keywords in any case, integers, decimals, operators and string literals of any characters,
  written one after the other with the quotes, backslashes and null characters of a literal escaped, are
  read back exactly, in order and with their types.\<close>

theorem lexer_roundtrip:
  assumes "list_all lexeme_ok ls"
  shows "\<exists>ts. tokenize (lexer_new (spell_all ls)) = Inr ts \<and> map lexeme ts = ls @ [(T_END, [])]"
  using assms by (rule lexer_reads_back)

lemma lexer_roundtrip_witness:
  "\<exists>ts. tokenize (lexer_new (''select '' @ [CHR 0x27] @ ''it'' @ [CHR 0x5C, CHR 0x27] @ ''s'' @ [CHR 0x27] @ '' <= 3.5 '')) = Inr ts \<and>
     map lexeme ts = [(Kw K_SELECT, ''select''), (T_STRING_LIT, ''it'' @ [CHR 0x27] @ ''s''), (T_LE, ''<=''), (T_FLOAT_LIT, ''3.5''), (T_END, [])]"
proof -
  have "list_all lexeme_ok [(Kw K_SELECT, ''select''), (T_STRING_LIT, ''it'' @ [CHR 0x27] @ ''s''), (T_LE, ''<=''), (T_FLOAT_LIT, ''3.5'')]"
    by code_simp
  from lexer_roundtrip [OF this] show ?thesis by (simp add: spell_all_def spell_def escape_def)
qed

end
