(* ===== verification/Parser.thy ===== *)
theory Parser
  imports Lexer Statements
begin

text \<open>
  The recursive-descent parser of \<open>src/sql/parser.cpp\<close>.

  \<^item> \<open>tokens_\<close> with \<open>pos_\<close> is the list of tokens not yet read. \<open>advance\<close> never moves past the end token,
    so a list that the lexer made keeps its end token; an empty list reads as one.
  \<^item> A production is a \<open>parser\<close>: it gives an exception, or its result and the tokens left.
  \<^item> The texts of the exceptions are constructors that carry what the text mentions.
  \<^item> The loops and the recursion through parentheses and prefix operators carry fuel; they are started
    with more than one unit per token left (\<open>fuelP\<close>), and \<open>OutOfFuel\<close> is shown never to come out.
\<close>

section \<open>Parsers\<close>

datatype parse_error = Expected TokenType int string | ExpectedExpression string | UnsupportedStatement string
  | UserNeedsPassword | ShowWhat string | NumberError num_error | OutOfFuel

type_synonym 'a parser = "Token list \<Rightarrow> parse_error + ('a \<times> Token list)"

definition retP :: "'a \<Rightarrow> 'a parser" where
  "retP x ts = Inr (x, ts)"

definition failP :: "parse_error \<Rightarrow> 'a parser" where
  "failP e ts = Inl e"

definition bindP :: "'a parser \<Rightarrow> ('a \<Rightarrow> 'b parser) \<Rightarrow> 'b parser" where
  "bindP p f ts = (case p ts of Inl e \<Rightarrow> Inl e | Inr (x, ts1) \<Rightarrow> f x ts1)"

definition thenP :: "'a parser \<Rightarrow> 'b parser \<Rightarrow> 'b parser" where
  "thenP p q = bindP p (\<lambda>_. q)"

definition fuelP :: "(nat \<Rightarrow> 'a parser) \<Rightarrow> 'a parser" where
  "fuelP g ts = g (Suc (length ts)) ts"

definition peek :: "Token list \<Rightarrow> Token" where
  "peek ts = (case ts of [] \<Rightarrow> \<lparr>tk_type = T_END, tk_text = [], tk_line = 0, tk_col = 0\<rparr> | t # _ \<Rightarrow> t)"

abbreviation peek_type :: "Token list \<Rightarrow> TokenType" where
  "peek_type ts \<equiv> tk_type (peek ts)"

definition is_at_end :: "Token list \<Rightarrow> bool" where
  "is_at_end ts \<longleftrightarrow> peek_type ts = T_END"

definition check :: "TokenType \<Rightarrow> Token list \<Rightarrow> bool" where
  "check ty ts \<longleftrightarrow> \<not> is_at_end ts \<and> peek_type ts = ty"

definition advance :: "Token parser" where
  "advance ts = Inr (peek ts, if is_at_end ts then ts else tl ts)"

definition expect :: "TokenType \<Rightarrow> Token parser" where
  "expect ty ts = (if peek_type ts \<noteq> ty then Inl (Expected ty (tk_line (peek ts)) (tk_text (peek ts))) else advance ts)"

text \<open>\<open>if (match(ty)) p else q\<close>\<close>

definition ifMatch :: "TokenType \<Rightarrow> 'a parser \<Rightarrow> 'a parser \<Rightarrow> 'a parser" where
  "ifMatch ty p q ts = (if check ty ts then thenP advance p ts else q ts)"

definition ifPeek :: "(Token \<Rightarrow> bool) \<Rightarrow> 'a parser \<Rightarrow> 'a parser \<Rightarrow> 'a parser" where
  "ifPeek P p q ts = (if P (peek ts) then p ts else q ts)"

definition ident :: "string parser" where
  "ident = bindP (expect T_IDENTIFIER) (\<lambda>t. retP (tk_text t))"

text \<open>\<open>while (match(COMMA)) xs.push_back(p)\<close>\<close>

fun comma_loop :: "'a parser \<Rightarrow> nat \<Rightarrow> 'a list parser" where
  "comma_loop p 0 = failP OutOfFuel"
| "comma_loop p (Suc n) = ifMatch T_COMMA (bindP p (\<lambda>x. bindP (comma_loop p n) (\<lambda>xs. retP (x # xs)))) (retP [])"

definition comma_list :: "'a parser \<Rightarrow> 'a list parser" where
  "comma_list p = bindP p (\<lambda>x. bindP (fuelP (comma_loop p)) (\<lambda>xs. retP (x # xs)))"

definition parse_ident_list :: "string list parser" where
  "parse_ident_list = comma_list ident"

section \<open>Expressions\<close>

text \<open>\<open>while (match(op)) expr = make_binary_op(op, expr, p())\<close> over the operators of one level.\<close>

fun binary_loop :: "(TokenType \<times> string) list \<Rightarrow> Expression parser \<Rightarrow> Expression \<Rightarrow> nat \<Rightarrow> Expression parser" where
  "binary_loop ops p e 0 = failP OutOfFuel"
| "binary_loop ops p e (Suc n) = (\<lambda>ts. case map_of ops (peek_type ts) of None \<Rightarrow> Inr (e, ts)
     | Some opn \<Rightarrow> thenP advance (bindP p (\<lambda>r. binary_loop ops p (BinaryOp opn e r) n)) ts)"

definition mul_ops :: "(TokenType \<times> string) list" where
  "mul_ops = [(T_MUL, ''*''), (T_STAR, ''*''), (T_DIV, ''/'')]"

definition add_ops :: "(TokenType \<times> string) list" where
  "add_ops = [(T_PLUS, ''+''), (T_MINUS, ''-'')]"

definition cmp_ops :: "(TokenType \<times> string) list" where
  "cmp_ops = [(T_EQ, ''=''), (T_NEQ, ''!=''), (T_LT, ''<''), (T_GT, ''>''), (T_LE, ''<=''), (T_GE, ''>='')]"

definition parse_multiplication :: "Expression parser \<Rightarrow> Expression parser" where
  "parse_multiplication unary = bindP unary (\<lambda>e. fuelP (binary_loop mul_ops unary e))"

definition parse_addition :: "Expression parser \<Rightarrow> Expression parser" where
  "parse_addition unary = bindP (parse_multiplication unary) (\<lambda>e. fuelP (binary_loop add_ops (parse_multiplication unary) e))"

definition parse_comparison :: "Expression parser \<Rightarrow> Expression parser" where
  "parse_comparison unary = bindP (parse_addition unary) (\<lambda>e ts. case map_of cmp_ops (peek_type ts) of None \<Rightarrow> Inr (e, ts)
     | Some opn \<Rightarrow> thenP advance (bindP (parse_addition unary) (\<lambda>r. retP (BinaryOp opn e r))) ts)"

definition parse_and :: "Expression parser \<Rightarrow> Expression parser" where
  "parse_and unary = bindP (parse_comparison unary) (\<lambda>e. fuelP (binary_loop [(Kw K_AND, ''AND'')] (parse_comparison unary) e))"

definition parse_or :: "Expression parser \<Rightarrow> Expression parser" where
  "parse_or unary = bindP (parse_and unary) (\<lambda>e. fuelP (binary_loop [(Kw K_OR, ''OR'')] (parse_and unary) e))"

definition number :: "('n \<Rightarrow> val) \<Rightarrow> num_error + 'n \<Rightarrow> Expression parser" where
  "number mk r = (case r of Inl e \<Rightarrow> failP (NumberError e) | Inr n \<Rightarrow> retP (Literal (mk n)))"

text \<open>\<open>parse_primary\<close>; its argument parses the expression in parentheses.\<close>

definition parse_primary :: "Expression parser \<Rightarrow> Expression parser" where
  "parse_primary expr ts =
     (let text = tk_text (peek ts) in
      ifMatch T_INTEGER_LIT (number VInt (stoll text))
     (ifMatch T_FLOAT_LIT (number VDouble (stod text))
     (ifMatch T_STRING_LIT (retP (Literal (VString text)))
     (ifMatch (Kw K_TRUE) (retP (Literal (VBool True)))
     (ifMatch (Kw K_FALSE) (retP (Literal (VBool False)))
     (ifMatch (Kw K_NULL) (retP (Literal VNull))
     (ifMatch T_IDENTIFIER (retP (ColumnRef text))
     (ifMatch T_LPAREN (bindP expr (\<lambda>e. thenP (expect T_RPAREN) (retP e)))
     (failP (ExpectedExpression text))))))))) ts)"

fun parse_unary :: "nat \<Rightarrow> Expression parser" where
  "parse_unary 0 = failP OutOfFuel"
| "parse_unary (Suc n) =
     ifMatch (Kw K_NOT) (bindP (parse_unary n) (\<lambda>e. retP (UnaryOp ''NOT'' e)))
    (ifMatch T_MINUS (bindP (parse_unary n) (\<lambda>e. retP (BinaryOp ''-'' (Literal (VInt 0)) e)))
    (parse_primary (parse_or (parse_unary n))))"

definition parse_expression :: "Expression parser" where
  "parse_expression = fuelP (\<lambda>n. parse_or (parse_unary n))"

text \<open>\<open>parse_primary()->literal\<close>: a node that is no literal has a null in that member.\<close>

definition literal_of :: "Expression \<Rightarrow> val" where
  "literal_of e = (case e of Literal v \<Rightarrow> v | _ \<Rightarrow> VNull)"

definition value_item :: "val parser" where
  "value_item = bindP (parse_primary parse_expression) (\<lambda>e. retP (literal_of e))"

section \<open>Data statements\<close>

definition optional_where :: "Expression option parser" where
  "optional_where = ifMatch (Kw K_WHERE) (bindP parse_expression (\<lambda>e. retP (Some e))) (retP None)"

definition skip_order_by :: "unit parser" where
  "skip_order_by = ifMatch (Kw K_ORDER)
     (thenP (expect (Kw K_BY)) (thenP advance (ifMatch (Kw K_ASC) (retP ()) (ifMatch (Kw K_DESC) (retP ()) (retP ())))))
     (retP ())"

definition skip_limit :: "unit parser" where
  "skip_limit = ifMatch (Kw K_LIMIT) (ifPeek (\<lambda>t. tk_type t = T_INTEGER_LIT) (thenP advance (retP ())) (retP ())) (retP ())"

definition parse_select :: "Statement parser" where
  "parse_select = thenP (expect (Kw K_SELECT))
     (bindP (ifMatch T_STAR (retP []) (comma_list ident)) (\<lambda>columns.
      thenP (expect (Kw K_FROM)) (bindP ident (\<lambda>table. bindP optional_where (\<lambda>where.
      thenP skip_order_by (thenP skip_limit
        (retP (Select \<lparr>sel_columns = columns, sel_from = table, sel_where = where\<rparr>))))))))"

definition value_row :: "val list parser" where
  "value_row = thenP (expect T_LPAREN) (bindP (comma_list value_item) (\<lambda>row. thenP (expect T_RPAREN) (retP row)))"

text \<open>\<open>while (peek().type == COMMA) { advance(); row }\<close> is the same loop.\<close>

definition parse_insert :: "Statement parser" where
  "parse_insert = thenP (expect (Kw K_INSERT)) (thenP (expect (Kw K_INTO)) (bindP ident (\<lambda>table.
     bindP (\<lambda>ts. if peek_type ts = T_LPAREN \<and> peek_type (tl ts) \<noteq> Kw K_SELECT
        then thenP (expect T_LPAREN) (bindP (comma_list ident) (\<lambda>cs. thenP (expect T_RPAREN) (retP cs))) ts
        else Inr ([], ts)) (\<lambda>columns.
     thenP (ifPeek (\<lambda>t. tk_type t = Kw K_VALUES \<or> tk_text t = ''VALUE'' \<or> tk_text t = ''value'') (thenP advance (retP ())) (retP ()))
     (bindP (comma_list value_row) (\<lambda>rows.
        retP (Insert \<lparr>ins_table = table, ins_columns = columns, ins_values = rows\<rparr>)))))))"

definition assignment :: "(string \<times> Expression) parser" where
  "assignment = bindP ident (\<lambda>c. thenP (expect T_EQ) (bindP parse_expression (\<lambda>e. retP (c, e))))"

definition parse_update :: "Statement parser" where
  "parse_update = thenP (expect (Kw K_UPDATE)) (bindP ident (\<lambda>table. thenP (expect (Kw K_SET))
     (bindP (comma_list assignment) (\<lambda>sets. bindP optional_where (\<lambda>where.
        retP (Update \<lparr>upd_table = table, upd_sets = fold (\<lambda>(c, e). omap_put c e) sets [], upd_where = where\<rparr>))))))"

definition parse_delete :: "Statement parser" where
  "parse_delete = thenP (expect (Kw K_DELETE)) (thenP (expect (Kw K_FROM)) (bindP ident (\<lambda>table.
     bindP optional_where (\<lambda>where. retP (Delete \<lparr>del_table = table, del_where = where\<rparr>)))))"

section \<open>Definition statements\<close>

definition parse_type :: "DataType parser" where
  "parse_type = bindP ident (\<lambda>name. retP (data_type_from_name name))"

definition new_column :: "string \<Rightarrow> DataType \<Rightarrow> ColumnDef" where
  "new_column name ty = \<lparr>cd_name = name, cd_type = ty, cd_nullable = True, cd_primary_key = False, cd_default = None\<rparr>"

definition primary_column :: "ColumnDef \<Rightarrow> ColumnDef parser" where
  "primary_column col = thenP (expect (Kw K_KEY)) (retP (col\<lparr>cd_primary_key := True\<rparr>))"

definition first_modifier :: "ColumnDef \<Rightarrow> ColumnDef parser" where
  "first_modifier col = bindP advance (\<lambda>t. let up = map toupper (tk_text t) in
     if up = ''NOT'' then thenP (expect (Kw K_NULL)) (retP (col\<lparr>cd_nullable := False\<rparr>))
     else if up = ''PRIMARY'' then primary_column col
     else retP col)"

definition second_modifier :: "ColumnDef \<Rightarrow> ColumnDef parser" where
  "second_modifier col = bindP advance (\<lambda>t. if map toupper (tk_text t) = ''PRIMARY'' then primary_column col else retP col)"

definition parse_column_def :: "ColumnDef parser" where
  "parse_column_def = bindP ident (\<lambda>name. bindP parse_type (\<lambda>ty.
     bindP (ifPeek (\<lambda>t. tk_type t = T_IDENTIFIER)
        (bindP (first_modifier (new_column name ty)) (\<lambda>col.
           ifPeek (\<lambda>t. tk_type t = T_IDENTIFIER) (second_modifier col) (retP col)))
        (retP (new_column name ty))) (\<lambda>col.
     ifMatch (Kw K_PRIMARY) (primary_column col) (retP col))))"

text \<open>After a comma: a \<open>PRIMARY KEY (column)\<close> constraint, which is skipped, or a column.\<close>

definition table_item :: "ColumnDef list parser" where
  "table_item = ifPeek (\<lambda>t. tk_type t = Kw K_PRIMARY)
     (thenP advance (thenP advance (thenP (expect T_LPAREN) (thenP advance (thenP (expect T_RPAREN) (retP []))))))
     (bindP parse_column_def (\<lambda>col. retP [col]))"

definition parse_create_table :: "Statement parser" where
  "parse_create_table = bindP ident (\<lambda>name. thenP (expect T_LPAREN) (bindP parse_column_def (\<lambda>col.
     bindP (fuelP (comma_loop table_item)) (\<lambda>items. thenP (expect T_RPAREN)
        (retP (CreateTable \<lparr>ct_name = name, ct_columns = col # concat items\<rparr>))))))"

definition parse_create_index :: "Statement parser" where
  "parse_create_index = bindP ident (\<lambda>name. thenP (expect (Kw K_ON)) (bindP ident (\<lambda>table.
     thenP (expect T_LPAREN) (bindP ident (\<lambda>column. thenP (expect T_RPAREN)
        (retP (CreateIndex \<lparr>ci_table = table, ci_column = column, ci_index_name = name\<rparr>)))))))"

definition parse_create_database :: "Statement parser" where
  "parse_create_database = bindP ident (\<lambda>name. retP (CreateDatabase name))"

definition parse_create_schema :: "Statement parser" where
  "parse_create_schema = bindP ident (\<lambda>name. retP (CreateSchema \<lparr>cs_database = [], cs_name = name\<rparr>))"

definition parse_create_user :: "Statement parser" where
  "parse_create_user = bindP ident (\<lambda>name. ifMatch (Obj O_WITH)
     (ifPeek (\<lambda>t. map toupper (tk_text t) = ''PASSWORD'')
        (thenP advance (bindP (expect T_STRING_LIT) (\<lambda>t. retP (CreateUser \<lparr>usr_name = name, usr_password = tk_text t\<rparr>))))
        (failP UserNeedsPassword))
     (failP UserNeedsPassword))"

definition parse_create :: "Statement parser" where
  "parse_create = thenP (expect (Kw K_CREATE))
    (ifMatch (Kw K_INDEX) parse_create_index
    (ifMatch (Obj O_DATABASE) parse_create_database
    (ifMatch (Obj O_SCHEMA) parse_create_schema
    (ifMatch (Obj O_USER) parse_create_user
    (thenP (expect (Kw K_TABLE)) parse_create_table)))))"

definition parse_drop_database :: "Statement parser" where
  "parse_drop_database = bindP ident (\<lambda>name. retP (DropDatabase name))"

definition parse_drop_user :: "Statement parser" where
  "parse_drop_user = bindP ident (\<lambda>name. retP (DropUser name))"

definition parse_drop_table :: "Statement parser" where
  "parse_drop_table = thenP (expect (Kw K_DROP))
    (ifMatch (Obj O_DATABASE) parse_drop_database
    (ifMatch (Obj O_USER) parse_drop_user
    (thenP (expect (Kw K_TABLE)) (bindP ident (\<lambda>name. retP (DropTable name))))))"

definition parse_use :: "Statement parser" where
  "parse_use = thenP (expect (Obj O_USE)) (bindP ident (\<lambda>name. retP (UseDatabase name)))"

definition parse_show :: "Statement parser" where
  "parse_show = thenP (expect (Obj O_SHOW))
    (ifMatch (Obj O_DATABASES) (retP ShowDatabases)
    (ifMatch (Obj O_USERS) (retP ShowUsers)
    (ifMatch (Obj O_SCHEMAS) (retP ShowSchemas)
    (\<lambda>ts. Inl (ShowWhat (tk_text (peek ts)))))))"

section \<open>Transaction statements\<close>

definition optional_work :: "unit parser" where
  "optional_work = ifMatch (Txn X_TRANSACTION) (retP ())
    (ifPeek (\<lambda>t. tk_type t = T_IDENTIFIER \<and> map toupper (tk_text t) \<in> {''WORK'', ''TRANSACTION''}) (thenP advance (retP ())) (retP ()))"

definition parse_begin :: "Statement parser" where
  "parse_begin = thenP (expect (Txn X_BEGIN)) (thenP optional_work (retP BeginTransaction))"

definition parse_commit :: "Statement parser" where
  "parse_commit = thenP (expect (Txn X_COMMIT)) (thenP optional_work (retP CommitTransaction))"

definition parse_rollback :: "Statement parser" where
  "parse_rollback = thenP (expect (Txn X_ROLLBACK)) (thenP optional_work (retP RollbackTransaction))"

section \<open>Programs\<close>

definition parse_statement :: "Statement parser" where
  "parse_statement ts = (case peek_type ts of
     Kw K_SELECT \<Rightarrow> parse_select ts
   | Kw K_INSERT \<Rightarrow> parse_insert ts
   | Kw K_UPDATE \<Rightarrow> parse_update ts
   | Kw K_DELETE \<Rightarrow> parse_delete ts
   | Kw K_CREATE \<Rightarrow> parse_create ts
   | Kw K_DROP \<Rightarrow> parse_drop_table ts
   | Txn X_BEGIN \<Rightarrow> parse_begin ts
   | Txn X_COMMIT \<Rightarrow> parse_commit ts
   | Txn X_ROLLBACK \<Rightarrow> parse_rollback ts
   | Obj O_USE \<Rightarrow> parse_use ts
   | Obj O_SHOW \<Rightarrow> parse_show ts
   | _ \<Rightarrow> Inl (UnsupportedStatement (tk_text (peek ts))))"

fun statement_loop :: "nat \<Rightarrow> Statement list parser" where
  "statement_loop 0 = failP OutOfFuel"
| "statement_loop (Suc n) = (\<lambda>ts.
     if is_at_end ts then Inr ([], ts)
     else if peek_type ts = T_SEMICOLON then thenP advance (statement_loop n) ts
     else bindP parse_statement (\<lambda>s. thenP (ifMatch T_SEMICOLON (retP ()) (retP ()))
            (bindP (statement_loop n) (\<lambda>ss. retP (s # ss)))) ts)"

definition parse_all :: "Token list \<Rightarrow> parse_error + Statement list" where
  "parse_all ts = bindE (fuelP statement_loop ts) (\<lambda>(ss, _). Inr ss)"

section \<open>Parsing ends\<close>

text \<open>On fewer than \<open>n\<close> tokens the fuel lasts, and what is read is at least \<open>k\<close> tokens.\<close>

definition reads :: "nat \<Rightarrow> nat \<Rightarrow> 'a parser \<Rightarrow> bool" where
  "reads n k p \<longleftrightarrow> (\<forall>ts. length ts < n \<longrightarrow> p ts \<noteq> Inl OutOfFuel \<and> (\<forall>x ts'. p ts = Inr (x, ts') \<longrightarrow> length ts' + k \<le> length ts))"

named_theorems reads_intros "rules that build parsers that end"

lemma readsI:
  "(\<And>ts. length ts < n \<Longrightarrow> p ts \<noteq> Inl OutOfFuel) \<Longrightarrow> (\<And>ts x ts'. length ts < n \<Longrightarrow> p ts = Inr (x, ts') \<Longrightarrow> length ts' + k \<le> length ts) \<Longrightarrow> reads n k p"
  by (simp add: reads_def)

lemma readsD: "reads n k p \<Longrightarrow> length ts < n \<Longrightarrow> p ts \<noteq> Inl OutOfFuel"
  "reads n k p \<Longrightarrow> length ts < n \<Longrightarrow> p ts = Inr (x, ts') \<Longrightarrow> length ts' + k \<le> length ts"
  by (simp_all add: reads_def)

lemma reads_weak: "reads n (Suc 0) p \<Longrightarrow> reads n 0 p"
  by (fastforce simp: reads_def)

lemma reads_mono: "reads n k p \<Longrightarrow> m \<le> n \<Longrightarrow> reads m k p"
  by (simp add: reads_def)

lemma peek_END: "peek_type ts \<noteq> T_END \<Longrightarrow> ts \<noteq> []"
  by (auto simp: peek_def)

lemma length_advance: "length (if is_at_end ts then ts else tl ts) \<le> length ts"
  by simp

lemma reads_ret [reads_intros]: "reads n 0 (retP x)"
  by (simp add: reads_def retP_def)

lemma reads_fail [reads_intros]: "e \<noteq> OutOfFuel \<Longrightarrow> reads n k (failP e)"
  by (simp add: reads_def failP_def)

lemma reads_bind:
  assumes p: "reads n j p" and f: "\<And>x. reads n k (f x)"
  shows "reads n (j + k) (bindP p f)"
proof (rule readsI)
  fix ts :: "Token list" assume ts: "length ts < n"
  have f: "p ts = Inr (x, ts1) \<Longrightarrow> length ts1 < n" for x ts1 using readsD(2) [OF p ts] ts by fastforce
  then show "bindP p f ts \<noteq> Inl OutOfFuel"
    using readsD(1) [OF p ts] readsD(1) [OF assms(2)] by (auto simp: bindP_def split: sum.split)
  fix x ts' assume "bindP p f ts = Inr (x, ts')"
  then obtain y ts1 where y: "p ts = Inr (y, ts1)" "f y ts1 = Inr (x, ts')" by (auto simp: bindP_def split: sum.splits)
  show "length ts' + (j + k) \<le> length ts"
    using readsD(2) [OF p ts y(1)] readsD(2) [OF assms(2) f [OF y(1)] y(2)] by simp
qed

lemma reads_bind_0 [reads_intros]: "reads n 0 p \<Longrightarrow> (\<And>x. reads n 0 (f x)) \<Longrightarrow> reads n 0 (bindP p f)"
  using reads_bind [of n 0 p 0 f] by simp

lemma reads_bind_1 [reads_intros]: "reads n (Suc 0) p \<Longrightarrow> (\<And>x. reads n 0 (f x)) \<Longrightarrow> reads n (Suc 0) (bindP p f)"
  using reads_bind [of n "Suc 0" p 0 f] by simp

lemma reads_then [reads_intros]:
  "reads n 0 p \<Longrightarrow> reads n 0 q \<Longrightarrow> reads n 0 (thenP p q)" "reads n (Suc 0) p \<Longrightarrow> reads n 0 q \<Longrightarrow> reads n (Suc 0) (thenP p q)"
  by (simp_all add: thenP_def reads_bind_0 reads_bind_1)

lemma reads_advance [reads_intros]: "reads n 0 advance"
  by (simp add: reads_def advance_def)

lemma reads_expect [reads_intros]: "ty \<noteq> T_END \<Longrightarrow> reads n (Suc 0) (expect ty)" "ty \<noteq> T_END \<Longrightarrow> reads n 0 (expect ty)"
proof -
  show "reads n (Suc 0) (expect ty)" if "ty \<noteq> T_END"
    using that by (intro readsI) (auto simp: expect_def advance_def is_at_end_def peek_def split: list.splits if_splits)
  then show "reads n 0 (expect ty)" if "ty \<noteq> T_END" using that reads_weak by blast
qed

lemma ifMatch_eq: "ifMatch ty p q ts = (if check ty ts then p (tl ts) else q ts)"
  by (simp add: ifMatch_def thenP_def bindP_def advance_def check_def)

lemma check_less: "check ty ts \<Longrightarrow> length (tl ts) < length ts"
  by (cases ts) (auto simp: check_def is_at_end_def peek_def)

text \<open>A matched token leaves one token less for what follows.\<close>

lemma reads_match:
  assumes p: "reads n 0 p" and q: "reads (Suc n) k q" and k: "k \<le> Suc 0"
  shows "reads (Suc n) k (ifMatch ty p q)"
proof (rule readsI)
  fix ts :: "Token list" assume ts: "length ts < Suc n"
  show "ifMatch ty p q ts \<noteq> Inl OutOfFuel"
    using readsD(1) [OF p, of "tl ts"] readsD(1) [OF q ts] check_less [of ty ts] ts by (auto simp: ifMatch_eq)
  fix x ts' assume "ifMatch ty p q ts = Inr (x, ts')"
  then show "length ts' + k \<le> length ts"
    using readsD(2) [OF p, of "tl ts"] readsD(2) [OF q ts] check_less [of ty ts] ts k by (fastforce simp: ifMatch_eq split: if_splits)
qed

lemma reads_ifMatch_k: "reads n 0 p \<Longrightarrow> reads n k q \<Longrightarrow> k \<le> Suc 0 \<Longrightarrow> reads n k (ifMatch ty p q)"
proof (cases n)
  case (Suc m)
  assume "reads n 0 p" "reads n k q" "k \<le> Suc 0"
  with Suc reads_match [of m p k q ty] reads_mono [of n 0 p m] show ?thesis by simp
qed (simp add: reads_def)

lemma reads_ifMatch [reads_intros]:
  "reads n 0 p \<Longrightarrow> reads n 0 q \<Longrightarrow> reads n 0 (ifMatch ty p q)" "reads n 0 p \<Longrightarrow> reads n (Suc 0) q \<Longrightarrow> reads n (Suc 0) (ifMatch ty p q)"
  by (simp_all add: reads_ifMatch_k)

lemma reads_ifPeek [reads_intros]: "reads n k p \<Longrightarrow> reads n k q \<Longrightarrow> reads n k (ifPeek P p q)"
  by (simp add: reads_def ifPeek_def)

lemma reads_fuel: "(\<And>m. reads (min m n) k (g m)) \<Longrightarrow> reads n k (fuelP g)"
  by (fastforce simp: reads_def fuelP_def)

lemma reads_comma_loop: "reads n 0 p \<Longrightarrow> reads (min m n) 0 (comma_loop p m)"
proof (induction m)
  case (Suc m)
  show ?case
  proof (cases n)
    case (Suc n')
    have "reads (min m n') 0 (bindP p (\<lambda>x. bindP (comma_loop p m) (\<lambda>xs. retP (x # xs))))"
      using Suc.IH [OF Suc.prems] Suc.prems \<open>n = Suc n'\<close> by (intro reads_intros) (auto intro: reads_mono)
    from reads_match [OF this reads_ret [of _ "[]"], of T_COMMA] Suc show ?thesis by simp
  qed (simp add: reads_def)
qed (simp add: reads_def)

lemma reads_comma_list [reads_intros]:
  "reads n 0 p \<Longrightarrow> reads n 0 (comma_list p)" "reads n (Suc 0) p \<Longrightarrow> reads n (Suc 0) (comma_list p)"
  unfolding comma_list_def by (intro reads_intros reads_fuel reads_comma_loop; simp add: reads_weak)+

lemma reads_operator:
  fixes e :: 'a and f :: "string \<Rightarrow> 'a parser"
  assumes "\<And>opn. map_of ops (peek_type ts) = Some opn \<Longrightarrow> reads n 0 (f opn)" "map_of ops T_END = None" "length ts < Suc n"
  defines "p \<equiv> \<lambda>ts. case map_of ops (peek_type ts) of None \<Rightarrow> Inr (e, ts) | Some opn \<Rightarrow> thenP advance (f opn) ts"
  shows "p ts \<noteq> Inl OutOfFuel \<and> (\<forall>x ts'. p ts = Inr (x, ts') \<longrightarrow> length ts' \<le> length ts)"
proof (cases "map_of ops (peek_type ts)")
  case (Some opn)
  then have ne: "\<not> is_at_end ts" "ts \<noteq> []" using assms(2) by (auto simp: is_at_end_def peek_def)
  then have "p ts = f opn (tl ts)" "length (tl ts) < n" using Some assms(3) by (auto simp: p_def thenP_def bindP_def advance_def neq_Nil_conv)
  with readsD(1) [OF assms(1) [OF Some], of "tl ts"] readsD(2) [OF assms(1) [OF Some], of "tl ts"] show ?thesis
    by (auto intro: order_trans)
qed (simp add: p_def)

lemma reads_binary_loop:
  "reads n 0 p \<Longrightarrow> map_of ops T_END = None \<Longrightarrow> reads (min m n) 0 (binary_loop ops p e m)"
proof (induction m arbitrary: e)
  case (Suc m)
  show ?case
  proof (cases n)
    case n: (Suc n')
    have "reads (min m n') 0 (bindP p (\<lambda>r. binary_loop ops p (BinaryOp opn e r) m))" for opn
      using reads_mono [OF Suc.prems(1), of "min m n'"] reads_mono [OF Suc.IH [OF Suc.prems], of "min m n'"] n
      by (intro reads_intros) simp_all
    from reads_operator [OF this Suc.prems(2)] n show ?thesis by (simp add: reads_def)
  qed (simp add: reads_def)
qed (simp add: reads_def)

lemma reads_levels:
  assumes "reads n (Suc 0) u"
  shows "reads n (Suc 0) (parse_multiplication u)" "reads n (Suc 0) (parse_addition u)" "reads n (Suc 0) (parse_comparison u)"
    "reads n (Suc 0) (parse_and u)" "reads n (Suc 0) (parse_or u)"
proof -
  show m: "reads n (Suc 0) (parse_multiplication u)"
    unfolding parse_multiplication_def using assms
    by (intro reads_intros reads_fuel reads_binary_loop) (simp_all add: mul_ops_def reads_weak)
  show a: "reads n (Suc 0) (parse_addition u)"
    unfolding parse_addition_def using m
    by (intro reads_intros reads_fuel reads_binary_loop) (simp_all add: add_ops_def reads_weak)
  have "reads n 0 (bindP (parse_addition u) (\<lambda>r. retP (BinaryOp opn e r)))" for opn e
    by (intro reads_intros) (simp_all add: a reads_weak)
  then have "reads n 0 (\<lambda>ts. case map_of cmp_ops (peek_type ts) of None \<Rightarrow> Inr (e, ts)
      | Some opn \<Rightarrow> thenP advance (bindP (parse_addition u) (\<lambda>r. retP (BinaryOp opn e r))) ts)" for e
    using reads_operator [of cmp_ops _ n "\<lambda>opn. bindP (parse_addition u) (\<lambda>r. retP (BinaryOp opn e r))" e]
    by (simp add: reads_def cmp_ops_def)
  then show c: "reads n (Suc 0) (parse_comparison u)"
    unfolding parse_comparison_def using a by (intro reads_intros) simp_all
  show d: "reads n (Suc 0) (parse_and u)"
    unfolding parse_and_def using c by (intro reads_intros reads_fuel reads_binary_loop) (simp_all add: reads_weak)
  show "reads n (Suc 0) (parse_or u)"
    unfolding parse_or_def using d by (intro reads_intros reads_fuel reads_binary_loop) (simp_all add: reads_weak)
qed

lemma reads_number [reads_intros]: "reads n 0 (number mk r)"
  by (simp add: number_def reads_intros split: sum.split)

lemma reads_primary:
  assumes "reads n 0 ex"
  shows "reads (Suc n) (Suc 0) (parse_primary ex)"
proof -
  let ?p = "\<lambda>tx. ifMatch T_INTEGER_LIT (number VInt (stoll tx)) (ifMatch T_FLOAT_LIT (number VDouble (stod tx))
     (ifMatch T_STRING_LIT (retP (Literal (VString tx))) (ifMatch (Kw K_TRUE) (retP (Literal (VBool True)))
     (ifMatch (Kw K_FALSE) (retP (Literal (VBool False))) (ifMatch (Kw K_NULL) (retP (Literal VNull))
     (ifMatch T_IDENTIFIER (retP (ColumnRef tx)) (ifMatch T_LPAREN (bindP ex (\<lambda>e. thenP (expect T_RPAREN) (retP e)))
     (failP (ExpectedExpression tx)))))))))"
  have "reads n 0 (bindP ex (\<lambda>e. thenP (expect T_RPAREN) (retP e)))"
    using assms by (intro reads_intros) simp_all
  then have "reads (Suc n) (Suc 0) (?p tx)" for tx
    by (intro reads_match reads_intros order_refl) (simp_all add: assms)
  then show ?thesis by (auto simp: reads_def parse_primary_def Let_def)
qed

lemma reads_unary: "reads n (Suc 0) (parse_unary n)"
proof (induction n)
  case (Suc n)
  have "reads n 0 (parse_or (parse_unary n))" using Suc by (intro reads_weak reads_levels)
  with Suc show ?case unfolding parse_unary.simps
    by (intro reads_match reads_primary order_refl reads_intros) (simp_all add: reads_weak)
qed (simp add: reads_def)

lemma reads_expression [reads_intros]: "reads n (Suc 0) parse_expression" "reads n 0 parse_expression"
proof -
  show "reads n (Suc 0) parse_expression"
    unfolding parse_expression_def
    by (intro reads_fuel reads_levels reads_mono [OF reads_unary]) simp
  then show "reads n 0 parse_expression" by (rule reads_weak)
qed

lemma reads_ident [reads_intros]: "reads n (Suc 0) ident" "reads n 0 ident"
  unfolding ident_def by (intro reads_intros, simp)+

lemma reads_value_item [reads_intros]: "reads n 0 value_item"
proof -
  have "reads n 0 (parse_primary parse_expression)"
    by (rule reads_mono [OF reads_weak [OF reads_primary [where n = n, OF reads_expression(2)]]]) simp
  then show ?thesis unfolding value_item_def by (intro reads_intros)
qed

lemma reads_parts [reads_intros]:
  "reads n 0 optional_where" "reads n 0 skip_order_by" "reads n 0 skip_limit" "reads n 0 value_row" "reads n 0 assignment"
  "reads n 0 optional_work"
  unfolding optional_where_def skip_order_by_def skip_limit_def value_row_def assignment_def optional_work_def
  by (intro reads_intros; simp)+

lemma reads_columns [reads_intros]: "reads n 0 parse_column_def" "reads n 0 table_item"
proof -
  show c: "reads n 0 parse_column_def"
    unfolding parse_column_def_def parse_type_def first_modifier_def second_modifier_def primary_column_def Let_def
    by (intro reads_intros; simp add: reads_intros)
  show "reads n 0 table_item"
    unfolding table_item_def by (intro reads_intros c; simp)
qed

lemma reads_at: "(\<And>ts. reads n k (p ts)) \<Longrightarrow> reads n k (\<lambda>ts. p ts ts)"
  by (simp add: reads_def)

lemma reads_insert_columns [reads_intros]:
  "reads n 0 (\<lambda>ts. if P ts then thenP (expect T_LPAREN) (bindP (comma_list ident) (\<lambda>cs. thenP (expect T_RPAREN) (retP cs))) ts else Inr ([], ts))"
proof -
  have "reads n 0 (thenP (expect T_LPAREN) (bindP (comma_list ident) (\<lambda>cs. thenP (expect T_RPAREN) (retP cs))))"
    by (intro reads_intros; simp)
  then show ?thesis by (simp add: reads_def)
qed

lemma reads_statements:
  "reads n (Suc 0) parse_select" "reads n (Suc 0) parse_insert" "reads n (Suc 0) parse_update" "reads n (Suc 0) parse_delete"
  "reads n (Suc 0) parse_create" "reads n (Suc 0) parse_drop_table" "reads n (Suc 0) parse_use"
  "reads n (Suc 0) parse_begin" "reads n (Suc 0) parse_commit" "reads n (Suc 0) parse_rollback"
proof -
  have "reads n 0 parse_create_table"
    unfolding parse_create_table_def by (intro reads_intros reads_fuel reads_comma_loop; simp)
  moreover have "reads n 0 parse_create_index" "reads n 0 parse_create_database" "reads n 0 parse_create_schema" "reads n 0 parse_create_user"
    unfolding parse_create_index_def parse_create_database_def parse_create_schema_def parse_create_user_def
    by (intro reads_intros; simp)+
  ultimately show "reads n (Suc 0) parse_create"
    unfolding parse_create_def by (intro reads_intros; simp)
  show "reads n (Suc 0) parse_drop_table"
    unfolding parse_drop_table_def parse_drop_database_def parse_drop_user_def by (intro reads_intros; simp)
qed (unfold parse_select_def parse_insert_def parse_update_def parse_delete_def parse_use_def
      parse_begin_def parse_commit_def parse_rollback_def; intro reads_intros; simp)+

lemma reads_show: "reads n (Suc 0) parse_show"
proof -
  have "reads n 0 (\<lambda>ts :: Token list. Inl (ShowWhat (tk_text (peek ts))) :: parse_error + Statement \<times> Token list)"
    by (simp add: reads_def)
  then show ?thesis unfolding parse_show_def by (intro reads_intros; simp)
qed

lemma reads_statement: "reads n (Suc 0) parse_statement"
  using reads_statements reads_show unfolding reads_def parse_statement_def
  by (auto split: TokenType.split Keyword.split TxnKeyword.split ObjectKeyword.split)

lemma reads_statement_loop: "reads m 0 (statement_loop m)"
proof (induction m)
  case (Suc m)
  have rest: "reads m 0 (thenP (ifMatch T_SEMICOLON (retP ()) (retP ())) (bindP (statement_loop m) (\<lambda>ss. retP (s # ss))))" for s
    using Suc by (intro reads_intros)
  show ?case
  proof (rule readsI)
    fix ts :: "Token list" assume ts: "length ts < Suc m"
    consider (fin) "is_at_end ts" | (semi) "\<not> is_at_end ts" "peek_type ts = T_SEMICOLON"
      | (stmt) "\<not> is_at_end ts" "peek_type ts \<noteq> T_SEMICOLON" by blast
    then have "statement_loop (Suc m) ts \<noteq> Inl OutOfFuel \<and>
      (\<forall>x ts'. statement_loop (Suc m) ts = Inr (x, ts') \<longrightarrow> length ts' \<le> length ts)"
    proof cases
      case semi
      then have "length (tl ts) < m" "statement_loop (Suc m) ts = statement_loop m (tl ts)"
        using ts by (auto simp: is_at_end_def peek_def thenP_def bindP_def advance_def split: list.splits)
      then show ?thesis using readsD [OF Suc, of "tl ts"] by (auto intro: order_trans)
    next
      case stmt
      let ?q = "\<lambda>s. thenP (ifMatch T_SEMICOLON (retP ()) (retP ())) (bindP (statement_loop m) (\<lambda>ss. retP (s # ss)))"
      have eq: "statement_loop (Suc m) ts = bindP parse_statement ?q ts" using stmt by simp
      show ?thesis
      proof (cases "parse_statement ts")
        case (Inl e)
        with readsD(1) [OF reads_statement ts] eq show ?thesis by (simp add: bindP_def)
      next
        case (Inr r)
        obtain s ts1 where r: "r = (s, ts1)" by (cases r)
        then have len: "length ts1 < m" "length ts1 \<le> length ts" using readsD(2) [OF reads_statement ts, of s ts1] Inr ts by simp_all
        have "bindP parse_statement ?q ts = ?q s ts1" by (simp add: bindP_def Inr r)
        moreover have "?q s ts1 = Inr (x, ts') \<Longrightarrow> length ts' \<le> length ts" for x ts'
          using readsD(2) [OF rest len(1), of s x ts'] len(2) by linarith
        ultimately show ?thesis using readsD(1) [OF rest len(1), of s] eq by simp
      qed
    qed simp
    then show "statement_loop (Suc m) ts \<noteq> Inl OutOfFuel"
      and "\<And>x ts'. statement_loop (Suc m) ts = Inr (x, ts') \<Longrightarrow> length ts' + 0 \<le> length ts" by simp_all
  qed
qed (simp add: reads_def)

lemma parse_all_ends: "parse_all ts \<noteq> Inl OutOfFuel"
  using readsD(1) [OF reads_statement_loop, of ts "Suc (length ts)"] by (auto simp: parse_all_def fuelP_def bindE_Inl)

section \<open>Writing expressions and statements\<close>

type_synonym lexemes = "(TokenType \<times> string) list"

definition kw :: "Keyword \<Rightarrow> string \<Rightarrow> TokenType \<times> string" where
  "kw k s = (Kw k, s)"

definition name_ok :: "string \<Rightarrow> bool" where
  "name_ok s \<longleftrightarrow> word_ok s \<and> word_type s = T_IDENTIFIER"

fun write_value :: "val \<Rightarrow> lexemes" where
  "write_value VNull = [(Kw K_NULL, ''NULL'')]"
| "write_value (VInt i) = [(T_INTEGER_LIT, nat_to_string (unat i))]"
| "write_value (VDouble d) = []"
| "write_value (VString s) = [(T_STRING_LIT, s)]"
| "write_value (VBool b) = [if b then (Kw K_TRUE, ''TRUE'') else (Kw K_FALSE, ''FALSE'')]"

fun value_ok :: "val \<Rightarrow> bool" where
  "value_ok (VInt i) \<longleftrightarrow> unat i < 2 ^ 63"
| "value_ok (VDouble d) \<longleftrightarrow> False"
| "value_ok _ \<longleftrightarrow> True"

definition operators :: "(string \<times> (TokenType \<times> string)) list" where
  "operators = [(''OR'', (Kw K_OR, ''OR'')), (''AND'', (Kw K_AND, ''AND'')), (''='', (T_EQ, ''='')), (''!='', (T_NEQ, ''!='')),
     (''<'', (T_LT, ''<'')), (''>'', (T_GT, ''>'')), (''<='', (T_LE, ''<='')), (''>='', (T_GE, ''>='')), (''+'', (T_PLUS, ''+'')),
     (''-'', (T_MINUS, ''-'')), (''*'', (T_STAR, ''*'')), (''/'', (T_DIV, ''/''))]"

definition LP :: "TokenType \<times> string" where "LP = (T_LPAREN, ''('')"

definition RP :: "TokenType \<times> string" where "RP = (T_RPAREN, '')'')"

definition CM :: "TokenType \<times> string" where "CM = (T_COMMA, '','')"

text \<open>
  The levels of the grammar, loosest first: OR, AND, one comparison, sums, products, NOT. An operand is put into
  parentheses exactly when its operator binds less tightly than its place allows: the right operand of an operator that
  associates to the left and both operands of a comparison stand one level above their operator.
\<close>

definition op_level :: "string \<Rightarrow> nat" where
  "op_level opn = (if opn = ''OR'' then 1 else if opn = ''AND'' then 2 else if opn \<in> {''+'', ''-''} then 4
     else if opn \<in> {''*'', ''/''} then 5 else 3)"

fun write_at :: "nat \<Rightarrow> Expression \<Rightarrow> lexemes" where
  "write_at p (Literal v) = write_value v"
| "write_at p (ColumnRef c) = [(T_IDENTIFIER, c)]"
| "write_at p (BinaryOp opn l r) = (let q = op_level opn;
     ls = write_at (if q = 3 then 4 else q) l @ [the (map_of operators opn)] @ write_at (Suc q) r
     in if q < p then [LP] @ ls @ [RP] else ls)"
| "write_at p (UnaryOp opn e) = (Kw K_NOT, ''NOT'') # write_at 6 e"

definition write_expr :: "Expression \<Rightarrow> lexemes" where
  "write_expr = write_at 1"

fun expr_ok :: "Expression \<Rightarrow> bool" where
  "expr_ok (Literal v) \<longleftrightarrow> value_ok v"
| "expr_ok (ColumnRef c) \<longleftrightarrow> name_ok c"
| "expr_ok (BinaryOp opn l r) \<longleftrightarrow> opn \<in> fst ` set operators \<and> expr_ok l \<and> expr_ok r"
| "expr_ok (UnaryOp opn e) \<longleftrightarrow> opn = ''NOT'' \<and> expr_ok e"

text \<open>A parser reads exactly a list of lexemes, whatever tokens follow whose first has a type in \<open>F\<close>.\<close>

definition eats :: "TokenType set \<Rightarrow> 'a parser \<Rightarrow> lexemes \<Rightarrow> 'a \<Rightarrow> bool" where
  "eats F p ls x \<longleftrightarrow> (\<forall>ts rest. map lexeme ts = ls \<longrightarrow> peek_type rest \<in> F \<longrightarrow> p (ts @ rest) = Inr (x, rest))"

definition follows :: "TokenType set \<Rightarrow> lexemes \<Rightarrow> TokenType set \<Rightarrow> bool" where
  "follows F ls F' \<longleftrightarrow> (case ls of [] \<Rightarrow> F \<subseteq> F' | l # _ \<Rightarrow> fst l \<in> F')"

named_theorems eats_intros "rules that compose what parsers read"

lemma eatsI: "(\<And>ts rest. map lexeme ts = ls \<Longrightarrow> peek_type rest \<in> F \<Longrightarrow> p (ts @ rest) = Inr (x, rest)) \<Longrightarrow> eats F p ls x"
  by (simp add: eats_def)

lemma eatsD: "eats F p ls x \<Longrightarrow> map lexeme ts = ls \<Longrightarrow> peek_type rest \<in> F \<Longrightarrow> p (ts @ rest) = Inr (x, rest)"
  by (simp add: eats_def)

lemma eats_mono: "eats F p ls x \<Longrightarrow> F' \<subseteq> F \<Longrightarrow> eats F' p ls x"
  by (auto simp: eats_def)

lemma peek_append: "peek_type (ts @ rest) = (if ts = [] then peek_type rest else tk_type (hd ts))"
  by (cases ts) (simp_all add: peek_def)

lemma follows_peek: "follows F (map lexeme ts) F' \<Longrightarrow> peek_type rest \<in> F \<Longrightarrow> peek_type (ts @ rest) \<in> F'"
  by (cases ts) (auto simp: follows_def peek_def)

lemma eats_bind:
  assumes p: "eats F' p ls x" and f: "eats F (f x) ls' y" and follow: "follows F ls' F'"
  shows "eats F (bindP p f) (ls @ ls') y"
proof (rule eatsI)
  fix ts rest :: "Token list" assume ts: "map lexeme ts = ls @ ls'" and rest: "peek_type rest \<in> F"
  then obtain ts1 ts2 where t: "ts = ts1 @ ts2" "map lexeme ts1 = ls" "map lexeme ts2 = ls'" by (auto simp: map_eq_append_conv)
  have "peek_type (ts2 @ rest) \<in> F'" using follows_peek [of F ts2 F' rest] follow t(3) rest by simp
  then show "bindP p f (ts @ rest) = Inr (y, rest)"
    using eatsD [OF p t(2), of "ts2 @ rest"] eatsD [OF f t(3) rest] by (simp add: bindP_def t(1))
qed

lemma eats_ret: "eats F (retP x) [] x"
  by (simp add: eats_def retP_def)

lemma eats_bind_ret: "eats F p ls x \<Longrightarrow> eats F (bindP p (\<lambda>x. retP (g x))) ls (g x)"
  using eats_bind [OF _ eats_ret, of F p ls x F g] by (simp add: follows_def)

lemma eats_token:
  assumes "ty \<noteq> T_END" "eats F q ls y"
  shows "eats F (thenP (expect ty) q) ((ty, s) # ls) y" "eats F (ifMatch ty q q') ((ty, s) # ls) y"
    "eats F (thenP advance q) ((ty, s) # ls) y"
  using assms by (auto simp: eats_def thenP_def bindP_def expect_def advance_def ifMatch_def check_def is_at_end_def peek_def Cons_eq_map_conv map_eq_Cons_conv)

lemma eats_no_match: "eats F q ls y \<Longrightarrow> follows F ls (- {ty}) \<Longrightarrow> eats F (ifMatch ty p q) ls y"
proof (rule eatsI)
  fix ts rest :: "Token list" assume q: "eats F q ls y" "follows F ls (- {ty})" and ts: "map lexeme ts = ls" "peek_type rest \<in> F"
  then have "\<not> check ty (ts @ rest)" using follows_peek [of F ts "- {ty}" rest] by (auto simp: check_def)
  then show "ifMatch ty p q (ts @ rest) = Inr (y, rest)" using eatsD [OF q(1) ts] by (simp add: ifMatch_def)
qed

lemma eats_no_peek: "eats F q ls y \<Longrightarrow> follows F ls (- {ty}) \<Longrightarrow> eats F (ifPeek (\<lambda>t. tk_type t = ty) p q) ls y"
proof (rule eatsI)
  fix ts rest :: "Token list" assume q: "eats F q ls y" "follows F ls (- {ty})" and ts: "map lexeme ts = ls" "peek_type rest \<in> F"
  then have "peek_type (ts @ rest) \<noteq> ty" using follows_peek [of F ts "- {ty}" rest] by auto
  then show "ifPeek (\<lambda>t. tk_type t = ty) p q (ts @ rest) = Inr (y, rest)" using eatsD [OF q(1) ts] by (simp add: ifPeek_def)
qed

lemma eats_peek:
  "eats F p (l # ls) y \<Longrightarrow> (\<And>t. lexeme t = l \<Longrightarrow> P t) \<Longrightarrow> eats F (ifPeek P p q) (l # ls) y"
  "eats F q (l # ls) y \<Longrightarrow> (\<And>t. lexeme t = l \<Longrightarrow> \<not> P t) \<Longrightarrow> eats F (ifPeek P p q) (l # ls) y"
  by (auto simp: eats_def ifPeek_def peek_def map_eq_Cons_conv)

lemma eats_ident: "eats F ident [(T_IDENTIFIER, s)] s"
  by (auto simp: eats_def ident_def bindP_def expect_def advance_def is_at_end_def peek_def retP_def)

lemma eats_fuel: "(\<And>n. length ls < n \<Longrightarrow> eats F (g n) ls x) \<Longrightarrow> eats F (fuelP g) ls x"
  by (auto simp: eats_def fuelP_def)

text \<open>One level of binary operators: nothing of the level, or one operator.\<close>

definition level :: "(TokenType \<times> string) list \<Rightarrow> Expression parser \<Rightarrow> Expression parser" where
  "level ops p = bindP p (\<lambda>e. fuelP (binary_loop ops p e))"

lemma loop_stops: "eats (- fst ` set ops) (binary_loop ops p e (Suc n)) [] e"
proof (rule eatsI)
  fix ts rest :: "Token list" assume "map lexeme ts = []" "peek_type rest \<in> - fst ` set ops"
  then have "map_of ops (peek_type rest) = None" "ts = []" by (auto simp: map_of_eq_None_iff)
  then show "binary_loop ops p e (Suc n) (ts @ rest) = Inr (e, rest)" by simp
qed

lemma loop_reads:
  assumes "map_of ops ty = Some opn" "ty \<noteq> T_END" "eats F p ls r" "F \<inter> fst ` set ops = {}"
  shows "eats F (binary_loop ops p e (Suc (Suc n))) ((ty, s) # ls) (BinaryOp opn e r)"
proof (rule eatsI)
  fix ts rest :: "Token list" assume ts: "map lexeme ts = (ty, s) # ls" and rest: "peek_type rest \<in> F"
  then obtain t ts1 where t: "ts = t # ts1" "tk_type t = ty" "map lexeme ts1 = ls" by (auto simp: map_eq_Cons_conv)
  have "peek_type rest \<in> - fst ` set ops" using rest assms(4) by blast
  then have stop: "binary_loop ops p (BinaryOp opn e r) (Suc n) rest = Inr (BinaryOp opn e r, rest)"
    using eatsD [OF loop_stops, of "[]"] by simp
  have "binary_loop ops p e (Suc (Suc n)) (ts @ rest) = bindP p (\<lambda>r. binary_loop ops p (BinaryOp opn e r) (Suc n)) (ts1 @ rest)"
    using assms(1,2) t by (simp add: peek_def thenP_def bindP_def advance_def is_at_end_def)
  also have "\<dots> = Inr (BinaryOp opn e r, rest)"
    unfolding bindP_def eatsD [OF assms(3) t(3) rest] using stop by simp
  finally show "binary_loop ops p e (Suc (Suc n)) (ts @ rest) = Inr (BinaryOp opn e r, rest)" .
qed

lemma level_pass:
  assumes "eats F p ls e"
  shows "eats (F - fst ` set ops) (level ops p) ls e"
proof -
  have "eats (F - fst ` set ops) (fuelP (binary_loop ops p e)) [] e"
  proof (rule eats_fuel)
    fix n assume "length ([] :: lexemes) < n"
    then obtain m where "n = Suc m" by (cases n) auto
    then show "eats (F - fst ` set ops) (binary_loop ops p e n) [] e" using eats_mono [OF loop_stops] by blast
  qed
  from eats_bind [where f = "\<lambda>e. fuelP (binary_loop ops p e)", OF assms this] show ?thesis by (simp add: level_def follows_def)
qed

lemma level_binary:
  assumes "map_of ops ty = Some opn" "ty \<noteq> T_END" "eats F p ls l" "eats F p ls' r" "ty \<in> F"
  shows "eats (F - fst ` set ops) (level ops p) (ls @ (ty, s) # ls') (BinaryOp opn l r)"
  unfolding level_def
proof (rule eats_bind [OF assms(3)])
  show "eats (F - fst ` set ops) (fuelP (binary_loop ops p l)) ((ty, s) # ls') (BinaryOp opn l r)"
  proof (rule eats_fuel)
    fix n assume "length ((ty, s) # ls') < n"
    then obtain m where "n = Suc (Suc m)" by (cases n; cases "n - 1") auto
    with loop_reads [OF assms(1,2) eats_mono [OF assms(4)]]
    show "eats (F - fst ` set ops) (binary_loop ops p l n) ((ty, s) # ls') (BinaryOp opn l r)" by (simp add: Diff_Int_distrib2 Int_Diff)
  qed
  show "follows (F - fst ` set ops) ((ty, s) # ls') F" using assms(5) by (simp add: follows_def)
qed

text \<open>The comparison level takes one operator at most.\<close>

lemma comparison_pass:
  assumes "eats F (parse_addition u) ls e"
  shows "eats (F - fst ` set cmp_ops) (parse_comparison u) ls e"
proof (rule eatsI)
  fix ts rest :: "Token list" assume ts: "map lexeme ts = ls" "peek_type rest \<in> F - fst ` set cmp_ops"
  then have "map_of cmp_ops (peek_type rest) = None" by (auto simp: map_of_eq_None_iff)
  with eatsD [OF assms ts(1), of rest] ts(2) show "parse_comparison u (ts @ rest) = Inr (e, rest)"
    by (simp add: parse_comparison_def bindP_def)
qed

lemma comparison_binary:
  assumes "map_of cmp_ops ty = Some opn" "eats F (parse_addition u) ls l" "eats F (parse_addition u) ls' r" "ty \<in> F"
  shows "eats F (parse_comparison u) (ls @ (ty, s) # ls') (BinaryOp opn l r)"
proof (rule eatsI)
  fix ts rest :: "Token list" assume ts: "map lexeme ts = ls @ (ty, s) # ls'" and rest: "peek_type rest \<in> F"
  then obtain ts1 t ts2 where t: "ts = ts1 @ t # ts2" "map lexeme ts1 = ls" "tk_type t = ty" "map lexeme ts2 = ls'"
    by (auto simp: map_eq_append_conv map_eq_Cons_conv)
  have "peek_type (t # ts2 @ rest) \<in> F" using assms(4) t(3) by (simp add: peek_def)
  from eatsD [OF assms(2) t(2) this] eatsD [OF assms(3) t(4) rest] assms(1) t(3)
  show "parse_comparison u (ts @ rest) = Inr (BinaryOp opn l r, rest)"
    by (auto simp: t(1) parse_comparison_def bindP_def thenP_def advance_def is_at_end_def peek_def retP_def cmp_ops_def split: if_splits)
qed

definition op_types :: "TokenType set" where
  "op_types = {T_MUL, T_STAR, T_DIV, T_PLUS, T_MINUS, T_EQ, T_NEQ, T_LT, T_GT, T_LE, T_GE, Kw K_AND, Kw K_OR}"

lemma levels_eq:
  "parse_multiplication u = level mul_ops u" "parse_addition u = level add_ops (parse_multiplication u)"
  "parse_and u = level [(Kw K_AND, ''AND'')] (parse_comparison u)" "parse_or u = level [(Kw K_OR, ''OR'')] (parse_and u)"
  by (simp_all add: parse_multiplication_def parse_addition_def parse_and_def parse_or_def level_def)

lemma eats_sub: "eats F p ls x \<Longrightarrow> - op_types \<subseteq> F \<Longrightarrow> eats (- op_types) p ls x"
  by (rule eats_mono)

text \<open>The parser of each level, its operators, and the tokens that may follow what it reads.\<close>

definition ops_at :: "nat \<Rightarrow> (TokenType \<times> string) list" where
  "ops_at q = (if q = 1 then [(Kw K_OR, ''OR'')] else if q = 2 then [(Kw K_AND, ''AND'')] else if q = 3 then cmp_ops
     else if q = 4 then add_ops else if q = 5 then mul_ops else [])"

definition parse_at :: "nat \<Rightarrow> Expression parser \<Rightarrow> Expression parser" where
  "parse_at q u = (if q \<le> 1 then parse_or u else if q = 2 then parse_and u else if q = 3 then parse_comparison u
     else if q = 4 then parse_addition u else if q = 5 then parse_multiplication u else u)"

definition ends_at :: "nat \<Rightarrow> TokenType set" where
  "ends_at q = - (\<Union>i \<in> {q..5}. fst ` set (ops_at i))"

lemma ends_at_Suc: "q \<le> 5 \<Longrightarrow> ends_at q = ends_at (Suc q) - fst ` set (ops_at q)"
proof -
  assume "q \<le> 5"
  then have "{q..5} = insert q {Suc q..5}" by (simp add: atLeastAtMost_insertL)
  then show ?thesis by (simp only: ends_at_def) auto
qed

lemma ends_at_6: "ends_at 6 = UNIV"
  by (simp add: ends_at_def)

lemma ends_at_1: "ends_at 1 = - op_types"
proof -
  have "{1..5} = {1, 2, 3, 4, 5 :: nat}" by auto
  then show ?thesis by (auto simp: ends_at_def ops_at_def op_types_def mul_ops_def add_ops_def cmp_ops_def)
qed

lemma level_at: "q \<in> {1, 2, 4, 5} \<Longrightarrow> parse_at q u = level (ops_at q) (parse_at (Suc q) u)"
  by (auto simp: parse_at_def ops_at_def levels_eq)

lemma level_cases: "op_level opn \<in> {1, 2, 3, 4, 5}"
  by (simp add: op_level_def)

lemma op_levels:
  "map (\<lambda>(opn, ty, s). (op_level opn, opn, ty)) operators =
     [(1, ''OR'', Kw K_OR), (2, ''AND'', Kw K_AND), (3, ''='', T_EQ), (3, ''!='', T_NEQ), (3, ''<'', T_LT), (3, ''>'', T_GT),
      (3, ''<='', T_LE), (3, ''>='', T_GE), (4, ''+'', T_PLUS), (4, ''-'', T_MINUS), (5, ''*'', T_STAR), (5, ''/'', T_DIV)]"
  unfolding operators_def op_level_def by simp

lemma ops_at_above: "(q, opn, ty) \<in> set (map (\<lambda>(opn, ty, s). (op_level opn, opn, ty)) operators) \<Longrightarrow> q < i \<Longrightarrow> map_of (ops_at i) ty = None"
  unfolding op_levels by (auto simp: ops_at_def cmp_ops_def add_ops_def mul_ops_def)

lemma ops_at_own: "(q, opn, ty) \<in> set (map (\<lambda>(opn, ty, s). (op_level opn, opn, ty)) operators) \<Longrightarrow> map_of (ops_at q) ty = Some opn \<and> ty \<noteq> T_END"
proof -
  have "list_all (\<lambda>(q, opn, ty). map_of (ops_at q) ty = Some opn \<and> ty \<noteq> T_END) (map (\<lambda>(opn, ty, s). (op_level opn, opn, ty)) operators)"
    unfolding op_levels by (simp add: ops_at_def cmp_ops_def add_ops_def mul_ops_def)
  then show "(q, opn, ty) \<in> set (map (\<lambda>(opn, ty, s). (op_level opn, opn, ty)) operators) \<Longrightarrow> map_of (ops_at q) ty = Some opn \<and> ty \<noteq> T_END"
    unfolding list_all_iff by fast
qed

lemma operator_at:
  assumes "opn \<in> fst ` set operators"
  obtains ty s where "map_of operators opn = Some (ty, s)" "map_of (ops_at (op_level opn)) ty = Some opn" "ty \<noteq> T_END"
    "ty \<in> ends_at (Suc (op_level opn))"
proof -
  obtain ty s where o: "map_of operators opn = Some (ty, s)"
    using assms by (cases "map_of operators opn") (auto simp: map_of_eq_None_iff)
  then have t: "(op_level opn, opn, ty) \<in> set (map (\<lambda>(opn, ty, s). (op_level opn, opn, ty)) operators)"
    using map_of_SomeD [OF o] by force
  have "ty \<in> ends_at (Suc (op_level opn))"
    using ops_at_above [OF t] by (auto simp: ends_at_def map_of_eq_None_iff Suc_le_eq)
  with o ops_at_own [OF t] show thesis using that by blast
qed

text \<open>What a level reads is read by every looser one.\<close>

lemma parse_at_up:
  assumes "eats (ends_at (Suc q)) (parse_at (Suc q) u) ls e" "q \<in> {1, 2, 3, 4, 5}"
  shows "eats (ends_at q) (parse_at q u) ls e"
proof (cases "q = 3")
  case True
  then have "eats (ends_at 4) (parse_addition u) ls e" using assms(1) by (simp add: parse_at_def)
  from comparison_pass [OF this] show ?thesis using True ends_at_Suc [of 3] by (simp add: parse_at_def ops_at_def)
next
  case False
  with assms(2) have q: "q \<in> {1, 2, 4, 5}" "q \<le> 5" by auto
  show ?thesis unfolding level_at [OF q(1)] ends_at_Suc [OF q(2)] by (rule level_pass [OF assms(1)])
qed

lemma parse_at_down:
  assumes "eats (ends_at q') (parse_at q' u) ls e" "1 \<le> q" "q \<le> q'" "q' \<le> 6"
  shows "eats (ends_at q) (parse_at q u) ls e"
  using assms(3,2)
proof (induction q rule: inc_induct)
  case (step q)
  have "q \<in> {1, 2, 3, 4, 5}" using step.hyps step.prems assms(4) by (simp, arith)
  with step show ?case by (metis One_nat_def le_SucI parse_at_up)
qed (use assms(1) in simp)

text \<open>An operand list \<open>a op b op c\<close> of one level is read into the loop, which goes on behind it.\<close>

definition chain :: "nat \<Rightarrow> Expression parser \<Rightarrow> lexemes \<Rightarrow> Expression \<Rightarrow> bool" where
  "chain q u ls e \<longleftrightarrow> (\<forall>ts rest. map lexeme ts = ls \<longrightarrow> peek_type rest \<in> ends_at (Suc q) \<longrightarrow>
     (\<exists>n > length rest. level (ops_at q) (parse_at (Suc q) u) (ts @ rest) = binary_loop (ops_at q) (parse_at (Suc q) u) e n rest))"

lemma chainD:
  assumes "chain q u ls e" "map lexeme ts = ls" "peek_type rest \<in> ends_at (Suc q)"
  obtains n where "length rest < n" "level (ops_at q) (parse_at (Suc q) u) (ts @ rest) = binary_loop (ops_at q) (parse_at (Suc q) u) e n rest"
  using assms unfolding chain_def by blast

lemma chain_start: "eats (ends_at (Suc q)) (parse_at (Suc q) u) ls e \<Longrightarrow> chain q u ls e"
  using eatsD unfolding chain_def level_def bindP_def fuelP_def by fastforce

lemma chain_step:
  assumes "chain q u ls l" "map_of (ops_at q) ty = Some opn" "ty \<noteq> T_END" "ty \<in> ends_at (Suc q)"
    and r: "eats (ends_at (Suc q)) (parse_at (Suc q) u) ls' r"
  shows "chain q u (ls @ (ty, s) # ls') (BinaryOp opn l r)"
  unfolding chain_def
proof (intro allI impI)
  fix ts rest :: "Token list" assume ts: "map lexeme ts = ls @ (ty, s) # ls'" and rest: "peek_type rest \<in> ends_at (Suc q)"
  then obtain ts1 t ts2 where t: "ts = ts1 @ t # ts2" "map lexeme ts1 = ls" "tk_type t = ty" "map lexeme ts2 = ls'"
    by (auto simp: map_eq_append_conv map_eq_Cons_conv)
  have "peek_type (t # ts2 @ rest) \<in> ends_at (Suc q)" using assms(4) t(3) by (simp add: peek_def)
  then obtain n where n: "length (t # ts2 @ rest) < n"
    "level (ops_at q) (parse_at (Suc q) u) (ts @ rest) = binary_loop (ops_at q) (parse_at (Suc q) u) l n (t # ts2 @ rest)"
    using chainD [OF assms(1) t(2), of "t # ts2 @ rest"] by (auto simp: t(1))
  then obtain m where m: "n = Suc m" "length rest < m" by (cases n) auto
  have "binary_loop (ops_at q) (parse_at (Suc q) u) l n (t # ts2 @ rest) = binary_loop (ops_at q) (parse_at (Suc q) u) (BinaryOp opn l r) m rest"
    using assms(2,3) t(3) eatsD [OF r t(4) rest]
    by (simp add: m(1) peek_def thenP_def bindP_def advance_def is_at_end_def)
  with n(2) m(2) show "\<exists>n > length rest. level (ops_at q) (parse_at (Suc q) u) (ts @ rest) =
      binary_loop (ops_at q) (parse_at (Suc q) u) (BinaryOp opn l r) n rest" by auto
qed

lemma chain_eats:
  assumes "chain q u ls e" "q \<in> {1, 2, 4, 5}"
  shows "eats (ends_at q) (parse_at q u) ls e"
proof (rule eatsI)
  fix ts rest :: "Token list" assume ts: "map lexeme ts = ls" and rest: "peek_type rest \<in> ends_at q"
  have q: "q \<le> 5" using assms(2) by auto
  from rest have r: "peek_type rest \<in> ends_at (Suc q)" "peek_type rest \<in> - fst ` set (ops_at q)" by (auto simp: ends_at_Suc [OF q])
  then obtain n where "length rest < n" "level (ops_at q) (parse_at (Suc q) u) (ts @ rest) = binary_loop (ops_at q) (parse_at (Suc q) u) e n rest"
    using chainD [OF assms(1) ts] by blast
  moreover from this obtain m where "n = Suc m" by (cases n) auto
  ultimately show "parse_at q u (ts @ rest) = Inr (e, rest)"
    using eatsD [OF loop_stops, of "[]" rest] r(2) by (simp add: level_at [OF assms(2)])
qed

lemma eats_primary_token:
  assumes "\<And>t ts. lexeme t = l \<Longrightarrow> parse_primary expr (t # ts) = Inr (e, ts)"
  shows "eats UNIV (parse_primary expr) [l] e"
  using assms by (auto simp: eats_def map_eq_Cons_conv)

lemma eats_primary_value: "value_ok v \<Longrightarrow> eats UNIV (parse_primary expr) (write_value v) (Literal v)"
proof (cases v)
  case (VInt i)
  assume "value_ok v"
  then have "unat i < 2 ^ 63" by (simp add: VInt)
  then have "int (unat i) < int (2 ^ 63)" by (simp only: of_nat_less_iff)
  moreover have "- (2 ^ 63) \<le> int (unat i)" by (rule order_trans [of _ 0]) simp_all
  ultimately have "stoll (int_to_string (int (unat i))) = Inr (of_int (int (unat i)))"
    by (intro stoll_int_to_string) simp_all
  then have "stoll (nat_to_string (unat i)) = Inr i" by (simp add: int_to_string_def)
  then show ?thesis unfolding VInt write_value.simps
    by (intro eats_primary_token) (auto simp: parse_primary_def ifMatch_def check_def is_at_end_def peek_def thenP_def bindP_def advance_def number_def retP_def)
qed (auto intro!: eats_primary_token simp: parse_primary_def ifMatch_def check_def is_at_end_def peek_def thenP_def bindP_def advance_def retP_def)

lemma eats_primary_column: "eats UNIV (parse_primary expr) [(T_IDENTIFIER, c)] (ColumnRef c)"
  by (auto intro!: eats_primary_token simp: parse_primary_def ifMatch_def check_def is_at_end_def peek_def thenP_def bindP_def advance_def retP_def)

lemma eats_primary_parens:
  assumes "eats (- op_types) expr ls e"
  shows "eats UNIV (parse_primary expr) ([LP] @ ls @ [RP]) e"
proof (rule eatsI)
  fix ts rest :: "Token list" assume ts: "map lexeme ts = [LP] @ ls @ [RP]"
  then obtain t ts1 u where t: "ts = t # ts1 @ [u]" "lexeme t = LP" "map lexeme ts1 = ls" "lexeme u = RP"
    by (auto simp: map_eq_append_conv map_eq_Cons_conv)
  have "peek_type (u # rest) \<in> - op_types" using t(4) by (simp add: peek_def RP_def op_types_def)
  from eatsD [OF assms t(3) this] t(2,4) show "parse_primary expr (ts @ rest) = Inr (e, rest)"
    by (simp add: t(1) parse_primary_def ifMatch_def check_def is_at_end_def peek_def thenP_def bindP_def advance_def retP_def LP_def RP_def expect_def)
qed

lemma eats_unary_primary:
  assumes "eats UNIV (parse_primary (parse_or (parse_unary n))) (l # ls) e" "fst l \<notin> {Kw K_NOT, T_MINUS}"
  shows "eats UNIV (parse_unary (Suc n)) (l # ls) e"
  unfolding parse_unary.simps using assms by (intro eats_no_match) (simp_all add: follows_def)

lemma write_at_not_Nil: "expr_ok e \<Longrightarrow> write_at p e \<noteq> []"
proof (cases e)
  case (Literal v)
  then show "expr_ok e \<Longrightarrow> write_at p e \<noteq> []" by (cases v) auto
qed (auto simp: Let_def)

lemma eats_in_parens:
  assumes "eats (ends_at 1) (parse_at 1 (parse_unary n)) ls e"
  shows "eats UNIV (parse_unary (Suc n)) (LP # ls @ [RP]) e"
proof -
  have "eats (- op_types) (parse_or (parse_unary n)) ls e" using assms by (simp only: ends_at_1) (simp add: parse_at_def)
  then have "eats UNIV (parse_primary (parse_or (parse_unary n))) (LP # ls @ [RP]) e" using eats_primary_parens by simp
  then show ?thesis by (rule eats_unary_primary) (simp add: LP_def)
qed

text \<open>
  An expression is read at its level, as part of a chain where the level associates to the left, and in parentheses
  everywhere.
\<close>

lemma eats_at:
  "expr_ok e \<Longrightarrow> length (write_at p e) \<le> n \<Longrightarrow> 1 \<le> p \<Longrightarrow> p \<le> 6 \<Longrightarrow>
     eats (ends_at p) (parse_at p (parse_unary n)) (write_at p e) e \<and>
     (p \<in> {1, 2, 4, 5} \<longrightarrow> chain p (parse_unary n) (write_at p e) e)"
proof (induction e arbitrary: n p)
  case (Literal v)
  have "write_value v \<noteq> []" using Literal by (cases v) auto
  with Literal obtain m where n: "n = Suc m" by (cases n) auto
  have "\<exists>l. write_value v = [l] \<and> fst l \<notin> {Kw K_NOT, T_MINUS}" using Literal by (cases v) auto
  then have u: "eats (ends_at 6) (parse_at 6 (parse_unary n)) (write_value v) (Literal v)"
    using eats_unary_primary eats_primary_value [of v] Literal(1) n by (fastforce simp: parse_at_def ends_at_6 simp del: parse_unary.simps)
  show ?case
    using parse_at_down [OF u] Literal.prems(3,4) chain_start [OF parse_at_down [OF u], of p] by auto
next
  case (ColumnRef c)
  then obtain m where n: "n = Suc m" by (cases n) auto
  have u: "eats (ends_at 6) (parse_at 6 (parse_unary n)) [(T_IDENTIFIER, c)] (ColumnRef c)"
    using eats_unary_primary [OF eats_primary_column] by (simp add: n parse_at_def ends_at_6 del: parse_unary.simps)
  show ?case
    using parse_at_down [OF u] ColumnRef.prems(3,4) chain_start [OF parse_at_down [OF u], of p] by auto
next
  case (BinaryOp opn l r)
  let ?q = "op_level opn" and ?lp = "if op_level opn = 3 then 4 else op_level opn"
  obtain ty s where ty: "map_of operators opn = Some (ty, s)" "map_of (ops_at ?q) ty = Some opn" "ty \<noteq> T_END" "ty \<in> ends_at (Suc ?q)"
    using BinaryOp.prems(1) operator_at [of opn] by auto
  have q: "?q \<in> {1, 2, 3, 4, 5}" by (rule level_cases)
  define ls where "ls = write_at ?lp l @ (ty, s) # write_at (Suc ?q) r"
  have w: "write_at p (BinaryOp opn l r) = (if ?q < p then LP # ls @ [RP] else ls)" for p
    by (simp add: Let_def ls_def ty(1))
  have body: "eats (ends_at ?q) (parse_at ?q (parse_unary n)) ls (BinaryOp opn l r) \<and>
      (?q \<in> {1, 2, 4, 5} \<longrightarrow> chain ?q (parse_unary n) ls (BinaryOp opn l r))" if len: "length ls \<le> n" for n
  proof -
    have l: "eats (ends_at ?lp) (parse_at ?lp (parse_unary n)) (write_at ?lp l) l \<and>
        (?lp \<in> {1, 2, 4, 5} \<longrightarrow> chain ?lp (parse_unary n) (write_at ?lp l) l)"
      using BinaryOp.prems(1) len q by (intro BinaryOp.IH(1)) (auto simp: ls_def)
    have r: "eats (ends_at (Suc ?q)) (parse_at (Suc ?q) (parse_unary n)) (write_at (Suc ?q) r) r"
      using BinaryOp.prems(1) len q by (intro conjunct1 [OF BinaryOp.IH(2)]) (auto simp: ls_def)
    show ?thesis
    proof (cases "?q = 3")
      case True
      have "eats (ends_at 4) (parse_comparison (parse_unary n)) ls (BinaryOp opn l r)"
        unfolding ls_def using ty l r True by (intro comparison_binary) (simp_all add: parse_at_def ops_at_def)
      then have "eats (ends_at 3) (parse_comparison (parse_unary n)) ls (BinaryOp opn l r)"
        by (rule eats_mono) (auto simp: ends_at_Suc [of 3])
      with True show ?thesis by (simp add: parse_at_def)
    next
      case False
      with q have q': "?q \<in> {1, 2, 4, 5}" by simp
      have "chain ?q (parse_unary n) ls (BinaryOp opn l r)"
        unfolding ls_def using mp [OF conjunct2 [OF l]] False q' ty r by (intro chain_step) simp_all
      with chain_eats [OF this q'] show ?thesis by simp
    qed
  qed
  have q6: "1 \<le> ?q" "?q \<le> 6" using q by auto
  show ?case
  proof (cases "?q < p")
    case True
    with BinaryOp.prems(2) obtain m where n: "n = Suc m" "length ls \<le> m" by (cases n) (simp_all add: w del: write_at.simps)
    have "eats UNIV (parse_unary n) (LP # ls @ [RP]) (BinaryOp opn l r)"
      unfolding n(1) by (rule eats_in_parens) (rule parse_at_down [OF conjunct1 [OF body [OF n(2)]]], use q6 in simp_all)
    then have u: "eats (ends_at 6) (parse_at 6 (parse_unary n)) (LP # ls @ [RP]) (BinaryOp opn l r)" by (simp add: parse_at_def ends_at_6)
    show ?thesis
      using parse_at_down [OF u] BinaryOp.prems(3,4) chain_start [OF parse_at_down [OF u], of p] True by (auto simp: w simp del: write_at.simps)
  next
    case False
    with BinaryOp.prems(2) have len: "length ls \<le> n" by (simp add: w del: write_at.simps)
    have "eats (ends_at p) (parse_at p (parse_unary n)) ls (BinaryOp opn l r)"
      by (rule parse_at_down [OF conjunct1 [OF body [OF len]]]) (use False q6 BinaryOp.prems(3) in simp_all)
    moreover have "chain p (parse_unary n) ls (BinaryOp opn l r)" if p: "p \<in> {1, 2, 4, 5}"
    proof (cases "p = ?q")
      case True
      with p show ?thesis using mp [OF conjunct2 [OF body [OF len]]] by simp
    next
      case neq: False
      show ?thesis
        by (rule chain_start, rule parse_at_down [OF conjunct1 [OF body [OF len]]]) (use False neq q6 in simp_all)
    qed
    ultimately show ?thesis using False by (auto simp: w simp del: write_at.simps)
  qed
next
  case (UnaryOp opn e)
  then obtain m where n: "n = Suc m" by (cases n) auto
  have e: "opn = ''NOT''" "eats UNIV (parse_unary m) (write_at 6 e) e"
    using UnaryOp.prems n conjunct1 [OF UnaryOp.IH [of 6 m]] by (simp_all add: parse_at_def ends_at_6)
  have "eats UNIV (parse_unary n) ((Kw K_NOT, ''NOT'') # write_at 6 e) (UnaryOp opn e)"
    unfolding n parse_unary.simps using eats_bind_ret [OF e(2), of "UnaryOp ''NOT''"] e(1) by (intro eats_token) simp_all
  then have u: "eats (ends_at 6) (parse_at 6 (parse_unary n)) (write_at p (UnaryOp opn e)) (UnaryOp opn e)"
    by (simp add: parse_at_def ends_at_6)
  show ?case
    using parse_at_down [OF u] UnaryOp.prems(3,4) chain_start [OF parse_at_down [OF u], of p] by (auto simp del: write_at.simps)
qed

lemma eats_expression: "expr_ok e \<Longrightarrow> eats (- op_types) parse_expression (write_expr e) e"
proof -
  assume "expr_ok e"
  then have "eats (ends_at 1) (parse_at 1 (parse_unary n)) (write_expr e) e" if "length (write_expr e) < n" for n
    using that eats_at [of e 1 n] by (simp add: write_expr_def)
  then show ?thesis unfolding parse_expression_def ends_at_1 [symmetric] by (intro eats_fuel) (simp add: parse_at_def)
qed

lemma eats_value_item: "value_ok v \<Longrightarrow> eats UNIV value_item (write_value v) v"
  unfolding value_item_def using eats_bind_ret [OF eats_primary_value, of v _ literal_of] by (simp add: literal_of_def)

text \<open>Lists separated by commas.\<close>

definition write_list :: "('a \<Rightarrow> lexemes) \<Rightarrow> 'a list \<Rightarrow> lexemes" where
  "write_list w xs = (case xs of [] \<Rightarrow> [] | y # ys \<Rightarrow> w y @ concat (map (\<lambda>x. CM # w x) ys))"

lemma eats_comma_loop:
  assumes "\<And>x. x \<in> set xs \<Longrightarrow> eats F p (w x) x" "T_COMMA \<in> F"
  shows "length xs < n \<Longrightarrow> eats (F - {T_COMMA}) (comma_loop p n) (concat (map (\<lambda>x. CM # w x) xs)) xs"
  using assms(1)
proof (induction xs arbitrary: n)
  case Nil
  then obtain m where "n = Suc m" by (cases n) auto
  then show ?case by (auto intro!: eats_no_match eats_ret simp: follows_def)
next
  case (Cons x xs)
  then obtain m where n: "n = Suc m" by (cases n) auto
  have follow: "follows (F - {T_COMMA}) (concat (map (\<lambda>x. CM # w x) xs)) F"
    using assms(2) by (cases xs) (auto simp: follows_def CM_def)
  have "eats (F - {T_COMMA}) (bindP p (\<lambda>x. bindP (comma_loop p m) (\<lambda>xs. retP (x # xs))))
      (w x @ concat (map (\<lambda>x. CM # w x) xs)) (x # xs)"
    by (rule eats_bind [OF _ eats_bind_ret follow]) (use Cons n in auto)
  then show ?case unfolding n comma_loop.simps by (auto simp: CM_def intro!: eats_token)
qed

lemma eats_comma_list:
  assumes "\<And>x. x \<in> set xs \<Longrightarrow> eats F p (w x) x" "T_COMMA \<in> F" "xs \<noteq> []"
  shows "eats (F - {T_COMMA}) (comma_list p) (write_list w xs) xs"
proof -
  obtain y ys where xs: "xs = y # ys" using assms(3) by (cases xs) auto
  have len: "length zs \<le> length (concat (map (\<lambda>x. CM # w x) zs))" for zs by (induction zs) auto
  have loop: "eats (F - {T_COMMA}) (fuelP (comma_loop p)) (concat (map (\<lambda>x. CM # w x) ys)) ys"
    by (intro eats_fuel eats_comma_loop [OF _ assms(2)]) (use assms(1) xs len [of ys] in \<open>auto intro: le_less_trans\<close>)
  have follow: "follows (F - {T_COMMA}) (concat (map (\<lambda>x. CM # w x) ys)) F"
    using assms(2) by (cases ys) (auto simp: follows_def CM_def)
  show ?thesis unfolding comma_list_def xs write_list_def list.case
    by (rule eats_bind [OF assms(1) eats_bind_ret [OF loop] follow]) (simp add: xs)
qed

text \<open>Statements, each in the form the parser accepts.\<close>

abbreviation ID :: "string \<Rightarrow> TokenType \<times> string" where
  "ID s \<equiv> (T_IDENTIFIER, s)"

abbreviation write_names :: "string list \<Rightarrow> lexemes" where
  "write_names \<equiv> write_list (\<lambda>s. [ID s])"

definition write_where :: "Expression option \<Rightarrow> lexemes" where
  "write_where w = (case w of None \<Rightarrow> [] | Some e \<Rightarrow> (Kw K_WHERE, ''WHERE'') # write_expr e)"

definition write_row :: "val list \<Rightarrow> lexemes" where
  "write_row vs = [LP] @ write_list write_value vs @ [RP]"

definition write_assignment :: "string \<times> Expression \<Rightarrow> lexemes" where
  "write_assignment a = [ID (fst a), (T_EQ, ''='')] @ write_expr (snd a)"

definition write_column :: "ColumnDef \<Rightarrow> lexemes" where
  "write_column c = [ID (cd_name c), ID (data_type_name (cd_type c))] @
     (if cd_primary_key c then [(Kw K_PRIMARY, ''PRIMARY''), (Kw K_KEY, ''KEY'')] else [])"

fun write_stmt :: "Statement \<Rightarrow> lexemes" where
  "write_stmt (Select s) = [(Kw K_SELECT, ''SELECT'')] @
     (if sel_columns s = [] then [(T_STAR, ''*'')] else write_names (sel_columns s)) @
     [(Kw K_FROM, ''FROM''), ID (sel_from s)] @ write_where (sel_where s)"
| "write_stmt (Insert s) = [(Kw K_INSERT, ''INSERT''), (Kw K_INTO, ''INTO''), ID (ins_table s)] @
     (if ins_columns s = [] then [] else [LP] @ write_names (ins_columns s) @ [RP]) @
     [(Kw K_VALUES, ''VALUES'')] @ write_list write_row (ins_values s)"
| "write_stmt (Update s) = [(Kw K_UPDATE, ''UPDATE''), ID (upd_table s), (Kw K_SET, ''SET'')] @
     write_list write_assignment (upd_sets s) @ write_where (upd_where s)"
| "write_stmt (Delete s) = [(Kw K_DELETE, ''DELETE''), (Kw K_FROM, ''FROM''), ID (del_table s)] @ write_where (del_where s)"
| "write_stmt (CreateTable s) = [(Kw K_CREATE, ''CREATE''), (Kw K_TABLE, ''TABLE''), ID (ct_name s), LP] @
     write_list write_column (ct_columns s) @ [RP]"
| "write_stmt (DropTable name) = [(Kw K_DROP, ''DROP''), (Kw K_TABLE, ''TABLE''), ID name]"
| "write_stmt (CreateIndex s) = [(Kw K_CREATE, ''CREATE''), (Kw K_INDEX, ''INDEX''), ID (ci_index_name s), (Kw K_ON, ''ON''),
     ID (ci_table s), LP, ID (ci_column s), RP]"
| "write_stmt (CreateDatabase name) = [(Kw K_CREATE, ''CREATE''), (Obj O_DATABASE, ''DATABASE''), ID name]"
| "write_stmt (DropDatabase name) = [(Kw K_DROP, ''DROP''), (Obj O_DATABASE, ''DATABASE''), ID name]"
| "write_stmt (CreateSchema s) = [(Kw K_CREATE, ''CREATE''), (Obj O_SCHEMA, ''SCHEMA''), ID (cs_name s)]"
| "write_stmt (CreateUser s) = [(Kw K_CREATE, ''CREATE''), (Obj O_USER, ''USER''), ID (usr_name s), (Obj O_WITH, ''WITH''),
     (Obj O_PASSWORD, ''PASSWORD''), (T_STRING_LIT, usr_password s)]"
| "write_stmt (DropUser name) = [(Kw K_DROP, ''DROP''), (Obj O_USER, ''USER''), ID name]"
| "write_stmt (UseDatabase name) = [(Obj O_USE, ''USE''), ID name]"
| "write_stmt ShowDatabases = [(Obj O_SHOW, ''SHOW''), (Obj O_DATABASES, ''DATABASES'')]"
| "write_stmt ShowUsers = [(Obj O_SHOW, ''SHOW''), (Obj O_USERS, ''USERS'')]"
| "write_stmt ShowSchemas = [(Obj O_SHOW, ''SHOW''), (Obj O_SCHEMAS, ''SCHEMAS'')]"
| "write_stmt BeginTransaction = [(Txn X_BEGIN, ''BEGIN'')]"
| "write_stmt CommitTransaction = [(Txn X_COMMIT, ''COMMIT'')]"
| "write_stmt RollbackTransaction = [(Txn X_ROLLBACK, ''ROLLBACK'')]"
| "write_stmt UnknownStatement = []"

definition where_ok :: "Expression option \<Rightarrow> bool" where
  "where_ok w \<longleftrightarrow> (case w of None \<Rightarrow> True | Some e \<Rightarrow> expr_ok e)"

definition column_ok :: "ColumnDef \<Rightarrow> bool" where
  "column_ok c \<longleftrightarrow> name_ok (cd_name c) \<and> data_type_from_name (data_type_name (cd_type c)) = cd_type c \<and> cd_nullable c \<and> cd_default c = None"

fun stmt_ok :: "Statement \<Rightarrow> bool" where
  "stmt_ok (Select s) \<longleftrightarrow> list_all name_ok (sel_columns s) \<and> name_ok (sel_from s) \<and> where_ok (sel_where s)"
| "stmt_ok (Insert s) \<longleftrightarrow> name_ok (ins_table s) \<and> list_all name_ok (ins_columns s) \<and> ins_values s \<noteq> [] \<and>
     list_all (\<lambda>vs. vs \<noteq> [] \<and> list_all value_ok vs) (ins_values s)"
| "stmt_ok (Update s) \<longleftrightarrow> name_ok (upd_table s) \<and> upd_sets s \<noteq> [] \<and> omap_ok (upd_sets s) \<and>
     list_all (\<lambda>(c, e). name_ok c \<and> expr_ok e) (upd_sets s) \<and> where_ok (upd_where s)"
| "stmt_ok (Delete s) \<longleftrightarrow> name_ok (del_table s) \<and> where_ok (del_where s)"
| "stmt_ok (CreateTable s) \<longleftrightarrow> name_ok (ct_name s) \<and> ct_columns s \<noteq> [] \<and> list_all column_ok (ct_columns s)"
| "stmt_ok (CreateIndex s) \<longleftrightarrow> name_ok (ci_index_name s) \<and> name_ok (ci_table s) \<and> name_ok (ci_column s)"
| "stmt_ok (CreateSchema s) \<longleftrightarrow> cs_database s = [] \<and> name_ok (cs_name s)"
| "stmt_ok (CreateUser s) \<longleftrightarrow> name_ok (usr_name s)"
| "stmt_ok (DropTable name) \<longleftrightarrow> name_ok name"
| "stmt_ok (CreateDatabase name) \<longleftrightarrow> name_ok name"
| "stmt_ok (DropDatabase name) \<longleftrightarrow> name_ok name"
| "stmt_ok (DropUser name) \<longleftrightarrow> name_ok name"
| "stmt_ok (UseDatabase name) \<longleftrightarrow> name_ok name"
| "stmt_ok UnknownStatement \<longleftrightarrow> False"
| "stmt_ok _ \<longleftrightarrow> True"

definition stops :: "TokenType set" where
  "stops = {T_SEMICOLON, T_END}"

lemma bindP_assoc: "bindP (bindP p f) g = bindP p (\<lambda>x. bindP (f x) g)"
  by (rule ext) (simp add: bindP_def split: sum.split)

lemma bindP_ret: "bindP (retP x) f = f x"
  by (rule ext) (simp add: bindP_def retP_def)

lemma eats_ident_bind: "eats F (f s) ls y \<Longrightarrow> eats F (bindP ident f) (ID s # ls) y"
  using eats_bind [OF eats_ident, of F f s ls y UNIV] by (auto simp: follows_def split: list.split)

lemma eats_token_end: "ty \<noteq> T_END \<Longrightarrow> eats F (thenP (expect ty) (retP x)) [(ty, s)] x"
  by (intro eats_token eats_ret)

lemma eats_where: "where_ok w \<Longrightarrow> eats (- op_types - {Kw K_WHERE}) optional_where (write_where w) w"
proof (cases w)
  case None
  then show ?thesis by (auto simp: optional_where_def write_where_def intro!: eats_no_match eats_ret simp: follows_def)
next
  case (Some e)
  assume "where_ok w"
  then have "eats (- op_types - {Kw K_WHERE}) parse_expression (write_expr e) e"
    using eats_mono [OF eats_expression, of e] by (auto simp: where_ok_def Some)
  then show ?thesis
    unfolding optional_where_def write_where_def Some option.case by (intro eats_token eats_bind_ret) simp
qed

lemma eats_row: "vs \<noteq> [] \<Longrightarrow> list_all value_ok vs \<Longrightarrow> eats UNIV value_row (write_row vs) vs"
proof -
  assume vs: "vs \<noteq> []" "list_all value_ok vs"
  have "eats (UNIV - {T_COMMA}) (comma_list value_item) (write_list write_value vs) vs"
    by (rule eats_comma_list [OF eats_value_item _ vs(1)]) (use vs(2) in \<open>auto simp: list_all_iff\<close>)
  moreover have "eats UNIV (thenP (expect T_RPAREN) (retP vs)) [RP] vs"
    unfolding RP_def by (intro eats_token_end) simp
  ultimately have "eats UNIV (bindP (comma_list value_item) (\<lambda>row. thenP (expect T_RPAREN) (retP row)))
      (write_list write_value vs @ [RP]) vs"
    by (rule eats_bind [where f = "\<lambda>row. thenP (expect T_RPAREN) (retP row)"]) (simp add: follows_def RP_def)
  then show ?thesis unfolding value_row_def write_row_def LP_def by (auto intro: eats_token)
qed

lemma eats_assignment: "expr_ok (snd a) \<Longrightarrow> eats (- op_types) assignment (write_assignment a) a"
  using eats_bind_ret [OF eats_expression, of "snd a" "Pair (fst a)"]
  by (auto simp: assignment_def write_assignment_def intro!: eats_ident_bind eats_token)

lemma eats_names: "xs \<noteq> [] \<Longrightarrow> eats (- {T_COMMA}) (comma_list ident) (write_names xs) xs"
  using eats_comma_list [of xs UNIV ident "\<lambda>s. [ID s]"] eats_ident by (simp add: Compl_eq_Diff_UNIV)

lemma eats_column:
  assumes "column_ok c"
  shows "eats (- {T_IDENTIFIER, Kw K_PRIMARY}) parse_column_def (write_column c) c"
proof -
  let ?c = "new_column (cd_name c) (cd_type c)"
  have c: "?c\<lparr>cd_primary_key := cd_primary_key c\<rparr> = c"
    using assms by (cases c) (simp add: new_column_def column_ok_def)
  let ?ls = "if cd_primary_key c then [(Kw K_PRIMARY, ''PRIMARY''), (Kw K_KEY, ''KEY'')] else []"
  let ?p = "ifPeek (\<lambda>t. tk_type t = T_IDENTIFIER)
      (bindP (first_modifier ?c) (\<lambda>col. ifPeek (\<lambda>t. tk_type t = T_IDENTIFIER) (second_modifier col) (retP col))) (retP ?c)"
  have "eats (- {T_IDENTIFIER}) ?p [] ?c"
    by (intro eats_no_peek eats_ret) (simp add: follows_def)
  moreover have "eats (- {T_IDENTIFIER, Kw K_PRIMARY}) (ifMatch (Kw K_PRIMARY) (primary_column ?c) (retP ?c)) ?ls c"
  proof (cases "cd_primary_key c")
    case True
    then show ?thesis using c unfolding primary_column_def by (auto intro!: eats_token eats_token_end eats_ret)
  next
    case False
    then have "?c = c" using c by (cases c) (simp add: new_column_def)
    with False show ?thesis by (auto intro!: eats_no_match eats_ret simp: follows_def)
  qed
  ultimately have "eats (- {T_IDENTIFIER, Kw K_PRIMARY}) (bindP ?p (\<lambda>col. ifMatch (Kw K_PRIMARY) (primary_column col) (retP col))) ([] @ ?ls) c"
    by (rule eats_bind [where f = "\<lambda>col. ifMatch (Kw K_PRIMARY) (primary_column col) (retP col)"]) (auto simp: follows_def)
  moreover have "data_type_from_name (data_type_name (cd_type c)) = cd_type c" using assms by (simp add: column_ok_def)
  ultimately show ?thesis
    unfolding parse_column_def_def parse_type_def write_column_def
    by (auto intro!: eats_ident_bind simp: bindP_assoc bindP_ret)
qed

lemma eats_skips: "eats stops skip_order_by [] ()" "eats stops skip_limit [] ()"
  unfolding skip_order_by_def skip_limit_def by (intro eats_no_match eats_ret; simp add: follows_def stops_def)+

lemma eats_then: "eats F' p ls x \<Longrightarrow> eats F q ls' y \<Longrightarrow> follows F ls' F' \<Longrightarrow> eats F (thenP p q) (ls @ ls') y"
  unfolding thenP_def by (rule eats_bind)

lemma statement_eta [simp]:
  "\<lparr>sel_columns = sel_columns s, sel_from = sel_from s, sel_where = sel_where s\<rparr> = s"
  "\<lparr>ins_table = ins_table i, ins_columns = ins_columns i, ins_values = ins_values i\<rparr> = i"
  "\<lparr>upd_table = upd_table u, upd_sets = upd_sets u, upd_where = upd_where u\<rparr> = u"
  "\<lparr>del_table = del_table d, del_where = del_where d\<rparr> = d"
  "\<lparr>ct_name = ct_name c, ct_columns = ct_columns c\<rparr> = c"
  "\<lparr>ci_table = ci_table x, ci_column = ci_column x, ci_index_name = ci_index_name x\<rparr> = x"
  "\<lparr>usr_name = usr_name r, usr_password = usr_password r\<rparr> = r"
  by simp_all

lemma eats_select: "stmt_ok (Select s) \<Longrightarrow> eats stops parse_select (write_stmt (Select s)) (Select s)"
proof -
  assume ok: "stmt_ok (Select s)"
  let ?cols = "if sel_columns s = [] then [(T_STAR, ''*'')] else write_names (sel_columns s)"
  let ?tail = "\<lambda>w. thenP skip_order_by (thenP skip_limit (retP (Select \<lparr>sel_columns = sel_columns s, sel_from = sel_from s, sel_where = w\<rparr>)))"
  have cols: "eats (- {T_COMMA}) (ifMatch T_STAR (retP []) (comma_list ident)) ?cols (sel_columns s)"
  proof (cases "sel_columns s")
    case Nil
    then show ?thesis by (auto intro!: eats_token eats_ret)
  next
    case (Cons c cs)
    then have "follows (- {T_COMMA}) (write_names (sel_columns s)) (- {T_STAR})" by (simp add: write_list_def follows_def)
    with eats_names [of "sel_columns s"] Cons show ?thesis by (auto intro!: eats_no_match)
  qed
  have "eats stops (?tail (sel_where s)) ([] @ [] @ []) (Select s)"
    unfolding statement_eta by (rule eats_then [OF eats_skips(1) eats_then [OF eats_skips(2) eats_ret]]) (simp_all add: follows_def)
  then have "eats stops (bindP optional_where ?tail) (write_where (sel_where s) @ []) (Select s)"
    by (intro eats_bind [OF eats_where]) (use ok in \<open>auto simp: follows_def stops_def op_types_def\<close>)
  then have rest: "eats stops (thenP (expect (Kw K_FROM)) (bindP ident (\<lambda>table. bindP optional_where (\<lambda>where.
      thenP skip_order_by (thenP skip_limit (retP (Select \<lparr>sel_columns = sel_columns s, sel_from = table, sel_where = where\<rparr>)))))))
      ((Kw K_FROM, ''FROM'') # ID (sel_from s) # write_where (sel_where s)) (Select s)"
    by (auto intro!: eats_token eats_ident_bind)
  show ?thesis unfolding parse_select_def write_stmt.simps append_Cons append_Nil
    by (rule eats_token(1), simp, rule eats_bind [OF cols]) (use rest in \<open>simp_all add: follows_def\<close>)
qed

lemma eats_insert_columns:
  "eats (- {T_LPAREN}) (\<lambda>ts. if peek_type ts = T_LPAREN \<and> peek_type (tl ts) \<noteq> Kw K_SELECT
        then thenP (expect T_LPAREN) (bindP (comma_list ident) (\<lambda>cs. thenP (expect T_RPAREN) (retP cs))) ts else Inr ([], ts))
     (if cs = [] then [] else [LP] @ write_names cs @ [RP]) cs"
proof (cases cs)
  case Nil
  then show ?thesis by (auto simp: eats_def)
next
  case (Cons c cs')
  let ?p = "thenP (expect T_LPAREN) (bindP (comma_list ident) (\<lambda>cs. thenP (expect T_RPAREN) (retP cs)))"
  have "eats (- {T_LPAREN}) (bindP (comma_list ident) (\<lambda>cs. thenP (expect T_RPAREN) (retP cs))) (write_names cs @ [RP]) cs"
    by (rule eats_bind [OF eats_names]) (simp_all add: Cons follows_def RP_def eats_token_end)
  then have "eats (- {T_LPAREN}) ?p ([LP] @ write_names cs @ [RP]) cs"
    unfolding LP_def by (auto intro: eats_token)
  then show ?thesis
    by (auto simp: eats_def Cons write_list_def LP_def map_eq_Cons_conv peek_def split: if_splits)
qed

lemma eats_insert: "stmt_ok (Insert s) \<Longrightarrow> eats stops parse_insert (write_stmt (Insert s)) (Insert s)"
proof -
  assume ok: "stmt_ok (Insert s)"
  let ?cols = "if ins_columns s = [] then [] else [LP] @ write_names (ins_columns s) @ [RP]"
  let ?mk = "\<lambda>table columns rows. Insert \<lparr>ins_table = table, ins_columns = columns, ins_values = rows\<rparr>"
  have "eats (UNIV - {T_COMMA}) (comma_list value_row) (write_list write_row (ins_values s)) (ins_values s)"
    by (rule eats_comma_list [OF eats_row]) (use ok in \<open>auto simp: list_all_iff\<close>)
  then have rows: "eats stops (comma_list value_row) (write_list write_row (ins_values s)) (ins_values s)"
    by (rule eats_mono) (auto simp: stops_def)
  have nonempty: "write_list write_row (ins_values s) = LP # tl (write_list write_row (ins_values s))"
    using ok by (cases "ins_values s") (auto simp: write_list_def write_row_def)
  have vals: "eats stops (thenP (ifPeek (\<lambda>t. tk_type t = Kw K_VALUES \<or> tk_text t = ''VALUE'' \<or> tk_text t = ''value'') (thenP advance (retP ())) (retP ()))
      (bindP (comma_list value_row) (\<lambda>rows. retP (?mk (ins_table s) (ins_columns s) rows))))
      ([(Kw K_VALUES, ''VALUES'')] @ write_list write_row (ins_values s)) (Insert s)"
  proof (rule eats_then)
    show "eats UNIV (ifPeek (\<lambda>t. tk_type t = Kw K_VALUES \<or> tk_text t = ''VALUE'' \<or> tk_text t = ''value'') (thenP advance (retP ())) (retP ()))
        [(Kw K_VALUES, ''VALUES'')] ()"
      by (intro eats_peek(1) eats_token(3) eats_ret) auto
    show "eats stops (bindP (comma_list value_row) (\<lambda>rows. retP (?mk (ins_table s) (ins_columns s) rows)))
        (write_list write_row (ins_values s)) (Insert s)"
      using eats_bind_ret [OF rows, of "?mk (ins_table s) (ins_columns s)"] by simp
    show "follows stops (write_list write_row (ins_values s)) UNIV" by (subst nonempty) (simp add: follows_def)
  qed
  let ?columns = "\<lambda>ts. if peek_type ts = T_LPAREN \<and> peek_type (tl ts) \<noteq> Kw K_SELECT
        then thenP (expect T_LPAREN) (bindP (comma_list ident) (\<lambda>cs. thenP (expect T_RPAREN) (retP cs))) ts else Inr ([], ts)"
  let ?f = "\<lambda>columns. thenP (ifPeek (\<lambda>t. tk_type t = Kw K_VALUES \<or> tk_text t = ''VALUE'' \<or> tk_text t = ''value'') (thenP advance (retP ())) (retP ()))
      (bindP (comma_list value_row) (\<lambda>rows. retP (?mk (ins_table s) columns rows)))"
  have "eats stops (bindP ?columns ?f) (?cols @ [(Kw K_VALUES, ''VALUES'')] @ write_list write_row (ins_values s)) (Insert s)"
    by (rule eats_bind [where f = ?f, OF eats_insert_columns vals]) (simp add: follows_def)
  then have "eats stops (bindP ident (\<lambda>table. bindP ?columns (\<lambda>columns.
      thenP (ifPeek (\<lambda>t. tk_type t = Kw K_VALUES \<or> tk_text t = ''VALUE'' \<or> tk_text t = ''value'') (thenP advance (retP ())) (retP ()))
      (bindP (comma_list value_row) (\<lambda>rows. retP (?mk table columns rows))))))
      (ID (ins_table s) # ?cols @ [(Kw K_VALUES, ''VALUES'')] @ write_list write_row (ins_values s)) (Insert s)"
    by (rule eats_ident_bind)
  from eats_token(1) [OF _ eats_token(1) [OF _ this]] show ?thesis
    unfolding parse_insert_def by simp
qed

lemma eats_update: "stmt_ok (Update s) \<Longrightarrow> eats stops parse_update (write_stmt (Update s)) (Update s)"
proof -
  assume ok: "stmt_ok (Update s)"
  have "eats (- op_types - {T_COMMA}) (comma_list assignment) (write_list write_assignment (upd_sets s)) (upd_sets s)"
    by (rule eats_comma_list [OF eats_assignment]) (use ok in \<open>auto simp: list_all_iff op_types_def\<close>)
  moreover have "eats stops (bindP optional_where (\<lambda>w. retP (Update \<lparr>upd_table = upd_table s,
      upd_sets = fold (\<lambda>(c, e). omap_put c e) (upd_sets s) [], upd_where = w\<rparr>))) (write_where (upd_where s)) (Update s)"
  proof -
    have "eats stops optional_where (write_where (upd_where s)) (upd_where s)"
      by (rule eats_mono [OF eats_where]) (use ok in \<open>auto simp: stops_def op_types_def\<close>)
    from eats_bind_ret [OF this, of "\<lambda>w. Update \<lparr>upd_table = upd_table s, upd_sets = fold (\<lambda>(c, e). omap_put c e) (upd_sets s) [], upd_where = w\<rparr>"]
    show ?thesis using ok by (simp add: omap_rebuild)
  qed
  ultimately have "eats stops (bindP (comma_list assignment) (\<lambda>sets. bindP optional_where (\<lambda>w. retP (Update \<lparr>upd_table = upd_table s,
      upd_sets = fold (\<lambda>(c, e). omap_put c e) sets [], upd_where = w\<rparr>))))
      (write_list write_assignment (upd_sets s) @ write_where (upd_where s)) (Update s)"
    by (rule eats_bind) (auto simp: follows_def write_where_def stops_def op_types_def split: option.split list.split)
  then show ?thesis unfolding parse_update_def write_stmt.simps append_Cons append_Nil
    by (intro eats_token eats_ident_bind) simp_all
qed

lemma eats_delete: "stmt_ok (Delete s) \<Longrightarrow> eats stops parse_delete (write_stmt (Delete s)) (Delete s)"
proof -
  assume ok: "stmt_ok (Delete s)"
  have "eats stops optional_where (write_where (del_where s)) (del_where s)"
    by (rule eats_mono [OF eats_where]) (use ok in \<open>auto simp: stops_def op_types_def\<close>)
  from eats_bind_ret [OF this, of "\<lambda>w. Delete \<lparr>del_table = del_table s, del_where = w\<rparr>"]
  show ?thesis unfolding parse_delete_def write_stmt.simps append_Cons append_Nil
    by (intro eats_token eats_ident_bind) simp_all
qed

lemma eats_table_item: "column_ok c \<Longrightarrow> eats (- {T_IDENTIFIER, Kw K_PRIMARY}) table_item (write_column c) [c]"
  unfolding table_item_def using eats_bind_ret [OF eats_column, of c "\<lambda>c. [c]"]
  by (intro eats_no_peek) (simp_all add: write_column_def follows_def)

lemma eats_create_table: "stmt_ok (CreateTable s) \<Longrightarrow> eats stops parse_create (write_stmt (CreateTable s)) (CreateTable s)"
proof -
  assume ok: "stmt_ok (CreateTable s)"
  then obtain c cs where cols: "ct_columns s = c # cs" by (cases "ct_columns s") auto
  have oks: "column_ok c" "\<And>x. x \<in> set cs \<Longrightarrow> column_ok x" using ok by (auto simp: cols list_all_iff)
  let ?F = "- {T_IDENTIFIER, Kw K_PRIMARY}"
  let ?items = "concat (map (\<lambda>x. CM # write_column x) cs)"
  have len: "length zs \<le> length (concat (map (\<lambda>x. CM # write_column x) zs))" for zs by (induction zs) auto
  have "eats (?F - {T_COMMA}) (comma_loop table_item n) (concat (map (\<lambda>x. CM # write_column (hd x)) (map (\<lambda>c. [c]) cs))) (map (\<lambda>c. [c]) cs)"
    if "length (map (\<lambda>c. [c]) cs) < n" for n
    by (rule eats_comma_loop [OF _ _ that]) (use oks(2) eats_table_item in auto)
  then have "eats (?F - {T_COMMA}) (fuelP (comma_loop table_item)) ?items (map (\<lambda>c. [c]) cs)"
    using len [of cs] by (intro eats_fuel) (simp add: comp_def)
  moreover have "eats stops (thenP (expect T_RPAREN) (retP (CreateTable \<lparr>ct_name = ct_name s, ct_columns = c # concat (map (\<lambda>c. [c]) cs)\<rparr>))) [RP] (CreateTable s)"
    using cols eats_token_end [of T_RPAREN stops "CreateTable s" "'')''"] by (simp add: RP_def flip: cols)
  ultimately have "eats stops (bindP (fuelP (comma_loop table_item)) (\<lambda>items. thenP (expect T_RPAREN)
      (retP (CreateTable \<lparr>ct_name = ct_name s, ct_columns = c # concat items\<rparr>)))) (?items @ [RP]) (CreateTable s)"
    by (rule eats_bind [where f = "\<lambda>items. thenP (expect T_RPAREN) (retP (CreateTable \<lparr>ct_name = ct_name s, ct_columns = c # concat items\<rparr>))"])
      (simp add: follows_def RP_def)
  then have "eats stops (bindP parse_column_def (\<lambda>col. bindP (fuelP (comma_loop table_item)) (\<lambda>items. thenP (expect T_RPAREN)
      (retP (CreateTable \<lparr>ct_name = ct_name s, ct_columns = col # concat items\<rparr>))))) (write_column c @ ?items @ [RP]) (CreateTable s)"
    by (rule eats_bind [where f = "\<lambda>col. bindP (fuelP (comma_loop table_item)) (\<lambda>items. thenP (expect T_RPAREN)
      (retP (CreateTable \<lparr>ct_name = ct_name s, ct_columns = col # concat items\<rparr>)))", OF eats_column [OF oks(1)]])
      (cases cs; simp add: follows_def RP_def CM_def)
  then have "eats stops parse_create_table (ID (ct_name s) # LP # write_list write_column (ct_columns s) @ [RP]) (CreateTable s)"
    unfolding parse_create_table_def LP_def cols write_list_def list.case append_assoc
    by (intro eats_ident_bind eats_token(1)) simp_all
  then show ?thesis unfolding parse_create_def write_stmt.simps append_Cons append_Nil
    by (intro eats_token(1) eats_no_match) (simp_all add: follows_def)
qed

lemma eats_define:
  assumes "stmt_ok s" "s = CreateIndex ix \<or> s = CreateDatabase n \<or> s = CreateSchema sc \<or> s = CreateUser us"
  shows "eats stops parse_create (write_stmt s) s"
proof -
  have "eats stops parse_create (write_stmt (CreateIndex ix)) (CreateIndex ix)"
    unfolding parse_create_def parse_create_index_def write_stmt.simps LP_def RP_def using eats_ret [of stops "CreateIndex ix"]
    by (intro eats_token(1) eats_token(2) eats_ident_bind) simp_all
  moreover have "eats stops parse_create (write_stmt (CreateDatabase n)) (CreateDatabase n)"
    unfolding parse_create_def parse_create_database_def write_stmt.simps
    by (intro eats_token(1) eats_no_match eats_token(2) eats_ident_bind eats_ret) (simp_all add: follows_def)
  moreover have "eats stops parse_create (write_stmt (CreateSchema sc)) (CreateSchema sc)" if "cs_database sc = []"
  proof -
    have "sc = \<lparr>cs_database = [], cs_name = cs_name sc\<rparr>" using that by (cases sc) simp
    then show ?thesis
      unfolding parse_create_def parse_create_schema_def write_stmt.simps
      by (intro eats_token(1) eats_no_match eats_token(2) eats_ident_bind) (simp_all add: follows_def eats_ret)
  qed
  moreover have "eats stops parse_create (write_stmt (CreateUser us)) (CreateUser us)"
  proof -
    have "eats stops (bindP (expect T_STRING_LIT) (\<lambda>t. retP (CreateUser \<lparr>usr_name = usr_name us, usr_password = tk_text t\<rparr>)))
        [(T_STRING_LIT, usr_password us)] (CreateUser us)"
      by (auto simp: eats_def bindP_def expect_def advance_def is_at_end_def peek_def retP_def map_eq_Cons_conv)
    then have "eats stops (ifPeek (\<lambda>t. map toupper (tk_text t) = ''PASSWORD'')
        (thenP advance (bindP (expect T_STRING_LIT) (\<lambda>t. retP (CreateUser \<lparr>usr_name = usr_name us, usr_password = tk_text t\<rparr>))))
        (failP UserNeedsPassword)) ((Obj O_PASSWORD, ''PASSWORD'') # [(T_STRING_LIT, usr_password us)]) (CreateUser us)"
      by (intro eats_peek(1) eats_token(3)) (auto simp: toupper_def)
    then show ?thesis
      unfolding parse_create_def parse_create_user_def write_stmt.simps
      by (intro eats_token(1) eats_no_match eats_token(2) eats_ident_bind) (simp_all add: follows_def)
  qed
  ultimately show ?thesis using assms by auto
qed

lemma eats_statement_of:
  "eats F p ((ty, x) # ls) s \<Longrightarrow> (\<And>ts. peek_type ts = ty \<Longrightarrow> parse_statement ts = p ts) \<Longrightarrow> eats F parse_statement ((ty, x) # ls) s"
proof (rule eatsI)
  fix ts rest :: "Token list" assume p: "eats F p ((ty, x) # ls) s" "\<And>ts. peek_type ts = ty \<Longrightarrow> parse_statement ts = p ts"
    and ts: "map lexeme ts = (ty, x) # ls" "peek_type rest \<in> F"
  from ts(1) have "peek_type (ts @ rest) = ty" by (cases ts) (auto simp: peek_def)
  with p(2) eatsD [OF p(1) ts] show "parse_statement (ts @ rest) = Inr (s, rest)" by simp
qed

lemma eats_short:
  "eats stops parse_drop_table (write_stmt (DropTable n)) (DropTable n)"
  "eats stops parse_drop_table (write_stmt (DropDatabase n)) (DropDatabase n)"
  "eats stops parse_drop_table (write_stmt (DropUser n)) (DropUser n)"
  "eats stops parse_use (write_stmt (UseDatabase n)) (UseDatabase n)"
  "eats stops parse_show (write_stmt ShowDatabases) ShowDatabases"
  "eats stops parse_show (write_stmt ShowUsers) ShowUsers"
  "eats stops parse_show (write_stmt ShowSchemas) ShowSchemas"
  unfolding parse_drop_table_def parse_drop_database_def parse_drop_user_def parse_use_def parse_show_def write_stmt.simps
  by (rule eats_token(1), simp,
      (rule eats_token(2), simp, (rule eats_ident_bind)?, rule eats_ret
      | (rule eats_no_match)+, rule eats_token(1), simp, rule eats_ident_bind, rule eats_ret, simp_all add: follows_def
      | rule eats_no_match, rule eats_token(2), simp, (rule eats_ident_bind)?, rule eats_ret, simp add: follows_def
      | rule eats_no_match, rule eats_no_match, rule eats_token(2), simp, rule eats_ret, simp_all add: follows_def
      | rule eats_ident_bind, rule eats_ret))+

lemma eats_work: "eats stops optional_work [] ()"
  unfolding optional_work_def
  by (intro eats_no_match) (auto simp: eats_def follows_def stops_def ifPeek_def retP_def)

lemma eats_txn:
  "eats stops parse_begin (write_stmt BeginTransaction) BeginTransaction"
  "eats stops parse_commit (write_stmt CommitTransaction) CommitTransaction"
  "eats stops parse_rollback (write_stmt RollbackTransaction) RollbackTransaction"
proof -
  have "eats stops (thenP optional_work (retP x)) [] x" for x :: Statement
    using eats_then [OF eats_work eats_ret, of stops x] by (simp add: follows_def)
  then show "eats stops parse_begin (write_stmt BeginTransaction) BeginTransaction"
    "eats stops parse_commit (write_stmt CommitTransaction) CommitTransaction"
    "eats stops parse_rollback (write_stmt RollbackTransaction) RollbackTransaction"
    unfolding parse_begin_def parse_commit_def parse_rollback_def write_stmt.simps by (simp_all add: eats_token(1))
qed

lemma eats_statement:
  assumes "stmt_ok s"
  shows "eats stops parse_statement (write_stmt s) s"
proof -
  have create: "eats stops parse_statement (write_stmt s) s" if "eats stops parse_create (write_stmt s) s" "\<exists>ls. write_stmt s = (Kw K_CREATE, ''CREATE'') # ls"
    using that eats_statement_of [of stops parse_create "Kw K_CREATE" "''CREATE''"] by (auto simp: parse_statement_def)
  have other: "eats stops parse_statement (write_stmt s) s" if "eats stops p (write_stmt s) s" "write_stmt s = (ty, x) # ls"
    "\<And>ts. peek_type ts = ty \<Longrightarrow> parse_statement ts = p ts" for p ty x ls
    using that eats_statement_of [of stops p ty x ls s] by simp
  show ?thesis
  proof (cases s)
    case (Select x)
    then show ?thesis using eats_select assms by (intro other [where p = parse_select]) (auto simp: parse_statement_def)
  next
    case (Insert x)
    then show ?thesis using eats_insert assms by (intro other [where p = parse_insert]) (auto simp: parse_statement_def)
  next
    case (Update x)
    then show ?thesis using eats_update assms by (intro other [where p = parse_update]) (auto simp: parse_statement_def)
  next
    case (Delete x)
    then show ?thesis using eats_delete assms by (intro other [where p = parse_delete]) (auto simp: parse_statement_def)
  next
    case (CreateTable x)
    then show ?thesis using eats_create_table assms by (intro create) auto
  next
    case (CreateIndex x)
    then show ?thesis using eats_define [OF assms] by (intro create) auto
  next
    case (CreateDatabase x)
    then show ?thesis using eats_define [OF assms] by (intro create) auto
  next
    case (CreateSchema x)
    then show ?thesis using eats_define [OF assms] by (intro create) auto
  next
    case (CreateUser x)
    then show ?thesis using eats_define [OF assms] by (intro create) auto
  next
    case (DropTable x)
    then show ?thesis using eats_short(1) by (intro other [where p = parse_drop_table]) (auto simp: parse_statement_def)
  next
    case (DropDatabase x)
    then show ?thesis using eats_short(2) by (intro other [where p = parse_drop_table]) (auto simp: parse_statement_def)
  next
    case (DropUser x)
    then show ?thesis using eats_short(3) by (intro other [where p = parse_drop_table]) (auto simp: parse_statement_def)
  next
    case (UseDatabase x)
    then show ?thesis using eats_short(4) by (intro other [where p = parse_use]) (auto simp: parse_statement_def)
  qed (use assms eats_short(5,6,7) eats_txn in \<open>auto simp: parse_statement_def intro!: eats_statement_of\<close>)
qed

text \<open>Programs: statements that each end with a semicolon.\<close>

definition write_program :: "Statement list \<Rightarrow> lexemes" where
  "write_program ss = concat (map (\<lambda>s. write_stmt s @ [(T_SEMICOLON, '';'')]) ss)"

lemma write_stmt_head: "stmt_ok s \<Longrightarrow> \<exists>ty x ls. write_stmt s = (ty, x) # ls \<and> ty \<noteq> T_END \<and> ty \<noteq> T_SEMICOLON"
  by (cases s) auto

lemma eats_statement_loop:
  "list_all stmt_ok ss \<Longrightarrow> length ss < n \<Longrightarrow> eats {T_END} (statement_loop n) (write_program ss) ss"
proof (induction ss arbitrary: n)
  case Nil
  then obtain m where "n = Suc m" by (cases n) auto
  then show ?case by (auto simp: eats_def write_program_def is_at_end_def)
next
  case (Cons s ss)
  then obtain m where n: "n = Suc m" by (cases n) auto
  have ok: "stmt_ok s" "list_all stmt_ok ss" "length ss < m" using Cons.prems n by auto
  show ?case
  proof (rule eatsI)
    fix ts rest :: "Token list" assume ts: "map lexeme ts = write_program (s # ss)" and rest: "peek_type rest \<in> {T_END}"
    then obtain ts1 u ts2 where t: "ts = ts1 @ u # ts2" "map lexeme ts1 = write_stmt s" "lexeme u = (T_SEMICOLON, '';'')"
        "map lexeme ts2 = write_program ss"
      by (auto simp: write_program_def map_eq_append_conv map_eq_Cons_conv)
    obtain t1 ts1' where t1: "ts1 = t1 # ts1'" "tk_type t1 \<noteq> T_END" "tk_type t1 \<noteq> T_SEMICOLON"
      using write_stmt_head [OF ok(1)] t(2) by (cases ts1) auto
    have "parse_statement (ts @ rest) = Inr (s, u # ts2 @ rest)"
      using eatsD [OF eats_statement [OF ok(1)] t(2), of "u # ts2 @ rest"] t(3) by (simp add: t(1) peek_def stops_def)
    moreover have "statement_loop m (ts2 @ rest) = Inr (ss, rest)"
      by (rule eatsD [OF Cons.IH [OF ok(2,3)] t(4) rest])
    ultimately show "statement_loop n (ts @ rest) = Inr (s # ss, rest)"
      using t1 t(3) by (simp add: n t(1) is_at_end_def peek_def bindP_def thenP_def ifMatch_def check_def advance_def retP_def)
  qed
qed

lemma parse_all_program:
  assumes "list_all stmt_ok ss" "map lexeme ts = write_program ss @ [(T_END, [])]"
  shows "parse_all ts = Inr ss"
proof -
  obtain ts1 u where t: "ts = ts1 @ [u]" "map lexeme ts1 = write_program ss" "tk_type u = T_END"
    using assms(2) by (auto simp: map_eq_append_conv map_eq_Cons_conv)
  have "length xs \<le> length (write_program xs)" for xs by (induction xs) (auto simp: write_program_def)
  then have "length ss \<le> length ts1" using t(2) by (metis length_map)
  then have "statement_loop (Suc (length ts)) (ts1 @ [u]) = Inr (ss, [u])"
    using t(1,3) by (intro eatsD [OF eats_statement_loop [OF assms(1)] t(2)]) (simp_all add: peek_def)
  then show ?thesis by (simp add: parse_all_def fuelP_def t(1))
qed

text \<open>What is written can be lexed.\<close>

lemma keyword_lexemes:
  "list_all (\<lambda>(s, ty). lexeme_ok (ty, s)) keyword_table" "list_all lexeme_ok symbols"
  by code_simp+

lemma lexeme_ok_keyword: "(s, ty) \<in> set keyword_table \<Longrightarrow> lexeme_ok (ty, s)"
  using keyword_lexemes(1) by (auto simp: list_all_iff)

lemma lexeme_ok_name: "name_ok s \<Longrightarrow> lexeme_ok (ID s)"
  by (simp add: name_ok_def)

lemma name_ok_types: "data_type_from_name (data_type_name ty) = ty \<Longrightarrow> name_ok (data_type_name ty)"
proof (cases ty)
  case UNKNOWN
  moreover have "data_type_from_name (data_type_name UNKNOWN) \<noteq> UNKNOWN" by code_simp
  moreover assume "data_type_from_name (data_type_name ty) = ty"
  ultimately show ?thesis by simp
next
  case (OtherType x)
  moreover have "data_type_from_name (data_type_name (OtherType x)) \<noteq> OtherType x"
    by (simp add: data_type_from_name_def toupper_def)
  moreover assume "data_type_from_name (data_type_name ty) = ty"
  ultimately show ?thesis by simp
qed (simp_all, code_simp+)

lemma fixed_lexemes:
  "list_all lexeme_ok [LP, RP, CM, (T_STAR, ''*''), (T_EQ, ''=''), (T_SEMICOLON, '';''), (Kw K_NULL, ''NULL''), (Kw K_TRUE, ''TRUE''),
     (Kw K_FALSE, ''FALSE''), (Kw K_NOT, ''NOT''), (Kw K_WHERE, ''WHERE''), (Kw K_PRIMARY, ''PRIMARY''), (Kw K_KEY, ''KEY''),
     (Kw K_SELECT, ''SELECT''), (Kw K_FROM, ''FROM''), (Kw K_INSERT, ''INSERT''), (Kw K_INTO, ''INTO''), (Kw K_VALUES, ''VALUES''),
     (Kw K_UPDATE, ''UPDATE''), (Kw K_SET, ''SET''), (Kw K_DELETE, ''DELETE''), (Kw K_CREATE, ''CREATE''), (Kw K_TABLE, ''TABLE''),
     (Kw K_DROP, ''DROP''), (Kw K_INDEX, ''INDEX''), (Kw K_ON, ''ON'')]"
  "list_all lexeme_ok [(Obj O_DATABASE, ''DATABASE''), (Obj O_SCHEMA, ''SCHEMA''), (Obj O_USER, ''USER''), (Obj O_WITH, ''WITH''),
     (Obj O_PASSWORD, ''PASSWORD''), (Obj O_USE, ''USE''), (Obj O_SHOW, ''SHOW''), (Obj O_DATABASES, ''DATABASES''),
     (Obj O_USERS, ''USERS''), (Obj O_SCHEMAS, ''SCHEMAS''), (Txn X_BEGIN, ''BEGIN''), (Txn X_COMMIT, ''COMMIT''),
     (Txn X_ROLLBACK, ''ROLLBACK'')]"
  "list_all (\<lambda>(_, l). lexeme_ok l) operators"
  by code_simp+

declare lexeme_ok.simps [simp del]

lemmas fixed_ok [simp] = fixed_lexemes(1,2) [unfolded list.pred_inject]

lemma lexemes_value: "value_ok v \<Longrightarrow> list_all lexeme_ok (write_value v)"
  by (cases v) (simp_all add: lexeme_ok.simps(1,3) list_all_iff nat_to_string_digits)

lemma lexemes_at: "expr_ok e \<Longrightarrow> list_all lexeme_ok (write_at p e)"
proof (induction e arbitrary: p)
  case (BinaryOp opn l r)
  then obtain x where x: "map_of operators opn = Some x"
    by (metis expr_ok.simps(3) map_of_eq_None_iff not_None_eq)
  then have "lexeme_ok x" using map_of_SomeD [OF x] fixed_lexemes(3) by (auto simp: list_all_iff)
  with x BinaryOp show ?case by (simp add: Let_def)
qed (simp_all add: lexemes_value lexeme_ok_name)

lemma lexemes_expr: "expr_ok e \<Longrightarrow> list_all lexeme_ok (write_expr e)"
  by (simp add: write_expr_def lexemes_at)

lemma lexemes_list:
  assumes "list_all P xs" "\<And>x. P x \<Longrightarrow> list_all lexeme_ok (w x)"
  shows "list_all lexeme_ok (write_list w xs)"
proof -
  have "list_all (\<lambda>x. list_all lexeme_ok (w x)) xs" using assms(1) by (rule list.pred_mono_strong) (rule assms(2))
  then show ?thesis by (cases xs) (auto simp: write_list_def list_all_iff)
qed

lemma lexemes_names: "list_all name_ok xs \<Longrightarrow> list_all lexeme_ok (write_names xs)"
  by (erule lexemes_list) (simp add: lexeme_ok_name)

lemma lexemes_where: "where_ok w \<Longrightarrow> list_all lexeme_ok (write_where w)"
  by (simp add: write_where_def where_ok_def lexemes_expr split: option.splits)

lemma lexemes_row: "list_all value_ok vs \<Longrightarrow> list_all lexeme_ok (write_row vs)"
  by (simp add: write_row_def lexemes_list [where P = value_ok] lexemes_value)

lemma lexemes_rows: "list_all (\<lambda>vs. vs \<noteq> [] \<and> list_all value_ok vs) rows \<Longrightarrow> list_all lexeme_ok (write_list write_row rows)"
  by (erule lexemes_list) (simp add: lexemes_row)

lemma lexemes_assignments:
  "list_all (\<lambda>(c, e). name_ok c \<and> expr_ok e) sets \<Longrightarrow> list_all lexeme_ok (write_list write_assignment sets)"
  by (erule lexemes_list) (auto simp: write_assignment_def lexeme_ok_name lexemes_expr)

lemma lexemes_columns: "list_all column_ok cs \<Longrightarrow> list_all lexeme_ok (write_list write_column cs)"
  by (erule lexemes_list) (simp add: write_column_def column_ok_def lexeme_ok_name name_ok_types)

lemma lexemes_stmt: "stmt_ok s \<Longrightarrow> list_all lexeme_ok (write_stmt s)"
  by (cases s) (simp_all add: lexemes_names lexemes_where lexemes_rows lexemes_assignments lexemes_columns lexeme_ok_name
    lexeme_ok.simps(3))

lemma lexemes_program: "list_all stmt_ok ss \<Longrightarrow> list_all lexeme_ok (write_program ss)"
  by (induction ss) (simp_all add: write_program_def lexemes_stmt)

section \<open>Properties\<close>

text \<open>C10: What is written is parsed back: for a program of statements in the forms the grammar has, its text is
  split into tokens and these are parsed into exactly these statements, string escapes, column lists, the assignments of
  an UPDATE and PRIMARY KEY included. Expressions are written with the parentheses that precedence and associativity ask
  for and no others, so the parser has to have exactly these. Names are identifiers and no keywords; literals are strings,
  booleans, NULL and the integers from 0 to \<open>2 ^ 63 - 1\<close> (no decimal ones); columns have no NOT NULL and no DEFAULT.\<close>

theorem parse_text_roundtrip:
  assumes "list_all stmt_ok ss"
  shows "\<exists>ts. tokenize (lexer_new (spell_all (write_program ss))) = Inr ts \<and> parse_all ts = Inr ss"
  using lexer_reads_back [OF lexemes_program [OF assms]] parse_all_program [OF assms] by blast

definition sample_program :: "Statement list" where
  "sample_program = [
     CreateTable \<lparr>ct_name = ''t'', ct_columns = [(new_column ''id'' BIGINT)\<lparr>cd_primary_key := True\<rparr>, new_column ''v'' TEXT]\<rparr>,
     Insert \<lparr>ins_table = ''t'', ins_columns = [''id'', ''v''], ins_values = [[VInt 1, VString (''it'' @ [CHR 0x27] @ ''s'')], [VInt 2, VNull]]\<rparr>,
     Update \<lparr>upd_table = ''t'', upd_sets = [(''v'', BinaryOp ''+'' (ColumnRef ''id'') (BinaryOp ''*'' (Literal (VInt 3)) (ColumnRef ''id'')))],
       upd_where = Some (BinaryOp ''AND'' (UnaryOp ''NOT'' (ColumnRef ''v'')) (BinaryOp ''<='' (ColumnRef ''id'') (Literal (VInt 9))))\<rparr>,
     Select \<lparr>sel_columns = [], sel_from = ''t'', sel_where = None\<rparr>]"

lemma parse_text_roundtrip_witness:
  "\<exists>ts. tokenize (lexer_new (spell_all (write_program sample_program))) = Inr ts \<and> parse_all ts = Inr sample_program"
proof (rule parse_text_roundtrip)
  have "name_ok ''t'' \<and> name_ok ''id'' \<and> name_ok ''v'' \<and> data_type_from_name ''BIGINT'' = BIGINT \<and> data_type_from_name ''TEXT'' = TEXT"
    by code_simp
  then show "list_all stmt_ok sample_program"
    by (simp add: sample_program_def column_ok_def new_column_def where_ok_def operators_def omap_ok_def)
qed

text \<open>C18: Parsing ends: whatever the tokens are, the parser gives statements or one of the exceptions of the
  code; it never loops, in the recursion through parentheses and prefix operators or in the lists.\<close>

theorem parser_ends: "parse_all ts \<noteq> Inl OutOfFuel"
  by (rule parse_all_ends)

text \<open>\<open>NOT NULL\<close> is never accepted: the modifier is looked for among identifiers although NOT is a keyword,
  so a table with a \<open>NOT NULL\<close> column is refused at the word NOT, whatever comes after it.\<close>

theorem not_null_refused:
  assumes "map lexeme ts = [(Kw K_CREATE, a), (Kw K_TABLE, b), ID t, LP, ID c, ID ty]" "tk_type u = Kw K_NOT"
  shows "parse_all (ts @ u # rest) = Inl (Expected T_RPAREN (tk_line u) (tk_text u))"
proof -
  obtain t1 t2 t3 t4 t5 t6 where t: "ts = [t1, t2, t3, t4, t5, t6]" "tk_type t1 = Kw K_CREATE" "tk_type t2 = Kw K_TABLE"
      "tk_type t3 = T_IDENTIFIER" "tk_type t4 = T_LPAREN" "tk_type t5 = T_IDENTIFIER" "tk_type t6 = T_IDENTIFIER"
    using assms(1) by (auto simp: map_eq_Cons_conv LP_def)
  note simps = bindP_def thenP_def peek_def is_at_end_def check_def advance_def expect_def ifMatch_def ifPeek_def ident_def retP_def
  have column: "parse_column_def (t5 # t6 # u # rest) = Inr (new_column (tk_text t5) (data_type_from_name (tk_text t6)), u # rest)"
    using t assms(2) by (simp add: simps parse_column_def_def parse_type_def)
  have "parse_create (ts @ u # rest) = Inl (Expected T_RPAREN (tk_line u) (tk_text u))"
    using t assms(2) by (simp add: simps parse_create_def parse_create_table_def column fuelP_def)
  then show ?thesis
    using t by (simp add: parse_all_def fuelP_def simps parse_statement_def)
qed

lemma not_null_refused_witness:
  "parse_all (map (\<lambda>(ty, s). \<lparr>tk_type = ty, tk_text = s, tk_line = 1, tk_col = 1\<rparr>) [(Kw K_CREATE, ''CREATE''), (Kw K_TABLE, ''TABLE''), ID ''t'', LP, ID ''c'', ID ''TEXT'',
     (Kw K_NOT, ''NOT''), (Kw K_NULL, ''NULL''), RP, (T_END, [])]) = Inl (Expected T_RPAREN 1 ''NOT'')"
  using not_null_refused [where ts = "map (\<lambda>(ty, s). \<lparr>tk_type = ty, tk_text = s, tk_line = 1, tk_col = 1\<rparr>) [(Kw K_CREATE, ''CREATE''), (Kw K_TABLE, ''TABLE''), ID ''t'', LP,
      ID ''c'', ID ''TEXT'']" and u = "\<lparr>tk_type = Kw K_NOT, tk_text = ''NOT'', tk_line = 1, tk_col = 1\<rparr>"
      and rest = "map (\<lambda>(ty, s). \<lparr>tk_type = ty, tk_text = s, tk_line = 1, tk_col = 1\<rparr>) [(Kw K_NULL, ''NULL''), RP, (T_END, [])]"]
  by (simp add: LP_def)

lemma insert_tokens:
  assumes "map lexeme ts = [(Kw K_INSERT, a), (Kw K_INTO, b), ID t, (Kw K_VALUES, c), LP] @ ls @ [RP, (T_END, [])]"
  obtains t1 t2 t3 t4 t5 us u v where "ts = t1 # t2 # t3 # t4 # t5 # us @ [u, v]" "tk_type t1 = Kw K_INSERT" "tk_type t2 = Kw K_INTO"
    "lexeme t3 = ID t" "tk_type t4 = Kw K_VALUES" "tk_type t5 = T_LPAREN" "map lexeme us = ls" "tk_type u = T_RPAREN" "tk_type v = T_END"
  using assms by (auto simp: map_eq_append_conv map_eq_Cons_conv LP_def RP_def)

text \<open>A value of an INSERT that is no literal is stored as NULL without an error: the parser takes the literal
  member of the expression it read, which a column reference or an expression in parentheses leaves null.\<close>

theorem insert_non_literal_null:
  assumes "expr_ok e" "\<forall>v. e \<noteq> Literal v"
    "map lexeme ts = [(Kw K_INSERT, a), (Kw K_INTO, b), ID t, (Kw K_VALUES, c), LP] @ ([LP] @ write_expr e @ [RP]) @ [RP, (T_END, [])]"
  shows "parse_all ts = Inr [Insert \<lparr>ins_table = t, ins_columns = [], ins_values = [[VNull]]\<rparr>]"
proof -
  obtain t1 t2 t3 t4 t5 us u v where t: "ts = t1 # t2 # t3 # t4 # t5 # us @ [u, v]" "tk_type t1 = Kw K_INSERT" "tk_type t2 = Kw K_INTO"
      "lexeme t3 = ID t" "tk_type t4 = Kw K_VALUES" "tk_type t5 = T_LPAREN" "map lexeme us = [LP] @ write_expr e @ [RP]"
      "tk_type u = T_RPAREN" "tk_type v = T_END"
    by (rule insert_tokens [OF assms(3)]) blast
  note simps = bindP_def thenP_def peek_def is_at_end_def check_def advance_def expect_def ifMatch_def ifPeek_def ident_def retP_def
    comma_list_def fuelP_def
  have "eats UNIV (parse_primary parse_expression) ([LP] @ write_expr e @ [RP]) e"
    by (rule eats_primary_parens [OF eats_expression [OF assms(1)]])
  then have "parse_primary parse_expression (us @ [u, v]) = Inr (e, [u, v])" by (rule eatsD [OF _ t(7)]) simp
  then have "value_item (us @ [u, v]) = Inr (VNull, [u, v])"
    using assms(2) by (cases e) (simp_all add: value_item_def bindP_def retP_def literal_of_def)
  then have "value_row (t5 # us @ [u, v]) = Inr ([VNull], [v])"
    using t(6,8) by (simp add: value_row_def simps)
  then have "parse_insert ts = Inr (Insert \<lparr>ins_table = t, ins_columns = [], ins_values = [[VNull]]\<rparr>, [v])"
    using t by (simp add: parse_insert_def simps)
  then show ?thesis using t by (simp add: parse_all_def simps parse_statement_def)
qed

lemma insert_non_literal_null_witness:
  "parse_all (map (\<lambda>(ty, s). \<lparr>tk_type = ty, tk_text = s, tk_line = 1, tk_col = 1\<rparr>) [(Kw K_INSERT, ''INSERT''), (Kw K_INTO, ''INTO''),
     ID ''t'', (Kw K_VALUES, ''VALUES''), LP, LP, (T_STRING_LIT, ''1''), (T_PLUS, ''+''), (T_STRING_LIT, ''2''), RP, RP, (T_END, [])])
   = Inr [Insert \<lparr>ins_table = ''t'', ins_columns = [], ins_values = [[VNull]]\<rparr>]"
  by (rule insert_non_literal_null [where e = "BinaryOp ''+'' (Literal (VString ''1'')) (Literal (VString ''2''))" and a = "''INSERT''" and b = "''INTO''"
      and c = "''VALUES''"])
    (simp_all add: operators_def LP_def RP_def write_expr_def op_level_def)

end
