(* ===== verification/Server.thy ===== *)
theory Server
  imports Executor NL_Parser Config Parser Recovery
begin

text \<open>
  \<open>JiamiaoDBServer\<close> (\<open>server/server.cpp\<close>): what a client sends, what runs, what it gets back.

  \<^item> Sockets, worker threads and the banner are left out; one client is served at a time, and what a client sent is
    the list of the chunks \<open>read\<close> returned.
  \<^item> \<open>storage_\<close> and \<open>memory_\<close> are the members of the executor, which the code shares with it.
  \<^item> Texts of exceptions, \<open>time(nullptr)\<close>, the salts of new users and the text behind the dangling pointer of the
    planner are given from outside.
\<close>

section \<open>State\<close>

record Texts =
  tx_engine :: "engine_error \<Rightarrow> string"
  tx_parser :: "parse_error \<Rightarrow> string"
  tx_lexer :: "lex_error \<Rightarrow> string"
  tx_nl :: "nl_error \<Rightarrow> string"

record Server =
  srv_executor :: PipelineExecutor
  srv_nl :: NLParser
  srv_running :: bool
  srv_memory_file :: "string option"
  srv_clock :: "nat \<Rightarrow> u64"
  srv_salts :: "nat \<Rightarrow> bytes"
  srv_freed :: "nat \<Rightarrow> string"

type_synonym 'a srv = "Server \<Rightarrow> (engine_error + 'a) \<times> Server"

definition srv_engine :: "Server \<Rightarrow> Engine" where
  "srv_engine s = px_engine (srv_executor s)"

definition set_engine :: "Engine \<Rightarrow> Server \<Rightarrow> Server" where
  "set_engine e s = s\<lparr>srv_executor := (srv_executor s)\<lparr>px_engine := e\<rparr>\<rparr>"

definition on_engine :: "'a meth \<Rightarrow> 'a srv" where
  "on_engine m s = (let (r, e) = m (srv_engine s) in (r, set_engine e s))"

definition server_new :: "DBConfig \<Rightarrow> Disk \<Rightarrow> bytes \<Rightarrow> string option \<Rightarrow> (nat \<Rightarrow> u64) \<Rightarrow> (nat \<Rightarrow> bytes) \<Rightarrow> (nat \<Rightarrow> string) \<Rightarrow> Server" where
  "server_new config disk log memory_file clock salts freed = \<lparr>
     srv_executor = executor_new (engine_new disk log (sint (st_checkpoint_interval (cf_storage config))) clock) (memory_new clock) clock,
     srv_nl = \<lparr>nl_api_key = ai_api_key (cf_ai config), nl_api_base = ai_api_base (cf_ai config), nl_model = ai_model (cf_ai config)\<rparr>,
     srv_running = False, srv_memory_file = memory_file, srv_clock = clock, srv_salts = salts, srv_freed = freed\<rparr>"

definition set_memory :: "WorkloadMemory \<Rightarrow> Server \<Rightarrow> Server" where
  "set_memory m s = s\<lparr>srv_executor := (srv_executor s)\<lparr>px_memory := m\<rparr>\<rparr>"

text \<open>\<open>start\<close> up to the socket, and \<open>stop\<close>. The file of the memory can always be written.\<close>

definition server_load :: "unit srv" where
  "server_load s = (case on_engine eng_load s of (Inl e, s) \<Rightarrow> (Inl e, s)
     | (Inr _, s) \<Rightarrow> (Inr (), (set_memory (memory_load (srv_memory_file s) (px_memory (srv_executor s))) s)\<lparr>srv_running := True\<rparr>))"

definition server_stop :: "unit srv" where
  "server_stop s = (case on_engine eng_save (s\<lparr>srv_running := False\<rparr>) of (Inl e, s) \<Rightarrow> (Inl e, s)
     | (Inr _, s) \<Rightarrow> (Inr (), s\<lparr>srv_memory_file := Some (memory_save (px_memory (srv_executor s)))\<rparr>))"

section \<open>Is it SQL\<close>

definition begins_with :: "string \<Rightarrow> string \<Rightarrow> bool" where
  "begins_with keyword s \<longleftrightarrow> length keyword \<le> length s \<and> map toupper (take (length keyword) s) = keyword"

definition is_likely_sql :: "string \<Rightarrow> bool" where
  "is_likely_sql input = (let trimmed = dropWhile (\<lambda>c. c = CHR '' '' \<or> c = CHR 0x09) input in
     list_ex (\<lambda>keyword. begins_with keyword trimmed) [''SELECT'', ''INSERT'', ''UPDATE'', ''DELETE'', ''CREATE'', ''DROP'', ''ALTER'',
       ''SHOW'', ''USE'', ''BEGIN'', ''COMMIT'', ''ROLLBACK'', ''TRUNCATE''])"

section \<open>Intents\<close>

definition classify :: "Statement \<Rightarrow> IntentCategory \<times> string list \<times> bool" where
  "classify stmt = (case stmt of
     Select s \<Rightarrow> (QUERY, [sel_from s], False)
   | Insert s \<Rightarrow> (MUTATION, [ins_table s], True)
   | Update s \<Rightarrow> (MUTATION, [upd_table s], True)
   | Delete s \<Rightarrow> (MUTATION, [del_table s], True)
   | CreateTable s \<Rightarrow> (SCHEMA, [ct_name s], True)
   | DropTable name \<Rightarrow> (SCHEMA, [name], True)
   | CreateDatabase name \<Rightarrow> (SCHEMA, [name], True)
   | DropDatabase name \<Rightarrow> (SCHEMA, [name], True)
   | CreateSchema s \<Rightarrow> (SCHEMA, [cs_name s], True)
   | CreateUser s \<Rightarrow> (SCHEMA, [usr_name s], True)
   | DropUser name \<Rightarrow> (SCHEMA, [name], True)
   | UseDatabase _ \<Rightarrow> (TASK, [], False)
   | _ \<Rightarrow> (QUERY, [], False))"

definition sql_intent :: "string \<Rightarrow> Statement \<Rightarrow> UnifiedIntent" where
  "sql_intent input stmt = (let (category, tables, is_write) = classify stmt in
     \<lparr>in_category = category, in_raw_input = input, in_tables = tables, in_description = ''SQL: '' @ input, in_statement = stmt,
      in_is_write = is_write\<rparr>)"

section \<open>Statements the server runs itself\<close>

definition tm_try :: "(TM \<Rightarrow> txn_error + TM) \<Rightarrow> unit meth" where
  "tm_try f e = (case f (e_tm e) of Inl x \<Rightarrow> (Inl (TxnErr x), e) | Inr t \<Rightarrow> (Inr (), set_tm t e))"

definition message_result :: "string \<Rightarrow> string \<Rightarrow> json" where
  "message_result ty message = j_object [(''type'', JString ty), (''message'', JString message)]"

definition ddl :: "unit meth \<Rightarrow> string \<Rightarrow> string \<Rightarrow> json meth" where
  "ddl m verb name = seqM m (ret (message_result ''ddl_result'' (verb @ name)))"

definition current_xid :: "Engine \<Rightarrow> TransactionId" where
  "current_xid e = cx_xid (ctx (e_tm e))"

definition current_database :: "Engine \<Rightarrow> string" where
  "current_database e = current_db (e_catalog e)"

definition run_begin :: "json meth" where
  "run_begin = seqM (tm_try begin_transaction_block) (ret (message_result ''txn_result'' ''BEGIN''))"

definition run_commit :: "json meth" where
  "run_commit = bindM (getM current_xid) (\<lambda>xid. steps
     [whenM (xid \<noteq> 0) (write_xact_commit xid), tm_try commit_transaction, tm_do reset_context]
     (ret (message_result ''txn_result'' ''COMMIT'')))"

definition run_rollback :: "json meth" where
  "run_rollback = bindM (getM current_xid) (\<lambda>xid. steps
     [whenM (xid \<noteq> 0) (write_xact_abort xid), apply_undo, tm_do abort_transaction, tm_do reset_context]
     (ret (message_result ''txn_result'' ''ROLLBACK'')))"

definition run_direct :: "bytes \<Rightarrow> Statement \<Rightarrow> json meth option" where
  "run_direct salt stmt = (case stmt of
     BeginTransaction \<Rightarrow> Some run_begin
   | CommitTransaction \<Rightarrow> Some run_commit
   | RollbackTransaction \<Rightarrow> Some run_rollback
   | CreateTable s \<Rightarrow> Some (ddl (create_table (ct_name s) (ct_columns s)) txt_table_created (ct_name s))
   | DropTable name \<Rightarrow> Some (ddl (drop_table name) txt_table_dropped name)
   | CreateDatabase name \<Rightarrow> Some (ddl (eng_create_database name) txt_database_created name)
   | DropDatabase name \<Rightarrow> Some (ddl (eng_drop_database name) txt_database_dropped name)
   | CreateSchema s \<Rightarrow> Some (bindM (getM current_database) (\<lambda>db. ddl (eng_create_schema db (cs_name s)) txt_schema_created (cs_name s)))
   | CreateUser s \<Rightarrow> Some (ddl (eng_create_user (usr_name s) (usr_password s) salt) txt_user_created (usr_name s))
   | DropUser name \<Rightarrow> Some (ddl (eng_drop_user name) txt_user_dropped name)
   | UseDatabase name \<Rightarrow> Some (ddl (set_current_db name) txt_database_used name)
   | ShowDatabases \<Rightarrow> Some (getM (\<lambda>e. j_object [(''type'', JString ''database_list''), (''current'', JString (current_database e)),
       (''databases'', j_strings (list_databases (e_catalog e)))]))
   | ShowUsers \<Rightarrow> Some (getM (\<lambda>e. j_object [(''type'', JString ''user_list''), (''users'', j_strings (list_users (e_catalog e)))]))
   | ShowSchemas \<Rightarrow> Some (getM (\<lambda>e. j_object [(''type'', JString ''schema_list''), (''database'', JString (current_database e)),
       (''schemas'', j_strings (list_schemas (e_catalog e) (current_database e)))]))
   | _ \<Rightarrow> None)"

section \<open>Statements the executor runs\<close>

fun cell_json :: "val \<Rightarrow> json" where
  "cell_json VNull = JNull"
| "cell_json (VInt i) = JInt i"
| "cell_json (VDouble d) = JFloat d"
| "cell_json (VBool b) = JBool b"
| "cell_json (VString s) = JString s"

definition row_json :: "row \<Rightarrow> json" where
  "row_json r = j_object (map (\<lambda>(k, v). (k, cell_json v)) (filter (\<lambda>(k, _). k \<noteq> [] \<and> hd k \<noteq> CHR ''_'') r))"

definition result_json :: "ExecutionPlan \<Rightarrow> ResultSet \<Rightarrow> json" where
  "result_json pl rs = j_object ((''type'', JString ''query_result'') #
     (if rs_message rs = [] then [] else [(''message'', JString (rs_message rs))]) @
     (if rs_columns rs = [] then [] else [(''columns'', j_strings (rs_columns rs)), (''rows'', JArray (map row_json (rs_rows rs)))]) @
     [(''affected_rows'', JInt (rs_affected_rows rs)), (''duration_ms'', JInt (rs_duration_ms rs)),
      (''plan_source'', JString (pl_source pl)), (''reasoning'', JString (pl_reasoning pl))])"

definition run_executor :: "Texts \<Rightarrow> UnifiedIntent \<Rightarrow> ExecutorResult srv" where
  "run_executor tx intent s = (let (r, x) = execute (tx_engine tx) (srv_freed s 0) intent (srv_executor s)
     in (Inr r, s\<lparr>srv_executor := x, srv_freed := (\<lambda>n. srv_freed s (Suc n))\<rparr>))"

text \<open>A transaction of its own around a statement that is in no block.\<close>

definition run_planned :: "Texts \<Rightarrow> UnifiedIntent \<Rightarrow> json list srv" where
  "run_planned tx intent s =
     (case on_engine (tm_do start_transaction_command) s of (_, s) \<Rightarrow>
      case run_executor tx intent s of (Inl e, s) \<Rightarrow> (Inl e, s) | (Inr r, s) \<Rightarrow>
      case on_engine (tm_try commit_transaction_command) s of (Inl e, s) \<Rightarrow> (Inl e, s)
        | (Inr _, s) \<Rightarrow> (Inr (map (result_json (xr_plan r)) (xr_results r)), s))"

definition run_statement :: "Texts \<Rightarrow> string \<Rightarrow> Statement \<Rightarrow> json list srv" where
  "run_statement tx input stmt s =
     (case run_direct (srv_salts s 0) stmt of
        Some m \<Rightarrow> (let (r, s) = on_engine m s in (map_sum id (\<lambda>j. [j]) r, s\<lparr>srv_salts := (\<lambda>n. srv_salts s (Suc n))\<rparr>))
      | None \<Rightarrow> run_planned tx (sql_intent input stmt) s)"

fun run_statements :: "Texts \<Rightarrow> string \<Rightarrow> Statement list \<Rightarrow> json list srv" where
  "run_statements tx input [] s = (Inr [], s)"
| "run_statements tx input (stmt # stmts) s = (case run_statement tx input stmt s of (Inl e, s) \<Rightarrow> (Inl e, s)
     | (Inr js, s) \<Rightarrow> (case run_statements tx input stmts s of (Inl e, s) \<Rightarrow> (Inl e, s) | (Inr rest, s) \<Rightarrow> (Inr (js @ rest), s)))"

section \<open>Queries\<close>

definition txt_syntax :: string where
  "txt_syntax = utf8 [0xE4, 0xB8, 0x8D, 0xE6, 0x94, 0xAF, 0xE6, 0x8C, 0x81, 0xE7, 0x9A, 0x84, 0x20, 0x53, 0x51, 0x4C, 0x20, 0xE8, 0xAF, 0xAD,
    0xE6, 0xB3, 0x95, 0x3A, 0x20]"

definition txt_suggest_try :: string where
  "txt_suggest_try = utf8 [0xE8, 0xAF, 0x95, 0xE8, 0xAF, 0x95, 0x20, 0x2E, 0x74, 0x61, 0x62, 0x6C, 0x65, 0x73, 0x20, 0x2F, 0x20, 0x2E, 0x73,
    0x63, 0x68, 0x65, 0x6D, 0x61, 0x20, 0x3C, 0xE8, 0xA1, 0xA8, 0xE5, 0x90, 0x8D, 0x3E, 0xEF, 0xBC, 0x8C, 0xE6, 0x88, 0x96, 0xE7, 0x9B, 0xB4,
    0xE6, 0x8E, 0xA5, 0xE7, 0x94, 0xA8, 0xE8, 0x87, 0xAA, 0xE7, 0x84, 0xB6, 0xE8, 0xAF, 0xAD, 0xE8, 0xA8, 0x80, 0xE6, 0x8F, 0x8F, 0xE8, 0xBF,
    0xB0]"

definition txt_exception :: string where
  "txt_exception = utf8 [0xE6, 0x89, 0xA7, 0xE8, 0xA1, 0x8C, 0xE5, 0xBC, 0x82, 0xE5, 0xB8, 0xB8, 0x3A, 0x20]"

definition txt_nl_unconfigured :: string where
  "txt_nl_unconfigured = utf8 [0x41, 0x49, 0x20, 0x41, 0x50, 0x49, 0x20, 0xE6, 0x9C, 0xAA, 0xE9, 0x85, 0x8D, 0xE7, 0xBD, 0xAE, 0xE3, 0x80,
    0x82, 0xE7, 0xBC, 0x96, 0xE8, 0xBE, 0x91, 0x20, 0x6A, 0x69, 0x61, 0x6D, 0x69, 0x61, 0x6F, 0x2E, 0x63, 0x6F, 0x6E, 0x66, 0x69, 0x67, 0x2E,
    0x6A, 0x73, 0x6F, 0x6E, 0x20, 0xE5, 0xA1, 0xAB, 0xE5, 0x85, 0xA5, 0x20, 0x61, 0x70, 0x69, 0x5F, 0x6B, 0x65, 0x79, 0x20, 0xE5, 0x90, 0xAF,
    0xE7, 0x94, 0xA8, 0xE8, 0x87, 0xAA, 0xE7, 0x84, 0xB6, 0xE8, 0xAF, 0xAD, 0xE8, 0xA8, 0x80, 0xE6, 0x9F, 0xA5, 0xE8, 0xAF, 0xA2]"

definition txt_ctx_current :: string where
  "txt_ctx_current = utf8 [0xE5, 0xBD, 0x93, 0xE5, 0x89, 0x8D, 0xE6, 0x95, 0xB0, 0xE6, 0x8D, 0xAE, 0xE5, 0xBA, 0x93, 0x3A, 0x20]"

definition txt_ctx_databases :: string where
  "txt_ctx_databases = utf8 [0xE5, 0x8F, 0xAF, 0xE7, 0x94, 0xA8, 0xE6, 0x95, 0xB0, 0xE6, 0x8D, 0xAE, 0xE5, 0xBA, 0x93, 0x3A, 0x20]"

definition txt_ctx_no_tables :: string where
  "txt_ctx_no_tables = utf8 [0xEF, 0xBC, 0x88, 0xE5, 0xBD, 0x93, 0xE5, 0x89, 0x8D, 0xE6, 0x95, 0xB0, 0xE6, 0x8D, 0xAE, 0xE5, 0xBA, 0x93, 0xE6,
    0xB2, 0xA1, 0xE6, 0x9C, 0x89, 0xE8, 0xA1, 0xA8, 0xEF, 0xBC, 0x89]"

definition txt_ctx_rows :: string where
  "txt_ctx_rows = utf8 [0x20, 0xE8, 0xA1, 0x8C, 0x29, 0x3A, 0x20]"

text \<open>The members of the response besides \<open>input\<close> and \<open>timestamp\<close>.\<close>

definition failure :: "string \<Rightarrow> (string \<times> json) list" where
  "failure message = [(''type'', JString ''error''), (''message'', JString (txt_exception @ message))]"

definition answer_sql :: "Texts \<Rightarrow> string \<Rightarrow> Server \<Rightarrow> (string \<times> json) list \<times> Server" where
  "answer_sql tx input s = (case tokenize (lexer_new input) of
     Inl e \<Rightarrow> (failure (tx_lexer tx e), s)
   | Inr tokens \<Rightarrow> (case parse_all tokens of
       Inl (NumberError e) \<Rightarrow> (failure (tx_parser tx (NumberError e)), s)
     | Inl e \<Rightarrow> ([(''type'', JString ''sql_syntax_error''), (''message'', JString (txt_syntax @ tx_parser tx e)),
         (''suggestion'', JString txt_suggest_try)], s)
     | Inr stmts \<Rightarrow> (case run_statements tx input stmts s of
         (Inl e, s) \<Rightarrow> (failure (tx_engine tx e), s)
       | (Inr js, s) \<Rightarrow> ([(''type'', JString ''sql_result''), (''results'', JArray js)], s))))"

fun comma_list :: "string list \<Rightarrow> string" where
  "comma_list [] = []"
| "comma_list [x] = x"
| "comma_list (x # xs) = x @ '', '' @ comma_list xs"

definition column_text :: "ColumnDef \<Rightarrow> string" where
  "column_text c = cd_name c @ '' '' @ data_type_name (cd_type c) @ (if cd_primary_key c then '' PK'' else []) @
     (if cd_nullable c then [] else '' NOT NULL'')"

definition table_text :: "Engine \<Rightarrow> string \<Rightarrow> string" where
  "table_text e name = (case get_schema e name of None \<Rightarrow> []
     | Some s \<Rightarrow> name @ '' ('' @ int64_to_string (ts_row_count s) @ txt_ctx_rows @ comma_list (map column_text (ts_columns s)) @ [CHR 0x0A])"

definition build_schema_context :: "Engine \<Rightarrow> string" where
  "build_schema_context e = txt_ctx_current @ current_database e @ [CHR 0x0A] @
     txt_ctx_databases @ comma_list (list_databases (e_catalog e)) @ [CHR 0x0A] @
     (if list_tables e = [] then txt_ctx_no_tables @ [CHR 0x0A] else concat (map (table_text e) (list_tables e)))"

definition answer_nl :: "Texts \<Rightarrow> (string \<Rightarrow> string) \<Rightarrow> string \<Rightarrow> Server \<Rightarrow> (string \<times> json) list \<times> Server" where
  "answer_nl tx api input s =
     (if \<not> is_configured (srv_nl s) then ([(''type'', JString ''nl_unconfigured''), (''message'', JString txt_nl_unconfigured)], s)
      else let r = nl_parse (tx_nl tx) api (srv_nl s) input (build_schema_context (srv_engine s)) in
        if nr_success r \<and> nr_is_conversation r then ([(''type'', JString ''conversation''), (''reply'', JString (nr_reply r))], s)
        else if nr_success r then (case run_planned tx (nr_intent r) s of
            (Inl e, s) \<Rightarrow> (failure (tx_engine tx e), s)
          | (Inr js, s) \<Rightarrow> ([(''type'', JString ''nl_result''), (''results'', JArray js)], s))
        else ([(''type'', JString ''nl_error''), (''message'', JString (nr_error r))], s))"

definition process_query :: "Texts \<Rightarrow> (string \<Rightarrow> string) \<Rightarrow> string \<Rightarrow> Server \<Rightarrow> string \<times> Server" where
  "process_query tx api input s =
     (let (members, s) = (if is_likely_sql input then answer_sql tx input s else answer_nl tx api input s)
      in (dump (j_object ((''input'', JString input) # members @ [(''timestamp'', JInt (srv_clock s 0))])) 0 @ [CHR 0x0A],
          s\<lparr>srv_clock := (\<lambda>n. srv_clock s (Suc n))\<rparr>))"

section \<open>Clients\<close>

text \<open>The buffer is appended as a C string, up to its first null byte; a chunk that ends the line ends the input.\<close>

fun read_input :: "string list \<Rightarrow> string" where
  "read_input [] = []"
| "read_input (chunk # chunks) = (if chunk = [] then [] else takeWhile (\<lambda>c. c \<noteq> NUL) chunk @
     (if last chunk = CHR 0x0A then [] else read_input chunks))"

definition strip_newlines :: "string \<Rightarrow> string" where
  "strip_newlines s = rev (dropWhile (\<lambda>c. c = CHR 0x0A \<or> c = CHR 0x0D) (rev s))"

definition txt_empty_input :: string where
  "txt_empty_input = utf8 [0xE7, 0xA9, 0xBA, 0xE8, 0xBE, 0x93, 0xE5, 0x85, 0xA5]"

definition txt_bye :: string where
  "txt_bye = utf8 [0xE5, 0x86, 0x8D, 0xE8, 0xA7, 0x81]"

definition line_of :: "(string \<times> json) list \<Rightarrow> string" where
  "line_of members = dump (j_object members) 0 @ [CHR 0x0A]"

definition handle_client :: "Texts \<Rightarrow> (string \<Rightarrow> string) \<Rightarrow> string list \<Rightarrow> string srv" where
  "handle_client tx api chunks s =
     (let input = strip_newlines (read_input chunks); e = srv_engine s in
      if input = [] then (Inr (''{\"error\": \"'' @ txt_empty_input @ ''\"}'' @ [CHR 0x0A]), s)
      else if input = ''.exit'' \<or> input = ''.quit'' then
        (case server_stop s of (Inl e, s) \<Rightarrow> (Inl e, s) | (Inr _, s) \<Rightarrow> (Inr (''{\"message\": \"'' @ txt_bye @ ''\"}'' @ [CHR 0x0A]), s))
      else if input = ''.tables'' then
        (Inr (line_of [(''type'', JString ''table_list''), (''database'', JString (current_database e)), (''tables'', j_strings (list_tables e))]), s)
      else if input = ''.databases'' then
        (Inr (line_of [(''type'', JString ''database_list''), (''current'', JString (current_database e)),
           (''databases'', j_strings (list_databases (e_catalog e)))]), s)
      else if input = ''.users'' then (Inr (line_of [(''type'', JString ''user_list''), (''users'', j_strings (list_users (e_catalog e)))]), s)
      else if input = ''.schemas'' then
        (Inr (line_of [(''type'', JString ''schema_list''), (''database'', JString (current_database e)),
           (''schemas'', j_strings (list_schemas (e_catalog e) (current_database e)))]), s)
      else (let (answer, s) = process_query tx api input s in (Inr answer, s)))"

end
