(* ===== verification/Rollback.thy ===== *)
theory Rollback
  imports Engine_Steps
begin

text \<open>
  What ROLLBACK and ROLLBACK TO restore. A state is seen as the map from table and row id to the
  tuple stored there; the undo records describe how to go back. A tuple is canonical when the row
  read from it is written back as the same tuple, which holds for every tuple the engine writes.
\<close>

section \<open>Canonical tuples\<close>

definition sane_row :: "row \<Rightarrow> bool" where
  "sane_row r \<longleftrightarrow> omap_ok r \<and> user_columns r \<noteq> [] \<and> length (user_columns r) < 2 ^ 16"

definition canonical :: "string \<Rightarrow> Tuple \<Rightarrow> bool" where
  "canonical q t \<longleftrightarrow> (\<exists>r. tuple_to_row_for_visibility t = Inr r \<and> sane_row r \<and> make_tuple q (h_row_id (hdr t)) r = Inr t)"

text \<open>The row as a scan shows it: its user columns and the system columns of its header.\<close>

definition shown_row :: "string \<Rightarrow> u64 \<Rightarrow> row \<Rightarrow> row" where
  "shown_row q i r = put_system_columns (header_from_row q i r) (user_columns r)"

lemma row_encode_user: "row_encode (user_columns r) = row_encode r"
  by (simp add: row_encode_def encode_cells_user count_columns_user user_columns_idem)

lemma row_encode_cong: "user_columns r = user_columns r' \<Longrightarrow> row_encode r = row_encode r'"
  by (metis row_encode_user)

lemma put_system_payload_len [simp]: "put_system_columns (h\<lparr>h_payload_len := n\<rparr>) r = put_system_columns h r"
  by (simp add: put_system_columns_def)

lemma put_system_twice:
  assumes "omap_ok r"
  shows "put_system_columns h (put_system_columns h r) = put_system_columns h r"
  by (rule omap_ext) (auto simp: assms put_system_columns_def)

lemma header_shown [simp]: "header_from_row q i (shown_row q i r) = header_from_row q i r"
  by (simp add: shown_row_def header_from_row_def ucast_down_ucast_id is_down)

lemma user_columns_shown [simp]: "omap_ok r \<Longrightarrow> user_columns (shown_row q i r) = user_columns r"
  by (simp add: shown_row_def user_columns_put_system user_columns_idem)

lemma sane_shown: "sane_row r \<Longrightarrow> sane_row (shown_row q i r)"
  by (simp add: sane_row_def) (simp add: shown_row_def)

lemma make_tuple_shows:
  assumes "make_tuple q i r = Inr t" "sane_row r"
  shows "tuple_to_row_for_visibility t = Inr (shown_row q i r)" "h_row_id (hdr t) = i"
    "make_tuple q i (shown_row q i r) = Inr t" "stored t = t"
proof -
  obtain p where p: "row_encode r = Inr p"
    and t: "t = \<lparr>hdr = (header_from_row q i r)\<lparr>h_payload_len := of_nat (length p)\<rparr>, payload = p\<rparr>"
    using assms(1) by (cases "row_encode r") (auto simp: make_tuple_def row_to_tuple_def)
  have ok: "omap_ok r" "omap_ok (user_columns r)" using assms(2) by (simp_all add: sane_row_def)
  have "row_decode p = Inr (user_columns r)" using row_roundtrip [OF p] assms(2) by (simp add: sane_row_def)
  then show "tuple_to_row_for_visibility t = Inr (shown_row q i r)"
    using ok by (simp add: t tuple_to_row_for_visibility_def tuple_to_row_def put_system_twice shown_row_def)
  show "h_row_id (hdr t) = i" by (simp add: t header_from_row_def)
  have "row_encode (shown_row q i r) = Inr p" using p ok row_encode_cong [of "shown_row q i r" r] by simp
  then show "make_tuple q i (shown_row q i r) = Inr t" by (simp add: make_tuple_def row_to_tuple_def t)
  show "stored t = t" by (simp add: t stored_def)
qed

lemma canonical_make: "make_tuple q i r = Inr t \<Longrightarrow> sane_row r \<Longrightarrow> canonical q t"
  using make_tuple_shows [of q i r t] sane_shown by (auto simp: canonical_def)

section \<open>Going back\<close>

type_synonym store = "string \<Rightarrow> u64 \<Rightarrow> Tuple option"

definition rows_of :: "(string, MemTable) omap \<Rightarrow> store" where
  "rows_of d q i = (case map_of d q of None \<Rightarrow> None | Some mt \<Rightarrow> get_latest mt i)"

definition set_row :: "string \<Rightarrow> u64 \<Rightarrow> Tuple option \<Rightarrow> store \<Rightarrow> store" where
  "set_row q i x v = v(q := (v q)(i := x))"

lemma set_row_simps [simp]:
  "set_row q i x (set_row q i y v) = set_row q i x v" "set_row q i (v q i) v = v"
  "set_row q i x v q' i' = (if q' = q \<and> i' = i then x else v q' i')"
  by (auto simp: set_row_def fun_eq_iff)

text \<open>What an undo record puts back.\<close>

definition before_image :: "UndoRecord \<Rightarrow> Tuple option" where
  "before_image rec = (if u_op rec = UndoInsert \<or> u_old_row rec = [] then None
     else case make_tuple (u_table_name rec) (u_row_id rec) (u_old_row rec) of Inl _ \<Rightarrow> None | Inr t \<Rightarrow> Some (stored t))"

definition undo_one :: "UndoRecord \<Rightarrow> store \<Rightarrow> store" where
  "undo_one rec = set_row (u_table_name rec) (u_row_id rec) (before_image rec)"

definition undo_all :: "UndoRecord list \<Rightarrow> store \<Rightarrow> store" where
  "undo_all recs = foldr undo_one recs"

lemma undo_all_simps [simp]:
  "undo_all [] v = v" "undo_all (recs @ [rec]) v = undo_all recs (undo_one rec v)"
  by (simp_all add: undo_all_def)

section \<open>A transaction under way\<close>

text \<open>
  \<open>undoes V n\<close>: undoing the records behind the first \<open>n\<close> ones gives \<open>V\<close>. \<open>undoes_row V n q i\<close>: so it
  does whatever is in row \<open>i\<close> of table \<open>q\<close>. Both are assertions on the tables and the undo records.
\<close>

definition data_canonical :: "(string, MemTable) omap \<Rightarrow> bool" where
  "data_canonical d \<longleftrightarrow> (\<forall>q i t. rows_of d q i = Some t \<longrightarrow> canonical q t)"

definition record_ok :: "(string, MemTable) omap \<Rightarrow> UndoRecord \<Rightarrow> bool" where
  "record_ok d rec \<longleftrightarrow> has_key d (u_table_name rec) \<and>
     (u_op rec = UndoInsert \<or> u_old_row rec = [] \<or> (\<exists>t. make_tuple (u_table_name rec) (u_row_id rec) (u_old_row rec) = Inr t \<and> canonical (u_table_name rec) t))"

definition undoes_row :: "store \<Rightarrow> nat \<Rightarrow> string \<Rightarrow> u64 \<Rightarrow> (string, MemTable) omap \<Rightarrow> UndoRecord list \<Rightarrow> bool" where
  "undoes_row V n q i d u \<longleftrightarrow> data_canonical d \<and> n \<le> length u \<and> (\<forall>rec \<in> set (drop n u). record_ok d rec) \<and>
     (\<forall>x. undo_all (drop n u) (set_row q i x (rows_of d)) = V)"

definition undoes :: "store \<Rightarrow> nat \<Rightarrow> (string, MemTable) omap \<Rightarrow> UndoRecord list \<Rightarrow> bool" where
  "undoes V n d u \<longleftrightarrow> data_canonical d \<and> n \<le> length u \<and> (\<forall>rec \<in> set (drop n u). record_ok d rec) \<and>
     undo_all (drop n u) (rows_of d) = V"

lemma undoes_row_undoes: "undoes_row V n q i d u \<Longrightarrow> undoes V n d u"
  unfolding undoes_row_def undoes_def by (metis set_row_simps(2))

lemma undoes_add:
  assumes "undoes V n d u" "u_table_name rec = q" "u_row_id rec = i" "record_ok d rec" "before_image rec = rows_of d q i"
  shows "undoes_row V n q i d (u @ [rec])"
proof -
  have "undo_one rec (set_row q i x (rows_of d)) = rows_of d" for x
    using assms(2,3,5) by (simp add: undo_one_def)
  then show ?thesis using assms by (auto simp: undoes_row_def undoes_def)
qed

lemma rows_of_put:
  assumes "omap_ok d" "has_key d q" "get_latest mt = (get_latest (omap_at mt0 d q))(i := x)"
  shows "rows_of (omap_put q mt d) = set_row q i x (rows_of d)"
  using assms by (auto simp: fun_eq_iff rows_of_def has_key_def omap_at_def)

lemma undoes_row_set:
  assumes "undoes_row V n q i d u" "omap_ok d" "has_key d q"
    and "get_latest mt = (get_latest (omap_at mt0 d q))(i := x)" "\<And>t. x = Some t \<Longrightarrow> canonical q t"
  shows "undoes_row V n q i (omap_put q mt d) u"
  using assms(1,5)
  by (auto simp: undoes_row_def rows_of_put [OF assms(2-4)] data_canonical_def record_ok_def
      split: if_splits)

section \<open>Statements that touch no row\<close>

definition rows_inv :: "((string, MemTable) omap \<Rightarrow> UndoRecord list \<Rightarrow> bool) \<Rightarrow> Engine \<Rightarrow> bool" where
  "rows_inv P e \<longleftrightarrow> P (e_data e) (undo_records e)"

lemma rows_inv_frame [simp]:
  "rows_inv P (e\<lparr>e_wal := w\<rparr>) = rows_inv P e" "rows_inv P (e\<lparr>e_wal_seq := s\<rparr>) = rows_inv P e"
  "rows_inv P (e\<lparr>e_disk := d\<rparr>) = rows_inv P e" "rows_inv P (e\<lparr>e_clock := c\<rparr>) = rows_inv P e"
  "rows_inv P (set_indexes q ixs e) = rows_inv P e" "rows_inv P (refresh_row_count q e) = rows_inv P e"
  "rows_inv P (set_row_id q i e) = rows_inv P e"
  by (simp_all add: rows_inv_def undo_records_def set_indexes_def set_row_id_def refresh_row_count_def split: option.split)

lemma log_frame_rows_inv [simp]: "log_frame (rows_inv P)"
  by (simp add: log_frame_def)

lemma rows_inv_set_tm: "rows_inv P e \<Longrightarrow> cx_undo_records (ctx t) = undo_records e \<Longrightarrow> rows_inv P (set_tm t e)"
  by (simp add: rows_inv_def undo_records_def set_tm_def)

lemma keeps_rows [keeps_intros]:
  "keeps (rows_inv P) (tm_do (register_siread k))" "keeps (rows_inv P) (tm_do (register_write k))"
  "keeps (rows_inv P) (modM (refresh_row_count q))"
  "keeps (rows_inv P) (update_indexes q i r)" "keeps (rows_inv P) (modM (set_row_id q i))"
  unfolding tm_do_def update_indexes_def
  by (rule keeps_modM, simp add: rows_inv_set_tm undo_records_def split: option.split)+

lemma keeps_rows_xid [keeps_intros]: "keeps (rows_inv P) assign_xid_m"
proof (rule keepsI)
  fix e
  assume e: "rows_inv P e"
  obtain res t where t: "assign_xid (e_tm e) = (res, t)" by fastforce
  with e undo_of_assign_xid [OF t] show "rows_inv P (snd (assign_xid_m e))"
    by (cases res) (simp_all add: assign_xid_m_def rows_inv_set_tm undo_records_def)
qed

lemma keeps_rows_rebuild [keeps_intros]: "keeps (rows_inv P) (rebuild_indexes t)"
  unfolding rebuild_indexes_def
  by (rule keeps_get) (auto simp: seqM_def bindM_def modM_def ret_def throw_def case_prod_beta split: option.split)

lemma keeps_rows_loops [keeps_intros]:
  "keeps (rows_inv P) (register_siread_row q r)" "keeps (rows_inv P) (insert_pk_check q xid snap cid v cols tups)"
  "keeps (rows_inv P) (update_pk_check q i xid snap cid u tups)" "keeps (rows_inv P) (visible_rows q snap xid cid tups)"
proof -
  show s: "keeps (rows_inv P) (register_siread_row q r)" for q r
    unfolding register_siread_row_def by (auto intro: keeps_intros split: option.split)
  show "keeps (rows_inv P) (insert_pk_check q xid snap cid v cols tups)"
    unfolding insert_pk_check_def by (auto intro!: keeps_intros s split: bool.split option.split)
  show "keeps (rows_inv P) (update_pk_check q i xid snap cid u tups)"
    unfolding update_pk_check_def by (auto intro!: keeps_intros split: bool.split option.split)
  show "keeps (rows_inv P) (visible_rows q snap xid cid tups)"
    unfolding visible_rows_def by (auto intro!: keeps_intros s)
qed

section \<open>Statements on one row\<close>

lemma omap_put_twice: "omap_ok m \<Longrightarrow> omap_put k v (omap_put k w m) = omap_put k v m"
  by (rule omap_ext) auto

definition tinv :: "string \<Rightarrow> u64 set \<Rightarrow> ((string, MemTable) omap \<Rightarrow> UndoRecord list \<Rightarrow> bool) \<Rightarrow> Engine \<Rightarrow> bool" where
  "tinv q R P e \<longleftrightarrow> table_inv q R (\<lambda>_. True) e \<and> rows_inv P e"

lemma keeps_tinv: "keeps (table_inv q R (\<lambda>_. True)) m \<Longrightarrow> keeps (rows_inv P) m \<Longrightarrow> keeps (tinv q R P) m"
  unfolding tinv_def by (rule keeps_conj)

lemma tinv_table: "tinv q R P e \<Longrightarrow> omap_ok (e_data e) \<and> has_key (e_data e) q \<and> mt_wf q (table_data q e)"
  using inv_table [of e q] by (simp add: tinv_def table_inv_def engine_inv_def)

lemma put_row_effect:
  assumes "mt_wf q (table_data q e)" "get_latest (table_data q e) i = None"
  shows "undo_records (snd (put_row q i r e)) = undo_records e" "e_catalog (snd (put_row q i r e)) = e_catalog e"
    "case make_tuple q i r of Inl _ \<Rightarrow> e_data (snd (put_row q i r e)) = e_data e
     | Inr t \<Rightarrow> \<exists>mt. e_data (snd (put_row q i r e)) = omap_put q mt (e_data e) \<and>
         get_latest mt = (get_latest (table_data q e))(i \<mapsto> stored t)"
proof -
  show "undo_records (snd (put_row q i r e)) = undo_records e" "e_catalog (snd (put_row q i r e)) = e_catalog e"
    by (cases "make_tuple q i r"; simp add: put_row_def throw_def modM_def Let_def undo_records_def set_data_def)+
  show "case make_tuple q i r of Inl _ \<Rightarrow> e_data (snd (put_row q i r e)) = e_data e
     | Inr t \<Rightarrow> \<exists>mt. e_data (snd (put_row q i r e)) = omap_put q mt (e_data e) \<and>
         get_latest mt = (get_latest (table_data q e))(i \<mapsto> stored t)"
    using get_latest_put_fresh [OF assms]
    by (cases "make_tuple q i r")
      (auto simp: put_row_def throw_def modM_def Let_def set_data_def table_data_def intro!: exI [of _ "mt_put i t s mt" for t s mt])
qed

lemma replace_row_effect:
  assumes "mt_wf q (table_data q e)" "omap_ok (e_data e)"
  shows "undo_records (snd (replace_row q i r e)) = undo_records e"
    "\<exists>mt x. e_data (snd (replace_row q i r e)) = omap_put q mt (e_data e) \<and> get_latest mt = (get_latest (table_data q e))(i := x) \<and>
       (case make_tuple q i r of Inl _ \<Rightarrow> x = None | Inr t \<Rightarrow> x = Some (stored t))"
proof -
  let ?e = "set_data q (snd (erase_all_for i (table_data q e))) e"
  have run: "snd (replace_row q i r e) = snd (put_row q i r ?e)"
    by (simp add: replace_row_def seqM_def bindM_def erase_rows_def modM_def)
  have td: "table_data q ?e = snd (erase_all_for i (table_data q e))" by (simp add: assms(2))
  have none: "get_latest (table_data q ?e) i = None" "mt_wf q (table_data q ?e)"
    using assms(1) by (simp_all add: td get_latest_erase mt_wf_erase)
  note eff = put_row_effect [OF none(2,1), of r]
  show "undo_records (snd (replace_row q i r e)) = undo_records e"
    using eff(1) by (simp add: run undo_records_def set_data_def)
  show "\<exists>mt x. e_data (snd (replace_row q i r e)) = omap_put q mt (e_data e) \<and> get_latest mt = (get_latest (table_data q e))(i := x) \<and>
       (case make_tuple q i r of Inl _ \<Rightarrow> x = None | Inr t \<Rightarrow> x = Some (stored t))"
  proof (cases "make_tuple q i r")
    case (Inl x)
    then have "e_data (snd (replace_row q i r e)) = omap_put q (snd (erase_all_for i (table_data q e))) (e_data e)"
      using eff(3) by (simp add: run) (simp add: set_data_def)
    with Inl show ?thesis
      by (intro exI [of _ "snd (erase_all_for i (table_data q e))"] exI [of _ None]) (simp add: get_latest_erase)
  next
    case (Inr t)
    then obtain mt where "e_data (snd (replace_row q i r e)) = omap_put q mt (e_data ?e)"
      and "get_latest mt = (get_latest (table_data q ?e))(i \<mapsto> stored t)"
      using eff(3) by (auto simp: run)
    then have "e_data (snd (replace_row q i r e)) = omap_put q mt (e_data e)"
      and "get_latest mt = (get_latest (table_data q e))(i \<mapsto> stored t)"
      unfolding td by (simp_all add: get_latest_erase) (simp add: set_data_def omap_put_twice [OF assms(2)])
    with Inr show ?thesis by (intro exI [of _ mt] exI [of _ "Some (stored t)"]) simp
  qed
qed

text \<open>The rows a loop has not come to yet are still as it saw them.\<close>

definition rest :: "string \<Rightarrow> Tuple list \<Rightarrow> (string, MemTable) omap \<Rightarrow> bool" where
  "rest q ts d \<longleftrightarrow> (\<forall>t \<in> set ts. rows_of d q (h_row_id (hdr t)) = Some t)"

definition looping :: "store \<Rightarrow> nat \<Rightarrow> string \<Rightarrow> Tuple list \<Rightarrow> (string, MemTable) omap \<Rightarrow> UndoRecord list \<Rightarrow> bool" where
  "looping V n q ts d u \<longleftrightarrow> undoes V n d u \<and> rest q ts d"

definition on_row :: "store \<Rightarrow> nat \<Rightarrow> string \<Rightarrow> u64 \<Rightarrow> Tuple list \<Rightarrow> (string, MemTable) omap \<Rightarrow> UndoRecord list \<Rightarrow> bool" where
  "on_row V n q i ts d u \<longleftrightarrow> undoes_row V n q i d u \<and> rest q ts d \<and> i \<notin> row_ids ts"

lemma on_row_looping: "on_row V n q i ts d u \<Longrightarrow> looping V n q ts d u"
  by (auto simp: on_row_def looping_def undoes_row_undoes)

lemma keeps_replace_row:
  assumes "i \<in> R" "sane_row r"
  shows "keeps (tinv q R (on_row V n q i ts)) (replace_row q i r)"
proof (rule keepsI)
  fix e
  assume e: "tinv q R (on_row V n q i ts) e"
  let ?e = "snd (replace_row q i r e)"
  note wf = tinv_table [OF e]
  obtain mt x where d: "e_data ?e = omap_put q mt (e_data e)" and l: "get_latest mt = (get_latest (table_data q e))(i := x)"
    and x: "case make_tuple q i r of Inl _ \<Rightarrow> x = None | Inr t \<Rightarrow> x = Some (stored t)" and u: "undo_records ?e = undo_records e"
    using replace_row_effect [of q e i r] wf by blast
  have can: "canonical q t" if "x = Some t" for t
    using x that canonical_make [OF _ assms(2), of q i] make_tuple_shows(4) [OF _ assms(2), of q i] by (auto split: sum.splits)
  have row: "undoes_row V n q i (e_data e) (undo_records e)" "rest q ts (e_data e)" "i \<notin> row_ids ts"
    using e by (simp_all add: tinv_def rows_inv_def on_row_def)
  have "undoes_row V n q i (omap_put q mt (e_data e)) (undo_records e)"
    using undoes_row_set [OF row(1)] wf l can unfolding table_data_def by blast
  moreover have "rest q ts (omap_put q mt (e_data e))"
    using row(2,3) wf rows_of_put [of "e_data e" q mt "mt_new q" i x] l unfolding table_data_def
    by (auto simp: rest_def row_ids_def)
  moreover have "table_inv q R (\<lambda>_. True) ?e"
    using e by (intro keepsD [OF keeps_replace [OF assms(1)]]) (simp add: tinv_def)
  ultimately show "tinv q R (on_row V n q i ts) ?e"
    using row(3) by (simp add: tinv_def rows_inv_def on_row_def d u)
qed

lemma hoare_add_undo:
  assumes "i \<in> R" "u_table_name rec = q" "u_row_id rec = i"
    and "\<And>d u. P d u \<Longrightarrow> has_key d q \<Longrightarrow> on_row V n q i ts d (u @ [rec])"
  shows "hoare (tinv q R P) (tm_do (add_undo_record rec)) (\<lambda>_. tinv q R (on_row V n q i ts)) E"
  unfolding tm_do_def
proof (rule hoare_mod)
  fix e
  assume e: "tinv q R P e"
  let ?e = "set_tm (add_undo_record rec (e_tm e)) e"
  have "table_inv q R (\<lambda>_. True) ?e"
    using e keepsD [OF keeps_add_undo, of rec R q "\<lambda>_. True" e] assms(1-3) by (simp add: tinv_def tm_do_def modM_def)
  moreover have "e_data ?e = e_data e" "undo_records ?e = undo_records e @ [rec]" by (simp_all add: set_tm_def undo_records_def)
  ultimately show "tinv q R (on_row V n q i ts) ?e"
    using assms(4) tinv_table [OF e] e by (simp add: tinv_def rows_inv_def)
qed

section \<open>The statements of a transaction\<close>

lemma seqM_assoc: "seqM (seqM a b) c = seqM a (seqM b c)"
  by (auto simp: seqM_def bindM_def fun_eq_iff split: prod.split sum.split)

lemma user_columns_put_hidden:
  "omap_ok r \<Longrightarrow> is_system_column k \<Longrightarrow> user_columns (omap_put k v r) = user_columns r"
  by (rule omap_ext) (auto simp: map_of_user_columns fun_eq_iff)

lemma sane_put_system [simp]: "is_system_column k \<Longrightarrow> sane_row r \<Longrightarrow> sane_row (omap_put k v r)"
  by (simp add: sane_row_def user_columns_put_hidden)

lemma record_of_row:
  assumes "tuple_to_row_for_visibility t = Inr r" "canonical q t"
  shows "r \<noteq> []" "sane_row r" "make_tuple q (h_row_id (hdr t)) r = Inr t" "stored t = t"
  using assms make_tuple_shows(4) by (auto simp: canonical_def sane_row_def user_columns_def)

lemma looping_canonical: "looping V n q (t # ts) d u \<Longrightarrow> canonical q t"
  by (auto simp: looping_def undoes_def data_canonical_def rest_def)

text \<open>Work on the first row of those left: an undo record that holds the row, then a new version of it.\<close>

lemma on_row_record:
  assumes "looping V n q (t # ts) d u" "has_key d q" "h_row_id (hdr t) \<notin> row_ids ts" "tuple_to_row_for_visibility t = Inr r"
    and "rec = \<lparr>u_op = opn, u_table_name = q, u_row_id = h_row_id (hdr t), u_old_row = r, u_new_row = nr\<rparr>" "opn \<noteq> UndoInsert"
  shows "on_row V n q (h_row_id (hdr t)) ts d (u @ [rec])"
proof -
  note row = record_of_row [OF assms(4) looping_canonical [OF assms(1)]]
  have "undoes_row V n q (h_row_id (hdr t)) d (u @ [rec])"
    using assms row looping_canonical [OF assms(1)]
    by (intro undoes_add) (auto simp: looping_def record_ok_def before_image_def rest_def)
  then show ?thesis using assms(1,3) by (simp add: on_row_def looping_def rest_def)
qed

lemma hoare_lift_then:
  "(\<And>v. x = Inr v \<Longrightarrow> hoare P (f v) Q E) \<Longrightarrow> (\<And>e. P e \<Longrightarrow> E e) \<Longrightarrow> hoare P (bindM (liftM err x) f) Q E"
  by (cases x) (auto intro: hoare_throw)

lemma tinv_mono: "tinv q R P e \<Longrightarrow> (\<And>d u. P d u \<Longrightarrow> P' d u) \<Longrightarrow> tinv q R P' e"
  by (auto simp: tinv_def rows_inv_def)

lemma hoare_kept: "keeps (tinv q R P) m \<Longrightarrow> (\<And>d u. P d u \<Longrightarrow> P' d u) \<Longrightarrow> hoare (tinv q R P) m (\<lambda>_. tinv q R P) (tinv q R P')"
  by (erule hoare_keeps) (auto elim: tinv_mono)

text \<open>Statements before and after the undo record is added.\<close>

lemma hoare_before:
  "keeps (table_inv q R (\<lambda>_. True)) m \<Longrightarrow> keeps (rows_inv (looping V n q ts)) m \<Longrightarrow>
   hoare (tinv q R (looping V n q ts)) m (\<lambda>_. tinv q R (looping V n q ts)) (tinv q R (undoes V n))"
  by (rule hoare_kept [OF keeps_tinv]) (simp_all add: looping_def)

lemma hoare_after:
  "keeps (tinv q R (on_row V n q i ts)) m \<Longrightarrow>
   hoare (tinv q R (on_row V n q i ts)) m (\<lambda>_. tinv q R (on_row V n q i ts)) (tinv q R (undoes V n))"
  by (erule hoare_kept) (auto simp: on_row_def dest: undoes_row_undoes)

lemma hoare_done:
  "hoare P m (\<lambda>_. tinv q R (on_row V n q i ts)) E \<Longrightarrow> hoare P m (\<lambda>_. tinv q R (looping V n q ts)) E"
  by (erule hoare_weaken) (auto elim: tinv_mono simp: on_row_looping)

lemma keeps_after_wal: "keeps (tinv q R P) (write_wal opn table pl xid)"
  by (rule keeps_tinv) (intro keeps_intros; simp)+

lemma hoare_update_one:
  assumes t: "h_row_id (hdr t) \<in> R" "h_row_id (hdr t) \<notin> row_ids ts" "tuple_to_row_for_visibility t = Inr r"
    and sane: "sane_row (apply_updates updates r)"
  shows "hoare (tinv q R (looping V n q (t # ts))) (update_one q xid snap cid updates tups r)
    (\<lambda>_. tinv q R (looping V n q ts)) (tinv q R (undoes V n))"
proof -
  let ?new = "omap_put ''_cid'' (VInt (scast cid)) (omap_put ''_xmax'' (VInt 0)
           (omap_put ''_xmin'' (VInt (ucast xid)) (apply_updates updates r)))"
  have new: "sane_row ?new" using sane by (simp add: is_system_column_def)
  show ?thesis
    using row_id_of_row [OF t(3)] unfolding update_one_def
    by (simp add: Let_def)
      (rule hoare_done hoare_seq [OF hoare_before [OF keeps_register(2) keeps_rows(2)]]
        hoare_seq [OF hoare_before [OF keeps_update_pk_check keeps_rows_loops(3)]] hoare_seq [OF hoare_add_undo [OF t(1) _ _ on_row_record [OF _ _ t(2,3)]]]
        hoare_seq [OF hoare_after [OF keeps_after_wal]] hoare_after [OF keeps_replace_row [OF t(1) new]] | simp)+
qed

lemma hoare_remove_one:
  assumes t: "h_row_id (hdr t) \<in> R" "h_row_id (hdr t) \<notin> row_ids ts" "tuple_to_row_for_visibility t = Inr r"
    and sane: "sane_row r"
  shows "hoare (tinv q R (looping V n q (t # ts))) (remove_one q xid cid r)
    (\<lambda>_. tinv q R (looping V n q ts)) (tinv q R (undoes V n))"
proof -
  let ?new = "omap_put ''_cid'' (VInt (scast cid)) (omap_put ''_xmax'' (VInt (ucast xid)) r)"
  have new: "sane_row ?new" using sane by (simp add: is_system_column_def)
  show ?thesis
    using row_id_of_row [OF t(3)] unfolding remove_one_def
    by (simp add: Let_def)
      (rule hoare_done hoare_seq [OF hoare_before [OF keeps_register(2) keeps_rows(2)]]
        hoare_seq [OF hoare_add_undo [OF t(1) _ _ on_row_record [OF _ _ t(2,3)]]]
        hoare_seq [OF hoare_after [OF keeps_replace_row [OF t(1) new]]] hoare_after [OF keeps_after_wal] | simp)+
qed

text \<open>A loop over the rows of a scan.\<close>

lemma hoare_foldM:
  assumes "\<And>pre x xs' a. xs = pre @ x # xs' \<Longrightarrow> hoare (I (x # xs')) (f x a) (\<lambda>_. I xs') E"
  shows "hoare (I xs) (foldM f xs a) (\<lambda>_. I []) E"
  using assms
proof (induction xs arbitrary: a)
  case (Cons x xs)
  have "hoare (I xs) (foldM f xs b) (\<lambda>_. I []) E" for b
    by (rule Cons.IH) (rule Cons.prems [of "x # _"], simp)
  with Cons.prems [of "[]" x xs a] show ?case by (auto intro!: hoare_bind)
qed (simp add: hoare_ret)

lemma looping_Cons: "looping V n q (t # ts) d u \<Longrightarrow> looping V n q ts d u"
  by (simp add: looping_def rest_def)

lemma hoare_for_matching:
  assumes ids: "distinct (map (\<lambda>t. h_row_id (hdr t)) tups)" "row_ids tups \<subseteq> R"
    and act: "\<And>t ts r. t \<in> set tups \<Longrightarrow> h_row_id (hdr t) \<in> R \<Longrightarrow> h_row_id (hdr t) \<notin> row_ids ts \<Longrightarrow>
      tuple_to_row_for_visibility t = Inr r \<Longrightarrow>
      hoare (tinv q R (looping V n q (t # ts))) (act r) (\<lambda>_. tinv q R (looping V n q ts)) (tinv q R (undoes V n))"
  shows "hoare (tinv q R (looping V n q tups)) (for_matching xid snap cid matches act tups)
    (\<lambda>_. tinv q R (looping V n q [])) (tinv q R (undoes V n))"
  unfolding for_matching_def
proof (rule hoare_foldM)
  fix pre t ts and count :: nat
  assume split: "tups = pre @ t # ts"
  then have t: "t \<in> set tups" "h_row_id (hdr t) \<in> R" "h_row_id (hdr t) \<notin> row_ids ts"
    using ids by (auto simp: row_ids_def)
  have weak: "tinv q R (looping V n q ts') e \<Longrightarrow> tinv q R (undoes V n) e" for ts' e
    by (erule tinv_mono) (simp add: looping_def)
  have drop: "hoare (tinv q R (looping V n q (t # ts))) (ret c) (\<lambda>_. tinv q R (looping V n q ts)) (tinv q R (undoes V n))" for c :: nat
    by (rule hoare_ret) (auto elim: tinv_mono looping_Cons)
  have vis: "hoare (tinv q R (looping V n q (t # ts))) (visible r xid snap cid) (\<lambda>_. tinv q R (looping V n q (t # ts))) (tinv q R (undoes V n))" for r
    by (rule hoare_before) (intro keeps_intros)+
  have finished: "hoare (tinv q R (looping V n q ts)) (ret c) (\<lambda>_. tinv q R (looping V n q ts)) (tinv q R (undoes V n))" for c :: nat
    by (rule hoare_ret)
  show "hoare (tinv q R (looping V n q (t # ts)))
     (bindM (to_row t) (\<lambda>r. bindM (visible r xid snap cid) (\<lambda>vis.
       if \<not> vis then ret count else if matches r then seqM (act r) (ret (count + 1)) else ret count)))
     (\<lambda>_. tinv q R (looping V n q ts)) (tinv q R (undoes V n))"
    unfolding to_row_def using act [OF t]
    by (intro hoare_lift_then hoare_bind [OF vis]) (auto intro: drop hoare_seq finished weak)
qed

lemma hoare_looping_canonical:
  assumes "canonical q t \<Longrightarrow> hoare (tinv q R (looping V n q (t # ts))) m Q E"
  shows "hoare (tinv q R (looping V n q (t # ts))) m Q E"
proof (cases "canonical q t")
  case False
  then have "\<not> tinv q R (looping V n q (t # ts)) e" for e
    using looping_canonical by (auto simp: tinv_def rows_inv_def)
  then show ?thesis by (simp add: hoare_def)
qed (rule assms)

lemma hoare_assume: "(\<And>e. P e \<Longrightarrow> hoare (\<lambda>x. x = e) m Q E) \<Longrightarrow> hoare P m Q E"
  by (simp add: hoare_def)

text \<open>A statement that finds an existing table and goes through its rows.\<close>

lemma hoare_statement:
  assumes act: "\<And>mt e xid tm t ts r. map_of (e_data e) (resolve_table_name e table) = Some mt \<Longrightarrow> G e \<Longrightarrow> t \<in> set (scan_all mt) \<Longrightarrow>
      h_row_id (hdr t) \<notin> row_ids ts \<Longrightarrow> tuple_to_row_for_visibility t = Inr r \<Longrightarrow>
      hoare (tinv (resolve_table_name e table) (row_ids (scan_all mt)) (looping V n (resolve_table_name e table) (t # ts)))
        (act (resolve_table_name e table) mt xid tm r)
        (\<lambda>_. tinv (resolve_table_name e table) (row_ids (scan_all mt)) (looping V n (resolve_table_name e table) ts))
        (tinv (resolve_table_name e table) (row_ids (scan_all mt)) (undoes V n))"
    and fin: "\<And>q R e. keeps (table_inv q R (\<lambda>_. True)) (fin q e)" "\<And>q P e. keeps (rows_inv P) (fin q e)"
  shows "hoare (\<lambda>e. engine_inv e \<and> rows_inv (undoes V n) e \<and> G e)
    (bindM (getM id) (\<lambda>e. let q = resolve_table_name e table in
     case map_of (e_data e) q of None \<Rightarrow> throw (NoTable table)
     | Some mt \<Rightarrow> bindM assign_xid_m (\<lambda>xid. bindM (getM e_tm) (\<lambda>tm.
         bindM (for_matching xid (get_snapshot tm) (cx_command_id (ctx tm)) matches (act q mt xid tm) (scan_all mt)) (\<lambda>count.
         seqM (fin q e) (ret count))))))
    (\<lambda>_ e. engine_inv e \<and> rows_inv (undoes V n) e) (\<lambda>e. engine_inv e \<and> rows_inv (undoes V n) e)"
proof (rule hoare_get, goal_cases)
  case (1 e0)
  let ?q = "resolve_table_name e0 table"
  let ?P = "\<lambda>e. (engine_inv e \<and> rows_inv (undoes V n) e \<and> G e) \<and> e = e0"
  show ?case
  proof (cases "map_of (e_data e0) ?q")
    case (Some mt)
    let ?R = "row_ids (scan_all mt)"
    have weak: "tinv ?q ?R (undoes V n) e \<Longrightarrow> engine_inv e \<and> rows_inv (undoes V n) e" for e
      by (auto simp: tinv_def table_inv_def)
    have start: "tinv ?q ?R (looping V n ?q (scan_all mt)) e" "mt_wf ?q mt" "G e0" if "?P e" for e
    proof -
      show wf: "mt_wf ?q mt" using that Some by (simp add: engine_inv_def)
      show "tinv ?q ?R (looping V n ?q (scan_all mt)) e"
        using that Some on_existing_table [of e ?q mt] get_latest_iff [OF wf]
        by (auto simp: tinv_def rows_inv_def looping_def rest_def rows_of_def)
      show "G e0" using that by auto
    qed
    have "hoare (tinv ?q ?R (looping V n ?q (scan_all mt)))
      (bindM assign_xid_m (\<lambda>xid. bindM (getM e_tm) (\<lambda>tm.
         bindM (for_matching xid (get_snapshot tm) (cx_command_id (ctx tm)) matches (act ?q mt xid tm) (scan_all mt)) (\<lambda>count.
         seqM (fin ?q e0) (ret count)))))
      (\<lambda>_. tinv ?q ?R (looping V n ?q [])) (tinv ?q ?R (undoes V n))" if "mt_wf ?q mt" "G e0"
    proof (rule hoare_bind [OF hoare_before], goal_cases)
      case (3 xid)
      show ?case
      proof (rule hoare_bind [OF hoare_before], goal_cases)
        case (3 tm)
        show ?case
          by (rule hoare_bind [OF hoare_for_matching [OF rs.scan_distinct [OF that(1)] subset_refl act [OF Some that(2)]]])
            (auto intro!: hoare_seq [OF hoare_before [OF fin]] hoare_ret)
      qed (intro keeps_intros)+
    qed (intro keeps_intros)+
    note body = this
    show ?thesis
    proof (rule hoare_assume, goal_cases)
      case (1 e)
      note start [OF 1]
      then show ?case
        using Some by (simp add: Let_def)
          (rule hoare_weaken [OF body], auto dest: weak intro!: weak elim: tinv_mono simp: looping_def)
    qed
  qed (auto intro: hoare_throw)
qed

definition narrow :: "string \<Rightarrow> row \<Rightarrow> Engine \<Rightarrow> bool" where
  "narrow table updates e \<longleftrightarrow> (\<forall>mt t r. map_of (e_data e) (resolve_table_name e table) = Some mt \<longrightarrow> t \<in> set (scan_all mt) \<longrightarrow>
     tuple_to_row_for_visibility t = Inr r \<longrightarrow> length (user_columns (apply_updates updates r)) < 2 ^ 16)"

lemma user_columns_Nil_iff: "user_columns r = [] \<longleftrightarrow> (\<forall>k. is_system_column k \<or> map_of r k = None)"
proof -
  have "user_columns r = [] \<longleftrightarrow> (\<forall>k \<in> fst ` set r. is_system_column k)"
    by (simp add: user_columns_def filter_empty_conv case_prod_beta)
  also have "\<dots> \<longleftrightarrow> (\<forall>k. is_system_column k \<or> map_of r k = None)" unfolding map_of_eq_None_iff by blast
  finally show ?thesis .
qed

lemma user_columns_put_some: "user_columns r \<noteq> [] \<Longrightarrow> user_columns (omap_put k v r) \<noteq> []"
  unfolding user_columns_Nil_iff by simp metis

lemma apply_updates_ok:
  "omap_ok r \<Longrightarrow> user_columns r \<noteq> [] \<Longrightarrow> omap_ok (apply_updates updates r) \<and> user_columns (apply_updates updates r) \<noteq> []"
  unfolding apply_updates_def
proof (induction updates arbitrary: r)
  case (Cons p updates)
  then show ?case by (cases p) (simp add: user_columns_put_some)
qed simp

lemma update_with_txn_undoes:
  "hoare (\<lambda>e. engine_inv e \<and> rows_inv (undoes V n) e \<and> narrow table updates e) (update_with_txn table matches updates)
    (\<lambda>_ e. engine_inv e \<and> rows_inv (undoes V n) e) (\<lambda>e. engine_inv e \<and> rows_inv (undoes V n) e)"
proof -
  have eq: "update_with_txn table matches updates = bindM (getM id) (\<lambda>e. let q = resolve_table_name e table in
     case map_of (e_data e) q of None \<Rightarrow> throw (NoTable table)
     | Some mt \<Rightarrow> bindM assign_xid_m (\<lambda>xid. bindM (getM e_tm) (\<lambda>tm.
         bindM (for_matching xid (get_snapshot tm) (cx_command_id (ctx tm)) matches
           (update_one q xid (get_snapshot tm) (cx_command_id (ctx tm)) updates (scan_all mt)) (scan_all mt)) (\<lambda>count.
         seqM (seqM (whenM (updates_affect_index e q updates) (rebuild_indexes q)) maybe_checkpoint) (ret count)))))"
    unfolding update_with_txn_def Let_def seqM_assoc steps.simps by (rule refl)
  show ?thesis
    unfolding eq
  proof (rule hoare_statement, goal_cases)
    case (1 mt e xid tm t ts r)
    show ?case
    proof (rule hoare_looping_canonical)
      assume "canonical (resolve_table_name e table) t"
      from record_of_row [OF 1(5) this] 1 apply_updates_ok [of r updates] have "sane_row (apply_updates updates r)"
        by (auto simp: sane_row_def narrow_def)
      with 1 show "hoare (tinv (resolve_table_name e table) (row_ids (scan_all mt)) (looping V n (resolve_table_name e table) (t # ts)))
        (update_one (resolve_table_name e table) xid (get_snapshot tm) (cx_command_id (ctx tm)) updates (scan_all mt) r)
        (\<lambda>_. tinv (resolve_table_name e table) (row_ids (scan_all mt)) (looping V n (resolve_table_name e table) ts))
        (tinv (resolve_table_name e table) (row_ids (scan_all mt)) (undoes V n))"
        by (intro hoare_update_one) (auto simp: row_idsI)
    qed
  qed (intro keeps_intros; simp)+
qed

lemma remove_with_txn_undoes:
  "hoare (\<lambda>e. engine_inv e \<and> rows_inv (undoes V n) e) (remove_with_txn table matches)
    (\<lambda>_ e. engine_inv e \<and> rows_inv (undoes V n) e) (\<lambda>e. engine_inv e \<and> rows_inv (undoes V n) e)"
proof -
  have eq: "remove_with_txn table matches = bindM (getM id) (\<lambda>e. let q = resolve_table_name e table in
     case map_of (e_data e) q of None \<Rightarrow> throw (NoTable table)
     | Some mt \<Rightarrow> bindM assign_xid_m (\<lambda>xid. bindM (getM e_tm) (\<lambda>tm.
         bindM (for_matching xid (get_snapshot tm) (cx_command_id (ctx tm)) matches
           (remove_one q xid (cx_command_id (ctx tm))) (scan_all mt)) (\<lambda>count. seqM maybe_checkpoint (ret count)))))"
    unfolding remove_with_txn_def Let_def steps.simps by (rule refl)
  have "hoare (\<lambda>e. engine_inv e \<and> rows_inv (undoes V n) e \<and> True) (remove_with_txn table matches)
    (\<lambda>_ e. engine_inv e \<and> rows_inv (undoes V n) e) (\<lambda>e. engine_inv e \<and> rows_inv (undoes V n) e)"
    unfolding eq
  proof (rule hoare_statement, goal_cases)
    case (1 mt e xid tm t ts r)
    show ?case
    proof (rule hoare_looping_canonical)
      assume "canonical (resolve_table_name e table) t"
      with 1 show "hoare (tinv (resolve_table_name e table) (row_ids (scan_all mt)) (looping V n (resolve_table_name e table) (t # ts)))
        (remove_one (resolve_table_name e table) xid (cx_command_id (ctx tm)) r)
        (\<lambda>_. tinv (resolve_table_name e table) (row_ids (scan_all mt)) (looping V n (resolve_table_name e table) ts))
        (tinv (resolve_table_name e table) (row_ids (scan_all mt)) (undoes V n))"
        using record_of_row(2) [OF 1(5)] by (intro hoare_remove_one) (auto simp: row_idsI)
    qed
  qed (intro keeps_intros; simp)+
  then show ?thesis by simp
qed

section \<open>Insertion\<close>

definition sane_schema :: "string \<Rightarrow> Engine \<Rightarrow> bool" where
  "sane_schema table e \<longleftrightarrow> (\<forall>s. map_of (e_tables e) (resolve_table_name e table) = Some s \<longrightarrow>
     (\<exists>c \<in> set (ts_columns s). \<not> is_system_column (cd_name c)) \<and> length (ts_columns s) < 2 ^ 16)"

lemma validate_columns_keys:
  "validate_columns i cols r res = Inr out \<Longrightarrow> omap_ok res \<Longrightarrow>
   omap_ok out \<and> fst ` set out = cd_name ` set cols \<union> fst ` set res"
proof (induction i cols r res rule: validate_columns.induct)
  case (2 i col cols r res)
  then obtain v where "validate_columns i cols r (omap_put (cd_name col) v res) = Inr out"
    by (auto simp: bindE_Inr)
  with 2 show ?case by (auto simp: bindE_Inr)
qed simp

lemma sane_validated:
  assumes "validate e s r = Inr v" "\<exists>c \<in> set (ts_columns s). \<not> is_system_column (cd_name c)" "length (ts_columns s) < 2 ^ 16"
  shows "sane_row v"
proof -
  have ok: "omap_ok v" and keys: "fst ` set v = cd_name ` set (ts_columns s)"
    using validate_columns_keys assms(1) by (auto simp: validate_def)
  have "length v = card (fst ` set v)" using ok omap_ok_distinct [of v] distinct_card [of "map fst v"] by simp
  also have "\<dots> \<le> length (ts_columns s)" unfolding keys by (metis card_image_le card_length finite_set order.trans)
  finally have "length v < 2 ^ 16" using assms(3) by simp
  moreover have "length (user_columns v) \<le> length v" by (simp add: user_columns_def)
  moreover have "user_columns v \<noteq> []"
    using assms(2) keys by (force simp: user_columns_def filter_empty_conv)
  ultimately show ?thesis using ok by (simp add: sane_row_def)
qed

text \<open>The new row id is free: before the record is added, and with any contents after it.\<close>

definition before_insert :: "store \<Rightarrow> nat \<Rightarrow> string \<Rightarrow> u64 \<Rightarrow> Engine \<Rightarrow> bool" where
  "before_insert V n q i e \<longleftrightarrow> fresh_at q i e \<and> rows_inv (\<lambda>d u. undoes V n d u \<and> has_key d q \<and> rows_of d q i = None) e"

definition after_record :: "store \<Rightarrow> nat \<Rightarrow> string \<Rightarrow> u64 \<Rightarrow> Engine \<Rightarrow> bool" where
  "after_record V n q i e \<longleftrightarrow> fresh_at q i e \<and> rows_inv (undoes_row V n q i) e"

definition undoing :: "store \<Rightarrow> nat \<Rightarrow> Engine \<Rightarrow> bool" where
  "undoing V n e \<longleftrightarrow> engine_inv e \<and> rows_inv (undoes V n) e"

lemma insert_phases:
  "before_insert V n q i e \<Longrightarrow> undoing V n e" "after_record V n q i e \<Longrightarrow> undoing V n e"
  by (auto simp: before_insert_def after_record_def undoing_def fresh_at_def table_inv_def rows_inv_def dest: undoes_row_undoes)

lemma hoare_before_insert:
  assumes "keeps (fresh_at q i) m" "\<And>P. keeps (rows_inv P) m"
  shows "hoare (before_insert V n q i) m (\<lambda>_. before_insert V n q i) (undoing V n)"
proof -
  have "keeps (before_insert V n q i) m" unfolding before_insert_def [abs_def] by (intro keeps_conj assms)
  then show ?thesis by (rule hoare_keeps) (simp_all add: insert_phases)
qed

lemma hoare_after_record:
  assumes "keeps (fresh_at q i) m" "\<And>P. keeps (rows_inv P) m"
  shows "hoare (after_record V n q i) m (\<lambda>_. after_record V n q i) (undoing V n)"
proof -
  have "keeps (after_record V n q i) m" unfolding after_record_def [abs_def] by (intro keeps_conj assms)
  then show ?thesis by (rule hoare_keeps) (simp_all add: insert_phases)
qed

lemma hoare_insert_record:
  assumes "u_op rec = UndoInsert" "u_table_name rec = q" "u_row_id rec = i"
  shows "hoare (before_insert V n q i) (tm_do (add_undo_record rec)) (\<lambda>_. after_record V n q i) (undoing V n)"
  unfolding tm_do_def
proof (rule hoare_mod)
  fix e
  assume e: "before_insert V n q i e"
  let ?e = "set_tm (add_undo_record rec (e_tm e)) e"
  have "fresh_at q i ?e"
    using e keepsD [OF keeps_add_undo, of rec "{i}" q] assms by (simp add: before_insert_def fresh_at_def tm_do_def modM_def)
  moreover have "undoes_row V n q i (e_data e) (undo_records e @ [rec])"
    using e assms by (intro undoes_add) (auto simp: before_insert_def rows_inv_def record_ok_def before_image_def)
  ultimately show "after_record V n q i ?e" by (simp add: after_record_def rows_inv_def set_tm_def undo_records_def)
qed

lemma hoare_insert_put:
  assumes "sane_row r"
  shows "hoare (after_record V n q i) (put_row q i r)
    (\<lambda>_ e. table_inv q {i} (\<lambda>_. True) e \<and> rows_inv (undoes V n) e) (undoing V n)"
proof (rule hoare_assume)
  fix e
  assume e: "after_record V n q i e"
  let ?e = "snd (put_row q i r e)"
  have td: "omap_ok (e_data e)" "has_key (e_data e) q" "mt_wf q (table_data q e)" "get_latest (table_data q e) i = None"
    using e inv_table [of e q] by (auto simp: after_record_def fresh_at_def table_inv_def engine_inv_def)
  have t: "table_inv q {i} (\<lambda>_. True) ?e"
    using hoareD [OF keeps_fresh_put, of q i e r] e by (auto simp: after_record_def split: prod.splits sum.splits)
  have row: "undoes_row V n q i (e_data e) (undo_records e)" using e by (simp add: after_record_def rows_inv_def)
  have "undoes_row V n q i (e_data ?e) (undo_records ?e)"
  proof (cases "make_tuple q i r")
    case (Inl x)
    then show ?thesis using put_row_effect [OF td(3,4), of r] row by simp
  next
    case (Inr t)
    then obtain mt where "e_data ?e = omap_put q mt (e_data e)" "get_latest mt = (get_latest (table_data q e))(i := Some (stored t))"
      using put_row_effect(3) [OF td(3,4), of r] by auto
    then show ?thesis
      using undoes_row_set [OF row td(1,2), of mt "mt_new q" "Some (stored t)"] canonical_make [OF Inr assms]
        make_tuple_shows(4) [OF Inr assms] put_row_effect(1) [OF td(3,4)] by (simp add: table_data_def)
  qed
  then show "hoare (\<lambda>x. x = e) (put_row q i r) (\<lambda>_ e. table_inv q {i} (\<lambda>_. True) e \<and> rows_inv (undoes V n) e) (undoing V n)"
    using t by (auto simp: hoare_def undoing_def rows_inv_def table_inv_def dest: undoes_row_undoes split: prod.splits sum.splits)
qed

lemma keeps_fresh [keeps_intros]:
  "keeps (fresh_at q i) assign_xid_m" "keeps (fresh_at q i) (write_wal opn t pl xid)"
  "keeps (fresh_at q i) (insert_pk_check q' xid snap cid v cols tups)"
  unfolding fresh_at_def by (intro keeps_intros; simp)+

lemma hoare_insert_end:
  assumes "sane_row v"
  shows "hoare (after_record V n q i) (seqM (put_row q i v) (seqM (update_indexes q i v)
    (seqM (modM (refresh_row_count q)) (seqM maybe_checkpoint (ret x))))) (\<lambda>_. undoing V n) (undoing V n)"
proof (rule hoare_seq [OF hoare_insert_put [OF assms]])
  have "keeps (\<lambda>e. table_inv q {i} (\<lambda>_. True) e \<and> rows_inv (undoes V n) e) (seqM (update_indexes q i v)
    (seqM (modM (refresh_row_count q)) (seqM maybe_checkpoint (ret x))))"
    by (rule keeps_conj) (intro keeps_intros; simp)+
  then show "hoare (\<lambda>e. table_inv q {i} (\<lambda>_. True) e \<and> rows_inv (undoes V n) e) (seqM (update_indexes q i v)
    (seqM (modM (refresh_row_count q)) (seqM maybe_checkpoint (ret x)))) (\<lambda>_. undoing V n) (undoing V n)"
    by (rule hoare_keeps) (auto simp: undoing_def table_inv_def)
qed

lemma hoare_insert_body:
  assumes "\<And>xid tm. sane_row (v xid tm)"
    and "\<And>xid tm. u_op (rec xid tm) = UndoInsert \<and> u_table_name (rec xid tm) = q \<and> u_row_id (rec xid tm) = i"
  shows "hoare (before_insert V n q i) (bindM assign_xid_m (\<lambda>xid. bindM (getM e_tm) (\<lambda>tm.
      seqM (insert_pk_check q xid (snap tm) (cid tm) (v xid tm) cols tups) (seqM (tm_do (add_undo_record (rec xid tm)))
       (seqM (write_wal kInsert q (pl xid tm) xid) (seqM (put_row q i (v xid tm)) (seqM (update_indexes q i (v xid tm))
        (seqM (modM (refresh_row_count q)) (seqM maybe_checkpoint (ret (v xid tm)))))))))))
    (\<lambda>_. undoing V n) (undoing V n)"
  using assms
  by (intro hoare_bind [OF hoare_before_insert] hoare_seq [OF hoare_before_insert [OF keeps_fresh(3)]] hoare_seq [OF hoare_insert_record]
      hoare_seq [OF hoare_after_record [OF keeps_fresh(2)]] hoare_insert_end keeps_intros) simp_all

lemma rows_of_table: "rows_of (e_data e) q = get_latest (table_data q e)"
  by (auto simp: rows_of_def table_data_def omap_at_def fun_eq_iff split: option.split)

lemma insert_with_txn_undoes:
  "hoare (\<lambda>e. undoing V n e \<and> row_id_of (resolve_table_name e table) e \<noteq> 2 ^ 63 - 1 \<and> sane_schema table e)
    (insert_with_txn table r) (\<lambda>_. undoing V n) (undoing V n)"
  unfolding insert_with_txn_def
proof (rule hoare_get, goal_cases)
  case (1 e0)
  let ?q = "resolve_table_name e0 table"
  let ?i = "row_id_of ?q e0 + 1"
  let ?P = "\<lambda>e. (undoing V n e \<and> row_id_of (resolve_table_name e table) e \<noteq> 2 ^ 63 - 1 \<and> sane_schema table e) \<and> e = e0"
  show ?case
  proof (rule hoare_assume, goal_cases)
    case (1 e)
    then have e: "e = e0" and inv: "engine_inv e0" and undo: "rows_inv (undoes V n) e0"
      and max: "row_id_of ?q e0 \<noteq> 2 ^ 63 - 1" and cols: "sane_schema table e0" by (auto simp: undoing_def)
    show ?case
    proof (cases "map_of (e_tables e0) ?q")
      case (Some schema)
      show ?thesis
      proof (cases "validate e0 schema r")
        case (Inr v)
        let ?v = "\<lambda>xid tm. omap_put ''_cid'' (VInt (scast (cx_command_id (ctx tm)))) (omap_put ''_xmax'' (VInt 0)
                    (omap_put ''_xmin'' (VInt (ucast (xid :: TransactionId))) (omap_put ''_rowid'' (VInt ?i) v)))"
        have sane: "sane_row (?v xid tm)" for xid tm
          using sane_validated [OF Inr] cols Some by (simp add: sane_schema_def is_system_column_def)
        have q: "has_key (e_data e0) ?q" by (rule schema_has_data [OF inv Some])
        have fresh: "fresh_at ?q ?i (set_row_id ?q ?i e0)" by (rule fresh_row_id [OF inv q max])
        have "rows_of (e_data e0) ?q ?i = None"
          using fresh by (simp add: fresh_at_def table_inv_def rows_of_table) (simp add: table_data_def set_row_id_def)
        then have "before_insert V n ?q ?i (set_row_id ?q ?i e0)"
          using fresh undo q by (simp add: before_insert_def rows_inv_def set_row_id_def undo_records_def)
        then have start: "hoare (\<lambda>x. x = e) (modM (set_row_id ?q ?i)) (\<lambda>_. before_insert V n ?q ?i) (undoing V n)"
          by (auto intro: hoare_mod simp: e)
        from hoare_seq [OF start hoare_insert_body [where v = ?v and snap = "get_snapshot" and cid = "\<lambda>tm. cx_command_id (ctx tm)", OF sane]]
        show ?thesis using Some Inr by (simp add: Let_def)
      qed (use Some 1 in \<open>auto simp: Let_def intro: hoare_throw\<close>)
    qed (use 1 in \<open>auto intro: hoare_throw\<close>)
  qed
qed

section \<open>Steps of a transaction\<close>

text \<open>
  What may happen between the begin of a transaction and its end, or between a savepoint and the
  return to it: the three statements, whether they return or throw, reads, checkpoints, and calls of
  the transaction manager that keep the undo records. The guards say that rows stay storable: a
  table has a user column, and no row gets 65536 columns.
\<close>

inductive txn_step :: "Engine \<Rightarrow> Engine \<Rightarrow> bool" where
  insert: "row_id_of (resolve_table_name e name) e \<noteq> 2 ^ 63 - 1 \<Longrightarrow> sane_schema name e \<Longrightarrow> txn_step e (snd (insert_with_txn name r e))"
| update: "narrow name updates e \<Longrightarrow> txn_step e (snd (update_with_txn name matches updates e))"
| remove: "txn_step e (snd (remove_with_txn name matches e))"
| scan_snapshot: "txn_step e (snd (scan_with_snapshot name snap xid cid e))"
| lookup_snapshot: "txn_step e (snd (index_lookup_with_snapshot name column v snap xid cid e))"
| save: "txn_step e (snd (checkpoint e))"
| manager: "cx_undo_records (ctx t) = undo_records e \<Longrightarrow> txn_step e (set_tm t e)"

lemma reads_rows:
  "keeps (rows_inv P) (scan_with_snapshot table snap xid cid)"
  "keeps (rows_inv P) (index_lookup_with_snapshot table column v snap xid cid)"
  by (auto simp: scan_with_snapshot_def index_lookup_with_snapshot_def Let_def intro!: keeps_intros split: option.split)

lemma undoing_step: "txn_step e e' \<Longrightarrow> undoing V n e \<Longrightarrow> undoing V n e'"
proof (induction rule: txn_step.induct)
  case (insert e name r)
  then show ?case using hoare_snd [OF insert_with_txn_undoes [where V = V and n = n and table = name and r = r], of e] by simp
next
  case (update name updates e matches)
  then show ?case
    using hoare_snd [OF update_with_txn_undoes [where V = V and n = n and table = name and updates = updates and matches = matches], of e]
    by (simp add: undoing_def)
next
  case (remove e name matches)
  then show ?case
    using hoare_snd [OF remove_with_txn_undoes [where V = V and n = n and table = name and matches = matches], of e]
    by (simp add: undoing_def)
next
  case (save e)
  then show ?case
    using keepsD [OF keeps_checkpoint [OF log_frame_inv]] keepsD [OF keeps_checkpoint [OF log_frame_rows_inv]]
    by (simp add: undoing_def)
next
  case (manager t e)
  then show ?case by (simp add: undoing_def inv_set_tm rows_inv_set_tm)
qed (use keepsD [OF snapshot_reads_inv(1)] keepsD [OF snapshot_reads_inv(2)] keepsD [OF reads_rows(1)] keepsD [OF reads_rows(2)]
     in \<open>auto simp: undoing_def\<close>)

section \<open>Running the undo\<close>

definition restorable :: "UndoRecord list \<Rightarrow> Engine \<Rightarrow> bool" where
  "restorable recs e \<longleftrightarrow> engine_inv e \<and> data_canonical (e_data e) \<and> (\<forall>rec \<in> set recs. record_ok (e_data e) rec) \<and>
     set recs \<subseteq> set (undo_records e)"

lemma rows_of_set_data:
  assumes "engine_inv e" "has_key (e_data e) q" "get_latest mt = (get_latest (table_data q e))(i := x)"
  shows "rows_of (omap_put q mt (e_data e)) = set_row q i x (rows_of (e_data e))"
proof (rule rows_of_put)
  show "get_latest mt = (get_latest (omap_at (mt_new q) (e_data e) q))(i := x)" using assms(3) by (simp add: table_data_def)
qed (use assms in \<open>simp_all add: engine_inv_def\<close>)

lemma apply_undo_record_run:
  assumes "restorable recs e" "rec \<in> set recs"
  shows "fst (apply_undo_record rec e) = Inr () \<and> restorable recs (snd (apply_undo_record rec e)) \<and>
    rows_of (e_data (snd (apply_undo_record rec e))) = undo_one rec (rows_of (e_data e))"
proof -
  let ?q = "u_table_name rec" and ?i = "u_row_id rec" and ?e' = "snd (apply_undo_record rec e)"
  note r = assms [unfolded restorable_def]
  have q: "has_key (e_data e) ?q" and ok: "record_ok (e_data e) rec" using r by (auto simp: record_ok_def)
  obtain old where old: "map_of (e_data e) ?q = Some old" using q by (auto simp: has_key_def)
  have wf: "mt_wf ?q (table_data ?q e)" "omap_ok (e_data e)" using inv_table [of e ?q] q r by (auto simp: engine_inv_def)
  have inv: "engine_inv ?e'" "set recs \<subseteq> set (undo_records ?e')"
    using keepsD [OF keeps_undo_record [of rec "set recs" "{}"], of e] r assms(2)
    by (auto simp: method_inv_def context_inv_def)
  obtain mt where d: "e_data ?e' = omap_put ?q mt (e_data e)" and l: "get_latest mt = (get_latest (table_data ?q e))(?i := before_image rec)"
    and res: "fst (apply_undo_record rec e) = Inr ()"
  proof (cases "u_op rec = UndoInsert \<or> u_old_row rec = []")
    case True
    then have "e_data ?e' = omap_put ?q (snd (erase_all_for ?i (table_data ?q e))) (e_data e)" "fst (apply_undo_record rec e) = Inr ()"
      using old by (auto simp: apply_undo_record_def bindM_def getM_def seqM_def erase_rows_def modM_def ret_def set_data_def)
    then show ?thesis using True by (intro that) (auto simp: get_latest_erase before_image_def)
  next
    case False
    then obtain t where t: "make_tuple ?q ?i (u_old_row rec) = Inr t" using ok by (auto simp: record_ok_def)
    have "apply_undo_record rec e = replace_row ?q ?i (u_old_row rec) e"
      using False old by (simp add: apply_undo_record_def bindM_def getM_def replace_row_def)
    moreover have "fst (replace_row ?q ?i (u_old_row rec) e) = Inr ()"
      using t by (simp add: replace_row_def seqM_def erase_rows_def put_row_def bindM_def modM_def liftM_def Let_def)
    ultimately show ?thesis
      using replace_row_effect(2) [OF wf, of ?i "u_old_row rec"] t False by (auto simp: before_image_def intro: that)
  qed
  have rows: "rows_of (e_data ?e') = undo_one rec (rows_of (e_data e))"
    using rows_of_set_data [of e ?q mt] r q l by (simp add: d undo_one_def)
  have "canonical ?q t" if "before_image rec = Some t" for t
    using that ok make_tuple_shows(4) by (auto simp: before_image_def record_ok_def canonical_def split: if_splits sum.splits)
  then have "data_canonical (e_data ?e')"
    using r rows by (auto simp: data_canonical_def undo_one_def split: if_splits)
  moreover have "record_ok (e_data ?e') rec'" if "rec' \<in> set recs" for rec'
    using r that by (auto simp: record_ok_def d)
  ultimately show ?thesis using res rows inv by (simp add: restorable_def)
qed

lemma undo_records_run:
  "restorable recs e \<Longrightarrow> set rs \<subseteq> set recs \<Longrightarrow>
   fst (forM rs apply_undo_record e) = Inr () \<and> restorable recs (snd (forM rs apply_undo_record e)) \<and>
   rows_of (e_data (snd (forM rs apply_undo_record e))) = fold undo_one rs (rows_of (e_data e))"
proof (induction rs arbitrary: e)
  case (Cons rec rs)
  obtain e1 where e1: "apply_undo_record rec e = (Inr (), e1)" "restorable recs e1"
    "rows_of (e_data e1) = undo_one rec (rows_of (e_data e))"
    using apply_undo_record_run [OF Cons.prems(1), of rec] Cons.prems(2) by (metis list.set_intros(1) prod.collapse subsetD)
  then show ?case using Cons.IH [OF e1(2)] Cons.prems(2) by (simp add: seqM_def bindM_def)
qed (simp add: ret_def)

text \<open>Rebuilding the indexes succeeds when every row decodes.\<close>

lemma build_from_ok: "(\<And>t. t \<in> set ts \<Longrightarrow> \<exists>r. tuple_to_row_for_visibility t = Inr r) \<Longrightarrow> fst (build_from column ts m) = None"
proof (induction ts arbitrary: m)
  case (Cons t ts)
  then obtain r where "tuple_to_row_for_visibility t = Inr r" by (metis list.set_intros(1))
  with Cons show ?case by simp
qed simp

lemma rebuild_list_ok:
  "(\<And>t. t \<in> set (scan_all mt) \<Longrightarrow> \<exists>r. tuple_to_row_for_visibility t = Inr r) \<Longrightarrow> fst (rebuild_list mt ixs) = None"
  using build_from_ok by (induction ixs) (simp_all add: Let_def case_prod_beta)

lemma rebuild_run:
  assumes "engine_inv e" "data_canonical (e_data e)"
  shows "\<exists>e'. rebuild_indexes q e = (Inr (), e') \<and> e_data e' = e_data e \<and> engine_inv e'"
proof (cases "map_of (e_indexes e) q")
  case (Some ixs)
  then obtain mt where mt: "map_of (e_data e) q = Some mt" using inv_has_index [OF assms(1)] by (auto simp: has_key_def)
  have "mt_wf q mt" using assms(1) mt by (simp add: engine_inv_def)
  then have "canonical q t" if "t \<in> set (scan_all mt)" for t
    using that assms(2) mt rs.scan_lookup [of q mt t] by (auto simp: data_canonical_def rows_of_def)
  then have "\<exists>r. tuple_to_row_for_visibility t = Inr r" if "t \<in> set (scan_all mt)" for t
    using that by (auto simp: canonical_def)
  then have "fst (rebuild_list mt ixs) = None" by (rule rebuild_list_ok)
  then show ?thesis
    using Some mt inv_set_indexes [OF assms(1), of q]
    by (cases "rebuild_list mt ixs") (auto simp: rebuild_indexes_def bindM_def getM_def seqM_def modM_def ret_def set_indexes_def has_key_def)
qed (simp add: rebuild_indexes_def bindM_def getM_def ret_def assms(1))

lemma rebuild_all_run:
  "engine_inv e \<Longrightarrow> data_canonical (e_data e) \<Longrightarrow>
   \<exists>e'. forM rs (\<lambda>rec. rebuild_indexes (u_table_name rec)) e = (Inr (), e') \<and> e_data e' = e_data e \<and> engine_inv e'"
proof (induction rs arbitrary: e)
  case (Cons rec rs)
  obtain e1 where "rebuild_indexes (u_table_name rec) e = (Inr (), e1)" "e_data e1 = e_data e" "engine_inv e1"
    using rebuild_run [OF Cons.prems] by blast
  then show ?case using Cons.IH [of e1] Cons.prems(2) by (simp add: seqM_def bindM_def)
qed (simp add: ret_def)

lemma undo_list_run:
  assumes "restorable recs e"
  shows "\<exists>e'. undo_list (rev recs) e = (Inr (), e') \<and> engine_inv e' \<and> rows_of (e_data e') = undo_all recs (rows_of (e_data e))"
proof -
  obtain e1 where e1: "forM (rev recs) apply_undo_record e = (Inr (), e1)" "restorable recs e1"
    "rows_of (e_data e1) = fold undo_one (rev recs) (rows_of (e_data e))"
    using undo_records_run [OF assms, of "rev recs"] by (metis prod.collapse set_rev subset_refl)
  then obtain e2 where "forM (rev recs) (\<lambda>rec. rebuild_indexes (u_table_name rec)) e1 = (Inr (), e2)"
    "e_data e2 = e_data e1" "engine_inv e2"
    using rebuild_all_run [of e1 "rev recs"] by (auto simp: restorable_def)
  with e1 show ?thesis by (auto simp: undo_list_def seqM_def bindM_def undo_all_def foldr_conv_fold)
qed

lemma same_rows_same_scan:
  assumes "engine_inv e" "engine_inv e'" "rows_of (e_data e) = rows_of (e_data e')"
  shows "scan_all (table_data q e) = scan_all (table_data q e')"
proof (rule rs.scan_ext)
  have wf: "mt_wf q (table_data q x)" if "engine_inv x" for x
    using inv_table(1) [OF that, of q] by (cases "has_key (e_data x) q") (auto simp: table_data_def omap_at_def has_key_def)
  show "mt_wf q (table_data q e)" "mt_wf q (table_data q e')" using assms wf by blast+
  show "get_latest (table_data q e) = get_latest (table_data q e')" using assms(3) by (metis rows_of_table)
qed

lemma undoing_start: "engine_inv e \<Longrightarrow> data_canonical (e_data e) \<Longrightarrow> undoing (rows_of (e_data e)) (length (undo_records e)) e"
  by (simp add: undoing_def rows_inv_def undoes_def)

lemma undoing_steps:
  assumes "txn_step\<^sup>*\<^sup>* e e1" "undoing V n e"
  shows "undoing V n e1"
  using assms by (induction rule: rtranclp_induct) (auto intro: undoing_step)

lemma undoing_end:
  assumes "undoing V n e"
  shows "\<exists>e'. undo_list (rev (drop n (undo_records e))) e = (Inr (), e') \<and> engine_inv e' \<and> rows_of (e_data e') = V"
proof -
  have "restorable (drop n (undo_records e)) e"
    using assms by (auto simp: undoing_def rows_inv_def undoes_def restorable_def dest: in_set_dropD)
  with undo_list_run [OF this] assms show ?thesis by (simp add: undoing_def rows_inv_def undoes_def)
qed

section \<open>Properties\<close>

text \<open>C2: ROLLBACK: after any sequence of transactional inserts, updates and deletes, whether they
  returned or threw in the middle, undoing all records succeeds, and then every table is scanned
  exactly as before the first of them: the same rows with the same system columns in the same order.\<close>

theorem rollback_restores:
  assumes "engine_inv e" "data_canonical (e_data e)" "undo_records e = []" "txn_step\<^sup>*\<^sup>* e e1"
  shows "\<exists>e2. apply_undo e1 = (Inr (), e2) \<and> (\<forall>q. scan_all (table_data q e2) = scan_all (table_data q e))"
proof -
  have "undoing (rows_of (e_data e)) 0 e1"
    using undoing_steps [OF assms(4) undoing_start [OF assms(1,2)]] assms(3) by simp
  then obtain e2 where e2: "undo_list (rev (undo_records e1)) e1 = (Inr (), e2)" "engine_inv e2" "rows_of (e_data e2) = rows_of (e_data e)"
    using undoing_end [of "rows_of (e_data e)" 0 e1] by auto
  have "apply_undo e1 = (Inr (), e2)" using e2(1) by (simp add: apply_undo_def bindM_def getM_def undo_records_def)
  with same_rows_same_scan [OF e2(2) assms(1) e2(3)] show ?thesis by blast
qed

lemma sample_table_ready: "engine_inv sample_table" "data_canonical (e_data sample_table)" "undo_records sample_table = []"
proof -
  have "eng_step sample_engine sample_table"
    unfolding sample_table_def
    by (rule eng_step.create_table) (simp add: sample_engine_def engine_new_def undo_records_def init_tm_def init_context_def)
  then show "engine_inv sample_table" by (rule engine_inv_step) (simp add: sample_engine_def engine_inv_new)
  show "data_canonical (e_data sample_table)"
    by (simp add: data_canonical_def rows_of_def sample_table_members)
  show "undo_records sample_table = []" by (simp add: undo_records_def sample_table_members init_tm_def init_context_def)
qed

lemma sample_txn_step: "txn_step sample_table (snd (insert_with_txn ''t'' [(''a'', VInt 5)] sample_table))"
  by (rule txn_step.insert)
    (simp_all add: qualify_sample_table row_id_of_def omap_at_def sample_table_members sane_schema_def sample_column_def is_system_column_def)

lemma sample_txn_steps: "txn_step\<^sup>*\<^sup>* sample_table (snd (insert_with_txn ''t'' [(''a'', VInt 5)] sample_table))"
  using sample_txn_step by (rule r_into_rtranclp)

lemma rollback_restores_witness:
  "\<exists>e2. apply_undo (snd (insert_with_txn ''t'' [(''a'', VInt 5)] sample_table)) = (Inr (), e2) \<and>
     scan_all (table_data ''defaultdb.public.t'' e2) = []"
proof -
  have "scan_all (table_data ''defaultdb.public.t'' sample_table) = []"
    by (simp add: table_data_def omap_at_def sample_table_members)
  with rollback_restores [OF sample_table_ready sample_txn_steps] show ?thesis by metis
qed

text \<open>C13: ROLLBACK TO: undoing as many records as were added since a savepoint succeeds and restores
  every table to its state at the savepoint, whatever the transaction had done before it.\<close>

theorem rollback_to_restores:
  assumes "engine_inv e" "data_canonical (e_data e)" "txn_step\<^sup>*\<^sup>* e e1"
  shows "\<exists>e2. apply_undo_to (length (undo_records e1) - length (undo_records e)) e1 = (Inr (), e2) \<and>
    (\<forall>q. scan_all (table_data q e2) = scan_all (table_data q e))"
proof -
  let ?n = "length (undo_records e)" and ?u = "undo_records e1"
  have u: "undoing (rows_of (e_data e)) ?n e1"
    using undoing_steps [OF assms(3) undoing_start [OF assms(1,2)]] .
  then obtain e2 where e2: "undo_list (rev (drop ?n ?u)) e1 = (Inr (), e2)" "engine_inv e2" "rows_of (e_data e2) = rows_of (e_data e)"
    using undoing_end by blast
  have "?n \<le> length ?u" using u by (simp add: undoing_def rows_inv_def undoes_def)
  then have "length ?u - (length ?u - ?n) = ?n" "\<not> length ?u < length ?u - ?n" by simp_all
  then have "apply_undo_to (length ?u - ?n) e1 = (Inr (), e2)"
    using e2(1) by (auto simp: apply_undo_to_def bindM_def getM_def Let_def undo_records_def)
  with same_rows_same_scan [OF e2(2) assms(1) e2(3)] show ?thesis by blast
qed

lemma rollback_to_restores_witness:
  "\<exists>e2. apply_undo_to (length (undo_records (snd (insert_with_txn ''t'' [(''a'', VInt 5)] sample_table))))
     (snd (insert_with_txn ''t'' [(''a'', VInt 5)] sample_table)) = (Inr (), e2) \<and>
     scan_all (table_data ''defaultdb.public.t'' e2) = []"
proof -
  have "scan_all (table_data ''defaultdb.public.t'' sample_table) = []"
    by (simp add: table_data_def omap_at_def sample_table_members)
  with rollback_to_restores [OF sample_table_ready(1,2) sample_txn_steps] sample_table_ready(3)
  show ?thesis by (metis diff_zero list.size(3))
qed

end
