(* ===== verification/Query_Plans.thy ===== *)
theory Query_Plans
  imports Executor Rollback
begin

text \<open>
  What the plans of the planner compute when the executor runs them: types of expressions, the meaning of a
  SELECT, the plans taken from the workload memory, and the plans through an index.
\<close>

section \<open>Types of expressions\<close>

datatype ty = TyInt | TyDouble | TyString | TyBool

fun value_type :: "val \<Rightarrow> ty option" where
  "value_type VNull = None"
| "value_type (VInt i) = Some TyInt"
| "value_type (VDouble d) = Some TyDouble"
| "value_type (VString s) = Some TyString"
| "value_type (VBool b) = Some TyBool"

text \<open>The type of an expression over columns of given types; \<open>None\<close> is the type of NULL alone.\<close>

definition comparisons :: "string set" where
  "comparisons = {''='', ''!='', ''<'', ''>'', ''<='', ''>='', ''AND'', ''OR''}"

fun arithmetic_type :: "ty option \<Rightarrow> ty option \<Rightarrow> ty option" where
  "arithmetic_type (Some TyInt) (Some TyInt) = Some TyInt"
| "arithmetic_type (Some TyInt) (Some TyDouble) = Some TyDouble"
| "arithmetic_type (Some TyDouble) (Some TyInt) = Some TyDouble"
| "arithmetic_type (Some TyDouble) (Some TyDouble) = Some TyDouble"
| "arithmetic_type _ _ = None"

fun infer :: "(string \<Rightarrow> ty option) \<Rightarrow> Expression \<Rightarrow> ty option" where
  "infer cols (Literal v) = value_type v"
| "infer cols (ColumnRef c) = cols c"
| "infer cols (UnaryOp opn e) = (if opn = ''NOT'' \<and> infer cols e = Some TyBool then Some TyBool else None)"
| "infer cols (BinaryOp opn l r) = (if opn \<in> comparisons then Some TyBool
     else if opn \<in> {''+'', ''-'', ''*''} then arithmetic_type (infer cols l) (infer cols r)
     else if opn = ''/'' \<and> infer cols l = infer cols r \<and> infer cols l \<in> {Some TyInt, Some TyDouble} then infer cols l
     else None)"

definition has_type :: "val \<Rightarrow> ty option \<Rightarrow> bool" where
  "has_type v T \<longleftrightarrow> v = VNull \<or> value_type v = T"

definition row_typed :: "(string \<Rightarrow> ty option) \<Rightarrow> row \<Rightarrow> bool" where
  "row_typed cols r \<longleftrightarrow> (\<forall>c v. map_of r c = Some v \<longrightarrow> has_type v (cols c))"

lemma has_type_None [simp]: "has_type v None \<longleftrightarrow> v = VNull"
  by (cases v) (auto simp: has_type_def)

lemma has_type_Some: "has_type v (Some T) \<longleftrightarrow> v = VNull \<or> (case T of TyInt \<Rightarrow> \<exists>i. v = VInt i | TyDouble \<Rightarrow> \<exists>d. v = VDouble d
    | TyString \<Rightarrow> \<exists>s. v = VString s | TyBool \<Rightarrow> \<exists>b. v = VBool b)"
  by (cases v; cases T) (simp_all add: has_type_def)

lemma arithmetic_type: "has_type l T \<Longrightarrow> has_type r U \<Longrightarrow> has_type (arithmetic fi fd l r) (arithmetic_type T U)"
  by (cases T; cases U) (auto simp: has_type_Some split: ty.splits)

lemma divide_type:
  assumes "has_type l T" "has_type r U"
  shows "has_type (divide_values l r) (if T = U \<and> T \<in> {Some TyInt, Some TyDouble} then T else None)"
  using assms by (cases T; cases U) (auto simp: has_type_Some split: ty.splits if_splits)

lemma binary_type:
  assumes "has_type l T" "has_type r U"
  shows "has_type (binary_op opn l r) (if opn \<in> comparisons then Some TyBool
     else if opn \<in> {''+'', ''-'', ''*''} then arithmetic_type T U
     else if opn = ''/'' \<and> T = U \<and> T \<in> {Some TyInt, Some TyDouble} then T else None)"
proof (cases "opn = ''/''")
  case True
  then show ?thesis using divide_type [OF assms] by (simp add: binary_op_def comparisons_def)
next
  case False
  then show ?thesis using arithmetic_type [OF assms] by (auto simp: binary_op_def comparisons_def has_type_Some)
qed

lemma eval_infer: "row_typed cols r \<Longrightarrow> has_type (eval_expression e r) (infer cols e)"
proof (induction e)
  case (ColumnRef c)
  then show ?case by (auto simp: row_typed_def has_type_def split: option.split)
next
  case (BinaryOp opn left right)
  then show ?case using binary_type [of "eval_expression left r" _ "eval_expression right r"] by simp
next
  case (UnaryOp opn e)
  then show ?case by (cases "infer cols e") (auto simp: has_type_Some split: ty.splits)
qed (simp add: has_type_def)

lemma comparison_bool: "opn \<in> comparisons \<Longrightarrow> \<exists>b. binary_op opn l r = VBool b"
  by (auto simp: comparisons_def binary_op_def)

section \<open>The rows a scan shows\<close>

text \<open>The rows of a table as its tuples give them, oldest row id first.\<close>

definition table_rows :: "Engine \<Rightarrow> string \<Rightarrow> engine_error + row list" where
  "table_rows e name = (case map_of (e_data e) (resolve_table_name e name) of None \<Rightarrow> Inl (NoTable name)
     | Some mt \<Rightarrow> (case materialize_all mt of Inl x \<Rightarrow> Inl (RowErr x) | Inr rows \<Rightarrow> Inr rows))"

definition in_snapshot :: "Snapshot \<Rightarrow> Engine \<Rightarrow> row \<Rightarrow> bool" where
  "in_snapshot snap e r \<longleftrightarrow> check_tuple_visibility r (cx_xid (ctx (e_tm e))) snap (cx_command_id (ctx (e_tm e))) (clog (e_tm e))"

lemma register_moved_from: "register_siread_row q moved_from = ret ()"
  by (simp add: register_siread_row_def moved_from_def row_int_def)

definition visible_step :: "string \<Rightarrow> Snapshot \<Rightarrow> TransactionId \<Rightarrow> u32 \<Rightarrow> Tuple \<Rightarrow> row list \<Rightarrow> row list meth" where
  "visible_step q snap xid cid t out = bindM (to_row t) (\<lambda>r. bindM (visible r xid snap cid) (\<lambda>vis.
       if vis then steps [register_siread_row q moved_from] (ret (out @ [r])) else ret out))"

lemma visible_step_eq:
  "visible_step q snap xid cid t out e = (case tuple_to_row_for_visibility t of Inl x \<Rightarrow> (Inl (RowErr x), e)
    | Inr r \<Rightarrow> (Inr (if check_tuple_visibility r xid snap cid (clog (e_tm e)) then out @ [r] else out), e))"
  by (simp add: visible_step_def bindM_def to_row_def liftM_def visible_def getM_def register_moved_from seqM_def ret_def split: sum.split)

lemma visible_rows_acc:
  "foldM (visible_step q snap xid cid) ts acc e =
   (case mapE tuple_to_row_for_visibility ts of Inl x \<Rightarrow> (Inl (RowErr x), e)
    | Inr rows \<Rightarrow> (Inr (acc @ filter (\<lambda>r. check_tuple_visibility r xid snap cid (clog (e_tm e))) rows), e))"
proof (induction ts arbitrary: acc)
  case (Cons t ts)
  show ?case
  proof (cases "tuple_to_row_for_visibility t")
    case (Inr r)
    then have "visible_step q snap xid cid t acc e = (Inr (if check_tuple_visibility r xid snap cid (clog (e_tm e)) then acc @ [r] else acc), e)"
      by (simp add: visible_step_eq)
    then show ?thesis using Inr by (cases "mapE tuple_to_row_for_visibility ts") (simp_all add: Cons bindM_def)
  next
    case (Inl x)
    then have "visible_step q snap xid cid t acc e = (Inl (RowErr x), e)" by (simp add: visible_step_eq)
    then show ?thesis using Inl by (simp add: bindM_def)
  qed
qed (simp add: ret_def)

lemma visible_rows_eq:
  "visible_rows q snap xid cid ts e =
   (case mapE tuple_to_row_for_visibility ts of Inl x \<Rightarrow> (Inl (RowErr x), e)
    | Inr rows \<Rightarrow> (Inr (filter (\<lambda>r. check_tuple_visibility r xid snap cid (clog (e_tm e))) rows), e))"
  using visible_rows_acc [of q snap xid cid ts "[]" e] by (simp add: visible_rows_def visible_step_def [abs_def] split: sum.splits)

lemma scan_eq:
  "scan_with_snapshot name snap (cx_xid (ctx (e_tm e))) (cx_command_id (ctx (e_tm e))) e =
   (case table_rows e name of Inl x \<Rightarrow> (Inl x, e) | Inr rows \<Rightarrow> (Inr (filter (in_snapshot snap e) rows), e))"
  by (simp add: scan_with_snapshot_def bindM_def getM_def Let_def table_rows_def materialize_all_def throw_def visible_rows_eq in_snapshot_def [abs_def]
    split: option.split sum.split)

section \<open>The meaning of SELECT\<close>

definition where_true :: "Expression option \<Rightarrow> row \<Rightarrow> bool" where
  "where_true w r \<longleftrightarrow> (case w of None \<Rightarrow> True | Some e \<Rightarrow> eval_expression e r = VBool True)"

definition select_columns :: "string list \<Rightarrow> row \<Rightarrow> row" where
  "select_columns columns r = (if columns = [] then r else project_row columns r)"

text \<open>Selection and projection over the rows of the table that the snapshot shows.\<close>

definition select_rows :: "Engine \<Rightarrow> Snapshot \<Rightarrow> SelectStmt \<Rightarrow> engine_error + row list" where
  "select_rows e snap s = bindE (table_rows e (sel_from s)) (\<lambda>rows.
     Inr (map (select_columns (sel_columns s)) (filter (where_true (sel_where s)) (filter (in_snapshot snap e) rows))))"

definition query_result :: "row list \<Rightarrow> ResultSet" where
  "query_result rows = \<lparr>rs_columns = shown_columns rows, rs_rows = rows, rs_affected_rows = 0, rs_message = [], rs_duration_ms = 0\<rparr>"

definition full_scan :: "SelectStmt \<Rightarrow> Pipeline" where
  "full_scan s = new_op SCAN (sel_from s) # filter_op (sel_where s) @ project_op (sel_columns s)"

lemma truth_iff: "truth v \<longleftrightarrow> v = VBool True"
  by (cases v) (auto simp: truth_def)

lemma keeps_row_iff: "keeps_row e r \<longleftrightarrow> eval_expression e r = VBool True"
  by (auto simp: keeps_row_def truth_iff)

lemma bind_ret: "bindM (ret x) f = f x"
  by (rule ext) (simp add: bindM_def ret_def)

lemma run_filter: "foldM (run_op snap xid cid) (filter_op w @ ops) rows = foldM (run_op snap xid cid) ops (filter (where_true w) rows)"
proof (cases w)
  case None
  then show ?thesis by (simp add: filter_op_def where_true_def)
next
  case (Some e)
  have "where_true w = keeps_row e" by (rule ext) (simp add: Some where_true_def keeps_row_iff)
  then show ?thesis by (simp add: Some filter_op_def run_op_def new_op_def bind_ret)
qed

lemma run_project: "foldM (run_op snap xid cid) (project_op columns) rows = ret (map (select_columns columns) rows)"
proof (cases "columns = []")
  case True
  then show ?thesis by (simp add: project_op_def select_columns_def [abs_def])
next
  case False
  then show ?thesis
    by (simp add: project_op_def select_columns_def [abs_def] run_op_def new_op_def bind_ret)
qed

lemma take_snapshot_read_committed: "cx_isolation (ctx (e_tm e)) = ReadCommitted \<Longrightarrow> take_snapshot e = (Inr (get_snapshot (e_tm e)), e)"
  by (simp add: take_snapshot_def Let_def)

lemma take_snapshot_frame:
  "take_snapshot e = (r, e') \<Longrightarrow> \<exists>snap. r = Inr snap \<and> e_data e' = e_data e \<and> e_catalog e' = e_catalog e \<and>
     clog (e_tm e') = clog (e_tm e) \<and> cx_xid (ctx (e_tm e')) = cx_xid (ctx (e_tm e)) \<and>
     cx_command_id (ctx (e_tm e')) = cx_command_id (ctx (e_tm e))"
  by (auto simp: take_snapshot_def Let_def get_transaction_snapshot_def set_context_def set_tm_def split: if_splits)

lemma run_full_scan:
  assumes "take_snapshot e = (Inr snap, e')"
  shows "execute_pipeline (full_scan s) e =
    (case select_rows e' snap s of Inl x \<Rightarrow> (Inl x, e') | Inr rows \<Rightarrow> (Inr (query_result rows), e'))"
  using assms
  by (simp add: execute_pipeline_def full_scan_def standalone_op_def new_op_def bindM_def getM_def run_op_def scan_eq run_filter run_project
    select_rows_def query_result_def ret_def split: sum.split)

section \<open>Plans through an index\<close>

text \<open>Every row an entry of the index names has, in its newest version, the value the entry is for.\<close>

definition index_accurate :: "Engine \<Rightarrow> string \<Rightarrow> string \<Rightarrow> bool" where
  "index_accurate e q c \<longleftrightarrow> (\<forall>v t. t \<in> set (index_candidates e q c v) \<longrightarrow>
     (\<exists>r x. tuple_to_row_for_visibility t = Inr r \<and> map_of r c = Some x \<and> value_to_string x = value_to_string v))"

lemma not_quote: "is_digit c \<Longrightarrow> c \<noteq> CHR 0x27"
  by (auto simp: is_digit_def)

lemma nat_to_string_head: "hd (nat_to_string n @ s) \<noteq> CHR 0x27"
  using nat_to_string_digits [of "hd (nat_to_string n)" n] not_quote by simp

lemma f_to_string_head: "hd (f_to_string d) \<noteq> CHR 0x27"
  using nat_to_string_head by (simp add: f_to_string_def Let_def split: prod.split)

lemma int64_to_string_head: "hd (int64_to_string i) \<noteq> CHR 0x27"
  using nat_to_string_head [of _ "[]"] by (simp add: int64_to_string_def int_to_string_def)

lemma quoted_string: "value_to_string v = CHR 0x27 # s \<Longrightarrow> \<exists>x. v = VString x"
  using f_to_string_head int64_to_string_head by (cases v) (auto split: if_splits dest: arg_cong [where f = hd])

lemma eq_value_true:
  "extract_eq_value w c = s \<Longrightarrow> s \<noteq> [] \<Longrightarrow> eval_expression w r = VBool True \<Longrightarrow>
   \<exists>v. value_to_string v = s \<and> value_eq (case map_of r c of Some x \<Rightarrow> x | None \<Rightarrow> VNull) v"
proof (induction w c arbitrary: s rule: extract_eq_value.induct)
  case (1 opn left right column)
  show ?case
  proof (cases "opn = ''=''")
    case True
    then show ?thesis using 1 by (auto simp: binary_op_def split: Expression.splits if_splits)
  next
    case False
    then have conj: "opn = ''AND''" using 1 by (auto split: if_splits)
    then have "eval_expression left r = VBool True" "eval_expression right r = VBool True"
      using "1.prems"(3) by (auto simp: binary_op_def truth_iff)
    then show ?thesis using 1 conj by (cases "extract_eq_value left column = []") (auto simp: Let_def)
  qed
qed simp_all

lemma quoted_mismatch:
  assumes "map_of r c = Some x" "value_to_string x = value_to_string (VString (extract_eq_value w c))" "extract_eq_value w c \<noteq> []"
  shows "\<not> where_true (Some w) r"
proof
  assume "where_true (Some w) r"
  then obtain v where v: "value_to_string v = extract_eq_value w c" "value_eq x v"
    using eq_value_true [OF refl assms(3), of r] assms(1) by (auto simp: where_true_def)
  obtain y where "x = VString y" using quoted_string [of x] assms(2) by auto
  then show False using v assms(2) by (cases v) auto
qed

lemma run_index_scan:
  assumes "take_snapshot e = (Inr snap, e')" "sel_where s = Some w" "extract_eq_value w c \<noteq> []"
    and "index_accurate e' (resolve_table_name e' (sel_from s)) c"
  shows "execute_pipeline (build_pipeline e (Select s) (INDEX_SCAN_PREFIX @ c)) e = (Inr (query_result []), e')"
proof -
  let ?v = "VString (extract_eq_value w c)" and ?q = "resolve_table_name e' (sel_from s)"
  have prefix: "source_op s (INDEX_SCAN_PREFIX @ c) = (new_op INDEX_SCAN (sel_from s))\<lparr>op_column := c, op_index_value := ?v\<rparr>"
    using assms(2,3) by (simp add: source_op_def has_prefix_def INDEX_SCAN_PREFIX_def Let_def)
  have good: "\<exists>r x. tuple_to_row_for_visibility t = Inr r \<and> map_of r c = Some x \<and> value_to_string x = value_to_string ?v"
    if "t \<in> set (index_candidates e' ?q c ?v)" for t
    using assms(4) that unfolding index_accurate_def by blast
  have "\<exists>rows. mapE tuple_to_row_for_visibility ts = Inr rows \<and> filter (where_true (Some w)) rows = []"
    if "set ts \<subseteq> set (index_candidates e' ?q c ?v)" for ts
    using that
  proof (induction ts)
    case (Cons t ts)
    then obtain r x where "tuple_to_row_for_visibility t = Inr r" "map_of r c = Some x" "value_to_string x = value_to_string ?v"
      using good [of t] by auto
    with Cons quoted_mismatch [of r c x w] assms(3) show ?case by auto
  qed simp
  then obtain rows where rows: "mapE tuple_to_row_for_visibility (index_candidates e' ?q c ?v) = Inr rows"
      "filter (where_true (Some w)) rows = []" by blast
  have "filter (where_true (Some w)) (filter P rows) = []" for P
    using rows(2) by (auto simp: filter_empty_conv)
  then show ?thesis using assms(1,2) rows(1)
    by (simp add: build_pipeline_def prefix execute_pipeline_def standalone_op_def new_op_def bindM_def getM_def run_op_def
      index_lookup_with_snapshot_def Let_def visible_rows_eq run_filter run_project query_result_def ret_def)
qed

section \<open>Plans from the memory\<close>

lemma op_signature_not_index: "take 11 (op_signature ty @ s) \<noteq> INDEX_SCAN_PREFIX"
  by (cases ty) (simp_all add: INDEX_SCAN_PREFIX_def)

lemma signature_not_index: "\<not> has_prefix INDEX_SCAN_PREFIX (pipeline_signature p)"
proof -
  obtain ty s where "pipeline_signature p = op_signature ty @ s \<or> pipeline_signature p = []"
    by (cases p rule: pipeline_signature.cases) (simp_all, metis append_Nil2)
  moreover have "length INDEX_SCAN_PREFIX = 11" by (simp add: INDEX_SCAN_PREFIX_def)
  ultimately show ?thesis using op_signature_not_index [of ty s] by (auto simp: has_prefix_def dest: arg_cong [where f = length])
qed

lemma build_without_index:
  "\<not> has_prefix INDEX_SCAN_PREFIX strategy \<Longrightarrow> build_pipeline e (Select s) strategy = full_scan s"
  by (simp add: build_pipeline_def full_scan_def source_op_def)

lemma set_tm_index [simp]:
  "index_candidates (set_tm tm e) q c v = index_candidates e q c v" "resolve_table_name (set_tm tm e) t = resolve_table_name e t"
  by (simp_all add: set_tm_def index_candidates_def find_index_def resolve_table_name_def cong: option.case_cong)

lemma take_snapshot_total: "\<exists>snap e'. take_snapshot e = (Inr snap, e') \<and> (\<exists>tm. e' = set_tm tm e)"
  by (cases "get_transaction_snapshot (e_tm e)") (auto simp: take_snapshot_def Let_def set_tm_def intro: exI [of _ "e_tm e"])

text \<open>An executor as the server uses it: the memory starts empty and every statement runs through \<open>execute\<close>, while
  the engine may also be changed by others.\<close>

inductive served :: "PipelineExecutor \<Rightarrow> bool" where
  start: "served (executor_new e (memory_new c) clock)"
| run: "served x \<Longrightarrow> served (snd (execute what freed intent x))"
| other: "served x \<Longrightarrow> served (x\<lparr>px_engine := e\<rparr>)"

definition signed :: "WorkloadMemory \<Rightarrow> bool" where
  "signed m \<longleftrightarrow> (\<forall>r \<in> set (wm_records m). \<exists>p. er_planned_strategy r = pipeline_signature p)"

text \<open>What an execution adds to the memory.\<close>

definition ran :: "UnifiedIntent \<Rightarrow> PipelineExecutor \<Rightarrow> PipelineExecutor \<Rightarrow> ExecutionRecord \<Rightarrow> bool" where
  "ran intent x x' r \<longleftrightarrow> wm_records (px_memory x') = wm_records (px_memory x) @ [r] \<and> er_intent_hash r = in_description intent \<and>
     er_category r = record_category (in_category intent) \<and> er_tables r = in_tables intent \<and>
     (\<exists>p. er_planned_strategy r = pipeline_signature p)"

lemma tick_records [simp]: "wm_records (snd (tick m)) = wm_records m"
  by (simp add: tick_def)

lemma pattern_records [simp]:
  "wm_records (add_pattern p m) = wm_records m" "wm_records (refresh_pattern ty hash stp m) = wm_records m"
  by (simp_all add: add_pattern_def refresh_pattern_def case_prod_beta Let_def)

lemma detect_records [simp]:
  "wm_records (detect_periodic_job r m) = wm_records m"
  "wm_records (detect_frequent_query r m) = wm_records m"
  "wm_records (detect_strategy_deviation r m) = wm_records m"
  unfolding detect_periodic_job_def detect_frequent_query_def detect_strategy_deviation_def Let_def case_prod_beta
  by (simp_all only: if_distrib [of wm_records] pattern_records tick_records if_cancel)

lemma learn_records [simp]: "wm_records (learn_patterns r m) = wm_records m"
  by (simp add: learn_patterns_def)

lemma estimate_hash [simp]: "pl_intent_hash (estimate_cost e pipeline p) = pl_intent_hash p"
  by (simp add: estimate_cost_def scan_cost_def Let_def split: list.split)

lemma plan_hash [simp]: "pl_intent_hash (plan freed m e intent) = in_description intent"
  by (simp add: plan_def plan_from_memory_def plan_anew_def new_plan_def Let_def)

lemma execute_ran: "\<exists>r. ran intent x (snd (execute what freed intent x)) r"
  by (auto simp: ran_def execute_def record_execution_def update_profiles_def record_exec_def now_ms_def Let_def split: prod.split)

lemma served_signed: "served x \<Longrightarrow> signed (px_memory x)"
proof (induction rule: served.induct)
  case (run x what freed intent)
  then show ?case using execute_ran [of intent x what freed] by (auto simp: signed_def ran_def)
qed (simp_all add: signed_def executor_new_def memory_new_def)

lemma stats_recorded:
  "fold add_stat rs stats = stats' \<Longrightarrow> s \<in> snd ` set stats' \<Longrightarrow> s \<in> snd ` set stats \<or> (\<exists>r \<in> set rs. st_strategy s = er_planned_strategy r)"
proof (induction rs arbitrary: stats)
  case (Cons r rs)
  have "s \<in> snd ` set (add_stat r stats) \<Longrightarrow> s \<in> snd ` set stats \<or> st_strategy s = er_planned_strategy r"
    unfolding add_stat_def Let_def by (auto dest!: subsetD [OF set_omap_put])
  moreover have "fold add_stat rs (add_stat r stats) = stats'" using Cons.prems(1) by simp
  note Cons.IH [OF this Cons.prems(2)]
  ultimately show ?case by auto
qed simp

lemma best_of_in: "best_of b ss = Some s \<Longrightarrow> b = Some s \<or> s \<in> set ss"
  by (induction b ss rule: best_of.induct) (fastforce split: option.splits if_splits)+

lemma best_strategy_signature:
  assumes "signed m" "get_best_strategy m hash = Some st"
  shows "\<exists>p. st_strategy st = pipeline_signature p"
proof -
  have "st \<in> snd ` set (strategy_stats m hash)"
    using assms(2) best_of_in [of None "map snd (strategy_stats m hash)" st] by (simp add: get_best_strategy_def)
  then show ?thesis
    using assms(1) stats_recorded [OF refl, of st] by (fastforce simp: strategy_stats_def signed_def)
qed

lemma best_of_some: "best_of b ss = None \<Longrightarrow> b = None \<and> ss = []"
  by (induction b ss rule: best_of.induct) (auto split: option.splits if_splits)

lemma stats_not_empty: "stats \<noteq> [] \<or> rs \<noteq> [] \<Longrightarrow> fold add_stat rs stats \<noteq> []"
proof (induction rs arbitrary: stats)
  case (Cons r rs)
  have "add_stat r stats \<noteq> []" by (cases stats; cases "hd stats") (simp_all add: add_stat_def Let_def split: prod.split)
  with Cons show ?case by simp
qed simp

lemma best_strategy_exists: "r \<in> set (wm_records m) \<Longrightarrow> \<exists>st. get_best_strategy m (er_intent_hash r) = Some st"
proof -
  assume "r \<in> set (wm_records m)"
  then have "filter (\<lambda>q. er_intent_hash q = er_intent_hash r) (wm_records m) \<noteq> []" by (auto simp: filter_empty_conv)
  then have "strategy_stats m (er_intent_hash r) \<noteq> []" using stats_not_empty [of "[]"] by (simp add: strategy_stats_def)
  then show ?thesis
    using best_of_some [of None "map snd (strategy_stats m (er_intent_hash r))"]
    by (cases "get_best_strategy m (er_intent_hash r)") (simp_all add: get_best_strategy_def)
qed

section \<open>A table with an index\<close>

text \<open>The table \<open>t\<close> with one row, \<open>a = 5\<close>, and an index on \<open>a\<close> that names the row.\<close>

definition indexed_engine :: "Tuple \<Rightarrow> Engine" where
  "indexed_engine t = sample_table\<lparr>e_data := [(''defaultdb.public.t'', mt_put 1 t 1 (mt_new ''defaultdb.public.t''))],
     e_indexes := [(''defaultdb.public.t'', [\<lparr>ix_column = ''a'', ix_entries = [(''5'', [1])]\<rparr>])]\<rparr>"

definition sample_select :: SelectStmt where
  "sample_select = \<lparr>sel_columns = [], sel_from = ''t'', sel_where = Some (BinaryOp ''='' (ColumnRef ''a'') (Literal (VInt 5)))\<rparr>"

lemma indexed_engine_read:
  "resolve_table_name (indexed_engine t) ''t'' = ''defaultdb.public.t''"
  "take_snapshot (indexed_engine t) = (Inr (get_snapshot init_tm), indexed_engine t)"
  using qualify_sample_table
  by (simp_all add: indexed_engine_def resolve_table_name_def take_snapshot_def sample_table_members init_tm_def init_context_def)

lemma indexed_engine_rows:
  assumes "make_tuple ''defaultdb.public.t'' 1 [(''a'', VInt 5)] = Inr t"
  shows "get_latest (mt_put 1 t 1 (mt_new ''defaultdb.public.t'')) = [1 \<mapsto> t]"
    and "scan_all (mt_put 1 t 1 (mt_new ''defaultdb.public.t'')) = [t]"
    and "tuple_to_row_for_visibility t = Inr (shown_row ''defaultdb.public.t'' 1 [(''a'', VInt 5)])"
proof -
  have sane: "sane_row [(''a'', VInt 5)]"
    by (simp add: sane_row_def omap_ok_def user_columns_def is_system_column_def)
  note t = make_tuple_shows [OF assms sane]
  show latest: "get_latest (mt_put 1 t 1 (mt_new ''defaultdb.public.t'')) = [1 \<mapsto> t]"
    by (simp add: get_latest_put_fresh [OF mt_wf_new] t(4))
  show "scan_all (mt_put 1 t 1 (mt_new ''defaultdb.public.t'')) = [t]"
    by (simp add: mt_put_eq scan_all_def mt_new_def t(4))
  show "tuple_to_row_for_visibility t = Inr (shown_row ''defaultdb.public.t'' 1 [(''a'', VInt 5)])" by (rule t(1))
qed

lemma indexed_row:
  "map_of (shown_row q 1 [(''a'', VInt 5)]) ''a'' = Some (VInt 5)" "in_snapshot snap e (shown_row q 1 [(''a'', VInt 5)])"
proof -
  show "map_of (shown_row q 1 [(''a'', VInt 5)]) ''a'' = Some (VInt 5)"
    by (simp add: shown_row_def map_of_put_system is_system_column_def user_columns_def)
  show "in_snapshot snap e (shown_row q 1 [(''a'', VInt 5)])"
    using row_int_system(2) [of "header_from_row q 1 [(''a'', VInt 5)]" "user_columns [(''a'', VInt 5)]"]
    by (simp add: in_snapshot_def check_tuple_visibility_def row_xid_def shown_row_def header_from_row_def row_int_def [of "[_]"] Let_def)
qed

section \<open>Properties\<close>

text \<open>C15: Evaluation follows the types the operators promise: over a row whose cells have their column's type or are
  NULL, an expression evaluates to NULL or to a value of the type inferred for it, and a comparison or a
  connective is never NULL.\<close>

theorem eval_type:
  assumes "row_typed cols r"
  shows "has_type (eval_expression e r) (infer cols e) \<and>
    (opn \<in> comparisons \<longrightarrow> eval_expression (BinaryOp opn e e') r \<noteq> VNull)"
  using eval_infer [OF assms] comparison_bool [of opn "eval_expression e r" "eval_expression e' r"] by auto

lemma eval_type_witness:
  "has_type (eval_expression (BinaryOp ''+'' (ColumnRef ''a'') (Literal (VInt 1))) [(''a'', VInt 5)]) (Some TyInt) \<and>
   eval_expression (BinaryOp ''<'' (ColumnRef ''b'') (Literal (VInt 1))) [(''a'', VInt 5)] \<noteq> VNull"
proof -
  have typed: "row_typed (\<lambda>c. if c = ''a'' then Some TyInt else None) [(''a'', VInt 5)]"
    by (simp add: row_typed_def has_type_def)
  show ?thesis
    using eval_type [OF typed, of "BinaryOp ''+'' (ColumnRef ''a'') (Literal (VInt 1))"]
      eval_type [OF typed, of "ColumnRef ''b''" "''<''" "Literal (VInt 1)"]
    by (simp add: comparisons_def)
qed

text \<open>C4: Whatever strategy is chosen that is no index scan, the pipeline built for a SELECT computes selection and
  projection over the rows of the table that are visible in the snapshot, and reports the error of the scan
  otherwise; the tables are left as they were.\<close>

theorem select_by_scan:
  assumes "\<not> has_prefix INDEX_SCAN_PREFIX strategy"
  shows "\<exists>snap tm. take_snapshot e = (Inr snap, set_tm tm e) \<and>
    execute_pipeline (build_pipeline e (Select s) strategy) e =
      (map_sum id query_result (select_rows (set_tm tm e) snap s), set_tm tm e)"
proof -
  obtain snap tm where snap: "take_snapshot e = (Inr snap, set_tm tm e)" using take_snapshot_total by blast
  then show ?thesis
    using run_full_scan [OF snap, of s] assms by (auto simp: build_without_index split: sum.split)
qed

lemma select_by_scan_witness:
  "\<exists>snap tm. execute_pipeline (build_pipeline sample_table (Select sample_select) ''full_scan'') sample_table =
     (map_sum id query_result (select_rows (set_tm tm sample_table) snap sample_select), set_tm tm sample_table)"
  using select_by_scan [of "''full_scan''" sample_table sample_select] by (auto simp: has_prefix_def INDEX_SCAN_PREFIX_def)

text \<open>C27: A plan through an index returns nothing, as long as every row an entry of the index names still has the value of the entry
  (\<open>index_accurate\<close>, which an index loses when an update of its column fails half-way): the planner hands the literal of
  \<open>c = literal\<close> over as the text it has in SQL, the executor compares its quoted form with the keys of the index, and
  whatever rows it meets there the filter of the same query drops. The same query without the index finds the row (witness).\<close>

theorem index_plan_finds_nothing:
  assumes "choose_initial_strategy e (Select s) = INDEX_SCAN_PREFIX @ c"
    and "sel_where s = Some w" "extract_eq_value w c \<noteq> []"
    and "index_accurate e (resolve_table_name e (sel_from s)) c"
  shows "\<exists>e'. execute_pipeline (build_pipeline e (Select s) (choose_initial_strategy e (Select s))) e = (Inr (query_result []), e')"
proof -
  obtain snap tm where "take_snapshot e = (Inr snap, set_tm tm e)" using take_snapshot_total by blast
  from run_index_scan [OF this assms(2,3)] assms(1,4) show ?thesis by (auto simp: index_accurate_def)
qed

lemma index_plan_finds_nothing_witness:
  "\<exists>t e'. choose_initial_strategy (indexed_engine t) (Select sample_select) = ''index_scan:a'' \<and>
     execute_pipeline (build_pipeline (indexed_engine t) (Select sample_select) ''index_scan:a'') (indexed_engine t) = (Inr (query_result []), e') \<and>
     (\<exists>r. select_rows (indexed_engine t) (get_snapshot init_tm) sample_select = Inr [r] \<and> map_of r ''a'' = Some (VInt 5))"
proof -
  obtain p where "row_encode [(''a'', VInt 5)] = Inr p"
    using row_encode_total [of "[(''a'', VInt 5)]"] by (auto simp: row_fits_def user_columns_def is_system_column_def)
  then obtain t where t: "make_tuple ''defaultdb.public.t'' 1 [(''a'', VInt 5)] = Inr t"
    by (auto simp: make_tuple_def row_to_tuple_def)
  note rows = indexed_engine_rows [OF t]
  have found: "find_index (indexed_engine t) q c = (if q = ''defaultdb.public.t'' \<and> c = ''a''
      then Some \<lparr>ix_column = ''a'', ix_entries = [(''5'', [1])]\<rparr> else None)" for q c
    by (auto simp: find_index_def indexed_engine_def)
  have five: "int64_to_string 5 = ''5''" by code_simp
  have strategy: "choose_initial_strategy (indexed_engine t) (Select sample_select) = INDEX_SCAN_PREFIX @ ''a''"
    by (simp add: choose_initial_strategy_def sample_select_def has_index_def found indexed_engine_read)
  have accurate: "index_accurate (indexed_engine t) ''defaultdb.public.t'' ''a''"
    unfolding index_accurate_def index_candidates_def found
    by (auto simp: indexed_engine_def rows map_filter_simps indexed_row five)
  have "select_rows (indexed_engine t) (get_snapshot init_tm) sample_select =
      Inr [shown_row ''defaultdb.public.t'' 1 [(''a'', VInt 5)]]"
    by (simp add: select_rows_def table_rows_def sample_select_def indexed_engine_read)
      (simp add: indexed_engine_def materialize_all_def rows indexed_row where_true_def binary_op_def select_columns_def)
  then show ?thesis
    using index_plan_finds_nothing [OF strategy, of "BinaryOp ''='' (ColumnRef ''a'') (Literal (VInt 5))"] accurate strategy indexed_row(1)
    by (auto simp: sample_select_def indexed_engine_read five INDEX_SCAN_PREFIX_def)
qed

text \<open>C26: A plan built from the workload memory never uses an index: in a memory that started empty and was filled by the executor
  only, once it knows a SELECT twice, the SELECT is planned as a full scan whatever indexes there are, since what the
  executor records as the strategy of an execution is the signature of its pipeline, which is not the name of a strategy.
  The planner reads that text through a pointer to a destroyed object; this is about the case that it still reads the
  stored text.\<close>

theorem memory_plan_never_index:
  fixes intent :: UnifiedIntent
  assumes "served x" "get_best_strategy (px_memory x) (in_description intent) = Some st" "in_statement intent = Select s"
    and "2 \<le> length (find_similar (px_memory x) (in_description intent) (category_of_plan intent) (in_tables intent))"
  shows "pl_pipeline (plan (st_strategy st) (px_memory x) (px_engine x) intent) = full_scan s"
  using best_strategy_signature [OF served_signed [OF assms(1)] assms(2)] signature_not_index assms(2-4)
  by (auto simp: plan_def plan_from_memory_def Let_def build_without_index)

definition sample_intent :: UnifiedIntent where
  "sample_intent = \<lparr>in_category = QUERY, in_raw_input = [], in_tables = [''t''], in_description = ''q'',
     in_statement = Select sample_select, in_is_write = False\<rparr>"

lemma memory_plan_never_index_witness:
  "\<exists>e st. has_index e ''t'' ''a'' \<and> pl_pipeline (plan st
      (px_memory (snd (execute (\<lambda>_. []) [] sample_intent (snd (execute (\<lambda>_. []) [] sample_intent
        (executor_new e (memory_new (\<lambda>_. 0)) (\<lambda>_. 0))))))) e sample_intent) = full_scan sample_select"
proof -
  let ?run = "\<lambda>x. snd (execute (\<lambda>_. []) [] sample_intent x)"
  define x0 where "x0 = executor_new (indexed_engine undefined) (memory_new (\<lambda>_. 0)) (\<lambda>_. 0)"
  obtain r1 where r1: "ran sample_intent x0 (?run x0) r1" using execute_ran by blast
  obtain r2 where r2: "ran sample_intent (?run x0) (?run (?run x0)) r2" using execute_ran by blast
  let ?x = "?run (?run x0)\<lparr>px_engine := indexed_engine undefined\<rparr>"
  have recs: "wm_records (px_memory ?x) = [r1, r2]"
    using r1 r2 by (simp add: ran_def x0_def executor_new_def memory_new_def)
  have "served ?x" unfolding x0_def by (intro served.intros)
  moreover obtain st where st: "get_best_strategy (px_memory ?x) ''q'' = Some st"
    using best_strategy_exists [of r1 "px_memory ?x"] r1 recs by (auto simp: ran_def sample_intent_def)
  moreover have "2 \<le> length (find_similar (px_memory ?x) ''q'' ''query'' [''t''])"
    unfolding find_similar_def recs using r1 r2 by (simp add: ran_def sample_intent_def record_category_def)
  ultimately have "pl_pipeline (plan (st_strategy st) (px_memory ?x) (px_engine ?x) sample_intent) = full_scan sample_select"
    using memory_plan_never_index [of ?x sample_intent st sample_select] by (simp add: sample_intent_def category_of_plan_def)
  moreover have "has_index (indexed_engine undefined) ''t'' ''a''"
    by (simp add: has_index_def indexed_engine_read find_index_def) (simp add: indexed_engine_def)
  ultimately show ?thesis by (auto simp: x0_def)
qed

end
