(* ===== verification/Insert_Effect.thy ===== *)
theory Insert_Effect
  imports Rollback
begin

text \<open>
  What \<open>insert_with_txn\<close> adds: whether it returns or throws, the rows that were stored before are still stored and the
  XID of the transaction stays; when it returns, the row it returns is stored under that XID.
\<close>

section \<open>The XID and the rows\<close>

definition open_xid :: "Engine \<Rightarrow> TransactionId" where
  "open_xid e = cx_xid (ctx (e_tm e))"

abbreviation rows_in :: "Engine \<Rightarrow> store" where
  "rows_in e \<equiv> rows_of (e_data e)"

definition content_inv :: "(store \<Rightarrow> TransactionId \<Rightarrow> bool) \<Rightarrow> Engine \<Rightarrow> bool" where
  "content_inv P e \<longleftrightarrow> P (rows_in e) (open_xid e)"

lemma content_frame [simp]:
  "content_inv P (e\<lparr>e_wal := w\<rparr>) = content_inv P e" "content_inv P (e\<lparr>e_wal_seq := s\<rparr>) = content_inv P e"
  "content_inv P (e\<lparr>e_disk := d\<rparr>) = content_inv P e" "content_inv P (e\<lparr>e_clock := c\<rparr>) = content_inv P e"
  "content_inv P (set_indexes q ixs e) = content_inv P e" "content_inv P (refresh_row_count q e) = content_inv P e"
  "content_inv P (set_row_id q i e) = content_inv P e"
  by (simp_all add: content_inv_def open_xid_def set_indexes_def set_row_id_def refresh_row_count_def split: option.split)

lemma log_frame_content [simp]: "log_frame (content_inv P)"
  by (simp add: log_frame_def)

lemma content_set_tm: "cx_xid (ctx t) = open_xid e \<Longrightarrow> content_inv P (set_tm t e) = content_inv P e"
  by (simp add: content_inv_def open_xid_def set_tm_def)

lemma xid_kept [simp]:
  "cx_xid (ctx (register_siread k t)) = cx_xid (ctx t)" "cx_xid (ctx (add_undo_record rec t)) = cx_xid (ctx t)"
  by (simp_all add: register_siread_def add_undo_record_def set_context_def split: option.split)

lemma keeps_content [keeps_intros]:
  "keeps (content_inv P) (tm_do (register_siread k))" "keeps (content_inv P) (tm_do (add_undo_record rec))"
  "keeps (content_inv P) (modM (refresh_row_count q))" "keeps (content_inv P) (update_indexes q i r)"
  unfolding tm_do_def update_indexes_def
  by (rule keeps_modM, simp add: content_set_tm open_xid_def split: option.split)+

lemma keeps_content_check [keeps_intros]: "keeps (content_inv P) (insert_pk_check q xid snap cid v cols tups)"
  unfolding insert_pk_check_def register_siread_row_def
  by (auto intro!: keeps_intros split: bool.split option.split)

lemma assign_xid_result:
  "assign_xid t = (Inr x, t') \<Longrightarrow> cx_xid (ctx t') = x \<and> (cx_xid (ctx t) \<noteq> InvalidTransactionId \<longrightarrow> x = cx_xid (ctx t))"
  "assign_xid t = (Inl err, t') \<Longrightarrow> cx_xid (ctx t') = cx_xid (ctx t)"
  by (auto simp: assign_xid_def allocate_xid_def maybe_anti_wraparound_def freeze_old_xids_def set_context_def Let_def
    split: if_splits prod.splits sum.splits)

section \<open>Rows that stay\<close>

text \<open>Every row of \<open>R\<close> is still there and an XID once assigned is kept.\<close>

definition later :: "store \<Rightarrow> TransactionId \<Rightarrow> store \<Rightarrow> TransactionId \<Rightarrow> bool" where
  "later R x R' x' \<longleftrightarrow> (\<forall>q i t. R q i = Some t \<longrightarrow> R' q i = Some t) \<and> (x \<noteq> InvalidTransactionId \<longrightarrow> x' = x)"

text \<open>The row \<open>v\<close> is stored in table \<open>q\<close> as inserted by the current transaction and not deleted.\<close>

definition stored_row :: "string \<Rightarrow> row \<Rightarrow> store \<Rightarrow> TransactionId \<Rightarrow> bool" where
  "stored_row q v R x \<longleftrightarrow> (\<exists>t r. R q (h_row_id (hdr t)) = Some t \<and> tuple_to_row_for_visibility t = Inr r \<and>
     user_columns r = user_columns v \<and> row_int r ''_rowid'' = row_int v ''_rowid'' \<and>
     row_xid r ''_xmin'' \<in> {InvalidTransactionId, x} \<and> row_xid r ''_xmax'' = InvalidTransactionId)"

lemma later_refl: "later R x R x"
  by (simp add: later_def)

lemma later_trans: "later R x R' x' \<Longrightarrow> later R' x' R'' x'' \<Longrightarrow> later R x R'' x''"
  by (auto simp: later_def)

lemma stored_row_later: "stored_row q v R x \<Longrightarrow> later R x R' x' \<Longrightarrow> stored_row q v R' x'"
  unfolding stored_row_def later_def by (cases "x = InvalidTransactionId") (simp; blast)+

lemma row_xid_shown:
  "row_xid (put_system_columns h r) ''_xmin'' = h_xmin h" "row_xid (put_system_columns h r) ''_xmax'' = h_xmax h"
proof -
  have pos: "0 <s (ucast x :: u64) \<longleftrightarrow> x \<noteq> 0" for x :: u32
  proof -
    have "uint (ucast x :: u64) = uint x" by (rule uint_up_ucast) (simp add: is_up)
    moreover have "uint x < 2 ^ 32" using uint_bounded [of x] by simp
    moreover have "- (2 ^ 63) \<le> uint x" by (rule order_trans [of _ 0]) simp_all
    ultimately have "sint (ucast x :: u64) = uint x" unfolding sint_uint by (simp add: signed_take_bit_int_eq_self_iff)
    then show ?thesis by (simp add: word_sless_alt word_neq_0_conv word_less_def)
  qed
  show "row_xid (put_system_columns h r) ''_xmin'' = h_xmin h" "row_xid (put_system_columns h r) ''_xmax'' = h_xmax h"
    by (auto simp: row_xid_def pos InvalidTransactionId_def ucast_down_ucast_id is_down)
qed

section \<open>The phases of an insertion\<close>

text \<open>Nothing is stored yet under the new row id, or the new row is: \<open>R\<close> and \<open>x\<close> are the rows and the XID at the start.\<close>

definition before_put :: "store \<Rightarrow> TransactionId \<Rightarrow> string \<Rightarrow> u64 \<Rightarrow> (TransactionId \<Rightarrow> bool) \<Rightarrow> Engine \<Rightarrow> bool" where
  "before_put R x q i X e \<longleftrightarrow> fresh_at q i e \<and> content_inv (\<lambda>R' x'. R' = R \<and> later R x R' x' \<and> X x') e"

abbreviation kept :: "store \<Rightarrow> TransactionId \<Rightarrow> Engine \<Rightarrow> bool" where
  "kept R x \<equiv> content_inv (later R x)"

definition inserted :: "store \<Rightarrow> TransactionId \<Rightarrow> string \<Rightarrow> row \<Rightarrow> Engine \<Rightarrow> bool" where
  "inserted R x q v = content_inv (\<lambda>R' x'. later R x R' x' \<and> stored_row q v R' x')"

lemma content_mono: "content_inv P e \<Longrightarrow> (\<And>R x. P R x \<Longrightarrow> Q R x) \<Longrightarrow> content_inv Q e"
  by (simp add: content_inv_def)

lemma before_put_kept: "before_put R x q i X e \<Longrightarrow> kept R x e"
  unfolding before_put_def by (auto elim: content_mono)

lemma hoare_before_put:
  assumes "keeps (fresh_at q i) m" "\<And>P. keeps (content_inv P) m"
  shows "hoare (before_put R x q i X) m (\<lambda>_. before_put R x q i X) (kept R x)"
proof -
  have "keeps (before_put R x q i X) m" unfolding before_put_def [abs_def] by (intro keeps_conj assms)
  then show ?thesis by (rule hoare_keeps) (simp_all add: before_put_kept)
qed

lemma hoare_assign_xid: "hoare (before_put R x q i X) assign_xid_m (\<lambda>xid. before_put R x q i (\<lambda>x'. x' = xid)) (kept R x)"
  unfolding hoare_def
proof (intro allI impI)
  fix e
  assume e: "before_put R x q i X e"
  obtain res t where t: "assign_xid (e_tm e) = (res, t)" by fastforce
  have fresh: "fresh_at q i (snd (assign_xid_m e))" using e keepsD [OF keeps_fresh(1)] by (simp add: before_put_def)
  show "case assign_xid_m e of (Inl x', e') \<Rightarrow> kept R x e' | (Inr xid, e') \<Rightarrow> before_put R x q i (\<lambda>x'. x' = xid) e'"
  proof (cases res)
    case (Inl err)
    have "assign_xid_m e = (Inl (TxnErr err), set_tm t e)" using t Inl by (simp add: assign_xid_m_def)
    moreover have "kept R x (set_tm t e)"
      using before_put_kept [OF e] assign_xid_result(2) [OF t [unfolded Inl]] by (simp add: content_set_tm open_xid_def)
    ultimately show ?thesis by simp
  next
    case (Inr xid)
    note x = assign_xid_result(1) [OF t [unfolded Inr]]
    have m: "assign_xid_m e = (Inr xid, set_tm t e)" using t Inr by (simp add: assign_xid_m_def)
    have "rows_in e = R" "later R x (rows_in e) (open_xid e)" using e unfolding before_put_def content_inv_def by blast+
    then have "content_inv (\<lambda>R' x'. R' = R \<and> later R x R' x' \<and> x' = xid) (set_tm t e)"
      using x by (auto simp: content_inv_def open_xid_def set_tm_def later_def)
    with fresh m show ?thesis by (simp add: before_put_def)
  qed
qed

lemma hoare_put_inserted:
  assumes "sane_row v" "row_int v ''_rowid'' = Some i" "row_int v ''_xmin'' = Some (ucast xid)" "row_int v ''_xmax'' = Some 0"
  shows "hoare (before_put R x q i (\<lambda>x'. x' = xid)) (put_row q i v) (\<lambda>_. inserted R x q v) (kept R x)"
proof (rule hoare_assume)
  fix e
  assume e: "before_put R x q i (\<lambda>x'. x' = xid) e"
  let ?e = "snd (put_row q i v e)"
  have td: "omap_ok (e_data e)" "has_key (e_data e) q" "mt_wf q (table_data q e)" "get_latest (table_data q e) i = None"
    using e inv_table [of e q] by (auto simp: before_put_def fresh_at_def table_inv_def engine_inv_def)
  have at: "rows_in e = R" "open_xid e = xid" "later R x (rows_in e) (open_xid e)"
    using e unfolding before_put_def content_inv_def by blast+
  have "rows_in e q i = None" by (simp add: rows_of_table td(4))
  with at have start: "rows_in e = R" "open_xid e = xid" "x \<noteq> InvalidTransactionId \<Longrightarrow> xid = x" "R q i = None"
    by (simp_all add: later_def)
  have same: "open_xid ?e = open_xid e"
    by (cases "make_tuple q i v") (simp_all add: put_row_def throw_def modM_def Let_def open_xid_def set_data_def)
  show "hoare (\<lambda>x. x = e) (put_row q i v) (\<lambda>_. inserted R x q v) (kept R x)"
  proof (cases "make_tuple q i v")
    case (Inl err)
    then have "put_row q i v e = (Inl (RowErr err), e)" by (simp add: put_row_def bindM_def liftM_def throw_def)
    with e before_put_kept show ?thesis by (auto simp: hoare_def)
  next
    case (Inr t)
    note tup = make_tuple_shows [OF Inr assms(1)]
    obtain mt where "e_data ?e = omap_put q mt (e_data e)" "get_latest mt = (get_latest (table_data q e))(i := Some (stored t))"
      using put_row_effect(3) [OF td(3,4), of v] Inr by auto
    then have rows: "rows_in ?e = set_row q i (Some t) R"
      using rows_of_put [OF td(1,2), of mt "mt_new q" i "Some (stored t)"] tup(4) start(1) by (simp add: table_data_def)
    have ok: "omap_ok v" using assms(1) by (simp add: sane_row_def)
    have "row_xid (shown_row q i v) ''_xmin'' = xid" "row_xid (shown_row q i v) ''_xmax'' = InvalidTransactionId"
      "row_int (shown_row q i v) ''_rowid'' = Some i"
      using assms by (simp_all add: shown_row_def row_xid_shown header_from_row_def InvalidTransactionId_def ucast_down_ucast_id is_down)
    then have "stored_row q v (rows_in ?e) xid"
      unfolding stored_row_def rows using tup(1,2) ok assms(2) by (intro exI [of _ t] exI [of _ "shown_row q i v"]) simp
    moreover have "later R x (rows_in ?e) xid" using start(3,4) by (auto simp: later_def rows)
    ultimately have "inserted R x q v ?e" using same start(2) by (simp add: inserted_def content_inv_def)
    moreover have "fst (put_row q i v e) = Inr ()" using Inr by (simp add: put_row_def bindM_def liftM_def modM_def ret_def)
    ultimately show ?thesis by (cases "put_row q i v e") (simp add: hoare_def)
  qed
qed

lemma hoare_inserted_rest:
  "hoare (inserted R x q v) (seqM (update_indexes q i v) (seqM (modM (refresh_row_count q)) (seqM maybe_checkpoint (ret v))))
     (\<lambda>v. inserted R x q v) (kept R x)"
proof -
  have step: "hoare (inserted R x q v) m (\<lambda>_. inserted R x q v) (kept R x)" if "\<And>P. keeps (content_inv P) m" for m :: "unit meth"
    using that [of "\<lambda>R' x'. later R x R' x' \<and> stored_row q v R' x'"]
    by (rule hoare_keeps) (auto simp: inserted_def elim: content_mono)
  show ?thesis
    by (intro hoare_seq [OF step] hoare_ret; (intro keeps_intros)?; simp)
qed

text \<open>The whole statement.\<close>

lemma insert_with_txn_effect:
  assumes "engine_inv e" "row_id_of (resolve_table_name e table) e \<noteq> 2 ^ 63 - 1" "sane_schema table e"
  shows "hoare (\<lambda>e'. e' = e) (insert_with_txn table r) (inserted (rows_in e) (open_xid e) (resolve_table_name e table))
    (kept (rows_in e) (open_xid e))"
  unfolding insert_with_txn_def
proof (rule hoare_get, goal_cases)
  case (1 e0)
  let ?q = "resolve_table_name e table" and ?R = "rows_in e" and ?x = "open_xid e"
  let ?i = "row_id_of ?q e + 1"
  have here: "kept ?R ?x e" by (simp add: content_inv_def later_refl)
  show ?case
  proof (rule hoare_assume, goal_cases)
    case (1 e1)
    then have e: "e0 = e" "e1 = e" by auto
    show ?case
    proof (cases "map_of (e_tables e) ?q")
      case (Some schema)
      show ?thesis
      proof (cases "validate e schema r")
        case (Inr v)
        let ?v = "\<lambda>xid tm. omap_put ''_cid'' (VInt (scast (cx_command_id (ctx tm)))) (omap_put ''_xmax'' (VInt 0)
                    (omap_put ''_xmin'' (VInt (ucast (xid :: TransactionId))) (omap_put ''_rowid'' (VInt ?i) v)))"
        have sane: "sane_row (?v xid tm)" for xid tm
          using sane_validated [OF Inr] assms(3) Some by (simp add: sane_schema_def is_system_column_def)
        have cells: "row_int (?v xid tm) ''_rowid'' = Some ?i" "row_int (?v xid tm) ''_xmin'' = Some (ucast xid)"
          "row_int (?v xid tm) ''_xmax'' = Some 0" for xid tm by (simp_all add: row_int_put)
        have q: "has_key (e_data e) ?q" by (rule schema_has_data [OF assms(1) Some])
        have "fresh_at ?q ?i (set_row_id ?q ?i e)" by (rule fresh_row_id [OF assms(1) q assms(2)])
        then have "before_put ?R ?x ?q ?i (\<lambda>_. True) (set_row_id ?q ?i e)"
          by (simp add: before_put_def) (simp add: content_inv_def later_refl)
        then have start: "hoare (\<lambda>x. x = e) (modM (set_row_id ?q ?i)) (\<lambda>_. before_put ?R ?x ?q ?i (\<lambda>_. True)) (kept ?R ?x)"
          by (auto intro: hoare_mod)
        have undo: "hoare (before_put ?R ?x ?q ?i X) (tm_do (add_undo_record rec)) (\<lambda>_. before_put ?R ?x ?q ?i X) (kept ?R ?x)"
          if "u_table_name rec = ?q" "u_row_id rec = ?i" for rec X
          using that by (intro hoare_before_put keeps_content) (auto simp: fresh_at_def intro!: keeps_add_undo)
        have body: "hoare (before_put ?R ?x ?q ?i (\<lambda>_. True)) (bindM assign_xid_m (\<lambda>xid. bindM (getM e_tm) (\<lambda>tm.
            seqM (insert_pk_check ?q xid (get_snapshot tm) (cx_command_id (ctx tm)) (?v xid tm) cols tups)
            (seqM (tm_do (add_undo_record \<lparr>u_op = UndoInsert, u_table_name = ?q, u_row_id = ?i, u_old_row = [], u_new_row = ?v xid tm\<rparr>))
             (seqM (write_wal kInsert ?q (pl xid tm) xid) (seqM (put_row ?q ?i (?v xid tm)) (seqM (update_indexes ?q ?i (?v xid tm))
              (seqM (modM (refresh_row_count ?q)) (seqM maybe_checkpoint (ret (?v xid tm)))))))))))
          (inserted ?R ?x ?q) (kept ?R ?x)" for cols tups pl
          by (intro hoare_bind [OF hoare_assign_xid] hoare_bind [OF hoare_before_put] hoare_seq [OF hoare_before_put [OF keeps_fresh(3)]]
              hoare_seq [OF undo] hoare_seq [OF hoare_before_put [OF keeps_fresh(2)]] hoare_seq [OF hoare_put_inserted [OF sane cells]]
              hoare_inserted_rest keeps_intros) simp_all
        show ?thesis using hoare_seq [OF start body] Some Inr by (simp add: Let_def e)
      qed (use Some here in \<open>auto simp: Let_def e intro: hoare_throw\<close>)
    qed (use here in \<open>auto simp: e intro: hoare_throw\<close>)
  qed
qed

end
