(* ===== verification/Sessions.thy ===== *)
theory Sessions
  imports Server Query_Plans Insert_Effect
begin

text \<open>
  Whole sessions at the server: what a client's statements do to the database when they run in a transaction block,
  when they fail, and when they come from the natural language front end.
\<close>

section \<open>What statements on rows leave alone\<close>

definition shape :: "Engine \<Rightarrow> string \<Rightarrow> ColumnDef list option" where
  "shape e q = map_option ts_columns (map_of (e_tables e) q)"

definition block_state :: "Engine \<Rightarrow> TBlockState" where
  "block_state e = cx_block_state (ctx (e_tm e))"

text \<open>A condition on the columns of the tables, the catalog, the state of the transaction block and the row counters.\<close>

definition outer_inv :: "((string \<Rightarrow> ColumnDef list option) \<Rightarrow> Catalog \<Rightarrow> TBlockState \<Rightarrow> (string \<Rightarrow> u64) \<Rightarrow> bool) \<Rightarrow> Engine \<Rightarrow> bool" where
  "outer_inv P e \<longleftrightarrow> P (shape e) (e_catalog e) (block_state e) (\<lambda>q. row_id_of q e)"

lemma outer_frame [simp]:
  "outer_inv P (e\<lparr>e_wal := w\<rparr>) = outer_inv P e" "outer_inv P (e\<lparr>e_wal_seq := s\<rparr>) = outer_inv P e"
  "outer_inv P (e\<lparr>e_disk := d\<rparr>) = outer_inv P e" "outer_inv P (e\<lparr>e_clock := c\<rparr>) = outer_inv P e"
  "outer_inv P (set_indexes q ixs e) = outer_inv P e" "outer_inv P (set_data q mt e) = outer_inv P e"
  by (simp_all add: outer_inv_def shape_def [abs_def] block_state_def row_id_of_def set_indexes_def set_data_def)

lemma outer_row_count [simp]: "outer_inv P (refresh_row_count q e) = outer_inv P e"
proof -
  have "shape (refresh_row_count q e) = shape e"
    by (rule ext) (simp add: shape_def refresh_row_count_def split: option.split)
  then show ?thesis
    by (simp add: outer_inv_def block_state_def row_id_of_def) (simp add: refresh_row_count_def split: option.split)
qed

lemma outer_set_tm: "cx_block_state (ctx t) = block_state e \<Longrightarrow> outer_inv P (set_tm t e) = outer_inv P e"
  by (simp add: outer_inv_def shape_def [abs_def] block_state_def row_id_of_def set_tm_def)

lemma log_frame_outer [simp]: "log_frame (outer_inv P)"
  by (simp add: log_frame_def)

lemma block_kept [simp]:
  "cx_block_state (ctx (register_siread k t)) = cx_block_state (ctx t)" "cx_block_state (ctx (register_write k t)) = cx_block_state (ctx t)"
  "cx_block_state (ctx (add_undo_record rec t)) = cx_block_state (ctx t)"
  by (simp_all add: register_siread_def register_write_def add_undo_record_def set_context_def split: option.split)

lemma assign_xid_block: "assign_xid t = (r, t') \<Longrightarrow> cx_block_state (ctx t') = cx_block_state (ctx t)"
  by (auto simp: assign_xid_def allocate_xid_def maybe_anti_wraparound_def freeze_old_xids_def set_context_def Let_def
    split: if_splits prod.splits)

lemma keeps_outer [keeps_intros]:
  "keeps (outer_inv P) (tm_do (register_siread k))" "keeps (outer_inv P) (tm_do (register_write k))"
  "keeps (outer_inv P) (tm_do (add_undo_record rec))" "keeps (outer_inv P) (modM (refresh_row_count q))"
  "keeps (outer_inv P) (update_indexes q i r)" "keeps (outer_inv P) (erase_rows q i)"
  unfolding tm_do_def update_indexes_def erase_rows_def
  by (rule keeps_modM, simp add: outer_set_tm block_state_def split: option.split)+

lemma keeps_outer_xid [keeps_intros]: "keeps (outer_inv P) assign_xid_m"
proof (rule keepsI)
  fix e
  assume e: "outer_inv P e"
  obtain res t where t: "assign_xid (e_tm e) = (res, t)" by fastforce
  with e assign_xid_block [OF t] show "outer_inv P (snd (assign_xid_m e))"
    by (cases res) (simp_all add: assign_xid_m_def outer_set_tm block_state_def)
qed

lemma keeps_outer_put [keeps_intros]: "keeps (outer_inv P) (put_row q i r)"
  unfolding put_row_def Let_def by (intro keeps_intros keeps_modM) simp

lemma keeps_outer_replace [keeps_intros]: "keeps (outer_inv P) (replace_row q i r)"
  unfolding replace_row_def by (intro keeps_intros)

lemma keeps_outer_rebuild [keeps_intros]: "keeps (outer_inv P) (rebuild_indexes t)"
  unfolding rebuild_indexes_def
  by (rule keeps_get) (auto simp: seqM_def bindM_def modM_def ret_def throw_def case_prod_beta split: option.split)

lemma keeps_outer_loops [keeps_intros]:
  "keeps (outer_inv P) (register_siread_row q r)" "keeps (outer_inv P) (insert_pk_check q xid snap cid v cols tups)"
  "keeps (outer_inv P) (update_pk_check q i xid snap cid u tups)" "keeps (outer_inv P) (visible_rows q snap xid cid tups)"
  "keeps (outer_inv P) (get_rowid r)" "keeps (outer_inv P) (to_row t)" "keeps (outer_inv P) (visible r xid snap cid)"
proof -
  show s: "keeps (outer_inv P) (register_siread_row q r)" for q r
    unfolding register_siread_row_def by (auto intro: keeps_intros split: option.split)
  show v: "keeps (outer_inv P) (visible r xid snap cid)" for r
    unfolding visible_def by (intro keeps_intros)
  show t: "keeps (outer_inv P) (to_row t)" for t unfolding to_row_def by (intro keeps_intros)
  show g: "keeps (outer_inv P) (get_rowid r)" for r unfolding get_rowid_def by (auto intro!: keeps_intros split: option.split)
  show "keeps (outer_inv P) (insert_pk_check q xid snap cid v cols tups)"
    unfolding insert_pk_check_def by (auto intro!: keeps_intros s v t split: bool.split option.split)
  show "keeps (outer_inv P) (update_pk_check q i xid snap cid u tups)"
    unfolding update_pk_check_def by (auto intro!: keeps_intros v t g split: bool.split option.split)
  show "keeps (outer_inv P) (visible_rows q snap xid cid tups)"
    unfolding visible_rows_def by (auto intro!: keeps_intros s v t)
qed

lemma keeps_outer_statements [keeps_intros]:
  "keeps (outer_inv P) (update_with_txn table matches updates)" "keeps (outer_inv P) (remove_with_txn table matches)"
  "keeps (outer_inv P) (scan_with_snapshot table snap xid cid)" "keeps (outer_inv P) (index_lookup_with_snapshot table column v snap xid cid)"
proof -
  have one: "keeps (outer_inv P) (update_one q xid snap cid updates tups r)" "keeps (outer_inv P) (remove_one q xid cid r)"
    for q xid snap cid updates tups r
    unfolding update_one_def remove_one_def Let_def steps.simps by (intro keeps_intros; simp)+
  have loop: "keeps (outer_inv P) (for_matching xid snap cid matches act tups)" if "\<And>r. keeps (outer_inv P) (act r)" for xid snap cid matches act tups
    unfolding for_matching_def by (auto intro!: keeps_intros that)
  show "keeps (outer_inv P) (update_with_txn table matches updates)" "keeps (outer_inv P) (remove_with_txn table matches)"
    unfolding update_with_txn_def remove_with_txn_def Let_def steps.simps
    by (auto intro!: keeps_intros one loop split: option.split)
  show "keeps (outer_inv P) (scan_with_snapshot table snap xid cid)" "keeps (outer_inv P) (index_lookup_with_snapshot table column v snap xid cid)"
    by (auto simp: scan_with_snapshot_def index_lookup_with_snapshot_def Let_def intro!: keeps_intros split: option.split)
qed

section \<open>Inserting several rows\<close>

definition sane_columns :: "ColumnDef list option \<Rightarrow> bool" where
  "sane_columns cols \<longleftrightarrow> (\<forall>cs. cols = Some cs \<longrightarrow> (\<exists>c \<in> set cs. \<not> is_system_column (cd_name c)) \<and> length cs < 2 ^ 16)"

text \<open>There is room for \<open>k\<close> more row ids in the table.\<close>

definition room :: "nat \<Rightarrow> string \<Rightarrow> Engine \<Rightarrow> bool" where
  "room k table e \<longleftrightarrow> uint (row_id_of (resolve_table_name e table) e) + int k < 2 ^ 63"

definition may_insert :: "nat \<Rightarrow> string \<Rightarrow> Engine \<Rightarrow> bool" where
  "may_insert k table e \<longleftrightarrow> sane_schema table e \<and> room k table e"

lemma may_insert_outer:
  "may_insert k table = outer_inv (\<lambda>sh cat b ids. sane_columns (sh (qualify_table_name cat table)) \<and> uint (ids (qualify_table_name cat table)) + int k < 2 ^ 63)"
  by (auto simp: fun_eq_iff may_insert_def sane_schema_def room_def outer_inv_def sane_columns_def shape_def resolve_table_name_def)

lemma keeps_may_insert_step:
  assumes "may_insert (Suc k) table e"
  shows "may_insert k table (snd (insert_with_txn table r e))"
proof -
  let ?q = "resolve_table_name e table"
  have same: "keeps (may_insert k table) (bindM assign_xid_m (\<lambda>xid. bindM (getM e_tm) (\<lambda>tm. f xid tm)))"
    if "\<And>xid tm. keeps (may_insert k table) (f xid tm)" for f :: "TransactionId \<Rightarrow> TM \<Rightarrow> row meth"
    unfolding may_insert_outer by (intro keeps_intros that [unfolded may_insert_outer])
  have less: "may_insert k table e" using assms by (simp add: may_insert_def room_def)
  show ?thesis
  proof (cases "map_of (e_tables e) ?q")
    case (Some schema)
    show ?thesis
    proof (cases "validate e schema r")
      case (Inr v)
      have "uint (row_id_of ?q e) < 2 ^ 63" using assms by (simp add: may_insert_def room_def)
      then have "uint (row_id_of ?q e + 1) = uint (row_id_of ?q e) + 1" by (simp add: uint_word_arith_bintrs take_bit_int_eq_self)
      then have "may_insert k table (set_row_id ?q (row_id_of ?q e + 1) e)"
        using assms by (auto simp: may_insert_def sane_schema_def room_def set_row_id_def resolve_table_name_def row_id_of_def omap_at_def)
      moreover have "keeps (may_insert k table) (bindM assign_xid_m (\<lambda>xid. bindM (getM e_tm) (\<lambda>tm.
         let cid = cx_command_id (ctx tm); snap = get_snapshot tm;
             v = omap_put ''_cid'' (VInt (scast cid)) (omap_put ''_xmax'' (VInt 0)
                  (omap_put ''_xmin'' (VInt (ucast xid)) (omap_put ''_rowid'' (VInt (row_id_of ?q e + 1)) v)))
         in steps [insert_pk_check ?q xid snap cid v (ts_columns schema) (scan_all (table_data ?q e)),
              tm_do (add_undo_record \<lparr>u_op = UndoInsert, u_table_name = ?q, u_row_id = row_id_of ?q e + 1, u_old_row = [], u_new_row = v\<rparr>),
              write_wal kInsert ?q (wal_encode_insert \<lparr>ip_rowid = row_id_of ?q e + 1, ip_row = v\<rparr>) xid,
              put_row ?q (row_id_of ?q e + 1) v, update_indexes ?q (row_id_of ?q e + 1) v, modM (refresh_row_count ?q), maybe_checkpoint] (ret v))))"
        by (rule same) (auto simp: Let_def may_insert_outer intro!: keeps_intros)
      ultimately show ?thesis
        using Some Inr keepsD by (simp add: insert_with_txn_def bindM_def [of "getM id"] getM_def [of id] Let_def bindM_def [of "liftM _ _"] liftM_def seqM_def
          bindM_def [of "modM _"] modM_def)
    qed (use less Some in \<open>simp add: insert_with_txn_def bindM_def getM_def Let_def liftM_def throw_def\<close>)
  qed (use less in \<open>simp add: insert_with_txn_def bindM_def getM_def Let_def throw_def\<close>)
qed

lemma may_insert_next: "may_insert (Suc k) table e \<Longrightarrow> row_id_of (resolve_table_name e table) e \<noteq> 2 ^ 63 - 1"
proof
  assume "row_id_of (resolve_table_name e table) e = 2 ^ 63 - 1" "may_insert (Suc k) table e"
  then show False by (simp add: may_insert_def room_def)
qed

lemma insert_rows_steps:
  "may_insert (length rows) table e \<Longrightarrow>
   txn_step\<^sup>*\<^sup>* e (snd (forM rows (\<lambda>r. bindM (insert_with_txn table r) (\<lambda>_. ret ())) e))"
proof (induction rows arbitrary: e)
  case (Cons r rows)
  let ?m = "bindM (insert_with_txn table r) (\<lambda>_. ret ())"
  have snd_m: "snd (?m e) = snd (insert_with_txn table r e)"
    by (simp add: bindM_def ret_def split: prod.split sum.split)
  have step: "txn_step e (snd (insert_with_txn table r e))"
    using Cons.prems may_insert_next [of "length rows" table e] by (intro txn_step.insert) (simp_all add: may_insert_def)
  show ?case
  proof (cases "fst (?m e)")
    case (Inl x)
    then have "snd (forM (r # rows) (\<lambda>r. bindM (insert_with_txn table r) (\<lambda>_. ret ())) e) = snd (?m e)"
      by (cases "?m e") (simp add: seqM_def bindM_def [of ?m])
    with step show ?thesis by (simp add: snd_m r_into_rtranclp)
  next
    case (Inr u)
    then have "snd (forM (r # rows) (\<lambda>r. bindM (insert_with_txn table r) (\<lambda>_. ret ())) e) =
        snd (forM rows (\<lambda>r. bindM (insert_with_txn table r) (\<lambda>_. ret ())) (snd (?m e)))"
      by (cases "?m e") (simp add: seqM_def bindM_def [of ?m])
    moreover have "may_insert (length rows) table (snd (insert_with_txn table r e))"
      using Cons.prems by (intro keeps_may_insert_step) simp
    ultimately show ?thesis
      using Cons.IH step by (simp add: snd_m converse_rtranclp_into_rtranclp)
  qed
qed (simp add: ret_def)

section \<open>One statement in a block\<close>

text \<open>The statements on rows, with the conditions under which rows stay storable: room for the new row ids, a column
  of its own in every table, and fewer than 65536 columns in a row.\<close>

definition statement_ok :: "Engine \<Rightarrow> Statement \<Rightarrow> bool" where
  "statement_ok e stmt \<longleftrightarrow> (case stmt of
     Select _ \<Rightarrow> True
   | Insert i \<Rightarrow> may_insert (length (ins_values i)) (ins_table i) e
   | Update u \<Rightarrow> narrow (upd_table u) (literal_updates (upd_sets u)) e
   | Delete _ \<Rightarrow> True
   | _ \<Rightarrow> False)"

lemma snd_bind_ret: "snd (bindM m (\<lambda>x. ret (f x)) e) = snd (m e)"
  by (simp add: bindM_def ret_def split: prod.split sum.split)

lemma take_snapshot_step: "txn_step e (snd (take_snapshot e))"
proof (cases "cx_isolation (ctx (e_tm e)) = ReadCommitted \<or> \<not> is_in_transaction (e_tm e)")
  case True
  have "set_tm (e_tm e) e = e" by (simp add: set_tm_def)
  with True txn_step.manager [of "e_tm e" e] show ?thesis by (simp add: take_snapshot_def undo_records_def)
next
  case False
  then have "snd (take_snapshot e) = set_tm (snd (get_transaction_snapshot (e_tm e))) e"
    by (simp add: take_snapshot_def Let_def case_prod_beta)
  then show ?thesis
    using txn_step.manager [of "snd (get_transaction_snapshot (e_tm e))" e]
    by (simp add: get_transaction_snapshot_def set_context_def undo_records_def Let_def split: if_splits)
qed

lemma run_op_step: "op_type opr \<in> {SCAN, INDEX_SCAN, FILTER, PROJECT} \<Longrightarrow> txn_step\<^sup>*\<^sup>* e (snd (run_op snap xid cid opr rows e))"
  using r_into_rtranclp [of txn_step, OF txn_step.scan_snapshot] r_into_rtranclp [of txn_step, OF txn_step.lookup_snapshot]
  by (auto simp: run_op_def ret_def)

lemma foldM_steps:
  assumes "\<And>x a e. x \<in> set xs \<Longrightarrow> R\<^sup>*\<^sup>* e (snd (f x a e))"
  shows "R\<^sup>*\<^sup>* e (snd (foldM f xs a e))"
  using assms
proof (induction xs arbitrary: a e)
  case (Cons x xs)
  have first: "R\<^sup>*\<^sup>* e (snd (f x a e))" using Cons.prems by simp
  show ?case
  proof (cases "fst (f x a e)")
    case (Inl y)
    with first show ?thesis by (cases "f x a e") (simp add: bindM_def)
  next
    case (Inr b)
    have "R\<^sup>*\<^sup>* (snd (f x a e)) (snd (foldM f xs b (snd (f x a e))))" using Cons by simp
    with first Inr show ?thesis by (cases "f x a e") (simp add: bindM_def)
  qed
qed (simp add: ret_def)

lemma bind_steps: "R\<^sup>*\<^sup>* e (snd (m e)) \<Longrightarrow> (\<And>v e. R\<^sup>*\<^sup>* e (snd (f v e))) \<Longrightarrow> R\<^sup>*\<^sup>* e (snd (bindM m f e))"
  by (cases "m e"; cases "fst (m e)") (auto simp: bindM_def intro: rtranclp_trans)

lemma select_pipeline_steps:
  assumes "pipeline = opr # ops" "\<forall>p \<in> set pipeline. op_type p \<in> {SCAN, INDEX_SCAN, FILTER, PROJECT}"
  shows "txn_step\<^sup>*\<^sup>* e (snd (execute_pipeline pipeline e))"
proof -
  have "\<not> standalone_op (op_type opr)" using assms by (auto simp: standalone_op_def)
  moreover have "txn_step\<^sup>*\<^sup>* e (snd (foldM (run_op snap xid cid) pipeline [] e))" for snap xid cid e
    using assms(2) run_op_step by (intro foldM_steps) auto
  ultimately show ?thesis
    using assms(1) take_snapshot_step
    by (auto simp: execute_pipeline_def simp del: foldM.simps intro!: bind_steps simp: getM_def ret_def)
qed

lemma build_select: "\<exists>opr ops. build_pipeline e (Select s) strategy = opr # ops \<and>
    (\<forall>p \<in> set (build_pipeline e (Select s) strategy). op_type p \<in> {SCAN, INDEX_SCAN, FILTER, PROJECT})"
  by (auto simp: build_pipeline_def source_op_def filter_op_def project_op_def new_op_def Let_def split: option.splits if_splits)

lemma planned_pipeline: "\<exists>strategy. pl_pipeline (plan freed m e intent) = build_pipeline e (in_statement intent) strategy"
  by (auto simp: plan_def plan_from_memory_def plan_anew_def Let_def)

lemma pipeline_steps:
  assumes "statement_ok e stmt"
  shows "txn_step\<^sup>*\<^sup>* e (snd (execute_pipeline (build_pipeline e stmt strategy) e))"
proof (cases stmt)
  case (Select s)
  then show ?thesis using build_select [of e s strategy] select_pipeline_steps by metis
next
  case (Insert i)
  then have may: "may_insert (length (map (values_row (insert_columns e i)) (ins_values i))) (ins_table i) e"
    using assms by (simp add: statement_ok_def)
  have "execute_pipeline (build_pipeline e stmt strategy) = seqM
      (forM (map (values_row (insert_columns e i)) (ins_values i)) (\<lambda>r. bindM (insert_with_txn (ins_table i) r) (\<lambda>_. ret ())))
      (ret (result_of (length (ins_values i)) (rows_message txt_insert (length (ins_values i)))))"
    by (simp add: Insert build_pipeline_def execute_pipeline_def standalone_op_def new_op_def execute_standalone_def Let_def)
  with insert_rows_steps [OF may] show ?thesis by (simp add: seqM_def snd_bind_ret)
next
  case (Update u)
  then show ?thesis using assms
    by (auto simp: statement_ok_def build_pipeline_def execute_pipeline_def standalone_op_def new_op_def execute_standalone_def Let_def
      snd_bind_ret intro!: r_into_rtranclp txn_step.update)
next
  case (Delete d)
  then show ?thesis
    by (auto simp: build_pipeline_def execute_pipeline_def standalone_op_def new_op_def execute_standalone_def Let_def
      snd_bind_ret intro!: r_into_rtranclp txn_step.remove)
qed (use assms in \<open>simp_all add: statement_ok_def\<close>)

lemma block_outer: "block_state e = b \<longleftrightarrow> outer_inv (\<lambda>sh cat b' ids. b' = b) e"
  by (simp add: outer_inv_def)

lemma keeps_outer_insert: "keeps (outer_inv (\<lambda>sh cat b ids. P cat b)) (insert_with_txn table r)"
proof -
  have row_id: "keeps (outer_inv (\<lambda>sh cat b ids. P cat b)) (modM (set_row_id q i))" for q i
    by (rule keeps_modM) (simp add: outer_inv_def block_state_def set_row_id_def)
  show ?thesis
    unfolding insert_with_txn_def Let_def steps.simps
    by (auto intro!: keeps_intros row_id split: option.split)
qed

lemma keeps_block_insert: "keeps (outer_inv (\<lambda>sh cat b' ids. b' = b)) (insert_with_txn table r)"
  by (rule keeps_outer_insert)

lemma keeps_block_select:
  "\<forall>p \<in> set pipeline. op_type p \<in> {SCAN, INDEX_SCAN, FILTER, PROJECT} \<Longrightarrow> pipeline = opr # ops \<Longrightarrow>
   keeps (outer_inv (\<lambda>sh cat b' ids. b' = b)) (execute_pipeline pipeline)"
proof -
  assume a: "\<forall>p \<in> set pipeline. op_type p \<in> {SCAN, INDEX_SCAN, FILTER, PROJECT}" and p: "pipeline = opr # ops"
  have snap: "keeps (outer_inv (\<lambda>sh cat b' ids. b' = b)) take_snapshot"
  proof (rule keepsI)
    fix e
    assume "outer_inv (\<lambda>sh cat b' ids. b' = b) e"
    then show "outer_inv (\<lambda>sh cat b' ids. b' = b) (snd (take_snapshot e))"
      by (simp add: outer_inv_def block_state_def take_snapshot_def Let_def get_transaction_snapshot_def set_context_def set_tm_def case_prod_beta)
  qed
  have opr: "keeps (outer_inv (\<lambda>sh cat b' ids. b' = b)) (run_op snap xid cid p rows)" if "p \<in> set pipeline" for snap xid cid p rows
    using a that by (auto simp: run_op_def intro!: keeps_intros)
  have "\<not> standalone_op (op_type opr)" using a p by (auto simp: standalone_op_def)
  then show ?thesis using p opr by (auto simp: execute_pipeline_def simp del: foldM.simps intro!: keeps_intros snap)
qed

lemma pipeline_block:
  assumes "statement_ok e stmt"
  shows "block_state (snd (execute_pipeline (build_pipeline e stmt strategy) e)) = block_state e"
proof -
  have "keeps (outer_inv (\<lambda>sh cat b' ids. b' = block_state e)) (execute_pipeline (build_pipeline e stmt strategy))"
  proof (cases stmt)
    case (Select s)
    then show ?thesis using build_select [of e s strategy] keeps_block_select by metis
  qed (use assms in \<open>auto simp: statement_ok_def build_pipeline_def execute_pipeline_def standalone_op_def new_op_def execute_standalone_def
      Let_def intro!: keeps_intros keeps_block_insert\<close>)
  from keepsD [OF this, of e] show ?thesis using block_outer [of e "block_state e"] block_outer [of _ "block_state e"] by simp
qed

section \<open>Statements at the server\<close>

definition in_block :: "Engine \<Rightarrow> bool" where
  "in_block e \<longleftrightarrow> block_state e \<in> {BEGIN, INPROGRESS}"

lemma srv_engine_set [simp]: "srv_engine (set_engine e s) = e"
  by (simp add: srv_engine_def set_engine_def)

lemma execute_engine:
  "\<exists>strategy. px_engine (snd (execute what freed intent x)) =
     snd (execute_pipeline (build_pipeline (px_engine x) (in_statement intent) strategy) (px_engine x))"
proof -
  obtain strategy where "pl_pipeline (plan freed (px_memory x) (px_engine x) intent) = build_pipeline (px_engine x) (in_statement intent) strategy"
    using planned_pipeline by blast
  then show ?thesis
    by (auto simp: execute_def record_execution_def update_profiles_def now_ms_def Let_def case_prod_beta intro!: exI [of _ strategy])
qed

lemma commit_command_in_block:
  assumes "in_block e"
  shows "\<exists>t. commit_transaction_command (e_tm e) = Inr t \<and> cx_undo_records (ctx t) = undo_records e \<and> cx_block_state (ctx t) = INPROGRESS"
  using assms
  by (auto simp: in_block_def block_state_def commit_transaction_command_def set_block_state_def command_counter_increment_def
    set_context_def undo_records_def)

text \<open>A planned statement: its pipeline runs after the start command, and the commit command follows whatever happened.\<close>

definition started :: "Server \<Rightarrow> Engine" where
  "started s = set_tm (start_transaction_command (e_tm (srv_engine s))) (srv_engine s)"

lemma run_planned_result:
  fixes intent :: UnifiedIntent
  shows "\<exists>strategy pl rs s'. let (r, e1) = execute_pipeline (build_pipeline (started s) (in_statement intent) strategy) (started s);
     done = commit_transaction_command (e_tm e1) in
     run_planned tx intent s = (case done of Inl x \<Rightarrow> Inl (TxnErr x) | Inr _ \<Rightarrow> Inr [result_json pl rs], s') \<and>
     srv_engine s' = (case done of Inl _ \<Rightarrow> e1 | Inr t \<Rightarrow> set_tm t e1) \<and>
     rs_message rs = (case r of Inl err \<Rightarrow> txt_error @ tx_engine tx err | Inr res \<Rightarrow> rs_message res) \<and>
     rs_affected_rows rs = (case r of Inl err \<Rightarrow> 0 | Inr res \<Rightarrow> rs_affected_rows res)"
proof -
  let ?s0 = "set_engine (started s) s"
  let ?pl = "plan (srv_freed s 0) (px_memory (srv_executor s)) (started s) intent"
  obtain strategy where p: "pl_pipeline ?pl = build_pipeline (started s) (in_statement intent) strategy"
    using planned_pipeline by blast
  obtain r e1 where r: "execute_pipeline (build_pipeline (started s) (in_statement intent) strategy) (started s) = (r, e1)" by fastforce
  have start: "on_engine (tm_do start_transaction_command) s = (Inr (), ?s0)"
    by (simp add: on_engine_def tm_do_def modM_def started_def)
  obtain rs x where x: "execute (tx_engine tx) (srv_freed s 0) intent (srv_executor ?s0) =
      (\<lparr>xr_results = [rs], xr_plan = ?pl, xr_intent = intent\<rparr>, x)" "px_engine x = e1"
    "rs_message rs = (case r of Inl err \<Rightarrow> txt_error @ tx_engine tx err | Inr res \<Rightarrow> rs_message res)"
    "rs_affected_rows rs = (case r of Inl err \<Rightarrow> 0 | Inr res \<Rightarrow> rs_affected_rows res)"
    using p r
    by (simp add: execute_def record_execution_def update_profiles_def now_ms_def Let_def case_prod_beta set_engine_def result_of_def
      split: sum.split)
  have "srv_freed ?s0 = srv_freed s" by (simp add: set_engine_def)
  moreover have "srv_engine (?s0\<lparr>srv_executor := x, srv_freed := f\<rparr>) = px_engine x" for f by (simp add: srv_engine_def)
  ultimately show ?thesis
    using start x r
    by (intro exI [of _ strategy] exI [of _ ?pl] exI [of _ rs])
      (cases "commit_transaction_command (e_tm e1)"; simp add: run_planned_def run_executor_def on_engine_def tm_try_def)
qed

lemma run_planned_in_block:
  fixes intent :: UnifiedIntent
  assumes "in_block (srv_engine s)" "statement_ok (srv_engine s) (in_statement intent)"
  shows "\<exists>js s'. run_planned tx intent s = (Inr js, s') \<and> txn_step\<^sup>*\<^sup>* (srv_engine s) (srv_engine s') \<and> in_block (srv_engine s')"
proof -
  let ?e = "srv_engine s"
  have "set_tm (start_transaction_command (e_tm ?e)) ?e = ?e"
    using assms(1) by (auto simp: in_block_def block_state_def start_transaction_command_def set_tm_def)
  then have start: "on_engine (tm_do start_transaction_command) s = (Inr (), s)"
    by (simp add: on_engine_def tm_do_def modM_def) (simp add: set_engine_def srv_engine_def)
  obtain r x where x: "execute (tx_engine tx) (srv_freed s 0) intent (srv_executor s) = (r, x)" by fastforce
  obtain strategy where e1: "px_engine x = snd (execute_pipeline (build_pipeline ?e (in_statement intent) strategy) ?e)"
    using execute_engine [of "tx_engine tx" "srv_freed s 0" intent "srv_executor s"] x by (auto simp: srv_engine_def)
  have steps: "txn_step\<^sup>*\<^sup>* ?e (px_engine x)" "block_state (px_engine x) = block_state ?e"
    using pipeline_steps [OF assms(2)] pipeline_block [OF assms(2)] e1 by simp_all
  then obtain t where t: "commit_transaction_command (e_tm (px_engine x)) = Inr t" "cx_undo_records (ctx t) = undo_records (px_engine x)"
    "cx_block_state (ctx t) = INPROGRESS"
    using commit_command_in_block [of "px_engine x"] assms(1) by (auto simp: in_block_def)
  then have "txn_step\<^sup>*\<^sup>* ?e (set_tm t (px_engine x))" using steps(1) by (meson rtranclp.rtrancl_into_rtrancl txn_step.manager)
  moreover have "in_block (set_tm t (px_engine x))" using t(3) by (simp add: in_block_def block_state_def set_tm_def)
  moreover have "srv_engine (s\<lparr>srv_executor := x, srv_freed := f\<rparr>) = px_engine x" for f by (simp add: srv_engine_def)
  ultimately show ?thesis
    using start x t(1) by (auto simp: run_planned_def run_executor_def on_engine_def tm_try_def)
qed

lemma run_statement_in_block:
  assumes "in_block (srv_engine s)" "statement_ok (srv_engine s) stmt"
  shows "\<exists>js s'. run_statement tx input stmt s = (Inr js, s') \<and> txn_step\<^sup>*\<^sup>* (srv_engine s) (srv_engine s') \<and> in_block (srv_engine s')"
proof -
  have "run_statement tx input stmt s = run_planned tx (sql_intent input stmt) s"
    using assms(2) by (cases stmt) (simp_all add: statement_ok_def run_statement_def run_direct_def)
  moreover have "in_statement (sql_intent input stmt) = stmt" by (simp add: sql_intent_def case_prod_beta)
  ultimately show ?thesis using run_planned_in_block [OF assms(1), of "sql_intent input stmt"] assms(2) by simp
qed

fun block_ok :: "Texts \<Rightarrow> string \<Rightarrow> Statement list \<Rightarrow> Server \<Rightarrow> bool" where
  "block_ok tx input [] s = True"
| "block_ok tx input (stmt # stmts) s = (statement_ok (srv_engine s) stmt \<and> block_ok tx input stmts (snd (run_statement tx input stmt s)))"

lemma run_statements_in_block:
  "in_block (srv_engine s) \<Longrightarrow> block_ok tx input stmts s \<Longrightarrow>
   \<exists>js s'. run_statements tx input stmts s = (Inr js, s') \<and> txn_step\<^sup>*\<^sup>* (srv_engine s) (srv_engine s') \<and> in_block (srv_engine s')"
proof (induction stmts arbitrary: s)
  case (Cons stmt stmts)
  obtain js s1 where s1: "run_statement tx input stmt s = (Inr js, s1)" "txn_step\<^sup>*\<^sup>* (srv_engine s) (srv_engine s1)" "in_block (srv_engine s1)"
    using run_statement_in_block [OF Cons.prems(1), of stmt tx input] Cons.prems(2) by auto
  then obtain js' s2 where "run_statements tx input stmts s1 = (Inr js', s2)" "txn_step\<^sup>*\<^sup>* (srv_engine s1) (srv_engine s2)" "in_block (srv_engine s2)"
    using Cons.IH [of s1] Cons.prems(2) by auto
  with s1 show ?case by (auto intro: rtranclp_trans)
qed simp

lemma run_statements_append:
  "run_statements tx input (stmts @ stmts') s = (case run_statements tx input stmts s of (Inl e, s) \<Rightarrow> (Inl e, s)
     | (Inr js, s) \<Rightarrow> (case run_statements tx input stmts' s of (Inl e, s) \<Rightarrow> (Inl e, s) | (Inr js', s) \<Rightarrow> (Inr (js @ js'), s)))"
  by (induction stmts arbitrary: s) (auto split: prod.split sum.split)

text \<open>BEGIN outside of a block, and ROLLBACK after any steps of the transaction.\<close>

lemma run_begin:
  assumes "engine_inv (srv_engine s)" "block_state (srv_engine s) = DEFAULT"
  shows "\<exists>s0. run_statement tx input BeginTransaction s = (Inr [message_result ''txn_result'' ''BEGIN''], s0) \<and>
    engine_inv (srv_engine s0) \<and> e_data (srv_engine s0) = e_data (srv_engine s) \<and> undo_records (srv_engine s0) = [] \<and> in_block (srv_engine s0)"
proof -
  let ?t = "set_block_state BEGIN (fresh_transaction (e_tm (srv_engine s)))"
  have "begin_transaction_block (e_tm (srv_engine s)) = Inr ?t"
    using assms(2) by (simp add: begin_transaction_block_def block_state_def Let_def)
  moreover have "engine_inv (set_tm ?t (srv_engine s))"
    using assms(1) by (intro inv_set_tm) (simp_all add: set_block_state_def fresh_transaction_def set_context_def)
  ultimately show ?thesis
    by (simp add: run_statement_def run_direct_def run_begin_def on_engine_def seqM_def bindM_def tm_try_def ret_def srv_engine_def set_engine_def)
      (simp add: set_tm_def undo_records_def in_block_def block_state_def set_block_state_def fresh_transaction_def set_context_def)
qed

lemma log_frame_undoing: "log_frame (undoing V n)"
  by (simp add: log_frame_def undoing_def)

lemma undoing_all: "undoing V 0 e \<Longrightarrow> \<exists>e'. apply_undo e = (Inr (), e') \<and> engine_inv e' \<and> rows_of (e_data e') = V"
  using undoing_end [of V 0 e] by (simp add: apply_undo_def bindM_def getM_def undo_records_def)

lemma run_rollback:
  assumes "undoing V 0 (srv_engine s)"
  shows "\<exists>s'. run_statement tx input RollbackTransaction s = (Inr [message_result ''txn_result'' ''ROLLBACK''], s') \<and>
    engine_inv (srv_engine s') \<and> rows_of (e_data (srv_engine s')) = V \<and> block_state (srv_engine s') = DEFAULT"
proof -
  let ?m = "whenM (current_xid (srv_engine s) \<noteq> 0) (write_xact_abort (current_xid (srv_engine s)))"
  have "fst (?m (srv_engine s)) = Inr ()" by (simp add: whenM_def write_xact_abort_def write_wal_def modM_def ret_def)
  then obtain e1 where e1: "?m (srv_engine s) = (Inr (), e1)" by (metis prod.collapse)
  have "keeps (undoing V 0) ?m"
    unfolding write_xact_abort_def by (intro keeps_intros log_frame_undoing)
  from keepsD [OF this assms] e1 have "undoing V 0 e1" by simp
  then obtain e2 where e2: "apply_undo e1 = (Inr (), e2)" "engine_inv e2" "rows_of (e_data e2) = V" using undoing_all by blast
  let ?t = "reset_context (abort_transaction (e_tm e2))"
  have "engine_inv (set_tm ?t e2)" using e2(2) by (intro inv_set_tm) (simp_all add: reset_context_def set_context_def)
  moreover have "set_tm ?t (set_tm (abort_transaction (e_tm e2)) e2) = set_tm ?t e2" by (simp add: set_tm_def)
  ultimately show ?thesis
    using e1 e2
    by (simp add: run_statement_def run_direct_def run_rollback_def on_engine_def seqM_def bindM_def getM_def tm_do_def modM_def ret_def
        srv_engine_def set_engine_def)
      (simp add: set_tm_def block_state_def reset_context_def set_context_def)
qed

section \<open>Reading changes nothing\<close>

definition only_tm :: "Engine \<Rightarrow> Engine \<Rightarrow> bool" where
  "only_tm e0 e \<longleftrightarrow> (\<exists>tm. e = set_tm tm e0)"

lemma only_tm_refl: "only_tm e e"
  unfolding only_tm_def by (intro exI [of _ "e_tm e"]) (simp add: set_tm_def)

lemma only_tm_set: "only_tm e0 e \<Longrightarrow> only_tm e0 (set_tm t e)"
  by (auto simp: only_tm_def set_tm_def)

lemma keeps_only_tm:
  "keeps (only_tm e0) take_snapshot" "keeps (only_tm e0) (scan_with_snapshot table snap xid cid)"
  "keeps (only_tm e0) (index_lookup_with_snapshot table column v snap xid cid)"
proof -
  show "keeps (only_tm e0) take_snapshot"
    by (rule keepsI) (simp add: take_snapshot_def Let_def case_prod_beta only_tm_set)
  have rows: "keeps (only_tm e0) (visible_rows q snap xid cid ts)" for q snap xid cid ts
    by (rule keepsI) (simp add: visible_rows_eq split: sum.split)
  show "keeps (only_tm e0) (scan_with_snapshot table snap xid cid)"
    "keeps (only_tm e0) (index_lookup_with_snapshot table column v snap xid cid)"
    by (auto simp: scan_with_snapshot_def index_lookup_with_snapshot_def Let_def intro!: keeps_intros rows split: option.split)
qed

lemma select_only_tm: "only_tm e (snd (execute_pipeline (build_pipeline e (Select s) strategy) e))"
proof -
  obtain opr ops where p: "build_pipeline e (Select s) strategy = opr # ops"
    and ty: "\<forall>p \<in> set (build_pipeline e (Select s) strategy). op_type p \<in> {SCAN, INDEX_SCAN, FILTER, PROJECT}"
    using build_select [of e s strategy] by blast
  have one: "keeps (only_tm e) (run_op snap xid cid p rows)" if "p \<in> set (build_pipeline e (Select s) strategy)" for snap xid cid p rows
    using ty that by (auto simp: run_op_def intro!: keeps_intros keeps_only_tm)
  have "\<not> standalone_op (op_type opr)" using p ty by (auto simp: standalone_op_def)
  then have "keeps (only_tm e) (execute_pipeline (build_pipeline e (Select s) strategy))"
    using p one by (auto simp: execute_pipeline_def simp del: foldM.simps intro!: keeps_intros keeps_only_tm(1))
  from keepsD [OF this only_tm_refl] show ?thesis .
qed

section \<open>Replay\<close>

definition txn_data :: "WALRecordV3 \<Rightarrow> bool" where
  "txn_data r \<longleftrightarrow> op_of_code (w_op r) \<in> {kInsert, kUpdate, kDelete} \<and> w_xid r \<noteq> InvalidTransactionId"

text \<open>No row change of a transaction stands behind the commit record of the transaction.\<close>

fun data_before_commit :: "CLog \<Rightarrow> WALRecordV3 list \<Rightarrow> bool" where
  "data_before_commit c [] = True"
| "data_before_commit c (r # rs) = ((txn_data r \<longrightarrow> get_status c (w_xid r) \<noteq> COMMITTED) \<and>
     data_before_commit (if op_of_code (w_op r) = kXactCommit \<and> w_xid r \<noteq> InvalidTransactionId then set_status (w_xid r) COMMITTED c
       else if op_of_code (w_op r) = kXactAbort \<and> w_xid r \<noteq> InvalidTransactionId then set_status (w_xid r) ABORTED c else c) rs)"

definition tm_is :: "TM \<Rightarrow> Engine \<Rightarrow> bool" where
  "tm_is t e \<longleftrightarrow> e_tm e = t"

lemma keeps_tm_mod [keeps_intros]: "(\<And>e. e_tm (f e) = e_tm e) \<Longrightarrow> keeps (tm_is t) (modM f)"
  by (rule keeps_modM) (simp add: tm_is_def)

lemma tm_of_members [simp]:
  "e_tm (set_data q mt e) = e_tm e" "e_tm (set_row_id q i e) = e_tm e" "e_tm (set_indexes q ixs e) = e_tm e"
  "e_tm (refresh_row_count q e) = e_tm e" "e_tm (new_members q sch e) = e_tm e" "e_tm (drop_members q e) = e_tm e"
  by (simp_all add: set_data_def set_row_id_def set_indexes_def refresh_row_count_def new_members_def drop_members_def split: option.split)

lemma keeps_tm_index [keeps_intros]: "keeps (tm_is t) (update_indexes q i r)" "keeps (tm_is t) (rebuild_indexes q)"
  "keeps (tm_is t) (create_index q col)"
proof -
  show "keeps (tm_is t) (update_indexes q i r)"
    unfolding update_indexes_def by (intro keeps_intros) (simp split: option.split)
  show "keeps (tm_is t) (rebuild_indexes q)"
    unfolding rebuild_indexes_def
    by (rule keeps_get) (auto simp: seqM_def bindM_def modM_def ret_def throw_def case_prod_beta tm_is_def split: option.split)
  show "keeps (tm_is t) (create_index q col)"
    unfolding create_index_def Let_def by (auto intro!: keeps_intros split: option.split sum.split prod.split)
qed

lemma keeps_tm_rows [keeps_intros]: "keeps (tm_is t) (put_row q i r)" "keeps (tm_is t) (erase_rows q i)" "keeps (tm_is t) (to_row tup)"
  "keeps (tm_is t) (catalog_do f)"
  unfolding put_row_def erase_rows_def to_row_def Let_def
  by ((intro keeps_intros; simp)+) (rule keepsI, simp add: catalog_do_def tm_is_def split: sum.split)

text \<open>Only commit and abort records change the commit log.\<close>

lemma replay_keeps_tm: "op_of_code (w_op r) \<notin> {kXactCommit, kXactAbort} \<Longrightarrow> e_tm (snd (replay_record r e)) = e_tm e"
proof -
  assume "op_of_code (w_op r) \<notin> {kXactCommit, kXactAbort}"
  then have "keeps (tm_is (e_tm e)) (replay_record r)"
    by (auto simp: replay_record_def replay_data_def replay_insert_def replay_update_def replay_delete_def replay_catalog_def
      replay_create_table_def intro!: keeps_intros split: WalOp.splits option.splits)
  from keepsD [OF this, of e] show ?thesis by (simp add: tm_is_def)
qed

lemma replay_outcome:
  "op_of_code (w_op r) = kXactCommit \<Longrightarrow> w_xid r \<noteq> InvalidTransactionId \<Longrightarrow>
   clog (e_tm (snd (replay_record r e))) = set_status (w_xid r) COMMITTED (clog (e_tm e))"
  "op_of_code (w_op r) = kXactAbort \<Longrightarrow> w_xid r \<noteq> InvalidTransactionId \<Longrightarrow>
   clog (e_tm (snd (replay_record r e))) = set_status (w_xid r) ABORTED (clog (e_tm e))"
  "op_of_code (w_op r) \<in> {kXactCommit, kXactAbort} \<Longrightarrow> w_xid r = InvalidTransactionId \<Longrightarrow> replay_record r e = (Inr (), e)"
  by (auto simp: replay_record_def whenM_def clog_set_def tm_do_def modM_def set_tm_def ret_def)

lemma replay_next:
  "clog (e_tm (snd (replay_record r e))) =
     (if op_of_code (w_op r) = kXactCommit \<and> w_xid r \<noteq> InvalidTransactionId then set_status (w_xid r) COMMITTED (clog (e_tm e))
      else if op_of_code (w_op r) = kXactAbort \<and> w_xid r \<noteq> InvalidTransactionId then set_status (w_xid r) ABORTED (clog (e_tm e))
      else clog (e_tm e))"
  using replay_outcome [of r e] replay_keeps_tm [of r e]
  by (cases "op_of_code (w_op r) \<in> {kXactCommit, kXactAbort}"; cases "w_xid r = InvalidTransactionId") auto

text \<open>
  The counter of XIDs is set from the checkpoint before the log is replayed, and replay does not move it: when the log
  records the commit of the next XID, that XID is then given out again and its outcome is overwritten.
\<close>

lemma replayed_xid_given_again:
  assumes "op_of_code (w_op r) = kXactCommit" "w_xid r = next_xid (e_tm e)" "w_xid r \<noteq> InvalidTransactionId"
    and "cx_xid (ctx (e_tm e)) = InvalidTransactionId" "ucast (next_xid (e_tm e)) \<le> XIDFreezeThreshold"
    and "assign_xid (e_tm (snd (replay_record r e))) = (Inr x, t)"
  shows "get_status (clog (e_tm (snd (replay_record r e)))) (w_xid r) = COMMITTED" "x = w_xid r" "get_status (clog t) (w_xid r) = IN_PROGRESS"
proof -
  have "e_tm (snd (replay_record r e)) = (e_tm e)\<lparr>clog := set_status (w_xid r) COMMITTED (clog (e_tm e))\<rparr>"
    using assms(1,3) by (simp add: replay_record_def whenM_def clog_set_def tm_do_def modM_def set_tm_def)
  with assms show "get_status (clog (e_tm (snd (replay_record r e)))) (w_xid r) = COMMITTED" "x = w_xid r" "get_status (clog t) (w_xid r) = IN_PROGRESS"
    by (auto simp: assign_xid_def allocate_xid_def maybe_anti_wraparound_def set_context_def Let_def get_status_set_status split: if_splits)
qed

lemma replay_skips: "txn_data r \<Longrightarrow> get_status (clog (e_tm e)) (w_xid r) \<noteq> COMMITTED \<Longrightarrow> replay_record r e = (Inr (), e)"
  by (auto simp: txn_data_def replay_record_def replay_data_def replayable_def bindM_def getM_def ret_def)

section \<open>Properties\<close>

text \<open>C1: A transaction block that is rolled back leaves no trace: from any sound state outside of a block, BEGIN,
  any SELECT, INSERT, UPDATE and DELETE statements, and ROLLBACK run through the server without an exception,
  whether the statements succeed or fail, and then every table is scanned exactly as before and the session is
  outside of a block again.\<close>

theorem session_rollback:
  assumes "engine_inv (srv_engine s)" "data_canonical (e_data (srv_engine s))" "block_state (srv_engine s) = DEFAULT"
    and "block_ok tx input stmts (snd (run_statement tx input BeginTransaction s))"
  shows "\<exists>js s'. run_statements tx input (BeginTransaction # stmts @ [RollbackTransaction]) s = (Inr js, s') \<and>
    (\<forall>q. scan_all (table_data q (srv_engine s')) = scan_all (table_data q (srv_engine s))) \<and>
    block_state (srv_engine s') = DEFAULT"
proof -
  obtain s0 where s0: "run_statement tx input BeginTransaction s = (Inr [message_result ''txn_result'' ''BEGIN''], s0)"
    "engine_inv (srv_engine s0)" "e_data (srv_engine s0) = e_data (srv_engine s)" "undo_records (srv_engine s0) = []" "in_block (srv_engine s0)"
    using run_begin [OF assms(1,3)] by blast
  obtain js s1 where s1: "run_statements tx input stmts s0 = (Inr js, s1)" "txn_step\<^sup>*\<^sup>* (srv_engine s0) (srv_engine s1)"
    using run_statements_in_block [OF s0(5), of tx input stmts] assms(4) s0(1) by auto
  have "undoing (rows_of (e_data (srv_engine s))) 0 (srv_engine s1)"
    using undoing_steps [OF s1(2)] undoing_start [OF s0(2)] assms(2) s0(3,4) by simp
  then obtain s2 where "run_statement tx input RollbackTransaction s1 = (Inr [message_result ''txn_result'' ''ROLLBACK''], s2)"
    "engine_inv (srv_engine s2)" "rows_of (e_data (srv_engine s2)) = rows_of (e_data (srv_engine s))" "block_state (srv_engine s2) = DEFAULT"
    using run_rollback by blast
  with s0(1) s1(1) same_rows_same_scan [OF _ assms(1)] show ?thesis
    by (auto simp: run_statements_append)
qed

definition sample_server :: "Engine \<Rightarrow> Server" where
  "sample_server e = \<lparr>srv_executor = executor_new e (memory_new (\<lambda>_. 0)) (\<lambda>_. 0),
     srv_nl = \<lparr>nl_api_key = [], nl_api_base = [], nl_model = []\<rparr>, srv_running = True, srv_memory_file = None,
     srv_clock = (\<lambda>_. 0), srv_salts = (\<lambda>_. []), srv_freed = (\<lambda>_. [])\<rparr>"

definition sample_texts :: Texts where
  "sample_texts = \<lparr>tx_engine = (\<lambda>_. ''error''), tx_parser = (\<lambda>_. []), tx_lexer = (\<lambda>_. []), tx_nl = (\<lambda>_. [])\<rparr>"

lemma engine_of_sample [simp]: "srv_engine (sample_server e) = e"
  by (simp add: sample_server_def srv_engine_def executor_new_def)

lemma sample_begins:
  "srv_engine (snd (run_statement tx input BeginTransaction (sample_server sample_table))) =
     set_tm (set_block_state BEGIN (fresh_transaction init_tm)) sample_table"
  by (simp add: run_statement_def run_direct_def run_begin_def on_engine_def seqM_def bindM_def tm_try_def ret_def set_engine_def
      begin_transaction_block_def sample_table_members init_tm_def init_context_def Let_def)
    (simp add: srv_engine_def)

lemma session_rollback_witness:
  "\<exists>js s'. run_statements sample_texts [] [BeginTransaction, Insert \<lparr>ins_table = ''t'', ins_columns = [''a''], ins_values = [[VInt 5]]\<rparr>,
      RollbackTransaction] (sample_server sample_table) = (Inr js, s') \<and>
    (\<forall>q. scan_all (table_data q (srv_engine s')) = scan_all (table_data q sample_table)) \<and> block_state (srv_engine s') = DEFAULT"
proof -
  have "block_ok sample_texts [] [Insert \<lparr>ins_table = ''t'', ins_columns = [''a''], ins_values = [[VInt 5]]\<rparr>]
      (snd (run_statement sample_texts [] BeginTransaction (sample_server sample_table)))"
    by (simp add: sample_begins statement_ok_def may_insert_def room_def sane_schema_def set_tm_def resolve_table_name_def
      sample_table_members qualify_table_name_def new_catalog_def row_id_of_def omap_at_def sample_column_def is_system_column_def)
  with session_rollback [of "sample_server sample_table" sample_texts "[]"
      "[Insert \<lparr>ins_table = ''t'', ins_columns = [''a''], ins_values = [[VInt 5]]\<rparr>]"] sample_table_ready
  show ?thesis by (simp add: block_state_def sample_table_members init_tm_def init_context_def)
qed

text \<open>C11: A SELECT never changes the database, whatever plan it runs by, inside or outside of a transaction block: at
  most the state of the transaction manager is different afterwards.\<close>

theorem select_is_read_only:
  "\<exists>t. srv_engine (snd (run_statement tx input (Select q) s)) = set_tm t (srv_engine s)"
proof -
  let ?e = "srv_engine s" and ?i = "sql_intent input (Select q)"
  let ?e0 = "set_tm (start_transaction_command (e_tm ?e)) ?e"
  let ?s0 = "set_engine ?e0 s"
  obtain r x where x: "execute (tx_engine tx) (srv_freed s 0) ?i (srv_executor ?s0) = (r, x)" by fastforce
  have intent: "in_statement ?i = Select q" by (simp add: sql_intent_def case_prod_beta)
  then obtain strategy where "px_engine x = snd (execute_pipeline (build_pipeline ?e0 (Select q) strategy) ?e0)"
    using execute_engine [of "tx_engine tx" "srv_freed s 0" ?i "srv_executor ?s0"] x by (auto simp: set_engine_def)
  then have "only_tm ?e0 (px_engine x)" using select_only_tm by simp
  then have only: "only_tm ?e (px_engine x)" by (auto simp: only_tm_def set_tm_def)
  have start: "on_engine (tm_do start_transaction_command) s = (Inr (), ?s0)"
    by (simp add: on_engine_def tm_do_def modM_def)
  have "srv_freed ?s0 = srv_freed s" by (simp add: set_engine_def)
  moreover have "srv_engine (?s0\<lparr>srv_executor := x, srv_freed := f\<rparr>) = px_engine x" for f by (simp add: srv_engine_def)
  ultimately have "only_tm ?e (srv_engine (snd (run_planned tx ?i s)))"
    using start x only
    by (simp add: run_planned_def run_executor_def on_engine_def tm_try_def only_tm_set split: sum.split)
  then show ?thesis by (auto simp: run_statement_def run_direct_def only_tm_def set_tm_def)
qed

text \<open>C12: Replay loses committed transactions: the log is read in one pass and the changes of a transaction stand before
  its commit record, so for such a log, replay does the same as replay of the log without any of the changes made
  inside of transactions.\<close>

theorem replay_loses_transactions:
  "data_before_commit (clog (e_tm e)) rs \<Longrightarrow>
   forM rs replay_record e = forM (filter (\<lambda>r. \<not> txn_data r) rs) replay_record e"
proof (induction rs arbitrary: e)
  case (Cons r rs)
  obtain res e1 where m: "replay_record r e = (res, e1)" by fastforce
  show ?case
  proof (cases "txn_data r")
    case True
    with Cons.prems have "replay_record r e = (Inr (), e)" by (intro replay_skips) simp_all
    moreover have "data_before_commit (clog (e_tm e)) rs" using Cons.prems True by (auto simp: txn_data_def)
    ultimately show ?thesis using Cons.IH [of e] True by (simp add: seqM_def bindM_def)
  next
    case False
    have "data_before_commit (clog (e_tm e1)) rs" using Cons.prems replay_next [of r e] m by simp
    with Cons.IH [of e1] False m show ?thesis by (simp add: seqM_def bindM_def split: sum.split)
  qed
qed simp

definition sample_log :: "WALRecordV3 list" where
  "sample_log = [\<lparr>w_seq = 1, w_timestamp = 0, w_op = op_code kInsert, w_table = ''defaultdb.public.t'', w_xid = 3,
       w_data = wal_encode_insert \<lparr>ip_rowid = 1, ip_row = [(''a'', VInt 5)]\<rparr>\<rparr>,
     \<lparr>w_seq = 2, w_timestamp = 0, w_op = op_code kXactCommit, w_table = [], w_xid = 3, w_data = []\<rparr>]"

lemma replay_loses_transactions_witness:
  "scan_all (table_data ''defaultdb.public.t'' (snd (forM sample_log replay_record sample_table))) = []"
proof -
  have "data_before_commit (clog (e_tm sample_table)) sample_log"
    by (simp add: sample_log_def sample_table_members txn_data_def init_tm_def get_status_def empty_clog_def InvalidTransactionId_def del: op_code.simps)
  from replay_loses_transactions [OF this] show ?thesis
    by (simp add: sample_log_def txn_data_def InvalidTransactionId_def replay_record_def whenM_def clog_set_def tm_do_def modM_def seqM_def bindM_def ret_def
      table_data_def sample_table_members set_tm_def omap_at_def scan_all_def mt_new_def del: op_code.simps)
qed

lemma forM_append: "forM (xs @ ys) f e = (case forM xs f e of (Inl x, e) \<Rightarrow> (Inl x, e) | (Inr _, e) \<Rightarrow> forM ys f e)"
  by (induction xs arbitrary: e) (auto simp: seqM_def bindM_def ret_def split: prod.split sum.split)

text \<open>Rows inserted one after the other, with what each call returns.\<close>

fun insert_each :: "string \<Rightarrow> row list \<Rightarrow> row list meth" where
  "insert_each table [] = ret []"
| "insert_each table (r # rs) = bindM (insert_with_txn table r) (\<lambda>v. bindM (insert_each table rs) (\<lambda>vs. ret (v # vs)))"

lemma insert_each_ConsD:
  assumes "insert_each table (r # rs) e = (Inr out, e')"
  obtains v vs e1 where "insert_with_txn table r e = (Inr v, e1)" "insert_each table rs e1 = (Inr vs, e')" "out = v # vs"
  using assms by (auto simp: bindM_def ret_def split: prod.splits sum.splits)

lemma insert_each_loop:
  "insert_each table rs e = (Inr out, e') \<Longrightarrow> forM rs (\<lambda>r. bindM (insert_with_txn table r) (\<lambda>_. ret ())) e = (Inr (), e')"
proof (induction rs arbitrary: e out)
  case (Cons r rs)
  from Cons.prems obtain v vs e1 where "insert_with_txn table r e = (Inr v, e1)" "insert_each table rs e1 = (Inr vs, e')"
    by (rule insert_each_ConsD)
  with Cons.IH show ?case by (simp add: seqM_def bindM_def ret_def)
qed (simp add: ret_def)

lemma insert_each_length: "insert_each table rs e = (Inr out, e') \<Longrightarrow> length out = length rs"
proof (induction rs arbitrary: e out)
  case (Cons r rs)
  from Cons.prems obtain v vs e1 where "insert_each table rs e1 = (Inr vs, e')" "out = v # vs" by (rule insert_each_ConsD)
  with Cons.IH show ?case by simp
qed (simp add: ret_def)

lemma insert_catalog:
  "e_catalog (snd (insert_with_txn table r e)) = e_catalog e" "block_state (snd (insert_with_txn table r e)) = block_state e"
  using keepsD [OF keeps_outer_insert [where P = "\<lambda>cat b. cat = e_catalog e \<and> b = block_state e"]] by (simp_all add: outer_inv_def)

text \<open>One row, as the rest of the statement sees it.\<close>

lemma insert_one:
  assumes "engine_inv e" "may_insert (Suc k) table e" "insert_with_txn table r e = (res, e')"
  shows "engine_inv e'" "may_insert k table e'" "resolve_table_name e' table = resolve_table_name e table" "block_state e' = block_state e"
    "later (rows_in e) (open_xid e) (rows_in e') (open_xid e')"
    "res = Inr v \<Longrightarrow> stored_row (resolve_table_name e table) v (rows_in e') (open_xid e')"
proof -
  have room: "row_id_of (resolve_table_name e table) e \<noteq> 2 ^ 63 - 1" "sane_schema table e"
    using may_insert_next [OF assms(2)] assms(2) by (simp_all add: may_insert_def)
  show "engine_inv e'" using hoare_snd [OF insert_with_txn_inv, of e table r] assms(1,3) room(1) by simp
  show "may_insert k table e'" using keeps_may_insert_step [OF assms(2), of r] assms(3) by simp
  show "resolve_table_name e' table = resolve_table_name e table" "block_state e' = block_state e"
    using insert_catalog [of table r e] assms(3) by (simp_all add: resolve_table_name_def)
  have "case res of Inl x \<Rightarrow> kept (rows_in e) (open_xid e) e' | Inr v \<Rightarrow> inserted (rows_in e) (open_xid e) (resolve_table_name e table) v e'"
    using insert_with_txn_effect [OF assms(1) room, of r] assms(3) by (simp add: hoare_def)
  then show "later (rows_in e) (open_xid e) (rows_in e') (open_xid e')"
    "res = Inr v \<Longrightarrow> stored_row (resolve_table_name e table) v (rows_in e') (open_xid e')"
    by (auto simp: content_inv_def inserted_def split: sum.splits)
qed

lemma insert_each_effect:
  "insert_each table rs e = (Inr out, e') \<Longrightarrow> engine_inv e \<Longrightarrow> may_insert (length rs + k) table e \<Longrightarrow>
   engine_inv e' \<and> may_insert k table e' \<and> resolve_table_name e' table = resolve_table_name e table \<and> block_state e' = block_state e \<and>
   later (rows_in e) (open_xid e) (rows_in e') (open_xid e') \<and>
   (\<forall>v \<in> set out. stored_row (resolve_table_name e table) v (rows_in e') (open_xid e'))"
proof (induction rs arbitrary: e out)
  case (Cons r rs)
  from Cons.prems(1) obtain v vs e1 where e1: "insert_with_txn table r e = (Inr v, e1)" "insert_each table rs e1 = (Inr vs, e')" "out = v # vs"
    by (rule insert_each_ConsD)
  note one = insert_one [OF Cons.prems(2) _ e1(1), of "length rs + k"]
  have may: "may_insert (Suc (length rs + k)) table e" using Cons.prems(3) by simp
  note rest = Cons.IH [OF e1(2) one(1) [OF may] one(2) [OF may]]
  from rest one(3-6) [OF may] e1(3) show ?case by (auto intro: later_trans stored_row_later)
qed (simp add: ret_def later_refl)

lemma started_sound:
  assumes "engine_inv (srv_engine s)" "block_state (srv_engine s) = DEFAULT"
  shows "engine_inv (started s)" "e_data (started s) = e_data (srv_engine s)" "block_state (started s) = STARTED"
    "may_insert k table (started s) = may_insert k table (srv_engine s)"
proof -
  show "engine_inv (started s)"
    unfolding started_def using assms
    by (intro inv_set_tm) (auto simp: start_transaction_command_def set_block_state_def fresh_transaction_def set_context_def block_state_def)
qed (use assms(2) in \<open>simp_all add: started_def start_transaction_command_def block_state_def set_block_state_def set_context_def
  set_tm_def may_insert_def sane_schema_def room_def resolve_table_name_def row_id_of_def\<close>)

lemma commit_undo: "commit_transaction t = Inr t' \<Longrightarrow> cx_undo_records (ctx t') = []"
  by (auto simp: commit_transaction_def Let_def end_transaction_def set_context_def split: if_splits)

lemma mapE_total: "\<forall>x \<in> set xs. \<exists>y. f x = Inr y \<Longrightarrow> \<exists>ys. mapE f xs = Inr ys \<and> (\<forall>x y. x \<in> set xs \<longrightarrow> f x = Inr y \<longrightarrow> y \<in> set ys)"
  by (induction xs) auto

text \<open>A row stored by a transaction that commits is seen by every transaction that looks next.\<close>

lemma committed_row_visible:
  assumes "commit_transaction t = Inr t'" "row_xid r ''_xmin'' \<in> {InvalidTransactionId, cx_xid (ctx t)}"
    and "row_xid r ''_xmax'' = InvalidTransactionId" "me \<noteq> cx_xid (ctx t)"
  shows "check_tuple_visibility r me (get_snapshot t') cid (clog t')"
proof (cases "row_xid r ''_xmin'' = InvalidTransactionId")
  case False
  then have x: "row_xid r ''_xmin'' = cx_xid (ctx t)" "cx_xid (ctx t) \<noteq> InvalidTransactionId" using assms(2) by auto
  show ?thesis using commit_outcome [OF assms(1) x(2)] x assms(3,4) by (auto simp: check_tuple_visibility_def Let_def get_snapshot_def)
qed (simp add: check_tuple_visibility_def)

lemma canonical_scan:
  assumes "engine_inv e" "data_canonical (e_data e)" "has_key (e_data e) (resolve_table_name e table)"
  shows "\<exists>rows. fst (scan_with_snapshot table snap me cid e) = Inr (filter (\<lambda>r. check_tuple_visibility r me snap cid (clog (e_tm e))) rows) \<and>
    (\<forall>t r. rows_in e (resolve_table_name e table) (h_row_id (hdr t)) = Some t \<longrightarrow> tuple_to_row_for_visibility t = Inr r \<longrightarrow> r \<in> set rows)"
proof -
  let ?q = "resolve_table_name e table"
  obtain mt where mt: "map_of (e_data e) ?q = Some mt" using assms(3) by (auto simp: has_key_def)
  then have wf: "mt_wf ?q mt" using assms(1) by (simp add: engine_inv_def)
  have stored: "rows_in e ?q (h_row_id (hdr t)) = Some t \<longleftrightarrow> t \<in> set (scan_all mt)" for t
    using get_latest_iff [OF wf] by (simp add: rows_of_def mt)
  then have "\<forall>t \<in> set (scan_all mt). \<exists>r. tuple_to_row_for_visibility t = Inr r"
    using assms(2) unfolding data_canonical_def canonical_def by blast
  then obtain rows where "mapE tuple_to_row_for_visibility (scan_all mt) = Inr rows"
    "\<forall>t r. t \<in> set (scan_all mt) \<longrightarrow> tuple_to_row_for_visibility t = Inr r \<longrightarrow> r \<in> set rows"
    using mapE_total by blast
  with mt stored show ?thesis
    by (intro exI [of _ rows]) (simp add: scan_with_snapshot_def bindM_def getM_def Let_def visible_rows_eq)
qed

text \<open>C20: A failing INSERT is half done: outside of a transaction block, when the first rows of an INSERT go in and a later
  one raises an exception, the server answers with the text of the exception and no affected rows, and then commits
  (unless the commit itself is refused): every other transaction that reads the table next sees the first rows.\<close>

theorem failed_insert_keeps_rows:
  assumes "engine_inv (srv_engine s)" "data_canonical (e_data (srv_engine s))" "block_state (srv_engine s) = DEFAULT"
    and "statement_ok (srv_engine s) (Insert i)" "ins_values i = vs1 @ v # vs2" "vs1 \<noteq> []"
    and "insert_each (ins_table i) (map (values_row (insert_columns (started s) i)) vs1) (started s) = (Inr out, e1)"
    and "insert_with_txn (ins_table i) (values_row (insert_columns (started s) i) v) e1 = (Inl err, e2)"
    and "commit_transaction_command (e_tm e2) = Inr t"
  shows "\<exists>pl rs s'. run_statement tx input (Insert i) s = (Inr [result_json pl rs], s') \<and>
    rs_message rs = txt_error @ tx_engine tx err \<and> rs_affected_rows rs = 0 \<and> length out = length vs1 \<and>
    (\<forall>me cid. me \<noteq> cx_xid (ctx (e_tm e2)) \<longrightarrow>
       (\<exists>rows. fst (scan_with_snapshot (ins_table i) (get_snapshot (e_tm (srv_engine s'))) me cid (srv_engine s')) = Inr rows \<and>
          (\<forall>w \<in> set out. \<exists>r \<in> set rows. user_columns r = user_columns w \<and> row_int r ''_rowid'' = row_int w ''_rowid'')))"
proof -
  let ?rows = "map (values_row (insert_columns (started s) i)) vs1" and ?q = "resolve_table_name (started s) (ins_table i)"
  have intent: "in_statement (sql_intent input (Insert i)) = Insert i" by (simp add: sql_intent_def case_prod_beta)
  have pipe: "execute_pipeline (build_pipeline (started s) (Insert i) strategy) (started s) = (Inl err, e2)" for strategy
    using assms(5,8) insert_each_loop [OF assms(7)]
    by (simp add: build_pipeline_def execute_pipeline_def standalone_op_def new_op_def execute_standalone_def Let_def forM_append
      seqM_def bindM_def)
  then obtain pl rs s' where run: "run_statement tx input (Insert i) s = (Inr [result_json pl rs], s')"
    "rs_message rs = txt_error @ tx_engine tx err" "rs_affected_rows rs = 0" "srv_engine s' = set_tm t e2"
    using run_planned_result [of s "sql_intent input (Insert i)" tx] assms(9)
    by (auto simp: intent run_statement_def run_direct_def Let_def)
  have start: "engine_inv (started s)" "data_canonical (e_data (started s))" "block_state (started s) = STARTED"
    "may_insert (length ?rows + Suc (length vs2)) (ins_table i) (started s)"
    using started_sound [OF assms(1,3)] assms(2,4,5) by (simp_all add: statement_ok_def)
  note first = insert_each_effect [OF assms(7) start(1,4)]
  note last = insert_one [of e1 "length vs2" "ins_table i" _ "Inl err" e2, OF _ _ assms(8)]
  have e2: "engine_inv e2" "resolve_table_name e2 (ins_table i) = ?q" "block_state e2 = STARTED"
    "\<forall>w \<in> set out. stored_row ?q w (rows_in e2) (open_xid e2)"
    using first last(1,3-5) start(3) by (auto intro: stored_row_later)
  have "statement_ok (started s) (Insert i)"
    using start(4) assms(5) by (simp add: statement_ok_def)
  from pipeline_steps [OF this, of strategy] pipe have "txn_step\<^sup>*\<^sup>* (started s) e2" by simp
  then have "undoing (rows_in (started s)) (length (undo_records (started s))) e2"
    using undoing_steps undoing_start [OF start(1,2)] by blast
  then have can: "data_canonical (e_data e2)" by (simp add: undoing_def rows_inv_def undoes_def)
  have len: "length out = length vs1" using insert_each_length [OF assms(7)] by simp
  obtain t' where commit: "commit_transaction (e_tm e2) = Inr t'" "t = set_block_state DEFAULT t'"
    using assms(9) e2(3) by (auto simp: commit_transaction_command_def block_state_def bindE_Inr)
  have eng: "engine_inv (set_tm t e2)" "e_data (set_tm t e2) = e_data e2" "e_tm (set_tm t e2) = t"
    "resolve_table_name (set_tm t e2) (ins_table i) = ?q"
  proof -
    show "engine_inv (set_tm t e2)"
      using e2(1) commit_undo [OF commit(1)] commit(2) by (intro inv_set_tm) (simp_all add: set_block_state_def set_context_def)
  qed (use e2(2) in \<open>simp_all add: set_tm_def resolve_table_name_def\<close>)
  obtain w0 where "w0 \<in> set out" using len assms(6) by (cases out) auto
  with e2(4) have "has_key (e_data e2) ?q" by (fastforce simp: stored_row_def rows_of_def has_key_def split: option.splits)
  note scan = canonical_scan [where table = "ins_table i", OF eng(1), unfolded eng, OF can this]
  have "\<exists>rows. fst (scan_with_snapshot (ins_table i) (get_snapshot t) me cid (set_tm t e2)) = Inr rows \<and>
      (\<forall>w \<in> set out. \<exists>r \<in> set rows. user_columns r = user_columns w \<and> row_int r ''_rowid'' = row_int w ''_rowid'')"
    if me: "me \<noteq> cx_xid (ctx (e_tm e2))" for me cid
  proof -
    have clog: "clog t = clog t'" "get_snapshot t = get_snapshot t'"
      by (simp_all add: commit(2) set_block_state_def set_context_def get_snapshot_def)
    have vis: "check_tuple_visibility r me (get_snapshot t) cid (clog t)"
      if "row_xid r ''_xmin'' \<in> {InvalidTransactionId, open_xid e2}" "row_xid r ''_xmax'' = InvalidTransactionId" for r
      using committed_row_visible [OF commit(1), of r me cid] that me by (simp add: open_xid_def clog)
    obtain rows where rows: "fst (scan_with_snapshot (ins_table i) (get_snapshot t) me cid (set_tm t e2)) =
        Inr (filter (\<lambda>r. check_tuple_visibility r me (get_snapshot t) cid (clog t)) rows)"
      "\<And>t r. rows_in e2 ?q (h_row_id (hdr t)) = Some t \<Longrightarrow> tuple_to_row_for_visibility t = Inr r \<Longrightarrow> r \<in> set rows"
      using scan by blast
    have "\<exists>r \<in> set (filter (\<lambda>r. check_tuple_visibility r me (get_snapshot t) cid (clog t)) rows).
        user_columns r = user_columns w \<and> row_int r ''_rowid'' = row_int w ''_rowid''" if "w \<in> set out" for w
    proof -
      have "stored_row ?q w (rows_in e2) (open_xid e2)" using e2(4) that by blast
      then obtain tup r where "rows_in e2 ?q (h_row_id (hdr tup)) = Some tup" "tuple_to_row_for_visibility tup = Inr r"
        "user_columns r = user_columns w" "row_int r ''_rowid'' = row_int w ''_rowid''"
        "row_xid r ''_xmin'' \<in> {InvalidTransactionId, open_xid e2}" "row_xid r ''_xmax'' = InvalidTransactionId"
        unfolding stored_row_def by blast
      with rows(2) vis show ?thesis by auto
    qed
    with rows(1) show ?thesis by blast
  qed
  then show ?thesis using run len eng(3) by auto
qed

lemma sample_started: "started (sample_server sample_table) = set_tm (set_block_state STARTED (fresh_transaction init_tm)) sample_table"
    by (simp add: started_def sample_table_members start_transaction_command_def init_tm_def init_context_def)

lemma sample_row: "\<exists>t. make_tuple q i [(''_cid'', VInt 0), (''_rowid'', VInt 1), (''_xmax'', VInt 0), (''_xmin'', VInt 3), (''a'', VInt 5)] = Inr t"
proof -
  obtain p where "row_encode [(''_cid'', VInt 0), (''_rowid'', VInt 1), (''_xmax'', VInt 0), (''_xmin'', VInt 3), (''a'', VInt 5)] = Inr p"
    using row_encode_total [of "[(''_cid'', VInt 0), (''_rowid'', VInt 1), (''_xmax'', VInt 0), (''_xmin'', VInt 3), (''a'', VInt 5)]"]
    by (auto simp: row_fits_def user_columns_def is_system_column_def)
  then show ?thesis by (auto simp: make_tuple_def row_to_tuple_def)
qed

lemma first_row:
  "\<exists>e1. insert_with_txn ''t'' [(''a'', VInt 5)] (started (sample_server sample_table)) =
     (Inr [(''_cid'', VInt 0), (''_rowid'', VInt 1), (''_xmax'', VInt 0), (''_xmin'', VInt 3), (''a'', VInt 5)], e1) \<and>
     e_catalog e1 = new_catalog \<and> e_tables e1 = [(''defaultdb.public.t'', \<lparr>ts_name = ''defaultdb.public.t'', ts_columns = [sample_column], ts_row_count = 1\<rparr>)] \<and>
     cx_block_state (ctx (e_tm e1)) = STARTED \<and> cx_isolation (ctx (e_tm e1)) = ReadCommitted \<and> cx_xid (ctx (e_tm e1)) = 3"
proof -
  obtain t where t: "make_tuple ''defaultdb.public.t'' 1 [(''_cid'', VInt 0), (''_rowid'', VInt 1), (''_xmax'', VInt 0), (''_xmin'', VInt 3), (''a'', VInt 5)] = Inr t"
    using sample_row by blast
  have t_id: "h_row_id (hdr t) = 1" using t by (rule make_tuple_row_id)
  show ?thesis
    by (simp add: sample_started insert_with_txn_def bindM_def getM_def qualify_sample_table Let_def resolve_table_name_def set_tm_def
      sample_table_members qualify_table_name_def new_catalog_def validate_def sample_column_def coerce_def liftM_def row_id_of_def omap_at_def
      ret_def seqM_def modM_def assign_xid_m_def set_row_id_def assign_xid_def set_block_state_def fresh_transaction_def init_tm_def init_context_def
      set_context_def allocate_xid_def maybe_anti_wraparound_def insert_pk_check_def tm_do_def write_wal_def put_row_def update_indexes_def
      maybe_checkpoint_def whenM_def XIDFreezeThreshold_def XIDEmergencyStop_def FirstNormalTransactionId_def FrozenTransactionId_def
      InvalidTransactionId_def t set_data_def add_undo_record_def refresh_row_count_def set_indexes_def table_data_def mt_new_def mt_put_def t_id scan_all_def mt_size_def)
qed

lemma second_row:
  assumes "e_catalog e1 = new_catalog" "e_tables e1 = [(''defaultdb.public.t'', \<lparr>ts_name = ''defaultdb.public.t'', ts_columns = [sample_column], ts_row_count = 1\<rparr>)]"
  shows "\<exists>err. insert_with_txn ''t'' [(''a'', VString ''x'')] e1 = (Inl err, e1)"
proof -
  have "\<exists>x. stoll ''x'' = Inl x" by (rule exI) code_simp
  with assms show ?thesis
    by (auto simp: insert_with_txn_def bindM_def getM_def Let_def resolve_table_name_def qualify_table_name_def new_catalog_def validate_def
      sample_column_def coerce_def liftM_def throw_def)
qed

definition sample_insert :: InsertStmt where
  "sample_insert = \<lparr>ins_table = ''t'', ins_columns = [''a''], ins_values = [[VInt 5], [VString ''x'']]\<rparr>"

lemma failed_insert_keeps_rows_witness:
  "\<exists>pl rs s' rows. run_statement sample_texts [] (Insert sample_insert) (sample_server sample_table) = (Inr [result_json pl rs], s') \<and>
    rs_message rs = txt_error @ ''error'' \<and> rs_affected_rows rs = 0 \<and>
    fst (scan_with_snapshot ''t'' (get_snapshot (e_tm (srv_engine s'))) 0 0 (srv_engine s')) = Inr rows \<and>
    (\<exists>r \<in> set rows. user_columns r = [(''a'', VInt 5)] \<and> row_int r ''_rowid'' = Some 1)"
proof -
  let ?s = "sample_server sample_table" and ?v = "[(''_cid'', VInt 0), (''_rowid'', VInt 1), (''_xmax'', VInt 0), (''_xmin'', VInt 3), (''a'', VInt 5)]"
  obtain e1 where e1: "insert_with_txn ''t'' [(''a'', VInt 5)] (started ?s) = (Inr ?v, e1)"
    "e_catalog e1 = new_catalog" "e_tables e1 = [(''defaultdb.public.t'', \<lparr>ts_name = ''defaultdb.public.t'', ts_columns = [sample_column], ts_row_count = 1\<rparr>)]"
    "cx_block_state (ctx (e_tm e1)) = STARTED" "cx_isolation (ctx (e_tm e1)) = ReadCommitted" "cx_xid (ctx (e_tm e1)) = 3"
    using first_row by blast
  obtain err where err: "insert_with_txn ''t'' [(''a'', VString ''x'')] e1 = (Inl err, e1)" using second_row e1(2,3) by blast
  have cols: "insert_columns (started ?s) sample_insert = [''a'']" by (simp add: insert_columns_def sample_insert_def)
  have vals: "values_row [''a''] [x] = [(''a'', x)]" for x by (simp add: values_row_def)
  have ins: "ins_table sample_insert = ''t''" "ins_values sample_insert = [[VInt 5]] @ [VString ''x''] # []" by (simp_all add: sample_insert_def)
  obtain t where t: "commit_transaction_command (e_tm e1) = Inr t"
    using e1(4,5) by (cases "cx_xid (ctx (e_tm e1)) = InvalidTransactionId") (auto simp: commit_transaction_command_def commit_transaction_def Let_def)
  have sound: "engine_inv (srv_engine ?s)" "data_canonical (e_data (srv_engine ?s))" "block_state (srv_engine ?s) = DEFAULT"
    using sample_table_ready by (simp_all add: block_state_def sample_table_members init_tm_def init_context_def)
  have ok: "statement_ok (srv_engine ?s) (Insert sample_insert)"
    by (simp add: statement_ok_def may_insert_def room_def sane_schema_def resolve_table_name_def sample_insert_def
      sample_table_members qualify_table_name_def new_catalog_def row_id_of_def omap_at_def sample_column_def is_system_column_def)
  have each: "insert_each (ins_table sample_insert) (map (values_row (insert_columns (started ?s) sample_insert)) [[VInt 5]]) (started ?s) = (Inr [?v], e1)"
    using e1(1) by (simp add: ins cols vals bindM_def ret_def)
  have last: "insert_with_txn (ins_table sample_insert) (values_row (insert_columns (started ?s) sample_insert) [VString ''x'']) e1 = (Inl err, e1)"
    using err by (simp add: ins cols vals)
  from failed_insert_keeps_rows [OF sound ok ins(2) _ each last t, of sample_texts "[]"]
  obtain pl rs s' where s': "run_statement sample_texts [] (Insert sample_insert) ?s = (Inr [result_json pl rs], s')"
    "rs_message rs = txt_error @ ''error''" "rs_affected_rows rs = 0"
    "\<exists>rows. fst (scan_with_snapshot ''t'' (get_snapshot (e_tm (srv_engine s'))) 0 0 (srv_engine s')) = Inr rows \<and>
      (\<exists>r \<in> set rows. user_columns r = user_columns ?v \<and> row_int r ''_rowid'' = row_int ?v ''_rowid'')"
    by (auto simp: e1(6) ins(1) sample_texts_def)
  moreover have "user_columns ?v = [(''a'', VInt 5)]" "row_int ?v ''_rowid'' = Some 1"
    by (simp_all add: user_columns_def is_system_column_def row_int_def)
  ultimately show ?thesis by (auto simp del: user_columns_def)
qed

definition unfiltered :: "Statement \<Rightarrow> bool" where
  "unfiltered stmt \<longleftrightarrow> (case stmt of Select q \<Rightarrow> sel_where q = None | Update u \<Rightarrow> upd_sets u = [] \<and> upd_where u = None
     | Delete d \<Rightarrow> del_where d = None | _ \<Rightarrow> True)"

lemma statement_unfiltered: "statement_of j = Inr stmt \<Longrightarrow> unfiltered stmt"
  by (auto simp: statement_of_def unfiltered_def Let_def bindE_Inr split: if_splits)

lemma read_answer_unfiltered: "read_answer j input = Inr r \<Longrightarrow> unfiltered (in_statement (nr_intent r))"
  using statement_unfiltered
  by (auto simp: read_answer_def intent_of_def no_intent_def bindE_Inr split: if_splits) (simp_all add: unfiltered_def)

lemma nl_failed_unfiltered: "unfiltered (in_statement (nr_intent (nl_failed m)))"
  by (simp add: nl_failed_def no_intent_def unfiltered_def)

lemma parse_response_cases:
  "(\<exists>m. \<forall>input. parse_response what response input = nl_failed m) \<or>
   (\<exists>j. \<forall>input. parse_response what response input =
     (case read_answer j input of Inl e \<Rightarrow> nl_failed (txt_bad_answer @ what e) | Inr r \<Rightarrow> r))"
proof (cases "response = []")
  case False
  show ?thesis
  proof (cases "bindE (parse_text response) answer_content")
    case (Inl e)
    with False show ?thesis by (cases "parse_text response") (simp_all add: parse_response_def exI)
  next
    case (Inr content)
    then obtain j where j: "parse_text response = Inr j" "answer_content j = Inr content" by (auto simp: bindE_Inr)
    show ?thesis
    proof (cases "Option.bind content (\<lambda>c. braced (strip_thinking c))")
      case None
      with False j show ?thesis by (cases content) (simp_all add: parse_response_def exI)
    next
      case (Some t)
      with False j show ?thesis by (cases content; cases "parse_text t") (auto simp: parse_response_def)
    qed
  qed
qed (auto simp: parse_response_def)

lemma parse_response_unfiltered: "unfiltered (in_statement (nr_intent (parse_response what response input)))"
  using parse_response_cases [of what response] nl_failed_unfiltered
  by (auto dest: read_answer_unfiltered split: sum.split)

lemma read_answer_input:
  "map_sum id (\<lambda>r. in_statement (nr_intent r)) (read_answer j input) = map_sum id (\<lambda>r. in_statement (nr_intent r)) (read_answer j input')"
proof -
  obtain c where c: "is_conversation j = c" by simp
  obtain t where t: "strings_at j ''tables'' = t" by simp
  obtain m where m: "(if j_contains j ''operation'' then statement_of (j_at j ''operation'') else Inr UnknownStatement) = m" by simp
  show ?thesis by (cases c; cases t; cases m) (simp_all add: read_answer_def intent_of_def c t m)
qed

lemma parse_response_input:
  "in_statement (nr_intent (parse_response what response input)) = in_statement (nr_intent (parse_response what response input'))"
  using parse_response_cases [of what response]
proof
  assume "\<exists>j. \<forall>input. parse_response what response input = (case read_answer j input of Inl e \<Rightarrow> nl_failed (txt_bad_answer @ what e) | Inr r \<Rightarrow> r)"
  then obtain j where j: "parse_response what response input = (case read_answer j input of Inl e \<Rightarrow> nl_failed (txt_bad_answer @ what e) | Inr r \<Rightarrow> r)"
    for input by blast
  from read_answer_input [of j input input'] show ?thesis
    by (cases "read_answer j input"; cases "read_answer j input'") (simp_all add: j)
qed auto

text \<open>C37: The natural language front end never filters and never changes a value: whatever the model answers, a SELECT and a
  DELETE from it have no WHERE (the DELETE takes every row), an UPDATE has neither WHERE nor assignments; and the
  statement does not depend on the question or on the schema, which are not part of the request.\<close>

theorem natural_language_ignored:
  "(case in_statement (nr_intent (parse_response what response input)) of Select q \<Rightarrow> sel_where q = None
    | Update u \<Rightarrow> upd_sets u = [] \<and> upd_where u = None | Delete d \<Rightarrow> del_where d = None | _ \<Rightarrow> True) \<and>
   in_statement (nr_intent (nl_parse what api p input schema)) = in_statement (nr_intent (nl_parse what api p input' schema'))"
proof -
  have "unfiltered (in_statement (nr_intent (parse_response what response input)))" by (rule parse_response_unfiltered)
  moreover have "in_statement (nr_intent (nl_parse what api p input schema)) = in_statement (nr_intent (nl_parse what api p input' schema'))"
    unfolding nl_parse_def build_prompt_def using parse_response_input by simp
  ultimately show ?thesis by (simp add: unfiltered_def)
qed

definition nothing_done :: "Texts \<Rightarrow> UnifiedIntent \<Rightarrow> string \<Rightarrow> Server \<Rightarrow> bool" where
  "nothing_done tx intent message s \<longleftrightarrow> (\<exists>t. srv_engine (snd (run_planned tx intent s)) = set_tm t (srv_engine s)) \<and>
     (case fst (run_planned tx intent s) of Inl x \<Rightarrow> (\<exists>y. x = TxnErr y)
      | Inr js \<Rightarrow> (\<exists>pl rs. js = [result_json pl rs] \<and> rs_message rs = message))"

lemma nothing_doneI:
  fixes intent :: UnifiedIntent
  assumes "\<And>strategy. \<exists>res. execute_pipeline (build_pipeline (started s) (in_statement intent) strategy) (started s) = (Inr res, started s) \<and>
    rs_message res = message"
  shows "nothing_done tx intent message s"
proof -
  obtain strategy pl rs s' where r: "let (r, e1) = execute_pipeline (build_pipeline (started s) (in_statement intent) strategy) (started s);
     done = commit_transaction_command (e_tm e1) in
     run_planned tx intent s = (case done of Inl x \<Rightarrow> Inl (TxnErr x) | Inr _ \<Rightarrow> Inr [result_json pl rs], s') \<and>
     srv_engine s' = (case done of Inl _ \<Rightarrow> e1 | Inr t \<Rightarrow> set_tm t e1) \<and>
     rs_message rs = (case r of Inl err \<Rightarrow> txt_error @ tx_engine tx err | Inr res \<Rightarrow> rs_message res) \<and>
     rs_affected_rows rs = (case r of Inl err \<Rightarrow> 0 | Inr res \<Rightarrow> rs_affected_rows res)"
    using run_planned_result [of s intent tx] by blast
  have "set_tm t (started s) = set_tm t (srv_engine s)" for t by (simp add: started_def set_tm_def)
  with r assms [of strategy] show ?thesis
    by (auto simp: nothing_done_def Let_def started_def split: sum.splits)
qed

text \<open>C38: CREATE TABLE and CREATE USER that come through the planner (from the natural language front end), and CREATE INDEX
  from SQL, do nothing: the server answers without an error, and the database is as before.\<close>

theorem planned_ddl_lost:
  "case in_statement intent of CreateTable c \<Rightarrow> nothing_done tx intent (txt_table_created @ ct_name c) s
    | CreateUser u \<Rightarrow> nothing_done tx intent (txt_user_created @ usr_name u) s
    | CreateIndex _ \<Rightarrow> nothing_done tx intent txt_empty_pipeline s
    | _ \<Rightarrow> True"
  by (auto simp: build_pipeline_def execute_pipeline_def execute_standalone_def standalone_op_def new_op_def result_of_def ret_def
      intro!: nothing_doneI split: Statement.split)

end
