(* ===== verification/Raw_Memory.thy ===== *)
theory Raw_Memory
  imports Byte_Codec "HOL-Library.Multiset"
begin

text \<open>
  The memory the allocators run on: bytes at 64-bit addresses, and the buffers \<open>std::malloc\<close> has handed out.

  \<^item> Addresses and sizes are natural numbers; where the code computes with \<open>size_t\<close>, the sum is taken modulo \<open>2 ^ 64\<close>
    (\<open>w64\<close>).
  \<^item> \<open>answers\<close> are the addresses \<open>malloc\<close> would like to return, in the order of the calls. An answer that breaks the
    contract of \<open>malloc\<close> (a null or misaligned address, a buffer behind the end of memory or inside of a live buffer)
    counts as \<open>nullptr\<close>, so every run of a correct \<open>malloc\<close> is a run of the model, failures included.
\<close>

type_synonym address = nat

record Memory =
  byte_at :: "address \<Rightarrow> u8"
  buffers :: "(address \<times> nat) list"
  answers :: "nat \<Rightarrow> address option"

section \<open>Sizes\<close>

definition w64 :: "nat \<Rightarrow> nat" where
  "w64 n = n mod 2 ^ 64"

text \<open>\<open>(n + 7) & ~7\<close>\<close>

definition round8 :: "nat \<Rightarrow> nat" where
  "round8 n = w64 (n + 7) div 8 * 8"

lemma w64_small [simp]: "n < 2 ^ 64 \<Longrightarrow> w64 n = n"
  by (simp add: w64_def)

lemma round8_bounds: "n + 7 < 2 ^ 64 \<Longrightarrow> n \<le> round8 n" "n + 7 < 2 ^ 64 \<Longrightarrow> round8 n \<le> n + 7" "8 dvd round8 n"
  by (simp_all add: round8_def)

section \<open>Ranges\<close>

fun overlap :: "address \<times> nat \<Rightarrow> address \<times> nat \<Rightarrow> bool" where
  "overlap (a, m) (b, n) = (a < b + n \<and> b < a + m)"

fun apart :: "(address \<times> nat) list \<Rightarrow> bool" where
  "apart [] = True"
| "apart (x # xs) = ((\<forall>y \<in> set xs. \<not> overlap x y) \<and> apart xs)"

lemma overlap_sym: "overlap x y = overlap y x"
  by (cases x; cases y) auto

lemma overlap_self [simp]: "overlap (a, n) (a, n) \<longleftrightarrow> 0 < n"
  by auto

lemma apart_append: "apart (xs @ ys) \<longleftrightarrow> apart xs \<and> apart ys \<and> (\<forall>x \<in> set xs. \<forall>y \<in> set ys. \<not> overlap x y)"
  by (induction xs) auto

lemma set_split: "x \<in> set xs \<Longrightarrow> set xs = insert x (set (remove1 x xs))"
  by (induction xs) auto

lemma apart_remove: "x \<in> set xs \<Longrightarrow> apart (x # remove1 x xs) = apart xs"
proof (induction xs)
  case (Cons y xs)
  then show ?case
  proof (cases "x = y")
    case False
    then have "x \<in> set xs" using Cons.prems by simp
    with Cons.IH set_split [OF this] False show ?thesis by (auto simp: overlap_sym)
  qed simp
qed simp

lemma apart_perm: "mset xs = mset ys \<Longrightarrow> apart xs = apart ys"
proof (induction xs arbitrary: ys)
  case (Cons x xs)
  then have x: "x \<in> set ys" by (metis list.set_intros(1) set_mset_mset)
  have rest: "mset xs = mset (remove1 x ys)" using Cons.prems by (metis add_mset_remove_trivial mset.simps(2) mset_remove1)
  have "apart xs = apart (remove1 x ys)" using rest by (rule Cons.IH)
  moreover have "set xs = set (remove1 x ys)" using rest by (rule mset_eq_setD)
  ultimately show ?case using apart_remove [OF x] by simp
qed simp

lemma apart_filter: "apart xs \<Longrightarrow> apart (filter P xs)"
  by (induction xs) auto

lemma apartD: "apart xs \<Longrightarrow> x \<in> set xs \<Longrightarrow> y \<in> set xs \<Longrightarrow> x \<noteq> y \<Longrightarrow> \<not> overlap x y"
  by (induction xs) (auto simp: overlap_sym)

lemma apart_distinct: "apart xs \<Longrightarrow> \<forall>x \<in> set xs. 0 < snd x \<Longrightarrow> distinct xs"
  by (induction xs) fastforce+

section \<open>Reading and writing\<close>

definition write_byte :: "address \<Rightarrow> u8 \<Rightarrow> Memory \<Rightarrow> Memory" where
  "write_byte a b m = m\<lparr>byte_at := (byte_at m)(a := b)\<rparr>"

definition read64 :: "Memory \<Rightarrow> address \<Rightarrow> u64" where
  "read64 m a = le_join (map (byte_at m) [a..<a + 8])"

definition write64 :: "address \<Rightarrow> u64 \<Rightarrow> Memory \<Rightarrow> Memory" where
  "write64 a v m = m\<lparr>byte_at := (\<lambda>x. if a \<le> x \<and> x < a + 8 then le_split 8 v ! (x - a) else byte_at m x)\<rparr>"

text \<open>A pointer stored in memory.\<close>

definition read_ptr :: "Memory \<Rightarrow> address \<Rightarrow> address" where
  "read_ptr m a = unat (read64 m a)"

definition write_ptr :: "address \<Rightarrow> address \<Rightarrow> Memory \<Rightarrow> Memory" where
  "write_ptr a p = write64 a (of_nat p)"

definition memcpy :: "address \<Rightarrow> address \<Rightarrow> nat \<Rightarrow> Memory \<Rightarrow> Memory" where
  "memcpy dst src n m = m\<lparr>byte_at := (\<lambda>x. if dst \<le> x \<and> x < dst + n then byte_at m (src + (x - dst)) else byte_at m x)\<rparr>"

definition memset :: "address \<Rightarrow> u8 \<Rightarrow> nat \<Rightarrow> Memory \<Rightarrow> Memory" where
  "memset dst v n m = m\<lparr>byte_at := (\<lambda>x. if dst \<le> x \<and> x < dst + n then v else byte_at m x)\<rparr>"

lemma read_write64 [simp]: "read64 (write64 a v m) a = v"
proof -
  have "map (byte_at (write64 a v m)) [a..<a + 8] = le_split 8 v"
    by (rule nth_equalityI) (auto simp: write64_def)
  then show ?thesis by (simp add: read64_def le_join_split)
qed

lemma read64_cong: "(\<And>x. a \<le> x \<Longrightarrow> x < a + 8 \<Longrightarrow> byte_at m x = byte_at m' x) \<Longrightarrow> read64 m a = read64 m' a"
  unfolding read64_def by (rule arg_cong [of _ _ le_join]) simp

lemma write64_other [simp]: "x < a \<or> a + 8 \<le> x \<Longrightarrow> byte_at (write64 a v m) x = byte_at m x"
  by (auto simp: write64_def)

lemma memory_frame [simp]:
  "buffers (write64 a v m) = buffers m" "buffers (memcpy d s n m) = buffers m" "buffers (memset d b n m) = buffers m"
  "answers (write64 a v m) = answers m"
  by (simp_all add: write64_def memcpy_def memset_def)

lemma read_write_ptr [simp]: "p < 2 ^ 64 \<Longrightarrow> read_ptr (write_ptr a p m) a = p"
  by (simp add: read_ptr_def write_ptr_def unat_of_nat take_bit_eq_mod)

section \<open>malloc and free\<close>

definition suitable :: "address \<Rightarrow> nat \<Rightarrow> Memory \<Rightarrow> bool" where
  "suitable a n m \<longleftrightarrow> 0 < a \<and> 16 dvd a \<and> a + n < 2 ^ 64 \<and> list_all (\<lambda>b. \<not> overlap (a, n) b) (buffers m)"

definition malloc :: "nat \<Rightarrow> Memory \<Rightarrow> address option \<times> Memory" where
  "malloc n m = (let m' = m\<lparr>answers := (\<lambda>i. answers m (Suc i))\<rparr> in
     case answers m 0 of None \<Rightarrow> (None, m')
     | Some a \<Rightarrow> if suitable a n m then (Some a, m'\<lparr>buffers := (a, n) # buffers m\<rparr>) else (None, m'))"

definition free_buffer :: "address \<Rightarrow> Memory \<Rightarrow> Memory" where
  "free_buffer a m = m\<lparr>buffers := filter (\<lambda>(b, _). b \<noteq> a) (buffers m)\<rparr>"

text \<open>What holds of the live buffers of a correct \<open>malloc\<close>.\<close>

definition buffers_ok :: "Memory \<Rightarrow> bool" where
  "buffers_ok m \<longleftrightarrow> apart (buffers m) \<and> (\<forall>(a, n) \<in> set (buffers m). 0 < a \<and> 16 dvd a \<and> a + n < 2 ^ 64)"

lemma malloc_ok: "buffers_ok m \<Longrightarrow> malloc n m = (r, m') \<Longrightarrow> buffers_ok m'"
  by (auto simp: malloc_def buffers_ok_def suitable_def list_all_iff Let_def split: option.splits if_splits)

lemma free_buffer_ok: "buffers_ok m \<Longrightarrow> buffers_ok (free_buffer a m)"
  by (auto simp: buffers_ok_def free_buffer_def apart_filter)

lemma malloc_Some: "malloc n m = (Some a, m') \<Longrightarrow>
    suitable a n m \<and> buffers m' = (a, n) # buffers m \<and> byte_at m' = byte_at m"
  by (auto simp: malloc_def Let_def split: option.splits if_splits)

lemma malloc_None: "malloc n m = (None, m') \<Longrightarrow> buffers m' = buffers m \<and> byte_at m' = byte_at m"
  by (auto simp: malloc_def Let_def split: option.splits if_splits)

end
