(* ===== verification/Alloc_Set.thy ===== *)
theory Alloc_Set
  imports Raw_Memory
begin

text \<open>
  The free-list allocator \<open>AllocSetContext\<close> (\<open>common/allocset.cpp\<close>): blocks from \<open>malloc\<close>, power-of-two chunks cut from
  the active block, one free list per chunk size, and blocks of their own for large chunks.

  \<^item> The doubly linked list of blocks is a list, its head first; a pointer to a block is the address of its
    \<open>BlockStorage\<close>. A pointer to a block that is not in the list any more dangles, and its use is the outcome
    \<open>DanglingBlock\<close>.
  \<^item> Headers and free-list links are read from and written to memory.
  \<^item> The part of \<open>MemoryContextData\<close> that the allocators keep is \<open>Counters\<close>; the tree of contexts is modelled apart.
\<close>

section \<open>Data\<close>

datatype mem_error = BadAlloc | DanglingBlock

record Counters =
  mem_allocated :: nat
  is_reset :: bool

record BlockStorage =
  bs_self :: address
  bs_data :: address
  bs_cap :: nat
  bs_freeptr :: address
  bs_endptr :: address

record AllocSetContext = Counters +
  as_blocks :: "BlockStorage list"
  as_freeptr :: "address option"
  as_freelist :: "address list"
  as_init_block_size :: nat
  as_max_block_size :: nat
  as_next_block_size :: nat
  as_chunk_limit :: nat

definition kAllocSetNumFreelists :: nat where "kAllocSetNumFreelists = 11"
definition kAllocChunkLimit :: nat where "kAllocChunkLimit = 2 ^ (kAllocSetNumFreelists - 1 + 3)"
definition kAllocChunkFraction :: nat where "kAllocChunkFraction = 4"
definition kAllocSetDefaultInitSize :: nat where "kAllocSetDefaultInitSize = 8 * 1024"
definition kChunkHdrSize :: nat where "kChunkHdrSize = 16"
definition sizeof_BlockStorage :: nat where "sizeof_BlockStorage = 72"

definition kAllocSetMethodId :: u64 where "kAllocSetMethodId = 1"
definition kChunkFlagExternal :: u64 where "kChunkFlagExternal = push_bit 8 1"
definition kChunkFlagFreeListIdx :: u64 where "kChunkFlagFreeListIdx = push_bit 9 0xF"

section \<open>Headers\<close>

definition header_word :: "nat \<Rightarrow> bool \<Rightarrow> u64" where
  "header_word index external = kAllocSetMethodId OR (if external then kChunkFlagExternal else 0) OR
     (push_bit 9 (of_nat index) AND kChunkFlagFreeListIdx)"

definition WriteHdr :: "address \<Rightarrow> nat \<Rightarrow> bool \<Rightarrow> Memory \<Rightarrow> Memory" where
  "WriteHdr user_ptr index external = write64 (user_ptr - 8) (header_word index external)"

definition ReadHdr :: "Memory \<Rightarrow> address \<Rightarrow> u64" where
  "ReadHdr m user_ptr = read64 m (user_ptr - 8)"

definition WriteCtx :: "address \<Rightarrow> address \<Rightarrow> Memory \<Rightarrow> Memory" where
  "WriteCtx user_ptr self = write_ptr (user_ptr - 16) self"

definition ReadCtx :: "Memory \<Rightarrow> address \<Rightarrow> address" where
  "ReadCtx m user_ptr = read_ptr m (user_ptr - 16)"

definition hdr_external :: "u64 \<Rightarrow> bool" where
  "hdr_external hdr \<longleftrightarrow> hdr AND kChunkFlagExternal \<noteq> 0"

definition hdr_index :: "u64 \<Rightarrow> nat" where
  "hdr_index hdr = unat (drop_bit 9 (hdr AND kChunkFlagFreeListIdx))"

section \<open>Sizes of chunks\<close>

definition AllocSetFreeListIndex :: "nat \<Rightarrow> nat" where
  "AllocSetFreeListIndex n =
     (if n \<le> 8 then 0 else if n \<le> 16 then 1 else if n \<le> 32 then 2 else if n \<le> 64 then 3
      else if n \<le> 128 then 4 else if n \<le> 256 then 5 else if n \<le> 512 then 6 else if n \<le> 1024 then 7
      else if n \<le> 2048 then 8 else if n \<le> 4096 then 9 else 10)"

definition AllocSetFreeListSize :: "nat \<Rightarrow> nat" where
  "AllocSetFreeListSize index = 8 * 2 ^ index"

section \<open>Blocks\<close>

definition AllocSetCreateBlock :: "nat \<Rightarrow> Memory \<Rightarrow> (mem_error + BlockStorage) \<times> Memory" where
  "AllocSetCreateBlock n m = (let cap = round8 n in case malloc sizeof_BlockStorage m of
     (None, m) \<Rightarrow> (Inl BadAlloc, m)
   | (Some s, m) \<Rightarrow> (case malloc cap m of
       (None, m) \<Rightarrow> (Inl BadAlloc, free_buffer s m)
     | (Some d, m) \<Rightarrow> (Inr \<lparr>bs_self = s, bs_data = d, bs_cap = cap, bs_freeptr = d, bs_endptr = w64 (d + cap)\<rparr>, m)))"

definition AllocSetDestroyBlock :: "BlockStorage \<Rightarrow> Memory \<Rightarrow> Memory" where
  "AllocSetDestroyBlock b m = free_buffer (bs_self b) (free_buffer (bs_data b) m)"

definition InitSizeMin :: nat where "InitSizeMin = 1024"

definition allocset_new :: "nat \<Rightarrow> nat \<Rightarrow> AllocSetContext" where
  "allocset_new init_size max_size = \<lparr>mem_allocated = 0, is_reset = True, as_blocks = [], as_freeptr = None,
     as_freelist = replicate kAllocSetNumFreelists 0, as_init_block_size = init_size, as_max_block_size = max_size,
     as_next_block_size = init_size,
     as_chunk_limit = (if max_size < kAllocSetDefaultInitSize * 4 then max (max_size div kAllocChunkFraction) 64 else kAllocChunkLimit)\<rparr>"

section \<open>Allocation\<close>

text \<open>The last lines of each way to a chunk: header and context are written, the bytes counted.\<close>

definition hand_out :: "address \<Rightarrow> address \<Rightarrow> nat \<Rightarrow> bool \<Rightarrow> nat \<Rightarrow> AllocSetContext \<Rightarrow> Memory \<Rightarrow>
    (mem_error + address) \<times> AllocSetContext \<times> Memory" where
  "hand_out self chunk index external amount c m = (let user_ptr = chunk + kChunkHdrSize in
     (Inr user_ptr, c\<lparr>mem_allocated := w64 (mem_allocated c + amount), is_reset := False\<rparr>,
      WriteCtx user_ptr self (WriteHdr user_ptr index external m)))"

definition alloc_large :: "address \<Rightarrow> nat \<Rightarrow> AllocSetContext \<Rightarrow> Memory \<Rightarrow> (mem_error + address) \<times> AllocSetContext \<times> Memory" where
  "alloc_large self alloc_size c m = (let cap = round8 alloc_size in case AllocSetCreateBlock cap m of
     (Inl e, m) \<Rightarrow> (Inl e, c, m)
   | (Inr b, m) \<Rightarrow> hand_out self (bs_data b) 0 True (cap + sizeof_BlockStorage) (c\<lparr>as_blocks := b # as_blocks c\<rparr>) m)"

definition alloc_from_list :: "address \<Rightarrow> nat \<Rightarrow> AllocSetContext \<Rightarrow> Memory \<Rightarrow> (mem_error + address) \<times> AllocSetContext \<times> Memory" where
  "alloc_from_list self idx c m = (let chunk_hdr = as_freelist c ! idx in
     hand_out self chunk_hdr idx False (AllocSetFreeListSize idx)
       (c\<lparr>as_freelist := (as_freelist c)[idx := read_ptr m chunk_hdr]\<rparr>) m)"

definition alloc_new_block :: "address \<Rightarrow> nat \<Rightarrow> AllocSetContext \<Rightarrow> Memory \<Rightarrow> (mem_error + address) \<times> AllocSetContext \<times> Memory" where
  "alloc_new_block self idx c m =
     (let bucket = AllocSetFreeListSize idx;
          new_size = (if as_next_block_size c < InitSizeMin then InitSizeMin else as_next_block_size c);
          new_size = (if new_size < bucket then bucket + sizeof_BlockStorage else new_size);
          next = w64 (as_next_block_size c * 2)
      in case AllocSetCreateBlock (round8 new_size) m of
           (Inl e, m) \<Rightarrow> (Inl e, c, m)
         | (Inr b, m) \<Rightarrow> hand_out self (bs_data b) idx False bucket
             (c\<lparr>as_blocks := b\<lparr>bs_freeptr := bs_data b + bucket\<rparr> # as_blocks c, as_freeptr := Some (bs_self b),
                as_next_block_size := (if as_max_block_size c < next then as_max_block_size c else next)\<rparr>) m)"

definition advance_block :: "address \<Rightarrow> nat \<Rightarrow> BlockStorage list \<Rightarrow> BlockStorage list" where
  "advance_block s n = map (\<lambda>b. if bs_self b = s then b\<lparr>bs_freeptr := bs_freeptr b + n\<rparr> else b)"

definition alloc_small :: "address \<Rightarrow> nat \<Rightarrow> AllocSetContext \<Rightarrow> Memory \<Rightarrow> (mem_error + address) \<times> AllocSetContext \<times> Memory" where
  "alloc_small self idx c m =
     (if as_freelist c ! idx \<noteq> 0 then alloc_from_list self idx c m
      else case as_freeptr c of
        None \<Rightarrow> alloc_new_block self idx c m
      | Some s \<Rightarrow> (case find (\<lambda>b. bs_self b = s) (as_blocks c) of
          None \<Rightarrow> (Inl DanglingBlock, c, m)
        | Some b \<Rightarrow> if bs_freeptr b + AllocSetFreeListSize idx \<le> bs_endptr b
            then hand_out self (bs_freeptr b) idx False (AllocSetFreeListSize idx)
                   (c\<lparr>as_blocks := advance_block s (AllocSetFreeListSize idx) (as_blocks c)\<rparr>) m
            else alloc_new_block self idx c m))"

definition AllocSetAlloc :: "address \<Rightarrow> nat \<Rightarrow> AllocSetContext \<Rightarrow> Memory \<Rightarrow> (mem_error + address) \<times> AllocSetContext \<times> Memory" where
  "AllocSetAlloc self n c m =
     (let alloc_size = w64 ((if n = 0 then 1 else n) + kChunkHdrSize) in
      if as_chunk_limit c < alloc_size then alloc_large self alloc_size c m
      else alloc_small self (AllocSetFreeListIndex alloc_size) c m)"

section \<open>Free, reallocation, reset\<close>

definition sub64 :: "nat \<Rightarrow> nat \<Rightarrow> nat" where
  "sub64 a b = w64 (a + (2 ^ 64 - w64 b))"

definition free_external :: "address \<Rightarrow> AllocSetContext \<Rightarrow> Memory \<Rightarrow> AllocSetContext \<times> Memory" where
  "free_external chunk_start c m =
     (case find (\<lambda>b. bs_data b \<le> chunk_start \<and> chunk_start < bs_data b + bs_cap b) (as_blocks c) of
        None \<Rightarrow> (c, m)
      | Some b \<Rightarrow> (let blocks = filter (\<lambda>b'. bs_self b' \<noteq> bs_self b) (as_blocks c) in
          (c\<lparr>as_blocks := blocks,
             as_freeptr := (if as_freeptr c = Some (bs_self b)
               then (case blocks of [] \<Rightarrow> None | b' # _ \<Rightarrow> Some (bs_self b')) else as_freeptr c),
             mem_allocated := sub64 (mem_allocated c) (bs_cap b + sizeof_BlockStorage)\<rparr>,
           AllocSetDestroyBlock b m)))"

definition AllocSetFree :: "address \<Rightarrow> AllocSetContext \<Rightarrow> Memory \<Rightarrow> AllocSetContext \<times> Memory" where
  "AllocSetFree pointer c m = (if pointer = 0 then (c, m)
     else let chunk_start = pointer - kChunkHdrSize; hdr = ReadHdr m pointer in
       if hdr_external hdr then free_external chunk_start c m
       else let idx = hdr_index hdr in
         (c\<lparr>as_freelist := (as_freelist c)[idx := chunk_start],
            mem_allocated := sub64 (mem_allocated c) (AllocSetFreeListSize idx)\<rparr>,
          write_ptr chunk_start (as_freelist c ! idx) m))"

definition AllocSetGetChunkSpace :: "Memory \<Rightarrow> address \<Rightarrow> nat" where
  "AllocSetGetChunkSpace m pointer = (if pointer = 0 then 0
     else let hdr = ReadHdr m pointer in
       if hdr_external hdr then 0 else AllocSetFreeListSize (hdr_index hdr) - kChunkHdrSize)"

text \<open>For a pointer that is not null; the null pointer goes to \<open>jmalloc\<close>.\<close>

definition AllocSetRealloc :: "address \<Rightarrow> address \<Rightarrow> nat \<Rightarrow> AllocSetContext \<Rightarrow> Memory \<Rightarrow>
    (mem_error + address option) \<times> AllocSetContext \<times> Memory" where
  "AllocSetRealloc self pointer n c m =
     (if n = 0 then (case AllocSetFree pointer c m of (c, m) \<Rightarrow> (Inr None, c, m))
      else case AllocSetAlloc self n c m of
        (Inl e, c, m) \<Rightarrow> (Inl e, c, m)
      | (Inr new_ptr, c, m) \<Rightarrow> (let old_size = AllocSetGetChunkSpace m pointer in
          case AllocSetFree pointer c (memcpy new_ptr pointer (if old_size < n then old_size else n) m) of
            (c, m) \<Rightarrow> (Inr (Some new_ptr), c, m)))"

definition AllocSetReset :: "AllocSetContext \<Rightarrow> Memory \<Rightarrow> AllocSetContext \<times> Memory" where
  "AllocSetReset c m = (c\<lparr>as_blocks := (case as_blocks c of [] \<Rightarrow> [] | keep # _ \<Rightarrow> [keep\<lparr>bs_freeptr := bs_data keep\<rparr>]),
       as_freelist := replicate kAllocSetNumFreelists 0, mem_allocated := 0, is_reset := True,
       as_next_block_size := as_init_block_size c\<rparr>,
     fold AllocSetDestroyBlock (tl (as_blocks c)) m)"

text \<open>The memory of the context itself is freed by the caller of this part.\<close>

definition AllocSetDelete :: "AllocSetContext \<Rightarrow> Memory \<Rightarrow> Memory" where
  "AllocSetDelete c m = fold AllocSetDestroyBlock (as_blocks c) m"

definition AllocSetIsEmpty :: "AllocSetContext \<Rightarrow> bool" where
  "AllocSetIsEmpty c \<longleftrightarrow> mem_allocated c = 0"

end
