(* ===== verification/Alloc_Safety.thy ===== *)
theory Alloc_Safety
  imports Alloc_Set
begin

text \<open>
  Memory safety of the free-list allocator: the chunks handed out never overlap each other, the headers or the links of
  the free lists, and stay inside of buffers of \<open>malloc\<close>.
\<close>

section \<open>Sizes and headers\<close>

abbreviation fsize :: "nat \<Rightarrow> nat" where
  "fsize \<equiv> AllocSetFreeListSize"

lemma fsize_bounds: "8 \<le> fsize i" "8 dvd fsize i" "1 \<le> i \<Longrightarrow> 16 \<le> fsize i" "i < 11 \<Longrightarrow> fsize i \<le> 8192"
proof -
  show "8 \<le> fsize i" "8 dvd fsize i" by (simp_all add: AllocSetFreeListSize_def)
  show "16 \<le> fsize i" if "1 \<le> i" using power_increasing [OF that, of "2 :: nat"] by (simp add: AllocSetFreeListSize_def)
  show "fsize i \<le> 8192" if "i < 11" using power_increasing [of i 10 "2 :: nat"] that by (simp add: AllocSetFreeListSize_def)
qed

lemma index_fits: "n \<le> 8192 \<Longrightarrow> n \<le> fsize (AllocSetFreeListIndex n)" "AllocSetFreeListIndex n < 11"
    "16 < n \<Longrightarrow> 2 \<le> AllocSetFreeListIndex n"
  by (simp_all add: AllocSetFreeListIndex_def AllocSetFreeListSize_def)

lemma less_11: "i < 11 \<longleftrightarrow> i \<in> {0, 1, 2, 3, 4, 5, 6, 7, 8, 9, 10 :: nat}"
  by (simp; presburger)

lemma header_small: "i < 11 \<Longrightarrow> \<not> hdr_external (header_word i False) \<and> hdr_index (header_word i False) = i"
  unfolding less_11
  by (auto simp: header_word_def hdr_external_def hdr_index_def kAllocSetMethodId_def kChunkFlagExternal_def kChunkFlagFreeListIdx_def)

lemma header_large: "hdr_external (header_word 0 True)"
  by (simp add: header_word_def hdr_external_def kAllocSetMethodId_def kChunkFlagExternal_def kChunkFlagFreeListIdx_def)

section \<open>Layout\<close>

text \<open>Which chunks there are: the small ones in use (start, free-list index, bytes asked for), the large ones (start of
  the block, bytes asked for), and the free ones of every size.\<close>

record Layout =
  smalls :: "(address \<times> nat \<times> nat) list"
  larges :: "(address \<times> nat) list"
  frees :: "nat \<Rightarrow> address list"

definition slots :: "Layout \<Rightarrow> (address \<times> nat) list" where
  "slots L = map (\<lambda>(a, i, n). (a, fsize i)) (smalls L) @ concat (map (\<lambda>i. map (\<lambda>a. (a, fsize i)) (frees L i)) [0..<11])"

definition handed_out :: "Layout \<Rightarrow> (address \<times> nat) list" where
  "handed_out L = map (\<lambda>(a, i, n). (a + 16, n)) (smalls L) @ map (\<lambda>(d, n). (d + 16, n)) (larges L)"

definition guarded :: "Layout \<Rightarrow> address \<Rightarrow> bool" where
  "guarded L x \<longleftrightarrow> (\<exists>(a, i, n) \<in> set (smalls L). a \<le> x \<and> x < a + 16) \<or> (\<exists>(d, n) \<in> set (larges L). d \<le> x \<and> x < d + 16) \<or>
     (\<exists>i < 11. \<exists>a \<in> set (frees L i). a \<le> x \<and> x < a + 8)"

lemma guardedI:
  "(a, i, n) \<in> set (smalls L) \<Longrightarrow> a \<le> x \<Longrightarrow> x < a + 16 \<Longrightarrow> guarded L x"
  "(d, n) \<in> set (larges L) \<Longrightarrow> d \<le> x \<Longrightarrow> x < d + 16 \<Longrightarrow> guarded L x"
  "i < 11 \<Longrightarrow> a \<in> set (frees L i) \<Longrightarrow> a \<le> x \<Longrightarrow> x < a + 8 \<Longrightarrow> guarded L x"
  unfolding guarded_def by blast+

fun chain :: "Memory \<Rightarrow> address \<Rightarrow> address list \<Rightarrow> bool" where
  "chain m p [] = (p = 0)"
| "chain m p (a # as) = (p = a \<and> a \<noteq> 0 \<and> chain m (read_ptr m a) as)"

definition tags_ok :: "address \<Rightarrow> Layout \<Rightarrow> address list \<Rightarrow> Memory \<Rightarrow> bool" where
  "tags_ok self L fl m \<longleftrightarrow>
     (\<forall>(a, i, n) \<in> set (smalls L). read_ptr m a = self \<and> read64 m (a + 8) = header_word i False) \<and>
     (\<forall>(d, n) \<in> set (larges L). read_ptr m d = self \<and> read64 m (d + 8) = header_word 0 True) \<and>
     (\<forall>i < 11. chain m (fl ! i) (frees L i))"

lemma chain_cong: "(\<And>a x. a \<in> set as \<Longrightarrow> a \<le> x \<Longrightarrow> x < a + 8 \<Longrightarrow> byte_at m x = byte_at m' x) \<Longrightarrow> chain m p as = chain m' p as"
proof (induction as arbitrary: p)
  case (Cons a as)
  have "read_ptr m a = read_ptr m' a"
    unfolding read_ptr_def by (intro arg_cong [of _ _ unat] read64_cong Cons.prems) simp_all
  moreover have "chain m q as = chain m' q as" for q using Cons.prems by (intro Cons.IH) auto
  ultimately show ?case by simp
qed simp

lemma tags_cong: "tags_ok self L fl m \<Longrightarrow> (\<And>x. guarded L x \<Longrightarrow> byte_at m' x = byte_at m x) \<Longrightarrow> tags_ok self L fl m'"
proof -
  assume t: "tags_ok self L fl m" and same: "\<And>x. guarded L x \<Longrightarrow> byte_at m' x = byte_at m x"
  have "read64 m' a = read64 m a \<and> read64 m' (a + 8) = read64 m (a + 8)" if "(a, i, n) \<in> set (smalls L)" for a i n
    by (intro conjI read64_cong same guardedI(1) [OF that]) simp_all
  moreover have "read64 m' a = read64 m a \<and> read64 m' (a + 8) = read64 m (a + 8)" if "(a, n) \<in> set (larges L)" for a n
    by (intro conjI read64_cong same guardedI(2) [OF that]) simp_all
  moreover have "chain m' p (frees L i) = chain m p (frees L i)" if "i < 11" for p i
    by (intro chain_cong same guardedI(3) [OF that]) simp_all
  ultimately show ?thesis using t by (auto simp: tags_ok_def read_ptr_def)
qed

text \<open>The chunks are placed in the used parts of the blocks, the large ones in blocks of their own.\<close>

definition small_block :: "Layout \<Rightarrow> BlockStorage \<Rightarrow> bool" where
  "small_block L b \<longleftrightarrow> bs_data b \<notin> fst ` set (larges L)"

definition owned :: "BlockStorage list \<Rightarrow> (address \<times> nat) list \<Rightarrow> bool" where
  "owned bl bufs \<longleftrightarrow> distinct (map bs_self bl @ map bs_data bl) \<and>
     (\<forall>b \<in> set bl. (bs_self b, sizeof_BlockStorage) \<in> set bufs \<and> (bs_data b, bs_cap b) \<in> set bufs \<and>
        bs_endptr b = bs_data b + bs_cap b \<and> 0 < bs_cap b)"

definition placed :: "BlockStorage list \<Rightarrow> Layout \<Rightarrow> bool" where
  "placed bl L \<longleftrightarrow>
     (\<forall>(d, n) \<in> set (larges L). \<exists>b \<in> set bl. bs_data b = d \<and> n + 16 \<le> bs_cap b) \<and>
     (\<forall>b \<in> set bl. small_block L b \<longrightarrow> bs_data b \<le> bs_freeptr b \<and> bs_freeptr b \<le> bs_data b + bs_cap b \<and> 8 dvd bs_freeptr b) \<and>
     (\<forall>(a, len) \<in> set (slots L). 8 dvd a \<and> (\<exists>b \<in> set bl. small_block L b \<and> bs_data b \<le> a \<and> a + len \<le> bs_freeptr b))"

definition geometry :: "BlockStorage list \<Rightarrow> address option \<Rightarrow> Layout \<Rightarrow> bool" where
  "geometry bl act L \<longleftrightarrow> placed bl L \<and> distinct (map fst (larges L)) \<and> apart (slots L) \<and>
     (\<forall>(a, i, n) \<in> set (smalls L). 2 \<le> i \<and> i < 11 \<and> n + 16 \<le> fsize i) \<and>
     (\<forall>s. act = Some s \<longrightarrow> (\<exists>b \<in> set bl. bs_self b = s \<and> small_block L b))"

section \<open>Where the chunks are\<close>

lemma owned_apart:
  assumes "owned bl bufs" "apart bufs" "b \<in> set bl" "b' \<in> set bl" "b \<noteq> b'"
  shows "\<not> overlap (bs_data b, bs_cap b) (bs_data b', bs_cap b')"
proof -
  have "bs_data b \<noteq> bs_data b'"
    using assms(1,3-5) by (auto simp: owned_def distinct_map dest: inj_onD)
  with assms show ?thesis by (intro apartD [OF assms(2)]) (auto simp: owned_def)
qed

lemma placedD:
  assumes "placed bl L"
  shows "(d, n) \<in> set (larges L) \<Longrightarrow> \<exists>b \<in> set bl. bs_data b = d \<and> n + 16 \<le> bs_cap b"
    and "b \<in> set bl \<Longrightarrow> small_block L b \<Longrightarrow> bs_data b \<le> bs_freeptr b \<and> bs_freeptr b \<le> bs_data b + bs_cap b \<and> 8 dvd bs_freeptr b"
    and "(a, len) \<in> set (slots L) \<Longrightarrow> 8 dvd a \<and> (\<exists>b \<in> set bl. small_block L b \<and> bs_data b \<le> a \<and> a + len \<le> bs_freeptr b)"
  using assms unfolding placed_def by blast+

lemma placedI:
  assumes "\<And>d n. (d, n) \<in> set (larges L) \<Longrightarrow> \<exists>b \<in> set bl. bs_data b = d \<and> n + 16 \<le> bs_cap b"
    and "\<And>b. b \<in> set bl \<Longrightarrow> small_block L b \<Longrightarrow> bs_data b \<le> bs_freeptr b \<and> bs_freeptr b \<le> bs_data b + bs_cap b \<and> 8 dvd bs_freeptr b"
    and "\<And>a len. (a, len) \<in> set (slots L) \<Longrightarrow> 8 dvd a \<and> (\<exists>b \<in> set bl. small_block L b \<and> bs_data b \<le> a \<and> a + len \<le> bs_freeptr b)"
  shows "placed bl L"
  using assms unfolding placed_def by blast

lemma slot_in_small:
  assumes "placed bl L" "(a, len) \<in> set (slots L)"
  shows "\<exists>b \<in> set bl. small_block L b \<and> bs_data b \<le> a \<and> a + len \<le> bs_freeptr b \<and> bs_freeptr b \<le> bs_data b + bs_cap b"
  using placedD(3) [OF assms] placedD(2) [OF assms(1)] by blast

lemma large_not_small: "(d, n) \<in> set (larges L) \<Longrightarrow> bs_data b = d \<Longrightarrow> \<not> small_block L b"
  unfolding small_block_def by (metis fst_conv image_eqI)

lemma large_block:
  assumes "placed bl L" "(d, n) \<in> set (larges L)"
  shows "\<exists>b \<in> set bl. bs_data b = d \<and> n + 16 \<le> bs_cap b \<and> \<not> small_block L b"
  using placedD(1) [OF assms] large_not_small [OF assms(2)] by blast

lemma slot_large_apart:
  assumes "placed bl L" "owned bl bufs" "apart bufs" "(a, len) \<in> set (slots L)" "(d, n) \<in> set (larges L)"
  shows "\<not> overlap (a, len) (d, n + 16)"
proof -
  obtain b where b: "b \<in> set bl" "small_block L b" "bs_data b \<le> a" "a + len \<le> bs_freeptr b" "bs_freeptr b \<le> bs_data b + bs_cap b"
    using slot_in_small [OF assms(1,4)] by blast
  obtain b' where b': "b' \<in> set bl" "bs_data b' = d" "n + 16 \<le> bs_cap b'" "\<not> small_block L b'"
    using large_block [OF assms(1,5)] by blast
  have "\<not> overlap (bs_data b, bs_cap b) (bs_data b', bs_cap b')"
    using owned_apart [OF assms(2,3) b(1) b'(1)] b(2) b'(4) by auto
  with b b' show ?thesis by auto
qed

lemma larges_apart:
  assumes "placed bl L" "owned bl bufs" "apart bufs" "(d, n) \<in> set (larges L)" "(d', n') \<in> set (larges L)" "d \<noteq> d'"
  shows "\<not> overlap (d, n + 16) (d', n' + 16)"
proof -
  obtain b where b: "b \<in> set bl" "bs_data b = d" "n + 16 \<le> bs_cap b" using large_block [OF assms(1,4)] by blast
  obtain b' where b': "b' \<in> set bl" "bs_data b' = d'" "n' + 16 \<le> bs_cap b'" using large_block [OF assms(1,5)] by blast
  have "b \<noteq> b'" using b(2) b'(2) assms(6) by auto
  from owned_apart [OF assms(2,3) b(1) b'(1) this] b b' show ?thesis by auto
qed

lemma slots_small: "(a, i, n) \<in> set (smalls L) \<Longrightarrow> (a, fsize i) \<in> set (slots L)"
  by (force simp: slots_def)

lemma slots_free: "a \<in> set (frees L i) \<Longrightarrow> i < 11 \<Longrightarrow> (a, fsize i) \<in> set (slots L)"
  by (auto simp: slots_def)

text \<open>A range apart from every slot and every large chunk is not guarded.\<close>

lemma not_guarded:
  assumes "\<And>s. s \<in> set (slots L) \<Longrightarrow> \<not> overlap (a, len) s" "\<And>d n. (d, n) \<in> set (larges L) \<Longrightarrow> \<not> overlap (a, len) (d, 16)"
    and "\<forall>(a, i, n) \<in> set (smalls L). 2 \<le> i \<and> i < 11 \<and> n + 16 \<le> fsize i" "a \<le> x" "x < a + len"
  shows "\<not> guarded L x"
proof
  assume "guarded L x"
  then consider (small) b i n where "(b, i, n) \<in> set (smalls L)" "b \<le> x" "x < b + 16"
    | (large) d n where "(d, n) \<in> set (larges L)" "d \<le> x" "x < d + 16"
    | (free) b i where "i < 11" "b \<in> set (frees L i)" "b \<le> x" "x < b + 8"
    by (fastforce simp: guarded_def)
  then show False
  proof cases
    case small
    with assms(1) [OF slots_small [OF small(1)]] assms(3-5) show ?thesis by fastforce
  next
    case large
    with assms(2) [OF large(1)] assms(4,5) show ?thesis by simp
  next
    case free
    with assms(1) [OF slots_free [OF free(2,1)]] fsize_bounds(1) [of i] assms(4,5) show ?thesis by simp
  qed
qed

section \<open>Chunks in and out of the layout\<close>

definition tagged :: "address \<Rightarrow> address \<Rightarrow> nat \<Rightarrow> bool \<Rightarrow> Memory \<Rightarrow> Memory" where
  "tagged self a index external m = WriteCtx (a + 16) self (WriteHdr (a + 16) index external m)"

lemma tagged_other: "x < a \<or> a + 16 \<le> x \<Longrightarrow> byte_at (tagged self a i e m) x = byte_at m x"
  by (auto simp: tagged_def WriteCtx_def WriteHdr_def write_ptr_def)

lemma buffers_tagged [simp]: "buffers (tagged self a i e m) = buffers m"
  by (simp add: tagged_def WriteCtx_def WriteHdr_def write_ptr_def)

lemma read_tagged: "self < 2 ^ 64 \<Longrightarrow> read_ptr (tagged self a i e m) a = self \<and> read64 (tagged self a i e m) (a + 8) = header_word i e"
proof -
  assume s: "self < 2 ^ 64"
  have "read64 (tagged self a i e m) (a + 8) = read64 (WriteHdr (a + 16) i e m) (a + 8)"
    by (rule read64_cong) (simp add: tagged_def WriteCtx_def write_ptr_def)
  with s show ?thesis by (simp add: tagged_def WriteCtx_def WriteHdr_def add.commute [of a])
qed

lemma buffers_ok_frame: "buffers m' = buffers m \<Longrightarrow> buffers_ok m' = buffers_ok m"
  by (simp add: buffers_ok_def)

definition with_small :: "address \<Rightarrow> nat \<Rightarrow> nat \<Rightarrow> Layout \<Rightarrow> Layout" where
  "with_small a i n L = L\<lparr>smalls := (a, i, n) # smalls L\<rparr>"

definition with_large :: "address \<Rightarrow> nat \<Rightarrow> Layout \<Rightarrow> Layout" where
  "with_large d n L = L\<lparr>larges := (d, n) # larges L\<rparr>"

definition with_free :: "nat \<Rightarrow> address \<Rightarrow> Layout \<Rightarrow> Layout" where
  "with_free i a L = L\<lparr>frees := (frees L)(i := a # frees L i)\<rparr>"

lemma handed_out_with [simp]:
  "handed_out (with_free i a L) = handed_out L" "mset (handed_out (with_small a i n L)) = add_mset (a + 16, n) (mset (handed_out L))"
  "mset (handed_out (with_large d n L)) = add_mset (d + 16, n) (mset (handed_out L))"
  by (simp_all add: handed_out_def with_small_def with_large_def with_free_def)

lemma larges_with [simp]: "larges (with_small a i n L) = larges L" "larges (with_free i a L) = larges L"
  "larges (with_large d n L) = (d, n) # larges L" "smalls (with_free i a L) = smalls L" "smalls (with_large d n L) = smalls L"
  "smalls (with_small a i n L) = (a, i, n) # smalls L"
  by (simp_all add: with_small_def with_large_def with_free_def)

lemma small_block_with [simp]: "small_block (with_small a i n L) = small_block L" "small_block (with_free i a L) = small_block L"
  by (simp_all add: small_block_def [abs_def])

lemma slots_with: "slots (with_small a i n L) = (a, fsize i) # slots L" "slots (with_large d n L) = slots L"
  by (simp_all add: slots_def with_small_def with_large_def)

lemma slots_with_free: "i < 11 \<Longrightarrow> mset (slots (with_free i a L)) = add_mset (a, fsize i) (mset (slots L))"
proof -
  assume i: "i < 11"
  then have upt: "[0..<11] = [0..<i] @ i # [Suc i..<11]"
    by (metis le0 less_imp_le_nat upt_conv_Cons upt_add_eq_append le_add_diff_inverse)
  have "concat (map (\<lambda>j. map (\<lambda>b. (b, fsize j)) (((frees L)(i := a # frees L i)) j)) js) =
      concat (map (\<lambda>j. map (\<lambda>b. (b, fsize j)) (frees L j)) js)" if "i \<notin> set js" for js
    using that by (induction js) auto
  then show ?thesis by (simp add: slots_def with_free_def upt)
qed

lemma set_slots_with_free: "i < 11 \<Longrightarrow> set (slots (with_free i a L)) = insert (a, fsize i) (set (slots L))"
  using slots_with_free [of i a L] by (metis set_mset_add_mset_insert set_mset_mset)

lemma tags_with_small:
  "tags_ok self L fl m \<Longrightarrow> self < 2 ^ 64 \<Longrightarrow> (\<And>x. a \<le> x \<Longrightarrow> x < a + 16 \<Longrightarrow> \<not> guarded L x) \<Longrightarrow>
   tags_ok self (with_small a i n L) fl (tagged self a i False m)"
proof -
  assume t: "tags_ok self L fl m" and s: "self < 2 ^ 64" and g: "\<And>x. a \<le> x \<Longrightarrow> x < a + 16 \<Longrightarrow> \<not> guarded L x"
  have "tags_ok self L fl (tagged self a i False m)"
    using g by (intro tags_cong [OF t] tagged_other) (meson not_le)
  then show ?thesis using read_tagged [OF s] by (auto simp: tags_ok_def with_small_def)
qed

lemma tags_with_large:
  "tags_ok self L fl m \<Longrightarrow> self < 2 ^ 64 \<Longrightarrow> (\<And>x. a \<le> x \<Longrightarrow> x < a + 16 \<Longrightarrow> \<not> guarded L x) \<Longrightarrow>
   tags_ok self (with_large a n L) fl (tagged self a 0 True m)"
proof -
  assume t: "tags_ok self L fl m" and s: "self < 2 ^ 64" and g: "\<And>x. a \<le> x \<Longrightarrow> x < a + 16 \<Longrightarrow> \<not> guarded L x"
  have "tags_ok self L fl (tagged self a 0 True m)"
    using g by (intro tags_cong [OF t] tagged_other) (meson not_le)
  then show ?thesis using read_tagged [OF s] by (auto simp: tags_ok_def with_large_def)
qed

lemma tags_with_free:
  assumes "tags_ok self L fl m" "length fl = 11" "i < 11" "a \<noteq> 0" "fl ! i < 2 ^ 64" "\<And>x. a \<le> x \<Longrightarrow> x < a + 8 \<Longrightarrow> \<not> guarded L x"
  shows "tags_ok self (with_free i a L) (fl[i := a]) (write_ptr a (fl ! i) m)"
proof -
  have t: "tags_ok self L fl (write_ptr a (fl ! i) m)"
    unfolding write_ptr_def using assms(6) by (intro tags_cong [OF assms(1)] write64_other) (meson not_le)
  have "chain (write_ptr a (fl ! i) m) (fl[i := a] ! j) (frees (with_free i a L) j)" if "j < 11" for j
    using t assms(2-5) that by (cases "j = i") (auto simp: tags_ok_def with_free_def)
  with t show ?thesis by (simp add: tags_ok_def)
qed

text \<open>Taking a chunk out keeps what is said of the others.\<close>

lemma tags_without:
  "tags_ok self (with_small a i n L) fl m \<Longrightarrow> tags_ok self L fl m"
  "tags_ok self (with_large d n L) fl m \<Longrightarrow> tags_ok self L fl m"
  "tags_ok self (with_free i a L) fl m \<Longrightarrow> length fl = 11 \<Longrightarrow> tags_ok self L (fl[i := read_ptr m a]) m"
proof -
  show "tags_ok self (with_small a i n L) fl m \<Longrightarrow> tags_ok self L fl m" by (simp add: tags_ok_def with_small_def)
  show "tags_ok self (with_large d n L) fl m \<Longrightarrow> tags_ok self L fl m" by (simp add: tags_ok_def with_large_def)
  assume t: "tags_ok self (with_free i a L) fl m" and fl: "length fl = 11"
  have "chain m (fl[i := read_ptr m a] ! j) (frees L j)" if "j < 11" for j
  proof -
    have "chain m (fl ! j) (frees (with_free i a L) j)" using t that by (simp add: tags_ok_def)
    then show ?thesis using fl that by (cases "j = i") (simp_all add: with_free_def)
  qed
  with t show "tags_ok self L (fl[i := read_ptr m a]) m" by (simp add: tags_ok_def)
qed

lemma geometry_perm:
  assumes "mset (slots L') = mset (slots L)" "larges L' = larges L" "geometry bl act L"
    and "\<forall>(a, i, n) \<in> set (smalls L'). 2 \<le> i \<and> i < 11 \<and> n + 16 \<le> fsize i"
  shows "geometry bl act L'"
proof -
  have "set (slots L') = set (slots L)" using assms(1) by (rule mset_eq_setD)
  moreover have "small_block L' = small_block L" using assms(2) by (simp add: small_block_def [abs_def])
  ultimately show ?thesis
    using assms(2-4) apart_perm [OF assms(1)] by (simp add: geometry_def placed_def)
qed

lemma geometry_without_free:
  assumes "geometry bl act (with_free i a L)" "i < 11"
  shows "geometry bl act L" and "\<And>s. s \<in> set (slots L) \<Longrightarrow> \<not> overlap (a, fsize i) s"
    and "8 dvd a \<and> (\<exists>b \<in> set bl. small_block L b \<and> bs_data b \<le> a \<and> a + fsize i \<le> bs_freeptr b)"
proof -
  have "apart ((a, fsize i) # slots L)"
    using assms apart_perm [of "(a, fsize i) # slots L" "slots (with_free i a L)"] slots_with_free [OF assms(2), of a L]
    by (simp add: geometry_def)
  with assms show "geometry bl act L" "\<And>s. s \<in> set (slots L) \<Longrightarrow> \<not> overlap (a, fsize i) s"
    by (auto simp: geometry_def placed_def set_slots_with_free)
  show "8 dvd a \<and> (\<exists>b \<in> set bl. small_block L b \<and> bs_data b \<le> a \<and> a + fsize i \<le> bs_freeptr b)"
    using assms by (simp add: geometry_def placed_def set_slots_with_free)
qed

lemma geometry_without_small:
  assumes "geometry bl act (with_small a i n L)"
  shows "geometry bl act L" and "\<And>s. s \<in> set (slots L) \<Longrightarrow> \<not> overlap (a, fsize i) s"
    and "8 dvd a \<and> (\<exists>b \<in> set bl. small_block L b \<and> bs_data b \<le> a \<and> a + fsize i \<le> bs_freeptr b)"
    and "2 \<le> i \<and> i < 11 \<and> n + 16 \<le> fsize i"
  using assms by (auto simp: geometry_def placed_def slots_with)

lemma geometry_with_small:
  assumes "geometry bl act L" "\<And>s. s \<in> set (slots L) \<Longrightarrow> \<not> overlap (a, fsize i) s"
    and "8 dvd a \<and> (\<exists>b \<in> set bl. small_block L b \<and> bs_data b \<le> a \<and> a + fsize i \<le> bs_freeptr b)"
    and "2 \<le> i \<and> i < 11 \<and> n + 16 \<le> fsize i"
  shows "geometry bl act (with_small a i n L)"
  using assms by (auto simp: geometry_def placed_def slots_with)

lemma geometry_with_free:
  assumes "geometry bl act L" "\<And>s. s \<in> set (slots L) \<Longrightarrow> \<not> overlap (a, fsize i) s" "i < 11"
    and "8 dvd a \<and> (\<exists>b \<in> set bl. small_block L b \<and> bs_data b \<le> a \<and> a + fsize i \<le> bs_freeptr b)"
  shows "geometry bl act (with_free i a L)"
proof -
  have "apart (slots (with_free i a L)) = apart ((a, fsize i) # slots L)"
    using slots_with_free [OF assms(3), of a L] by (intro apart_perm) simp
  with assms show ?thesis by (simp add: geometry_def placed_def set_slots_with_free)
qed

lemma chunk_not_guarded:
  assumes "geometry bl act L" "owned bl bufs" "apart bufs" "\<And>s. s \<in> set (slots L) \<Longrightarrow> \<not> overlap (a, len) s"
    and "b \<in> set bl" "small_block L b" "bs_data b \<le> a" "a + len \<le> bs_freeptr b" "a \<le> x" "x < a + len"
  shows "\<not> guarded L x"
proof (rule not_guarded [of L a len])
  show "\<not> overlap (a, len) (d, 16)" if d: "(d, n) \<in> set (larges L)" for d n
  proof -
    have pl: "placed bl L" using assms(1) by (simp add: geometry_def)
    obtain b' where b': "b' \<in> set bl" "bs_data b' = d" "n + 16 \<le> bs_cap b'" "\<not> small_block L b'" using large_block [OF pl d] by blast
    have "\<not> overlap (bs_data b, bs_cap b) (bs_data b', bs_cap b')"
      using owned_apart [OF assms(2,3,5) b'(1)] assms(6) b'(4) by auto
    with b' assms(7,8) placedD(2) [OF pl assms(5,6)] show ?thesis by auto
  qed
qed (use assms in \<open>auto simp: geometry_def\<close>)

section \<open>The invariant and its changes\<close>

definition core :: "address \<Rightarrow> BlockStorage list \<Rightarrow> address option \<Rightarrow> address list \<Rightarrow> Layout \<Rightarrow> Memory \<Rightarrow> bool" where
  "core self bl act fl L m \<longleftrightarrow> buffers_ok m \<and> self < 2 ^ 64 \<and> length fl = 11 \<and> owned bl (buffers m) \<and> geometry bl act L \<and>
     tags_ok self L fl m"

definition limits_ok :: "AllocSetContext \<Rightarrow> bool" where
  "limits_ok c \<longleftrightarrow> as_chunk_limit c \<le> 8192 \<and> as_init_block_size c < 2 ^ 62 \<and> as_max_block_size c < 2 ^ 62 \<and> as_next_block_size c < 2 ^ 62"

definition allocset_inv :: "address \<Rightarrow> AllocSetContext \<Rightarrow> (address \<times> nat) list \<Rightarrow> Memory \<Rightarrow> bool" where
  "allocset_inv self c out m \<longleftrightarrow> limits_ok c \<and>
     (\<exists>L. mset out = mset (handed_out L) \<and> core self (as_blocks c) (as_freeptr c) (as_freelist c) L m)"

lemma core_with_small:
  assumes "core self bl act fl L m" "\<And>s. s \<in> set (slots L) \<Longrightarrow> \<not> overlap (a, fsize i) s"
    and "8 dvd a \<and> (\<exists>b \<in> set bl. small_block L b \<and> bs_data b \<le> a \<and> a + fsize i \<le> bs_freeptr b)"
    and "2 \<le> i \<and> i < 11 \<and> n + 16 \<le> fsize i"
  shows "core self bl act fl (with_small a i n L) (tagged self a i False m)"
proof -
  have "\<not> guarded L x" if "a \<le> x" "x < a + 16" for x
    using assms that fsize_bounds(3) [of i] chunk_not_guarded [of bl act L "buffers m" a "fsize i"]
    by (auto simp: core_def buffers_ok_def)
  then show ?thesis
    using assms geometry_with_small [OF _ assms(2-4)] tags_with_small [of self L fl m a i n] buffers_ok_frame [of "tagged self a i False m" m]
    by (auto simp: core_def)
qed

lemma core_with_free:
  assumes "core self bl act fl L m" "\<And>s. s \<in> set (slots L) \<Longrightarrow> \<not> overlap (a, fsize i) s" "i < 11"
    and "8 dvd a \<and> (\<exists>b \<in> set bl. small_block L b \<and> bs_data b \<le> a \<and> a + fsize i \<le> bs_freeptr b)"
    and "a \<noteq> 0" "fl ! i < 2 ^ 64"
  shows "core self bl act (fl[i := a]) (with_free i a L) (write_ptr a (fl ! i) m)"
proof -
  have "\<not> guarded L x" if "a \<le> x" "x < a + 8" for x
    using assms that fsize_bounds(1) [of i] chunk_not_guarded [of bl act L "buffers m" a "fsize i"]
    by (auto simp: core_def buffers_ok_def)
  then show ?thesis
    using assms geometry_with_free [OF _ assms(2-4)] tags_with_free [of self L fl m i a] buffers_ok_frame [of "write_ptr a (fl ! i) m" m]
    by (auto simp: core_def write_ptr_def)
qed

lemma core_without_small:
  assumes "core self bl act fl (with_small a i n L) m"
  shows "core self bl act fl L m"
  using assms geometry_without_small(1) tags_without(1) by (auto simp: core_def)

lemma core_without_free:
  assumes "core self bl act fl (with_free i a L) m" "i < 11"
  shows "core self bl act (fl[i := read_ptr m a]) L m"
  using assms geometry_without_free(1) tags_without(3) by (auto simp: core_def)

text \<open>Every chunk lies in a buffer, behind address 0 and below the end of memory.\<close>

lemma chunk_address:
  assumes "core self bl act fl L m" "(a, len) \<in> set (slots L)"
  shows "0 < a \<and> a + len < 2 ^ 64"
proof -
  obtain b where b: "b \<in> set bl" "bs_data b \<le> a" "a + len \<le> bs_freeptr b" "bs_freeptr b \<le> bs_data b + bs_cap b"
    using slot_in_small [OF _ assms(2), of bl] assms(1) by (auto simp: core_def geometry_def)
  then have "(bs_data b, bs_cap b) \<in> set (buffers m)" using assms(1) by (auto simp: core_def owned_def)
  then have "0 < bs_data b \<and> bs_data b + bs_cap b < 2 ^ 64" using assms(1) by (auto simp: core_def buffers_ok_def)
  with b show ?thesis by auto
qed

lemma list_head_bound: "core self bl act fl L m \<Longrightarrow> i < 11 \<Longrightarrow> fl ! i < 2 ^ 64"
proof -
  assume c: "core self bl act fl L m" and i: "i < 11"
  then have ch: "chain m (fl ! i) (frees L i)" by (simp add: core_def tags_ok_def)
  show "fl ! i < 2 ^ 64"
  proof (cases "frees L i")
    case (Cons a as)
    with ch chunk_address [OF c slots_free [of a L i]] i show ?thesis by auto
  qed (use ch in simp)
qed

subsection \<open>Blocks\<close>

lemma core_advance:
  assumes c: "core self bl act fl L m" and b: "b \<in> set bl" "act = Some (bs_self b)" "8 dvd n" "bs_freeptr b + n \<le> bs_endptr b"
  defines "bl' \<equiv> advance_block (bs_self b) n bl"
  shows "core self bl' act fl L m"
    and "\<And>s. s \<in> set (slots L) \<Longrightarrow> \<not> overlap (bs_freeptr b, n) s"
    and "8 dvd bs_freeptr b \<and> (\<exists>b' \<in> set bl'. small_block L b' \<and> bs_data b' \<le> bs_freeptr b \<and> bs_freeptr b + n \<le> bs_freeptr b')"
proof -
  have own: "owned bl (buffers m)" and geo: "geometry bl act L" and ap: "apart (buffers m)"
    using c by (auto simp: core_def buffers_ok_def)
  have pl: "placed bl L" using geo by (simp add: geometry_def)
  have same: "b1 = b2" if "b1 \<in> set bl" "b2 \<in> set bl" "bs_self b1 = bs_self b2" for b1 b2
    using own that by (auto simp: owned_def distinct_map dest: inj_onD)
  have small: "small_block L b" using geo b(1,2) same by (auto simp: geometry_def)
  have fp: "bs_data b \<le> bs_freeptr b" "8 dvd bs_freeptr b" using placedD(2) [OF pl b(1) small] by auto
  have maps: "map bs_self bl' = map bs_self bl" "map bs_data bl' = map bs_data bl" by (simp_all add: bl'_def advance_block_def)
  have in_bl': "b' \<in> set bl' \<longleftrightarrow> (\<exists>b0 \<in> set bl. b' = (if b0 = b then b0\<lparr>bs_freeptr := bs_freeptr b0 + n\<rparr> else b0))" for b'
  proof -
    have "bl' = map (\<lambda>b0. if b0 = b then b0\<lparr>bs_freeptr := bs_freeptr b0 + n\<rparr> else b0) bl"
      unfolding bl'_def advance_block_def using same b(1) by (intro map_cong) auto
    then show ?thesis by (auto simp: image_iff)
  qed
  have end': "bs_endptr b = bs_data b + bs_cap b" using own b(1) by (simp add: owned_def)
  have own': "owned bl' (buffers m)"
    using own unfolding owned_def maps by (auto simp: in_bl')
  have place: "\<exists>b' \<in> set bl'. small_block L b' \<and> bs_data b' \<le> a \<and> a + len \<le> bs_freeptr b'"
    if "b0 \<in> set bl" "small_block L b0" "bs_data b0 \<le> a" "a + len \<le> bs_freeptr b0" for a len b0
    using that by (intro bexI [of _ "if b0 = b then b0\<lparr>bs_freeptr := bs_freeptr b0 + n\<rparr> else b0"]) (auto simp: in_bl' small_block_def)
  have "placed bl' L"
  proof (rule placedI)
    fix d k assume "(d, k) \<in> set (larges L)"
    then obtain b0 where "b0 \<in> set bl" "bs_data b0 = d" "k + 16 \<le> bs_cap b0" using placedD(1) [OF pl] by blast
    then show "\<exists>b \<in> set bl'. bs_data b = d \<and> k + 16 \<le> bs_cap b"
      by (intro bexI [of _ "if b0 = b then b0\<lparr>bs_freeptr := bs_freeptr b0 + n\<rparr> else b0"]) (auto simp: in_bl')
  next
    fix b' assume b': "b' \<in> set bl'" "small_block L b'"
    then obtain b0 where b0: "b0 \<in> set bl" "b' = (if b0 = b then b0\<lparr>bs_freeptr := bs_freeptr b0 + n\<rparr> else b0)" using in_bl' by blast
    then have "small_block L b0" using b'(2) by (auto simp: small_block_def split: if_splits)
    from placedD(2) [OF pl b0(1) this] b0 b(3,4) end'
    show "bs_data b' \<le> bs_freeptr b' \<and> bs_freeptr b' \<le> bs_data b' + bs_cap b' \<and> 8 dvd bs_freeptr b'" by auto
  next
    fix a len assume s: "(a, len) \<in> set (slots L)"
    show "8 dvd a \<and> (\<exists>b \<in> set bl'. small_block L b \<and> bs_data b \<le> a \<and> a + len \<le> bs_freeptr b)"
      using placedD(3) [OF pl s] place by blast
  qed
  moreover have "\<exists>b' \<in> set bl'. bs_self b' = s \<and> small_block L b'" if "act = Some s" for s
    using that b(1,2) small in_bl' by (intro bexI [of _ "b\<lparr>bs_freeptr := bs_freeptr b + n\<rparr>"]) (auto simp: small_block_def)
  ultimately have "geometry bl' act L" using geo by (simp add: geometry_def)
  with own' c show "core self bl' act fl L m" by (simp add: core_def)
  show "\<not> overlap (bs_freeptr b, n) s" if "s \<in> set (slots L)" for s
  proof -
    obtain a len where s: "s = (a, len)" by fastforce
    then obtain b1 where b1: "b1 \<in> set bl" "small_block L b1" "bs_data b1 \<le> a" "a + len \<le> bs_freeptr b1" "bs_freeptr b1 \<le> bs_data b1 + bs_cap b1"
      using slot_in_small [OF pl] \<open>s \<in> set (slots L)\<close> by blast
    show ?thesis
    proof (cases "b1 = b")
      case False
      from owned_apart [OF own ap b1(1) b(1) this] b1 s fp b(4) end' show ?thesis by auto
    qed (use b1 s in auto)
  qed
  show "8 dvd bs_freeptr b \<and> (\<exists>b' \<in> set bl'. small_block L b' \<and> bs_data b' \<le> bs_freeptr b \<and> bs_freeptr b + n \<le> bs_freeptr b')"
  proof -
    have "b\<lparr>bs_freeptr := bs_freeptr b + n\<rparr> \<in> set bl'" using in_bl' b(1) by auto
    moreover have "small_block L (b\<lparr>bs_freeptr := bs_freeptr b + n\<rparr>)" using small by (simp add: small_block_def)
    ultimately show ?thesis using fp by (intro conjI bexI [of _ "b\<lparr>bs_freeptr := bs_freeptr b + n\<rparr>"]) simp_all
  qed
qed

lemma fresh_base: "suitable a n m \<Longrightarrow> 0 < n \<Longrightarrow> (a', k) \<in> set (buffers m) \<Longrightarrow> 0 < k \<Longrightarrow> a \<noteq> a'"
  by (auto simp: suitable_def list_all_iff)

lemma owned_fresh:
  assumes "suitable a n m" "0 < n" "owned bl (buffers m)"
  shows "a \<notin> bs_self ` set bl \<and> a \<notin> bs_data ` set bl"
  using assms(3) fresh_base [OF assms(1,2)] by (force simp: owned_def sizeof_BlockStorage_def)

lemma owned_mono: "owned bl bufs \<Longrightarrow> set bufs \<subseteq> set bufs' \<Longrightarrow> owned bl bufs'"
  by (auto simp: owned_def)

lemma owned_free:
  assumes "owned bl (buffers m)" "a \<notin> bs_self ` set bl" "a \<notin> bs_data ` set bl"
  shows "owned bl (buffers (free_buffer a m))"
  using assms by (auto simp: owned_def free_buffer_def)

lemma create_block:
  assumes "AllocSetCreateBlock n m = (r, m')" "buffers_ok m" "owned bl (buffers m)"
  shows "buffers_ok m' \<and> byte_at m' = byte_at m \<and> owned bl (buffers m')"
    and "r = Inr b \<Longrightarrow> 0 < round8 n \<Longrightarrow> owned (b\<lparr>bs_freeptr := f\<rparr> # bl) (buffers m') \<and> bs_freeptr b = bs_data b \<and> bs_cap b = round8 n \<and>
      16 dvd bs_data b"
proof -
  obtain s1 m1 where s1: "malloc sizeof_BlockStorage m = (s1, m1)" by fastforce
  note ok1 = malloc_ok [OF assms(2) s1]
  have "(buffers_ok m' \<and> byte_at m' = byte_at m \<and> owned bl (buffers m')) \<and>
     (\<forall>b. r = Inr b \<longrightarrow> 0 < round8 n \<longrightarrow> owned (b\<lparr>bs_freeptr := f\<rparr> # bl) (buffers m') \<and> bs_freeptr b = bs_data b \<and> bs_cap b = round8 n \<and>
       16 dvd bs_data b)"
  proof (cases s1)
    case None
    with assms s1 ok1 malloc_None [of sizeof_BlockStorage m m1] show ?thesis by (auto simp: AllocSetCreateBlock_def)
  next
    case (Some s)
    have s: "suitable s sizeof_BlockStorage m" "buffers m1 = (s, sizeof_BlockStorage) # buffers m" "byte_at m1 = byte_at m"
      using malloc_Some [of sizeof_BlockStorage m s m1] s1 Some by auto
    have own1: "owned bl (buffers m1)" using assms(3) by (rule owned_mono) (auto simp: s(2))
    have s_new: "s \<notin> bs_self ` set bl" "s \<notin> bs_data ` set bl"
      using owned_fresh [OF s(1) _ assms(3)] by (auto simp: sizeof_BlockStorage_def)
    obtain d1 m2 where d1: "malloc (round8 n) m1 = (d1, m2)" by fastforce
    note ok2 = malloc_ok [OF ok1 d1]
    show ?thesis
    proof (cases d1)
      case None
      have m2: "buffers m2 = buffers m1" "byte_at m2 = byte_at m1" using malloc_None [of "round8 n" m1 m2] d1 None by auto
      then have "owned bl (buffers (free_buffer s m2))" using own1 s_new by (intro owned_free) simp_all
      moreover have "r = Inl BadAlloc \<and> m' = free_buffer s m2"
        using assms(1) s1 Some d1 None by (simp add: AllocSetCreateBlock_def)
      ultimately show ?thesis using free_buffer_ok [OF ok2] m2 s(3) by (simp add: free_buffer_def)
    next
      case (Some d)
      have d: "suitable d (round8 n) m1" "buffers m2 = (d, round8 n) # buffers m1" "byte_at m2 = byte_at m1"
        using malloc_Some [of "round8 n" m1 d m2] d1 Some by auto
      have r: "r = Inr \<lparr>bs_self = s, bs_data = d, bs_cap = round8 n, bs_freeptr = d, bs_endptr = w64 (d + round8 n)\<rparr>" "m' = m2"
        using assms(1) s1 \<open>s1 = Some s\<close> d1 Some by (simp_all add: AllocSetCreateBlock_def Let_def)
      have own2: "owned bl (buffers m2)" using own1 by (rule owned_mono) (auto simp: d(2))
      have "owned (b\<lparr>bs_freeptr := f\<rparr> # bl) (buffers m2)" if "0 < round8 n"
          "b = \<lparr>bs_self = s, bs_data = d, bs_cap = round8 n, bs_freeptr = d, bs_endptr = w64 (d + round8 n)\<rparr>" for b
      proof -
        have "d \<notin> bs_self ` set bl" "d \<notin> bs_data ` set bl" using owned_fresh [OF d(1) that(1) own1] by auto
        moreover have "d \<noteq> s" using fresh_base [OF d(1) that(1), of s sizeof_BlockStorage] s(2) by (auto simp: sizeof_BlockStorage_def)
        moreover have "d + round8 n < 2 ^ 64" using d(1) by (simp add: suitable_def)
        ultimately show ?thesis using own2 s_new that by (auto simp: owned_def d(2) s(2))
      qed
      moreover have "16 dvd d" using d(1) by (simp add: suitable_def)
      ultimately show ?thesis using ok2 own2 d(3) s(3) r by auto
    qed
  qed
  then show "buffers_ok m' \<and> byte_at m' = byte_at m \<and> owned bl (buffers m')"
    "r = Inr b \<Longrightarrow> 0 < round8 n \<Longrightarrow> owned (b\<lparr>bs_freeptr := f\<rparr> # bl) (buffers m') \<and> bs_freeptr b = bs_data b \<and> bs_cap b = round8 n \<and>
      16 dvd bs_data b"
    by blast+
qed

text \<open>A new block, whose layout is not used yet; a large one has its chunk at once.\<close>

lemma core_grow:
  assumes c: "core self bl act fl L m" and r: "AllocSetCreateBlock n m = (Inr b, m')" and n: "k \<le> round8 n" "0 < k" "8 dvd k"
  defines "b' \<equiv> b\<lparr>bs_freeptr := bs_data b + k\<rparr>"
  shows "core self (b' # bl) (Some (bs_self b)) fl L m'"
    and "\<And>s. s \<in> set (slots L) \<Longrightarrow> \<not> overlap (bs_data b, k) s"
    and "8 dvd bs_data b \<and> (\<exists>b0 \<in> set (b' # bl). small_block L b0 \<and> bs_data b0 \<le> bs_data b \<and> bs_data b + k \<le> bs_freeptr b0)"
proof -
  have ok: "buffers_ok m" "owned bl (buffers m)" and geo: "geometry bl act L" and tags: "tags_ok self L fl m"
    using c by (auto simp: core_def)
  have pl: "placed bl L" using geo by (simp add: geometry_def)
  have m': "buffers_ok m'" "byte_at m' = byte_at m" "owned (b' # bl) (buffers m')" "bs_cap b = round8 n" "16 dvd bs_data b"
    using create_block(1) [OF r ok] create_block(2) [OF r ok refl, where f = "bs_data b + k"] n by (auto simp: b'_def)
  have new: "bs_data b \<noteq> bs_data b0" "\<not> overlap (bs_data b, bs_cap b) (bs_data b0, bs_cap b0)" if "b0 \<in> set bl" for b0
  proof -
    show "bs_data b \<noteq> bs_data b0" using m'(3) that by (auto simp: owned_def b'_def)
    then have "b' \<noteq> b0" by (auto simp: b'_def)
    from owned_apart [OF m'(3) _ _ _ this] m'(1) that show "\<not> overlap (bs_data b, bs_cap b) (bs_data b0, bs_cap b0)"
      by (simp add: buffers_ok_def b'_def del: overlap.simps)
  qed
  have small: "small_block L b'"
  proof -
    have "bs_data b \<noteq> d" if "(d, j) \<in> set (larges L)" for d j using placedD(1) [OF pl that] new(1) by auto
    then show ?thesis by (fastforce simp: small_block_def b'_def)
  qed
  have dvd: "8 dvd bs_data b" using m'(5) by (rule dvd_trans [rotated]) simp
  have "placed (b' # bl) L"
  proof (rule placedI)
    fix d j assume "(d, j) \<in> set (larges L)"
    from placedD(1) [OF pl this] show "\<exists>b \<in> set (b' # bl). bs_data b = d \<and> j + 16 \<le> bs_cap b" by auto
  next
    fix b0 assume "b0 \<in> set (b' # bl)" "small_block L b0"
    with placedD(2) [OF pl, of b0] show "bs_data b0 \<le> bs_freeptr b0 \<and> bs_freeptr b0 \<le> bs_data b0 + bs_cap b0 \<and> 8 dvd bs_freeptr b0"
      using n dvd m'(4) by (auto simp: b'_def)
  next
    fix a len assume "(a, len) \<in> set (slots L)"
    from placedD(3) [OF pl this] show "8 dvd a \<and> (\<exists>b \<in> set (b' # bl). small_block L b \<and> bs_data b \<le> a \<and> a + len \<le> bs_freeptr b)" by auto
  qed
  with geo small have "geometry (b' # bl) (Some (bs_self b)) L" by (simp add: geometry_def b'_def)
  moreover have "tags_ok self L fl m'" using tags by (rule tags_cong) (simp add: m'(2))
  ultimately show "core self (b' # bl) (Some (bs_self b)) fl L m'" using c m' by (simp add: core_def)
  show "\<not> overlap (bs_data b, k) s" if s: "s \<in> set (slots L)" for s
  proof -
    obtain a len where al: "s = (a, len)" by fastforce
    then obtain b0 where b0: "b0 \<in> set bl" "bs_data b0 \<le> a" "a + len \<le> bs_freeptr b0" "bs_freeptr b0 \<le> bs_data b0 + bs_cap b0"
      using slot_in_small [OF pl] s by blast
    from new(2) [OF b0(1)] b0 al m'(4) n show ?thesis by auto
  qed
  show "8 dvd bs_data b \<and> (\<exists>b0 \<in> set (b' # bl). small_block L b0 \<and> bs_data b0 \<le> bs_data b \<and> bs_data b + k \<le> bs_freeptr b0)"
    using dvd small by (auto simp: b'_def)
qed

lemma core_large:
  assumes c: "core self bl act fl L m" and r: "AllocSetCreateBlock k m = (Inr b, m')" and n: "n + 16 \<le> round8 k"
  shows "core self (b # bl) act fl (with_large (bs_data b) n L) (tagged self (bs_data b) 0 True m')"
proof -
  have ok: "buffers_ok m" "owned bl (buffers m)" and geo: "geometry bl act L" and tags: "tags_ok self L fl m" and self: "self < 2 ^ 64"
    using c by (auto simp: core_def)
  have pl: "placed bl L" using geo by (simp add: geometry_def)
  have b_same: "b\<lparr>bs_freeptr := bs_freeptr b\<rparr> = b" by simp
  have m': "buffers_ok m'" "byte_at m' = byte_at m" "owned (b # bl) (buffers m')" "bs_cap b = round8 k"
    using create_block(1) [OF r ok] create_block(2) [OF r ok refl, where f = "bs_freeptr b"] n unfolding b_same by auto
  have new: "bs_data b \<noteq> bs_data b0" "\<not> overlap (bs_data b, bs_cap b) (bs_data b0, bs_cap b0)" if "b0 \<in> set bl" for b0
  proof -
    show "bs_data b \<noteq> bs_data b0" using m'(3) that by (auto simp: owned_def)
    then have "b \<noteq> b0" by auto
    from owned_apart [OF m'(3) _ _ _ this] m'(1) that show "\<not> overlap (bs_data b, bs_cap b) (bs_data b0, bs_cap b0)"
      by (simp add: buffers_ok_def del: overlap.simps)
  qed
  have fresh: "bs_data b \<notin> fst ` set (larges L)" using placedD(1) [OF pl] new(1) by fastforce
  have small: "small_block (with_large (bs_data b) n L) b0 \<longleftrightarrow> small_block L b0 \<and> bs_data b0 \<noteq> bs_data b" for b0
    by (auto simp: small_block_def)
  have "placed (b # bl) (with_large (bs_data b) n L)"
  proof (rule placedI)
    fix d j assume "(d, j) \<in> set (larges (with_large (bs_data b) n L))"
    with placedD(1) [OF pl, of d j] n m'(4) show "\<exists>b0 \<in> set (b # bl). bs_data b0 = d \<and> j + 16 \<le> bs_cap b0" by auto
  next
    fix b0 assume b0: "b0 \<in> set (b # bl)" "small_block (with_large (bs_data b) n L) b0"
    with placedD(2) [OF pl, of b0] small
    show "bs_data b0 \<le> bs_freeptr b0 \<and> bs_freeptr b0 \<le> bs_data b0 + bs_cap b0 \<and> 8 dvd bs_freeptr b0" by auto
  next
    fix a len assume "(a, len) \<in> set (slots (with_large (bs_data b) n L))"
    then obtain b0 where "8 dvd a" "b0 \<in> set bl" "small_block L b0" "bs_data b0 \<le> a" "a + len \<le> bs_freeptr b0"
      using placedD(3) [OF pl] by (auto simp: slots_with)
    then show "8 dvd a \<and> (\<exists>b0 \<in> set (b # bl). small_block (with_large (bs_data b) n L) b0 \<and> bs_data b0 \<le> a \<and> a + len \<le> bs_freeptr b0)"
      using new(1) [of b0] by (auto simp: small)
  qed
  moreover have "\<exists>b0 \<in> set (b # bl). bs_self b0 = s \<and> small_block (with_large (bs_data b) n L) b0" if "act = Some s" for s
    using geo that new(1) unfolding small geometry_def by fastforce
  ultimately have geo': "geometry (b # bl) act (with_large (bs_data b) n L)" using geo fresh by (simp add: geometry_def slots_with)
  have tags': "tags_ok self L fl m'" using tags by (rule tags_cong) (simp add: m'(2))
  have "\<not> guarded L x" if "bs_data b \<le> x" "x < bs_data b + 16" for x
  proof (rule not_guarded [of L "bs_data b" 16])
    show "\<not> overlap (bs_data b, 16) s" if s: "s \<in> set (slots L)" for s
    proof -
      obtain a len where al: "s = (a, len)" by fastforce
      then obtain b0 where b0: "b0 \<in> set bl" "bs_data b0 \<le> a" "a + len \<le> bs_freeptr b0" "bs_freeptr b0 \<le> bs_data b0 + bs_cap b0"
        using slot_in_small [OF pl] s by blast
      from new(2) [OF b0(1)] b0 al m'(4) n show ?thesis by auto
    qed
    show "\<not> overlap (bs_data b, 16) (d, 16)" if d: "(d, j) \<in> set (larges L)" for d j
    proof -
      obtain b0 where b0: "b0 \<in> set bl" "bs_data b0 = d" "j + 16 \<le> bs_cap b0" using placedD(1) [OF pl d] by blast
      from new(2) [OF b0(1)] b0 m'(4) n show ?thesis by auto
    qed
  qed (use geo that in \<open>auto simp: geometry_def\<close>)
  then have "tags_ok self (with_large (bs_data b) n L) fl (tagged self (bs_data b) 0 True m')"
    by (intro tags_with_large tags' self)
  with geo' m' c buffers_ok_frame [of "tagged self (bs_data b) 0 True m'" m'] show ?thesis by (simp add: core_def)
qed

section \<open>Allocation\<close>

lemma hand_out_tagged: "hand_out self a index external amount c m =
    (Inr (a + 16), c\<lparr>mem_allocated := w64 (mem_allocated c + amount), is_reset := False\<rparr>, tagged self a index external m)"
  by (simp add: hand_out_def tagged_def kChunkHdrSize_def Let_def)

lemma inv_counters [simp]:
  "allocset_inv self (c\<lparr>mem_allocated := k, is_reset := b\<rparr>) out m = allocset_inv self c out m"
  by (simp add: allocset_inv_def limits_ok_def)

lemma create_bytes: "core self bl act fl L m \<Longrightarrow> AllocSetCreateBlock n m = (r, m') \<Longrightarrow> byte_at m' = byte_at m"
  using create_block(1) [of n m r m' bl] by (simp add: core_def)

lemma create_failed:
  assumes "core self bl act fl L m" "AllocSetCreateBlock n m = (Inl e, m')"
  shows "core self bl act fl L m' \<and> e = BadAlloc"
proof -
  have "e = BadAlloc" using assms(2) by (auto simp: AllocSetCreateBlock_def Let_def split: prod.splits option.splits)
  moreover have "buffers_ok m' \<and> byte_at m' = byte_at m \<and> owned bl (buffers m')"
    using create_block(1) [OF assms(2)] assms(1) by (auto simp: core_def)
  ultimately show ?thesis using assms(1) tags_cong [of self L fl m m'] by (auto simp: core_def)
qed

text \<open>What an allocation may change: it fails for want of memory, or one more chunk is handed out and only the header of
  that chunk was written.\<close>

definition allocated :: "address \<Rightarrow> nat \<Rightarrow> (address \<times> nat) list \<Rightarrow> Memory \<Rightarrow> (mem_error + address) \<times> AllocSetContext \<times> Memory \<Rightarrow> bool" where
  "allocated self n out m res = (case res of
     (Inl e, c', m') \<Rightarrow> e = BadAlloc \<and> allocset_inv self c' out m' \<and> byte_at m' = byte_at m
   | (Inr p, c', m') \<Rightarrow> 16 \<le> p \<and> allocset_inv self c' ((p, n) # out) m' \<and> (\<forall>x. x + 16 < p \<or> p \<le> x \<longrightarrow> byte_at m' x = byte_at m x))"

lemma allocatedI:
  assumes "mset out = mset (handed_out L)" "limits_ok c'" "byte_at m0 = byte_at m"
    and "core self (as_blocks c') (as_freeptr c') (as_freelist c') (with_small a i n L) (tagged self a i False m0)"
  shows "allocated self n out m (hand_out self a i False amount c' m0)"
proof -
  have "allocset_inv self c' ((a + 16, n) # out) (tagged self a i False m0)"
    unfolding allocset_inv_def using assms by (auto intro!: exI [of _ "with_small a i n L"])
  then show ?thesis using assms(3) by (auto simp: allocated_def hand_out_tagged tagged_other)
qed

lemma alloc_from_list_ok:
  assumes "limits_ok c" "mset out = mset (handed_out L)" "core self (as_blocks c) (as_freeptr c) (as_freelist c) L m"
    and "2 \<le> i \<and> i < 11 \<and> n + 16 \<le> fsize i" "as_freelist c ! i \<noteq> 0"
  shows "allocated self n out m (alloc_from_list self i c m)"
proof -
  have ch: "chain m (as_freelist c ! i) (frees L i)" and fl: "length (as_freelist c) = 11"
    using assms(3,4) by (auto simp: core_def tags_ok_def)
  then obtain a as where as: "frees L i = a # as" "as_freelist c ! i = a" using assms(5) by (cases "frees L i") auto
  define L0 where "L0 = L\<lparr>frees := (frees L)(i := as)\<rparr>"
  have L: "L = with_free i a L0" by (simp add: L0_def with_free_def as(1) [symmetric])
  have geo: "geometry (as_blocks c) (as_freeptr c) (with_free i a L0)" using assms(3) L by (simp add: core_def)
  have "core self (as_blocks c) (as_freeptr c) ((as_freelist c)[i := read_ptr m a]) L0 m"
    using core_without_free [of self _ _ _ i a L0 m] assms(3,4) L by simp
  from core_with_small [OF this geometry_without_free(2,3) [OF geo] assms(4)] assms(4)
  have "core self (as_blocks c) (as_freeptr c) ((as_freelist c)[i := read_ptr m a]) (with_small a i n L0) (tagged self a i False m)" by simp
  moreover have "mset out = mset (handed_out L0)" using assms(2) by (subst (asm) L) simp
  ultimately show ?thesis
    unfolding alloc_from_list_def Let_def as(2) using assms(1) by (intro allocatedI [of _ L0]) (simp_all add: limits_ok_def)
qed

lemma alloc_new_block_ok:
  assumes "limits_ok c" "mset out = mset (handed_out L)" "core self (as_blocks c) (as_freeptr c) (as_freelist c) L m"
    and "2 \<le> i \<and> i < 11 \<and> n + 16 \<le> fsize i"
  shows "allocated self n out m (alloc_new_block self i c m)"
proof -
  define s where "s = (let s = (if as_next_block_size c < InitSizeMin then InitSizeMin else as_next_block_size c) in
     if s < fsize i then fsize i + sizeof_BlockStorage else s)"
  define nx where "nx = w64 (as_next_block_size c * 2)"
  have fs: "8 \<le> fsize i" "8 dvd fsize i" "fsize i \<le> 8192" using fsize_bounds assms(4) by auto
  have s: "fsize i \<le> s" "s < 2 ^ 62 + 10000" using assms(1) fs(3)
    by (auto simp: s_def Let_def limits_ok_def InitSizeMin_def sizeof_BlockStorage_def)
  have r1: "s \<le> round8 s" "round8 s \<le> s + 7" using round8_bounds [of s] s by simp_all
  have "fsize i \<le> round8 (round8 s)" using round8_bounds(1) [of "round8 s"] r1 s by simp
  note fits = this
  obtain r m1 where r: "AllocSetCreateBlock (round8 s) m = (r, m1)" by fastforce
  have eq: "alloc_new_block self i c m = (case r of Inl e \<Rightarrow> (Inl e, c, m1)
     | Inr b \<Rightarrow> hand_out self (bs_data b) i False (fsize i)
         (c\<lparr>as_blocks := b\<lparr>bs_freeptr := bs_data b + fsize i\<rparr> # as_blocks c, as_freeptr := Some (bs_self b),
            as_next_block_size := (if as_max_block_size c < nx then as_max_block_size c else nx)\<rparr>) m1)"
    using r by (simp add: alloc_new_block_def s_def nx_def Let_def split: sum.split)
  show ?thesis
  proof (cases r)
    case (Inl e)
    with create_failed [OF assms(3)] r create_bytes [OF assms(3) r] assms(1,2) show ?thesis
      unfolding eq by (auto simp: allocated_def allocset_inv_def)
  next
    case (Inr b)
    note g = core_grow [OF assms(3) r [unfolded Inr] fits _ fs(2)]
    have "byte_at m1 = byte_at m" using create_bytes [OF assms(3) r] .
    moreover have "nx < 2 ^ 62 \<or> \<not> nx \<le> as_max_block_size c" using assms(1) by (auto simp: limits_ok_def)
    ultimately show ?thesis
      unfolding eq Inr sum.case using assms(1,2) fs(1) core_with_small [OF g(1) g(2) g(3) assms(4)]
      by (intro allocatedI [of _ L]) (auto simp: limits_ok_def)
  qed
qed

lemma alloc_small_ok:
  assumes "limits_ok c" "mset out = mset (handed_out L)" "core self (as_blocks c) (as_freeptr c) (as_freelist c) L m"
    and "2 \<le> i \<and> i < 11 \<and> n + 16 \<le> fsize i"
  shows "allocated self n out m (alloc_small self i c m)"
proof (cases "as_freelist c ! i = 0")
  case False
  with alloc_from_list_ok [OF assms] show ?thesis by (simp add: alloc_small_def)
next
  case True
  show ?thesis
  proof (cases "as_freeptr c")
    case None
    with True alloc_new_block_ok [OF assms] show ?thesis by (simp add: alloc_small_def)
  next
    case (Some s)
    then obtain b0 where "b0 \<in> set (as_blocks c)" "bs_self b0 = s" using assms(3) by (auto simp: core_def geometry_def)
    then obtain b where b: "find (\<lambda>b. bs_self b = s) (as_blocks c) = Some b"
      by (cases "find (\<lambda>b. bs_self b = s) (as_blocks c)") (auto simp: find_None_iff)
    then have in_bl: "b \<in> set (as_blocks c)" "bs_self b = s" by (auto simp: find_Some_iff)
    show ?thesis
    proof (cases "bs_freeptr b + fsize i \<le> bs_endptr b")
      case False
      with True Some b alloc_new_block_ok [OF assms] show ?thesis by (simp add: alloc_small_def)
    next
      case fits: True
      note g = core_advance [OF assms(3) in_bl(1) _ fsize_bounds(2) fits]
      have "allocated self n out m (hand_out self (bs_freeptr b) i False (fsize i) (c\<lparr>as_blocks := advance_block s (fsize i) (as_blocks c)\<rparr>) m)"
        using assms(1,2) core_with_small [OF g(1) g(2) g(3) assms(4)] Some in_bl(2)
        by (intro allocatedI [of _ L]) (simp_all add: limits_ok_def)
      with True Some b fits show ?thesis by (simp add: alloc_small_def)
    qed
  qed
qed

theorem alloc_ok:
  assumes "allocset_inv self c out m" "n < 2 ^ 62"
  shows "allocated self n out m (AllocSetAlloc self n c m)"
proof -
  obtain L where L: "limits_ok c" "mset out = mset (handed_out L)" "core self (as_blocks c) (as_freeptr c) (as_freelist c) L m"
    using assms(1) by (auto simp: allocset_inv_def)
  define k where "k = (if n = 0 then 1 else n) + 16"
  have k: "n + 16 \<le> k" "16 < k" "k < 2 ^ 63" using assms(2) by (simp_all add: k_def)
  have eq: "AllocSetAlloc self n c m = (if as_chunk_limit c < k then alloc_large self k c m else alloc_small self (AllocSetFreeListIndex k) c m)"
    using k by (simp add: AllocSetAlloc_def k_def kChunkHdrSize_def Let_def)
  show ?thesis
  proof (cases "as_chunk_limit c < k")
    case False
    then have "k \<le> 8192" using L(1) by (simp add: limits_ok_def)
    with index_fits [of k] k(1,2) have "2 \<le> AllocSetFreeListIndex k \<and> AllocSetFreeListIndex k < 11 \<and> n + 16 \<le> fsize (AllocSetFreeListIndex k)"
      by simp
    with alloc_small_ok [OF L] False eq show ?thesis by simp
  next
    case True
    obtain r m1 where r: "AllocSetCreateBlock (round8 k) m = (r, m1)" by fastforce
    have "k \<le> round8 (round8 k)" using round8_bounds [of k] round8_bounds [of "round8 k"] k(3) by simp
    note fits = this
    have same: "byte_at m1 = byte_at m" using create_bytes [OF L(3) r] .
    show ?thesis
    proof (cases r)
      case (Inl e)
      with True eq r create_failed [OF L(3)] same L show ?thesis by (auto simp: alloc_large_def allocated_def allocset_inv_def)
    next
      case (Inr b)
      define c1 where "c1 = c\<lparr>as_blocks := b # as_blocks c\<rparr>"
      have "core self (as_blocks c1) (as_freeptr c1) (as_freelist c1) (with_large (bs_data b) n L) (tagged self (bs_data b) 0 True m1)"
        using core_large [OF L(3) r [unfolded Inr], of n] fits k(1) by (simp add: c1_def)
      then have "allocset_inv self c1 ((bs_data b + 16, n) # out) (tagged self (bs_data b) 0 True m1)"
        unfolding allocset_inv_def using L(1,2) by (auto simp: c1_def limits_ok_def intro!: exI [of _ "with_large (bs_data b) n L"])
      with True eq r Inr same show ?thesis
        by (simp add: alloc_large_def Let_def hand_out_tagged allocated_def tagged_other flip: c1_def)
    qed
  qed
qed

section \<open>Free\<close>

definition without_small :: "address \<Rightarrow> nat \<Rightarrow> nat \<Rightarrow> Layout \<Rightarrow> Layout" where
  "without_small a i n L = L\<lparr>smalls := remove1 (a, i, n) (smalls L)\<rparr>"

definition without_large :: "address \<Rightarrow> nat \<Rightarrow> Layout \<Rightarrow> Layout" where
  "without_large d n L = L\<lparr>larges := remove1 (d, n) (larges L)\<rparr>"

lemma mset_map_cong: "mset xs = mset ys \<Longrightarrow> mset (map f xs) = mset (map f ys)"
  by simp

lemma perm_small:
  assumes "(a, i, n) \<in> set (smalls L)"
  defines "L' \<equiv> with_small a i n (without_small a i n L)"
  shows "mset (smalls L') = mset (smalls L)" "set (smalls L') = set (smalls L)" "larges L' = larges L" "frees L' = frees L"
    "mset (slots L') = mset (slots L)" "mset (handed_out L') = mset (handed_out L)"
proof -
  show ms: "mset (smalls L') = mset (smalls L)" using assms by (simp add: with_small_def without_small_def)
  then show "set (smalls L') = set (smalls L)" by (rule mset_eq_setD)
  show same: "larges L' = larges L" "frees L' = frees L" by (simp_all add: L'_def with_small_def without_small_def)
  show "mset (slots L') = mset (slots L)" "mset (handed_out L') = mset (handed_out L)"
    unfolding slots_def handed_out_def same mset_append using mset_map_cong [OF ms] by metis+
qed

lemma perm_large:
  assumes "(d, n) \<in> set (larges L)"
  defines "L' \<equiv> with_large d n (without_large d n L)"
  shows "mset (larges L') = mset (larges L)" "set (larges L') = set (larges L)" "smalls L' = smalls L" "frees L' = frees L"
    "slots L' = slots L" "mset (handed_out L') = mset (handed_out L)"
proof -
  show ms: "mset (larges L') = mset (larges L)" using assms by (simp add: with_large_def without_large_def)
  then show "set (larges L') = set (larges L)" by (rule mset_eq_setD)
  show same: "smalls L' = smalls L" "frees L' = frees L" by (simp_all add: L'_def with_large_def without_large_def)
  then show "slots L' = slots L" by (simp add: slots_def)
  show "mset (handed_out L') = mset (handed_out L)"
    unfolding handed_out_def same mset_append using mset_map_cong [OF ms] by metis
qed

lemma core_perm_small:
  assumes "core self bl act fl L m" "(a, i, n) \<in> set (smalls L)"
  shows "core self bl act fl (with_small a i n (without_small a i n L)) m"
proof -
  note perm = perm_small [OF assms(2)]
  have "\<forall>(a, i, n) \<in> set (smalls (with_small a i n (without_small a i n L))). 2 \<le> i \<and> i < 11 \<and> n + 16 \<le> fsize i"
    using assms(1) unfolding perm(2) by (simp add: core_def geometry_def)
  then have "geometry bl act (with_small a i n (without_small a i n L))"
    using geometry_perm [OF perm(5,3)] assms(1) by (simp add: core_def)
  moreover have "tags_ok self (with_small a i n (without_small a i n L)) fl m = tags_ok self L fl m"
    by (simp only: tags_ok_def perm)
  ultimately show ?thesis using assms(1) by (simp add: core_def)
qed

lemma core_perm_large:
  assumes "core self bl act fl L m" "(d, n) \<in> set (larges L)"
  shows "core self bl act fl (with_large d n (without_large d n L)) m"
proof -
  let ?L = "with_large d n (without_large d n L)"
  note perm = perm_large [OF assms(2)]
  have "distinct (map fst (larges ?L)) = distinct (map fst (larges L))"
    using mset_map_cong [OF perm(1), of fst] by (rule mset_eq_imp_distinct_iff)
  moreover have "small_block ?L = small_block L" by (simp only: small_block_def [abs_def] perm)
  moreover have "placed bl ?L = placed bl L" by (simp only: placed_def perm calculation(2))
  ultimately have "geometry bl act ?L = geometry bl act L" by (simp only: geometry_def perm)
  moreover have "tags_ok self ?L fl m = tags_ok self L fl m" by (simp only: tags_ok_def perm)
  ultimately show ?thesis using assms(1) by (simp add: core_def)
qed

lemma destroyed:
  assumes "owned bl (buffers m)" "b \<in> set bl" "buffers_ok m"
  shows "owned (filter (\<lambda>b'. bs_self b' \<noteq> bs_self b) bl) (buffers (AllocSetDestroyBlock b m))"
    and "buffers_ok (AllocSetDestroyBlock b m) \<and> byte_at (AllocSetDestroyBlock b m) = byte_at m"
proof -
  have inj: "inj_on bs_self (set bl)" "inj_on bs_data (set bl)" and cross: "bs_self ` set bl \<inter> bs_data ` set bl = {}"
    using assms(1) by (auto simp: owned_def distinct_map)
  have keep: "bs_self b' \<noteq> bs_self b \<and> bs_self b' \<noteq> bs_data b \<and> bs_data b' \<noteq> bs_self b \<and> bs_data b' \<noteq> bs_data b"
    if "b' \<in> set bl" "bs_self b' \<noteq> bs_self b" for b'
    using that assms(2) inj cross by (metis IntI empty_iff image_eqI inj_on_eq_iff)
  have "distinct (map bs_self (filter P bl) @ map bs_data (filter P bl))" for P
    using assms(1) by (auto simp: owned_def distinct_map_filter)
  then show "owned (filter (\<lambda>b'. bs_self b' \<noteq> bs_self b) bl) (buffers (AllocSetDestroyBlock b m))"
    using assms(1) keep by (simp add: owned_def AllocSetDestroyBlock_def free_buffer_def)
  show "buffers_ok (AllocSetDestroyBlock b m) \<and> byte_at (AllocSetDestroyBlock b m) = byte_at m"
    using assms(3) free_buffer_ok by (simp add: AllocSetDestroyBlock_def) (simp add: free_buffer_def)
qed

lemma core_free_large:
  assumes c: "core self bl act fl (with_large d n L) m" and b: "b \<in> set bl" "bs_data b = d"
  shows "core self (filter (\<lambda>b'. bs_self b' \<noteq> bs_self b) bl) act fl L (AllocSetDestroyBlock b m)"
proof -
  let ?bl = "filter (\<lambda>b'. bs_self b' \<noteq> bs_self b) bl" and ?L = "with_large d n L"
  have own: "owned bl (buffers m)" "buffers_ok m" and geo: "geometry bl act ?L" using c by (auto simp: core_def)
  have pl: "placed bl ?L" using geo by (simp add: geometry_def)
  have same: "b1 = b" if "b1 \<in> set bl" "bs_self b1 = bs_self b \<or> bs_data b1 = bs_data b" for b1
    using own(1) b(1) that by (auto simp: owned_def distinct_map dest: inj_onD)
  have in_bl: "b1 \<in> set ?bl \<longleftrightarrow> b1 \<in> set bl \<and> b1 \<noteq> b" for b1 using same b(1) by auto
  have small: "small_block L b1 \<longleftrightarrow> small_block ?L b1" if "b1 \<in> set ?bl" for b1
    using that same b(2) in_bl by (auto simp: small_block_def)
  have b_large: "\<not> small_block ?L b" using b(2) by (simp add: small_block_def)
  have dist: "d \<notin> fst ` set (larges L)" "distinct (map fst (larges L))" using geo by (simp_all add: geometry_def)
  have "placed ?bl L"
  proof (rule placedI)
    fix d' k assume l: "(d', k) \<in> set (larges L)"
    then obtain b0 where "b0 \<in> set bl" "bs_data b0 = d'" "k + 16 \<le> bs_cap b0" using placedD(1) [OF pl, of d' k] by auto
    moreover have "d' \<noteq> d" using dist(1) l by force
    ultimately show "\<exists>b0 \<in> set ?bl. bs_data b0 = d' \<and> k + 16 \<le> bs_cap b0" using b(2) in_bl by (intro bexI [of _ b0]) auto
  next
    fix b0 assume "b0 \<in> set ?bl" "small_block L b0"
    then show "bs_data b0 \<le> bs_freeptr b0 \<and> bs_freeptr b0 \<le> bs_data b0 + bs_cap b0 \<and> 8 dvd bs_freeptr b0"
      using placedD(2) [OF pl] small in_bl by blast
  next
    fix a len assume "(a, len) \<in> set (slots L)"
    then have "(a, len) \<in> set (slots ?L)" by (simp add: slots_with)
    then obtain b0 where b0: "8 dvd a" "b0 \<in> set bl" "small_block ?L b0" "bs_data b0 \<le> a" "a + len \<le> bs_freeptr b0"
      using placedD(3) [OF pl] by blast
    then have "b0 \<in> set ?bl" using in_bl b_large by blast
    with b0 small show "8 dvd a \<and> (\<exists>b0 \<in> set ?bl. small_block L b0 \<and> bs_data b0 \<le> a \<and> a + len \<le> bs_freeptr b0)" by blast
  qed
  moreover have "\<exists>b0 \<in> set ?bl. bs_self b0 = s \<and> small_block L b0" if act: "act = Some s" for s
  proof -
    obtain b0 where b0: "b0 \<in> set bl" "bs_self b0 = s" "small_block ?L b0" using geo act by (auto simp: geometry_def)
    then have "b0 \<in> set ?bl" using in_bl b_large by blast
    with b0 small show ?thesis by blast
  qed
  ultimately have "geometry ?bl act L" using geo dist by (simp add: geometry_def slots_with)
  moreover have "tags_ok self L fl (AllocSetDestroyBlock b m)"
    using c tags_without(2) [of self d n L fl m] destroyed(2) [OF own(1) b(1) own(2)] tags_cong [of self L fl m]
    by (simp add: core_def)
  ultimately show ?thesis
    using c destroyed [OF own(1) b(1) own(2)] by (simp add: core_def)
qed

lemma find_block:
  assumes "owned bl bufs" "apart bufs" "b \<in> set bl"
  shows "find (\<lambda>b'. bs_data b' \<le> bs_data b \<and> bs_data b < bs_data b' + bs_cap b') bl = Some b"
proof -
  let ?P = "\<lambda>b'. bs_data b' \<le> bs_data b \<and> bs_data b < bs_data b' + bs_cap b'"
  have "?P b" using assms(1,3) by (simp add: owned_def)
  then obtain b' where b': "find ?P bl = Some b'" using assms(3) by (cases "find ?P bl") (auto simp: find_None_iff)
  then have "b' \<in> set bl" "?P b'" by (auto simp: find_Some_iff)
  then have "overlap (bs_data b', bs_cap b') (bs_data b, bs_cap b)" using \<open>?P b\<close> by auto
  with owned_apart [OF assms(1,2) \<open>b' \<in> set bl\<close> assms(3)] have "b' = b" by blast
  with b' show ?thesis by simp
qed

text \<open>Freeing a chunk: the others stay, and no byte of theirs changes.\<close>

theorem free_ok:
  assumes inv: "allocset_inv self c out m" and p: "(p, n) \<in> set out" and free: "AllocSetFree p c m = (c', m')"
  shows "allocset_inv self c' (remove1 (p, n) out) m' \<and> (\<forall>x. x + 16 < p \<or> p \<le> x \<longrightarrow> byte_at m' x = byte_at m x)"
proof -
  obtain L where L: "limits_ok c" "mset out = mset (handed_out L)" "core self (as_blocks c) (as_freeptr c) (as_freelist c) L m"
    using inv by (auto simp: allocset_inv_def)
  have "(p, n) \<in> set (handed_out L)" using p mset_eq_setD [OF L(2)] by simp
  then consider (small) a i where "(a, i, n) \<in> set (smalls L)" "p = a + 16" | (large) d where "(d, n) \<in> set (larges L)" "p = d + 16"
    by (auto simp: handed_out_def)
  then show ?thesis
  proof cases
    case small
    define L0 where "L0 = without_small a i n L"
    have c0: "core self (as_blocks c) (as_freeptr c) (as_freelist c) (with_small a i n L0) m"
      unfolding L0_def by (rule core_perm_small [OF L(3) small(1)])
    note g = geometry_without_small [of "as_blocks c" "as_freeptr c" a i n L0]
    have geo: "geometry (as_blocks c) (as_freeptr c) (with_small a i n L0)" using c0 by (simp add: core_def)
    have i: "2 \<le> i" "i < 11" using g(4) [OF geo] by auto
    have hdr: "ReadHdr m p = header_word i False" using c0 by (simp add: core_def tags_ok_def ReadHdr_def small(2) add.commute [of a])
    have a0: "0 < a" using chunk_address [OF c0, of a "fsize i"] by (simp add: slots_with)
    have eq: "c' = c\<lparr>as_freelist := (as_freelist c)[i := a], mem_allocated := sub64 (mem_allocated c) (fsize i)\<rparr>"
      "m' = write_ptr a (as_freelist c ! i) m"
      using free hdr header_small [OF i(2)] small(2) by (auto simp: AllocSetFree_def kChunkHdrSize_def Let_def)
    have c1: "core self (as_blocks c) (as_freeptr c) ((as_freelist c)[i := a]) (with_free i a L0) m'"
      unfolding eq(2) using core_with_free [OF core_without_small [OF c0] g(2) [OF geo] i(2) g(3) [OF geo]] a0 list_head_bound [OF c0 i(2)]
      by simp
    have "mset out = add_mset (p, n) (mset (handed_out L0))"
      using L(2) perm_small(6) [OF small(1)] by (simp add: L0_def small(2))
    then have "mset (remove1 (p, n) out) = mset (handed_out (with_free i a L0))" by simp
    moreover have "limits_ok c'" using L(1) by (simp add: eq limits_ok_def)
    ultimately have "allocset_inv self c' (remove1 (p, n) out) m'" using c1 unfolding allocset_inv_def
      by (auto simp: eq intro!: exI [of _ "with_free i a L0"])
    then show ?thesis by (auto simp: eq(2) write_ptr_def small(2))
  next
    case large
    define L0 where "L0 = without_large d n L"
    have c0: "core self (as_blocks c) (as_freeptr c) (as_freelist c) (with_large d n L0) m"
      unfolding L0_def by (rule core_perm_large [OF L(3) large(1)])
    then obtain b where b: "b \<in> set (as_blocks c)" "bs_data b = d" and small: "\<not> small_block (with_large d n L0) b"
      using large_block [of "as_blocks c" "with_large d n L0" d n] by (auto simp: core_def geometry_def)
    have hdr: "ReadHdr m p = header_word 0 True" using c0 by (simp add: core_def tags_ok_def ReadHdr_def large(2) add.commute [of d])
    have "find (\<lambda>b'. bs_data b' \<le> d \<and> d < bs_data b' + bs_cap b') (as_blocks c) = Some b"
      using find_block [of "as_blocks c" "buffers m" b] b c0 by (auto simp: core_def buffers_ok_def)
    moreover have "as_freeptr c \<noteq> Some (bs_self b)"
    proof
      assume "as_freeptr c = Some (bs_self b)"
      then obtain b0 where "b0 \<in> set (as_blocks c)" "bs_self b0 = bs_self b" "small_block (with_large d n L0) b0"
        using c0 by (auto simp: core_def geometry_def)
      moreover have "b0 = b" using calculation(1,2) b(1) c0 by (auto simp: core_def owned_def distinct_map dest: inj_onD)
      ultimately show False using small by simp
    qed
    ultimately have eq: "as_blocks c' = filter (\<lambda>b'. bs_self b' \<noteq> bs_self b) (as_blocks c)" "as_freeptr c' = as_freeptr c"
      "as_freelist c' = as_freelist c" "limits_ok c' = limits_ok c" "m' = AllocSetDestroyBlock b m"
      using free hdr header_large large(2)
      by (auto simp: AllocSetFree_def kChunkHdrSize_def Let_def free_external_def limits_ok_def)
    have "core self (as_blocks c') (as_freeptr c') (as_freelist c') L0 m'" unfolding eq by (rule core_free_large [OF c0 b])
    moreover have "mset out = add_mset (p, n) (mset (handed_out L0))"
      using L(2) perm_large(6) [OF large(1)] by (simp add: L0_def large(2))
    then have "mset (remove1 (p, n) out) = mset (handed_out L0)" by simp
    ultimately have "allocset_inv self c' (remove1 (p, n) out) m'" using L(1) eq(4) by (auto simp: allocset_inv_def)
    moreover have "byte_at m' = byte_at m" unfolding eq(5) using destroyed(2) b(1) c0 by (auto simp: core_def)
    ultimately show ?thesis by simp
  qed
qed

section \<open>What the client sees\<close>

text \<open>A chunk with the header in front of it.\<close>

definition whole :: "address \<times> nat \<Rightarrow> address \<times> nat" where
  "whole = (\<lambda>(p, n). (p - 16, n + 16))"

lemma apart_shrink: "apart (map f xs) \<Longrightarrow> (\<And>x. x \<in> set xs \<Longrightarrow> fst (g x) = fst (f x) \<and> snd (g x) \<le> snd (f x)) \<Longrightarrow> apart (map g xs)"
proof (induction xs)
  case (Cons x xs)
  have less: "\<not> overlap (g x) (g y)" if "y \<in> set xs" for y
  proof -
    have "\<not> overlap (f x) (f y)" using Cons.prems(1) that by simp
    then show ?thesis using Cons.prems(2) [of x] Cons.prems(2) [of y] that
      by (cases "f x"; cases "f y"; cases "g x"; cases "g y") auto
  qed
  moreover have "apart (map g xs)" using Cons.prems by (intro Cons.IH) auto
  ultimately show ?case by auto
qed simp

lemma whole_apart:
  assumes "core self bl act fl L m"
  shows "apart (map whole (handed_out L))"
proof -
  have geo: "geometry bl act L" and own: "owned bl (buffers m)" "apart (buffers m)" using assms by (auto simp: core_def buffers_ok_def)
  have pl: "placed bl L" using geo by (simp add: geometry_def)
  have "apart (map (\<lambda>(a, i, n). (a, fsize i)) (smalls L))" using geo by (simp add: geometry_def slots_def apart_append)
  then have "apart (map (\<lambda>(a, i, n). (a, n + 16)) (smalls L))" by (rule apart_shrink) (use geo in \<open>auto simp: geometry_def\<close>)
  moreover have "apart (map (\<lambda>(d, n). (d, n + 16)) (larges L))"
  proof -
    have "distinct (map fst ls) \<Longrightarrow> set ls \<subseteq> set (larges L) \<Longrightarrow> apart (map (\<lambda>(d, n). (d, n + 16)) ls)" for ls
    proof (induction ls)
      case (Cons l ls)
      have "\<not> overlap (fst l, snd l + 16) (fst l', snd l' + 16)" if "l' \<in> set ls" for l'
        using Cons.prems that by (intro larges_apart [OF pl own]) auto
      with Cons show ?case by (auto simp: case_prod_beta)
    qed simp
    then show ?thesis using geo by (simp add: geometry_def)
  qed
  moreover have "\<not> overlap (a, n + 16) (d, k + 16)" if "(a, i, n) \<in> set (smalls L)" "(d, k) \<in> set (larges L)" for a i n d k
  proof -
    have "n + 16 \<le> fsize i" using geo that(1) by (auto simp: geometry_def)
    with slot_large_apart [OF pl own slots_small [OF that(1)] that(2)] show ?thesis by auto
  qed
  moreover have "map whole (handed_out L) = map (\<lambda>(a, i, n). (a, n + 16)) (smalls L) @ map (\<lambda>(d, n). (d, n + 16)) (larges L)"
    by (simp add: handed_out_def whole_def case_prod_beta)
  ultimately show ?thesis by (auto simp: apart_append)
qed

lemma separated: "allocset_inv self c out m \<Longrightarrow> apart (map whole out)"
  unfolding allocset_inv_def using whole_apart apart_perm [OF mset_map_cong] by metis

lemma chunk_in_block:
  assumes "allocset_inv self c out m" "(p, n) \<in> set out"
  shows "8 dvd p \<and> (\<exists>b \<in> set (as_blocks c). (bs_data b, bs_cap b) \<in> set (buffers m) \<and> bs_data b + 16 \<le> p \<and> p + n \<le> bs_data b + bs_cap b)"
proof -
  obtain L where L: "mset out = mset (handed_out L)" "core self (as_blocks c) (as_freeptr c) (as_freelist c) L m"
    using assms(1) by (auto simp: allocset_inv_def)
  have geo: "geometry (as_blocks c) (as_freeptr c) L" and own: "owned (as_blocks c) (buffers m)" and ok: "buffers_ok m"
    using L(2) by (auto simp: core_def)
  have pl: "placed (as_blocks c) L" using geo by (simp add: geometry_def)
  have "(p, n) \<in> set (handed_out L)" using assms(2) mset_eq_setD [OF L(1)] by simp
  then consider (small) a i where "(a, i, n) \<in> set (smalls L)" "p = a + 16" | (large) d where "(d, n) \<in> set (larges L)" "p = d + 16"
    by (auto simp: handed_out_def)
  then show ?thesis
  proof cases
    case small
    have "n + 16 \<le> fsize i" using geo small(1) by (auto simp: geometry_def)
    moreover obtain b where "b \<in> set (as_blocks c)" "bs_data b \<le> a" "a + fsize i \<le> bs_freeptr b" "bs_freeptr b \<le> bs_data b + bs_cap b"
      using slot_in_small [OF pl slots_small [OF small(1)]] by blast
    moreover have "8 dvd a" using placedD(3) [OF pl slots_small [OF small(1)]] by blast
    ultimately show ?thesis using own small(2) by (intro conjI bexI [of _ b]) (auto simp: owned_def)
  next
    case large
    obtain b where b: "b \<in> set (as_blocks c)" "bs_data b = d" "n + 16 \<le> bs_cap b" using placedD(1) [OF pl large(1)] by blast
    then have buf: "(d, bs_cap b) \<in> set (buffers m)" using own by (auto simp: owned_def)
    then have "16 dvd d" using ok by (auto simp: buffers_ok_def)
    then have "8 dvd d" by (rule dvd_trans [rotated]) simp
    with b buf large(2) show ?thesis by (intro conjI bexI [of _ b]) auto
  qed
qed

text \<open>Headers and links are in the blocks and in no chunk of the client.\<close>

lemma guarded_place:
  assumes "core self bl act fl L m" "guarded L x"
  shows "\<exists>b \<in> set bl. bs_data b \<le> x \<and> x < bs_data b + bs_cap b" and "(p, n) \<in> set (handed_out L) \<Longrightarrow> \<not> (p \<le> x \<and> x < p + n)"
proof -
  have geo: "geometry bl act L" and own: "owned bl (buffers m)" "apart (buffers m)" using assms(1) by (auto simp: core_def buffers_ok_def)
  have pl: "placed bl L" using geo by (simp add: geometry_def)
  have sz: "2 \<le> i \<and> i < 11 \<and> n + 16 \<le> fsize i" if "(a, i, n) \<in> set (smalls L)" for a i n using geo that by (auto simp: geometry_def)
  have slots: "s = s' \<or> \<not> overlap s s'" if "s \<in> set (slots L)" "s' \<in> set (slots L)" for s s'
    using geo apartD [of "slots L" s s'] that by (auto simp: geometry_def simp del: overlap.simps)
  consider (small) a i k where "(a, i, k) \<in> set (smalls L)" "a \<le> x" "x < a + 16"
    | (large) d k where "(d, k) \<in> set (larges L)" "d \<le> x" "x < d + 16"
    | (free) a i where "i < 11" "a \<in> set (frees L i)" "a \<le> x" "x < a + 8"
    using assms(2) by (fastforce simp: guarded_def)
  note kinds = this
  have slot_case: "\<exists>b \<in> set bl. bs_data b \<le> x \<and> x < bs_data b + bs_cap b" if "(a, len) \<in> set (slots L)" "a \<le> x" "x < a + len" for a len
    using slot_in_small [OF pl that(1)] that(2,3) by (meson le_trans less_le_trans)
  show "\<exists>b \<in> set bl. bs_data b \<le> x \<and> x < bs_data b + bs_cap b"
    using kinds
  proof cases
    case small
    with slot_case [OF slots_small [OF small(1)]] sz [OF small(1)] show ?thesis by simp
  next
    case large
    obtain b where "b \<in> set bl" "bs_data b = d" "k + 16 \<le> bs_cap b" using placedD(1) [OF pl large(1)] by blast
    with large(2,3) show ?thesis by (intro bexI [of _ b]) auto
  next
    case free
    with slot_case [OF slots_free [OF free(2,1)]] fsize_bounds(1) [of i] show ?thesis by simp
  qed
  assume "(p, n) \<in> set (handed_out L)"
  then consider (s) a i where "(a, i, n) \<in> set (smalls L)" "p = a + 16" | (l) d where "(d, n) \<in> set (larges L)" "p = d + 16"
    by (auto simp: handed_out_def)
  then show "\<not> (p \<le> x \<and> x < p + n)"
  proof cases
    case s
    note s_slot = slots_small [OF s(1)] and s_size = sz [OF s(1)]
    show ?thesis using kinds
    proof cases
      case small
      with slots [OF slots_small [OF small(1)] s_slot] s(2) s_size sz [OF small(1)] show ?thesis by auto
    next
      case large
      with slot_large_apart [OF pl own s_slot large(1)] s(2) s_size show ?thesis by auto
    next
      case free
      with slots [OF slots_free [OF free(2,1)] s_slot] s(2) s_size fsize_bounds(1) [of i] show ?thesis by auto
    qed
  next
    case l
    show ?thesis using kinds
    proof cases
      case small
      with slot_large_apart [OF pl own slots_small [OF small(1)] l(1)] l(2) sz [OF small(1)] show ?thesis by auto
    next
      case large
      with larges_apart [OF pl own large(1) l(1)] l(2) show ?thesis by auto
    next
      case free
      with slot_large_apart [OF pl own slots_free [OF free(2,1)] l(1)] l(2) fsize_bounds(1) [of i] show ?thesis by auto
    qed
  qed
qed

text \<open>Writes of the client into its chunks, and anything that happens outside of the blocks.\<close>

definition client_step :: "AllocSetContext \<Rightarrow> (address \<times> nat) list \<Rightarrow> Memory \<Rightarrow> Memory \<Rightarrow> bool" where
  "client_step c out m m' \<longleftrightarrow> buffers_ok m' \<and> owned (as_blocks c) (buffers m') \<and>
     (\<forall>x. byte_at m' x \<noteq> byte_at m x \<longrightarrow> (\<exists>(p, n) \<in> set out. p \<le> x \<and> x < p + n) \<or>
        (\<forall>b \<in> set (as_blocks c). x < bs_data b \<or> bs_data b + bs_cap b \<le> x))"

lemma client_ok:
  assumes "allocset_inv self c out m" "client_step c out m m'"
  shows "allocset_inv self c out m'"
proof -
  obtain L where L: "limits_ok c" "mset out = mset (handed_out L)" "core self (as_blocks c) (as_freeptr c) (as_freelist c) L m"
    using assms(1) by (auto simp: allocset_inv_def)
  have "byte_at m' x = byte_at m x" if g: "guarded L x" for x
  proof (rule ccontr)
    assume "byte_at m' x \<noteq> byte_at m x"
    then consider p n where "(p, n) \<in> set out" "p \<le> x" "x < p + n" | "\<forall>b \<in> set (as_blocks c). x < bs_data b \<or> bs_data b + bs_cap b \<le> x"
      using assms(2) by (auto simp: client_step_def)
    then show False
    proof cases
      case 1
      then show ?thesis using guarded_place(2) [OF L(3) g] mset_eq_setD [OF L(2)] by blast
    next
      case 2
      then show ?thesis using guarded_place(1) [OF L(3) g] by (meson not_le)
    qed
  qed
  moreover have "tags_ok self L (as_freelist c) m" using L(3) by (simp add: core_def)
  ultimately have "tags_ok self L (as_freelist c) m'" using tags_cong by blast
  with L assms(2) show ?thesis by (auto simp: allocset_inv_def core_def client_step_def)
qed

end
