(* ===== verification/Alloc_Client.thy ===== *)
theory Alloc_Client
  imports Alloc_Safety
begin

text \<open>
  What a client of the free-list allocator may rely on: reset and reallocation, the runs of a client that keeps the rules,
  and what such a run can never meet. The one rule that the code does not state is about \<open>AllocSetReset\<close>: the block that is
  kept has to be the one small chunks are cut from.
\<close>

section \<open>Reset\<close>

definition no_chunks :: Layout where
  "no_chunks = \<lparr>smalls = [], larges = [], frees = (\<lambda>_. [])\<rparr>"

lemma no_chunks_simps [simp]: "smalls no_chunks = []" "larges no_chunks = []" "frees no_chunks i = []" "slots no_chunks = []"
  "handed_out no_chunks = []" "small_block no_chunks b"
  by (simp_all add: no_chunks_def slots_def handed_out_def small_block_def)

lemma tags_no_chunks [simp]: "tags_ok self no_chunks (replicate 11 0) m"
  by (simp add: tags_ok_def)

text \<open>The new context has no block and nothing handed out.\<close>

definition sizes_ok :: "nat \<Rightarrow> nat \<Rightarrow> bool" where
  "sizes_ok init_size max_size \<longleftrightarrow> init_size < 2 ^ 62 \<and> max_size < 2 ^ 62"

lemma allocset_new_ok:
  assumes "buffers_ok m" "self < 2 ^ 64" "sizes_ok init_size max_size"
  shows "allocset_inv self (allocset_new init_size max_size) [] m"
proof -
  have "limits_ok (allocset_new init_size max_size)"
    using assms(3) by (auto simp: limits_ok_def allocset_new_def sizes_ok_def kAllocChunkLimit_def kAllocSetNumFreelists_def
        kAllocSetDefaultInitSize_def kAllocChunkFraction_def)
  moreover have "core self [] None (replicate 11 0) no_chunks m"
    using assms by (simp add: core_def geometry_def owned_def placed_def)
  ultimately show ?thesis unfolding allocset_inv_def
    by (intro conjI exI [of _ no_chunks]) (simp_all add: allocset_new_def kAllocSetNumFreelists_def)
qed

lemma destroy_rest:
  assumes "owned (b # bl) (buffers m)" "buffers_ok m"
  shows "owned [b] (buffers (fold AllocSetDestroyBlock bl m)) \<and> buffers_ok (fold AllocSetDestroyBlock bl m) \<and>
    byte_at (fold AllocSetDestroyBlock bl m) = byte_at m"
  using assms
proof (induction bl arbitrary: m)
  case (Cons x xs)
  have "bs_self b \<noteq> bs_self x" "bs_self x \<notin> bs_self ` set xs" using Cons.prems(1) by (simp_all add: owned_def)
  then have "filter (\<lambda>b'. bs_self b' \<noteq> bs_self x) (b # x # xs) = b # xs"
    by (simp add: filter_id_conv) (metis image_eqI)
  with destroyed [OF Cons.prems(1) _ Cons.prems(2), of x] Cons.IH [of "AllocSetDestroyBlock x m"]
  show ?case by simp
qed simp

definition reset_safe :: "AllocSetContext \<Rightarrow> bool" where
  "reset_safe c \<longleftrightarrow> (case as_freeptr c of None \<Rightarrow> True
     | Some s \<Rightarrow> (case as_blocks c of [] \<Rightarrow> False | b # _ \<Rightarrow> bs_self b = s))"

theorem reset_ok:
  assumes inv: "allocset_inv self c out m" and safe: "reset_safe c" and reset: "AllocSetReset c m = (c', m')"
  shows "allocset_inv self c' [] m' \<and> byte_at m' = byte_at m \<and> AllocSetIsEmpty c'"
proof -
  obtain L where L: "limits_ok c" "core self (as_blocks c) (as_freeptr c) (as_freelist c) L m"
    using inv by (auto simp: allocset_inv_def)
  have c': "as_freelist c' = replicate 11 0" "as_freeptr c' = as_freeptr c" "limits_ok c'" "AllocSetIsEmpty c'"
    using reset L(1) by (auto simp: AllocSetReset_def kAllocSetNumFreelists_def limits_ok_def AllocSetIsEmpty_def)
  have "core self (as_blocks c') (as_freeptr c) (replicate 11 0) no_chunks m' \<and> byte_at m' = byte_at m"
  proof (cases "as_blocks c")
    case Nil
    then have "as_blocks c' = []" "m' = m" using reset by (auto simp: AllocSetReset_def)
    moreover have "as_freeptr c = None" using safe Nil by (auto simp: reset_safe_def split: option.splits)
    ultimately show ?thesis using L(2) Nil by (simp add: core_def geometry_def owned_def placed_def)
  next
    case (Cons b bl)
    have bl': "as_blocks c' = [b\<lparr>bs_freeptr := bs_data b\<rparr>]" and m': "m' = fold AllocSetDestroyBlock bl m"
      using reset Cons by (auto simp: AllocSetReset_def)
    have own: "owned [b] (buffers m')" "buffers_ok m'" "byte_at m' = byte_at m"
      using destroy_rest [of b bl m] L(2) Cons by (auto simp: core_def m')
    have "16 dvd bs_data b" using own(1,2) by (auto simp: owned_def buffers_ok_def)
    then have dvd: "8 dvd bs_data b" by (rule dvd_trans [rotated]) simp
    have "placed [b\<lparr>bs_freeptr := bs_data b\<rparr>] no_chunks" using dvd by (auto intro: placedI)
    moreover have "bs_self b = s" if "as_freeptr c = Some s" for s using safe Cons that by (simp add: reset_safe_def)
    ultimately have "geometry [b\<lparr>bs_freeptr := bs_data b\<rparr>] (as_freeptr c) no_chunks" by (simp add: geometry_def)
    with own L(2) show ?thesis by (simp add: core_def bl' owned_def)
  qed
  with c' show ?thesis by (auto simp: allocset_inv_def intro!: exI [of _ no_chunks])
qed

section \<open>Reallocation\<close>

lemma chunk_header:
  assumes "allocset_inv self c out m" "(p, n) \<in> set out"
  shows "ReadHdr m p = header_word 0 True \<or> (\<exists>i < 11. ReadHdr m p = header_word i False \<and> n + 16 \<le> fsize i)"
proof -
  obtain L where L: "mset out = mset (handed_out L)" "core self (as_blocks c) (as_freeptr c) (as_freelist c) L m"
    using assms(1) by (auto simp: allocset_inv_def)
  have tags: "tags_ok self L (as_freelist c) m" and geo: "geometry (as_blocks c) (as_freeptr c) L" using L(2) by (auto simp: core_def)
  have "(p, n) \<in> set (handed_out L)" using assms(2) mset_eq_setD [OF L(1)] by simp
  then consider (small) a i where "(a, i, n) \<in> set (smalls L)" "p = a + 16" | (large) d where "(d, n) \<in> set (larges L)" "p = d + 16"
    by (auto simp: handed_out_def)
  then show ?thesis
  proof cases
    case small
    then have "read64 m (a + 8) = header_word i False" "i < 11 \<and> n + 16 \<le> fsize i"
      using tags geo by (auto simp: tags_ok_def geometry_def)
    then show ?thesis by (auto simp: ReadHdr_def small(2) add.commute [of a])
  next
    case large
    then have "read64 m (d + 8) = header_word 0 True" using tags by (auto simp: tags_ok_def)
    then show ?thesis by (simp add: ReadHdr_def large(2) add.commute [of d])
  qed
qed

lemma chunk_space:
  assumes "allocset_inv self c out m" "(p, n) \<in> set out"
  shows "AllocSetGetChunkSpace m p = 0 \<and> hdr_external (ReadHdr m p) \<or> n \<le> AllocSetGetChunkSpace m p \<and> \<not> hdr_external (ReadHdr m p)"
proof -
  have "p \<noteq> 0" using chunk_in_block [OF assms] by auto
  with chunk_header [OF assms] header_small header_large show ?thesis
    by (auto simp: AllocSetGetChunkSpace_def Let_def kChunkHdrSize_def)
qed

text \<open>Two chunks of the client, headers included, have no byte in common.\<close>

lemma chunks_apart:
  assumes "allocset_inv self c ((q, n) # out) m" "(p, k) \<in> set out"
  shows "16 \<le> p \<and> 16 \<le> q \<and> \<not> (p - 16 < q + n \<and> q - 16 < p + k)"
proof -
  have "16 \<le> p" "16 \<le> q" using chunk_in_block [OF assms(1), of p k] chunk_in_block [OF assms(1), of q n] assms(2) by auto
  moreover have "\<not> overlap (whole (q, n)) (whole (p, k))" using separated [OF assms(1)] assms(2) by (auto simp del: overlap.simps)
  ultimately show ?thesis by (auto simp: whole_def)
qed

text \<open>The copy into the new chunk is a write of the client.\<close>

lemma copy_ok:
  assumes "allocset_inv self c ((q, n) # out) m" "k \<le> n"
  shows "allocset_inv self c ((q, n) # out) (memcpy q p k m)"
proof (rule client_ok [OF assms(1)])
  have "buffers_ok m" "owned (as_blocks c) (buffers m)" using assms(1) by (auto simp: allocset_inv_def core_def)
  then show "client_step c ((q, n) # out) m (memcpy q p k m)"
    using assms(2) by (auto simp: client_step_def memcpy_def buffers_ok_def split: if_splits)
qed

definition reallocated :: "address \<Rightarrow> address \<Rightarrow> nat \<Rightarrow> nat \<Rightarrow> (address \<times> nat) list \<Rightarrow> Memory \<Rightarrow>
    (mem_error + address option) \<times> AllocSetContext \<times> Memory \<Rightarrow> bool" where
  "reallocated self p k n out m res = (case res of
     (Inl e, c', m') \<Rightarrow> e = BadAlloc \<and> allocset_inv self c' out m' \<and> byte_at m' = byte_at m
   | (Inr None, c', m') \<Rightarrow> False
   | (Inr (Some q), c', m') \<Rightarrow> allocset_inv self c' ((q, n) # remove1 (p, k) out) m' \<and>
       (\<not> hdr_external (ReadHdr m p) \<longrightarrow> (\<forall>i < min k n. byte_at m' (q + i) = byte_at m (p + i))))"

theorem realloc_ok:
  assumes inv: "allocset_inv self c out m" and p: "(p, k) \<in> set out" and n: "0 < n" "n < 2 ^ 62"
  shows "reallocated self p k n out m (AllocSetRealloc self p n c m)"
proof -
  obtain r c1 m1 where alloc: "AllocSetAlloc self n c m = (r, c1, m1)" by (metis prod.exhaust)
  note ok = alloc_ok [OF inv n(2), unfolded alloc]
  show ?thesis
  proof (cases r)
    case (Inl e)
    with ok alloc n show ?thesis by (simp add: allocated_def AllocSetRealloc_def reallocated_def)
  next
    case (Inr q)
    have inv1: "allocset_inv self c1 ((q, n) # out) m1" and frame: "\<And>x. x + 16 < q \<or> q \<le> x \<Longrightarrow> byte_at m1 x = byte_at m x"
      using ok Inr by (auto simp: allocated_def)
    note sep = chunks_apart [OF inv1 p]
    define old where "old = AllocSetGetChunkSpace m1 p"
    define cp where "cp = (if old < n then old else n)"
    obtain c2 m2 where free: "AllocSetFree p c1 (memcpy q p cp m1) = (c2, m2)" by fastforce
    have inv2: "allocset_inv self c1 ((q, n) # out) (memcpy q p cp m1)"
      by (rule copy_ok [OF inv1]) (simp add: cp_def)
    have p_in: "(p, k) \<in> set ((q, n) # out)" using p by simp
    note freed = free_ok [OF inv2 p_in free]
    have qp: "(q, n) \<noteq> (p, k)" using sep n by auto
    then have "remove1 (p, k) ((q, n) # out) = (q, n) # remove1 (p, k) out" by auto
    then have inv3: "allocset_inv self c2 ((q, n) # remove1 (p, k) out) m2" using freed by metis
    have "byte_at m2 (q + i) = byte_at m (p + i)" if small: "\<not> hdr_external (ReadHdr m p)" and i: "i < min k n" for i
    proof -
      have hdr: "ReadHdr m1 p = ReadHdr m p" unfolding ReadHdr_def
        by (rule read64_cong) (rule frame, use sep n in auto)
      have "k \<le> old" using chunk_space [OF inv1 p_in] small hdr by (simp add: old_def)
      then have "i < cp" using i by (simp add: cp_def)
      moreover have "byte_at m2 (q + i) = byte_at (memcpy q p cp m1) (q + i)" using freed sep i by auto
      moreover have "byte_at m1 (p + i) = byte_at m (p + i)" by (rule frame) (use sep i n in \<open>auto; linarith\<close>)
      ultimately show ?thesis by (simp add: memcpy_def)
    qed
    moreover have "AllocSetRealloc self p n c m = (Inr (Some q), c2, m2)"
      using alloc Inr n(1) free by (simp add: AllocSetRealloc_def Let_def old_def cp_def split: if_splits)
    ultimately show ?thesis using inv3 by (simp add: reallocated_def)
  qed
qed

section \<open>Runs of a client\<close>

type_synonym aset_state = "AllocSetContext \<times> (address \<times> nat) list \<times> Memory"

text \<open>The calls of a client: requests below \<open>2 ^ 62\<close> bytes, frees and reallocations of chunks it holds, resets when the
  active block is the one that is kept; between the calls it writes into its chunks, and the rest of the program does what
  it likes outside of the blocks.\<close>

inductive aset_step :: "address \<Rightarrow> aset_state \<Rightarrow> aset_state \<Rightarrow> bool" for self where
  step_alloc: "AllocSetAlloc self n c m = (Inr p, c', m') \<Longrightarrow> n < 2 ^ 62 \<Longrightarrow> aset_step self (c, out, m) (c', (p, n) # out, m')"
| step_failed: "AllocSetAlloc self n c m = (Inl e, c', m') \<Longrightarrow> n < 2 ^ 62 \<Longrightarrow> aset_step self (c, out, m) (c', out, m')"
| step_free: "(p, n) \<in> set out \<Longrightarrow> AllocSetFree p c m = (c', m') \<Longrightarrow> aset_step self (c, out, m) (c', remove1 (p, n) out, m')"
| step_realloc: "(p, k) \<in> set out \<Longrightarrow> AllocSetRealloc self p n c m = (Inr (Some q), c', m') \<Longrightarrow> 0 < n \<Longrightarrow> n < 2 ^ 62 \<Longrightarrow>
    aset_step self (c, out, m) (c', (q, n) # remove1 (p, k) out, m')"
| step_realloc_failed: "(p, k) \<in> set out \<Longrightarrow> AllocSetRealloc self p n c m = (Inl e, c', m') \<Longrightarrow> 0 < n \<Longrightarrow> n < 2 ^ 62 \<Longrightarrow>
    aset_step self (c, out, m) (c', out, m')"
| step_reset: "reset_safe c \<Longrightarrow> AllocSetReset c m = (c', m') \<Longrightarrow> aset_step self (c, out, m) (c', [], m')"
| step_client: "client_step c out m m' \<Longrightarrow> aset_step self (c, out, m) (c, out, m')"

inductive_cases aset_stepE: "aset_step self (c, out, m) s'"

fun aset_ok :: "address \<Rightarrow> aset_state \<Rightarrow> bool" where
  "aset_ok self (c, out, m) = allocset_inv self c out m"

lemma aset_step_ok: "aset_step self s s' \<Longrightarrow> aset_ok self s \<Longrightarrow> aset_ok self s'"
proof (induction rule: aset_step.induct)
  case (step_alloc n c m p c' m' out)
  with alloc_ok [of self c out m n] show ?case by (simp add: allocated_def)
next
  case (step_failed n c m e c' m' out)
  with alloc_ok [of self c out m n] show ?case by (simp add: allocated_def)
next
  case (step_free p n out c m c' m')
  with free_ok [of self c out m p n c' m'] show ?case by simp
next
  case (step_realloc p k out n c m q c' m')
  with realloc_ok [of self c out m p k n] show ?case by (simp add: reallocated_def)
next
  case (step_realloc_failed p k out n c m e c' m')
  with realloc_ok [of self c out m p k n] show ?case by (simp add: reallocated_def)
next
  case (step_reset c m c' m' out)
  with reset_ok [of self c out m c' m'] show ?case by simp
next
  case (step_client c out m m')
  with client_ok [of self c out m m'] show ?case by simp
qed

lemma aset_run_ok: "(aset_step self)\<^sup>*\<^sup>* s s' \<Longrightarrow> aset_ok self s \<Longrightarrow> aset_ok self s'"
  by (induction rule: rtranclp_induct) (auto intro: aset_step_ok)

definition chunks_fit :: "AllocSetContext \<Rightarrow> (address \<times> nat) list \<Rightarrow> Memory \<Rightarrow> bool" where
  "chunks_fit c out m \<longleftrightarrow> apart (map whole out) \<and>
     (\<forall>(p, n) \<in> set out. 8 dvd p \<and> (\<exists>b \<in> set (as_blocks c).
        (bs_data b, bs_cap b) \<in> set (buffers m) \<and> bs_data b + 16 \<le> p \<and> p + n \<le> bs_data b + bs_cap b))"

lemma chunks_fitI: "allocset_inv self c out m \<Longrightarrow> chunks_fit c out m"
  using separated chunk_in_block unfolding chunks_fit_def by blast

text \<open>After a reset of a context whose newest block is a large one the next small request goes through a freed block.\<close>

lemma reset_unsafe:
  assumes "\<not> reset_safe c" "AllocSetReset c m = (c', m')" "i < 11"
  shows "alloc_small self i c' m' = (Inl DanglingBlock, c', m')"
proof -
  obtain s where s: "as_freeptr c = Some s" using assms(1) by (auto simp: reset_safe_def split: option.splits)
  have "as_freelist c' ! i = 0" "as_freeptr c' = Some s" "find (\<lambda>b. bs_self b = s) (as_blocks c') = None"
    using assms s by (auto simp: AllocSetReset_def reset_safe_def kAllocSetNumFreelists_def split: list.splits)
  then show ?thesis by (simp add: alloc_small_def)
qed

text \<open>The space of a large chunk is reported as 0, so nothing of it is copied.\<close>

lemma realloc_large:
  assumes inv: "allocset_inv self c out m" and p: "(p, k) \<in> set out" and n: "0 < n" "n < 2 ^ 62"
    and large: "hdr_external (ReadHdr m p)" and run: "AllocSetRealloc self p n c m = (Inr (Some q), c', m')"
  shows "\<forall>i < n. byte_at m' (q + i) = byte_at m (q + i)"
proof -
  obtain c1 m1 where alloc: "AllocSetAlloc self n c m = (Inr q, c1, m1)"
    using run n(1) by (auto simp: AllocSetRealloc_def Let_def split: prod.splits sum.splits)
  have inv1: "allocset_inv self c1 ((q, n) # out) m1" and frame: "\<And>x. x + 16 < q \<or> q \<le> x \<Longrightarrow> byte_at m1 x = byte_at m x"
    using alloc_ok [OF inv n(2), unfolded alloc] by (auto simp: allocated_def)
  note sep = chunks_apart [OF inv1 p]
  have "ReadHdr m1 p = ReadHdr m p" unfolding ReadHdr_def by (rule read64_cong) (rule frame, use sep n in auto)
  then have "AllocSetGetChunkSpace m1 p = 0" using large by (simp add: AllocSetGetChunkSpace_def)
  then have free: "AllocSetFree p c1 (memcpy q p 0 m1) = (c', m')"
    using run alloc n(1) by (simp add: AllocSetRealloc_def split: prod.splits)
  have p_in: "(p, k) \<in> set ((q, n) # out)" using p by simp
  have same: "byte_at m' x = byte_at (memcpy q p 0 m1) x" if "x + 16 < p \<or> p \<le> x" for x
    using free_ok [OF copy_ok [OF inv1, of 0 p] p_in free] that by blast
  have "byte_at m' (q + i) = byte_at (memcpy q p 0 m1) (q + i)" if "i < n" for i
    by (rule same) (use sep that in \<open>auto; linarith\<close>)
  then show ?thesis using frame by (simp add: memcpy_def)
qed

section \<open>Properties\<close>

definition malloc_at :: "nat \<Rightarrow> address \<Rightarrow> Memory" where
  "malloc_at step base = \<lparr>byte_at = (\<lambda>_. 0), buffers = [], answers = (\<lambda>i. Some (base + step * i))\<rparr>"

text \<open>C21: Memory safety of the free-list allocator \<open>AllocSetContext\<close>. Whatever a client that keeps the rules of
  \<open>aset_step\<close> has done with a new context (allocations, failed ones, frees, reallocations, resets while the newest block is
  the active one, any writes into its own chunks), the chunks it holds, each with its 16 byte header, have no byte in
  common, are aligned to 8 bytes and lie inside of blocks that \<open>malloc\<close> gave the context and that are not freed; and no
  further request goes through a block that was freed.\<close>

theorem allocator_bounds:
  assumes "buffers_ok m0" "self < 2 ^ 64" "sizes_ok init_size max_size"
    and "(aset_step self)\<^sup>*\<^sup>* (allocset_new init_size max_size, [], m0) (c, out, m)"
  shows "chunks_fit c out m \<and> (n < 2 ^ 62 \<longrightarrow> fst (AllocSetAlloc self n c m) \<noteq> Inl DanglingBlock)"
proof -
  have "allocset_inv self c out m"
    using aset_run_ok [OF assms(4)] allocset_new_ok [OF assms(1-3)] by simp
  then show ?thesis using chunks_fitI alloc_ok by (fastforce simp: allocated_def)
qed

lemma answers_tagged [simp]: "answers (tagged self a i e m) = answers m"
  by (simp add: tagged_def WriteCtx_def WriteHdr_def write_ptr_def)

lemma malloc_answer: "answers m 0 = Some a \<Longrightarrow> suitable a n m \<Longrightarrow>
    malloc n m = (Some a, m\<lparr>answers := (\<lambda>i. answers m (Suc i)), buffers := (a, n) # buffers m\<rparr>)"
  by (simp add: malloc_def)

lemma create_block_at:
  assumes "answers m 0 = Some s" "answers m 1 = Some d" "suitable s 72 m" "suitable d (round8 n) (m\<lparr>buffers := (s, 72) # buffers m\<rparr>)"
    and "d + round8 n < 2 ^ 64"
  shows "AllocSetCreateBlock n m = (Inr \<lparr>bs_self = s, bs_data = d, bs_cap = round8 n, bs_freeptr = d, bs_endptr = d + round8 n\<rparr>,
     m\<lparr>answers := (\<lambda>i. answers m (Suc (Suc i))), buffers := (d, round8 n) # (s, 72) # buffers m\<rparr>)"
  using assms by (simp add: AllocSetCreateBlock_def Let_def sizeof_BlockStorage_def malloc_answer suitable_def)

lemmas alloc_constants = kChunkHdrSize_def kAllocChunkLimit_def kAllocSetNumFreelists_def kAllocSetDefaultInitSize_def
  AllocSetFreeListIndex_def AllocSetFreeListSize_def InitSizeMin_def round8_def sizeof_BlockStorage_def

lemma first_alloc:
  "\<exists>c m. AllocSetAlloc 4096 10 (allocset_new 8192 8388608) (malloc_at 65536 65536) = (Inr 131088, c, m) \<and>
     as_blocks c = [\<lparr>bs_self = 65536, bs_data = 131072, bs_cap = 8192, bs_freeptr = 131104, bs_endptr = 139264\<rparr>] \<and>
     as_freeptr c = Some 65536 \<and> as_chunk_limit c = 8192 \<and> buffers m = [(131072, 8192), (65536, 72)] \<and>
     answers m = (\<lambda>i. Some (65536 + 65536 * Suc (Suc i)))"
  by (simp add: AllocSetAlloc_def allocset_new_def alloc_small_def alloc_new_block_def create_block_at malloc_at_def suitable_def
      hand_out_tagged alloc_constants Let_def)

lemma small_then_large:
  "\<exists>c1 m1 c2 m2. AllocSetAlloc 4096 10 (allocset_new 8192 8388608) (malloc_at 65536 65536) = (Inr 131088, c1, m1) \<and>
     AllocSetAlloc 4096 10000 c1 m1 = (Inr 262160, c2, m2) \<and> \<not> reset_safe c2 \<and> as_chunk_limit c2 = 8192 \<and>
     hdr_external (ReadHdr m2 262160) \<and> fst (AllocSetAlloc 4096 20000 c2 m2) = Inr 393232"
proof -
  obtain c1 m1 where one: "AllocSetAlloc 4096 10 (allocset_new 8192 8388608) (malloc_at 65536 65536) = (Inr 131088, c1, m1)"
    and c1: "as_blocks c1 = [\<lparr>bs_self = 65536, bs_data = 131072, bs_cap = 8192, bs_freeptr = 131104, bs_endptr = 139264\<rparr>]"
     "as_freeptr c1 = Some 65536" "as_chunk_limit c1 = 8192" "buffers m1 = [(131072, 8192), (65536, 72)]"
     "answers m1 = (\<lambda>i. Some (65536 + 65536 * Suc (Suc i)))"
    using first_alloc by blast
  obtain c2 m2 where two: "AllocSetAlloc 4096 10000 c1 m1 = (Inr 262160, c2, m2)" and c2: "\<not> reset_safe c2" "as_chunk_limit c2 = 8192"
    and m2: "\<exists>m. m2 = tagged 4096 262144 0 True m" "buffers m2 = [(262144, 10016), (196608, 72), (131072, 8192), (65536, 72)]"
      "answers m2 = (\<lambda>i. Some (65536 + 65536 * Suc (Suc (Suc (Suc i)))))"
    by (simp add: AllocSetAlloc_def alloc_large_def create_block_at suitable_def c1 hand_out_tagged reset_safe_def alloc_constants Let_def)
      auto
  have "fst (AllocSetAlloc 4096 20000 c2 m2) = Inr 393232"
    by (simp add: AllocSetAlloc_def alloc_large_def create_block_at suitable_def c2 m2(2,3) hand_out_tagged alloc_constants Let_def)
  moreover have "ReadHdr m2 262160 = header_word 0 True"
    using m2(1) read_tagged [of 4096 262144 0 True] by (auto simp: ReadHdr_def)
  ultimately show ?thesis using one two c2 header_large by metis
qed

lemma two_chunks:
  "\<exists>c m. (aset_step 4096)\<^sup>*\<^sup>* (allocset_new 8192 8388608, [], malloc_at 65536 65536) (c, [(262160, 10000), (131088, 10)], m) \<and>
     hdr_external (ReadHdr m 262160) \<and> fst (AllocSetAlloc 4096 20000 c m) = Inr 393232"
proof -
  obtain c1 m1 c2 m2 where runs: "AllocSetAlloc 4096 10 (allocset_new 8192 8388608) (malloc_at 65536 65536) = (Inr 131088, c1, m1)"
    "AllocSetAlloc 4096 10000 c1 m1 = (Inr 262160, c2, m2)" and c2: "hdr_external (ReadHdr m2 262160)" "fst (AllocSetAlloc 4096 20000 c2 m2) = Inr 393232"
    using small_then_large by blast
  have "aset_step 4096 (allocset_new 8192 8388608, [], malloc_at 65536 65536) (c1, [(131088, 10)], m1)"
    by (rule step_alloc [OF runs(1)]) simp
  moreover have "aset_step 4096 (c1, [(131088, 10)], m1) (c2, [(262160, 10000), (131088, 10)], m2)"
    by (rule step_alloc [OF runs(2)]) simp
  ultimately show ?thesis using c2 by (meson converse_rtranclp_into_rtranclp rtranclp.rtrancl_refl)
qed

theorem allocator_bounds_witness:
  "\<exists>c m. (aset_step 4096)\<^sup>*\<^sup>* (allocset_new 8192 8388608, [], malloc_at 65536 65536) (c, [(262160, 10000), (131088, 10)], m) \<and>
     chunks_fit c [(262160, 10000), (131088, 10)] m \<and> fst (AllocSetAlloc 4096 100 c m) \<noteq> Inl DanglingBlock"
proof -
  obtain c m where run: "(aset_step 4096)\<^sup>*\<^sup>* (allocset_new 8192 8388608, [], malloc_at 65536 65536)
      (c, [(262160, 10000), (131088, 10)], m)" using two_chunks by blast
  have "buffers_ok (malloc_at 65536 65536)" by (simp add: buffers_ok_def malloc_at_def)
  from allocator_bounds [OF this _ _ run, of 100] run show ?thesis by (auto simp: sizes_ok_def)
qed

text \<open>C25: \<open>AllocSetReset\<close> keeps the newest block but not the pointer to the block that small chunks are cut from. When the
  newest block is that of a large chunk, the active block is freed and stays active: the next small request after the reset
  writes through a freed block. (With the newest block active a reset is safe: it is a step of \<open>aset_step\<close>.)\<close>

theorem reset_leaves_dangling:
  assumes "\<not> reset_safe c" "AllocSetReset c m = (c', m')" "max n 1 + 16 \<le> as_chunk_limit c" "as_chunk_limit c \<le> 8192"
  shows "fst (AllocSetAlloc self n c' m') = Inl DanglingBlock"
proof -
  define k where "k = (if n = 0 then 1 else n) + 16"
  have k: "k \<le> as_chunk_limit c" "k \<le> 8192" using assms(3,4) by (auto simp: k_def)
  have "as_chunk_limit c' = as_chunk_limit c" using assms(2) by (auto simp: AllocSetReset_def)
  then have "AllocSetAlloc self n c' m' = alloc_small self (AllocSetFreeListIndex k) c' m'"
    using k by (simp add: AllocSetAlloc_def kChunkHdrSize_def k_def Let_def split: if_splits)
  then show ?thesis using reset_unsafe [OF assms(1,2) index_fits(2) [of k]] by simp
qed

theorem reset_leaves_dangling_witness:
  "\<exists>c1 m1 c2 m2. AllocSetAlloc 4096 10 (allocset_new 8192 8388608) (malloc_at 65536 65536) = (Inr 131088, c1, m1) \<and>
     AllocSetAlloc 4096 10000 c1 m1 = (Inr 262160, c2, m2) \<and>
     (case AllocSetReset c2 m2 of (c3, m3) \<Rightarrow> fst (AllocSetAlloc 4096 10 c3 m3) = Inl DanglingBlock)"
proof -
  obtain c1 m1 c2 m2 where runs: "AllocSetAlloc 4096 10 (allocset_new 8192 8388608) (malloc_at 65536 65536) = (Inr 131088, c1, m1)"
    "AllocSetAlloc 4096 10000 c1 m1 = (Inr 262160, c2, m2)" and c2: "\<not> reset_safe c2" "as_chunk_limit c2 = 8192"
    using small_then_large by blast
  obtain c3 m3 where reset: "AllocSetReset c2 m2 = (c3, m3)" by fastforce
  have "fst (AllocSetAlloc 4096 10 c3 m3) = Inl DanglingBlock"
    by (rule reset_leaves_dangling [OF c2(1) reset]) (simp_all add: c2(2))
  with runs reset show ?thesis by auto
qed

text \<open>C39: Reallocation of a chunk of a running context. When it succeeds, the old chunk is given back and the new one is
  disjoint from all others; a small chunk keeps its first \<open>min k n\<close> bytes. Of a large chunk nothing is kept: its space is
  reported as 0, so the new chunk holds whatever was in memory there before.\<close>

theorem realloc_contents:
  assumes "buffers_ok m0" "self < 2 ^ 64" "sizes_ok init_size max_size"
    and "(aset_step self)\<^sup>*\<^sup>* (allocset_new init_size max_size, [], m0) (c, out, m)"
    and "(p, k) \<in> set out" "0 < n" "n < 2 ^ 62" "AllocSetRealloc self p n c m = (Inr (Some q), c', m')"
  shows "chunks_fit c' ((q, n) # remove1 (p, k) out) m' \<and>
    (if hdr_external (ReadHdr m p) then \<forall>i < n. byte_at m' (q + i) = byte_at m (q + i)
     else \<forall>i < min k n. byte_at m' (q + i) = byte_at m (p + i))"
proof -
  have inv: "allocset_inv self c out m"
    using aset_run_ok [OF assms(4)] allocset_new_ok [OF assms(1-3)] by simp
  show ?thesis
    using realloc_ok [OF inv assms(5-7)] realloc_large [OF inv assms(5-7) _ assms(8)] assms(8) chunks_fitI
    by (auto simp: reallocated_def)
qed

theorem realloc_contents_witness:
  "\<exists>c m c' m'. (aset_step 4096)\<^sup>*\<^sup>* (allocset_new 8192 8388608, [], malloc_at 65536 65536) (c, [(262160, 10000), (131088, 10)], m) \<and>
     AllocSetRealloc 4096 262160 20000 c m = (Inr (Some 393232), c', m') \<and>
     chunks_fit c' [(393232, 20000), (131088, 10)] m' \<and> (\<forall>i < 20000. byte_at m' (393232 + i) = byte_at m (393232 + i))"
proof -
  obtain c m where run: "(aset_step 4096)\<^sup>*\<^sup>* (allocset_new 8192 8388608, [], malloc_at 65536 65536)
      (c, [(262160, 10000), (131088, 10)], m)" and c: "hdr_external (ReadHdr m 262160)" "fst (AllocSetAlloc 4096 20000 c m) = Inr 393232"
    using two_chunks by blast
  obtain c' m' where real: "AllocSetRealloc 4096 262160 20000 c m = (Inr (Some 393232), c', m')"
  proof -
    obtain c1 m1 where "AllocSetAlloc 4096 20000 c m = (Inr 393232, c1, m1)" using c(2) by (metis prod.collapse)
    then have "fst (AllocSetRealloc 4096 262160 20000 c m) = Inr (Some 393232)"
      by (simp add: AllocSetRealloc_def Let_def split: prod.split)
    then show ?thesis using that by (metis prod.collapse)
  qed
  have m0: "buffers_ok (malloc_at 65536 65536)" by (simp add: buffers_ok_def malloc_at_def)
  have "chunks_fit c' ((393232, 20000) # remove1 (262160, 10000) [(262160, 10000), (131088, 10)]) m' \<and>
    (if hdr_external (ReadHdr m 262160) then \<forall>i < 20000. byte_at m' (393232 + i) = byte_at m (393232 + i)
     else \<forall>i < min 10000 20000. byte_at m' (393232 + i) = byte_at m (262160 + i))"
    by (rule realloc_contents [OF m0 _ _ run _ _ _ real]) (simp_all add: sizes_ok_def)
  with run real c(1) show ?thesis by auto
qed

end
