(* ===== verification/Context_Api.thy ===== *)
theory Context_Api
  imports Alloc_Client
begin

text \<open>
  The allocation interface of \<open>common/memcontext.cpp\<close> (\<open>jmalloc\<close>, \<open>jmfree\<close>, \<open>jrealloc\<close>, copies of strings, aligned
  requests), on contexts of the kind the program makes, \<open>AllocSetContext\<close>.

  \<^item> The contexts of the process are the map \<open>contexts\<close> from their addresses; a chunk names its context in its header.
  \<^item> C strings are lists of bytes without the zero at the end.
  \<^item> The locale \<open>chunk_provider\<close> is what users of chunks rely on: a new chunk is theirs, apart from all others, and filling it
    disturbs neither the allocator nor the other chunks. It is interpreted on the allocator of the program.
\<close>

section \<open>Chunks as an interface\<close>

definition write_bytes :: "address \<Rightarrow> u8 list \<Rightarrow> Memory \<Rightarrow> Memory" where
  "write_bytes a bs m = m\<lparr>byte_at := (\<lambda>x. if a \<le> x \<and> x < a + length bs then bs ! (x - a) else byte_at m x)\<rparr>"

definition bytes_at :: "Memory \<Rightarrow> address \<Rightarrow> nat \<Rightarrow> u8 list" where
  "bytes_at m a n = map (\<lambda>i. byte_at m (a + i)) [0..<n]"

lemma memset_bytes: "memset a v n m = write_bytes a (replicate n v) m"
proof -
  have "(\<lambda>x. if a \<le> x \<and> x < a + n then v else byte_at m x) = (\<lambda>x. if a \<le> x \<and> x < a + n then replicate n v ! (x - a) else byte_at m x)"
    by (rule ext) auto
  then show ?thesis by (simp add: memset_def write_bytes_def)
qed

lemma bytes_written: "bytes_at (write_bytes a bs m) a (length bs) = bs"
  by (rule nth_equalityI) (simp_all add: bytes_at_def write_bytes_def)

lemma bytes_elsewhere: "\<not> (a < b + n \<and> b < a + length bs) \<Longrightarrow> bytes_at (write_bytes a bs m) b n = bytes_at m b n"
  by (auto simp: bytes_at_def write_bytes_def)

locale chunk_provider =
  fixes inv :: "'c \<Rightarrow> (address \<times> nat) list \<Rightarrow> Memory \<Rightarrow> bool"
    and alloc :: "nat \<Rightarrow> 'c \<Rightarrow> Memory \<Rightarrow> (mem_error + address) \<times> 'c \<times> Memory"
    and release :: "address \<Rightarrow> 'c \<Rightarrow> Memory \<Rightarrow> 'c \<times> Memory"
    and request_ok :: "nat \<Rightarrow> bool"
  assumes alloc_new: "inv c out m \<Longrightarrow> request_ok n \<Longrightarrow> alloc n c m = (Inr p, c', m') \<Longrightarrow>
      inv c' ((p, n) # out) m' \<and> p \<noteq> 0 \<and> (\<forall>(q, k) \<in> set out. bytes_at m' q k = bytes_at m q k)"
    and alloc_refused: "inv c out m \<Longrightarrow> request_ok n \<Longrightarrow> alloc n c m = (Inl e, c', m') \<Longrightarrow>
      e = BadAlloc \<and> inv c' out m' \<and> (\<forall>(q, k) \<in> set out. bytes_at m' q k = bytes_at m q k)"
    and apart_chunks: "inv c out m \<Longrightarrow> apart out"
    and own_writes: "inv c out m \<Longrightarrow> (p, n) \<in> set out \<Longrightarrow> length bs \<le> n \<Longrightarrow> inv c out (write_bytes p bs m)"
    and release_gives_back: "inv c out m \<Longrightarrow> (p, n) \<in> set out \<Longrightarrow> release p c m = (c', m') \<Longrightarrow>
      inv c' (remove1 (p, n) out) m' \<and> (\<forall>(q, k) \<in> set (remove1 (p, n) out). bytes_at m' q k = bytes_at m q k)"
begin

text \<open>Filling a new chunk.\<close>

lemma filled:
  assumes "inv c out m" "request_ok (length bs + k)" "alloc (length bs + k) c m = (Inr p, c', m')"
  shows "inv c' ((p, length bs + k) # out) (write_bytes p bs m')" "bytes_at (write_bytes p bs m') p (length bs) = bs"
    "\<forall>(q, j) \<in> set out. bytes_at (write_bytes p bs m') q j = bytes_at m q j"
proof -
  note new = alloc_new [OF assms]
  show "inv c' ((p, length bs + k) # out) (write_bytes p bs m')" using new by (intro own_writes) auto
  show "bytes_at (write_bytes p bs m') p (length bs) = bs" by (rule bytes_written)
  have "\<not> (p < q + j \<and> q < p + length bs)" if "(q, j) \<in> set out" for q j
    using apart_chunks [OF conjunct1 [OF new]] that by fastforce
  then show "\<forall>(q, j) \<in> set out. bytes_at (write_bytes p bs m') q j = bytes_at m q j"
    using new bytes_elsewhere by fastforce
qed

end

lemma bytes_at_cong: "(\<And>i. i < n \<Longrightarrow> byte_at m' (a + i) = byte_at m (a + i)) \<Longrightarrow> bytes_at m' a n = bytes_at m a n"
  by (simp add: bytes_at_def)

lemma allocset_writes:
  assumes "allocset_inv self c out m" "(p, n) \<in> set out" "length bs \<le> n"
  shows "allocset_inv self c out (write_bytes p bs m)"
proof (rule client_ok [OF assms(1)])
  have "buffers_ok m" "owned (as_blocks c) (buffers m)" using assms(1) by (auto simp: allocset_inv_def core_def)
  moreover have "\<exists>(q, k) \<in> set out. q \<le> x \<and> x < q + k" if "byte_at (write_bytes p bs m) x \<noteq> byte_at m x" for x
    using that assms(2,3) by (intro bexI [of _ "(p, n)"]) (auto simp: write_bytes_def split: if_splits)
  moreover have "buffers (write_bytes p bs m) = buffers m" by (simp add: write_bytes_def)
  ultimately show "client_step c out m (write_bytes p bs m)"
    unfolding client_step_def buffers_ok_def by auto
qed

lemma whole_keeps_apart: "apart (map whole out) \<Longrightarrow> \<forall>(p, n) \<in> set out. 16 \<le> p \<Longrightarrow> apart out"
proof (induction out)
  case (Cons x xs)
  have "\<not> overlap x y" if "y \<in> set xs" for y
  proof -
    have "\<not> overlap (whole x) (whole y)" using Cons.prems(1) that by simp
    then show ?thesis using Cons.prems(2) that by (cases x; cases y) (auto simp: whole_def)
  qed
  with Cons show ?case by auto
qed simp

interpretation aset: chunk_provider "allocset_inv self" "AllocSetAlloc self" AllocSetFree "\<lambda>n. n < 2 ^ 62" for self
proof
  fix c out m n p c' m'
  assume inv: "allocset_inv self c out m" and n: "n < 2 ^ 62" and run: "AllocSetAlloc self n c m = (Inr p, c', m')"
  note ok = alloc_ok [OF inv n, unfolded run allocated_def]
  then have inv': "allocset_inv self c' ((p, n) # out) m'" by simp
  have "bytes_at m' q k = bytes_at m q k" if q: "(q, k) \<in> set out" for q k
  proof (rule bytes_at_cong)
    fix i assume "i < k"
    with chunks_apart [OF inv' q] have "q + i + 16 < p \<or> p \<le> q + i" by auto
    with ok show "byte_at m' (q + i) = byte_at m (q + i)" by auto
  qed
  with ok inv' show "allocset_inv self c' ((p, n) # out) m' \<and> p \<noteq> 0 \<and> (\<forall>(q, k) \<in> set out. bytes_at m' q k = bytes_at m q k)" by auto
next
  fix c out m n e c' m'
  assume "allocset_inv self c out m" "n < 2 ^ 62" "AllocSetAlloc self n c m = (Inl e, c', m')"
  then show "e = BadAlloc \<and> allocset_inv self c' out m' \<and> (\<forall>(q, k) \<in> set out. bytes_at m' q k = bytes_at m q k)"
    using alloc_ok [of self c out m n] by (auto simp: allocated_def bytes_at_def)
next
  fix c out m assume inv: "allocset_inv self c out m"
  have low: "16 \<le> p" if "(p, n) \<in> set out" for p n using chunk_in_block [OF inv that] by auto
  have "\<forall>(p, n) \<in> set out. 16 \<le> p" using low by blast
  with separated [OF inv] show "apart out" by (rule whole_keeps_apart)
next
  fix c out m p n and bs :: "u8 list"
  assume "allocset_inv self c out m" "(p, n) \<in> set out" "length bs \<le> n"
  then show "allocset_inv self c out (write_bytes p bs m)" by (rule allocset_writes)
next
  fix c out m p n c' m'
  assume inv: "allocset_inv self c out m" and p: "(p, n) \<in> set out" and run: "AllocSetFree p c m = (c', m')"
  note ok = free_ok [OF inv p run]
  have "bytes_at m' q k = bytes_at m q k" if q: "(q, k) \<in> set (remove1 (p, n) out)" for q k
  proof (rule bytes_at_cong)
    fix i assume i: "i < k"
    have "apart (map whole ((p, n) # remove1 (p, n) out))"
      using separated [OF inv] p by (subst apart_perm [OF mset_map_cong]) auto
    then have "\<not> overlap (whole (p, n)) (whole (q, k))" using q by auto
    moreover have "(q, k) \<in> set out" using q set_remove1_subset by fast
    then have "16 \<le> p" "16 \<le> q" using chunk_in_block [OF inv p] chunk_in_block [OF inv, of q k] by auto
    ultimately have "q + i + 16 < p \<or> p \<le> q + i" using i by (auto simp: whole_def)
    with ok show "byte_at m' (q + i) = byte_at m (q + i)" by auto
  qed
  with ok show "allocset_inv self c' (remove1 (p, n) out) m' \<and> (\<forall>(q, k) \<in> set (remove1 (p, n) out). bytes_at m' q k = bytes_at m q k)"
    by auto
qed

section \<open>The contexts of a process\<close>

record Process =
  contexts :: "address \<Rightarrow> AllocSetContext option"
  memory :: Memory

definition kMaxAllocSize :: nat where "kMaxAllocSize = 0x3FFFFFFF"
definition kMCXT_ALLOC_HUGE :: u32 where "kMCXT_ALLOC_HUGE = 1"
definition kMCXT_ALLOC_ZERO :: u32 where "kMCXT_ALLOC_ZERO = 4"
definition kMCTypeBump :: u64 where "kMCTypeBump = 2"

definition AllocSizeIsValid :: "nat \<Rightarrow> bool" where
  "AllocSizeIsValid n \<longleftrightarrow> n \<le> kMaxAllocSize"

definition put_context :: "address \<Rightarrow> AllocSetContext \<Rightarrow> Memory \<Rightarrow> Process \<Rightarrow> Process" where
  "put_context ctx c m h = h\<lparr>contexts := (contexts h)(ctx := Some c), memory := m\<rparr>"

definition MemoryContextAllocExtended :: "address \<Rightarrow> nat \<Rightarrow> u32 \<Rightarrow> Process \<Rightarrow> (mem_error + address) \<times> Process" where
  "MemoryContextAllocExtended ctx n flags h =
     (if flags AND kMCXT_ALLOC_HUGE = 0 \<and> kMaxAllocSize < n then (Inl BadAlloc, h)
      else case contexts h ctx of None \<Rightarrow> (Inl DanglingBlock, h)
      | Some c \<Rightarrow> (case AllocSetAlloc ctx n c (memory h) of
          (Inl e, c, m) \<Rightarrow> (Inl e, put_context ctx c m h)
        | (Inr p, c, m) \<Rightarrow> (Inr p, put_context ctx (c\<lparr>is_reset := False\<rparr>)
            (if flags AND kMCXT_ALLOC_ZERO \<noteq> 0 \<and> p \<noteq> 0 \<and> 0 < n then memset p 0 n m else m) h)))"

definition MemoryContextAlloc :: "address \<Rightarrow> nat \<Rightarrow> Process \<Rightarrow> (mem_error + address) \<times> Process" where
  "MemoryContextAlloc ctx n = MemoryContextAllocExtended ctx n 0"

definition MemoryContextAllocZero :: "address \<Rightarrow> nat \<Rightarrow> Process \<Rightarrow> (mem_error + address) \<times> Process" where
  "MemoryContextAllocZero ctx n = MemoryContextAllocExtended ctx n kMCXT_ALLOC_ZERO"

text \<open>\<open>(start + align - 1) & ~(align - 1)\<close>\<close>

definition align_up :: "address \<Rightarrow> nat \<Rightarrow> address" where
  "align_up start align = unat (((of_nat start :: u64) + of_nat align - 1) AND NOT (of_nat align - 1))"

definition MemoryContextAllocAligned :: "address \<Rightarrow> nat \<Rightarrow> nat \<Rightarrow> u32 \<Rightarrow> Process \<Rightarrow> (mem_error + address) \<times> Process" where
  "MemoryContextAllocAligned ctx n align flags h = (if align \<le> 8 then MemoryContextAllocExtended ctx n flags h
     else case MemoryContextAllocExtended ctx (sub64 (w64 (n + align)) 8) flags h of
       (Inl e, h) \<Rightarrow> (Inl e, h)
     | (Inr raw, h) \<Rightarrow> (Inr (w64 (raw + sub64 (align_up raw align) raw)), h))"

definition GetMemoryChunkContext :: "Memory \<Rightarrow> address \<Rightarrow> address" where
  "GetMemoryChunkContext m p = (if p = 0 then 0 else let hdr = read64 m (p - 8); method_id = hdr AND 0xFF in
     if method_id = kAllocSetMethodId then read_ptr m (p - 16)
     else if method_id = kMCTypeBump then unat (drop_bit 8 hdr)
     else 0)"

text \<open>A chunk of a bump context is no chunk of \<open>contexts\<close>; freeing it does nothing.\<close>

definition MemoryContextFree :: "address \<Rightarrow> Process \<Rightarrow> (mem_error + unit) \<times> Process" where
  "MemoryContextFree p h = (let ctx = GetMemoryChunkContext (memory h) p in
     if p = 0 \<or> ctx = 0 \<or> read64 (memory h) (p - 8) AND 0xFF = kMCTypeBump then (Inr (), h)
     else case contexts h ctx of None \<Rightarrow> (Inl DanglingBlock, h)
     | Some c \<Rightarrow> (case AllocSetFree p c (memory h) of (c, m) \<Rightarrow> (Inr (), put_context ctx c m h)))"

definition GetMemoryChunkSpace :: "Memory \<Rightarrow> address \<Rightarrow> nat" where
  "GetMemoryChunkSpace m p = (if p = 0 \<or> GetMemoryChunkContext m p = 0 \<or> read64 m (p - 8) AND 0xFF = kMCTypeBump then 0
     else AllocSetGetChunkSpace m p)"

text \<open>\<open>current\<close> is \<open>CurrentMemoryContext\<close> of the thread, null before its first allocation.\<close>

definition MemoryContextRealloc :: "address \<Rightarrow> address \<Rightarrow> nat \<Rightarrow> Process \<Rightarrow> (mem_error + address) \<times> Process" where
  "MemoryContextRealloc current p n h = (if p = 0 then MemoryContextAlloc current n h
     else if n = 0 then (case MemoryContextFree p h of (Inl e, h) \<Rightarrow> (Inl e, h) | (Inr _, h) \<Rightarrow> (Inr 0, h))
     else let ctx = GetMemoryChunkContext (memory h) p in case contexts h ctx of
       None \<Rightarrow> (Inl DanglingBlock, h)
     | Some c \<Rightarrow> (case AllocSetRealloc ctx p n c (memory h) of
         (Inl e, c, m) \<Rightarrow> (Inl e, put_context ctx c m h)
       | (Inr q, c, m) \<Rightarrow> (Inr (case q of None \<Rightarrow> 0 | Some q \<Rightarrow> q), put_context ctx c m h)))"

definition EffectiveCurrent :: "address \<Rightarrow> address \<Rightarrow> address" where
  "EffectiveCurrent current top_context = (if current = 0 then top_context else current)"

definition jmalloc :: "address \<Rightarrow> address \<Rightarrow> nat \<Rightarrow> Process \<Rightarrow> (mem_error + address) \<times> Process" where
  "jmalloc current top_context = MemoryContextAlloc (EffectiveCurrent current top_context)"

definition jrealloc0 :: "address \<Rightarrow> address \<Rightarrow> nat \<Rightarrow> nat \<Rightarrow> Process \<Rightarrow> (mem_error + address) \<times> Process" where
  "jrealloc0 current p old_size new_size h = (case MemoryContextRealloc current p new_size h of
     (Inl e, h) \<Rightarrow> (Inl e, h)
   | (Inr q, h) \<Rightarrow> (Inr q, if old_size < new_size then h\<lparr>memory := memset (q + old_size) 0 (new_size - old_size) (memory h)\<rparr> else h))"

definition jrealloc_array :: "address \<Rightarrow> address \<Rightarrow> nat \<Rightarrow> nat \<Rightarrow> nat \<Rightarrow> Process \<Rightarrow> (mem_error + address) \<times> Process" where
  "jrealloc_array current p old_count new_count elem_size =
     jrealloc0 current p (w64 (old_count * elem_size)) (w64 (new_count * elem_size))"

section \<open>Copies of strings\<close>

partial_function (option) strlen :: "Memory \<Rightarrow> address \<Rightarrow> nat option" where
  "strlen m s = (if byte_at m s = 0 then Some 0 else Option.bind (strlen m (s + 1)) (\<lambda>n. Some (n + 1)))"

text \<open>\<open>None\<close>: the source has no end.\<close>

definition MemoryContextStrdup :: "address \<Rightarrow> address \<Rightarrow> Process \<Rightarrow> ((mem_error + address) \<times> Process) option" where
  "MemoryContextStrdup ctx s h = (if s = 0 then Some (Inr 0, h)
     else Option.bind (strlen (memory h) s) (\<lambda>len. Some (case MemoryContextAlloc ctx (len + 1) h of
       (Inl e, h) \<Rightarrow> (Inl e, h)
     | (Inr buf, h) \<Rightarrow> (Inr buf, h\<lparr>memory := memcpy buf s (len + 1) (memory h)\<rparr>))))"

definition MemoryContextStrndup :: "address \<Rightarrow> address \<Rightarrow> nat \<Rightarrow> Process \<Rightarrow> (mem_error + address) \<times> Process" where
  "MemoryContextStrndup ctx s len h = (if s = 0 then (Inr 0, h)
     else case MemoryContextAlloc ctx (w64 (len + 1)) h of
       (Inl e, h) \<Rightarrow> (Inl e, h)
     | (Inr buf, h) \<Rightarrow> (Inr buf, h\<lparr>memory := write_byte (buf + len) 0 (memcpy buf s len (memory h))\<rparr>))"

section \<open>What the callers get\<close>

text \<open>The context at \<open>ctx\<close> is in order and has the chunks \<open>out\<close> out.\<close>

definition serves :: "address \<Rightarrow> (address \<times> nat) list \<Rightarrow> Process \<Rightarrow> bool" where
  "serves ctx out h \<longleftrightarrow> (\<exists>c. contexts h ctx = Some c \<and> allocset_inv ctx c out (memory h))"

lemma allocset_inv_reset_flag [simp]: "allocset_inv self (c\<lparr>is_reset := b\<rparr>) out m = allocset_inv self c out m"
  by (simp add: allocset_inv_def limits_ok_def)

lemma alloc_extended:
  assumes h: "serves ctx out h" and n: "n < 2 ^ 62" and run: "MemoryContextAllocExtended ctx n flags h = (Inr p, h')"
  shows "serves ctx ((p, n) # out) h'" "\<forall>(q, k) \<in> set out. bytes_at (memory h') q k = bytes_at (memory h) q k"
    "flags AND kMCXT_ALLOC_ZERO \<noteq> 0 \<Longrightarrow> bytes_at (memory h') p n = replicate n 0"
proof -
  obtain c where c: "contexts h ctx = Some c" "allocset_inv ctx c out (memory h)" using h by (auto simp: serves_def)
  obtain c1 m1 where alloc: "AllocSetAlloc ctx n c (memory h) = (Inr p, c1, m1)"
    and h': "h' = put_context ctx (c1\<lparr>is_reset := False\<rparr>) (if flags AND kMCXT_ALLOC_ZERO \<noteq> 0 \<and> p \<noteq> 0 \<and> 0 < n then memset p 0 n m1 else m1) h"
    using run c(1) by (auto simp: MemoryContextAllocExtended_def split: if_splits prod.splits sum.splits)
  note new = aset.alloc_new [OF c(2) n alloc]
  have fill: "allocset_inv ctx c1 ((p, n) # out) (write_bytes p (replicate n 0) m1)"
    "bytes_at (write_bytes p (replicate n 0) m1) p n = replicate n 0"
    "\<forall>(q, k) \<in> set out. bytes_at (write_bytes p (replicate n 0) m1) q k = bytes_at (memory h) q k"
    using aset.filled [OF c(2), of "replicate n 0" 0 p c1 m1] n alloc by simp_all
  show "serves ctx ((p, n) # out) h'" "\<forall>(q, k) \<in> set out. bytes_at (memory h') q k = bytes_at (memory h) q k"
    using new fill by (auto simp: h' serves_def put_context_def memset_bytes)
  show "bytes_at (memory h') p n = replicate n 0" if "flags AND kMCXT_ALLOC_ZERO \<noteq> 0"
    using that new fill by (auto simp: h' put_context_def memset_bytes bytes_at_def)
qed

lemma alloc_extended_refused:
  assumes h: "serves ctx out h" and n: "n < 2 ^ 62" and run: "MemoryContextAllocExtended ctx n flags h = (Inl e, h')"
  shows "e = BadAlloc \<and> serves ctx out h'"
proof -
  obtain c where c: "contexts h ctx = Some c" "allocset_inv ctx c out (memory h)" using h by (auto simp: serves_def)
  show ?thesis
  proof (cases "flags AND kMCXT_ALLOC_HUGE = 0 \<and> kMaxAllocSize < n")
    case False
    obtain r c1 m1 where r: "AllocSetAlloc ctx n c (memory h) = (r, c1, m1)" by (metis prod.exhaust)
    have "MemoryContextAllocExtended ctx n flags h = (case AllocSetAlloc ctx n c (memory h) of
          (Inl e, c, m) \<Rightarrow> (Inl e, put_context ctx c m h)
        | (Inr p, c, m) \<Rightarrow> (Inr p, put_context ctx (c\<lparr>is_reset := False\<rparr>)
            (if flags AND kMCXT_ALLOC_ZERO \<noteq> 0 \<and> p \<noteq> 0 \<and> 0 < n then memset p 0 n m else m) h))"
      unfolding MemoryContextAllocExtended_def c(1) if_not_P [OF False] by simp
    then have "AllocSetAlloc ctx n c (memory h) = (Inl e, c1, m1)" "h' = put_context ctx c1 m1 h"
      using run r by (cases r; simp)+
    then show ?thesis using aset.alloc_refused [OF c(2) n] by (auto simp: serves_def put_context_def)
  next
    case True
    then show ?thesis using run h unfolding MemoryContextAllocExtended_def if_P [OF True] by simp
  qed
qed

lemma strlen_bytes: "strlen m s = Some n \<Longrightarrow> byte_at m (s + n) = 0 \<and> (\<forall>i < n. byte_at m (s + i) \<noteq> 0)"
proof (induction n arbitrary: s)
  case 0
  then show ?case by (subst (asm) strlen.simps) (auto split: if_splits Option.bind_splits)
next
  case (Suc n)
  then have "byte_at m s \<noteq> 0" "strlen m (s + 1) = Some n"
    by (subst (asm) (2) strlen.simps, auto split: if_splits Option.bind_splits)+
  with Suc.IH [of "s + 1"] show ?case by (auto simp: less_Suc_eq_0_disj)
qed

lemma memcpy_bytes: "memcpy d s n m = write_bytes d (bytes_at m s n) m"
proof -
  have "(\<lambda>x. if d \<le> x \<and> x < d + n then byte_at m (s + (x - d)) else byte_at m x) =
      (\<lambda>x. if d \<le> x \<and> x < d + n then bytes_at m s n ! (x - d) else byte_at m x)"
    by (rule ext) (auto simp: bytes_at_def)
  moreover have "length (bytes_at m s n) = n" by (simp add: bytes_at_def)
  ultimately show ?thesis by (simp add: memcpy_def write_bytes_def)
qed

text \<open>A copy of a string that lies in a chunk of the client.\<close>

lemma strdup_copies:
  assumes h: "serves ctx out h" and src: "strlen (memory h) s = Some n" "(q, k) \<in> set out" "q \<le> s" "s + n < q + k" "s \<noteq> 0"
    and n: "n + 1 < 2 ^ 62" and run: "MemoryContextStrdup ctx s h = Some (Inr p, h')"
  shows "serves ctx ((p, n + 1) # out) h'" "bytes_at (memory h') p (n + 1) = bytes_at (memory h) s (n + 1)"
    "\<forall>(q, k) \<in> set out. bytes_at (memory h') q k = bytes_at (memory h) q k"
proof -
  obtain h1 where alloc: "MemoryContextAllocExtended ctx (n + 1) 0 h = (Inr p, h1)"
    and h': "h' = h1\<lparr>memory := memcpy p s (n + 1) (memory h1)\<rparr>"
    using run src(1,5) by (auto simp: MemoryContextStrdup_def MemoryContextAlloc_def split: prod.splits sum.splits)
  note one = alloc_extended [OF h n alloc]
  obtain c where c: "contexts h1 ctx = Some c" "allocset_inv ctx c ((p, n + 1) # out) (memory h1)" using one(1) by (auto simp: serves_def)
  have kept: "bytes_at (memory h1) q k = bytes_at (memory h) q k" using one(2) src(2) by blast
  have same: "bytes_at (memory h1) s (n + 1) = bytes_at (memory h) s (n + 1)"
  proof (rule bytes_at_cong)
    fix i assume "i < n + 1"
    then have "s - q + i < k" "q + (s - q + i) = s + i" using src(3,4) by auto
    moreover have "bytes_at (memory h1) q k ! (s - q + i) = bytes_at (memory h) q k ! (s - q + i)" using kept by simp
    ultimately show "byte_at (memory h1) (s + i) = byte_at (memory h) (s + i)" by (simp add: bytes_at_def)
  qed
  have len: "length (bytes_at (memory h1) s (n + 1)) = n + 1" by (simp add: bytes_at_def)
  have "allocset_inv ctx c ((p, n + 1) # out) (write_bytes p (bytes_at (memory h1) s (n + 1)) (memory h1))"
    using aset.own_writes [OF c(2), of p "n + 1"] len by simp
  then show "serves ctx ((p, n + 1) # out) h'" using c(1) by (auto simp: h' serves_def memcpy_bytes)
  show "bytes_at (memory h') p (n + 1) = bytes_at (memory h) s (n + 1)"
    using bytes_written [of p "bytes_at (memory h1) s (n + 1)" "memory h1"] len same by (simp add: h' memcpy_bytes)
  have "bytes_at (memory h') r j = bytes_at (memory h) r j" if r: "(r, j) \<in> set out" for r j
  proof -
    have "\<not> overlap (p, n + 1) (r, j)" using aset.apart_chunks [OF c(2)] r by (auto simp del: overlap.simps)
    then have "bytes_at (memory h') r j = bytes_at (memory h1) r j"
      using len by (simp add: h' memcpy_bytes bytes_elsewhere)
    then show ?thesis using one(2) r by auto
  qed
  then show "\<forall>(q, k) \<in> set out. bytes_at (memory h') q k = bytes_at (memory h) q k" by blast
qed

end
