(* ===== verification/Arena.thy ===== *)
theory Arena
  imports Context_Api
begin

text \<open>
  The arena of a MemTable (\<open>storage/arena.h\<close>, \<open>storage/arena.cpp\<close>): objects cut from blocks that come from \<open>jmalloc\<close>.

  \<^item> The chain of blocks is a list, its head first; \<open>current_\<close> is the address of the data of a block.
  \<^item> \<open>ctx\<close> is the context \<open>jmalloc\<close> and \<open>jmfree\<close> use. The small nodes of the chain come from \<open>new\<close>, which is taken to succeed.
  \<^item> The mutex makes every method one step.
\<close>

section \<open>Code\<close>

record ArenaBlock =
  ab_data :: address
  ab_cap :: nat
  ab_used :: nat

record Arena =
  ar_blocks :: "ArenaBlock list"
  ar_current :: "address option"
  bytes_used :: nat
  block_count :: nat

definition kBlockSize :: nat where "kBlockSize = 64 * 1024"
definition kLargeAllocThreshold :: nat where "kLargeAllocThreshold = kBlockSize div 4"

definition arena_new :: Arena where
  "arena_new = \<lparr>ar_blocks = [], ar_current = None, bytes_used = 0, block_count = 0\<rparr>"

definition bytes_allocated :: "Arena \<Rightarrow> nat" where
  "bytes_allocated A = w64 (block_count A * kBlockSize)"

definition alloc_block :: "address \<Rightarrow> nat \<Rightarrow> Process \<Rightarrow> (mem_error + ArenaBlock) \<times> Process" where
  "alloc_block ctx cap h = (let cap = round8 cap in case MemoryContextAlloc ctx cap h of
     (Inl e, h) \<Rightarrow> (Inl e, h)
   | (Inr buf, h) \<Rightarrow> if buf = 0 then (Inl BadAlloc, h) else (Inr \<lparr>ab_data = buf, ab_cap = cap, ab_used = 0\<rparr>, h))"

definition alloc_in_block :: "nat \<Rightarrow> nat \<Rightarrow> ArenaBlock \<Rightarrow> (address \<times> ArenaBlock) option" where
  "alloc_in_block bytes align b = (let start = w64 (ab_data b + ab_used b); aligned = align_up start align; pad = sub64 aligned start in
     if ab_cap b < w64 (ab_used b + pad + bytes) then None
     else Some (aligned, b\<lparr>ab_used := w64 (ab_used b + pad + bytes)\<rparr>))"

definition put_block :: "ArenaBlock \<Rightarrow> ArenaBlock list \<Rightarrow> ArenaBlock list" where
  "put_block b = map (\<lambda>b'. if ab_data b' = ab_data b then b else b')"

text \<open>Placing an object in a block of the arena.\<close>

definition place :: "nat \<Rightarrow> nat \<Rightarrow> ArenaBlock \<Rightarrow> Arena \<Rightarrow> (address \<times> Arena) option" where
  "place bytes align b A = map_option (\<lambda>(p, b'). (p, A\<lparr>ar_blocks := put_block b' (ar_blocks A), bytes_used := w64 (bytes_used A + bytes)\<rparr>))
     (alloc_in_block bytes align b)"

definition current_block :: "Arena \<Rightarrow> ArenaBlock option" where
  "current_block A = find (\<lambda>b. Some (ab_data b) = ar_current A) (ar_blocks A)"

fun first_fit :: "nat \<Rightarrow> nat \<Rightarrow> Arena \<Rightarrow> ArenaBlock list \<Rightarrow> (address \<times> Arena) option" where
  "first_fit bytes align A [] = None"
| "first_fit bytes align A (b # bs) = (if Some (ab_data b) = ar_current A then None
     else case (if w64 (bytes + align) \<le> ab_cap b - ab_used b then place bytes align b A else None) of
       Some r \<Rightarrow> Some r
     | None \<Rightarrow> first_fit bytes align A bs)"

definition arena_large :: "address \<Rightarrow> nat \<Rightarrow> nat \<Rightarrow> Arena \<Rightarrow> Process \<Rightarrow> (mem_error + address) \<times> Arena \<times> Process" where
  "arena_large ctx bytes align A h = (case alloc_block ctx (w64 (bytes + align)) h of
     (Inl e, h) \<Rightarrow> (Inl e, A, h)
   | (Inr b, h) \<Rightarrow> (let r = alloc_in_block bytes align b in
       (Inr (case r of None \<Rightarrow> 0 | Some (p, _) \<Rightarrow> p),
        A\<lparr>ar_blocks := (case r of None \<Rightarrow> b | Some (_, b') \<Rightarrow> b') # ar_blocks A, bytes_used := w64 (bytes_used A + bytes),
          block_count := block_count A + 1\<rparr>, h)))"

definition arena_new_block :: "address \<Rightarrow> nat \<Rightarrow> nat \<Rightarrow> Arena \<Rightarrow> Process \<Rightarrow> (mem_error + address) \<times> Arena \<times> Process" where
  "arena_new_block ctx bytes align A h = (case alloc_block ctx kBlockSize h of
     (Inl e, h) \<Rightarrow> (Inl e, A, h)
   | (Inr b, h) \<Rightarrow> (let r = alloc_in_block bytes align b in
       (Inr (case r of None \<Rightarrow> 0 | Some (p, _) \<Rightarrow> p),
        A\<lparr>ar_blocks := (case r of None \<Rightarrow> b | Some (_, b') \<Rightarrow> b') # ar_blocks A, ar_current := Some (ab_data b),
          bytes_used := w64 (bytes_used A + bytes), block_count := block_count A + 1\<rparr>, h)))"

definition allocate_aligned :: "address \<Rightarrow> nat \<Rightarrow> nat \<Rightarrow> Arena \<Rightarrow> Process \<Rightarrow> (mem_error + address) \<times> Arena \<times> Process" where
  "allocate_aligned ctx bytes align A h = (if bytes = 0 then (Inr 0, A, h)
     else if kLargeAllocThreshold < bytes then arena_large ctx bytes align A h
     else case Option.bind (current_block A) (\<lambda>b. place bytes align b A) of
       Some (p, A) \<Rightarrow> (Inr p, A, h)
     | None \<Rightarrow> (case first_fit bytes align A (ar_blocks A) of
         Some (p, A) \<Rightarrow> (Inr p, A, h)
       | None \<Rightarrow> arena_new_block ctx bytes align A h))"

definition arena_allocate :: "address \<Rightarrow> nat \<Rightarrow> Arena \<Rightarrow> Process \<Rightarrow> (mem_error + address) \<times> Arena \<times> Process" where
  "arena_allocate ctx bytes = allocate_aligned ctx bytes 8"

fun free_blocks :: "ArenaBlock list \<Rightarrow> Process \<Rightarrow> (mem_error + unit) \<times> Process" where
  "free_blocks [] h = (Inr (), h)"
| "free_blocks (b # bs) h = (case if ab_data b = 0 then (Inr (), h) else MemoryContextFree (ab_data b) h of
     (Inl e, h) \<Rightarrow> (Inl e, h)
   | (Inr _, h) \<Rightarrow> free_blocks bs h)"

definition arena_reset :: "Arena \<Rightarrow> Process \<Rightarrow> (mem_error + Arena) \<times> Process" where
  "arena_reset A h = (case free_blocks (ar_blocks A) h of
     (Inl e, h) \<Rightarrow> (Inl e, h)
   | (Inr _, h) \<Rightarrow> (Inr (A\<lparr>ar_blocks := [], ar_current := None, bytes_used := 0\<rparr>), h))"

section \<open>Aligned addresses\<close>

lemma align_up_eq:
  assumes "start + 2 ^ k \<le> 2 ^ 64" "k < 64"
  shows "align_up start (2 ^ k) = (start + 2 ^ k - 1) div 2 ^ k * 2 ^ k"
proof -
  let ?x = "of_nat (start + 2 ^ k - 1) :: u64"
  have x: "(of_nat start :: u64) + of_nat (2 ^ k) - 1 = ?x"
  proof -
    have "?x = of_nat (start + 2 ^ k) - of_nat 1" by (rule of_nat_diff) (simp add: Suc_le_eq)
    then show ?thesis by simp
  qed
  have "(of_nat (2 ^ k) :: u64) - 1 = mask k" by (simp add: mask_eq_exp_minus_1)
  moreover have "?x AND NOT (mask k) = push_bit k (drop_bit k ?x)"
    by (rule bit_word_eqI) (auto simp: bit_simps)
  ultimately have "align_up start (2 ^ k) = unat (push_bit k (drop_bit k ?x))"
    unfolding align_up_def x by simp
  also have "\<dots> = w64 (unat ?x div 2 ^ k * 2 ^ k)"
    by (simp only: unsigned_push_bit_eq unat_drop_bit_eq take_bit_eq_mod w64_def push_bit_eq_mult [where 'a = nat]
        drop_bit_eq_div [where 'a = nat]) simp
  also have "unat ?x = start + 2 ^ k - 1"
    using assms by (simp add: unat_of_nat take_bit_eq_mod)
  also have "w64 ((start + 2 ^ k - 1) div 2 ^ k * 2 ^ k) = (start + 2 ^ k - 1) div 2 ^ k * 2 ^ k"
  proof (rule w64_small)
    have "(start + 2 ^ k - 1) div 2 ^ k * 2 ^ k \<le> start + 2 ^ k - 1" by (rule div_times_less_eq_dividend)
    also have "\<dots> < start + 2 ^ k" by simp
    finally show "(start + 2 ^ k - 1) div 2 ^ k * 2 ^ k < 2 ^ 64" using assms(1) by simp
  qed
  finally show ?thesis .
qed

lemma align_up_bounds:
  assumes "start + 2 ^ k \<le> 2 ^ 64" "k < 64"
  shows "start \<le> align_up start (2 ^ k)" "align_up start (2 ^ k) < start + 2 ^ k" "2 ^ k dvd align_up start (2 ^ k)"
proof -
  let ?n = "start + 2 ^ k - 1"
  have n: "?n = ?n div 2 ^ k * 2 ^ k + ?n mod 2 ^ k" "?n mod 2 ^ k < 2 ^ k" by (simp_all add: div_mult_mod_eq)
  then show "start \<le> align_up start (2 ^ k)" "align_up start (2 ^ k) < start + 2 ^ k"
    unfolding align_up_eq [OF assms] by linarith+
  show "2 ^ k dvd align_up start (2 ^ k)" unfolding align_up_eq [OF assms] by simp
qed

section \<open>Objects\<close>

text \<open>What an arena promises about the objects it has handed out (address and length): each lies in the used part of a block,
  no two overlap, and every block is a chunk of its own.\<close>

definition arena_ok :: "address \<Rightarrow> (address \<times> nat) list \<Rightarrow> Arena \<Rightarrow> Process \<Rightarrow> bool" where
  "arena_ok ctx objs A h \<longleftrightarrow> (\<exists>out. serves ctx out h \<and> (\<forall>b \<in> set (ar_blocks A). (ab_data b, ab_cap b) \<in> set out \<and> ab_used b \<le> ab_cap b \<and> 0 < ab_cap b)) \<and>
     distinct (map ab_data (ar_blocks A)) \<and> apart objs \<and>
     (\<forall>(p, n) \<in> set objs. \<exists>b \<in> set (ar_blocks A). ab_data b \<le> p \<and> p + n \<le> ab_data b + ab_used b)"

lemma block_bounds:
  assumes "serves ctx out h" "(p, n) \<in> set out"
  shows "p + n < 2 ^ 64" "16 \<le> p"
proof -
  obtain c where inv: "allocset_inv ctx c out (memory h)" using assms(1) by (auto simp: serves_def)
  obtain b :: BlockStorage where "(bs_data b, bs_cap b) \<in> set (buffers (memory h))" "bs_data b + 16 \<le> p" "p + n \<le> bs_data b + bs_cap b"
    using chunk_in_block [OF inv assms(2)] by auto
  moreover have "buffers_ok (memory h)" using inv by (auto simp: allocset_inv_def core_def)
  ultimately show "p + n < 2 ^ 64" "16 \<le> p" by (auto simp: buffers_ok_def)
qed

lemma sub64_eq: "b \<le> a \<Longrightarrow> a < 2 ^ 64 \<Longrightarrow> sub64 a b = a - b"
proof -
  assume le: "b \<le> a" "a < 2 ^ 64"
  then have "a + (2 ^ 64 - w64 b) = (a - b) + 2 ^ 64" by simp
  then have "sub64 a b = ((a - b) + 2 ^ 64) mod 2 ^ 64" by (simp only: sub64_def w64_def)
  also have "\<dots> = (a - b) mod 2 ^ 64" by (rule mod_add_self2)
  also have "\<dots> = a - b" using le by (intro mod_less) simp
  finally show ?thesis .
qed

text \<open>One object in a block.\<close>

lemma alloc_in_block_ok:
  assumes run: "alloc_in_block n (2 ^ k) b = Some (p, b')" and b: "ab_data b + ab_cap b < 2 ^ 63" "ab_used b \<le> ab_cap b"
    and n: "n < 2 ^ 62" "k \<le> 32"
  shows "ab_data b' = ab_data b" "ab_cap b' = ab_cap b" "ab_data b + ab_used b \<le> p" "p + n = ab_data b + ab_used b'"
    "ab_used b \<le> ab_used b'" "ab_used b' \<le> ab_cap b" "2 ^ k dvd p"
proof -
  let ?start = "ab_data b + ab_used b"
  have k: "2 ^ k \<le> (2 ^ 32 :: nat)" using n(2) by (intro power_increasing) simp_all
  then have fits: "?start + 2 ^ k \<le> 2 ^ 64" "k < 64" "?start < 2 ^ 64" using b n(2) by auto
  note up = align_up_bounds [OF fits(1,2)]
  define pad where "pad = align_up ?start (2 ^ k) - ?start"
  have "align_up ?start (2 ^ k) < 2 ^ 64" using up(2) fits(1) by linarith
  then have pad: "sub64 (align_up ?start (2 ^ k)) ?start = pad" "pad < 2 ^ 33" "align_up ?start (2 ^ k) = ?start + pad"
    using up k sub64_eq by (auto simp: pad_def)
  have sum: "w64 (ab_used b + pad + n) = ab_used b + pad + n" using b n(1) pad(2) by simp
  have "p = ?start + pad" "b' = b\<lparr>ab_used := ab_used b + pad + n\<rparr>" "ab_used b + pad + n \<le> ab_cap b"
    using run fits(3) pad sum by (auto simp: alloc_in_block_def Let_def split: if_splits)
  then show "ab_data b' = ab_data b" "ab_cap b' = ab_cap b" "?start \<le> p" "p + n = ab_data b + ab_used b'"
    "ab_used b \<le> ab_used b'" "ab_used b' \<le> ab_cap b" "2 ^ k dvd p"
    using up(3) pad(3) by simp_all
qed

text \<open>Addresses of programs lie below \<open>2 ^ 63\<close>.\<close>

definition low :: "Arena \<Rightarrow> bool" where
  "low A \<longleftrightarrow> (\<forall>b \<in> set (ar_blocks A). ab_data b + ab_cap b < 2 ^ 63)"

definition with_blocks :: "Arena \<Rightarrow> ArenaBlock list \<Rightarrow> Arena" where
  "with_blocks A bl = A\<lparr>ar_blocks := bl\<rparr>"

lemma arena_ok_blocks: "ar_blocks A' = ar_blocks A \<Longrightarrow> arena_ok ctx objs A' h = arena_ok ctx objs A h"
  by (simp add: arena_ok_def)

lemma arena_place:
  assumes ok: "arena_ok ctx objs A h" and b: "b \<in> set (ar_blocks A)" "ab_data b + ab_cap b < 2 ^ 63"
    and run: "alloc_in_block n (2 ^ k) b = Some (p, b')" and n: "n < 2 ^ 62" "k \<le> 32"
  shows "arena_ok ctx ((p, n) # objs) (with_blocks A (put_block b' (ar_blocks A))) h" "2 ^ k dvd p"
proof -
  obtain out where out: "serves ctx out h"
    "\<forall>b \<in> set (ar_blocks A). (ab_data b, ab_cap b) \<in> set out \<and> ab_used b \<le> ab_cap b \<and> 0 < ab_cap b"
    and dist: "distinct (map ab_data (ar_blocks A))" and objs: "apart objs"
    "\<forall>(p, n) \<in> set objs. \<exists>b \<in> set (ar_blocks A). ab_data b \<le> p \<and> p + n \<le> ab_data b + ab_used b"
    using ok by (auto simp: arena_ok_def)
  have used: "ab_used b \<le> ab_cap b" using out(2) b(1) by blast
  note placed = alloc_in_block_ok [OF run b(2) used n]
  show "2 ^ k dvd p" by (rule placed(7))
  have same: "x = b" if "x \<in> set (ar_blocks A)" "ab_data x = ab_data b" for x
    using dist b(1) that by (auto simp: distinct_map dest: inj_onD)
  define bl where "bl = put_block b' (ar_blocks A)"
  have bl: "y \<in> set bl \<longleftrightarrow> y = b' \<or> (y \<in> set (ar_blocks A) \<and> y \<noteq> b)" for y
    using same b(1) placed(1) by (auto simp: bl_def put_block_def)
  have datas: "map ab_data bl = map ab_data (ar_blocks A)" using placed(1) by (simp add: bl_def put_block_def)
  have "\<not> overlap (p, n) (q, j)" if q: "(q, j) \<in> set objs" for q j
  proof -
    obtain x where x: "x \<in> set (ar_blocks A)" "ab_data x \<le> q" "q + j \<le> ab_data x + ab_used x" using objs(2) q by blast
    show ?thesis
    proof (cases "x = b")
      case True
      with x placed(3) show ?thesis by auto
    next
      case False
      then have "ab_data x \<noteq> ab_data b" using same x(1) by blast
      moreover obtain c where "allocset_inv ctx c out (memory h)" using out(1) by (auto simp: serves_def)
      then have "apart out" by (rule aset.apart_chunks)
      ultimately have "\<not> overlap (ab_data x, ab_cap x) (ab_data b, ab_cap b)"
        using out(2) x(1) b(1) by (intro apartD [of out]) auto
      moreover have "ab_used x \<le> ab_cap x" using out(2) x(1) by blast
      ultimately show ?thesis using x placed(3,4,6) by auto
    qed
  qed
  moreover have "\<exists>y \<in> set bl. ab_data y \<le> q \<and> q + j \<le> ab_data y + ab_used y" if q: "(q, j) \<in> set ((p, n) # objs)" for q j
  proof (cases "(q, j) = (p, n)")
    case True
    then show ?thesis using placed(1,3,4) bl by (intro bexI [of _ b']) auto
  next
    case False
    then obtain x where x: "x \<in> set (ar_blocks A)" "ab_data x \<le> q" "q + j \<le> ab_data x + ab_used x" using objs(2) q by auto
    then show ?thesis using placed(1,5) bl by (cases "x = b") (force intro: bexI [of _ b'] bexI [of _ x])+
  qed
  moreover have "\<forall>y \<in> set bl. (ab_data y, ab_cap y) \<in> set out \<and> ab_used y \<le> ab_cap y \<and> 0 < ab_cap y"
    using bl out(2) b(1) placed(1,2,6) by auto
  ultimately show "arena_ok ctx ((p, n) # objs) (with_blocks A (put_block b' (ar_blocks A))) h"
    using out(1) dist datas objs(1) by (auto simp: arena_ok_def with_blocks_def bl_def [symmetric])
qed

text \<open>One more block.\<close>

lemma round8_pos: "0 < n \<Longrightarrow> n + 7 < 2 ^ 64 \<Longrightarrow> 0 < round8 n"
  using round8_bounds(1) [of n] by simp

lemma arena_block:
  assumes ok: "arena_ok ctx objs A h" and run: "alloc_block ctx cap h = (Inr b, h')" and cap: "0 < cap" "cap < 2 ^ 61"
  shows "arena_ok ctx objs (with_blocks A (b # ar_blocks A)) h'" "ab_used b = 0" "ab_cap b = round8 cap"
    "ab_data b \<notin> ab_data ` set (ar_blocks A)"
proof -
  obtain out where out: "serves ctx out h"
    "\<forall>b \<in> set (ar_blocks A). (ab_data b, ab_cap b) \<in> set out \<and> ab_used b \<le> ab_cap b \<and> 0 < ab_cap b"
    and dist: "distinct (map ab_data (ar_blocks A))" and objs: "apart objs"
    "\<forall>(p, n) \<in> set objs. \<exists>b \<in> set (ar_blocks A). ab_data b \<le> p \<and> p + n \<le> ab_data b + ab_used b"
    using ok by (auto simp: arena_ok_def)
  have alloc: "MemoryContextAllocExtended ctx (round8 cap) 0 h = (Inr (ab_data b), h')"
    and b: "ab_used b = 0" "ab_cap b = round8 cap"
    using run by (auto simp: alloc_block_def MemoryContextAlloc_def Let_def split: prod.splits sum.splits if_splits)
  show "ab_used b = 0" "ab_cap b = round8 cap" by (rule b)+
  have size: "round8 cap < 2 ^ 62" using round8_bounds(2) [of cap] cap by simp
  have new: "serves ctx ((ab_data b, round8 cap) # out) h'" by (rule alloc_extended(1) [OF out(1) size alloc])
  have pos: "0 < round8 cap" using cap by (intro round8_pos) simp_all
  obtain c where "allocset_inv ctx c ((ab_data b, round8 cap) # out) (memory h')" using new by (auto simp: serves_def)
  then have "apart ((ab_data b, round8 cap) # out)" by (rule aset.apart_chunks)
  then have "ab_data x \<noteq> ab_data b" if "x \<in> set (ar_blocks A)" for x using out(2) that pos by fastforce
  then show fresh: "ab_data b \<notin> ab_data ` set (ar_blocks A)" by force
  have "\<forall>y \<in> set (b # ar_blocks A). (ab_data y, ab_cap y) \<in> set ((ab_data b, round8 cap) # out) \<and> ab_used y \<le> ab_cap y \<and> 0 < ab_cap y"
    using out(2) b pos by auto
  with new fresh dist objs show "arena_ok ctx objs (with_blocks A (b # ar_blocks A)) h'"
    unfolding arena_ok_def with_blocks_def by auto
qed

lemma fits_new_block:
  assumes "ab_used b = 0" "n + 2 ^ k \<le> ab_cap b" "ab_data b + ab_cap b < 2 ^ 63" "k \<le> 32"
  shows "\<exists>p b'. alloc_in_block n (2 ^ k) b = Some (p, b')"
proof -
  have k: "2 ^ k \<le> (2 ^ 32 :: nat)" using assms(4) by (intro power_increasing) simp_all
  then have up: "ab_data b + 2 ^ k \<le> 2 ^ 64" "k < 64" "ab_data b < 2 ^ 64" using assms(3,4) by auto
  note up' = align_up_bounds [OF up(1,2)]
  have "sub64 (align_up (ab_data b) (2 ^ k)) (ab_data b) = align_up (ab_data b) (2 ^ k) - ab_data b"
    using up' up(1) by (intro sub64_eq) linarith+
  moreover have le: "align_up (ab_data b) (2 ^ k) - ab_data b + n \<le> ab_cap b" using up'(1,2) assms(2) by simp
  then have "w64 (align_up (ab_data b) (2 ^ k) - ab_data b + n) \<le> ab_cap b" using assms(3) by (subst w64_small) auto
  ultimately show ?thesis using assms(1) up(3) by (simp add: alloc_in_block_def Let_def)
qed

lemma put_block_head: "ab_data b' = ab_data b \<Longrightarrow> ab_data b \<notin> ab_data ` set bl \<Longrightarrow> put_block b' (b # bl) = b' # bl"
proof -
  assume "ab_data b' = ab_data b" "ab_data b \<notin> ab_data ` set bl"
  moreover from this have "map (\<lambda>x. if ab_data x = ab_data b' then b' else x) bl = bl" by (intro map_idI) (simp, metis image_eqI)
  ultimately show ?thesis by (simp add: put_block_def)
qed

text \<open>An object at the start of a block that was just added.\<close>

lemma arena_fresh_block:
  assumes ok: "arena_ok ctx objs A h" and run: "alloc_block ctx cap h = (Inr b, h')" and cap: "n + 2 ^ k \<le> cap" "0 < n" "cap < 2 ^ 61" "k \<le> 32"
    and low: "ab_data b + ab_cap b < 2 ^ 63"
  shows "\<exists>p b'. alloc_in_block n (2 ^ k) b = Some (p, b') \<and> arena_ok ctx ((p, n) # objs) (with_blocks A (b' # ar_blocks A)) h' \<and>
    2 ^ k dvd p \<and> p \<noteq> 0"
proof -
  have "0 < cap" using cap(1,2) by simp
  note block = arena_block [OF ok run this cap(3)]
  have "cap \<le> round8 cap" using round8_bounds(1) [of cap] cap(3) by simp
  then obtain p b' where placed: "alloc_in_block n (2 ^ k) b = Some (p, b')"
    using fits_new_block [of b n k] block(2,3) cap(1,4) low by auto
  have n: "n < 2 ^ 62" using cap(1,3) by simp
  note ok' = arena_place [OF block(1) _ low placed n cap(4)]
  have used: "ab_used b \<le> ab_cap b" using block(2) by simp
  note pos = alloc_in_block_ok [OF placed low used n cap(4)]
  have "put_block b' (b # ar_blocks A) = b' # ar_blocks A" using pos(1) block(4) by (intro put_block_head)
  then have "arena_ok ctx ((p, n) # objs) (with_blocks A (b' # ar_blocks A)) h'" "2 ^ k dvd p"
    using ok' by (simp_all add: with_blocks_def)
  moreover have "ab_data b \<noteq> 0"
    using run by (auto simp: alloc_block_def Let_def split: prod.splits sum.splits if_splits)
  then have "p \<noteq> 0" using pos(3) by simp
  ultimately show ?thesis using placed by blast
qed

lemma place_ok:
  assumes ok: "arena_ok ctx objs A h" and run: "place n (2 ^ k) b A = Some (p, A')" and b: "b \<in> set (ar_blocks A)" and low: "low A"
    and n: "0 < n" "n < 2 ^ 62" "k \<le> 32"
  shows "arena_ok ctx ((p, n) # objs) A' h \<and> 2 ^ k dvd p \<and> p \<noteq> 0"
proof -
  have lowb: "ab_data b + ab_cap b < 2 ^ 63" using low b by (simp add: low_def)
  obtain b' where placed: "alloc_in_block n (2 ^ k) b = Some (p, b')" and A': "ar_blocks A' = put_block b' (ar_blocks A)"
    using run by (auto simp: place_def)
  note arena_place [OF ok b lowb placed n(2,3)]
  moreover have "arena_ok ctx ((p, n) # objs) A' h = arena_ok ctx ((p, n) # objs) (with_blocks A (put_block b' (ar_blocks A))) h"
    using A' by (intro arena_ok_blocks) (simp add: with_blocks_def)
  moreover have "p \<noteq> 0"
  proof -
    obtain out where "serves ctx out h" "(ab_data b, ab_cap b) \<in> set out" "ab_used b \<le> ab_cap b" using ok b by (auto simp: arena_ok_def)
    then have "16 \<le> ab_data b" "ab_used b \<le> ab_cap b" using block_bounds(2) by blast+
    with alloc_in_block_ok(3) [OF placed lowb _ n(2,3)] show ?thesis by simp
  qed
  ultimately show ?thesis by simp
qed

lemma first_fit_block: "first_fit n al A bs = Some r \<Longrightarrow> \<exists>b \<in> set bs. place n al b A = Some r"
  by (induction bs) (auto split: if_splits option.splits)

theorem allocate_aligned_ok:
  assumes ok: "arena_ok ctx objs A h" and run: "allocate_aligned ctx n (2 ^ k) A h = (Inr p, A', h')"
    and n: "0 < n" "n < 2 ^ 60" "k \<le> 12" and low: "low A" "low A'"
  shows "arena_ok ctx ((p, n) # objs) A' h' \<and> 2 ^ k dvd p \<and> p \<noteq> 0"
proof -
  have k: "2 ^ k \<le> (2 ^ 12 :: nat)" "k \<le> 32" using n(3) power_increasing [of k 12 "2 :: nat"] by simp_all
  have sum: "w64 (n + 2 ^ k) = n + 2 ^ k" using n(2) k(1) by simp
  have n': "n < 2 ^ 62" using n(2) by simp
  have new_block: ?thesis if block: "alloc_block ctx cap h = (Inr b, h')" and cap: "n + 2 ^ k \<le> cap" "cap < 2 ^ 61"
    and A': "ar_blocks A' = (case alloc_in_block n (2 ^ k) b of None \<Rightarrow> b | Some (_, b') \<Rightarrow> b') # ar_blocks A"
    and p: "p = (case alloc_in_block n (2 ^ k) b of None \<Rightarrow> 0 | Some (p, _) \<Rightarrow> p)" for cap b
  proof -
    have "ab_data b + ab_cap b < 2 ^ 63"
    proof (cases "alloc_in_block n (2 ^ k) b")
      case (Some r)
      then have "ab_data (snd r) = ab_data b \<and> ab_cap (snd r) = ab_cap b" by (auto simp: alloc_in_block_def Let_def split: if_splits)
      with Some A' low(2) show ?thesis by (auto simp: low_def split: prod.splits)
    qed (use A' low(2) in \<open>simp add: low_def\<close>)
    from arena_fresh_block [OF ok block cap(1) n(1) cap(2) k(2) this]
    obtain b' where "alloc_in_block n (2 ^ k) b = Some (p, b')" "arena_ok ctx ((p, n) # objs) (with_blocks A (b' # ar_blocks A)) h'"
      "2 ^ k dvd p" "p \<noteq> 0" using p by auto
    then show ?thesis using A' arena_ok_blocks [of A' "with_blocks A (b' # ar_blocks A)"] by (simp add: with_blocks_def)
  qed
  have placed: ?thesis if "place n (2 ^ k) b A = Some (p, A')" "b \<in> set (ar_blocks A)" "h' = h" for b
    using place_ok [OF ok that(1,2) low(1) n(1) n' k(2)] that(3) by simp
  show ?thesis
  proof (cases "kLargeAllocThreshold < n")
    case True
    then obtain b where "alloc_block ctx (n + 2 ^ k) h = (Inr b, h')"
      "ar_blocks A' = (case alloc_in_block n (2 ^ k) b of None \<Rightarrow> b | Some (_, b') \<Rightarrow> b') # ar_blocks A"
      "p = (case alloc_in_block n (2 ^ k) b of None \<Rightarrow> 0 | Some (p, _) \<Rightarrow> p)"
      using run n(1) sum by (auto simp: allocate_aligned_def arena_large_def Let_def split: prod.splits sum.splits)
    then show ?thesis using n(2) k(1) by (intro new_block) auto
  next
    case False
    then have small: "n \<le> 16384" by (simp add: kLargeAllocThreshold_def kBlockSize_def)
    consider (current) b where "current_block A = Some b" "place n (2 ^ k) b A = Some (p, A')" "h' = h"
      | (fit) "first_fit n (2 ^ k) A (ar_blocks A) = Some (p, A')" "h' = h"
      | (fresh) "arena_new_block ctx n (2 ^ k) A h = (Inr p, A', h')"
      using run n(1) False by (auto simp: allocate_aligned_def split: option.splits Option.bind_splits)
    then show ?thesis
    proof cases
      case current
      then have "b \<in> set (ar_blocks A)" by (auto simp: current_block_def find_Some_iff)
      with current placed show ?thesis by blast
    next
      case fit
      then obtain b where "b \<in> set (ar_blocks A)" "place n (2 ^ k) b A = Some (p, A')" using first_fit_block by blast
      with fit(2) placed show ?thesis by blast
    next
      case fresh
      then obtain b where "alloc_block ctx kBlockSize h = (Inr b, h')"
        "ar_blocks A' = (case alloc_in_block n (2 ^ k) b of None \<Rightarrow> b | Some (_, b') \<Rightarrow> b') # ar_blocks A"
        "p = (case alloc_in_block n (2 ^ k) b of None \<Rightarrow> 0 | Some (p, _) \<Rightarrow> p)"
        by (auto simp: arena_new_block_def Let_def split: prod.splits sum.splits)
      then show ?thesis using small k(1) by (intro new_block) (auto simp: kBlockSize_def)
    qed
  qed
qed

lemma alloc_block_refused:
  assumes h: "serves ctx out h" and cap: "cap < 2 ^ 61" and run: "alloc_block ctx cap h = (Inl e, h')"
  shows "e = BadAlloc \<and> (\<exists>out'. serves ctx out' h' \<and> set out \<subseteq> set out')"
proof -
  have size: "round8 cap < 2 ^ 62" using round8_bounds(2) [of cap] cap by simp
  obtain r h1 where r: "MemoryContextAllocExtended ctx (round8 cap) 0 h = (r, h1)" by fastforce
  show ?thesis
  proof (cases r)
    case (Inl e')
    with r run alloc_extended_refused [OF h size] show ?thesis by (auto simp: alloc_block_def MemoryContextAlloc_def Let_def)
  next
    case (Inr p)
    note new = alloc_extended(1) [OF h size r [unfolded Inr]]
    have "p \<noteq> 0" using block_bounds(2) [OF new, of p "round8 cap"] by simp
    with r Inr run show ?thesis by (simp add: alloc_block_def MemoryContextAlloc_def Let_def)
  qed
qed

lemma arena_ok_out:
  "arena_ok ctx objs A h \<longleftrightarrow> (\<exists>out. serves ctx out h \<and> (\<forall>b \<in> set (ar_blocks A). (ab_data b, ab_cap b) \<in> set out)) \<and>
     (\<forall>b \<in> set (ar_blocks A). ab_used b \<le> ab_cap b \<and> 0 < ab_cap b) \<and> distinct (map ab_data (ar_blocks A)) \<and> apart objs \<and>
     (\<forall>(p, n) \<in> set objs. \<exists>b \<in> set (ar_blocks A). ab_data b \<le> p \<and> p + n \<le> ab_data b + ab_used b)"
  unfolding arena_ok_def by blast

lemma allocate_refused:
  assumes ok: "arena_ok ctx objs A h" and run: "allocate_aligned ctx n (2 ^ k) A h = (Inl e, A', h')" and n: "n < 2 ^ 60" "k \<le> 12"
  shows "e = BadAlloc \<and> arena_ok ctx objs A' h' \<and> ar_blocks A' = ar_blocks A"
proof -
  have k: "2 ^ k \<le> (2 ^ 12 :: nat)" using n(2) power_increasing [of k 12 "2 :: nat"] by simp
  obtain out where out: "serves ctx out h" "\<forall>b \<in> set (ar_blocks A). (ab_data b, ab_cap b) \<in> set out"
    using ok by (auto simp: arena_ok_def)
  have "A' = A \<and> (alloc_block ctx (w64 (n + 2 ^ k)) h = (Inl e, h') \<or> alloc_block ctx kBlockSize h = (Inl e, h'))"
    using run by (auto simp: allocate_aligned_def arena_large_def arena_new_block_def Let_def
        split: prod.splits sum.splits if_splits option.splits)
  moreover have "w64 (n + 2 ^ k) < 2 ^ 61" "kBlockSize < 2 ^ 61" using n(1) k by (simp_all add: kBlockSize_def)
  ultimately obtain out' where "A' = A" "e = BadAlloc" "serves ctx out' h'" "set out \<subseteq> set out'"
    using alloc_block_refused [OF out(1)] by blast
  with ok out(2) show ?thesis unfolding arena_ok_out by blast
qed

section \<open>Runs\<close>

type_synonym arena_state = "Arena \<times> (address \<times> nat) list \<times> Process"

inductive arena_step :: "address \<Rightarrow> arena_state \<Rightarrow> arena_state \<Rightarrow> bool" for ctx where
  step_object: "allocate_aligned ctx n (2 ^ k) A h = (Inr p, A', h') \<Longrightarrow> 0 < n \<Longrightarrow> n < 2 ^ 60 \<Longrightarrow> k \<le> 12 \<Longrightarrow> low A' \<Longrightarrow>
    arena_step ctx (A, objs, h) (A', (p, n) # objs, h')"
| step_no_memory: "allocate_aligned ctx n (2 ^ k) A h = (Inl e, A', h') \<Longrightarrow> n < 2 ^ 60 \<Longrightarrow> k \<le> 12 \<Longrightarrow> arena_step ctx (A, objs, h) (A', objs, h')"

inductive_cases arena_stepE: "arena_step ctx (A, objs, h) (A', objs', h')"

lemma arena_run:
  "(arena_step ctx)\<^sup>*\<^sup>* (A0, objs0, h0) (A, objs, h) \<Longrightarrow> arena_ok ctx objs0 A0 h0 \<Longrightarrow> low A0 \<Longrightarrow> arena_ok ctx objs A h \<and> low A"
proof (induction "(A, objs, h)" arbitrary: A objs h rule: rtranclp_induct)
  case (step s)
  obtain A1 objs1 h1 where s: "s = (A1, objs1, h1)" by (cases s)
  have "arena_ok ctx objs1 A1 h1 \<and> low A1" using step.hyps(3) [OF s] step.prems by blast
  with step.hyps(2) [unfolded s] show ?case
    by (elim arena_stepE) (auto simp: low_def dest: allocate_aligned_ok allocate_refused)
qed simp

text \<open>C22: An arena on an allocator in order, after any run of requests (each below \<open>2 ^ 60\<close> bytes, aligned to a power of two up
  to 4096; failed ones included): the next object is aligned as asked for and not null, it overlaps none of the objects
  handed out before, and all of them lie in the used parts of blocks, which are chunks of the allocator.\<close>

theorem arena_objects:
  assumes "serves ctx out h0" "(arena_step ctx)\<^sup>*\<^sup>* (arena_new, [], h0) (A, objs, h)"
    and "allocate_aligned ctx n (2 ^ k) A h = (Inr p, A', h')" "0 < n" "n < 2 ^ 60" "k \<le> 12" "low A'"
  shows "2 ^ k dvd p \<and> p \<noteq> 0 \<and> arena_ok ctx ((p, n) # objs) A' h'"
proof -
  have "arena_ok ctx [] arena_new h0 \<and> low arena_new" using assms(1) by (auto simp: arena_ok_def arena_new_def low_def)
  with arena_run [OF assms(2)] have "arena_ok ctx objs A h" "low A" by auto
  with allocate_aligned_ok [OF _ assms(3-6) _ assms(7)] show ?thesis by blast
qed

definition sample_process :: Process where
  "sample_process = \<lparr>contexts = [4096 \<mapsto> allocset_new 8192 8388608], memory = malloc_at 65536 65536\<rparr>"

lemma sample_serves: "serves 4096 [] sample_process"
proof -
  have "buffers_ok (malloc_at 65536 65536)" by (simp add: buffers_ok_def malloc_at_def)
  then show ?thesis using allocset_new_ok [of "malloc_at 65536 65536" 4096 8192 8388608]
    by (simp add: serves_def sample_process_def sizes_ok_def)
qed

lemma align_up_8: "align_up 131088 8 = 131088" "align_up 131128 64 = 131136"
  using align_up_eq [of 131088 3] align_up_eq [of 131128 6] by simp_all

lemma second_place:
  "alloc_in_block 100 64 \<lparr>ab_data = 131088, ab_cap = 65536, ab_used = 40\<rparr> =
     Some (131136, \<lparr>ab_data = 131088, ab_cap = 65536, ab_used = 148\<rparr>)"
  by (simp add: alloc_in_block_def align_up_8 sub64_eq Let_def)

lemma first_object:
  "\<exists>A h. allocate_aligned 4096 40 8 arena_new sample_process = (Inr 131088, A, h) \<and>
     ar_blocks A = [\<lparr>ab_data = 131088, ab_cap = 65536, ab_used = 40\<rparr>] \<and> ar_current A = Some 131088"
  by (simp add: allocate_aligned_def arena_new_def current_block_def arena_new_block_def alloc_block_def kLargeAllocThreshold_def kBlockSize_def
      MemoryContextAlloc_def MemoryContextAllocExtended_def kMaxAllocSize_def sample_process_def malloc_at_def AllocSetAlloc_def
      allocset_new_def alloc_large_def create_block_at suitable_def hand_out_tagged alloc_constants alloc_in_block_def sub64_eq
      align_up_8 Let_def)

theorem arena_objects_witness:
  "\<exists>A h A' h'. (arena_step 4096)\<^sup>*\<^sup>* (arena_new, [], sample_process) (A, [(131088, 40)], h) \<and>
     allocate_aligned 4096 100 64 A h = (Inr 131136, A', h') \<and> arena_ok 4096 [(131136, 100), (131088, 40)] A' h'"
proof -
  obtain A h where first: "allocate_aligned 4096 40 8 arena_new sample_process = (Inr 131088, A, h)"
    and A: "ar_blocks A = [\<lparr>ab_data = 131088, ab_cap = 65536, ab_used = 40\<rparr>]" "ar_current A = Some 131088"
    using first_object by blast
  have run: "(arena_step 4096)\<^sup>*\<^sup>* (arena_new, [], sample_process) (A, [(131088, 40)], h)"
    using step_object [of 4096 40 3 arena_new sample_process 131088 A h "[]"] first A by (auto simp: low_def)
  obtain A' where second: "allocate_aligned 4096 100 64 A h = (Inr 131136, A', h)"
    and A': "ar_blocks A' = [\<lparr>ab_data = 131088, ab_cap = 65536, ab_used = 148\<rparr>]"
    using A by (simp add: allocate_aligned_def kLargeAllocThreshold_def kBlockSize_def current_block_def place_def put_block_def
        second_place)
  have "low A'" using A' by (simp add: low_def)
  with arena_objects [OF sample_serves run, of 100 6 131136 A' h] second
  have "arena_ok 4096 [(131136, 100), (131088, 40)] A' h" by simp
  with run second show ?thesis by blast
qed

end
