(* ===== verification/Bump.thy ===== *)
theory Bump
  imports Alloc_Set
begin

text \<open>
  The bump allocator \<open>BumpContext\<close> (\<open>common/bump.cpp\<close>): chunks are cut from the newest block and are only given back
  together.

  \<^item> The chain of blocks is a list, the current one first.
  \<^item> The doubling of the block size is a loop of its own, which may not end: \<open>None\<close>.
\<close>

section \<open>Data\<close>

record RawBlock =
  rb_self :: address
  rb_data :: address
  rb_cap :: nat
  rb_freeptr :: address
  rb_endptr :: address

record BumpContext = Counters +
  bu_blocks :: "RawBlock list"
  bu_init_block_size :: nat
  bu_max_block_size :: nat

definition BumpHeader :: "address \<Rightarrow> u64" where
  "BumpHeader self = push_bit 8 (of_nat self) OR 2"

definition BumpWriteHeader :: "address \<Rightarrow> address \<Rightarrow> Memory \<Rightarrow> Memory" where
  "BumpWriteHeader user_ptr self = write64 (user_ptr - 8) (BumpHeader self)"

definition BumpReadHeader :: "Memory \<Rightarrow> address \<Rightarrow> address \<times> u64" where
  "BumpReadHeader m user_ptr = (let packed = read64 m (user_ptr - 8) in (unat (drop_bit 8 packed), packed AND 0xFF))"

definition sizeof_RawBlock :: nat where "sizeof_RawBlock = 40"

definition BumpCreateBlock :: "nat \<Rightarrow> Memory \<Rightarrow> (mem_error + RawBlock) \<times> Memory" where
  "BumpCreateBlock cap m = (case malloc sizeof_RawBlock m of
     (None, m) \<Rightarrow> (Inl BadAlloc, m)
   | (Some s, m) \<Rightarrow> (case malloc cap m of
       (None, m) \<Rightarrow> (Inl BadAlloc, free_buffer s m)
     | (Some d, m) \<Rightarrow> (Inr \<lparr>rb_self = s, rb_data = d, rb_cap = cap, rb_freeptr = d, rb_endptr = w64 (d + cap)\<rparr>, m)))"

definition BumpFreeBlock :: "RawBlock \<Rightarrow> Memory \<Rightarrow> Memory" where
  "BumpFreeBlock b m = free_buffer (rb_self b) (free_buffer (rb_data b) m)"

definition bump_new :: "nat \<Rightarrow> nat \<Rightarrow> BumpContext" where
  "bump_new init_size max_size = \<lparr>mem_allocated = 0, is_reset = True, bu_blocks = [], bu_init_block_size = init_size,
     bu_max_block_size = max_size\<rparr>"

section \<open>Allocation\<close>

definition bump_hand_out :: "address \<Rightarrow> address \<Rightarrow> nat \<Rightarrow> BumpContext \<Rightarrow> Memory \<Rightarrow> (mem_error + address) \<times> BumpContext \<times> Memory" where
  "bump_hand_out self user_ptr total_size c m =
     (Inr user_ptr, c\<lparr>mem_allocated := w64 (mem_allocated c + total_size), is_reset := False\<rparr>, BumpWriteHeader user_ptr self m)"

text \<open>The first chunk of a new block: one whose cursor is left where it is, or one whose cursor moves on.\<close>

definition bump_large :: "address \<Rightarrow> nat \<Rightarrow> BumpContext \<Rightarrow> Memory \<Rightarrow> (mem_error + address) \<times> BumpContext \<times> Memory" where
  "bump_large self total_size c m = (case BumpCreateBlock total_size m of
     (Inl e, m) \<Rightarrow> (Inl e, c, m)
   | (Inr b, m) \<Rightarrow> bump_hand_out self (rb_data b + 8) total_size (c\<lparr>bu_blocks := b # bu_blocks c\<rparr>) m)"

partial_function (option) grow_cap :: "nat \<Rightarrow> nat \<Rightarrow> nat option" where
  "grow_cap new_cap total_size = (if new_cap < total_size then grow_cap (w64 (new_cap * 2)) total_size else Some new_cap)"

definition bump_new_block :: "address \<Rightarrow> nat \<Rightarrow> BumpContext \<Rightarrow> Memory \<Rightarrow> ((mem_error + address) \<times> BumpContext \<times> Memory) option" where
  "bump_new_block self total_size c m = map_option (\<lambda>new_cap.
     let new_cap = (if bu_max_block_size c < new_cap then bu_max_block_size c else new_cap) in case BumpCreateBlock new_cap m of
       (Inl e, m) \<Rightarrow> (Inl e, c, m)
     | (Inr b, m) \<Rightarrow> bump_hand_out self (rb_freeptr b + 8) total_size (c\<lparr>bu_blocks := b\<lparr>rb_freeptr := rb_freeptr b + total_size\<rparr> # bu_blocks c\<rparr>) m)
     (grow_cap (bu_init_block_size c) total_size)"

definition BumpAlloc :: "address \<Rightarrow> nat \<Rightarrow> BumpContext \<Rightarrow> Memory \<Rightarrow> ((mem_error + address) \<times> BumpContext \<times> Memory) option" where
  "BumpAlloc self n c m = (let total_size = w64 (round8 n + 8) in
     if bu_max_block_size c < total_size then Some (bump_large self total_size c m)
     else case bu_blocks c of
       [] \<Rightarrow> bump_new_block self total_size c m
     | b # bs \<Rightarrow> (if rb_freeptr b + total_size \<le> rb_endptr b
         then Some (bump_hand_out self (rb_freeptr b + 8) total_size (c\<lparr>bu_blocks := b\<lparr>rb_freeptr := rb_freeptr b + total_size\<rparr> # bs\<rparr>) m)
         else bump_new_block self total_size c m))"

text \<open>For a pointer that is not null. Nothing is known of the old size: as many bytes as are asked for are copied.\<close>

definition bump_realloc :: "address \<Rightarrow> address \<Rightarrow> nat \<Rightarrow> BumpContext \<Rightarrow> Memory \<Rightarrow> ((mem_error + address) \<times> BumpContext \<times> Memory) option" where
  "bump_realloc self p n c m = map_option (\<lambda>r. case r of
     (Inl e, c, m) \<Rightarrow> (Inl e, c, m)
   | (Inr q, c, m) \<Rightarrow> (Inr q, c, if 0 < n then memcpy q p n m else m)) (BumpAlloc self n c m)"

section \<open>Reset and the rest\<close>

text \<open>\<open>*head\<close> is moved on past the block that is to be kept before the others are freed, and ends up null.\<close>

definition BumpReset :: "BumpContext \<Rightarrow> Memory \<Rightarrow> BumpContext \<times> Memory" where
  "BumpReset c m = (c\<lparr>bu_blocks := [], mem_allocated := 0, is_reset := True\<rparr>, fold BumpFreeBlock (tl (bu_blocks c)) m)"

definition BumpDelete :: "BumpContext \<Rightarrow> Memory \<Rightarrow> Memory" where
  "BumpDelete c m = fold BumpFreeBlock (bu_blocks c) m"

definition BumpIsEmpty :: "BumpContext \<Rightarrow> bool" where
  "BumpIsEmpty c \<longleftrightarrow> mem_allocated c = 0"

definition BumpStats :: "BumpContext \<Rightarrow> nat \<times> nat" where
  "BumpStats c = (length (bu_blocks c), mem_allocated c)"

section \<open>The loop that doubles\<close>

lemma grow_cap_ends:
  assumes "0 < cap" "total_size \<le> 2 ^ 63"
  shows "\<exists>r. grow_cap cap total_size = Some r \<and> total_size \<le> r"
  using assms
proof (induction "total_size - cap" arbitrary: cap rule: less_induct)
  case less
  show ?case
  proof (cases "cap < total_size")
    case True
    then have small: "w64 (cap * 2) = cap * 2" using less.prems(2) by simp
    have "\<exists>r. grow_cap (cap * 2) total_size = Some r \<and> total_size \<le> r"
      using True less.prems by (intro less.hyps) auto
    with True small show ?thesis by (subst grow_cap.simps) simp
  next
    case False
    then show ?thesis by (subst grow_cap.simps) simp
  qed
qed

text \<open>With an initial size of 0 it never ends.\<close>

lemma grow_cap_stuck: "0 < total_size \<Longrightarrow> grow_cap 0 total_size = None"
proof -
  have "cap = 0 \<longrightarrow> t = 0" if "grow_cap cap t = Some r" for cap t r
    by (rule grow_cap.raw_induct [where P = "\<lambda>cap t r. cap = 0 \<longrightarrow> t = 0", OF _ that]) (auto split: if_splits)
  then show "0 < total_size \<Longrightarrow> ?thesis" by (metis not_None_eq not_less_zero)
qed

section \<open>The header of a chunk\<close>

lemma bump_header:
  assumes "self < 2 ^ 56"
  shows "BumpReadHeader (BumpWriteHeader p self m) p = (self, 2)"
proof -
  have high: "n < 56" if "bit self n" for n
  proof (rule ccontr)
    assume "\<not> n < 56"
    then have "self < 2 ^ n" using assms power_increasing [of 56 n "2 :: nat"] by simp
    with that show False by (simp add: bit_iff_odd)
  qed
  have "drop_bit 8 (BumpHeader self) = of_nat self"
    by (rule bit_word_eqI) (auto simp: BumpHeader_def bit_simps dest: high)
  moreover have "BumpHeader self AND mask 8 = 2"
    by (rule bit_word_eqI) (auto simp: BumpHeader_def bit_simps)
  then have "BumpHeader self AND 0xFF = 2" by (simp add: mask_eq_exp_minus_1)
  ultimately show ?thesis
    using assms by (simp add: BumpReadHeader_def BumpWriteHeader_def Let_def unat_of_nat take_bit_eq_mod)
qed

section \<open>Large chunks\<close>

text \<open>The block of a large chunk keeps its cursor at its start.\<close>

lemma bump_large_twice:
  assumes first: "BumpAlloc self n c m = Some (Inr p, c1, m1)" and large: "bu_max_block_size c < w64 (round8 n + 8)"
    and small: "w64 (round8 k + 8) \<le> bu_max_block_size c"
  shows "\<exists>c2 m2. BumpAlloc self k c1 m1 = Some (Inr p, c2, m2)"
proof -
  let ?t = "w64 (round8 n + 8)"
  obtain b m0 where block: "BumpCreateBlock ?t m = (Inr b, m0)" and p: "p = rb_data b + 8"
    and c1: "bu_blocks c1 = b # bu_blocks c" "bu_max_block_size c1 = bu_max_block_size c"
    using first large by (auto simp: BumpAlloc_def bump_large_def bump_hand_out_def Let_def split: prod.splits sum.splits)
  obtain d where "b = \<lparr>rb_self = rb_self b, rb_data = d, rb_cap = ?t, rb_freeptr = d, rb_endptr = w64 (d + ?t)\<rparr>" "d + ?t < 2 ^ 64"
    using block by (auto simp: BumpCreateBlock_def suitable_def dest!: malloc_Some split: prod.splits option.splits)
  then have "rb_freeptr b = rb_data b" "rb_endptr b = rb_data b + ?t" by (metis RawBlock.select_convs(2,4,5) w64_small)+
  then show ?thesis using c1 large small p by (simp add: BumpAlloc_def bump_hand_out_def Let_def)
qed

section \<open>Properties\<close>

text \<open>C40: A request above the largest block size gets a block of its own, but the cursor of that block stays at its start and the
  block becomes the current one: the next request of ordinary size, if it is not larger, is given the very same address,
  and a reset frees every block but the current one, of which it loses the only pointer.\<close>

theorem bump_same_chunk_twice:
  assumes "BumpAlloc self n c m = Some (Inr p, c1, m1)" "bu_max_block_size c < w64 (round8 n + 8)"
    and "w64 (round8 k + 8) \<le> bu_max_block_size c"
  shows "(\<exists>c2 m2. BumpAlloc self k c1 m1 = Some (Inr p, c2, m2)) \<and>
    (\<exists>b. bu_blocks c1 = b # bu_blocks c \<and> bu_blocks (fst (BumpReset c1 m1)) = [] \<and>
       snd (BumpReset c1 m1) = fold BumpFreeBlock (bu_blocks c) m1)"
proof -
  have "\<exists>b. bu_blocks c1 = b # bu_blocks c"
    using assms(1,2) by (auto simp: BumpAlloc_def bump_large_def bump_hand_out_def Let_def split: prod.splits sum.splits)
  then show ?thesis using bump_large_twice [OF assms] by (auto simp: BumpReset_def)
qed

lemma bump_sample:
  "\<exists>c m. BumpAlloc 4096 100000 (bump_new 8192 65536)
     \<lparr>byte_at = (\<lambda>_. 0), buffers = [], answers = (\<lambda>i. Some (65536 + 1048576 * i))\<rparr> = Some (Inr 1114120, c, m)"
  by (simp add: BumpAlloc_def bump_large_def bump_new_def BumpCreateBlock_def bump_hand_out_def malloc_def suitable_def
      sizeof_RawBlock_def round8_def Let_def)

theorem bump_same_chunk_twice_witness:
  "\<exists>c1 m1 c2 m2. BumpAlloc 4096 100000 (bump_new 8192 65536)
     \<lparr>byte_at = (\<lambda>_. 0), buffers = [], answers = (\<lambda>i. Some (65536 + 1048576 * i))\<rparr> = Some (Inr 1114120, c1, m1) \<and>
     BumpAlloc 4096 64 c1 m1 = Some (Inr 1114120, c2, m2)"
proof -
  obtain c1 m1 where run: "BumpAlloc 4096 100000 (bump_new 8192 65536)
     \<lparr>byte_at = (\<lambda>_. 0), buffers = [], answers = (\<lambda>i. Some (65536 + 1048576 * i))\<rparr> = Some (Inr 1114120, c1, m1)"
    using bump_sample by blast
  then show ?thesis
    using bump_same_chunk_twice [OF run, of 64] by (simp add: bump_new_def round8_def)
qed

end
