(* ===== verification/Memory_Context.thy ===== *)
theory Memory_Context
  imports Alloc_Set
begin

text \<open>
  The tree of memory contexts (\<open>common/memcontext.cpp\<close>), with the scopes of \<open>common/jm_alloc.h\<close>.

  \<^item> A context is a node at an address, linked to its parent, its newest child and its siblings by addresses, 0 being
    \<open>nullptr\<close>. Reading or writing through an address that holds no context is the outcome \<open>Faults\<close>.
  \<^item> The loops and the recursion run on fuel; \<open>StillRunning\<close> is what they give when it is used up.
  \<^item> What the allocator of a context does with its blocks is modelled with the allocators. Here a reset or delete method
    leaves an entry in \<open>history\<close>, as does the call of a callback, which is taken to leave the tree alone.
\<close>

section \<open>Contexts\<close>

record ContextData = Counters +
  parent :: address
  firstchild :: address
  prevchild :: address
  nextchild :: address
  ctx_name :: string
  ident :: string
  reset_cbs :: "(nat \<times> nat) list"

datatype context_event = CallbackCalled "nat \<times> nat" | ContextReset address | ContextDeleted address

record Contexts =
  nodes :: "address \<Rightarrow> ContextData option"
  history :: "context_event list"
  TopMemoryContext :: address
  ErrorContext :: address
  CurrentMemoryContext :: address

datatype 'a outcome = Returns 'a | Faults | StillRunning

fun and_then :: "'a outcome \<Rightarrow> ('a \<Rightarrow> 'b outcome) \<Rightarrow> 'b outcome" where
  "and_then (Returns x) k = k x"
| "and_then Faults k = Faults"
| "and_then StillRunning k = StillRunning"

type_synonym action = "Contexts \<Rightarrow> Contexts outcome"

definition rd :: "(ContextData \<Rightarrow> 'v) \<Rightarrow> address \<Rightarrow> ('v \<Rightarrow> Contexts \<Rightarrow> 'b outcome) \<Rightarrow> Contexts \<Rightarrow> 'b outcome" where
  "rd field a k h = (case nodes h a of None \<Rightarrow> Faults | Some n \<Rightarrow> k (field n) h)"

definition wr :: "address \<Rightarrow> (ContextData \<Rightarrow> ContextData) \<Rightarrow> action \<Rightarrow> action" where
  "wr a f k h = (case nodes h a of None \<Rightarrow> Faults | Some n \<Rightarrow> k (h\<lparr>nodes := (nodes h)(a := Some (f n))\<rparr>))"

definition log_event :: "context_event \<Rightarrow> Contexts \<Rightarrow> Contexts" where
  "log_event e h = h\<lparr>history := history h @ [e]\<rparr>"

section \<open>Callbacks\<close>

definition MemoryContextRegisterResetCallback :: "address \<Rightarrow> nat \<times> nat \<Rightarrow> action" where
  "MemoryContextRegisterResetCallback ctx cb =
     wr ctx (\<lambda>n. n\<lparr>reset_cbs := cb # reset_cbs n\<rparr>) (wr ctx (is_reset_update (\<lambda>_. False)) Returns)"

fun run_callbacks :: "(nat \<times> nat) list \<Rightarrow> address \<Rightarrow> action" where
  "run_callbacks [] ctx h = Returns h"
| "run_callbacks (cb # cbs) ctx h = wr ctx (reset_cbs_update (\<lambda>_. cbs)) (\<lambda>h. run_callbacks cbs ctx (log_event (CallbackCalled cb) h)) h"

definition MemoryContextCallResetCallbacks :: "address \<Rightarrow> action" where
  "MemoryContextCallResetCallbacks ctx = rd reset_cbs ctx (\<lambda>cbs. run_callbacks cbs ctx)"

section \<open>Links\<close>

definition MemoryContextLinkChild :: "address \<Rightarrow> address \<Rightarrow> action" where
  "MemoryContextLinkChild p child = wr child (parent_update (\<lambda>_. p)) (rd firstchild p (\<lambda>f.
     if f = 0 then wr child (prevchild_update (\<lambda>_. child)) (wr child (nextchild_update (\<lambda>_. 0)) (wr p (firstchild_update (\<lambda>_. child)) Returns))
     else rd prevchild f (\<lambda>tail. wr child (prevchild_update (\<lambda>_. tail)) (wr child (nextchild_update (\<lambda>_. f))
       (rd prevchild f (\<lambda>tail. wr tail (nextchild_update (\<lambda>_. child)) (wr f (prevchild_update (\<lambda>_. child))
         (wr p (firstchild_update (\<lambda>_. child)) Returns))))))))"

definition detach :: "address \<Rightarrow> action" where
  "detach ctx = wr ctx (prevchild_update (\<lambda>_. 0)) (wr ctx (nextchild_update (\<lambda>_. 0)) (wr ctx (parent_update (\<lambda>_. 0)) Returns))"

definition MemoryContextUnlinkChild :: "address \<Rightarrow> action" where
  "MemoryContextUnlinkChild ctx = rd parent ctx (\<lambda>p. if p = 0 then Returns else rd firstchild p (\<lambda>f. if f = 0 then Returns else
     rd prevchild ctx (\<lambda>pr.
       if pr = ctx \<and> f = ctx then wr p (firstchild_update (\<lambda>_. 0)) (detach ctx)
       else if f = ctx then rd nextchild ctx (\<lambda>new_head.
         if new_head \<noteq> 0 then wr new_head (prevchild_update (\<lambda>_. pr)) (wr p (firstchild_update (\<lambda>_. new_head)) (detach ctx))
         else wr p (firstchild_update (\<lambda>_. new_head)) (detach ctx))
       else rd nextchild ctx (\<lambda>nx. wr pr (nextchild_update (\<lambda>_. nx)) (rd nextchild ctx (\<lambda>nx. rd prevchild ctx (\<lambda>pr.
         if nx \<noteq> 0 then wr nx (prevchild_update (\<lambda>_. pr)) (detach ctx)
         else rd firstchild p (\<lambda>f. wr f (prevchild_update (\<lambda>_. pr)) (detach ctx)))))))))"

definition MemoryContextSetParent :: "address \<Rightarrow> address \<Rightarrow> action" where
  "MemoryContextSetParent ctx p h = and_then (MemoryContextUnlinkChild ctx h)
     (\<lambda>h. if p \<noteq> 0 then MemoryContextLinkChild p ctx h else Returns h)"

definition MemoryContextSetIdentifier :: "address \<Rightarrow> string \<Rightarrow> action" where
  "MemoryContextSetIdentifier ctx i = wr ctx (ident_update (\<lambda>_. i)) Returns"

definition MemoryContextGetParent :: "address \<Rightarrow> Contexts \<Rightarrow> address outcome" where
  "MemoryContextGetParent ctx = rd parent ctx (\<lambda>p _. Returns p)"

text \<open>A new context at the address \<open>malloc\<close> gave: the part of \<open>JMAllocSetContextCreate\<close> (and of \<open>JMBumpContextCreate\<close>) that
  concerns the tree.\<close>

definition new_context :: "string \<Rightarrow> ContextData" where
  "new_context n = \<lparr>mem_allocated = 0, is_reset = True, parent = 0, firstchild = 0, prevchild = 0, nextchild = 0, ctx_name = n,
     ident = [], reset_cbs = []\<rparr>"

definition context_create :: "address \<Rightarrow> address \<Rightarrow> string \<Rightarrow> action" where
  "context_create a p n h = (let h = h\<lparr>nodes := (nodes h)(a := Some (new_context n))\<rparr> in
     if p \<noteq> 0 then MemoryContextSetParent a p h else Returns h)"

definition no_contexts :: Contexts where
  "no_contexts = \<lparr>nodes = (\<lambda>_. None), history = [], TopMemoryContext = 0, ErrorContext = 0, CurrentMemoryContext = 0\<rparr>"

definition MemoryContextInit :: "address \<Rightarrow> address \<Rightarrow> action" where
  "MemoryContextInit top_at err_at h = (if TopMemoryContext h \<noteq> 0 then Returns h
     else and_then (context_create top_at 0 ''TopMemoryContext'' h) (\<lambda>h. let h = h\<lparr>TopMemoryContext := top_at\<rparr> in
       and_then (context_create err_at top_at ''ErrorContext'' h) (\<lambda>h. Returns (h\<lparr>ErrorContext := err_at, CurrentMemoryContext := top_at\<rparr>))))"

definition MemoryContextSwitchTo :: "address \<Rightarrow> Contexts \<Rightarrow> address \<times> Contexts" where
  "MemoryContextSwitchTo ctx h = (CurrentMemoryContext h, h\<lparr>CurrentMemoryContext := ctx\<rparr>)"

section \<open>Reset\<close>

definition reset_method :: "address \<Rightarrow> action" where
  "reset_method ctx = wr ctx (\<lambda>n. n\<lparr>mem_allocated := 0, is_reset := True\<rparr>) (\<lambda>h. Returns (log_event (ContextReset ctx) h))"

text \<open>\<open>reset_children\<close> is the loop of \<open>MemoryContextResetChildren\<close> at the child \<open>child\<close>.\<close>

fun MemoryContextReset :: "nat \<Rightarrow> address \<Rightarrow> action" and reset_children :: "nat \<Rightarrow> address \<Rightarrow> action" where
  "MemoryContextReset 0 ctx h = StillRunning"
| "MemoryContextReset (Suc n) ctx h = rd firstchild ctx (\<lambda>child h. and_then (reset_children n child h)
     (\<lambda>h. and_then (MemoryContextCallResetCallbacks ctx h) (reset_method ctx))) h"
| "reset_children 0 child h = StillRunning"
| "reset_children (Suc n) child h = (if child = 0 then Returns h
     else rd nextchild child (\<lambda>next_one h. and_then (MemoryContextReset n child h) (reset_children n next_one)) h)"

definition MemoryContextResetChildren :: "nat \<Rightarrow> address \<Rightarrow> action" where
  "MemoryContextResetChildren n ctx = rd firstchild ctx (reset_children n)"

section \<open>Delete\<close>

definition delete_method :: "address \<Rightarrow> action" where
  "delete_method ctx h = (case nodes h ctx of None \<Rightarrow> Faults
     | Some _ \<Rightarrow> Returns (log_event (ContextDeleted ctx) (h\<lparr>nodes := (nodes h)(ctx := None)\<rparr>)))"

fun MemoryContextDeleteChildren :: "nat \<Rightarrow> address \<Rightarrow> action" where
  "MemoryContextDeleteChildren 0 ctx h = StillRunning"
| "MemoryContextDeleteChildren (Suc n) ctx h = rd firstchild ctx (\<lambda>child h. if child = 0 then Returns h
     else and_then (MemoryContextUnlinkChild child h) (\<lambda>h. and_then (MemoryContextCallResetCallbacks child h)
       (\<lambda>h. and_then (MemoryContextDeleteChildren n child h) (\<lambda>h. and_then (delete_method child h)
         (MemoryContextDeleteChildren n ctx))))) h"

definition MemoryContextDelete :: "nat \<Rightarrow> address \<Rightarrow> action" where
  "MemoryContextDelete n ctx h = (if ctx = 0 then Returns h
     else and_then (MemoryContextCallResetCallbacks ctx h) (\<lambda>h. and_then (MemoryContextDeleteChildren n ctx h)
       (\<lambda>h. and_then (MemoryContextUnlinkChild ctx h) (delete_method ctx))))"

section \<open>Questions\<close>

fun MemoryContextIsEmpty :: "nat \<Rightarrow> address \<Rightarrow> Contexts \<Rightarrow> bool outcome" and all_empty :: "nat \<Rightarrow> address \<Rightarrow> Contexts \<Rightarrow> bool outcome" where
  "MemoryContextIsEmpty 0 ctx h = StillRunning"
| "MemoryContextIsEmpty (Suc n) ctx h = rd mem_allocated ctx (\<lambda>used. if used \<noteq> 0 then (\<lambda>_. Returns False)
     else rd firstchild ctx (all_empty n)) h"
| "all_empty 0 c h = StillRunning"
| "all_empty (Suc n) c h = (if c = 0 then Returns True
     else and_then (MemoryContextIsEmpty n c h) (\<lambda>e. if \<not> e then Returns False else rd nextchild c (all_empty n) h))"

fun MemoryContextMemAllocated :: "nat \<Rightarrow> address \<Rightarrow> bool \<Rightarrow> Contexts \<Rightarrow> nat outcome" and
    sum_allocated :: "nat \<Rightarrow> address \<Rightarrow> nat \<Rightarrow> Contexts \<Rightarrow> nat outcome" where
  "MemoryContextMemAllocated 0 ctx recurse h = StillRunning"
| "MemoryContextMemAllocated (Suc n) ctx recurse h = rd mem_allocated ctx (\<lambda>acc h. if recurse
     then rd firstchild ctx (\<lambda>c. sum_allocated n c acc) h else Returns acc) h"
| "sum_allocated 0 c acc h = StillRunning"
| "sum_allocated (Suc n) c acc h = (if c = 0 then Returns acc
     else and_then (MemoryContextMemAllocated n c True h) (\<lambda>k. rd nextchild c (\<lambda>c. sum_allocated n c (w64 (acc + k))) h))"

section \<open>Scopes\<close>

text \<open>\<open>ScopeContext\<close>: its constructor, which keeps the context that was current, and its destructor.\<close>

definition scope_enter :: "address \<Rightarrow> Contexts \<Rightarrow> address \<times> Contexts" where
  "scope_enter ctx h = MemoryContextSwitchTo ctx h"

definition scope_exit :: "nat \<Rightarrow> address \<Rightarrow> address \<Rightarrow> bool \<Rightarrow> action" where
  "scope_exit n saved ctx reset h = and_then (if reset \<and> ctx \<noteq> 0 then MemoryContextReset n ctx h else Returns h)
     (\<lambda>h. Returns (h\<lparr>CurrentMemoryContext := saved\<rparr>))"

text \<open>\<open>ScopeChildContext\<close>: a child of the current context for the time of the scope.\<close>

definition child_scope_enter :: "address \<Rightarrow> string \<Rightarrow> action" where
  "child_scope_enter a n h = and_then (context_create a (CurrentMemoryContext h) n h) (\<lambda>h. Returns (h\<lparr>CurrentMemoryContext := a\<rparr>))"

definition child_scope_exit :: "nat \<Rightarrow> address \<Rightarrow> address \<Rightarrow> action" where
  "child_scope_exit n p child h = MemoryContextDelete n child (h\<lparr>CurrentMemoryContext := p\<rparr>)"

end
