(* ===== verification/Context_Tree.thy ===== *)
theory Context_Tree
  imports Memory_Context
begin

text \<open>
  What the tree of memory contexts does. The children of a context form the list \<open>kids\<close>, newest first. Linking a second
  child closes the \<open>nextchild\<close> pointers into a cycle, so every walk over the children that does not stop early runs for
  ever; deletion only ever takes the newest child out, which works, and removes exactly the tree below the context.
\<close>

lemma and_then_Returns: "and_then r k = Returns y \<longleftrightarrow> (\<exists>x. r = Returns x \<and> k x = Returns y)"
  by (cases r) simp_all

lemma rd_Some [simp]: "nodes h a = Some n \<Longrightarrow> rd fld a k h = k (fld n) h"
  by (simp add: rd_def)

lemma wr_Some [simp]: "nodes h a = Some n \<Longrightarrow> wr a f k h = k (h\<lparr>nodes := (nodes h)(a := Some (f n))\<rparr>)"
  by (simp add: wr_def)

lemma rd_Returns: "rd fld a k h = Returns y \<longleftrightarrow> (\<exists>n. nodes h a = Some n \<and> k (fld n) h = Returns y)"
  by (simp add: rd_def split: option.split)

lemma wr_Returns: "wr a f k h = Returns y \<longleftrightarrow> (\<exists>n. nodes h a = Some n \<and> k (h\<lparr>nodes := (nodes h)(a := Some (f n))\<rparr>) = Returns y)"
  by (simp add: wr_def split: option.split)

section \<open>Walks over the children\<close>

definition link_of :: "Contexts \<Rightarrow> address \<Rightarrow> address option" where
  "link_of h a = map_option nextchild (nodes h a)"

lemma link_of_log [simp]: "link_of (log_event e h) = link_of h"
  by (simp add: link_of_def [abs_def] log_event_def)

lemma run_callbacks_links: "run_callbacks cbs ctx h = Returns h' \<Longrightarrow> link_of h' = link_of h"
proof (induction cbs arbitrary: h)
  case (Cons cb cbs)
  then obtain n where n: "nodes h ctx = Some n"
    and run: "run_callbacks cbs ctx (log_event (CallbackCalled cb) (h\<lparr>nodes := (nodes h)(ctx := Some (n\<lparr>reset_cbs := cbs\<rparr>))\<rparr>)) = Returns h'"
    by (auto simp: wr_Returns)
  have "link_of (h\<lparr>nodes := (nodes h)(ctx := Some (n\<lparr>reset_cbs := cbs\<rparr>))\<rparr>) = link_of h" using n by (auto simp: link_of_def)
  with Cons.IH [OF run] show ?case by simp
qed simp

lemma reset_links:
  "MemoryContextReset f ctx h = Returns h' \<Longrightarrow> link_of h' = link_of h"
  "reset_children f ctx h = Returns h' \<Longrightarrow> link_of h' = link_of h"
proof (induction f ctx h and f ctx h arbitrary: h' and h' rule: MemoryContextReset_reset_children.induct)
  case (2 f ctx h)
  then obtain n h1 h2 where n: "nodes h ctx = Some n" and h1: "reset_children f (firstchild n) h = Returns h1"
    and h2: "MemoryContextCallResetCallbacks ctx h1 = Returns h2" and h': "reset_method ctx h2 = Returns h'"
    by (auto simp: rd_Returns and_then_Returns)
  have "link_of h2 = link_of h1" using h2 run_callbacks_links by (auto simp: MemoryContextCallResetCallbacks_def rd_Returns)
  moreover have "link_of h' = link_of h2" using h' by (auto simp: reset_method_def wr_Returns link_of_def log_event_def)
  ultimately show ?case using 2(1) [OF h1] by simp
next
  case (4 f child h)
  show ?case
  proof (cases "child = 0")
    case False
    then obtain n h1 where "nodes h child = Some n" and h1: "MemoryContextReset f child h = Returns h1"
      and h2: "reset_children f (nextchild n) h1 = Returns h'"
      using 4(3) by (auto simp: rd_Returns and_then_Returns)
    then show ?thesis using 4(1) [OF False h1] 4(2) [OF False h2] by simp
  qed (use 4(3) in simp)
qed simp_all

text \<open>A set of contexts that \<open>nextchild\<close> does not leave.\<close>

definition closed_links :: "address set \<Rightarrow> Contexts \<Rightarrow> bool" where
  "closed_links S h \<longleftrightarrow> 0 \<notin> S \<and> (\<forall>x \<in> S. \<forall>n. nodes h x = Some n \<longrightarrow> nextchild n \<in> S)"

lemma closed_links_cong: "link_of h = link_of h' \<Longrightarrow> closed_links S h = closed_links S h'"
proof -
  have "(\<forall>n. nodes h x = Some n \<longrightarrow> nextchild n \<in> S) \<longleftrightarrow> (\<forall>y. link_of h x = Some y \<longrightarrow> y \<in> S)" for h x
    by (auto simp: link_of_def)
  then show "link_of h = link_of h' \<Longrightarrow> ?thesis" by (simp add: closed_links_def)
qed

lemma closed_linksD: "closed_links S h \<Longrightarrow> x \<in> S \<Longrightarrow> x \<noteq> 0" "closed_links S h \<Longrightarrow> x \<in> S \<Longrightarrow> nodes h x = Some n \<Longrightarrow> nextchild n \<in> S"
  unfolding closed_links_def by metis+

lemma reset_children_endless: "closed_links S h \<Longrightarrow> x \<in> S \<Longrightarrow> reset_children f x h \<noteq> Returns h'"
proof (induction f arbitrary: x h)
  case (Suc f)
  show ?case
  proof
    assume run: "reset_children (Suc f) x h = Returns h'"
    have "x \<noteq> 0" using Suc.prems by (rule closed_linksD)
    with run obtain n h1 where n: "nodes h x = Some n" and h1: "MemoryContextReset f x h = Returns h1"
      and h2: "reset_children f (nextchild n) h1 = Returns h'"
      by (auto simp: rd_Returns and_then_Returns)
    have "closed_links S h1" using Suc.prems(1) closed_links_cong reset_links(1) [OF h1] by metis
    moreover have "nextchild n \<in> S" using closed_linksD(2) [OF Suc.prems n] .
    ultimately show False using Suc.IH h2 by blast
  qed
qed simp

lemma all_empty_endless: "closed_links S h \<Longrightarrow> x \<in> S \<Longrightarrow> all_empty f x h \<noteq> Returns True"
proof (induction f arbitrary: x)
  case (Suc f)
  with closed_linksD [OF Suc.prems] show ?case by (auto simp: rd_Returns and_then_Returns split: if_splits)
qed simp

lemma sum_endless: "closed_links S h \<Longrightarrow> x \<in> S \<Longrightarrow> sum_allocated f x acc h \<noteq> Returns r"
proof (induction f arbitrary: x acc)
  case (Suc f)
  with closed_linksD [OF Suc.prems] show ?case by (auto simp: rd_Returns and_then_Returns split: if_splits)
qed simp

section \<open>The children of a context\<close>

fun linked_from :: "Contexts \<Rightarrow> address \<Rightarrow> address \<Rightarrow> address list \<Rightarrow> bool" where
  "linked_from h p pr [] = True"
| "linked_from h p pr (x # xs) = (x \<noteq> 0 \<and> (\<exists>n. nodes h x = Some n \<and> parent n = p \<and> prevchild n = pr \<and>
     (xs \<noteq> [] \<longrightarrow> nextchild n = hd xs)) \<and> linked_from h p x xs)"

definition kids :: "Contexts \<Rightarrow> address \<Rightarrow> address list \<Rightarrow> bool" where
  "kids h p xs \<longleftrightarrow> (\<exists>n. nodes h p = Some n \<and> firstchild n = (case xs of [] \<Rightarrow> 0 | x # _ \<Rightarrow> x)) \<and>
     (xs \<noteq> [] \<longrightarrow> linked_from h p (last xs) xs)"

lemma linked_from_cong:
  "(\<And>x. x \<in> set xs \<Longrightarrow> nodes h' x = nodes h x) \<Longrightarrow> linked_from h' p pr xs = linked_from h p pr xs"
  by (induction xs arbitrary: pr) auto

lemma linked_from_live: "linked_from h p pr xs \<Longrightarrow> x \<in> set xs \<Longrightarrow> x \<noteq> 0 \<and> (\<exists>n. nodes h x = Some n \<and> parent n = p)"
  by (induction xs arbitrary: pr) auto

lemma linked_from_next:
  "linked_from h p pr xs \<Longrightarrow> x \<in> set xs \<Longrightarrow> x \<noteq> last xs \<Longrightarrow> nodes h x = Some n \<Longrightarrow> nextchild n \<in> set xs"
proof (induction xs arbitrary: pr)
  case (Cons y ys)
  show ?case
  proof (cases "x = y")
    case True
    then have "ys \<noteq> []" using Cons.prems(3) by auto
    then show ?thesis using Cons.prems(1,4) True by (cases ys) auto
  next
    case False
    with Cons.prems have "x \<in> set ys" by simp
    moreover from this have "x \<noteq> last ys" using Cons.prems(3) by (cases ys) auto
    ultimately show ?thesis using Cons.IH [of y] Cons.prems by auto
  qed
qed simp

text \<open>Linking a child in front of others closes the circle.\<close>

lemma link_closes:
  assumes kids: "kids h p xs" and xs: "xs \<noteq> []" "distinct (p # c # xs)" "c \<noteq> 0" and c: "nodes h c = Some n"
  shows "\<exists>h'. MemoryContextLinkChild p c h = Returns h' \<and> closed_links (insert c (set xs)) h' \<and>
    (\<exists>np. nodes h' p = Some np \<and> firstchild np = c)"
proof -
  obtain x ys where x: "xs = x # ys" using xs(1) by (cases xs) auto
  obtain np where np: "nodes h p = Some np" "firstchild np = x" using kids x by (auto simp: kids_def)
  have lk: "linked_from h p (last xs) xs" using kids xs(1) by (simp add: kids_def)
  obtain nx where nx: "nodes h x = Some nx" "prevchild nx = last xs" "x \<noteq> 0" using lk x by auto
  have t: "last xs \<in> set xs" using xs(1) by simp
  obtain nt where nt: "nodes h (last xs) = Some nt" using linked_from_live [OF lk t] by blast
  have ne: "p \<noteq> c" "p \<noteq> x" "c \<noteq> x" "last xs \<noteq> c" "last xs \<noteq> p" using xs(2) t x by auto
  define h' where "h' = h\<lparr>nodes := (nodes h)(c := Some (n\<lparr>parent := p, prevchild := last xs, nextchild := x\<rparr>),
    last xs := Some (nt\<lparr>nextchild := c\<rparr>), x := (if x = last xs then Some (nt\<lparr>nextchild := c, prevchild := c\<rparr>) else Some (nx\<lparr>prevchild := c\<rparr>)),
    p := Some (np\<lparr>firstchild := c\<rparr>))\<rparr>"
  have run: "MemoryContextLinkChild p c h = Returns h'"
    using np nx nt c ne unfolding h'_def
    by (cases "x = last xs") (auto simp: MemoryContextLinkChild_def fun_upd_twist)
  have "nextchild m \<in> insert c (set xs)" if y: "y \<in> insert c (set xs)" and m: "nodes h' y = Some m" for y m
  proof -
    have "y \<noteq> p" using y xs(2) by auto
    consider "y = c" | "y = last xs" | "y \<in> set xs" "y \<noteq> c" "y \<noteq> last xs" using y by auto
    then show ?thesis
    proof cases
      case 3
      then obtain m' where "nodes h y = Some m'" "nextchild m = nextchild m'"
        using m \<open>y \<noteq> p\<close> nx(1) by (auto simp: h'_def split: if_splits)
      with linked_from_next [OF lk 3(1,3)] show ?thesis by auto
    qed (use m ne \<open>y \<noteq> p\<close> x in \<open>auto simp: h'_def split: if_splits\<close>)
  qed
  moreover have "0 \<notin> insert c (set xs)" using xs(3) linked_from_live [OF lk] by auto
  ultimately have "closed_links (insert c (set xs)) h'" by (auto simp: closed_links_def)
  with run show ?thesis by (auto simp: h'_def)
qed

section \<open>Deletion\<close>

datatype ctx_tree = Ctx (root: address) (subs: "ctx_tree list")

fun addresses :: "ctx_tree \<Rightarrow> address list" where
  "addresses (Ctx a ts) = a # concat (map addresses ts)"

fun tree_in :: "Contexts \<Rightarrow> ctx_tree \<Rightarrow> bool" where
  "tree_in h (Ctx a ts) = (kids h a (map root ts) \<and> (\<forall>t \<in> set ts. tree_in h t))"

definition callbacks_of :: "Contexts \<Rightarrow> address \<Rightarrow> (nat \<times> nat) list" where
  "callbacks_of h a = (case nodes h a of None \<Rightarrow> [] | Some n \<Rightarrow> reset_cbs n)"

text \<open>What deleting a context with all below it leaves in the history: its callbacks, then its children, newest first, then
  the context itself.\<close>

fun delete_log :: "Contexts \<Rightarrow> ctx_tree \<Rightarrow> context_event list" where
  "delete_log h (Ctx a ts) = map CallbackCalled (callbacks_of h a) @ concat (map (delete_log h) ts) @ [ContextDeleted a]"

lemma root_in: "root t \<in> set (addresses t)"
  by (cases t) simp

lemma kids_cong:
  assumes "\<And>x. x \<in> set xs \<Longrightarrow> nodes h' x = nodes h x" "nodes h a = Some n" "nodes h' a = Some n'" "firstchild n' = firstchild n"
  shows "kids h' a xs = kids h a xs"
  using assms linked_from_cong [of xs h' h] by (simp add: kids_def)

text \<open>A tree does not see the siblings of its root, nor the callbacks.\<close>

definition same_tree :: "Contexts \<Rightarrow> Contexts \<Rightarrow> ctx_tree \<Rightarrow> bool" where
  "same_tree h h' t \<longleftrightarrow> (\<forall>x \<in> set (addresses t) - {root t}. nodes h' x = nodes h x) \<and>
     (\<exists>n n'. nodes h (root t) = Some n \<and> nodes h' (root t) = Some n' \<and> firstchild n' = firstchild n \<and> reset_cbs n' = reset_cbs n)"

lemma tree_unchanged:
  "\<forall>x \<in> set (addresses t). nodes h' x = nodes h x \<Longrightarrow> tree_in h t \<Longrightarrow> tree_in h' t \<and> delete_log h' t = delete_log h t"
proof (induction t)
  case (Ctx a ts)
  have sub: "set (addresses t) \<subseteq> set (addresses (Ctx a ts))" if "t \<in> set ts" for t using that by auto
  then have "tree_in h' t \<and> delete_log h' t = delete_log h t" if "t \<in> set ts" for t using that Ctx by auto
  moreover have "nodes h' x = nodes h x" if "x \<in> set (map root ts)" for x using that sub root_in Ctx.prems(1) by fastforce
  moreover have "nodes h' a = nodes h a" using Ctx.prems(1) by simp
  ultimately show ?case using Ctx.prems(2) kids_cong [of "map root ts" h' h a] 
    by (auto simp: callbacks_of_def kids_def cong: map_cong)
qed

lemma same_treeD:
  assumes "same_tree h h' t" "tree_in h t" "distinct (addresses t)"
  shows "tree_in h' t" "delete_log h' t = delete_log h t"
proof -
  obtain a ts where t: "t = Ctx a ts" by (cases t)
  have sub: "nodes h' x = nodes h x" if "s \<in> set ts" "x \<in> set (addresses s)" for s x
    using assms(1,3) that by (auto simp: t same_tree_def)
  then have "tree_in h' s \<and> delete_log h' s = delete_log h s" if "s \<in> set ts" for s
    using tree_unchanged [of s h' h] assms(2) that by (auto simp: t)
  moreover have "kids h' a (map root ts) = kids h a (map root ts)"
  proof -
    obtain n n' where "nodes h a = Some n" "nodes h' a = Some n'" "firstchild n' = firstchild n"
      using assms(1) by (auto simp: t same_tree_def)
    moreover have "nodes h' x = nodes h x" if "x \<in> set (map root ts)" for x using that sub root_in by auto
    ultimately show ?thesis by (intro kids_cong)
  qed
  ultimately show "tree_in h' t" "delete_log h' t = delete_log h t"
    using assms(1,2) by (auto simp: t same_tree_def callbacks_of_def cong: map_cong)
qed

lemma run_callbacks_all:
  "nodes h c = Some n \<Longrightarrow> MemoryContextCallResetCallbacks c h =
     Returns (h\<lparr>nodes := (nodes h)(c := Some (n\<lparr>reset_cbs := []\<rparr>)), history := history h @ map CallbackCalled (reset_cbs n)\<rparr>)"
proof -
  have "run_callbacks cbs c h = Returns (h\<lparr>nodes := (nodes h)(c := Some (n\<lparr>reset_cbs := []\<rparr>)), history := history h @ map CallbackCalled cbs\<rparr>)"
    if "nodes h c = Some n" "reset_cbs n = cbs" for cbs n h
    using that
  proof (induction cbs arbitrary: n h)
    case Nil
    then have "n\<lparr>reset_cbs := []\<rparr> = n" by simp
    with Nil show ?case by (simp add: fun_upd_idem)
  qed (simp add: log_event_def)
  then show "nodes h c = Some n \<Longrightarrow> ?thesis" by (simp add: MemoryContextCallResetCallbacks_def)
qed

lemma unlink_newest:
  assumes kids: "kids h a (c # xs)" and ne: "a \<noteq> 0" "distinct (a # c # xs)"
  shows "\<exists>h1 na nc. MemoryContextUnlinkChild c h = Returns h1 \<and> kids h1 a xs \<and> history h1 = history h \<and>
    nodes h a = Some na \<and> nodes h1 a = Some (na\<lparr>firstchild := (case xs of [] \<Rightarrow> 0 | x # _ \<Rightarrow> x)\<rparr>) \<and>
    nodes h c = Some nc \<and> nodes h1 c = Some (nc\<lparr>prevchild := 0, nextchild := 0, parent := 0\<rparr>) \<and>
    (\<forall>x. x \<noteq> a \<and> x \<noteq> c \<and> x \<notin> set xs \<longrightarrow> nodes h1 x = nodes h x) \<and>
    (\<forall>x \<in> set xs. \<exists>n pr. nodes h x = Some n \<and> nodes h1 x = Some (n\<lparr>prevchild := pr\<rparr>))"
proof -
  obtain na where na: "nodes h a = Some na" "firstchild na = c" using kids by (auto simp: kids_def)
  have lk: "linked_from h a (last (c # xs)) (c # xs)" using kids by (simp add: kids_def)
  then obtain nc where nc: "nodes h c = Some nc" "parent nc = a" "prevchild nc = last (c # xs)" "c \<noteq> 0"
    "xs \<noteq> [] \<longrightarrow> nextchild nc = hd xs" by auto
  show ?thesis
  proof (cases xs)
    case Nil
    with na nc ne show ?thesis by (auto simp: MemoryContextUnlinkChild_def detach_def kids_def)
  next
    case (Cons d ys)
    then obtain nd where nd: "nodes h d = Some nd" "parent nd = a" "d \<noteq> 0" "ys \<noteq> [] \<longrightarrow> nextchild nd = hd ys" using lk by auto
    have tail: "last (c # xs) \<noteq> c" using ne(2) Cons by (auto split: if_splits)
    have lk': "linked_from h a d ys" using lk Cons by simp
    define h1 where "h1 = h\<lparr>nodes := (nodes h)(d := Some (nd\<lparr>prevchild := last xs\<rparr>), a := Some (na\<lparr>firstchild := d\<rparr>),
      c := Some (nc\<lparr>prevchild := 0, nextchild := 0, parent := 0\<rparr>))\<rparr>"
    have run: "MemoryContextUnlinkChild c h = Returns h1"
      using na nc nd ne tail Cons unfolding h1_def by (auto simp: MemoryContextUnlinkChild_def detach_def fun_upd_twist)
    have "linked_from h1 a d ys = linked_from h a d ys" using ne(2) Cons by (intro linked_from_cong) (auto simp: h1_def)
    then have "linked_from h1 a (last xs) xs" using lk' nd ne(2) Cons by (auto simp: h1_def)
    then have "kids h1 a xs" using na ne(2) Cons by (simp add: kids_def h1_def)
    moreover have "\<exists>n pr. nodes h x = Some n \<and> nodes h1 x = Some (n\<lparr>prevchild := pr\<rparr>)" if x: "x \<in> set xs" for x
    proof (cases "x = d")
      case True
      with nd ne(2) Cons show ?thesis by (auto simp: h1_def)
    next
      case False
      obtain m where m: "nodes h x = Some m" using linked_from_live [OF lk, of x] x by auto
      with False x ne(2) Cons show ?thesis by (auto simp: h1_def intro!: exI [of _ "prevchild m"])
    qed
    moreover have "\<forall>x. x \<noteq> a \<and> x \<noteq> c \<and> x \<notin> set xs \<longrightarrow> nodes h1 x = nodes h x" "history h1 = history h"
      "nodes h1 a = Some (na\<lparr>firstchild := (case xs of [] \<Rightarrow> 0 | x # _ \<Rightarrow> x)\<rparr>)"
      "nodes h1 c = Some (nc\<lparr>prevchild := 0, nextchild := 0, parent := 0\<rparr>)"
      using ne(2) Cons by (auto simp: h1_def)
    ultimately show ?thesis using run na(1) nc(1) by blast
  qed
qed

lemma roots_subset: "set (map root ts) \<subseteq> set (concat (map addresses ts))"
  using root_in by auto

lemma distinct_roots: "distinct (concat (map addresses ts)) \<Longrightarrow> distinct (map root ts)"
proof (induction ts)
  case (Cons t ts)
  have "root t \<notin> set (concat (map addresses ts))" using Cons.prems root_in [of t] by auto
  with roots_subset [of ts] have "root t \<notin> set (map root ts)" by blast
  with Cons show ?case by simp
qed simp

lemma root_unique:
  "distinct (concat (map addresses ts)) \<Longrightarrow> s \<in> set ts \<Longrightarrow> x \<in> set (addresses s) \<Longrightarrow> x \<in> set (map root ts) \<Longrightarrow> x = root s"
proof (induction ts)
  case (Cons t ts)
  have apart: "set (addresses t) \<inter> set (concat (map addresses ts)) = {}" using Cons.prems(1) by auto
  show ?case
  proof (cases "s = t")
    case True
    then have "x \<notin> set (concat (map addresses ts))" using apart Cons.prems(3) by auto
    then have "x \<notin> set (map root ts)" using roots_subset [of ts] by blast
    with Cons.prems(4) True show ?thesis by auto
  next
    case False
    then have s: "s \<in> set ts" using Cons.prems(2) by simp
    then have "x \<notin> set (addresses t)" using apart Cons.prems(3) by auto
    then have "x \<noteq> root t" using root_in [of t] by auto
    with Cons s show ?thesis by auto
  qed
qed simp

text \<open>Deleting the children of a context: with as much fuel as there are contexts in the tree.\<close>

definition deleted_below :: "Contexts \<Rightarrow> address \<Rightarrow> ctx_tree list \<Rightarrow> Contexts \<Rightarrow> bool" where
  "deleted_below h a ts h' \<longleftrightarrow> history h' = history h @ concat (map (delete_log h) ts) \<and>
     (\<exists>n. nodes h a = Some n \<and> nodes h' a = Some (n\<lparr>firstchild := 0\<rparr>)) \<and>
     (\<forall>t \<in> set ts. \<forall>x \<in> set (addresses t). nodes h' x = None) \<and>
     (\<forall>x. x \<notin> set (addresses (Ctx a ts)) \<longrightarrow> nodes h' x = nodes h x)"

text \<open>The newest child \<open>c\<close> of \<open>a\<close> is out of the list of children and its callbacks have run.\<close>

definition newest_out :: "Contexts \<Rightarrow> address \<Rightarrow> address \<Rightarrow> ctx_tree list \<Rightarrow> ctx_tree list \<Rightarrow> Contexts \<Rightarrow> bool" where
  "newest_out h a c us ts h2 \<longleftrightarrow> tree_in h2 (Ctx c us) \<and> map (delete_log h2) us = map (delete_log h) us \<and>
     kids h2 a (map root ts) \<and> history h2 = history h @ map CallbackCalled (callbacks_of h c) \<and>
     (\<exists>n k. nodes h a = Some n \<and> nodes h2 a = Some (n\<lparr>firstchild := k\<rparr>)) \<and>
     (\<forall>x. x \<noteq> a \<and> x \<noteq> c \<and> x \<notin> set (map root ts) \<longrightarrow> nodes h2 x = nodes h x) \<and>
     (\<forall>x \<in> set (map root ts). \<exists>n pr. nodes h x = Some n \<and> nodes h2 x = Some (n\<lparr>prevchild := pr\<rparr>))"

lemma tree_split:
  assumes "tree_in h (Ctx a (Ctx c us # ts))" "distinct (addresses (Ctx a (Ctx c us # ts)))"
  shows "distinct (a # c # map root ts)" "c \<noteq> 0" "tree_in h (Ctx c us)" "\<forall>s \<in> set ts. tree_in h s \<and> distinct (addresses s)"
    "distinct (addresses (Ctx c us))" "distinct (addresses (Ctx a ts))" "set (addresses (Ctx c us)) \<inter> set (addresses (Ctx a ts)) = {}"
proof -
  show d: "distinct (addresses (Ctx c us))" "distinct (addresses (Ctx a ts))"
    "set (addresses (Ctx c us)) \<inter> set (addresses (Ctx a ts)) = {}"
    using assms(2) by auto
  have "distinct (map root ts)" using d(2) by (intro distinct_roots) simp
  moreover have "set (map root ts) \<subseteq> set (concat (map addresses ts))" by (rule roots_subset)
  ultimately show "distinct (a # c # map root ts)" using d by auto
  show "c \<noteq> 0" using assms(1) linked_from_live [of h a _ "c # map root ts" c] by (auto simp: kids_def)
  show "tree_in h (Ctx c us)" "\<forall>s \<in> set ts. tree_in h s \<and> distinct (addresses s)"
    using assms(1) d(2) by (auto simp: distinct_concat_iff)
qed

lemma unlink_tree:
  assumes tree: "tree_in h (Ctx a (Ctx c us # ts))" and dist: "distinct (addresses (Ctx a (Ctx c us # ts)))" and a: "a \<noteq> 0"
  shows "\<exists>h1 h2. MemoryContextUnlinkChild c h = Returns h1 \<and> MemoryContextCallResetCallbacks c h1 = Returns h2 \<and> newest_out h a c us ts h2"
proof -
  note split = tree_split [OF tree dist]
  have kids: "kids h a (c # map root ts)" using tree by simp
  obtain h1 na nc where h1: "MemoryContextUnlinkChild c h = Returns h1" "kids h1 a (map root ts)" "history h1 = history h"
    "nodes h a = Some na" "nodes h1 a = Some (na\<lparr>firstchild := (case map root ts of [] \<Rightarrow> 0 | x # _ \<Rightarrow> x)\<rparr>)"
    "nodes h c = Some nc" "nodes h1 c = Some (nc\<lparr>prevchild := 0, nextchild := 0, parent := 0\<rparr>)"
    "\<forall>x. x \<noteq> a \<and> x \<noteq> c \<and> x \<notin> set (map root ts) \<longrightarrow> nodes h1 x = nodes h x"
    "\<forall>x \<in> set (map root ts). \<exists>n pr. nodes h x = Some n \<and> nodes h1 x = Some (n\<lparr>prevchild := pr\<rparr>)"
    using unlink_newest [OF kids a split(1)] by auto
  define nc2 where "nc2 = nc\<lparr>prevchild := 0, nextchild := 0, parent := 0, reset_cbs := []\<rparr>"
  define h2 where "h2 = h1\<lparr>nodes := (nodes h1)(c := Some nc2), history := history h @ map CallbackCalled (callbacks_of h c)\<rparr>"
  have run: "MemoryContextCallResetCallbacks c h1 = Returns h2"
    using run_callbacks_all [OF h1(7)] h1(3,6) by (simp add: h2_def nc2_def callbacks_of_def)
  have same: "nodes h2 x = nodes h x" if x: "x \<in> set (concat (map addresses us))" for x
  proof -
    have "x \<in> set (addresses (Ctx c us))" "x \<noteq> c" using x split(5) by auto
    moreover from this have "x \<notin> set (addresses (Ctx a ts))" using split(7) by blast
    ultimately have "x \<noteq> a \<and> x \<noteq> c \<and> x \<notin> set (map root ts)" using roots_subset [of ts] by auto
    then show ?thesis using h1(8) by (simp add: h2_def)
  qed
  have subs: "tree_in h2 s \<and> delete_log h2 s = delete_log h s" if s: "s \<in> set us" for s
  proof (rule tree_unchanged)
    show "\<forall>x \<in> set (addresses s). nodes h2 x = nodes h x" using s same by auto
  qed (use split(3) s in auto)
  have "kids h2 c (map root us) = kids h c (map root us)"
  proof (rule kids_cong [where n = nc and n' = nc2])
    show "nodes h2 x = nodes h x" if "x \<in> set (map root us)" for x using same roots_subset [of us] that by blast
  qed (use h1(6) in \<open>simp_all add: h2_def nc2_def\<close>)
  moreover have "kids h2 a (map root ts) = kids h1 a (map root ts)"
    using split(1) h1(5) by (intro kids_cong) (auto simp: h2_def)
  ultimately have "newest_out h a c us ts h2"
    using subs split(1,3) h1(2,4,5,8,9) by (auto simp: newest_out_def h2_def)
  with h1(1) run show ?thesis by blast
qed

text \<open>Then, everything below it gone, it is deleted too.\<close>

lemma delete_newest:
  assumes tree: "tree_in h (Ctx a (Ctx c us # ts))" and dist: "distinct (addresses (Ctx a (Ctx c us # ts)))"
    and out: "newest_out h a c us ts h2" and below: "deleted_below h2 c us h3"
  defines "h4 \<equiv> log_event (ContextDeleted c) (h3\<lparr>nodes := (nodes h3)(c := None)\<rparr>)"
  shows "delete_method c h3 = Returns h4" "tree_in h4 (Ctx a ts)" "map (delete_log h4) ts = map (delete_log h) ts"
    "history h4 = history h @ delete_log h (Ctx c us)" "\<forall>x \<in> set (addresses (Ctx c us)). nodes h4 x = None"
    "\<forall>x. x \<notin> set (addresses (Ctx c us)) \<longrightarrow> nodes h4 x = nodes h2 x"
proof -
  note split = tree_split [OF tree dist]
  have h2: "kids h2 a (map root ts)" "\<forall>x. x \<noteq> a \<and> x \<noteq> c \<and> x \<notin> set (map root ts) \<longrightarrow> nodes h2 x = nodes h x"
    "\<forall>x \<in> set (map root ts). \<exists>n pr. nodes h x = Some n \<and> nodes h2 x = Some (n\<lparr>prevchild := pr\<rparr>)"
    using out by (simp_all add: newest_out_def)
  show "delete_method c h3 = Returns h4" using below by (auto simp: delete_method_def deleted_below_def h4_def)
  show same4: "\<forall>x. x \<notin> set (addresses (Ctx c us)) \<longrightarrow> nodes h4 x = nodes h2 x"
    and "\<forall>x \<in> set (addresses (Ctx c us)). nodes h4 x = None"
    using below by (auto simp: deleted_below_def h4_def log_event_def)
  show "history h4 = history h @ delete_log h (Ctx c us)"
  proof -
    have "map (delete_log h2) us = map (delete_log h) us" using out unfolding newest_out_def by blast
    then have "concat (map (delete_log h2) us) = concat (map (delete_log h) us)" by (rule arg_cong)
    moreover have "history h2 = history h @ map CallbackCalled (callbacks_of h c)" using out by (simp add: newest_out_def)
    ultimately show ?thesis using below by (simp add: deleted_below_def h4_def log_event_def)
  qed
  have st: "same_tree h h4 s" if s: "s \<in> set ts" for s
  proof -
    have away: "x \<notin> set (addresses (Ctx c us)) \<and> x \<noteq> a \<and> x \<noteq> c" if x: "x \<in> set (addresses s)" for x
      using x s split(6,7) by auto
    have "nodes h4 x = nodes h x" if x: "x \<in> set (addresses s) - {root s}" for x
    proof -
      have "x \<notin> set (map root ts)" using root_unique [of ts s x] split(6) s x by auto
      with away x same4 h2(2) show ?thesis by simp
    qed
    moreover obtain n pr where "nodes h (root s) = Some n" "nodes h2 (root s) = Some (n\<lparr>prevchild := pr\<rparr>)" using h2(3) s by auto
    ultimately show ?thesis using same4 away [OF root_in] by (simp add: same_tree_def)
  qed
  have "kids h4 a (map root ts) = kids h2 a (map root ts)"
  proof -
    obtain n where "nodes h2 a = Some n" using out by (auto simp: newest_out_def)
    moreover have "nodes h4 x = nodes h2 x" if x: "x \<in> insert a (set (map root ts))" for x
    proof -
      have "x \<in> set (addresses (Ctx a ts))" using roots_subset [of ts] x by auto
      then have "x \<notin> set (addresses (Ctx c us))" using split(7) by blast
      then show ?thesis using same4 by blast
    qed
    ultimately show ?thesis by (intro kids_cong) auto
  qed
  then show "tree_in h4 (Ctx a ts)" "map (delete_log h4) ts = map (delete_log h) ts"
    using h2(1) same_treeD [OF st] split(4) by auto
qed

lemma delete_children_run:
  "tree_in h (Ctx a ts) \<Longrightarrow> distinct (addresses (Ctx a ts)) \<Longrightarrow> a \<noteq> 0 \<Longrightarrow> length (addresses (Ctx a ts)) \<le> f \<Longrightarrow>
   \<exists>h'. MemoryContextDeleteChildren f a h = Returns h' \<and> deleted_below h a ts h'"
proof (induction f arbitrary: a ts h)
  case (Suc f)
  obtain na where na: "nodes h a = Some na" using Suc.prems(1) by (auto simp: kids_def)
  show ?case
  proof (cases ts)
    case Nil
    then have "firstchild na = 0" using Suc.prems(1) na by (auto simp: kids_def)
    moreover from this have "na\<lparr>firstchild := 0\<rparr> = na" by simp
    ultimately show ?thesis using na Nil by (auto simp: deleted_below_def)
  next
    case (Cons t ts')
    obtain c us where t: "t = Ctx c us" by (cases t)
    note prems = Suc.prems(1,2) [unfolded Cons t]
    note split = tree_split [OF prems]
    obtain h1 h2 where h1: "MemoryContextUnlinkChild c h = Returns h1" "MemoryContextCallResetCallbacks c h1 = Returns h2"
      and out: "newest_out h a c us ts' h2" using unlink_tree [OF prems Suc.prems(3)] by blast
    obtain h3 where h3: "MemoryContextDeleteChildren f c h2 = Returns h3" and below: "deleted_below h2 c us h3"
      using Suc.IH [of h2 c us] out split(2,5) Suc.prems(4) Cons t by (auto simp: newest_out_def)
    define h4 where "h4 = log_event (ContextDeleted c) (h3\<lparr>nodes := (nodes h3)(c := None)\<rparr>)"
    note h4 = delete_newest [OF prems out below, folded h4_def]
    obtain h5 where h5: "MemoryContextDeleteChildren f a h4 = Returns h5" and rest: "deleted_below h4 a ts' h5"
      using Suc.IH [OF h4(2) split(6) Suc.prems(3)] Suc.prems(4) Cons t by auto
    have "MemoryContextDeleteChildren (Suc f) a h = Returns h5"
      using na prems(1) split(2) h1 h3 h4(1) h5 by (auto simp: kids_def)
    moreover have "deleted_below h a ts h5"
    proof -
      obtain k where "nodes h2 a = Some (na\<lparr>firstchild := k\<rparr>)" using out na by (auto simp: newest_out_def)
      then have "nodes h5 a = Some (na\<lparr>firstchild := 0\<rparr>)" using rest h4(6) split(7) by (auto simp: deleted_below_def)
      moreover have "nodes h5 x = None" if "x \<in> set (addresses t)" for x
        using rest h4(5) split(7) that t by (auto simp: deleted_below_def)
      moreover have "nodes h5 x = nodes h x" if x: "x \<notin> set (addresses (Ctx a ts))" for x
      proof -
        have "x \<noteq> a \<and> x \<noteq> c \<and> x \<notin> set (map root ts')" using x roots_subset [of ts'] Cons t by auto
        then show ?thesis using rest h4(6) out x Cons t by (auto simp: deleted_below_def newest_out_def)
      qed
      ultimately show ?thesis using na rest h4(3,4) Cons t by (auto simp: deleted_below_def)
    qed
    ultimately show ?thesis by blast
  qed
qed simp

section \<open>Properties\<close>

text \<open>C24: A second child. When a context that already has children gets one more, the next-pointer of its oldest child is set
  to the new child instead of staying null. From then on the children form a ring: resetting the context, resetting its
  children or summing up their memory never returns, and the test for emptiness never answers yes. After the start of the
  program this holds for \<open>TopMemoryContext\<close>.\<close>

theorem second_child_endless:
  assumes "kids h p xs" "xs \<noteq> []" "distinct (p # c # xs)" "c \<noteq> 0" "nodes h c = Some n" "MemoryContextLinkChild p c h = Returns h'"
  shows "MemoryContextReset f p h' \<noteq> Returns r \<and> MemoryContextResetChildren f p h' \<noteq> Returns r \<and>
    MemoryContextIsEmpty f p h' \<noteq> Returns True \<and> MemoryContextMemAllocated f p True h' \<noteq> Returns k"
proof -
  have ring: "closed_links (insert c (set xs)) h'" and first: "\<exists>np. nodes h' p = Some np \<and> firstchild np = c"
    using link_closes [OF assms(1-5)] assms(6) by auto
  note endless = reset_children_endless [OF ring insertI1] all_empty_endless [OF ring insertI1] sum_endless [OF ring insertI1]
  have "MemoryContextResetChildren f p h' \<noteq> Returns r"
    using first endless(1) by (auto simp: MemoryContextResetChildren_def)
  moreover have "MemoryContextReset f p h' \<noteq> Returns r"
    using first endless(1) by (cases f) (auto simp: and_then_Returns simp del: reset_children.simps)
  moreover have "MemoryContextIsEmpty f p h' \<noteq> Returns True"
    using first endless(2) by (cases f) (auto simp del: all_empty.simps split: if_splits)
  moreover have "MemoryContextMemAllocated f p True h' \<noteq> Returns k"
    using first endless(3) by (cases f) (auto simp del: sum_allocated.simps)
  ultimately show ?thesis by blast
qed

text \<open>The first contexts of the program: \<open>MemoryContextInit\<close>, then those of the engine.\<close>

lemmas context_code = context_create_def MemoryContextSetParent_def MemoryContextUnlinkChild_def MemoryContextLinkChild_def
  MemoryContextInit_def new_context_def no_contexts_def kids_def Let_def

lemma first_contexts:
  "\<exists>h. MemoryContextInit 1000 2000 no_contexts = Returns h \<and> kids h 1000 [2000] \<and> nodes h 3000 = None"
  by (simp add: context_code)

theorem second_child_endless_witness:
  "\<exists>h. and_then (MemoryContextInit 1000 2000 no_contexts) (context_create 3000 1000 ''EngineContext'') = Returns h \<and>
     (\<forall>f r. MemoryContextReset f 1000 h \<noteq> Returns r)"
proof -
  obtain h where h: "MemoryContextInit 1000 2000 no_contexts = Returns h" "kids h 1000 [2000]" "nodes h 3000 = None"
    using first_contexts by blast
  define h1 where "h1 = h\<lparr>nodes := (nodes h)(3000 := Some (new_context ''EngineContext''))\<rparr>"
  have kids: "kids h1 1000 [2000]" and n: "nodes h1 3000 = Some (new_context ''EngineContext'')"
    using h(2) by (simp_all add: h1_def kids_def)
  obtain h2 where link: "MemoryContextLinkChild 1000 3000 h1 = Returns h2"
    using link_closes [OF kids _ _ _ n] by auto
  have "context_create 3000 1000 ''EngineContext'' h = Returns h2"
    using link n by (simp add: context_create_def MemoryContextSetParent_def MemoryContextUnlinkChild_def h1_def new_context_def)
  then show ?thesis using h(1) second_child_endless [OF kids _ _ _ n link] by auto
qed

text \<open>C23: Deletion of the children of a context, which deletion of a context consists of but for the context itself. Whatever
  tree of contexts hangs below it, it ends (with fuel for every context of the tree), meets no dangling pointer and leaves the
  context without children; every context below is deleted exactly once, newest child first, after its own callbacks
  (latest registered first) and its children; and no other context is touched.\<close>

theorem delete_children_complete:
  assumes "tree_in h (Ctx a ts)" "distinct (addresses (Ctx a ts))" "a \<noteq> 0" "length (addresses (Ctx a ts)) \<le> f"
  shows "\<exists>h'. MemoryContextDeleteChildren f a h = Returns h' \<and> history h' = history h @ concat (map (delete_log h) ts) \<and>
    kids h' a [] \<and> (\<forall>t \<in> set ts. \<forall>x \<in> set (addresses t). nodes h' x = None) \<and>
    (\<forall>x. x \<notin> set (addresses (Ctx a ts)) \<longrightarrow> nodes h' x = nodes h x)"
  using delete_children_run [OF assms] by (auto simp: deleted_below_def kids_def)

lemma engine_contexts:
  "\<exists>h. and_then (MemoryContextInit 1000 2000 no_contexts) (\<lambda>h. and_then (context_create 3000 1000 ''EngineContext'' h)
     (\<lambda>h. and_then (context_create 4000 3000 ''WALContext'' h) (context_create 5000 3000 ''VacuumContext''))) = Returns h \<and>
     tree_in h (Ctx 3000 [Ctx 5000 [], Ctx 4000 []]) \<and> history h = [] \<and> callbacks_of h 4000 = [] \<and> callbacks_of h 5000 = []"
  by (simp add: context_code callbacks_of_def)

theorem delete_children_complete_witness:
  "\<exists>h h'. and_then (MemoryContextInit 1000 2000 no_contexts) (\<lambda>h. and_then (context_create 3000 1000 ''EngineContext'' h)
     (\<lambda>h. and_then (context_create 4000 3000 ''WALContext'' h) (context_create 5000 3000 ''VacuumContext''))) = Returns h \<and>
     MemoryContextDeleteChildren 3 3000 h = Returns h' \<and> history h' = [ContextDeleted 5000, ContextDeleted 4000] \<and>
     nodes h' 1000 = nodes h 1000"
proof -
  obtain h where h: "and_then (MemoryContextInit 1000 2000 no_contexts) (\<lambda>h. and_then (context_create 3000 1000 ''EngineContext'' h)
     (\<lambda>h. and_then (context_create 4000 3000 ''WALContext'' h) (context_create 5000 3000 ''VacuumContext''))) = Returns h"
    "tree_in h (Ctx 3000 [Ctx 5000 [], Ctx 4000 []])" "history h = []" "callbacks_of h 4000 = []" "callbacks_of h 5000 = []"
    using engine_contexts by blast
  obtain h' where "MemoryContextDeleteChildren 3 3000 h = Returns h'"
    "history h' = history h @ concat (map (delete_log h) [Ctx 5000 [], Ctx 4000 []])"
    "\<forall>x. x \<notin> set (addresses (Ctx 3000 [Ctx 5000 [], Ctx 4000 []])) \<longrightarrow> nodes h' x = nodes h x"
    using delete_children_complete [OF h(2), of 3] by auto
  with h show ?thesis by auto
qed

end
