(* ===== verification/Spec2Isabelle.thy ===== *)
theory Spec2Isabelle
  imports Mem_Table Supervisor Lock_Manager Sessions Arena Bump Context_Tree
begin

text \<open>
  JiaMiaoDB (\<open>src/src\<close>) is a small SQL server: a multi-version storage engine with write-ahead log, checkpoints and a
  transaction manager, an SQL front end, a planner that remembers its workload, a natural language front end, and a port of
  the memory contexts of PostgreSQL. This development models these parts definition by definition and proves what makes
  them correct; where the code does not do what it means to, it proves what the code does instead.

  \<^bold>\<open>How a request runs.\<close> \<open>server/server.cpp\<close> cuts what a client sends into statements. SQL goes through \<open>sql/lexer.cpp\<close> and
  \<open>sql/parser.cpp\<close>, other text through \<open>ai/nl_parser.cpp\<close>; both end in one intent. Transaction statements and most of the
  DDL are carried out by the server itself; the rest is planned (\<open>ai/planner.cpp\<close>, asking \<open>ai/memory.cpp\<close>) into a pipeline
  that \<open>ai/executor.cpp\<close> runs on \<open>storage/engine.cpp\<close>. The engine keeps a \<open>MemTable\<close> (a skip list of encoded rows) per table,
  the catalog, the transaction manager with its commit log, and writes the log and the checkpoints it is started from.

  \<^bold>\<open>Theories and sources.\<close>
  \<^item> \<open>JM_Prelude\<close>: machine integers, \<open>std::map\<close> and \<open>std::set\<close> as ordered lists, exceptions as sums. \<open>Float64\<close>, \<open>Float_Arith\<close>:
    \<open>double\<close> as IEEE bits with the conversions and the arithmetic the code uses. \<open>JM_Types\<close>, \<open>Statements\<close>: \<open>types.h\<close>.
  \<^item> \<open>Byte_Codec\<close> (the shared binary readers and writers), \<open>Json\<close> (\<open>common/json.h\<close>), \<open>Tuple\<close> (\<open>storage/tuple\<close>), \<open>Wal_Payload\<close>
    (\<open>storage/wal_payload\<close>), \<open>Wal_V3\<close> (\<open>storage/wal_v3\<close>), \<open>Catalog\<close> and \<open>Catalog_Codec\<close> (\<open>storage/catalog\<close>,
    \<open>storage/catalog_codec\<close>), \<open>Clog_Codec\<close> (\<open>storage/clog_codec\<close>), \<open>Checkpoint_Codec\<close> (\<open>storage/checkpoint\<close>,
    \<open>storage/checkpoint_codec\<close>): the formats on disk, their round trips, and what they do with damaged input.
  \<^item> \<open>Skip_List\<close> (\<open>storage/skiplist.h\<close>, nodes and forward pointers) and \<open>Mem_Table\<close> (\<open>storage/memtable\<close>); \<open>Row_Store\<close> is the
    contract of a table that holds one version of a row.
  \<^item> \<open>Transaction\<close> (\<open>storage/transaction\<close>) and \<open>Lock_Manager\<close> (\<open>storage/lock_manager\<close>, calls of many threads interleaved).
  \<^item> \<open>Engine_State\<close>, \<open>Engine\<close>, \<open>Recovery\<close>: \<open>storage/engine\<close>, statement by statement, in a style where an exception keeps the
    changes made before it. \<open>Engine_Invariant\<close> and \<open>Engine_Steps\<close>: the structural invariant through every method.
    \<open>Rollback\<close>: what ROLLBACK and ROLLBACK TO restore. \<open>Insert_Effect\<close>: what an insertion adds.
  \<^item> \<open>Lexer\<close>, \<open>Parser\<close> (\<open>sql\<close>), \<open>Config\<close> (\<open>config.h\<close>), \<open>Workload_Memory\<close>, \<open>Planner\<close>, \<open>Executor\<close>, \<open>NL_Parser\<close> (\<open>ai\<close>), \<open>Supervisor\<close>
    (\<open>supervisor\<close>), \<open>Server\<close> (\<open>server\<close>). \<open>Query_Plans\<close>: what a plan computes. \<open>Sessions\<close>: whole sessions at the server.
  \<^item> \<open>Raw_Memory\<close> (bytes, \<open>malloc\<close> and \<open>free\<close>), \<open>Alloc_Set\<close> (\<open>common/allocset\<close>), \<open>Alloc_Safety\<close> (its invariant), \<open>Alloc_Client\<close> (runs
    of a client, reset and reallocation), \<open>Memory_Context\<close> and \<open>Context_Tree\<close> (the tree of contexts in \<open>common/memcontext\<close>
    and the scopes of \<open>common/jm_alloc.h\<close>), \<open>Context_Api\<close> (\<open>jmalloc\<close>, \<open>jmfree\<close> and their kin), \<open>Bump\<close> (\<open>common/bump\<close>),
    \<open>Arena\<close> (\<open>storage/arena\<close>).

  \<^bold>\<open>State and operations.\<close> A class is a record of its members, a method a function of the record (\<open>Engine\<close>, \<open>TM\<close>, \<open>LM\<close>, \<open>CLog\<close>,
  \<open>Server\<close>, \<open>WorkloadMemory\<close> keep their names). An exception is the left of a sum: with the state before the call where the
  code changes nothing first, with the state reached where it does (engine, executor, server). \<open>int64_t\<close> is a 64-bit word that
  is compared as signed and wraps around, \<open>TransactionId\<close> a 32-bit word, \<open>std::string\<close> a list of characters, a buffer a list
  of bytes. What the program takes from outside (time, random salts and levels, the answer of the language model, texts of the
  standard exceptions, addresses \<open>malloc\<close> returns, system calls that fail) is an argument or a stream.

  \<^bold>\<open>What the lemmas show.\<close>
  \<^item> Refinement: sessions and transactions that roll back leave the database as it was (\<open>Sessions\<close>, \<open>Rollback\<close>); the skip list is
    an ordered map (\<open>Skip_List\<close>); every plan without an index computes selection and projection (\<open>Query_Plans\<close>).
  \<^item> Invariants: tables sorted, row ids unique and below their counter (\<open>Engine_Steps\<close>), the books of the transaction manager
    (\<open>Transaction\<close>), the databases and schemas that always exist (\<open>Catalog\<close>).
  \<^item> Safety and liveness: exclusive locks and the end of waiting (\<open>Lock_Manager\<close>), what a crash may take from the log (\<open>Wal_V3\<close>),
    what a reader may see (\<open>Transaction\<close>), what the supervisor lets pass (\<open>Supervisor\<close>).
  \<^item> Round trips: the binary formats, JSON, the text of SQL (\<open>Lexer\<close>, \<open>Parser\<close>); termination of lexer and parser; types of
    evaluated expressions.
  \<^item> Behaviour the code does not intend: replay drops the row changes of transactions, an INSERT that fails half-way is
    committed, plans through an index find nothing, the natural language front end never sees the schema, snapshots do not
    exclude later transactions, two waiting calls of a transaction leak a lock, a reset of a memory context may leave its
    active block dangling, reallocating a large chunk loses its contents, a second child closes the children of a context
    into a ring, and a bump context hands out the same chunk twice. Two more are lemmas: a log reopened with a torn record
    loses what is appended behind it (\<open>Wal_V3\<close>), and replay gives XIDs out again (\<open>Sessions\<close>).

  \<^bold>\<open>Interfaces\<close> are locales, interpreted on the model's own definitions: \<open>map_adt\<close>, \<open>codec\<close>, \<open>stream_codec\<close>, \<open>vec_codec\<close>,
  \<open>record_log\<close>, \<open>commit_log\<close>, \<open>ordered_store\<close>, \<open>version_store\<close>, \<open>row_store\<close>, \<open>chunk_provider\<close> (what users of memory chunks rely on).

  \<^bold>\<open>What the step relations leave out.\<close> \<open>eng_step\<close> has every public call of the engine but loading and replay, and
  none that inserts at the largest row id or creates a table anew under a name the open transaction has undo records for.
  \<open>tm_step\<close> starts from a manager that is new or recovered from a checkpoint whose log lies below its counter; replay,
  \<open>from_json\<close> and moving the counter later are no steps. \<open>lock_step\<close> has one call in progress per transaction. \<open>aset_step\<close>
  resets a context only while its newest block is the active one. The theorems on these relations hold under these
  conditions; where one is broken by the program itself, a theorem or lemma says what happens then.

  \<^bold>\<open>Fuel and bounds.\<close> The JSON parser runs with twice the length of the text and two (\<open>parse_fuel\<close>), every loop of the
  SQL parser with one more than the tokens left (\<open>fuelP\<close>); \<open>json_roundtrip\<close> and \<open>parser_ends\<close> show that this never runs
  out. Pointer loops of the skip list run with the number of nodes, which \<open>skiplist_history\<close> shows to be enough. The
  bounds of the allocators are for requests below \<open>2 ^ 62\<close> bytes, far above the 1 GB that \<open>MemoryContextAllocExtended\<close>
  lets through. The tree of contexts is walked with fuel; deletion needs one unit per context
  (\<open>delete_children_complete\<close>), and the endless walks are endless for every amount.

  \<^bold>\<open>Not modelled.\<close> Sockets, worker threads, signal handlers, the console and \<open>main.cpp\<close>; libcurl behind \<open>call_api\<close>; I/O
  errors of the log file; the interleaving of engine methods (each is one step; the lock manager, which serialises them,
  is modelled with its interleavings). Formatted printing into contexts and the STL adapter \<open>JMAlloc\<close>. The engine model
  keeps its tables as values: that the arena gives its objects memory of their own is \<open>arena_objects\<close>. The tests and the
  vendored test framework are left out.
\<close>

end
